(* ===== verification/CBase.thy ===== *)
theory CBase
imports Main "HOL-Library.Word" "HOL-Library.Monad_Syntax"
begin

text \<open>
  Prelude of the GRUB4DOS development: the machine types of the i386 build, checked accesses to
  C objects, C strings, little-endian fields and the error codes of \<open>stage2/shared.h\<close>.

  A C object (an array, a string buffer, a sector buffer) is the list of its bytes and a pointer
  into it is an index.  Reading or writing outside the object is undefined behaviour in C, so
  both return \<open>None\<close> there: a model function that returns \<open>Some\<close> made no access out of bounds.
  Unsigned longs, ints and pointers are 32 bits wide; \<open>char\<close> is signed on this target, so
  comparisons between characters use \<open>word_sless\<close>.
\<close>

unbundle bit_operations_syntax

section \<open>Machine types\<close>

type_synonym u8 = "8 word"
type_synonym u16 = "16 word"
type_synonym u32 = "32 word"
type_synonym cbuf = "u8 list"

abbreviation ch :: "char \<Rightarrow> u8" where
  "ch c \<equiv> of_char c"

abbreviation cs :: "string \<Rightarrow> u8 list" where
  "cs s \<equiv> map of_char s"

named_theorems cmem \<open>facts about checked accesses to C objects\<close>
named_theorems cstr \<open>facts about C strings\<close>

lemma unat_u32 [simp]: "unat (x :: u32) < 4294967296"
proof -
  have "unat x < 2 ^ LENGTH(32)" by (rule unsigned_less)
  then show ?thesis by simp
qed

lemma unat_u32_le [simp]: "unat (x :: u32) \<le> 4294967296"
  by (rule less_imp_le) (rule unat_u32)

lemma unat_u8 [simp]: "unat (x :: u8) < 256"
proof -
  have "unat x < 2 ^ LENGTH(8)" by (rule unsigned_less)
  then show ?thesis by simp
qed

lemma unat_u16 [simp]: "unat (x :: u16) < 65536"
proof -
  have "unat x < 2 ^ LENGTH(16)" by (rule unsigned_less)
  then show ?thesis by simp
qed

lemma unat_diff_up:
  assumes "i < 2 ^ 32" "j \<le> i"
  shows "unat (of_nat i - of_nat j :: u32) = i - j"
proof -
  have "of_nat i - of_nat j = (of_nat (i - j) :: u32)" using assms by (simp only: of_nat_diff)
  then show ?thesis using assms by (simp add: unat_of_nat del: of_nat_diff)
qed

lemma unat_diff_wrap:
  "i < 2 ^ 32 \<Longrightarrow> j < 2 ^ 32 \<Longrightarrow> i < j \<Longrightarrow> unat (of_nat i - of_nat j :: u32) = 2 ^ 32 + i - j"
  by (simp add: unat_sub_if' unat_of_nat)

section \<open>Error codes\<close>

datatype (plugins only: code size) grub_error =
    ERR_NONE | ERR_BAD_FILENAME | ERR_BAD_FILETYPE | ERR_BAD_GZIP_DATA | ERR_BAD_GZIP_HEADER
  | ERR_BAD_PART_TABLE | ERR_BAD_VERSION | ERR_BELOW_1MB | ERR_BOOT_COMMAND | ERR_BOOT_FAILURE
  | ERR_BOOT_FEATURES | ERR_DEL_MEM_DRIVE | ERR_DEV_FORMAT | ERR_DEV_VALUES | ERR_EXEC_FORMAT
  | ERR_EXTENDED_PARTITION | ERR_FILELENGTH | ERR_FILE_NOT_FOUND | ERR_FSYS_CORRUPT
  | ERR_FSYS_MOUNT | ERR_GEOM | ERR_HD_VOL_START_0 | ERR_IN_SITU_FLOPPY | ERR_IN_SITU_MEM
  | ERR_NEED_LX_KERNEL | ERR_NEED_MB_KERNEL | ERR_NO_DISK | ERR_NO_PART | ERR_NUMBER_PARSING
  | ERR_OUTSIDE_PART | ERR_READ | ERR_SYMLINK_LOOP | ERR_UNRECOGNIZED | ERR_WONT_FIT | ERR_WRITE
  | ERR_BAD_ARGUMENT | ERR_UNALIGNED | ERR_PRIVILEGED | ERR_DEV_NEED_INIT | ERR_NO_DISK_SPACE
  | ERR_NUMBER_OVERFLOW | ERR_NON_CONTIGUOUS | ERR_NO_HEADS | ERR_NO_SECTORS | ERR_INT13_ON_HOOK
  | ERR_INT13_OFF_HOOK | ERR_NO_DRIVE_MAPPED | ERR_INVALID_HEADS | ERR_INVALID_SECTORS
  | ERR_SPECIFY_GEOM | ERR_SPECIFY_MEM | ERR_INVALID_FLOPPIES | ERR_INVALID_HARDDRIVES
  | ERR_INVALID_LOAD_SEGMENT | ERR_INVALID_LOAD_OFFSET | ERR_INVALID_LOAD_LENGTH
  | ERR_INVALID_SKIP_LENGTH | ERR_INVALID_BOOT_CS | ERR_INVALID_BOOT_IP | ERR_INVALID_RAM_DRIVE
  | ERR_MD_BASE | ERR_RD_BASE | ERR_DOS_BACKUP | ERR_ENABLE_A20 | ERR_DISABLE_A20
  | ERR_DEFAULT_FILE | ERR_PARTITION_TABLE_FULL

section \<open>Checked accesses\<close>

definition rd :: "'a list \<Rightarrow> nat \<Rightarrow> 'a option" where
  "rd b i = (if i < length b then Some (b ! i) else None)"

definition wr :: "'a list \<Rightarrow> nat \<Rightarrow> 'a \<Rightarrow> 'a list option" where
  "wr b i v = (if i < length b then Some (b[i := v]) else None)"

lemma rd_eq_Some [cmem]: "rd b i = Some c \<longleftrightarrow> i < length b \<and> c = b ! i"
  by (auto simp: rd_def)

lemma rd_in [simp]: "i < length b \<Longrightarrow> rd b i = Some (b ! i)"
  by (simp add: rd_def)

lemma rd_out [simp]: "\<not> i < length b \<Longrightarrow> rd b i = None"
  by (simp add: rd_def)

lemma wr_eq_Some [cmem]: "wr b i v = Some b' \<longleftrightarrow> i < length b \<and> b' = b[i := v]"
  by (auto simp: wr_def)

lemma wr_in [simp]: "i < length b \<Longrightarrow> wr b i v = Some (b[i := v])"
  by (simp add: wr_def)

lemma rd_SomeD [dest]: "rd b i = Some c \<Longrightarrow> i < length b"
  by (simp add: rd_eq_Some)

lemma rd_append_left [simp]: "i < length a \<Longrightarrow> rd (a @ b) i = rd a i"
  by (simp add: rd_def nth_append)

lemma rd_append_right: "rd (a @ b) (length a + i) = rd b i"
  by (simp add: rd_def nth_append)

lemma rd_drop: "rd (drop k b) i = rd b (k + i)"
  by (simp add: rd_def) linarith

lemma rd_Cons_0 [simp]: "rd (x # xs) 0 = Some x"
  by (simp add: rd_def)

lemma rd_Cons_Suc [simp]: "rd (x # xs) (Suc i) = rd xs i"
  by (simp add: rd_def)

text \<open>The bytes \<open>b[i .. i+n)\<close> of an object, when all of them lie inside it.\<close>

definition slice :: "'a list \<Rightarrow> nat \<Rightarrow> nat \<Rightarrow> 'a list option" where
  "slice b i n = (if i + n \<le> length b then Some (take n (drop i b)) else None)"

text \<open>\<open>blit b i s\<close> is \<open>b\<close> with the bytes \<open>s\<close> stored from index \<open>i\<close> on.\<close>

definition blit :: "'a list \<Rightarrow> nat \<Rightarrow> 'a list \<Rightarrow> 'a list" where
  "blit b i s = take i b @ s @ drop (i + length s) b"

lemma length_blit [simp]: "i + length s \<le> length b \<Longrightarrow> length (blit b i s) = length b"
  by (simp add: blit_def)

lemma nth_blit:
  assumes "i + length s \<le> length b"
  shows "blit b i s ! k = (if i \<le> k \<and> k < i + length s then s ! (k - i) else b ! k)"
proof -
  have l: "length (take i b) = i" using assms by simp
  consider "k < i" | "i \<le> k" "k < i + length s" | "i + length s \<le> k" by linarith
  then show ?thesis
  proof cases
    case 1
    then show ?thesis using l by (simp add: blit_def nth_append)
  next
    case 2
    then show ?thesis using l by (simp add: blit_def nth_append) linarith
  next
    case 3
    then have "drop (i + length s) b ! (k - i - length s) = b ! k"
      using assms by simp
    moreover have "\<not> k < i + length s" "\<not> k - i < length s" "\<not> k < i" using 3 by linarith+
    ultimately show ?thesis using l by (simp add: blit_def nth_append del: nth_drop)
  qed
qed

lemma blit_Nil [simp]: "blit b i [] = b"
  by (simp add: blit_def)

lemma blit_Cons:
  "i + Suc (length s) \<le> length b \<Longrightarrow> blit b i (c # s) = blit (b[i := c]) (Suc i) s"
  by (simp add: blit_def take_Suc_conv_app_nth drop_update_cancel)

section \<open>C strings\<close>

text \<open>The string a pointer denotes: the bytes up to the first NUL, if there is one.\<close>

function str_of :: "cbuf \<Rightarrow> nat \<Rightarrow> u8 list option" where
  "str_of b i = (case rd b i of None \<Rightarrow> None | Some c \<Rightarrow>
     if c = 0 then Some [] else map_option ((#) c) (str_of b (Suc i)))"
  by pat_completeness auto
termination
  by (relation "measure (\<lambda>(b, i). length b - i)") (auto simp: cmem)

declare str_of.simps [simp del]

lemma str_of_Nil_iff [cstr]: "str_of b i = Some [] \<longleftrightarrow> rd b i = Some 0"
  by (subst str_of.simps) (auto split: option.splits)

lemma str_of_Cons_iff [cstr]:
  "str_of b i = Some (c # s) \<longleftrightarrow> rd b i = Some c \<and> c \<noteq> 0 \<and> str_of b (Suc i) = Some s"
  by (subst str_of.simps) (auto split: option.splits)

lemma str_of_iff:
  "str_of b i = Some s \<longleftrightarrow>
     i + length s < length b \<and> take (length s) (drop i b) = s \<and> b ! (i + length s) = 0 \<and> 0 \<notin> set s"
proof (induction s arbitrary: i)
  case Nil
  then show ?case by (auto simp: cstr cmem)
next
  case (Cons c s)
  show ?case
    by (cases "i < length b")
      (auto simp: cstr cmem Cons.IH Cons_nth_drop_Suc [symmetric] simp del: Cons_nth_drop_Suc)
qed

lemma str_of_bound: "str_of b i = Some s \<Longrightarrow> i + length s < length b"
  by (simp add: str_of_iff)

lemma str_of_nth: "str_of b i = Some s \<Longrightarrow> k < length s \<Longrightarrow> b ! (i + k) = s ! k"
  by (metis str_of_iff less_or_eq_imp_le nth_drop nth_take add_leD1)

lemma str_of_nth_nz: "str_of b i = Some s \<Longrightarrow> k < length s \<Longrightarrow> s ! k \<noteq> 0"
  by (metis nth_mem str_of_iff)

lemma str_of_suffix:
  "str_of b i = Some s \<Longrightarrow> k \<le> length s \<Longrightarrow> str_of b (i + k) = Some (drop k s)"
proof (induction k arbitrary: i s)
  case 0
  then show ?case by simp
next
  case (Suc k)
  then obtain c t where s: "s = c # t" by (cases s) auto
  have "str_of b (Suc i + k) = Some (drop k t)"
    using Suc.prems s by (intro Suc.IH) (auto simp: cstr)
  then show ?case by (simp add: s)
qed

lemma str_of_literal: "0 \<notin> set s \<Longrightarrow> str_of (s @ 0 # r) 0 = Some s"
  by (simp add: str_of_iff nth_append)

lemma str_of_at: "0 \<notin> set s \<Longrightarrow> str_of (p @ s @ 0 # r) (length p) = Some s"
  by (simp add: str_of_iff nth_append)

section \<open>Little-endian fields\<close>

definition le16 :: "u8 \<Rightarrow> u8 \<Rightarrow> u16" where
  "le16 b0 b1 = ucast b0 OR push_bit 8 (ucast b1)"

definition le32 :: "u8 \<Rightarrow> u8 \<Rightarrow> u8 \<Rightarrow> u8 \<Rightarrow> u32" where
  "le32 b0 b1 b2 b3 =
     ucast b0 OR push_bit 8 (ucast b1) OR push_bit 16 (ucast b2) OR push_bit 24 (ucast b3)"

definition get16 :: "cbuf \<Rightarrow> nat \<Rightarrow> u16 option" where
  "get16 b i = do { b0 \<leftarrow> rd b i; b1 \<leftarrow> rd b (i + 1); Some (le16 b0 b1) }"

definition get32 :: "cbuf \<Rightarrow> nat \<Rightarrow> u32 option" where
  "get32 b i = do { b0 \<leftarrow> rd b i; b1 \<leftarrow> rd b (i + 1); b2 \<leftarrow> rd b (i + 2); b3 \<leftarrow> rd b (i + 3);
     Some (le32 b0 b1 b2 b3) }"

definition bytes32 :: "u32 \<Rightarrow> u8 list" where
  "bytes32 w = [ucast w, ucast (drop_bit 8 w), ucast (drop_bit 16 w), ucast (drop_bit 24 w)]"

lemma length_bytes32 [simp]: "length (bytes32 w) = 4"
  by (simp add: bytes32_def)

lemma get16_in [cmem]: "i + 1 < length b \<Longrightarrow> get16 b i = Some (le16 (b ! i) (b ! (i + 1)))"
  by (simp add: get16_def)

lemma get32_in [cmem]: "i + 3 < length b \<Longrightarrow>
  get32 b i = Some (le32 (b ! i) (b ! (i + 1)) (b ! (i + 2)) (b ! (i + 3)))"
  by (simp add: get32_def)

lemma get32_None [cmem]: "\<not> i + 3 < length b \<Longrightarrow> get32 b i = None"
  by (auto simp: get32_def Option.bind_eq_None_conv rd_def)

lemma le32_bytes32: "le32 (ucast w) (ucast (drop_bit 8 w)) (ucast (drop_bit 16 w))
    (ucast (drop_bit 24 w)) = (w :: u32)"
proof (rule bit_word_eqI)
  fix n assume n: "n < LENGTH(32)"
  consider "n < 8" | "8 \<le> n" "n < 16" | "16 \<le> n" "n < 24" | "24 \<le> n" by linarith
  then show "bit (le32 (ucast w) (ucast (drop_bit 8 w)) (ucast (drop_bit 16 w))
      (ucast (drop_bit 24 w))) n = bit w n"
    using n by cases (auto simp: le32_def bit_simps)
qed

end
