(* ===== verification/StringLib.thy ===== *)
theory StringLib
imports CBase "HOL-Library.List_Lexorder" "HOL-Library.Sublist"
begin

text \<open>
  The libc replacements of \<open>stage2/char_io.c\<close>: character classes, string comparison and search,
  concatenation, and the block operations with their \<open>memcheck\<close> guard.  String functions work
  on an object and an index; the loops end because the index grows towards the end of the object,
  and a string without terminator makes them run out of it (\<open>None\<close>).  \<open>memcheck\<close>,
  \<open>memmove\<close>, \<open>memset\<close>, \<open>memcpy\<close> and \<open>strcpy\<close> take absolute addresses, so
  they work on the flat 32-bit memory.
\<close>

section \<open>Character classes\<close>

definition grub_tolower :: "u32 \<Rightarrow> u32" where
  "grub_tolower c = (if 65 \<le>s c \<and> c \<le>s 90 then c + (97 - 65) else c)"

definition grub_isspace :: "u32 \<Rightarrow> bool" where
  "grub_isspace c = (c = 32 \<or> c = 9 \<or> c = 13 \<or> c = 10)"

text \<open>A \<open>char\<close> argument is sign-extended to \<open>int\<close>; a result stored in a \<open>char\<close> is cut.\<close>

definition tolower_char :: "u8 \<Rightarrow> u8" where
  "tolower_char c = ucast (grub_tolower (scast c))"

definition isspace_char :: "u8 \<Rightarrow> bool" where
  "isspace_char c = grub_isspace (scast c)"

section \<open>Length\<close>

function grub_strlen_loop :: "cbuf \<Rightarrow> nat \<Rightarrow> nat \<Rightarrow> nat option" where
  "grub_strlen_loop b i len =
     do { c \<leftarrow> rd b i; if c \<noteq> 0 then grub_strlen_loop b (i + 1) (len + 1) else Some len }"
  by pat_completeness auto
termination
  by (relation "measure (\<lambda>(b, i, len). length b - i)") (auto simp: cmem)

definition grub_strlen :: "cbuf \<Rightarrow> nat \<Rightarrow> nat option" where
  "grub_strlen b i = grub_strlen_loop b i 0"

section \<open>Comparison and search\<close>

text \<open>The result of the comparisons, \<open>-1\<close>, \<open>0\<close> or \<open>1\<close>, is an \<open>int\<close>.\<close>

fun grub_memcmp :: "cbuf \<Rightarrow> nat \<Rightarrow> cbuf \<Rightarrow> nat \<Rightarrow> nat \<Rightarrow> int option" where
  "grub_memcmp b1 i b2 j 0 = Some 0"
| "grub_memcmp b1 i b2 j (Suc n) =
     do { c1 \<leftarrow> rd b1 i; c2 \<leftarrow> rd b2 j;
          if c1 <s c2 then Some (-1) else if c2 <s c1 then Some 1
          else grub_memcmp b1 (i + 1) b2 (j + 1) n }"

function grub_strcmp :: "cbuf \<Rightarrow> nat \<Rightarrow> cbuf \<Rightarrow> nat \<Rightarrow> int option" where
  "grub_strcmp b1 i b2 j =
     do { c1 \<leftarrow> rd b1 i; c2 \<leftarrow> rd b2 j;
          if c1 \<noteq> 0 \<or> c2 \<noteq> 0 then
            if c1 <s c2 then Some (-1) else if c2 <s c1 then Some 1
            else grub_strcmp b1 (i + 1) b2 (j + 1)
          else Some 0 }"
  by pat_completeness auto
termination
  by (relation "measure (\<lambda>(b1, i, b2, j). length b1 - i)") (auto simp: cmem)

function substring :: "cbuf \<Rightarrow> nat \<Rightarrow> cbuf \<Rightarrow> nat \<Rightarrow> bool \<Rightarrow> int option" where
  "substring b1 i b2 j ci =
     do { c1 \<leftarrow> rd b1 i; c2 \<leftarrow> rd b2 j;
          let ch1 = (if ci then tolower_char c1 else c1);
          let ch2 = (if ci then tolower_char c2 else c2);
          if ch1 = 0 then Some (if ch2 \<noteq> 0 then -1 else 0)
          else if ch1 \<noteq> ch2 then Some 1
          else substring b1 (i + 1) b2 (j + 1) ci }"
  by pat_completeness auto
termination
  by (relation "measure (\<lambda>(b1, i, b2, j, ci). length b1 - i)") (auto simp: cmem)

text \<open>The inner loop of \<open>grub_strstr\<close> returns how far it came in the pattern.\<close>

function strstr_match :: "cbuf \<Rightarrow> nat \<Rightarrow> cbuf \<Rightarrow> nat \<Rightarrow> nat option" where
  "strstr_match b1 ptr b2 tmp =
     do { t \<leftarrow> rd b2 tmp;
          if t \<noteq> 0 then do { p \<leftarrow> rd b1 ptr;
            if p = t then strstr_match b1 (ptr + 1) b2 (tmp + 1) else Some tmp }
          else Some tmp }"
  by pat_completeness auto
termination
  by (relation "measure (\<lambda>(b1, i, b2, j). length b2 - j)") (auto simp: cmem)

function grub_strstr :: "cbuf \<Rightarrow> nat \<Rightarrow> cbuf \<Rightarrow> nat \<Rightarrow> nat option option" where
  "grub_strstr b1 s1 b2 s2 =
     do { c \<leftarrow> rd b1 s1;
          if c \<noteq> 0 then do { tmp \<leftarrow> strstr_match b1 s1 b2 s2; t \<leftarrow> rd b2 tmp;
            if tmp > s2 \<and> t = 0 then Some (Some s1) else grub_strstr b1 (s1 + 1) b2 s2 }
          else Some None }"
  by pat_completeness auto
termination
  by (relation "measure (\<lambda>(b1, i, b2, j). length b1 - i)") (auto simp: cmem)

section \<open>Termination and concatenation\<close>

text \<open>\<open>nul_terminate\<close> returns the character it overwrote and the object it changed.\<close>

function nul_scan :: "cbuf \<Rightarrow> nat \<Rightarrow> nat option" where
  "nul_scan b i = do { c \<leftarrow> rd b i; if c \<noteq> 0 \<and> \<not> isspace_char c then nul_scan b (i + 1) else Some i }"
  by pat_completeness auto
termination
  by (relation "measure (\<lambda>(b, i). length b - i)") (auto simp: cmem)

definition nul_terminate :: "cbuf \<Rightarrow> nat \<Rightarrow> (u8 \<times> cbuf) option" where
  "nul_terminate b i = do { j \<leftarrow> nul_scan b i; c \<leftarrow> rd b j; b' \<leftarrow> wr b j 0; Some (c, b') }"

text \<open>
  \<open>grub_strncat s1 s2 n\<close>: \<open>p\<close> and \<open>q\<close> are the positions of \<open>s1\<close> and \<open>s2\<close> in their
  objects.  The first loop finds the end of \<open>s1\<close>, the second copies and leaves its counter one
  past the terminator it copied.
\<close>

function strncat_end :: "cbuf \<Rightarrow> nat \<Rightarrow> nat \<Rightarrow> nat \<Rightarrow> nat option" where
  "strncat_end b1 p n i =
     (if i < n then do { c \<leftarrow> rd b1 (p + i); if c \<noteq> 0 then strncat_end b1 p n (i + 1) else Some i }
      else Some i)"
  by pat_completeness auto
termination
  by (relation "measure (\<lambda>(b1, p, n, i). n - i)") auto

function strncat_copy :: "cbuf \<Rightarrow> nat \<Rightarrow> cbuf \<Rightarrow> nat \<Rightarrow> nat \<Rightarrow> nat \<Rightarrow> (nat \<times> cbuf) option" where
  "strncat_copy b1 p b2 q n i =
     (if i < n then do { c \<leftarrow> rd b2 q; b1' \<leftarrow> wr b1 (p + i) c;
        if c \<noteq> 0 then strncat_copy b1' p b2 (q + 1) n (i + 1) else Some (i + 1, b1') }
      else Some (i, b1))"
  by pat_completeness auto
termination
  by (relation "measure (\<lambda>(b1, p, b2, q, n, i). n - i)") auto

definition grub_strncat :: "cbuf \<Rightarrow> nat \<Rightarrow> cbuf \<Rightarrow> nat \<Rightarrow> nat \<Rightarrow> (int \<times> cbuf) option" where
  "grub_strncat b1 p b2 q n =
     (if n = 0 then None else
      do { i \<leftarrow> strncat_end b1 p n 0;
           (i', b) \<leftarrow> strncat_copy b1 p b2 q n i;
           b' \<leftarrow> wr b (p + n - 1) 0;
           if i' \<ge> n then Some (0, b')
           else do { b'' \<leftarrow> wr b' (p + i') 0; Some (1, b'') } })"

section \<open>Memory blocks\<close>

type_synonym mem = "u32 \<Rightarrow> u8"

text \<open>
  \<open>memcheck addr len\<close> with \<open>mem_upper\<close> the \<open>mbi.mem_upper\<close> field (in KiB): it clears
  \<open>errnum\<close>, then sets \<open>ERR_WONT_FIT\<close>; the result is \<open>! errnum\<close>.
\<close>

definition memcheck :: "u32 \<Rightarrow> u32 \<Rightarrow> u32 \<Rightarrow> grub_error" where
  "memcheck mem_upper addr len =
     (if addr = 0 \<or> (addr \<ge> 0x100000 \<and> mem_upper * 1024 < (addr - 0x100000) + len)
      then ERR_WONT_FIT else ERR_NONE)"

text \<open>\<open>rep movsb\<close> with the direction flag clear (upwards) or set (downwards).\<close>

fun movsb_up :: "nat \<Rightarrow> u32 \<Rightarrow> u32 \<Rightarrow> mem \<Rightarrow> mem" where
  "movsb_up 0 di si m = m"
| "movsb_up (Suc n) di si m = movsb_up n (di + 1) (si + 1) (m(di := m si))"

fun movsb_down :: "nat \<Rightarrow> u32 \<Rightarrow> u32 \<Rightarrow> mem \<Rightarrow> mem" where
  "movsb_down 0 di si m = m"
| "movsb_down (Suc n) di si m = movsb_down n (di - 1) (si - 1) (m(di := m si))"

text \<open>The result is the returned pointer (\<open>None\<close> for \<open>NULL\<close>), the new \<open>errnum\<close> and memory.\<close>

definition grub_memmove :: "u32 \<Rightarrow> u32 \<Rightarrow> u32 \<Rightarrow> u32 \<Rightarrow> mem \<Rightarrow> u32 option \<times> grub_error \<times> mem" where
  "grub_memmove mem_upper to from len m =
     (let e = memcheck mem_upper to len;
          m' = (if e = ERR_NONE
                then if to < from then movsb_up (unat len) to from m
                     else movsb_down (unat len) (len - 1 + to) (len - 1 + from) m
                else m)
      in (if e \<noteq> ERR_NONE then None else Some to, e, m'))"

fun memset_loop :: "nat \<Rightarrow> u32 \<Rightarrow> u8 \<Rightarrow> mem \<Rightarrow> mem" where
  "memset_loop 0 p c m = m"
| "memset_loop (Suc n) p c m = memset_loop n (p + 1) c (m(p := c))"

text \<open>\<open>len\<close> is a signed count in the loop \<open>while (len -- > 0)\<close>: a negative one stores nothing.\<close>

definition grub_memset :: "u32 \<Rightarrow> u32 \<Rightarrow> u32 \<Rightarrow> u32 \<Rightarrow> mem \<Rightarrow> u32 option \<times> grub_error \<times> mem" where
  "grub_memset mem_upper start c len m =
     (let e = memcheck mem_upper start len;
          m' = (if e = ERR_NONE then memset_loop (nat (sint len)) start (ucast c) m else m)
      in (if e \<noteq> ERR_NONE then None else Some start, e, m'))"

text \<open>\<open>grub_memcpy\<close> copies \<open>n/4\<close> words, then a halfword and a byte as bits 1 and 0 of \<open>n\<close> ask.\<close>

fun movsl_up :: "nat \<Rightarrow> u32 \<Rightarrow> u32 \<Rightarrow> mem \<Rightarrow> mem" where
  "movsl_up 0 di si m = m"
| "movsl_up (Suc n) di si m = movsl_up n (di + 4) (si + 4)
     (m(di := m si, di + 1 := m (si + 1), di + 2 := m (si + 2), di + 3 := m (si + 3)))"

definition grub_memcpy :: "u32 \<Rightarrow> u32 \<Rightarrow> u32 \<Rightarrow> mem \<Rightarrow> mem" where
  "grub_memcpy to from n m =
     (let q = unat n div 4;
          m1 = movsl_up q to from m;
          d1 = to + of_nat (4 * q); s1 = from + of_nat (4 * q);
          m2 = (if bit n 1 then m1(d1 := m1 s1, d1 + 1 := m1 (s1 + 1)) else m1);
          d2 = (if bit n 1 then d1 + 2 else d1); s2 = (if bit n 1 then s1 + 2 else s1)
      in if bit n 0 then m2(d2 := m2 s2) else m2)"


section \<open>String functions against the strings they read\<close>

declare grub_strlen_loop.simps [simp del] grub_strcmp.simps [simp del] substring.simps [simp del]
  strstr_match.simps [simp del] grub_strstr.simps [simp del] nul_scan.simps [simp del]
  strncat_end.simps [simp del] strncat_copy.simps [simp del]

lemma grub_strlen_loop_eq:
  "grub_strlen_loop b i len = map_option (\<lambda>s. len + length s) (str_of b i)"
proof (induction b i len rule: grub_strlen_loop.induct)
  case (1 b i len)
  show ?case
    by (subst grub_strlen_loop.simps, subst str_of.simps)
      (use "1.IH" in \<open>auto simp: rd_def option.map_comp comp_def\<close>)
qed

lemma grub_strlen_eq: "grub_strlen b i = map_option length (str_of b i)"
  by (simp add: grub_strlen_def grub_strlen_loop_eq)

text \<open>
  The order \<open>grub_strcmp\<close> decides: lexicographic on the signed characters, the terminator
  included (so a string of negative characters comes before its own proper prefixes).
\<close>

definition strkey :: "u8 list \<Rightarrow> int list" where
  "strkey s = map sint s @ [0]"

lemma sint_inj: "inj (sint :: u8 \<Rightarrow> int)"
  by (rule injI) (rule signed_word_eqI)

lemma sint_0_iff [simp]: "sint (c :: u8) = 0 \<longleftrightarrow> c = 0"
  using sint_inj [THEN injD, of c 0] by auto

lemma strkey_inj: "strkey s = strkey t \<longleftrightarrow> s = t"
  by (simp add: strkey_def inj_map_eq_map [OF sint_inj])

definition cmp_int :: "'a::linorder \<Rightarrow> 'a \<Rightarrow> int" where
  "cmp_int x y = (if x < y then -1 else if y < x then 1 else 0)"

lemma grub_strcmp_strkey:
  assumes "str_of b1 i = Some s" "str_of b2 j = Some t"
  shows "grub_strcmp b1 i b2 j = Some (cmp_int (strkey s) (strkey t))"
  using assms
proof (induction b1 i b2 j arbitrary: s t rule: grub_strcmp.induct)
  case (1 b1 i b2 j)
  show ?case
    using "1.prems" "1.IH"
    by (cases s; cases t; subst grub_strcmp.simps)
      (auto simp: cstr strkey_def cmp_int_def word_sless_alt)
qed

lemma tolower_char_0 [simp]: "tolower_char c = 0 \<longleftrightarrow> c = 0"
proof -
  have "\<forall>c::u8. tolower_char c = 0 \<longleftrightarrow> c = 0" by code_simp
  then show ?thesis by blast
qed

lemma tolower_char_of_0 [simp]: "tolower_char 0 = 0"
  by simp

definition fold_case :: "bool \<Rightarrow> u8 list \<Rightarrow> u8 list" where
  "fold_case ci s = (if ci then map tolower_char s else s)"

lemma substring_prefix:
  assumes "str_of b1 i = Some s" "str_of b2 j = Some t"
  shows "substring b1 i b2 j ci = Some
    (if fold_case ci s = fold_case ci t then 0
     else if prefix (fold_case ci s) (fold_case ci t) then -1 else 1)"
  using assms
proof (induction b1 i b2 j ci arbitrary: s t rule: substring.induct)
  case (1 b1 i b2 j ci)
  show ?case
    using "1.prems" "1.IH"
    by (cases s; cases t; subst substring.simps) (auto simp: cstr fold_case_def)
qed

lemma strstr_match_prefix:
  assumes "str_of b1 i = Some s" "str_of b2 j = Some t"
  shows "\<exists>k \<le> length t. strstr_match b1 i b2 j = Some (j + k) \<and> (k = length t \<longleftrightarrow> prefix t s)"
  using assms
proof (induction b1 i b2 j arbitrary: s t rule: strstr_match.induct)
  case (1 b1 i b2 j)
  consider "t = []" | c t' where "t = c # t'" "\<not> (\<exists>s'. s = c # s')"
    | c t' s' where "t = c # t'" "s = c # s'"
    by (cases t) auto
  then show ?case
  proof cases
    case 1
    then show ?thesis using "1.prems" by (subst strstr_match.simps) (auto simp: cstr)
  next
    case 2
    then show ?thesis using "1.prems"
      by (cases s; subst strstr_match.simps) (auto simp: cstr)
  next
    case 3
    have p: "rd b2 j = Some c" "c \<noteq> 0" "rd b1 i = Some c"
      "str_of b1 (i + 1) = Some s'" "str_of b2 (j + 1) = Some t'"
      using 3 "1.prems" by (auto simp: cstr)
    from "1.IH" [OF p(1,2,3) refl p(4,5)] obtain k where
      k: "k \<le> length t'" "strstr_match b1 (i + 1) b2 (j + 1) = Some (j + 1 + k)"
         "k = length t' \<longleftrightarrow> prefix t' s'"
      by blast
    show ?thesis
      by (rule exI [of _ "Suc k"], subst strstr_match.simps) (use 3 p k in auto)
  qed
qed

text \<open>First occurrence of a non-empty pattern; an empty pattern is never found.\<close>

fun first_occ :: "u8 list \<Rightarrow> u8 list \<Rightarrow> nat option" where
  "first_occ t [] = None"
| "first_occ t (c # s) = (if t \<noteq> [] \<and> prefix t (c # s) then Some 0 else map_option Suc (first_occ t s))"

lemma grub_strstr_first_occ:
  assumes "str_of b1 i = Some s" "str_of b2 j = Some t"
  shows "grub_strstr b1 i b2 j = Some (map_option ((+) i) (first_occ t s))"
  using assms
proof (induction b1 i b2 j arbitrary: s rule: grub_strstr.induct)
  case (1 b1 i b2 j)
  show ?case
  proof (cases s)
    case Nil
    then show ?thesis using "1.prems" by (subst grub_strstr.simps) (auto simp: cstr)
  next
    case (Cons c s')
    then have p: "rd b1 i = Some c" "c \<noteq> 0" "str_of b1 (i + 1) = Some s'"
      using "1.prems" by (auto simp: cstr)
    obtain k where k: "k \<le> length t" "strstr_match b1 i b2 j = Some (j + k)"
      "k = length t \<longleftrightarrow> prefix t s"
      using strstr_match_prefix [OF "1.prems"] by blast
    have r: "rd b2 (j + k) = Some (if k = length t then 0 else t ! k)"
      using "1.prems"(2) k(1) str_of_nth [OF "1.prems"(2), of k]
      by (auto simp: str_of_iff cmem)
    have t: "(if k = length t then 0 else t ! k) = 0 \<longleftrightarrow> k = length t"
      using str_of_nth_nz [OF "1.prems"(2), of k] k(1) by auto
    show ?thesis
    proof (cases "k = length t \<and> t \<noteq> []")
      case True
      then show ?thesis using p k r Cons by (subst grub_strstr.simps) auto
    next
      case False
      then have n: "\<not> (j + k > j \<and> (if k = length t then 0 else t ! k) = 0)"
        using t by auto
      have "grub_strstr b1 (i + 1) b2 j = Some (map_option ((+) (i + 1)) (first_occ t s'))"
        by (rule "1.IH" [OF p(1,2) k(2) r n p(3) "1.prems"(2)])
      then show ?thesis using p k r n False Cons
        by (subst grub_strstr.simps) (cases "first_occ t s'", auto)
    qed
  qed
qed

lemma nul_scan_span:
  assumes "str_of b i = Some s"
  shows "nul_scan b i = Some (i + length (takeWhile (\<lambda>c. \<not> isspace_char c) s))"
  using assms
proof (induction b i arbitrary: s rule: nul_scan.induct)
  case (1 b i)
  show ?case using "1.prems" "1.IH"
    by (cases s; subst nul_scan.simps) (auto simp: cstr)
qed

lemma str_of_update_nul:
  assumes "str_of b i = Some s" "k \<le> length s"
  shows "str_of (b[i + k := 0]) i = Some (take k s)"
proof -
  have l: "i + k < length b" using str_of_bound [OF assms(1)] assms(2) by linarith
  have "take k (drop i b) = take k (take (length s) (drop i b))"
    using assms(2) by (simp add: min_def)
  also have "\<dots> = take k s" using assms(1) by (simp add: str_of_iff)
  finally have t: "take k (drop i (b[i + k := 0])) = take k s"
    by (simp add: drop_update_swap)
  have "0 \<notin> set (take k s)"
    using assms(1) by (auto simp: str_of_iff dest: in_set_takeD)
  then show ?thesis using l t assms(2) by (simp add: str_of_iff min_def)
qed

lemma nul_terminate_word:
  assumes "str_of b i = Some s"
  defines "w \<equiv> takeWhile (\<lambda>c. \<not> isspace_char c) s"
  shows "\<exists>c b'. nul_terminate b i = Some (c, b') \<and> str_of b' i = Some w \<and>
    b'[i + length w := c] = b \<and> (c = 0 \<or> isspace_char c)"
proof -
  let ?k = "length w"
  have k: "?k \<le> length s" by (simp add: w_def length_takeWhile_le)
  have l: "i + ?k < length b" using str_of_bound [OF assms(1)] k by linarith
  have tk: "take ?k s = w" 
    unfolding w_def by (rule takeWhile_eq_take [symmetric])
  have c: "b ! (i + ?k) = 0 \<or> isspace_char (b ! (i + ?k))"
  proof (cases "?k = length s")
    case True
    then show ?thesis using assms(1) by (simp add: str_of_iff)
  next
    case False
    then have "?k < length s" using k by linarith
    moreover from this have "isspace_char (s ! ?k)"
      using nth_length_takeWhile [of "\<lambda>c. \<not> isspace_char c" s] by (auto simp: w_def)
    ultimately show ?thesis using str_of_nth [OF assms(1)] by simp
  qed
  have "nul_terminate b i = Some (b ! (i + ?k), b[i + ?k := 0])"
    using nul_scan_span [OF assms(1), folded w_def] l by (simp add: nul_terminate_def)
  moreover have "str_of (b[i + ?k := 0]) i = Some w"
    using str_of_update_nul [OF assms(1) k] tk by simp
  moreover have "b[i + ?k := 0, i + ?k := b ! (i + ?k)] = b" by simp
  ultimately show ?thesis using c by blast
qed

text \<open>\<open>grub_strncat\<close>: the loops against the two strings.\<close>

lemma strncat_end_min:
  assumes "str_of b1 p = Some s" "p + n \<le> length b1" "i \<le> length s"
  shows "strncat_end b1 p n i = Some (if length s < n then length s else max i n)"
  using assms
proof (induction b1 p n i rule: strncat_end.induct)
  case (1 b1 p n i)
  show ?case
  proof (cases "i < n \<and> i < length s")
    case True
    have "rd b1 (p + i) = Some (s ! i)" "s ! i \<noteq> 0"
      using True "1.prems" str_of_nth [OF "1.prems"(1), of i] str_of_nth_nz [OF "1.prems"(1), of i]
        str_of_bound [OF "1.prems"(1)] by (auto simp: cmem)
    then show ?thesis using True "1.IH" [of "s ! i"] "1.prems"
      by (subst strncat_end.simps) (auto simp: max_def)
  next
    case False
    moreover have "i < n \<Longrightarrow> i = length s \<and> rd b1 (p + i) = Some 0"
      using False "1.prems" by (auto simp: str_of_iff)
    ultimately show ?thesis using "1.prems"(3)
      by (subst strncat_end.simps) (auto simp: max_def)
  qed
qed

lemma strncat_copy_blit:
  assumes "str_of b2 q = Some t" "p + n \<le> length b1" "i \<le> n"
  shows "strncat_copy b1 p b2 q n i =
    (if i + length t < n then Some (i + length t + 1, blit b1 (p + i) (t @ [0]))
     else Some (n, blit b1 (p + i) (take (n - i) t)))"
  using assms
proof (induction b1 p b2 q n i arbitrary: t rule: strncat_copy.induct)
  case (1 b1 p b2 q n i)
  show ?case
  proof (cases "i < n")
    case False
    then show ?thesis using "1.prems"(3) by (subst strncat_copy.simps) auto
  next
    case True
    have w: "\<And>c. wr b1 (p + i) c = Some (b1[p + i := c])" using True "1.prems"(2) by simp
    show ?thesis
    proof (cases t)
      case Nil
      then show ?thesis using True w "1.prems"
        by (subst strncat_copy.simps) (simp add: cstr blit_Cons)
    next
      case (Cons c t')
      then have c: "rd b2 q = Some c" "c \<noteq> 0" "str_of b2 (q + 1) = Some t'"
        using "1.prems"(1) by (auto simp: cstr)
      have "strncat_copy (b1[p + i := c]) p b2 (q + 1) n (i + 1) =
        (if i + 1 + length t' < n
         then Some (i + 1 + length t' + 1, blit (b1[p + i := c]) (p + (i + 1)) (t' @ [0]))
         else Some (n, blit (b1[p + i := c]) (p + (i + 1)) (take (n - (i + 1)) t')))"
        using True "1.prems" by (intro "1.IH" [OF True c(1) w c(2,3)]) auto
      moreover have "take (n - i) t = c # take (n - Suc i) t'"
        using True Cons by (simp add: take_Cons')
      ultimately show ?thesis using True w c Cons "1.prems"(2)
        by (subst strncat_copy.simps) (simp add: blit_Cons)
    qed
  qed
qed

lemma str_of_blit:
  "p + length s < length b \<Longrightarrow> 0 \<notin> set s \<Longrightarrow> str_of (blit b p (s @ [0])) p = Some s"
  by (simp add: str_of_iff blit_def nth_append)

lemma str_of_split:
  assumes "str_of b p = Some s"
  obtains u v where "b = u @ s @ 0 # v" "length u = p" "0 \<notin> set s"
proof
  have a: "p + length s < length b" "take (length s) (drop p b) = s" "b ! (p + length s) = 0"
    using assms by (simp_all add: str_of_iff)
  have "b = take p b @ take (length s) (drop p b) @ drop (p + length s) b"
    by (metis append_take_drop_id drop_drop add.commute)
  also have "drop (p + length s) b = 0 # drop (Suc (p + length s)) b"
    using a by (metis Cons_nth_drop_Suc)
  finally show "b = take p b @ s @ 0 # drop (Suc (p + length s)) b" using a by simp
  show "length (take p b) = p" using a by simp
  show "0 \<notin> set s" using assms by (simp add: str_of_iff)
qed

lemma str_of_update_beyond:
  assumes "str_of b p = Some u" "p + length u \<le> k" "k < length b"
  shows "str_of (b[k := 0]) p = Some u"
proof -
  have "take (length u) (drop p (b[k := 0])) = take (length u) (drop p b)"
    using assms by (simp add: drop_update_swap)
  then show ?thesis using assms by (auto simp: str_of_iff nth_list_update)
qed

lemma strncat_fits:
  assumes "str_of b1 p = Some s" "0 \<notin> set t" "p + n \<le> length b1" "length s + length t < n"
  shows "str_of (blit b1 (p + length s) (t @ [0])) p = Some (s @ t)"
proof -
  obtain u v where b: "b1 = u @ s @ 0 # v" "length u = p" "0 \<notin> set s"
    using str_of_split [OF assms(1)] .
  have "blit b1 (p + length s) (t @ [0]) = u @ (s @ t) @ 0 # drop (length t) v"
    using b by (simp add: blit_def)
  then show ?thesis using str_of_at [of "s @ t" u] b assms(2) by simp
qed

lemma strncat_cut:
  assumes "str_of b1 p = Some s" "0 \<notin> set t" "p + n \<le> length b1" "length s < n"
    "n \<le> length s + length t"
  shows "str_of ((blit b1 (p + length s) (take (n - length s) t))[p + n - 1 := 0]) p
    = Some (take (n - 1) (s @ t))"
proof -
  let ?b = "blit b1 (p + length s) (take (n - length s) t)"
  obtain u v where b: "b1 = u @ s @ 0 # v" "length u = p" "0 \<notin> set s"
    using str_of_split [OF assms(1)] .
  have lt: "length (take (n - length s) t) = n - length s" using assms(5) by simp
  have e: "?b = u @ take n (s @ t) @ drop (n - length s) (0 # v)"
    using b assms(4,5) lt by (simp add: blit_def)
  have l: "length (take n (s @ t)) = n" using assms(5) by simp
  have d: "drop p (?b[p + n - 1 := 0]) = (drop p ?b)[n - 1 := 0]"
    using assms(4) by (simp add: drop_update_swap)
  have t: "take (n - 1) ((drop p ?b)[n - 1 := 0]) = take (n - 1) (s @ t)"
    using e b(2) l by (simp add: min_def)
  have "0 \<notin> set (take (n - 1) (s @ t))"
    using b(3) assms(2) by (auto dest: in_set_takeD)
  moreover have "length (take (n - 1) (s @ t)) = n - 1" using assms(5) by simp
  moreover have "p + (n - 1) = p + n - 1" "p + n - 1 < length ?b"
    using assms e b(2) l by auto
  ultimately show ?thesis using d t by (simp add: str_of_iff)
qed

text \<open>Storing bytes inside an object, and the object-level copies the other components use.\<close>

definition store :: "'a list \<Rightarrow> nat \<Rightarrow> 'a list \<Rightarrow> 'a list option" where
  "store b i s = (if i + length s \<le> length b then Some (blit b i s) else None)"

definition move_in :: "'a list \<Rightarrow> nat \<Rightarrow> nat \<Rightarrow> nat \<Rightarrow> 'a list option" where
  "move_in b to from n = do { s \<leftarrow> slice b from n; store b to s }"

definition copy_obj :: "'a list \<Rightarrow> nat \<Rightarrow> 'a list \<Rightarrow> nat \<Rightarrow> nat \<Rightarrow> 'a list option" where
  "copy_obj b to b2 from n = do { s \<leftarrow> slice b2 from n; store b to s }"

definition grub_strcpy :: "cbuf \<Rightarrow> nat \<Rightarrow> cbuf \<Rightarrow> nat \<Rightarrow> cbuf option" where
  "grub_strcpy b i b2 j = do { n \<leftarrow> grub_strlen b2 j; copy_obj b i b2 j (n + 1) }"

section \<open>Memory blocks: the effect of the copies\<close>

text \<open>
  \<open>copied to from n m\<close> is memory \<open>m\<close> with the \<open>n\<close> bytes at \<open>from\<close>, as they were, stored at
  \<open>to\<close>; offsets are taken modulo \<open>2^32\<close>, as the string instructions do.
\<close>

definition copied :: "u32 \<Rightarrow> u32 \<Rightarrow> nat \<Rightarrow> mem \<Rightarrow> mem" where
  "copied to from n m = (\<lambda>a. if unat (a - to) < n then m (from + (a - to)) else m a)"

lemma unat_minus_1: "x \<noteq> 0 \<Longrightarrow> unat (x - 1) = unat (x :: u32) - 1"
  by (metis unat_minus_one)

lemma offset_Suc:
  assumes "Suc n \<le> 2 ^ 32"
  shows "unat (x :: u32) < Suc n \<longleftrightarrow> x = 0 \<or> unat (x - 1) < n"
proof (cases "x = 0")
  case False
  then have "unat x \<noteq> 0" by (simp add: unat_eq_0)
  then show ?thesis using False unat_minus_1 [OF False] by auto
qed simp

lemma offset_Suc_0:
  assumes "Suc n \<le> 2 ^ 32"
  shows "\<not> unat (0 - 1 :: u32) < n"
proof -
  have "unat (- 1 :: u32) = 2 ^ 32 - 1"
    by (simp add: unsigned_minus_1_eq_mask mask_eq_exp_minus_1)
  then show ?thesis using assms by simp
qed

lemma movsb_up_copied:
  assumes "n \<le> 2 ^ 32" "n \<le> unat (di - si) \<or> di = si"
  shows "movsb_up n di si m = copied di si n m"
  using assms
proof (induction n arbitrary: di si m)
  case 0
  then show ?case by (simp add: copied_def)
next
  case (Suc n)
  let ?m = "m(di := m si)"
  have ih: "movsb_up n (di + 1) (si + 1) ?m = copied (di + 1) (si + 1) n ?m"
    using Suc.prems by (intro Suc.IH) auto
  have "copied (di + 1) (si + 1) n ?m a = copied di si (Suc n) m a" for a
  proof -
    define x where "x = a - di"
    have a: "a = di + x" by (simp add: x_def)
    have "x \<noteq> 0 \<Longrightarrow> unat (x - 1) < n \<Longrightarrow> si + x \<noteq> di"
    proof
      assume x: "x \<noteq> 0" "unat (x - 1) < n" "si + x = di"
      then have "x = di - si" by auto
      then show False using x Suc.prems(2) unat_minus_1 [OF x(1)] by auto
    qed
    moreover have "x = 0 \<Longrightarrow> \<not> unat (x - 1) < n"
      using offset_Suc_0 [OF Suc.prems(1)] by simp
    moreover have "a - (di + 1) = x - 1" "a - di = x" "si + 1 + (x - 1) = si + x"
      by (simp_all add: a)
    ultimately show ?thesis
      unfolding copied_def using offset_Suc [OF Suc.prems(1), of x]
      by (cases "x = 0") (simp_all add: a)
  qed
  then show ?case using ih by (simp add: fun_eq_iff)
qed

lemma movsb_down_copied:
  assumes "n \<le> 2 ^ 32" "n \<le> unat (from - to) \<or> from = to"
  shows "movsb_down n (of_nat n - 1 + to) (of_nat n - 1 + from) m = copied to from n m"
  using assms
proof (induction n arbitrary: m)
  case 0
  then show ?case by (simp add: copied_def)
next
  case (Suc n)
  let ?w = "of_nat n :: u32"
  let ?m = "m(to + ?w := m (from + ?w))"
  have ih: "movsb_down n (?w - 1 + to) (?w - 1 + from) ?m = copied to from n ?m"
    using Suc.prems by (intro Suc.IH) auto
  have w: "unat ?w = n" using Suc.prems(1) by (simp add: unat_of_nat)
  have "copied to from n ?m a = copied to from (Suc n) m a" for a
  proof -
    define x where "x = a - to"
    have a: "a = to + x" by (simp add: x_def)
    have x: "unat x < Suc n \<longleftrightarrow> x = ?w \<or> unat x < n"
      using w by (auto simp: less_Suc_eq word_unat_eq_iff)
    have "unat x < n \<Longrightarrow> from + x \<noteq> to + ?w"
    proof
      assume l: "unat x < n" "from + x = to + ?w"
      then have "?w = from - to + x" "from - to = ?w - x" by (simp_all add: algebra_simps)
      moreover have "unat (?w - x) = n - unat x"
        using l(1) w by (simp add: unat_sub_if')
      ultimately have "from = to" using Suc.prems(2) by auto
      then show False using l w by auto
    qed
    moreover have "\<not> unat ?w < n" using w by simp
    ultimately show ?thesis
      unfolding copied_def using x by (cases "x = ?w") (simp_all add: a)
  qed
  then have "copied to from n ?m = copied to from (Suc n) m" by (rule ext)
  moreover have "movsb_down (Suc n) (of_nat (Suc n) - 1 + to) (of_nat (Suc n) - 1 + from) m
      = movsb_down n (?w - 1 + to) (?w - 1 + from) ?m"
    by (simp add: algebra_simps)
  ultimately show ?case using ih by simp
qed

lemma memset_loop_filled:
  "n \<le> 2 ^ 32 \<Longrightarrow> memset_loop n p c m = (\<lambda>a. if unat (a - p) < n then c else m a)"
proof (induction n arbitrary: p m)
  case 0
  then show ?case by simp
next
  case (Suc n)
  have ih: "memset_loop n (p + 1) c (m(p := c)) =
      (\<lambda>a. if unat (a - (p + 1)) < n then c else (m(p := c)) a)"
    using Suc.prems by (intro Suc.IH) auto
  have "(if unat (a - (p + 1)) < n then c else (m(p := c)) a) =
      (if unat (a - p) < Suc n then c else m a)" for a
    using offset_Suc [OF Suc.prems, of "a - p"] by (auto simp: algebra_simps)
  then show ?case using ih by (simp add: fun_eq_iff)
qed

text \<open>No wrap-around of a block at the top of the address space.\<close>

lemma dist_up:
  assumes "to < from" "unat from + n \<le> 2 ^ 32"
  shows "n \<le> unat (to - from :: u32)"
  using assms by (simp add: unat_sub_if' word_less_nat_alt)

lemma dist_down:
  assumes "\<not> to < from" "unat to + n \<le> 2 ^ 32"
  shows "n \<le> unat (from - to :: u32) \<or> from = to"
proof (cases "from = to")
  case False
  then have "from < to" using assms(1) by simp
  then show ?thesis using dist_up [OF _ assms(2)] by simp
qed simp

lemma grub_memmove_effect:
  assumes "memcheck mem_upper to len = ERR_NONE"
    and "unat to + unat len \<le> 2 ^ 32" "unat from + unat len \<le> 2 ^ 32"
  shows "grub_memmove mem_upper to from len m = (Some to, ERR_NONE, copied to from (unat len) m)"
proof (cases "to < from")
  case True
  then show ?thesis
    using assms dist_up [OF True assms(3)]
    by (simp add: grub_memmove_def movsb_up_copied)
next
  case False
  have "movsb_down (unat len) (of_nat (unat len) - 1 + to) (of_nat (unat len) - 1 + from) m
      = copied to from (unat len) m"
    using dist_down [OF False assms(2)] assms(2) by (intro movsb_down_copied) auto
  then show ?thesis using False assms(1) by (simp add: grub_memmove_def)
qed

lemma movsl_up_movsb:
  assumes "4 * q \<le> unat (di - si)"
  shows "movsl_up q di si m = movsb_up (4 * q) di si m"
  using assms
proof (induction q arbitrary: di si m)
  case 0
  then show ?case by simp
next
  case (Suc q)
  have h: "unat (di - si) \<ge> 4" using Suc.prems by simp
  have d: "k = 1 \<or> k = 2 \<or> k = 3 \<Longrightarrow> si + k \<noteq> di" for k :: u32
  proof
    assume "k = 1 \<or> k = 2 \<or> k = 3" "si + k = di"
    moreover from this have "di - si = k" by auto
    ultimately show False using h by auto
  qed
  have n: "si + 1 \<noteq> di" "si + 2 \<noteq> di" "si + 3 \<noteq> di"
    "si + 2 \<noteq> di + 1" "si + 3 \<noteq> di + 1" "si + 3 \<noteq> di + 2"
    using d [of 1] d [of 2] d [of 3] by (auto simp: algebra_simps)
  have e: "4 * Suc q = Suc (Suc (Suc (Suc (4 * q))))" by simp
  have "4 * q \<le> unat (di + 4 - (si + 4))" using Suc.prems by simp
  from Suc.IH [OF this] n show ?case unfolding e by (simp add: add.assoc fun_upd_def)
qed

lemma movsb_up_add:
  "movsb_up (a + b) di si m = movsb_up b (di + of_nat a) (si + of_nat a) (movsb_up a di si m)"
  by (induction a arbitrary: di si m) (simp_all add: algebra_simps)

lemma unat_split4: "unat (n :: u32) = 4 * (unat n div 4) + (2 * of_bool (bit n 1) + of_bool (bit n 0))"
proof -
  have "bit n k \<longleftrightarrow> odd (unat n div 2 ^ k)" for k
    by (metis bit_iff_odd bit_unsigned_iff bit_imp_le_length possible_bit_nat)
  then have "unat n mod 4 = 2 * of_bool (bit n 1) + of_bool (bit n 0)"
    by (simp add: of_bool_def) presburger
  then show ?thesis by (metis mult_div_mod_eq)
qed

lemma grub_memcpy_effect:
  assumes "unat n \<le> unat (to - from)"
  shows "grub_memcpy to from n m = copied to from (unat n) m"
proof -
  let ?q = "unat n div 4"
  have q: "4 * ?q \<le> unat (to - from)" using assms by linarith
  have "grub_memcpy to from n m = movsb_up (unat n) to from m"
  proof -
    have u: "movsb_up (unat n) to from m =
      movsb_up (4 * ?q + (2 * of_bool (bit n 1) + of_bool (bit n 0))) to from m"
      using unat_split4 [of n] by simp
    have one: "bit n 1 \<Longrightarrow> from + of_nat (4 * ?q) + 1 \<noteq> to + of_nat (4 * ?q)"
    proof
      assume b: "bit n 1" "from + of_nat (4 * ?q) + 1 = to + of_nat (4 * ?q)"
      then have "to - from = 1" by (simp add: algebra_simps)
      moreover have "2 \<le> unat n" using unat_split4 [of n] b(1) by auto
      ultimately show False using assms by simp
    qed
    show ?thesis
      unfolding u movsb_up_add grub_memcpy_def Let_def movsl_up_movsb [OF q]
      using one by (cases "bit n 1"; cases "bit n 0")
        (simp_all add: numeral_2_eq_2 fun_upd_def add.assoc)
  qed
  moreover have "unat n \<le> 2 ^ 32" by simp
  ultimately show ?thesis using assms by (simp add: movsb_up_copied)
qed

text \<open>
  The object-level copies of this development are what \<open>grub_memmove\<close> does to the object that
  \<open>holds\<close> at an address of the flat memory.
\<close>

definition holds :: "mem \<Rightarrow> u32 \<Rightarrow> cbuf \<Rightarrow> bool" where
  "holds m a b \<longleftrightarrow> unat a + length b \<le> 2 ^ 32 \<and> (\<forall>i < length b. m (a + of_nat i) = b ! i)"

lemma holds_nth: "holds m a b \<Longrightarrow> i < length b \<Longrightarrow> m (a + of_nat i) = b ! i"
  by (simp add: holds_def)

lemma holds_copied:
  assumes "holds m a b" "to + n \<le> length b" "from + n \<le> length b"
  shows "holds (copied (a + of_nat to) (a + of_nat from) n m) a (blit b to (take n (drop from b)))"
proof -
  let ?s = "take n (drop from b)"
  have len: "length ?s = n" "to + length ?s \<le> length b" using assms by auto
  have l: "unat a + length b \<le> 2 ^ 32" using assms(1) by (simp add: holds_def)
  have "copied (a + of_nat to) (a + of_nat from) n m (a + of_nat i) = blit b to ?s ! i"
    if i: "i < length b" for i
  proof (cases "to \<le> i \<and> i < to + n")
    case True
    have i32: "i < 2 ^ 32" using i l by linarith
    have d: "a + of_nat i - (a + of_nat to) = of_nat i - of_nat to" by simp
    have u: "unat (of_nat i - of_nat to :: u32) = i - to"
      using unat_diff_up [OF i32] True by simp
    have e: "a + of_nat from + (of_nat i - of_nat to) = a + of_nat (from + (i - to))"
      using True by simp
    have "m (a + of_nat (from + (i - to))) = b ! (from + (i - to))"
      using True assms(3) by (intro holds_nth [OF assms(1)]) linarith
    then have "copied (a + of_nat to) (a + of_nat from) n m (a + of_nat i) = b ! (from + (i - to))"
      using u less_diff_conv2 [of to i n] True unfolding copied_def d e by (simp add: add.commute)
    moreover have "i - to < n" using True by linarith
    ultimately show ?thesis using True len assms(3) by (simp add: nth_blit)
  next
    case False
    have d: "a + of_nat i - (a + of_nat to) = of_nat i - of_nat to" by simp
    have "\<not> unat (of_nat i - of_nat to :: u32) < n"
    proof
      assume h: "unat (of_nat i - of_nat to :: u32) < n"
      have "i < 2 ^ 32" "to < 2 ^ 32" using i l h assms(2) by linarith+
      then show False
        using h False l assms(2) unat_diff_up [of i to] unat_diff_wrap [of i to]
        by (cases "to \<le> i") auto
    qed
    then show ?thesis
      using False len holds_nth [OF assms(1) i] unfolding copied_def d by (auto simp: nth_blit)
  qed
  then show ?thesis using l len by (simp add: holds_def)
qed

section \<open>Properties\<close>

text \<open>
  \<open>grub_memmove\<close> is correct for overlapping blocks: when \<open>memcheck\<close> lets it through and no
  block wraps around the address space, every byte of the object at address \<open>a\<close> is afterwards what
  copying the old source bytes to the destination makes it, whichever way the two blocks overlap;
  \<open>errnum\<close> is cleared and the destination is returned.
\<close>

theorem grub_memmove_overlap:
  assumes "holds m a b" "to + n \<le> length b" "from + n \<le> length b"
    and "memcheck mem_upper (a + of_nat to) (of_nat n) = ERR_NONE" "n < 2 ^ 32"
  shows "\<exists>m' b'. grub_memmove mem_upper (a + of_nat to) (a + of_nat from) (of_nat n) m
      = (Some (a + of_nat to), ERR_NONE, m') \<and> holds m' a b' \<and> move_in b to from n = Some b'"
proof -
  have l: "unat a + length b \<le> 2 ^ 32" using assms(1) by (simp add: holds_def)
  have n: "unat (of_nat n :: u32) = n" using assms(5) by (simp add: unat_of_nat)
  have u: "unat (a + of_nat k) + n \<le> 2 ^ 32" if k: "k + n \<le> length b" for k
  proof -
    have "unat (a + of_nat k) \<le> unat a + unat (of_nat k :: u32)"
      by (simp add: unat_word_ariths)
    also have "\<dots> \<le> unat a + k" by (simp add: unat_of_nat)
    finally show ?thesis using k l by linarith
  qed
  have len: "to + length (take n (drop from b)) \<le> length b" using assms by auto
  show ?thesis
    using grub_memmove_effect [OF assms(4), of "a + of_nat from" m] holds_copied [OF assms(1,2,3)]
      u [OF assms(2)] u [OF assms(3)] n assms(3) len
    by (simp add: move_in_def slice_def store_def)
qed

theorem grub_memmove_overlap_witness:
  "\<exists>m' b'. grub_memmove 1024 (0x1000 + of_nat 1) (0x1000 + of_nat 0) (of_nat 3)
       (\<lambda>a. ucast (a - 0x1000)) = (Some (0x1000 + of_nat 1), ERR_NONE, m')
     \<and> holds m' 0x1000 b' \<and> move_in [0, 1, 2, 3] 1 0 3 = Some b'"
proof (rule grub_memmove_overlap)
  have "ucast (of_nat i :: u32) = [0, 1, 2, 3 :: u8] ! i" if "i < 4" for i
  proof -
    from that consider "i = 0" | "i = 1" | "i = 2" | "i = 3" by linarith
    then show ?thesis by cases simp_all
  qed
  then show "holds (\<lambda>a. ucast (a - 0x1000)) 0x1000 [0, 1, 2, 3]"
    by (simp add: holds_def)
qed (simp_all add: memcheck_def)

text \<open>
  \<open>grub_strcmp\<close> decides a linear order on the strings: its sign is the comparison of the keys
  \<open>strkey\<close> (the signed characters, terminator included), and keys of different strings differ, so
  it returns 0 exactly for equal strings.  \<open>find_command\<close> relies on it to stop early in the sorted
  command table.
\<close>

theorem grub_strcmp_order:
  assumes "str_of b1 i = Some s" "str_of b2 j = Some t"
  shows "grub_strcmp b1 i b2 j = Some (cmp_int (strkey s) (strkey t)) \<and>
    (grub_strcmp b1 i b2 j = Some 0 \<longleftrightarrow> s = t)"
  using grub_strcmp_strkey [OF assms] strkey_inj [of s t] by (auto simp: cmp_int_def)

theorem grub_strcmp_order_witness:
  "grub_strcmp [98, 0] 0 [97, 200, 0] 0 = Some (cmp_int (strkey [98]) (strkey [97, 200])) \<and>
   (grub_strcmp [98, 0] 0 [97, 200, 0] 0 = Some 0 \<longleftrightarrow> [98] = [97, 200 :: u8])"
  by (rule grub_strcmp_order) (simp_all add: str_of.simps rd_def)

text \<open>
  \<open>grub_strncat (s1, s2, n)\<close> on a buffer of at least \<open>n\<close> bytes whose string is shorter than
  \<open>n\<close>: the result is the concatenation cut to \<open>n - 1\<close> characters and always terminated, no byte
  outside the \<open>n\<close> bytes changes, and the function reports success exactly when the concatenation
  leaves one byte to spare (a concatenation that fits exactly is already reported as failure).
\<close>

theorem grub_strncat_correct:
  assumes "str_of b1 p = Some s" "str_of b2 q = Some t" "p + n \<le> length b1" "length s < n"
  shows "\<exists>b'. grub_strncat b1 p b2 q n = Some (of_bool (length s + length t + 1 < n), b') \<and>
    str_of b' p = Some (take (n - 1) (s @ t)) \<and> length b' = length b1 \<and>
    (\<forall>k. k < p \<or> p + n \<le> k \<longrightarrow> b' ! k = b1 ! k)"
proof -
  have nz: "0 \<notin> set t" using assms(2) by (simp add: str_of_iff)
  have e: "strncat_end b1 p n 0 = Some (length s)"
    using strncat_end_min [OF assms(1,3), of 0] assms(4) by simp
  show ?thesis
  proof (cases "length s + length t < n")
    case True
    let ?b = "blit b1 (p + length s) (t @ [0])"
    have c: "strncat_copy b1 p b2 q n (length s) = Some (length s + length t + 1, ?b)"
      using strncat_copy_blit [OF assms(2,3), of "length s"] True by simp
    have l: "length ?b = length b1" using True assms(3) by simp
    have s: "str_of ?b p = Some (s @ t)"
      using strncat_fits [OF assms(1) nz assms(3) True] .
    have f: "\<And>k. k < p \<or> p + n \<le> k \<Longrightarrow> ?b ! k = b1 ! k"
      using True assms(3) by (auto simp: nth_blit)
    let ?b1 = "?b[p + n - 1 := 0]"
    have s1: "str_of ?b1 p = Some (s @ t)"
      using str_of_update_beyond [OF s, of "p + n - 1"] True l assms(3,4) by simp
    have s2: "str_of (?b1[p + (length s + length t + 1) := 0]) p = Some (s @ t)"
      if "length s + length t + 1 < n"
      using str_of_update_beyond [OF s1] that l assms(3) by simp
    have tk: "take (n - 1) (s @ t) = s @ t" using True by simp
    show ?thesis
      using e c l f s1 s2 tk True assms(3,4)
      by (cases "length s + length t + 1 < n") (auto simp: grub_strncat_def)
  next
    case False
    let ?b = "blit b1 (p + length s) (take (n - length s) t)"
    have c: "strncat_copy b1 p b2 q n (length s) = Some (n, ?b)"
      using strncat_copy_blit [OF assms(2,3), of "length s"] False assms(4) by simp
    have l: "length ?b = length b1" using False assms(3,4) by simp
    have f: "\<And>k. k < p \<or> p + n \<le> k \<Longrightarrow> ?b ! k = b1 ! k"
      using False assms(3,4) by (auto simp: nth_blit)
    have s: "str_of (?b[p + n - 1 := 0]) p = Some (take (n - 1) (s @ t))"
      using strncat_cut [OF assms(1) nz assms(3,4)] False by simp
    show ?thesis
      using e c l f s False assms(3,4) by (auto simp: grub_strncat_def)
  qed
qed

theorem grub_strncat_correct_witness:
  "\<exists>b'. grub_strncat [97, 0, 7, 7, 9] 0 [98, 99, 100, 0] 0 4
      = Some (of_bool (length [97 :: u8] + length [98, 99, 100 :: u8] + 1 < 4), b') \<and>
    str_of b' 0 = Some (take (4 - 1) ([97] @ [98, 99, 100])) \<and> length b' = length [97, 0, 7, 7, 9 :: u8] \<and>
    (\<forall>k. k < 0 \<or> 0 + 4 \<le> k \<longrightarrow> b' ! k = [97, 0, 7, 7, 9] ! k)"
  by (rule grub_strncat_correct) (simp_all add: str_of.simps rd_def)

text \<open>
  \<open>grub_strstr\<close> returns the address of the first occurrence of a non-empty pattern, and
  \<open>NULL\<close> when there is none or the pattern is empty (where ISO C returns the first argument).
\<close>

theorem grub_strstr_correct:
  assumes "str_of b1 i = Some s" "str_of b2 j = Some t"
  shows "(\<exists>k. grub_strstr b1 i b2 j = Some (Some (i + k)) \<and> t \<noteq> [] \<and> prefix t (drop k s) \<and>
            (\<forall>l < k. \<not> prefix t (drop l s)))
       \<or> grub_strstr b1 i b2 j = Some None \<and> (t = [] \<or> (\<forall>l. \<not> prefix t (drop l s)))"
proof -
  have "case first_occ t s of
      Some k \<Rightarrow> t \<noteq> [] \<and> prefix t (drop k s) \<and> (\<forall>l < k. \<not> prefix t (drop l s))
    | None \<Rightarrow> t = [] \<or> (\<forall>l. \<not> prefix t (drop l s))"
  proof (induction s)
    case (Cons c s)
    then show ?case
      by (auto simp: drop_Cons less_Suc_eq_0_disj split: option.splits nat.splits)
  qed auto
  then show ?thesis
    using grub_strstr_first_occ [OF assms] by (auto split: option.splits)
qed

theorem grub_strstr_correct_witness:
  "(\<exists>k. grub_strstr [1, 2, 1, 3, 0] 0 [1, 3, 0] 0 = Some (Some (0 + k)) \<and> [1, 3 :: u8] \<noteq> [] \<and>
        prefix [1, 3] (drop k [1, 2, 1, 3 :: u8]) \<and> (\<forall>l < k. \<not> prefix [1, 3] (drop l [1, 2, 1, 3 :: u8])))
   \<or> grub_strstr [1, 2, 1, 3, 0] 0 [1, 3, 0] 0 = Some None \<and>
      ([1, 3 :: u8] = [] \<or> (\<forall>l. \<not> prefix [1, 3] (drop l [1, 2, 1, 3 :: u8])))"
  by (rule grub_strstr_correct) (simp_all add: str_of.simps rd_def)

end
