(* ===== verification/NumText.thy ===== *)
theory NumText
imports StringLib
begin

text \<open>
  Numbers and formatted output of \<open>stage2/char_io.c\<close>: \<open>convert_to_ascii\<close>,
  \<open>safe_parse_maxint\<close>, \<open>grub_printf\<close> and \<open>grub_sprintf\<close>, with the round trips between
  printing and parsing.
\<close>

section \<open>Printing a number\<close>

definition cta_mult :: "u8 \<Rightarrow> u32" where
  "cta_mult c = (if c = ch CHR ''x'' \<or> c = ch CHR ''X'' then 16 else 10)"

definition cta_char :: "u8 \<Rightarrow> u32 \<Rightarrow> u8" where
  "cta_char c dig = ucast (if dig > 9 then dig + ucast c - 33 else 48 + dig)"

lemma unat_cta_mult: "unat (cta_mult c) = (if c = ch CHR ''x'' \<or> c = ch CHR ''X'' then 16 else 10)"
  by (simp add: cta_mult_def)

lemma cta_div_less: "num div cta_mult c \<noteq> 0 \<Longrightarrow> unat (num div cta_mult c) < unat num"
proof -
  assume "num div cta_mult c \<noteq> 0"
  then have "unat num \<noteq> 0" by (auto simp: unat_eq_0)
  then show ?thesis by (simp add: unat_div unat_cta_mult)
qed

text \<open>The digits come out least significant first; \<open>out\<close> is the buffer up to \<open>ptr\<close>.\<close>

function cta_digits :: "u8 \<Rightarrow> u32 \<Rightarrow> u8 list \<Rightarrow> u8 list" where
  "cta_digits c num out =
     (let dig = num mod cta_mult c; out' = out @ [cta_char c dig]; num' = num div cta_mult c
      in if num' \<noteq> 0 then cta_digits c num' out' else out')"
  by pat_completeness auto
termination
  by (relation "measure (\<lambda>(c, num, out). unat num)")
    (auto dest: cta_div_less)

text \<open>The loop that puts them in order, from both ends: \<open>p1\<close> and \<open>p2\<close> are \<open>ptr1\<close>, \<open>ptr2\<close>.\<close>

function cta_reverse :: "u8 list \<Rightarrow> nat \<Rightarrow> nat \<Rightarrow> u8 list option" where
  "cta_reverse b p1 p2 =
     (if p1 > p2 then do { t \<leftarrow> rd b p1; u \<leftarrow> rd b p2; b1 \<leftarrow> wr b p1 u; b2 \<leftarrow> wr b1 p2 t;
        cta_reverse b2 (p1 - 1) (p2 + 1) }
      else Some b)"
  by pat_completeness auto
termination
  by (relation "measure (\<lambda>(b, p1, p2). p1 - p2)") auto

text \<open>The bytes stored from \<open>buf\<close> up to the returned pointer.\<close>

definition convert_to_ascii :: "u8 \<Rightarrow> u32 \<Rightarrow> u8 list option" where
  "convert_to_ascii c num =
     (let neg = (num AND 0x80000000 \<noteq> 0 \<and> c = ch CHR ''d'');
          num' = (if neg then NOT num + 1 else num);
          sign = (if neg then [ch CHR ''-''] else []);
          out = cta_digits c num' sign
      in cta_reverse out (length out - 1) (length sign))"

section \<open>Parsing a number\<close>

text \<open>The digit a character stands for; \<open>None\<close> is the \<open>break\<close> of the loop.\<close>

definition digit_value :: "u32 \<Rightarrow> u8 \<Rightarrow> u32 option" where
  "digit_value mult c =
     (let digit = grub_tolower (scast c) - 48
      in if digit > 9 then
           let digit' = digit - (97 - 48)
           in if mult = 10 \<or> digit' > 5 then None else Some (digit' + 10)
         else Some digit)"

text \<open>\<open>MAXINT\<close> is \<open>0xFFFFFFFF\<close>.  \<open>Inr\<close> carries the final pointer, value and \<open>found\<close>.\<close>

function spm_loop :: "cbuf \<Rightarrow> nat \<Rightarrow> u32 \<Rightarrow> bool \<Rightarrow> u32 \<Rightarrow> bool \<Rightarrow> (grub_error + nat \<times> u32 \<times> bool) option" where
  "spm_loop b ptr mult negative myint found =
     do { c \<leftarrow> rd b ptr;
          case digit_value mult c of
            None \<Rightarrow> Some (Inr (ptr, myint, found))
          | Some digit \<Rightarrow>
              if mult = 10 \<and> \<not> negative \<and> myint > (0xFFFFFFFF - digit) div mult
              then Some (Inl ERR_NUMBER_OVERFLOW)
              else spm_loop b (ptr + 1) mult negative (myint * mult + digit) True }"
  by pat_completeness auto
termination
  by (relation "measure (\<lambda>(b, ptr, mult, negative, myint, found). length b - ptr)") (auto simp: cmem)

text \<open>\<open>Inl\<close> is the \<open>errnum\<close> of a failure (the pointers are left alone), \<open>Inr\<close> the two results.\<close>

definition safe_parse_maxint :: "cbuf \<Rightarrow> nat \<Rightarrow> (grub_error + nat \<times> u32) option" where
  "safe_parse_maxint b str =
     do { c0 \<leftarrow> rd b str;
          let negative = (c0 = ch CHR ''-'');
          let p1 = (if negative then str + 1 else str);
          c1 \<leftarrow> rd b p1;
          hex \<leftarrow> (if c1 = ch CHR ''0'' then do { c2 \<leftarrow> rd b (p1 + 1);
                    Some (grub_tolower (scast c2) = 120) } else Some False);
          let p2 = (if hex then p1 + 2 else p1);
          let mult = (if hex then 16 else 10);
          r \<leftarrow> spm_loop b p2 mult negative 0 False;
          case r of Inl e \<Rightarrow> Some (Inl e)
          | Inr (ptr, myint, found) \<Rightarrow>
              if \<not> found then Some (Inl ERR_NUMBER_PARSING)
              else Some (Inr (ptr, if negative then - myint else myint)) }"

section \<open>Formatted output\<close>

text \<open>
  The arguments after the format: a number, or the string a \<open>char *\<close> points to.  A directive that
  finds no argument, or one of the other kind, reads something it should not: \<open>None\<close>.
\<close>

datatype parg = PNum u32 | PStr "u8 list"

text \<open>\<open>out\<close> is what has been written so far, by \<open>grub_putchar\<close> or to the buffer.\<close>

function format_loop :: "cbuf \<Rightarrow> nat \<Rightarrow> parg list \<Rightarrow> u8 list \<Rightarrow> u8 list option" where
  "format_loop f i args out =
     do { c \<leftarrow> rd f i;
          if c = 0 then Some out
          else if c \<noteq> ch CHR ''%'' then format_loop f (i + 1) args (out @ [c])
          else do { d \<leftarrow> rd f (i + 1);
            if d = ch CHR ''d'' \<or> d = ch CHR ''x'' \<or> d = ch CHR ''X'' \<or> d = ch CHR ''u'' then
              (case args of PNum n # as \<Rightarrow> do { s \<leftarrow> convert_to_ascii d n;
                    format_loop f (i + 2) as (out @ s) }
               | _ \<Rightarrow> None)
            else if d = ch CHR ''c'' then
              (case args of PNum n # as \<Rightarrow> format_loop f (i + 2) as (out @ [ucast n]) | _ \<Rightarrow> None)
            else if d = ch CHR ''s'' then
              (case args of PStr s # as \<Rightarrow> format_loop f (i + 2) as (out @ s) | _ \<Rightarrow> None)
            else format_loop f (i + 2) args out } }"
  by pat_completeness auto
termination
  by (relation "measure (\<lambda>(f, i, args, out). length f - i)") (auto simp: cmem)

text \<open>The characters \<open>grub_printf\<close> passes to \<open>grub_putchar\<close>.\<close>

definition grub_printf :: "cbuf \<Rightarrow> parg list \<Rightarrow> u8 list option" where
  "grub_printf f args = format_loop f 0 args []"

text \<open>
  \<open>grub_sprintf\<close> into a buffer at index \<open>p\<close>: the returned length and the new buffer.  The call with \<open>buffer == NULL\<close>,
  which writes the characters with \<open>grub_putchar\<close> and returns their number, is not this definition: its characters are
  those of \<open>grub_printf\<close>.
\<close>

definition grub_sprintf :: "cbuf \<Rightarrow> nat \<Rightarrow> cbuf \<Rightarrow> parg list \<Rightarrow> (nat \<times> cbuf) option" where
  "grub_sprintf buf p f args =
     do { out \<leftarrow> format_loop f 0 args []; buf' \<leftarrow> store buf p (out @ [0]); Some (length out, buf') }"

section \<open>Digits\<close>

declare cta_digits.simps [simp del] cta_reverse.simps [simp del] spm_loop.simps [simp del]
  format_loop.simps [simp del]

fun digits_of :: "nat \<Rightarrow> nat \<Rightarrow> nat list" where
  "digits_of base n =
     (if base < 2 \<or> n < base then [n] else digits_of base (n div base) @ [n mod base])"

declare digits_of.simps [simp del]

definition value_of :: "nat \<Rightarrow> nat list \<Rightarrow> nat" where
  "value_of base ds = foldl (\<lambda>a d. a * base + d) 0 ds"

lemma value_of_snoc [simp]: "value_of base (ds @ [d]) = value_of base ds * base + d"
  by (simp add: value_of_def)

lemma value_of_Nil [simp]: "value_of base [] = 0"
  by (simp add: value_of_def)

lemma value_digits_of: "value_of base (digits_of base n) = n"
proof (induction base n rule: digits_of.induct)
  case (1 base n)
  then show ?case by (subst digits_of.simps) (simp add: value_of_def)
qed

lemma digits_of_nonempty [simp]: "digits_of base n \<noteq> []"
  by (subst digits_of.simps) simp

lemma digits_of_less: "2 \<le> base \<Longrightarrow> d \<in> set (digits_of base n) \<Longrightarrow> d < base"
proof (induction base n rule: digits_of.induct)
  case (1 base n)
  then show ?case
    by (subst (asm) (2) digits_of.simps) (auto split: if_splits)
qed

lemma length_digits_of:
  "2 \<le> base \<Longrightarrow> n < base ^ k \<Longrightarrow> 0 < k \<Longrightarrow> length (digits_of base n) \<le> k"
proof (induction base n arbitrary: k rule: digits_of.induct)
  case (1 base n)
  show ?case
  proof (cases "n < base")
    case True
    then show ?thesis using "1.prems" by (subst digits_of.simps) simp
  next
    case False
    obtain j where k: "k = Suc j" using "1.prems" by (cases k) auto
    have "n div base < base ^ j"
      using "1.prems" k by (simp add: less_mult_imp_div_less mult.commute)
    moreover have "0 < j" using False "1.prems" k by (cases j) auto
    ultimately show ?thesis
      using "1.IH" [of j] "1.prems" False k by (subst digits_of.simps) simp
  qed
qed

section \<open>What the printing loops compute\<close>

definition digit_chars :: "u8 \<Rightarrow> nat list \<Rightarrow> u8 list" where
  "digit_chars c ds = map (\<lambda>d. cta_char c (of_nat d)) ds"

definition cta_base :: "u8 \<Rightarrow> nat" where
  "cta_base c = unat (cta_mult c)"

lemma cta_base_ge2 [simp]: "2 \<le> cta_base c"
  by (simp add: cta_base_def unat_cta_mult)

lemma cta_digits_rev:
  "cta_digits c num out = out @ rev (digit_chars c (digits_of (cta_base c) (unat num)))"
proof (induction c num out rule: cta_digits.induct)
  case (1 c num out)
  have m: "of_nat (unat num mod cta_base c) = num mod cta_mult c"
    by (simp add: cta_base_def flip: unat_mod_distrib)
  have q: "num div cta_mult c = 0 \<longleftrightarrow> unat num < cta_base c"
    by (simp add: unat_eq_0 [symmetric] unat_div cta_base_def div_eq_0_iff unat_cta_mult)
  show ?case
  proof (cases "num div cta_mult c = 0")
    case True
    then have "unat num < cta_base c" using q by simp
    moreover from this m have "of_nat (unat num) = num mod cta_mult c" by simp
    ultimately show ?thesis using True
      by (subst cta_digits.simps, subst digits_of.simps) (simp add: digit_chars_def Let_def)
  next
    case False
    then have "\<not> unat num < cta_base c" using q by simp
    moreover have "unat (num div cta_mult c) = unat num div cta_base c"
      by (simp add: unat_div cta_base_def)
    moreover have "\<not> cta_base c < 2" using cta_base_ge2 [of c] by linarith
    ultimately show ?thesis using False m "1.IH" [OF refl refl refl]
      by (subst cta_digits.simps, subst digits_of.simps) (simp add: digit_chars_def Let_def)
  qed
qed

lemma cta_reverse_rev:
  "cta_reverse (p @ xs @ q) (length p + length xs - 1) (length p) = Some (p @ rev xs @ q)"
proof (induction "length xs" arbitrary: p xs q rule: less_induct)
  case less
  show ?case
  proof (cases "length xs \<le> 1")
    case True
    then have "xs = [] \<or> (\<exists>x. xs = [x])" by (cases xs) auto
    then show ?thesis by (subst cta_reverse.simps) auto
  next
    case False
    then obtain x zs where "xs = x # zs" "zs \<noteq> []" by (cases xs) auto
    then obtain ys y where xs: "xs = x # ys @ [y]" by (metis append_butlast_last_id)
    let ?b = "p @ xs @ q" and ?l = "length p + length xs - 1"
    have i: "?l = length (p @ x # ys)" by (simp add: xs)
    have b1: "?b[?l := x] = (p @ x # ys) @ x # q"
      unfolding i by (simp add: xs list_update_append)
    have b2: "?b[?l := x, length p := y] = (p @ [y]) @ ys @ x # q"
      unfolding b1 by (simp add: list_update_append)
    have r: "rd ?b ?l = Some y" "rd ?b (length p) = Some x"
      unfolding i by (simp_all add: xs rd_def nth_append)
    have w: "wr ?b ?l x = Some (?b[?l := x])"
      "wr (?b[?l := x]) (length p) y = Some (?b[?l := x, length p := y])"
      by (simp_all add: wr_def xs)
    have "cta_reverse ((p @ [y]) @ ys @ x # q) (length (p @ [y]) + length ys - 1) (length (p @ [y]))
        = Some ((p @ [y]) @ rev ys @ x # q)"
      using less [of ys "p @ [y]" "x # q"] xs by simp
    moreover have "length p < ?l" "?l - 1 = length (p @ [y]) + length ys - 1"
      by (simp_all add: xs)
    ultimately show ?thesis
      using r w b2 by (subst cta_reverse.simps) (simp add: xs)
  qed
qed

text \<open>The number printed after an optional minus sign.\<close>

definition cta_neg :: "u8 \<Rightarrow> u32 \<Rightarrow> bool" where
  "cta_neg c num = (num AND 0x80000000 \<noteq> 0 \<and> c = ch CHR ''d'')"

lemma convert_to_ascii_eq:
  "convert_to_ascii c num = Some ((if cta_neg c num then [ch CHR ''-''] else []) @
     digit_chars c (digits_of (cta_base c) (unat (if cta_neg c num then - num else num))))"
proof -
  let ?s = "if cta_neg c num then [ch CHR ''-''] else []"
  let ?ds = "digit_chars c (digits_of (cta_base c) (unat (if cta_neg c num then - num else num)))"
  have n: "NOT num + 1 = - num" by (simp add: minus_eq_not_plus_1)
  have "convert_to_ascii c num = cta_reverse (?s @ rev ?ds) (length (?s @ rev ?ds) - 1) (length ?s)"
    unfolding convert_to_ascii_def Let_def cta_digits_rev n by (simp add: cta_neg_def)
  also have "\<dots> = Some (?s @ rev (rev ?ds))"
    using cta_reverse_rev [of ?s "rev ?ds" "[]"] by simp
  finally show ?thesis by simp
qed

section \<open>What the parsing loop computes\<close>

abbreviation digits_at :: "u32 \<Rightarrow> u8 list \<Rightarrow> u32 list \<Rightarrow> bool" where
  "digits_at mult s ds \<equiv> list_all2 (\<lambda>c d. digit_value mult c = Some d) s ds"

definition value_from :: "nat \<Rightarrow> nat \<Rightarrow> nat list \<Rightarrow> nat" where
  "value_from base = foldl (\<lambda>a d. a * base + d)"

lemma value_from_simps [simp]:
  "value_from base a [] = a"
  "value_from base a (d # ds) = value_from base (a * base + d) ds"
  by (simp_all add: value_from_def)

lemma value_from_0: "value_from base 0 ds = value_of base ds"
  by (simp add: value_from_def value_of_def)

lemma value_from_ge: "1 \<le> base \<Longrightarrow> a \<le> value_from base a ds"
proof (induction ds arbitrary: a)
  case (Cons d ds)
  have "a \<le> a * base + d" using Cons.prems by (metis mult.right_neutral mult_le_mono2 trans_le_add1)
  also have "\<dots> \<le> value_from base (a * base + d) ds" using Cons by blast
  finally show ?case by simp
qed simp

lemma spm_loop_wrap:
  assumes "digits_at mult s ds" "digit_value mult stop = None" "mult \<noteq> 10 \<or> negative"
  shows "spm_loop (p @ s @ stop # r) (length p) mult negative acc f =
    Some (Inr (length p + length s, of_nat (value_from (unat mult) (unat acc) (map unat ds)), f \<or> s \<noteq> []))"
  using assms(1)
proof (induction s ds arbitrary: p acc f rule: list_all2_induct)
  case Nil
  then show ?case using assms(2) by (subst spm_loop.simps) (simp add: rd_def nth_append)
next
  case (Cons c s d ds)
  have "spm_loop ((p @ [c]) @ s @ stop # r) (length (p @ [c])) mult negative (acc * mult + d) True =
    Some (Inr (length (p @ [c]) + length s,
      of_nat (value_from (unat mult) (unat (acc * mult + d)) (map unat ds)), True))"
    using Cons.IH [of "p @ [c]"] by simp
  moreover have "of_nat (value_from (unat mult) (unat (acc * mult + d)) (map unat ds)) =
      (of_nat (value_from (unat mult) (unat acc * unat mult + unat d) (map unat ds)) :: u32)"
  proof -
    have "of_nat a = (of_nat b :: u32) \<Longrightarrow>
      of_nat (value_from (unat mult) a es) = (of_nat (value_from (unat mult) b es) :: u32)" for a b es
      by (induction es arbitrary: a b) auto
    then show ?thesis by simp
  qed
  ultimately show ?case using Cons.hyps(1) assms(3)
    by (subst spm_loop.simps) (auto simp: rd_def nth_append)
qed

lemma overflow_test:
  "myint > (0xFFFFFFFF - digit) div (10 :: u32) \<longleftrightarrow> 2 ^ 32 \<le> unat myint * 10 + unat digit"
proof -
  have "unat digit \<le> 4294967295" using unat_u32 [of digit] by linarith
  then have "unat (0xFFFFFFFF - digit) = 2 ^ 32 - 1 - unat digit"
    by (simp add: unat_sub_if')
  then have "myint > (0xFFFFFFFF - digit) div 10 \<longleftrightarrow> (2 ^ 32 - 1 - unat digit) div 10 < unat myint"
    by (simp add: word_less_nat_alt unat_div)
  also have "\<dots> \<longleftrightarrow> 2 ^ 32 - 1 - unat digit < unat myint * 10"
    by (simp add: div_less_iff_less_mult)
  also have "\<dots> \<longleftrightarrow> 2 ^ 32 \<le> unat myint * 10 + unat digit"
    using \<open>unat digit \<le> 4294967295\<close> by (simp del: unat_u32) linarith
  finally show ?thesis .
qed

lemma spm_loop_decimal:
  assumes "digits_at 10 s ds" "digit_value 10 stop = None"
  shows "spm_loop (p @ s @ stop # r) (length p) 10 False acc f =
    (let v = value_from 10 (unat acc) (map unat ds)
     in Some (if v < 2 ^ 32 then Inr (length p + length s, of_nat v, f \<or> s \<noteq> [])
              else Inl ERR_NUMBER_OVERFLOW))"
  using assms(1)
proof (induction s ds arbitrary: p acc f rule: list_all2_induct)
  case Nil
  then show ?case using assms(2) by (subst spm_loop.simps) (simp add: rd_def nth_append)
next
  case (Cons c s d ds)
  let ?v = "unat acc * 10 + unat d"
  show ?case
  proof (cases "2 ^ 32 \<le> ?v")
    case True
    then have "\<not> value_from 10 ?v (map unat ds) < 2 ^ 32"
      using value_from_ge [of 10 ?v "map unat ds"] by simp
    then show ?thesis using True Cons.hyps(1) overflow_test [of d acc]
      by (subst spm_loop.simps) (simp add: rd_def nth_append)
  next
    case False
    then have u: "unat (acc * 10 + d) = ?v" by (simp add: unat_word_ariths)
    have "spm_loop ((p @ [c]) @ s @ stop # r) (length (p @ [c])) 10 False (acc * 10 + d) True =
      (let v = value_from 10 ?v (map unat ds)
       in Some (if v < 2 ^ 32 then Inr (length (p @ [c]) + length s, of_nat v, True)
                else Inl ERR_NUMBER_OVERFLOW))"
      using Cons.IH [of "p @ [c]" "acc * 10 + d" True] u by (simp add: Let_def)
    then show ?thesis using False Cons.hyps(1) overflow_test [of d acc]
      by (subst spm_loop.simps) (simp add: rd_def nth_append Let_def)
  qed
qed

section \<open>Round trips\<close>

lemma digit_value_0 [simp]: "digit_value mult 0 = None"
  by (simp add: digit_value_def grub_tolower_def)

lemma digit_value_hex:
  assumes "c = ch CHR ''x'' \<or> c = ch CHR ''X''" "d < 16"
  shows "digit_value 16 (cta_char c (of_nat d)) = Some (of_nat d)"
proof -
  have "list_all (\<lambda>d. digit_value 16 (cta_char 120 (of_nat d)) = Some (of_nat d) \<and>
      digit_value 16 (cta_char 88 (of_nat d)) = Some (of_nat d)) [0..<16]"
    by code_simp
  then show ?thesis using assms by (auto simp: list_all_iff)
qed

lemma digit_value_dec:
  assumes "d < 10"
  shows "digit_value 10 (cta_char c (of_nat d)) = Some (of_nat d)"
proof -
  have "list_all (\<lambda>d. digit_value 10 (cta_char 0 (of_nat d)) = Some (of_nat d)) [0..<10]"
    by code_simp
  moreover have "\<not> (of_nat d :: u32) > 9"
    using assms by (simp add: word_less_nat_alt unat_of_nat)
  then have "cta_char c (of_nat d) = cta_char 0 (of_nat d)" by (simp add: cta_char_def)
  ultimately show ?thesis using assms by (auto simp: list_all_iff)
qed

text \<open>A decimal number, with or without sign, followed by a character that is no digit.\<close>

lemma parse_decimal:
  assumes "digits_at 10 s ds" "s \<noteq> []" "digit_value 10 stop = None" "tolower_char stop \<noteq> ch CHR ''x''"
  shows "safe_parse_maxint (s @ stop # r) 0 =
    (let v = value_of 10 (map unat ds)
     in Some (if v < 2 ^ 32 then Inr (length s, of_nat v) else Inl ERR_NUMBER_OVERFLOW))"
    and "safe_parse_maxint (ch CHR ''-'' # s @ stop # r) 0 =
      Some (Inr (length s + 1, - of_nat (value_of 10 (map unat ds))))"
proof -
  obtain c s' where s: "s = c # s'" using assms(2) by (cases s) auto
  obtain d ds' where c: "digit_value 10 c = Some d" "digits_at 10 s' ds'"
    using assms(1) by (auto simp: s list_all2_Cons1)
  have nx: "digit_value 10 b \<noteq> None \<or> tolower_char b \<noteq> ch CHR ''x'' \<Longrightarrow>
      grub_tolower (scast b) \<noteq> 120" for b :: u8
    by (auto simp: tolower_char_def digit_value_def)
  have second: "\<exists>b. rd (s @ stop # r) 1 = Some b \<and> grub_tolower (scast b) \<noteq> 120"
  proof (cases s')
    case Nil
    then show ?thesis using nx [of stop] assms(4) by (simp add: s)
  next
    case (Cons b t)
    then have "digit_value 10 b \<noteq> None" using c(2) by (auto simp: list_all2_Cons1)
    then show ?thesis using nx [of b] by (simp add: s Cons)
  qed
  have minus: "c \<noteq> ch CHR ''-''"
  proof
    assume "c = ch CHR ''-''"
    then show False using c(1) by (simp add: digit_value_def grub_tolower_def)
  qed
  show "safe_parse_maxint (s @ stop # r) 0 =
    (let v = value_of 10 (map unat ds)
     in Some (if v < 2 ^ 32 then Inr (length s, of_nat v) else Inl ERR_NUMBER_OVERFLOW))"
    using spm_loop_decimal [OF assms(1,3), of "[]" r 0 False] second minus
    by (auto simp: safe_parse_maxint_def s value_from_0 Let_def rd_def)
  show "safe_parse_maxint (ch CHR ''-'' # s @ stop # r) 0 =
      Some (Inr (length s + 1, - of_nat (value_of 10 (map unat ds))))"
    using spm_loop_wrap [OF assms(1,3), of True "[ch CHR ''-'']" r 0 False] second
    by (auto simp: safe_parse_maxint_def s value_from_0 Let_def rd_def)
qed

lemma parse_hex:
  assumes "digits_at 16 s ds" "s \<noteq> []" "digit_value 16 stop = None"
  shows "safe_parse_maxint (ch CHR ''0'' # ch CHR ''x'' # s @ stop # r) 0 =
    Some (Inr (length s + 2, of_nat (value_of 16 (map unat ds))))"
  using spm_loop_wrap [OF assms(1,3), of False "[ch CHR ''0'', ch CHR ''x'']" r 0 False] assms(2)
  by (simp add: safe_parse_maxint_def value_from_0 Let_def rd_def grub_tolower_def
    flip: numeral_2_eq_2)

lemma digits_at_chars:
  assumes "\<And>d. d \<in> set ds \<Longrightarrow> digit_value mult (cta_char c (of_nat d)) = Some (of_nat d)"
  shows "digits_at mult (digit_chars c ds) (map of_nat ds)"
  using assms by (induction ds) (auto simp: digit_chars_def)

lemma map_unat_of_nat:
  assumes "\<And>d. d \<in> set ds \<Longrightarrow> d < 16"
  shows "map unat (map (of_nat :: nat \<Rightarrow> u32) ds) = ds"
proof -
  have "unat (of_nat d :: u32) = d" if "d < 16" for d
    using that by (simp add: unat_of_nat)
  then show ?thesis using assms by (simp add: map_idI)
qed

text \<open>
  C38. Printing and parsing a number are inverse: what \<open>convert_to_ascii\<close> stores for \<open>%d\<close>,
  \<open>%u\<close>, \<open>%x\<close> or \<open>%X\<close> (for hexadecimal, after \<open>0x\<close>) is read back by
  \<open>safe_parse_maxint\<close> as the same 32-bit value, for every value, negative ones under \<open>%d\<close>
  included; and it fits, with its terminator, the 16-byte buffers of the callers.
\<close>

theorem print_parse_roundtrip:
  assumes "c \<in> {ch CHR ''d'', ch CHR ''u'', ch CHR ''x'', ch CHR ''X''}"
  shows "\<exists>s. convert_to_ascii c n = Some s \<and> length s + 1 \<le> 12 \<and>
    (let pre = (if c = ch CHR ''x'' \<or> c = ch CHR ''X'' then cs ''0x'' else [])
     in safe_parse_maxint (pre @ s @ [0]) 0 = Some (Inr (length pre + length s, n)))"
proof -
  let ?m = "if cta_neg c n then - n else n"
  let ?ds = "digits_of (cta_base c) (unat ?m)"
  let ?s = "digit_chars c ?ds"
  have v: "of_nat (value_of (cta_base c) ?ds) = ?m" "value_of (cta_base c) ?ds = unat ?m"
    by (simp_all add: value_digits_of)
  have ne: "?s \<noteq> []" by (simp add: digit_chars_def)
  have b: "\<And>d. d \<in> set ?ds \<Longrightarrow> d < cta_base c" using digits_of_less by simp
  have base: "10 \<le> cta_base c" "cta_base c \<le> 16" by (simp_all add: cta_base_def unat_cta_mult)
  have "unat ?m < cta_base c ^ 10"
  proof -
    have "unat ?m < 4294967296" by (rule unat_u32)
    also have "4294967296 \<le> (10 :: nat) ^ 10" by simp
    also have "\<dots> \<le> cta_base c ^ 10" using base(1) by (intro power_mono) auto
    finally show ?thesis .
  qed
  then have l: "length ?s \<le> 10" by (simp add: digit_chars_def length_digits_of)
  have mu: "map unat (map (of_nat :: nat \<Rightarrow> u32) ?ds) = ?ds"
    using b base(2) by (intro map_unat_of_nat) (meson less_le_trans)
  show ?thesis
  proof (cases "c = ch CHR ''x'' \<or> c = ch CHR ''X''")
    case True
    then have neg: "\<not> cta_neg c n" by (auto simp: cta_neg_def)
    have c16: "cta_base c = 16" using True by (simp add: cta_base_def unat_cta_mult)
    have "digits_at 16 ?s (map of_nat ?ds)"
      using b c16 True by (intro digits_at_chars digit_value_hex) auto
    from parse_hex [OF this ne digit_value_0, of "[]"] mu v(1) neg c16
    show ?thesis using True l neg by (auto simp: convert_to_ascii_eq)
  next
    case False
    have c10: "cta_base c = 10" using False by (simp add: cta_base_def unat_cta_mult)
    have d: "digits_at 10 ?s (map of_nat ?ds)"
      using b c10 by (intro digits_at_chars digit_value_dec) auto
    have x: "tolower_char 0 \<noteq> ch CHR ''x''" by simp
    note p = parse_decimal [OF d ne digit_value_0 x, of "[]"]
    show ?thesis
      using p mu v c10 l False unat_u32 [of ?m]
      by (cases "cta_neg c n") (auto simp: convert_to_ascii_eq Let_def)
  qed
qed

theorem print_parse_roundtrip_witness:
  "\<exists>s. convert_to_ascii (ch CHR ''d'') 0xFFFFFFF6 = Some s \<and> length s + 1 \<le> 12 \<and>
    (let pre = (if ch CHR ''d'' = ch CHR ''x'' \<or> ch CHR ''d'' = ch CHR ''X'' then cs ''0x'' else [])
     in safe_parse_maxint (pre @ s @ [0]) 0 = Some (Inr (length pre + length s, 0xFFFFFFF6)))"
  by (rule print_parse_roundtrip) simp

text \<open>
  C39. \<open>safe_parse_maxint\<close> on an unsigned decimal number is exact: the value is returned when it
  is at most \<open>0xFFFFFFFF\<close> and \<open>ERR_NUMBER_OVERFLOW\<close> is reported otherwise, whatever the
  number of digits (the comment in the code says the limit is \<open>0x7fffffff\<close>); after a minus sign
  there is no check, and the value is taken modulo \<open>2^32\<close>.
\<close>

theorem safe_parse_maxint_decimal:
  assumes "s \<noteq> []" "digits_at 10 s ds" "digit_value 10 stop = None"
    and "tolower_char stop \<noteq> ch CHR ''x''"
  shows "safe_parse_maxint (s @ stop # r) 0 = Some
      (if value_of 10 (map unat ds) \<le> 0xFFFFFFFF
       then Inr (length s, of_nat (value_of 10 (map unat ds))) else Inl ERR_NUMBER_OVERFLOW)
    \<and> safe_parse_maxint (ch CHR ''-'' # s @ stop # r) 0 =
      Some (Inr (length s + 1, - of_nat (value_of 10 (map unat ds))))"
  using parse_decimal [OF assms(2,1,3,4), of r] by (auto simp: Let_def)

theorem safe_parse_maxint_decimal_witness:
  "safe_parse_maxint (cs ''4294967296'' @ ch CHR '','' # []) 0 = Some
      (if value_of 10 (map unat [4, 2, 9, 4, 9, 6, 7, 2, 9, 6 :: u32]) \<le> 0xFFFFFFFF
       then Inr (length (cs ''4294967296''), of_nat (value_of 10 (map unat [4, 2, 9, 4, 9, 6, 7, 2, 9, 6 :: u32])))
       else Inl ERR_NUMBER_OVERFLOW)
    \<and> safe_parse_maxint (ch CHR ''-'' # cs ''4294967296'' @ ch CHR '','' # []) 0 =
      Some (Inr (length (cs ''4294967296'') + 1,
        - of_nat (value_of 10 (map unat [4, 2, 9, 4, 9, 6, 7, 2, 9, 6 :: u32]))))"
  by (rule safe_parse_maxint_decimal)
    (simp_all add: digit_value_def grub_tolower_def tolower_char_def)

section \<open>Formats\<close>

text \<open>A format as its author sees it: literal text and directives.\<close>

datatype fseg = Lit "u8 list" | Conv u8 u32 | Chr u32 | Str "u8 list"

fun seg_ok :: "fseg \<Rightarrow> bool" where
  "seg_ok (Lit t) = (0 \<notin> set t \<and> ch CHR ''%'' \<notin> set t)"
| "seg_ok (Conv c n) = (c \<in> {ch CHR ''d'', ch CHR ''u'', ch CHR ''x'', ch CHR ''X''})"
| "seg_ok _ = True"

fun seg_format :: "fseg \<Rightarrow> u8 list" where
  "seg_format (Lit t) = t"
| "seg_format (Conv c n) = [ch CHR ''%'', c]"
| "seg_format (Chr n) = [ch CHR ''%'', ch CHR ''c'']"
| "seg_format (Str s) = [ch CHR ''%'', ch CHR ''s'']"

fun seg_args :: "fseg \<Rightarrow> parg list" where
  "seg_args (Lit t) = []"
| "seg_args (Conv c n) = [PNum n]"
| "seg_args (Chr n) = [PNum n]"
| "seg_args (Str s) = [PStr s]"

fun seg_text :: "fseg \<Rightarrow> u8 list" where
  "seg_text (Lit t) = t"
| "seg_text (Conv c n) = the (convert_to_ascii c n)"
| "seg_text (Chr n) = [ucast n]"
| "seg_text (Str s) = s"

lemma format_loop_literal:
  "0 \<notin> set t \<Longrightarrow> ch CHR ''%'' \<notin> set t \<Longrightarrow>
   format_loop (p @ t @ q) (length p) args out = format_loop (p @ t @ q) (length p + length t) args (out @ t)"
proof (induction t arbitrary: p out)
  case (Cons c t)
  have "format_loop ((p @ [c]) @ t @ q) (length (p @ [c])) args (out @ [c]) =
      format_loop ((p @ [c]) @ t @ q) (length (p @ [c]) + length t) args ((out @ [c]) @ t)"
    using Cons.prems by (intro Cons.IH) auto
  then show ?case using Cons.prems
    by (subst format_loop.simps) (simp add: rd_def nth_append)
qed simp

lemma format_loop_seg:
  assumes "seg_ok x"
  shows "format_loop (p @ seg_format x @ q) (length p) (seg_args x @ as) out =
    format_loop (p @ seg_format x @ q) (length p + length (seg_format x)) as (out @ seg_text x)"
proof (cases x)
  case (Lit t)
  then show ?thesis using assms format_loop_literal by simp
qed (use assms in \<open>auto simp: format_loop.simps [of _ "length p"] rd_def nth_append convert_to_ascii_eq\<close>)

lemma format_loop_segs:
  assumes "list_all seg_ok xs"
  shows "format_loop (p @ concat (map seg_format xs) @ 0 # r) (length p) (concat (map seg_args xs)) out =
    Some (out @ concat (map seg_text xs))"
  using assms
proof (induction xs arbitrary: p out)
  case Nil
  then show ?case by (subst format_loop.simps) (simp add: rd_def nth_append)
next
  case (Cons x xs)
  have "format_loop ((p @ seg_format x) @ concat (map seg_format xs) @ 0 # r) (length (p @ seg_format x))
      (concat (map seg_args xs)) (out @ seg_text x) =
    Some ((out @ seg_text x) @ concat (map seg_text xs))"
    using Cons.prems by (intro Cons.IH) simp
  then show ?case
    using format_loop_seg [of x p "concat (map seg_format xs) @ 0 # r" "concat (map seg_args xs)" out]
      Cons.prems by simp
qed

text \<open>
  C40. \<open>grub_sprintf\<close> implements its format language: for a format made of literal text and the
  directives \<open>%d %u %x %X %c %s\<close> with matching arguments it stores the concatenation of the
  rendered pieces, terminated, returns its length, and \<open>grub_printf\<close> writes the same characters.
\<close>

theorem grub_sprintf_segments:
  assumes "list_all seg_ok xs" "p + length (concat (map seg_text xs)) < length buf"
  shows "grub_sprintf buf p (concat (map seg_format xs) @ [0]) (concat (map seg_args xs)) =
      Some (length (concat (map seg_text xs)), blit buf p (concat (map seg_text xs) @ [0]))
    \<and> grub_printf (concat (map seg_format xs) @ [0]) (concat (map seg_args xs)) =
      Some (concat (map seg_text xs))"
  using format_loop_segs [OF assms(1), of "[]" "[]" "[]"] assms(2)
  by (simp add: grub_sprintf_def grub_printf_def store_def)

theorem grub_sprintf_segments_witness:
  "grub_sprintf (replicate 8 0) 0 (concat (map seg_format [Lit (cs ''hd''), Conv (ch CHR ''d'') 0]) @ [0])
      (concat (map seg_args [Lit (cs ''hd''), Conv (ch CHR ''d'') 0])) =
      Some (length (concat (map seg_text [Lit (cs ''hd''), Conv (ch CHR ''d'') 0])),
        blit (replicate 8 0) 0 (concat (map seg_text [Lit (cs ''hd''), Conv (ch CHR ''d'') 0]) @ [0]))
    \<and> grub_printf (concat (map seg_format [Lit (cs ''hd''), Conv (ch CHR ''d'') 0]) @ [0])
      (concat (map seg_args [Lit (cs ''hd''), Conv (ch CHR ''d'') 0])) =
      Some (concat (map seg_text [Lit (cs ''hd''), Conv (ch CHR ''d'') 0]))"
  by (rule grub_sprintf_segments)
    (simp_all add: convert_to_ascii_eq cta_neg_def digit_chars_def digits_of.simps)

end
