(* ===== verification/LineEdit.thy ===== *)
theory LineEdit
imports StringLib
begin

text \<open>
  The command-line editor of \<open>stage2/char_io.c\<close>: \<open>get_history\<close>, \<open>add_history\<close>,
  \<open>real_get_cmdline\<close> with its nested functions, and \<open>get_cmdline\<close>.

  The buffers \<open>CMDLINE_BUF\<close>, \<open>KILL_BUF\<close>, \<open>HISTORY_BUF\<close>, \<open>COMPLETION_BUF\<close> and
  \<open>UNIQUE_BUF\<close> of \<open>shared.h\<close> follow each other in memory and the code runs from one into the
  next, so they are one object, \<open>area\<close>, with the offsets below.  The caller's \<open>cmdline\<close> is an object
  of its own.  The calls of the terminal (\<open>grub_putchar\<close>, \<open>gotoxy\<close> in the current row) and the
  cache flush \<open>buf_drive = -1\<close> are recorded in \<open>evs\<close>.  The completion of words,
  \<open>print_completions\<close> of \<open>disk_io.c\<close>, is an argument of the model.
\<close>

section \<open>State\<close>

definition MAX_CMDLINE :: nat where "MAX_CMDLINE = 1600"
definition HISTORY_SIZE :: nat where "HISTORY_SIZE = 5"

definition CMDLINE_BUF :: nat where "CMDLINE_BUF = 0"
definition KILL_BUF :: nat where "KILL_BUF = CMDLINE_BUF + MAX_CMDLINE"
definition HISTORY_BUF :: nat where "HISTORY_BUF = KILL_BUF + MAX_CMDLINE"
definition COMPLETION_BUF :: nat where "COMPLETION_BUF = HISTORY_BUF + MAX_CMDLINE * HISTORY_SIZE"
definition UNIQUE_BUF :: nat where "UNIQUE_BUF = COMPLETION_BUF + MAX_CMDLINE"
definition AREA_LEN :: nat where "AREA_LEN = UNIQUE_BUF + MAX_CMDLINE"

lemmas area_offsets = MAX_CMDLINE_def HISTORY_SIZE_def CMDLINE_BUF_def KILL_BUF_def HISTORY_BUF_def
  COMPLETION_BUF_def UNIQUE_BUF_def AREA_LEN_def

definition CMDLINE_WIDTH :: int where "CMDLINE_WIDTH = 78"
definition CMDLINE_MARGIN :: int where "CMDLINE_MARGIN = 10"

datatype tevent = TPut u8 | TGoto int | TFlush

text \<open>What does not change while a line is edited: the prompt and the arguments.\<close>

record cl_env =
  prompt :: "u8 list"
  echo_char :: u8
  readline :: bool
  dumb :: bool
  completions :: "bool \<Rightarrow> bool \<Rightarrow> cbuf \<Rightarrow> (int \<times> cbuf \<times> tevent list) option"

abbreviation plen :: "cl_env \<Rightarrow> int" where
  "plen v \<equiv> int (length (prompt v))"

record editor =
  area :: cbuf
  cmdline :: cbuf
  num_history :: int
  xpos :: int
  lpos :: int
  llen :: int
  sect :: int
  history :: int
  maxlen :: int
  evs :: "tevent list"

definition emit :: "tevent list \<Rightarrow> editor \<Rightarrow> editor" where
  "emit es e = e\<lparr>evs := evs e @ es\<rparr>"

section \<open>History\<close>

text \<open>A history entry is found by its offset in \<open>area\<close>; \<open>None\<close> is \<open>NULL\<close>.\<close>

definition get_history :: "editor \<Rightarrow> int \<Rightarrow> nat option" where
  "get_history e no =
     (if no < 0 \<or> no \<ge> num_history e then None else Some (HISTORY_BUF + MAX_CMDLINE * nat no))"

text \<open>\<open>add_history\<close> of the string at \<open>p\<close> in object \<open>b\<close>.\<close>

definition add_history :: "cbuf \<Rightarrow> nat \<Rightarrow> nat \<Rightarrow> editor \<Rightarrow> editor option" where
  "add_history b p no e =
     do { a1 \<leftarrow> move_in (area e) (HISTORY_BUF + MAX_CMDLINE * (no + 1)) (HISTORY_BUF + MAX_CMDLINE * no)
                 (MAX_CMDLINE * nat (num_history e - int no));
          a2 \<leftarrow> grub_strcpy a1 (HISTORY_BUF + MAX_CMDLINE * no) b p;
          Some (e\<lparr>area := a2,
            num_history := (if num_history e < int HISTORY_SIZE then num_history e + 1 else num_history e)\<rparr>) }"

section \<open>The screen\<close>

text \<open>The first loop of \<open>cl_refresh\<close>: characters \<open>i\<close> up to \<open>stop\<close> or the end of the line.\<close>

function cl_print :: "cl_env \<Rightarrow> editor \<Rightarrow> int \<Rightarrow> int \<Rightarrow> tevent list option" where
  "cl_print v e i stop =
     (if i < stop \<and> i < llen e then
        do { c \<leftarrow> (if echo_char v = 0 then if i < 0 then None else rd (area e) (CMDLINE_BUF + nat i)
                  else Some (echo_char v));
             es \<leftarrow> cl_print v e (i + 1) stop; Some (TPut c # es) }
      else Some [])"
  by pat_completeness auto
termination
  by (relation "measure (\<lambda>(v, e, i, stop). nat (stop - i))") auto

text \<open>
  What \<open>cl_refresh\<close> writes from column \<open>pos\<close> on: \<open>len\<close> characters from index \<open>start\<close>, spaces,
  the mark in the last column, and the way back to column \<open>x\<close>.
\<close>

definition cl_draw :: "cl_env \<Rightarrow> editor \<Rightarrow> int \<Rightarrow> int \<Rightarrow> int \<Rightarrow> int \<Rightarrow> tevent list option" where
  "cl_draw v e start len pos x =
     do { es \<leftarrow> cl_print v e start (start + len);
          let i = start + int (length es);
          let spaces = replicate (nat (start + len - i)) (TPut 32);
          let pos1 = pos + int (length (es @ spaces));
          let last = (if pos1 = CMDLINE_WIDTH
                      then [TPut (if start + len < llen e then ch CHR ''>'' else 32)] else []);
          let pos2 = pos1 + int (length last);
          let back = (if dumb v then replicate (nat (pos2 - x)) (TPut 8) else [TGoto x]);
          Some (es @ spaces @ last @ back) }"

text \<open>The index of the first character of a section.\<close>

definition sect_start :: "cl_env \<Rightarrow> int \<Rightarrow> int" where
  "sect_start v s =
     (if s = 0 then 0
      else (s - 1) * (CMDLINE_WIDTH - 1 - CMDLINE_MARGIN) + CMDLINE_WIDTH - plen v - CMDLINE_MARGIN)"

definition cl_refresh :: "cl_env \<Rightarrow> bool \<Rightarrow> int \<Rightarrow> editor \<Rightarrow> editor option" where
  "cl_refresh v full len0 e =
     (let s = (if full then
                 if lpos e + plen v < CMDLINE_WIDTH then 0
                 else (lpos e + plen v - CMDLINE_WIDTH) div (CMDLINE_WIDTH - 1 - CMDLINE_MARGIN) + 1
               else sect e);
          len = (if full then if s = 0 then CMDLINE_WIDTH - plen v else CMDLINE_WIDTH - 1 else len0);
          pos = (if full then if s = 0 then plen v else 1 else xpos e);
          head = (if full then TPut 13 # (if s = 0 then map TPut (prompt v) else [TPut (ch CHR ''<'')])
                  else []);
          offset = (if full then 0 else if s = 0 then xpos e - plen v else xpos e - 1);
          x = (if s = 0 then lpos e + plen v else lpos e + 1 - sect_start v s)
      in do { es \<leftarrow> cl_draw v e (sect_start v s + offset) len pos x;
              Some (emit (head @ es) (e\<lparr>sect := s, xpos := x\<rparr>)) })"

definition cl_backward :: "cl_env \<Rightarrow> int \<Rightarrow> editor \<Rightarrow> editor option" where
  "cl_backward v count e0 =
     (let e = e0\<lparr>lpos := lpos e0 - count\<rparr>
      in if sect e = 1 \<and> plen v + lpos e < CMDLINE_WIDTH then cl_refresh v True 0 e
         else if xpos e - count < 1 then cl_refresh v True 0 e
         else Some (emit (if dumb v then replicate (nat count) (TPut 8) else [TGoto (xpos e - count)])
                      (e\<lparr>xpos := xpos e - count\<rparr>)))"

definition cl_forward :: "cl_env \<Rightarrow> int \<Rightarrow> editor \<Rightarrow> editor option" where
  "cl_forward v count e0 =
     (let e = e0\<lparr>lpos := lpos e0 + count\<rparr>
      in if xpos e + count \<ge> CMDLINE_WIDTH then cl_refresh v True 0 e
         else do { es \<leftarrow> (if dumb v then cl_print v (e\<lparr>llen := lpos e\<rparr>) (lpos e - count) (lpos e)
                         else Some [TGoto (xpos e + count)]);
                   Some (emit es (e\<lparr>xpos := xpos e + count\<rparr>)) })"

definition cl_init :: "cl_env \<Rightarrow> editor \<Rightarrow> editor option" where
  "cl_init v e = cl_refresh v True 0 (emit [TPut 10] e)"

section \<open>Changing the line\<close>

text \<open>Insert the string at \<open>p\<close> in object \<open>b\<close> at the cursor.\<close>

definition cl_insert :: "cl_env \<Rightarrow> cbuf \<Rightarrow> nat \<Rightarrow> editor \<Rightarrow> editor option" where
  "cl_insert v b p e =
     do { n \<leftarrow> grub_strlen b p;
          let l = int n;
          if llen e + l < maxlen e then
            do { a \<leftarrow> (if lpos e = llen e then copy_obj (area e) (CMDLINE_BUF + nat (lpos e)) b p (n + 1)
                      else do { a1 \<leftarrow> move_in (area e) (CMDLINE_BUF + nat (lpos e) + n) (CMDLINE_BUF + nat (lpos e))
                                        (nat (llen e - lpos e + 1));
                                copy_obj a1 (CMDLINE_BUF + nat (lpos e)) b p n });
                 let e1 = e\<lparr>area := a, llen := llen e + l, lpos := lpos e + l\<rparr>;
                 if xpos e1 + l \<ge> CMDLINE_WIDTH then cl_refresh v True 0 e1
                 else if xpos e1 + l + llen e1 - lpos e1 > CMDLINE_WIDTH
                      then cl_refresh v False (CMDLINE_WIDTH - xpos e1) e1
                 else cl_refresh v False (l + llen e1 - lpos e1) e1 }
          else Some e }"

definition cl_delete :: "cl_env \<Rightarrow> int \<Rightarrow> editor \<Rightarrow> editor option" where
  "cl_delete v count e =
     do { a \<leftarrow> move_in (area e) (CMDLINE_BUF + nat (lpos e)) (CMDLINE_BUF + nat (lpos e + count))
                 (nat (llen e - count + 1));
          let e1 = e\<lparr>area := a, llen := llen e - count\<rparr>;
          if xpos e1 + llen e1 + count - lpos e1 > CMDLINE_WIDTH
          then cl_refresh v False (CMDLINE_WIDTH - xpos e1) e1
          else cl_refresh v False (llen e1 + count - lpos e1) e1 }"

section \<open>The keys\<close>

text \<open>Tab: the scans over the line, in the order of the code.\<close>

function scan_while :: "(u8 \<Rightarrow> bool) \<Rightarrow> cbuf \<Rightarrow> nat \<Rightarrow> nat option" where
  "scan_while P b i = do { c \<leftarrow> rd b i; if P c then scan_while P b (i + 1) else Some i }"
  by pat_completeness auto
termination
  by (relation "measure (\<lambda>(P, b, i). length b - i)") (auto simp: cmem)

function find_equal :: "cbuf \<Rightarrow> nat \<Rightarrow> nat option option" where
  "find_equal b i = do { c \<leftarrow> rd b i;
     if c \<noteq> 0 \<and> c \<noteq> 32 then if c = ch CHR ''='' then Some (Some i) else find_equal b (i + 1)
     else Some None }"
  by pat_completeness auto
termination
  by (relation "measure (\<lambda>(b, i). length b - i)") (auto simp: cmem)

fun word_start :: "cbuf \<Rightarrow> nat \<Rightarrow> nat option" where
  "word_start b 0 = Some 0"
| "word_start b (Suc i) = do { c \<leftarrow> rd b i; if c \<noteq> 32 then word_start b i else Some (Suc i) }"

definition cl_tab :: "cl_env \<Rightarrow> editor \<Rightarrow> editor option" where
  "cl_tab v e =
     do { pos0 \<leftarrow> scan_while (\<lambda>c. c = 32) (area e) CMDLINE_BUF;
          pos \<leftarrow> scan_while (\<lambda>c. c \<noteq> 0 \<and> c \<noteq> ch CHR ''='' \<and> c \<noteq> 32) (area e) pos0;
          let is_filename = (lpos e > int pos);
          equal_pos \<leftarrow> find_equal (area e) pos;
          a1 \<leftarrow> (case equal_pos of None \<Rightarrow> Some (area e) | Some i \<Rightarrow> wr (area e) i 32);
          i \<leftarrow> word_start a1 (nat (lpos e));
          let w = nat (lpos e) - i;
          a2 \<leftarrow> move_in a1 COMPLETION_BUF (CMDLINE_BUF + i) w;
          a3 \<leftarrow> wr a2 (COMPLETION_BUF + w) 0;
          (ret, a4, es) \<leftarrow> completions v is_filename True a3;
          let e1 = emit (TFlush # es) (e\<lparr>area := a4\<rparr>);
          e2 \<leftarrow> (if ret \<ge> 0 then
                   do { e' \<leftarrow> cl_insert v (area e1) (COMPLETION_BUF + w) e1;
                        if ret > 0 then
                          do { (_, a5, es') \<leftarrow> completions v is_filename False (area e');
                               Some (emit (TPut 10 # es') (e'\<lparr>area := a5\<rparr>)) }
                        else Some e' }
                 else Some e1);
          a6 \<leftarrow> (case equal_pos of None \<Rightarrow> Some (area e2) | Some k \<Rightarrow> wr (area e2) k (ch CHR ''=''));
          let e3 = e2\<lparr>area := a6\<rparr>;
          if ret \<noteq> 0 then cl_init v e3 else Some e3 }"

definition cl_kill_bol :: "cl_env \<Rightarrow> editor \<Rightarrow> editor option" where
  "cl_kill_bol v e =
     (if lpos e \<noteq> 0 then
        do { a1 \<leftarrow> move_in (area e) KILL_BUF CMDLINE_BUF (nat (lpos e));
             a2 \<leftarrow> wr a1 (KILL_BUF + nat (lpos e)) 0;
             let count = lpos e;
             e1 \<leftarrow> cl_backward v (lpos e) (e\<lparr>area := a2\<rparr>);
             cl_delete v count e1 }
      else Some e)"

definition cl_kill_eol :: "cl_env \<Rightarrow> editor \<Rightarrow> editor option" where
  "cl_kill_eol v e =
     (if lpos e \<noteq> llen e then
        do { a1 \<leftarrow> move_in (area e) KILL_BUF (CMDLINE_BUF + nat (lpos e)) (nat (llen e - lpos e + 1));
             cl_delete v (llen e - lpos e) (e\<lparr>area := a1\<rparr>) }
      else Some e)"

text \<open>Put the string at \<open>p\<close> of object \<open>b\<close> on the line, cursor at its end.\<close>

definition cl_replace :: "cl_env \<Rightarrow> cbuf \<Rightarrow> nat \<Rightarrow> editor \<Rightarrow> editor option" where
  "cl_replace v b p e =
     do { a \<leftarrow> grub_strcpy (area e) CMDLINE_BUF b p;
          n \<leftarrow> grub_strlen a CMDLINE_BUF;
          cl_refresh v True 0 (e\<lparr>area := a, llen := int n, lpos := int n\<rparr>) }"

text \<open>Keep a modified history line: \<open>add_history (buf, history)\<close> unless it equals the entry.\<close>

definition keep_modified :: "editor \<Rightarrow> editor option" where
  "keep_modified e =
     (case get_history e (history e) of None \<Rightarrow> None
      | Some p \<Rightarrow>
        do { r \<leftarrow> grub_strcmp (area e) p (area e) CMDLINE_BUF;
             if r \<noteq> 0 then add_history (area e) CMDLINE_BUF (nat (history e)) e else Some e })"

definition cl_up :: "cl_env \<Rightarrow> editor \<Rightarrow> editor option" where
  "cl_up v e =
     do { e1 \<leftarrow> (if history e < 0
                 then do { c \<leftarrow> grub_strcpy (cmdline e) 0 (area e) CMDLINE_BUF; Some (e\<lparr>cmdline := c\<rparr>) }
                 else keep_modified e);
          let e2 = e1\<lparr>history := history e1 + 1\<rparr>;
          case get_history e2 (history e2) of
            None \<Rightarrow> Some (e2\<lparr>history := history e2 - 1\<rparr>)
          | Some p \<Rightarrow> cl_replace v (area e2) p e2 }"

definition cl_down :: "cl_env \<Rightarrow> editor \<Rightarrow> editor option" where
  "cl_down v e =
     (if history e \<ge> 0 then
        do { e1 \<leftarrow> keep_modified e;
             let e2 = e1\<lparr>history := history e1 - 1\<rparr>;
             case get_history e2 (history e2) of
               None \<Rightarrow> cl_replace v (cmdline e2) 0 e2
             | Some p \<Rightarrow> cl_replace v (area e2) p e2 }
      else Some e)"

text \<open>The readline bindings, tried first, and the keys that are always handled.\<close>

definition key_readline :: "cl_env \<Rightarrow> u32 \<Rightarrow> editor \<Rightarrow> editor option" where
  "key_readline v c e =
     (let k = (ucast c :: u8)
      in if k = 9 then cl_tab v e
         else if c = 0x4700 \<or> k = 1 then cl_backward v (lpos e) e
         else if c = 0x4F00 \<or> k = 5 then cl_forward v (llen e - lpos e) e
         else if c = 0x4D00 \<or> k = 6 then if lpos e < llen e then cl_forward v 1 e else Some e
         else if c = 0x4B00 \<or> k = 2 then if lpos e > 0 then cl_backward v 1 e else Some e
         else if k = 21 then cl_kill_bol v e
         else if k = 11 then cl_kill_eol v e
         else if k = 25 then cl_insert v (area e) KILL_BUF e
         else if c = 0x4800 \<or> k = 16 then cl_up v e
         else if c = 0x5000 \<or> k = 14 then cl_down v e
         else Some e)"

definition key_always :: "cl_env \<Rightarrow> u32 \<Rightarrow> editor \<Rightarrow> editor option" where
  "key_always v c e =
     (let k = (ucast c :: u8)
      in if c = 0x5300 \<or> k = 4 then if lpos e \<noteq> llen e then cl_delete v 1 e else Some e
         else if k = 8 \<or> c = 0x0E08 then
           if lpos e > 0 then do { e1 \<leftarrow> cl_backward v 1 e; cl_delete v 1 e1 } else Some e
         else if 32 \<le>s k \<and> k \<le>s 126 then cl_insert v [k, 0] 0 e
         else Some e)"

section \<open>Reading a line\<close>

text \<open>
  The result of reading keys: the return value with the final state, or the state in which the
  editor waits for another key.
\<close>

datatype cl_out = Waiting editor | Returned bool editor

definition cl_finish :: "cl_env \<Rightarrow> editor \<Rightarrow> editor option" where
  "cl_finish v e0 =
     (let e = emit [TPut 10] e0
      in do { lp \<leftarrow> (if echo_char v = 0 then scan_while (\<lambda>c. c = 32) (area e) CMDLINE_BUF else Some 0);
              c \<leftarrow> copy_obj (cmdline e) 0 (area e) (CMDLINE_BUF + lp) (nat (llen e - int lp + 1));
              let e1 = e\<lparr>lpos := int lp, cmdline := c\<rparr>;
              if readline v \<and> int lp < llen e then add_history (cmdline e1) 0 0 e1 else Some e1 })"

fun cl_loop :: "cl_env \<Rightarrow> editor \<Rightarrow> u32 list \<Rightarrow> cl_out option" where
  "cl_loop v e [] = Some (Waiting e)"
| "cl_loop v e (c # keys) =
     (if (ucast c :: u8) \<noteq> 10 \<and> (ucast c :: u8) \<noteq> 13 then
        do { e1 \<leftarrow> (if readline v then key_readline v c e else Some e);
             if (ucast c :: u8) = 27 then Some (Returned True e1)
             else do { e2 \<leftarrow> key_always v c e1; cl_loop v e2 keys } }
      else do { e1 \<leftarrow> cl_finish v e; Some (Returned False e1) })"

text \<open>
  \<open>real_get_cmdline\<close> from the state left by the previous call (\<open>area\<close>, \<open>num_history\<close>, \<open>evs\<close>).
  The code stores the terminator of an over-long \<open>cmdline\<close> at index \<open>MAX_CMDLINE\<close>.
\<close>

definition real_get_cmdline :: "cl_env \<Rightarrow> nat \<Rightarrow> editor \<Rightarrow> u32 list \<Rightarrow> cl_out option" where
  "real_get_cmdline v maxlen0 e keys =
     do { n \<leftarrow> grub_strlen (cmdline e) 0;
          (ml, ll, c) \<leftarrow> (if maxlen0 > MAX_CMDLINE then
               if n \<ge> MAX_CMDLINE then do { c \<leftarrow> wr (cmdline e) MAX_CMDLINE 0;
                    Some (MAX_CMDLINE, MAX_CMDLINE - 1, c) }
               else Some (MAX_CMDLINE, n, cmdline e)
             else Some (maxlen0, n, cmdline e));
          a \<leftarrow> grub_strcpy (area e) CMDLINE_BUF c 0;
          e1 \<leftarrow> cl_init v (e\<lparr>area := a, cmdline := c, maxlen := int ml, llen := int ll, lpos := int ll,
                            history := -1\<rparr>);
          cl_loop v e1 keys }"

text \<open>
  \<open>get_cmdline\<close> on a terminal without echo or editing: \<open>p\<close> counts the characters stored.  The code
  does not compare it with \<open>maxlen\<close>.
\<close>

fun dumb_get_loop :: "bool \<Rightarrow> cbuf \<Rightarrow> nat \<Rightarrow> tevent list \<Rightarrow> u32 list \<Rightarrow> (bool \<times> cbuf \<times> tevent list) option option" where
  "dumb_get_loop no_echo b p es [] = Some None"
| "dumb_get_loop no_echo b p es (key # keys) =
     (let c = key AND 0xFF
      in if c \<noteq> 10 \<and> c \<noteq> 13 then
           if c = 27 then Some (Some (True, b, es))
           else if 32 \<le> c \<and> c \<le> 126 then
             do { let es' = (if no_echo then es else es @ [TPut (ucast c)]);
                  if c \<noteq> 32 \<or> p \<noteq> 0
                  then do { b' \<leftarrow> wr b p (ucast c); dumb_get_loop no_echo b' (p + 1) es' keys }
                  else dumb_get_loop no_echo b p es' keys }
           else dumb_get_loop no_echo b p es keys
         else do { b' \<leftarrow> wr b p 0;
                   Some (Some (False, b', if no_echo then es else es @ [TPut 10])) })"

end
