(* ===== verification/LineSpec.thy ===== *)
theory LineSpec
imports LineEdit
begin

text \<open>
  What the command-line editor promises: the line is a zipper (the text left and right of the
  cursor) with a kill buffer and a history list, and the screen row shows the window on the line
  that the comment at the head of \<open>real_get_cmdline\<close> describes.  The lemmas show that every
  operation keeps the invariant \<open>ed_ok\<close>, acts on the zipper as specified, and that its partial
  redrawing leaves the row as a full redraw would.
\<close>

declare cl_print.simps [simp del] scan_while.simps [simp del] find_equal.simps [simp del]

section \<open>Blocks\<close>

lemma move_in_cells:
  assumes "d + n \<le> length b" "s + n \<le> length b"
  obtains b' where "move_in b d s n = Some b'" "length b' = length b"
    "\<And>k. b' ! k = (if d \<le> k \<and> k < d + n then b ! (s + (k - d)) else b ! k)"
proof -
  have l: "length (take n (drop s b)) = n" using assms by simp
  have "move_in b d s n = Some (blit b d (take n (drop s b)))"
    using assms by (simp add: move_in_def slice_def store_def)
  moreover have "blit b d (take n (drop s b)) ! k
      = (if d \<le> k \<and> k < d + n then b ! (s + (k - d)) else b ! k)" for k
    using assms l by (subst nth_blit) auto
  ultimately show thesis using that assms l by simp
qed

lemma copy_obj_cells:
  assumes "d + n \<le> length b" "s + n \<le> length c"
  obtains b' where "copy_obj b d c s n = Some b'" "length b' = length b"
    "\<And>k. b' ! k = (if d \<le> k \<and> k < d + n then c ! (s + (k - d)) else b ! k)"
proof -
  have l: "length (take n (drop s c)) = n" using assms by simp
  have "copy_obj b d c s n = Some (blit b d (take n (drop s c)))"
    using assms by (simp add: copy_obj_def slice_def store_def)
  moreover have "blit b d (take n (drop s c)) ! k
      = (if d \<le> k \<and> k < d + n then c ! (s + (k - d)) else b ! k)" for k
    using assms l by (subst nth_blit) auto
  ultimately show thesis using that assms l by simp
qed

lemma str_of_iff_nth:
  "str_of b i = Some s \<longleftrightarrow> i + length s < length b \<and> (\<forall>k < length s. b ! (i + k) = s ! k \<and> s ! k \<noteq> 0)
     \<and> b ! (i + length s) = 0"
proof
  assume a: "str_of b i = Some s"
  then show "i + length s < length b \<and> (\<forall>k < length s. b ! (i + k) = s ! k \<and> s ! k \<noteq> 0)
     \<and> b ! (i + length s) = 0"
    using str_of_nth [OF a] str_of_nth_nz [OF a] by (simp add: str_of_iff)
next
  assume a: "i + length s < length b \<and> (\<forall>k < length s. b ! (i + k) = s ! k \<and> s ! k \<noteq> 0)
     \<and> b ! (i + length s) = 0"
  then have "take (length s) (drop i b) = s" by (intro nth_equalityI) auto
  moreover have "0 \<notin> set s" using a by (auto simp: in_set_conv_nth)
  ultimately show "str_of b i = Some s" using a by (simp add: str_of_iff)
qed

lemma str_of_same:
  assumes "str_of b i = Some s" "j + length s < length b'" "\<And>k. k \<le> length s \<Longrightarrow> b' ! (j + k) = b ! (i + k)"
  shows "str_of b' j = Some s"
  using assms by (auto simp: str_of_iff_nth)

lemma str_of_exists:
  assumes "i \<le> k" "k < length b" "b ! k = 0"
  shows "\<exists>s. str_of b i = Some s \<and> i + length s \<le> k"
  using assms
proof (induction "k - i" arbitrary: i)
  case 0
  then show ?case by (auto simp: str_of_iff intro!: exI [of _ "[]"])
next
  case (Suc n)
  show ?case
  proof (cases "b ! i = 0")
    case True
    then show ?thesis using Suc.prems by (auto simp: str_of_iff intro!: exI [of _ "[]"])
  next
    case False
    have "n = k - Suc i" "Suc i \<le> k" using Suc.hyps(2) by auto
    from Suc.hyps(1) [OF this Suc.prems(2,3)]
    obtain s where "str_of b (Suc i) = Some s" "Suc i + length s \<le> k" by blast
    then show ?thesis using False Suc.prems Suc.hyps(2)
      by (intro exI [of _ "b ! i # s"]) (auto simp: str_of_Cons_iff cmem)
  qed
qed

lemma strcpy_cells:
  assumes "str_of c j = Some s" "i + length s < length b"
  obtains b' where "grub_strcpy b i c j = Some b'" "length b' = length b" "str_of b' i = Some s"
    "\<And>k. k < i \<or> i + length s < k \<Longrightarrow> b' ! k = b ! k"
proof -
  have "i + (length s + 1) \<le> length b" "j + (length s + 1) \<le> length c"
    using assms str_of_bound [OF assms(1)] by auto
  from copy_obj_cells [OF this] obtain b' where b': "copy_obj b i c j (length s + 1) = Some b'"
    "length b' = length b"
    "\<And>k. b' ! k = (if i \<le> k \<and> k < i + (length s + 1) then c ! (j + (k - i)) else b ! k)" by metis
  moreover have "str_of b' i = Some s"
    using assms b'(2,3) by (intro str_of_same [OF assms(1)]) auto
  moreover have "grub_strcpy b i c j = Some b'"
    using assms(1) b'(1) by (simp add: grub_strcpy_def grub_strlen_eq)
  moreover have "\<And>k. k < i \<or> i + length s < k \<Longrightarrow> b' ! k = b ! k" using b'(3) by auto
  ultimately show thesis using that by blast
qed

section \<open>The screen row\<close>

text \<open>
  One row: its cells and the column of the cursor.  A tab, which \<open>grub_putchar\<close> expands to blanks, has no place in it: the
  statements on rows are for lines of \<open>plain\<close> characters.
\<close>

type_synonym row = "(int \<Rightarrow> u8) \<times> int"

fun row_event :: "tevent \<Rightarrow> row \<Rightarrow> row" where
  "row_event (TPut c) (f, x) =
     (if c = 10 then (\<lambda>_. 32, 0) else if c = 13 then (f, 0) else if c = 8 then (f, x - 1)
      else (f(x := c), x + 1))"
| "row_event (TGoto y) (f, x) = (f, y)"
| "row_event TFlush r = r"

definition row_of :: "tevent list \<Rightarrow> row" where
  "row_of es = fold row_event es (\<lambda>_. 32, 0)"

definition plain :: "u8 \<Rightarrow> bool" where
  "plain c \<longleftrightarrow> c \<noteq> 8 \<and> c \<noteq> 9 \<and> c \<noteq> 10 \<and> c \<noteq> 13"

lemma fold_puts:
  assumes "\<forall>c \<in> set s. plain c"
  shows "fold row_event (map TPut s) (f, x) =
    (\<lambda>y. if x \<le> y \<and> y < x + int (length s) then s ! nat (y - x) else f y, x + int (length s))"
  using assms
proof (induction s arbitrary: f x)
  case (Cons c s)
  have e: "row_event (TPut c) (f, x) = (f(x := c), x + 1)" using Cons.prems by (simp add: plain_def)
  have a: "(if x + 1 \<le> y \<and> y < x + 1 + int (length s) then s ! nat (y - (x + 1)) else (f(x := c)) y)
      = (if x \<le> y \<and> y < x + int (length (c # s)) then (c # s) ! nat (y - x) else f y)" for y
  proof -
    consider "y < x" | "y = x" | "x < y" by linarith
    then show ?thesis
    proof cases
      case 3
      then have "nat (y - x) = Suc (nat (y - (x + 1)))" by linarith
      then show ?thesis using 3 by auto
    qed auto
  qed
  show ?case using Cons.prems by (simp only: list.map fold_simps e) (subst Cons.IH, auto simp: a)
qed (auto simp: fun_eq_iff)

lemma fold_backspaces [simp]: "(row_event (TPut 8) ^^ n) (f, x) = (f, x - int n)"
  by (induction n arbitrary: x) auto

text \<open>What belongs in column \<open>c\<close> of the row: the prompt or \<open><\<close>, the window on the line, and
  \<open>>\<close> in the last column when characters are hidden on the right.\<close>

definition glyph :: "cl_env \<Rightarrow> editor \<Rightarrow> int \<Rightarrow> u8" where
  "glyph v e i = (if i < llen e then if echo_char v = 0 then area e ! nat i else echo_char v else 32)"

definition window :: "cl_env \<Rightarrow> editor \<Rightarrow> int \<Rightarrow> u8" where
  "window v e c =
     (if sect e = 0 \<and> c < plen v then prompt v ! nat c
      else if sect e > 0 \<and> c = 0 then ch CHR ''<''
      else if c < CMDLINE_WIDTH then glyph v e (c - plen v + 67 * sect e)
      else if CMDLINE_WIDTH - plen v + 67 * sect e < llen e then ch CHR ''>'' else 32)"

definition shows_line :: "cl_env \<Rightarrow> editor \<Rightarrow> bool" where
  "shows_line v e \<longleftrightarrow> snd (row_of (evs e)) = xpos e \<and>
     (\<forall>c. 0 \<le> c \<and> c \<le> CMDLINE_WIDTH \<longrightarrow> fst (row_of (evs e)) c = window v e c)"

definition cl_line :: "editor \<Rightarrow> u8 list" where
  "cl_line e = take (nat (llen e)) (area e)"

text \<open>Lines whose characters each fill one cell; the echo character too.\<close>

definition plain_line :: "cl_env \<Rightarrow> editor \<Rightarrow> bool" where
  "plain_line v e \<longleftrightarrow> list_all plain (cl_line e) \<and> list_all plain (prompt v) \<and> plain (echo_char v)"

section \<open>The invariant\<close>

definition ed_ok :: "cl_env \<Rightarrow> editor \<Rightarrow> bool" where
  "ed_ok v e \<longleftrightarrow> length (area e) = AREA_LEN \<and> area e ! (AREA_LEN - 1) = 0 \<and>
     0 \<le> llen e \<and> str_of (area e) CMDLINE_BUF = Some (cl_line e) \<and>
     0 \<le> lpos e \<and> lpos e \<le> llen e \<and> llen e < maxlen e \<and> maxlen e \<le> int MAX_CMDLINE \<and>
     0 \<le> sect e \<and> xpos e = lpos e + plen v - 67 * sect e \<and> (if sect e = 0 then 0 else 1) \<le> xpos e \<and>
     xpos e < CMDLINE_WIDTH"

text \<open>What a redraw needs: the line and the cursor, but not the column.\<close>

definition line_ok :: "editor \<Rightarrow> bool" where
  "line_ok e \<longleftrightarrow> length (area e) = AREA_LEN \<and> area e ! (AREA_LEN - 1) = 0 \<and>
     0 \<le> llen e \<and> str_of (area e) CMDLINE_BUF = Some (cl_line e) \<and>
     0 \<le> lpos e \<and> lpos e \<le> llen e \<and> llen e < maxlen e \<and> maxlen e \<le> int MAX_CMDLINE"

definition column_ok :: "cl_env \<Rightarrow> editor \<Rightarrow> bool" where
  "column_ok v e \<longleftrightarrow> 0 \<le> sect e \<and> xpos e = lpos e + plen v - 67 * sect e \<and>
     (if sect e = 0 then 0 else 1) \<le> xpos e \<and> xpos e < CMDLINE_WIDTH"

lemma ed_ok_iff: "ed_ok v e \<longleftrightarrow> line_ok e \<and> column_ok v e"
  by (simp add: ed_ok_def line_ok_def column_ok_def)

lemma length_cl_line:
  assumes "line_ok e"
  shows "int (length (cl_line e)) = llen e"
proof -
  have "nat (llen e) \<le> length (area e)"
    using assms by (auto simp: line_ok_def area_offsets)
  then show ?thesis using assms by (simp add: cl_line_def line_ok_def)
qed


section \<open>Redrawing\<close>

definition glyphs :: "cl_env \<Rightarrow> editor \<Rightarrow> int \<Rightarrow> int \<Rightarrow> u8 list" where
  "glyphs v e i j = map (glyph v e) [i..j]"

lemma length_glyphs [simp]: "length (glyphs v e i j) = nat (j - i + 1)"
  by (simp add: glyphs_def)

lemma cl_print_glyphs:
  assumes "length (area e) = AREA_LEN" "llen e < int AREA_LEN" "0 \<le> i"
  shows "\<exists>es. cl_print v e i stop = Some es \<and>
    es @ replicate (nat (stop - (i + int (length es)))) (TPut 32) = map TPut (glyphs v e i (stop - 1)) \<and>
    int (length es) = max 0 (min stop (llen e) - i)"
  using assms
proof (induction v e i stop rule: cl_print.induct)
  case (1 v e i stop)
  consider "stop \<le> i" | "i < stop" "llen e \<le> i" | "i < stop" "i < llen e" by linarith
  then show ?case
  proof cases
    case 1
    then show ?thesis by (subst cl_print.simps) (auto simp: glyphs_def)
  next
    case 2
    have "map TPut (glyphs v e i (stop - 1)) = replicate (nat (stop - i)) (TPut 32)"
      by (rule replicate_eqI) (use 2 in \<open>auto simp: glyph_def glyphs_def\<close>)
    then show ?thesis using 2 by (subst cl_print.simps) auto
  next
    case 3
    have c: "(if echo_char v = 0 then if i < 0 then None else rd (area e) (CMDLINE_BUF + nat i)
        else Some (echo_char v)) = Some (glyph v e i)"
      using 3 "1.prems" by (auto simp: glyph_def CMDLINE_BUF_def)
    obtain es where es: "cl_print v e (i + 1) stop = Some es"
      "es @ replicate (nat (stop - (i + 1 + int (length es)))) (TPut 32) = map TPut (glyphs v e (i + 1) (stop - 1))"
      "int (length es) = max 0 (min stop (llen e) - (i + 1))"
      using "1.IH" [OF _ c] 3 "1.prems" by auto
    have u: "glyphs v e i (stop - 1) = glyph v e i # glyphs v e (i + 1) (stop - 1)"
      using 3 by (simp add: upto_rec1 glyphs_def)
    have "i + int (length (TPut (glyph v e i) # es)) = i + 1 + int (length es)" by simp
    then show ?thesis
      using 3 es c by (subst cl_print.simps) (auto simp: u add.assoc)
  qed
qed

text \<open>The columns of a full redraw.\<close>

definition new_sect :: "cl_env \<Rightarrow> editor \<Rightarrow> int" where
  "new_sect v e = (if lpos e + plen v < CMDLINE_WIDTH then 0
     else (lpos e + plen v - CMDLINE_WIDTH) div (CMDLINE_WIDTH - 1 - CMDLINE_MARGIN) + 1)"

lemma new_sect_column:
  fixes v :: cl_env and e :: editor
  assumes "0 \<le> lpos e"
  defines "s \<equiv> new_sect v e"
  shows "0 \<le> s" "(if s = 0 then 0 else 1) \<le> lpos e + plen v - 67 * s" "lpos e + plen v - 67 * s < 78"
proof -
  have "0 \<le> s \<and> (if s = 0 then 0 else 1) \<le> lpos e + plen v - 67 * s \<and> lpos e + plen v - 67 * s < 78"
  proof (cases "lpos e + plen v < 78")
    case True
    then show ?thesis using assms(1) by (simp add: s_def new_sect_def CMDLINE_WIDTH_def)
  next
    case False
    let ?q = "lpos e + plen v - 78"
    define d where "d = ?q div 67"
    have "?q = d * 67 + ?q mod 67" by (simp add: d_def)
    moreover have "0 \<le> ?q mod 67" "?q mod 67 < 67" by simp_all
    ultimately have "67 * d \<le> ?q" "?q < 67 * d + 67" by linarith+
    moreover have "0 \<le> d" using False by (simp add: d_def pos_imp_zdiv_nonneg_iff)
    moreover have "s = d + 1" using False by (simp add: s_def new_sect_def d_def CMDLINE_WIDTH_def CMDLINE_MARGIN_def)
    ultimately show ?thesis by simp
  qed
  then show "0 \<le> s" "(if s = 0 then 0 else 1) \<le> lpos e + plen v - 67 * s" "lpos e + plen v - 67 * s < 78"
    by auto
qed

lemma sect_start_eq: "sect_start v s = (if s = 0 then 0 else 67 * s + 1 - plen v)"
  by (simp add: sect_start_def CMDLINE_WIDTH_def CMDLINE_MARGIN_def algebra_simps)

text \<open>The events after the characters: the mark when the last column is reached, and the way back.\<close>

definition draw_end :: "cl_env \<Rightarrow> bool \<Rightarrow> int \<Rightarrow> int \<Rightarrow> tevent list" where
  "draw_end v hid pos x =
     (if pos = CMDLINE_WIDTH then [TPut (if hid then ch CHR ''>'' else 32)] else []) @
     (if dumb v then replicate (nat (pos + of_bool (pos = CMDLINE_WIDTH) - x)) (TPut 8) else [TGoto x])"

lemma cl_draw_glyphs:
  assumes "line_ok e" "0 \<le> start" "0 \<le> len"
  shows "cl_draw v e start len pos x = Some (map TPut (glyphs v e start (start + len - 1)) @
    draw_end v (start + len < llen e) (pos + len) x)"
proof -
  have a: "length (area e) = AREA_LEN" "llen e < int AREA_LEN"
    using assms(1) by (auto simp: line_ok_def area_offsets)
  obtain es where es: "cl_print v e start (start + len) = Some es"
    "es @ replicate (nat (start + len - (start + int (length es)))) (TPut 32) =
       map TPut (glyphs v e start (start + len - 1))"
    "int (length es) \<le> max 0 len"
    using cl_print_glyphs [OF a assms(2), of v "start + len"] by auto
  have len: "pos + int (length (es @ replicate (nat (start + len - (start + int (length es)))) (TPut 32)))
      = pos + len"
    using es(3) assms(3) by auto
  show ?thesis
    unfolding cl_draw_def es(1) bind.bind_lunit Let_def len append_assoc [symmetric] es(2)
    using assms(3) by (simp add: draw_end_def)
qed

lemma fold_draw_end:
  assumes "x \<le> pos" "pos \<le> CMDLINE_WIDTH"
  shows "fold row_event (draw_end v hid pos x) (f, pos) =
    (if pos = CMDLINE_WIDTH then f(CMDLINE_WIDTH := (if hid then ch CHR ''>'' else 32)) else f, x)"
  using assms by (auto simp: draw_end_def)

lemma cl_refresh_full:
  fixes v :: cl_env and e :: editor
  assumes "line_ok e" "plen v \<le> 67"
  defines "s \<equiv> new_sect v e"
  defines "e' \<equiv> e\<lparr>sect := s, xpos := lpos e + plen v - 67 * s\<rparr>"
  shows "cl_refresh v True n e = Some (emit
    (TPut 13 # (if s = 0 then map TPut (prompt v) else [TPut (ch CHR ''<'')])
      @ map TPut (glyphs v e (sect_start v s) (77 - plen v + 67 * s))
      @ draw_end v (CMDLINE_WIDTH - plen v + 67 * s < llen e) CMDLINE_WIDTH (xpos e')) e')"
proof -
  have s0: "0 \<le> s" using new_sect_column(1) assms by (simp add: line_ok_def)
  then have st: "0 \<le> sect_start v s" using assms(2) by (auto simp: sect_start_eq)
  have x: "(if s = 0 then lpos e + plen v else lpos e + 1 - sect_start v s) = lpos e + plen v - 67 * s"
    by (simp add: sect_start_eq)
  have d: "cl_draw v e (sect_start v s + 0) (if s = 0 then CMDLINE_WIDTH - plen v else CMDLINE_WIDTH - 1)
        (if s = 0 then plen v else 1) y
      = Some (map TPut (glyphs v e (sect_start v s) (77 - plen v + 67 * s)) @
         draw_end v (CMDLINE_WIDTH - plen v + 67 * s < llen e) CMDLINE_WIDTH y)" for y
    by (subst cl_draw_glyphs [OF assms(1)])
       (use st assms(2) in \<open>auto simp: CMDLINE_WIDTH_def sect_start_eq algebra_simps\<close>)
  show ?thesis
    unfolding cl_refresh_def if_True new_sect_def [symmetric] s_def [symmetric] Let_def d x bind.bind_lunit
    by (simp add: e'_def)
qed

lemma cl_refresh_part:
  assumes "line_ok e" "0 \<le> sect e" "xpos e = k + plen v - 67 * sect e" "0 \<le> k" "0 \<le> n"
  shows "cl_refresh v False n e = Some (emit
    (map TPut (glyphs v e k (k + n - 1)) @
       draw_end v (k + n < llen e) (xpos e + n) (lpos e + plen v - 67 * sect e))
    (e\<lparr>xpos := lpos e + plen v - 67 * sect e\<rparr>))"
proof -
  have x: "(if sect e = 0 then lpos e + plen v else lpos e + 1 - sect_start v (sect e))
      = lpos e + plen v - 67 * sect e"
    by (simp add: sect_start_eq)
  have k: "sect_start v (sect e) + (if sect e = 0 then xpos e - plen v else xpos e - 1) = k"
    using assms(3) by (simp add: sect_start_eq)
  show ?thesis
    unfolding cl_refresh_def if_False Let_def x k cl_draw_glyphs [OF assms(1,4,5)] bind.bind_lunit
    by (simp add: emit_def)
qed

section \<open>The row after a redraw\<close>

lemma glyph_plain:
  assumes "plain_line v e" "line_ok e" "0 \<le> i"
  shows "plain (glyph v e i)"
proof (cases "i < llen e \<and> echo_char v = 0")
  case True
  then have "area e ! nat i \<in> set (cl_line e)"
    using assms(2,3) length_cl_line [OF assms(2)]
    by (auto simp: cl_line_def in_set_conv_nth intro!: exI [of _ "nat i"])
  then show ?thesis using True assms(1) by (simp add: glyph_def plain_line_def list_all_iff)
next
  case False
  then show ?thesis using assms(1) by (auto simp: glyph_def plain_line_def plain_def)
qed

lemma fold_glyphs:
  assumes "plain_line v e" "line_ok e" "0 \<le> i" "0 \<le> n"
  shows "fold row_event (map TPut (glyphs v e i (i + n - 1))) (f, x) =
    (\<lambda>y. if x \<le> y \<and> y < x + n then glyph v e (i + (y - x)) else f y, x + n)"
proof -
  have p: "\<forall>c \<in> set (glyphs v e i (i + n - 1)). plain c"
    using glyph_plain [OF assms(1,2)] assms(3) by (auto simp: glyphs_def)
  have l: "int (length (glyphs v e i (i + n - 1))) = n" using assms(4) by (simp add: glyphs_def)
  show ?thesis
    unfolding fold_puts [OF p, of f x] l by (auto simp: fun_eq_iff glyphs_def nth_upto)
qed

lemma window_same:
  assumes "area e' = area e" "llen e' = llen e" "sect e' = sect e"
  shows "window v e' = window v e"
  using assms by (simp add: fun_eq_iff window_def glyph_def)

lemma row_of_append: "row_of (xs @ ys) = fold row_event ys (row_of xs)"
  by (simp add: row_of_def)

lemma shows_full:
  assumes "line_ok e" "plen v \<le> 67" "plain_line v e" "cl_refresh v True n e = Some e'"
  shows "shows_line v e'"
proof -
  let ?s = "new_sect v e"
  let ?m = "if ?s = 0 then plen v else 1"
  let ?head = "if ?s = 0 then prompt v else [ch CHR ''<'']"
  let ?hid = "CMDLINE_WIDTH - plen v + 67 * ?s < llen e"
  let ?x = "lpos e + plen v - 67 * ?s"
  have l: "0 \<le> lpos e" using assms(1) by (simp add: line_ok_def)
  note s = new_sect_column [OF l, of v]
  obtain f x where r: "row_of (evs e) = (f, x)" by fastforce
  have pl: "\<forall>c \<in> set ?head. plain c"
    using assms(3) by (auto simp: plain_line_def plain_def list_all_iff)
  have hd: "TPut 13 # (if ?s = 0 then map TPut (prompt v) else [TPut (ch CHR ''<'')]) = TPut 13 # map TPut ?head"
    by simp
  have lh: "int (length ?head) = ?m" by simp
  have g: "77 - plen v + 67 * ?s = sect_start v ?s + (CMDLINE_WIDTH - ?m) - 1"
    by (auto simp: sect_start_eq CMDLINE_WIDTH_def)
  have i: "0 \<le> sect_start v ?s" "0 \<le> CMDLINE_WIDTH - ?m"
    using s(1) assms(2) by (auto simp: sect_start_eq CMDLINE_WIDTH_def)
  have e': "sect e' = ?s" "xpos e' = ?x" "area e' = area e" "llen e' = llen e"
    "evs e' = evs e @ TPut 13 # map TPut ?head @ map TPut (glyphs v e (sect_start v ?s) (77 - plen v + 67 * ?s))
      @ draw_end v ?hid CMDLINE_WIDTH ?x"
    using assms(4) unfolding cl_refresh_full [OF assms(1,2)] by (auto simp: emit_def)
  have row: "row_of (evs e') =
      ((\<lambda>y. if ?m \<le> y \<and> y < CMDLINE_WIDTH then glyph v e (sect_start v ?s + (y - ?m))
            else if 0 \<le> y \<and> y < ?m then ?head ! nat y else f y)
       (CMDLINE_WIDTH := (if ?hid then ch CHR ''>'' else 32)), ?x)"
  proof -
    have 1: "fold row_event (TPut 13 # map TPut ?head) (f, x) =
        (\<lambda>y. if 0 \<le> y \<and> y < ?m then ?head ! nat y else f y, ?m)"
      using fold_puts [OF pl, of f 0] unfolding lh diff_0_right add_0_left by simp
    have 2: "fold row_event (map TPut (glyphs v e (sect_start v ?s) (77 - plen v + 67 * ?s))) (h, ?m) =
        (\<lambda>y. if ?m \<le> y \<and> y < CMDLINE_WIDTH then glyph v e (sect_start v ?s + (y - ?m)) else h y, CMDLINE_WIDTH)" for h
      unfolding g by (subst fold_glyphs [OF assms(3,1) i]) simp
    have 3: "fold row_event (draw_end v ?hid CMDLINE_WIDTH ?x) (h, CMDLINE_WIDTH) =
        (h(CMDLINE_WIDTH := (if ?hid then ch CHR ''>'' else 32)), ?x)" for h
      using s(3) by (subst fold_draw_end) (auto simp: CMDLINE_WIDTH_def)
    show ?thesis
      unfolding e'(5) append_Cons [symmetric] row_of_append r fold_append comp_apply 1 2 3 ..
  qed
  show ?thesis
    unfolding shows_line_def row snd_conv fst_conv e'(2)
    using s assms(2)
    by (auto simp: window_def e'(1,3,4) glyph_def CMDLINE_WIDTH_def sect_start_eq algebra_simps)
qed

lemma shows_part:
  assumes "line_ok e" "0 \<le> sect e" "0 \<le> k" "0 \<le> n" "plain_line v e"
    and "row_of (evs e) = (f, xpos e)" "xpos e = k + plen v - 67 * sect e"
    and "lpos e \<le> k + n" "xpos e + n \<le> CMDLINE_WIDTH" "(if sect e = 0 then plen v else 1) \<le> xpos e"
    and before: "\<And>c. 0 \<le> c \<Longrightarrow> c < xpos e \<Longrightarrow> f c = window v e c"
    and after: "\<And>c. xpos e + n \<le> c \<Longrightarrow> c < CMDLINE_WIDTH \<Longrightarrow> f c = window v e c"
    and last: "xpos e + n \<noteq> CMDLINE_WIDTH \<Longrightarrow> f CMDLINE_WIDTH = window v e CMDLINE_WIDTH"
    and "cl_refresh v False n e = Some e'"
  shows "shows_line v e'"
proof -
  let ?x = "lpos e + plen v - 67 * sect e"
  let ?hid = "k + n < llen e"
  have e': "sect e' = sect e" "xpos e' = ?x" "area e' = area e" "llen e' = llen e"
    "evs e' = evs e @ map TPut (glyphs v e k (k + n - 1)) @ draw_end v ?hid (xpos e + n) ?x"
    using assms(14) unfolding cl_refresh_part [OF assms(1,2,7,3,4)] by (auto simp: emit_def)
  have row: "row_of (evs e') =
     (let g = (\<lambda>y. if xpos e \<le> y \<and> y < xpos e + n then glyph v e (k + (y - xpos e)) else f y)
      in if xpos e + n = CMDLINE_WIDTH then g(CMDLINE_WIDTH := (if ?hid then ch CHR ''>'' else 32)) else g, ?x)"
    unfolding e'(5) row_of_append assms(6) fold_append comp_apply
    using assms(7,8,9)
    by (simp only: fold_glyphs [OF assms(5,1,3,4)]) (subst fold_draw_end, auto simp: Let_def)
  have cells: "(if xpos e + n = CMDLINE_WIDTH \<and> c = CMDLINE_WIDTH then (if ?hid then ch CHR ''>'' else 32)
      else if xpos e \<le> c \<and> c < xpos e + n then glyph v e (k + (c - xpos e)) else f c) = window v e c"
    if c: "0 \<le> c" "c \<le> CMDLINE_WIDTH" for c
  proof -
    consider "c < xpos e" | "xpos e + n \<le> c" "c < CMDLINE_WIDTH" | "c = CMDLINE_WIDTH" "xpos e + n \<noteq> CMDLINE_WIDTH"
      | "c = CMDLINE_WIDTH" "xpos e + n = CMDLINE_WIDTH" | "xpos e \<le> c" "c < xpos e + n" "c < CMDLINE_WIDTH"
      using c assms(9) by linarith
    then show ?thesis
    proof cases
      case 1
      then show ?thesis using before [of c] c assms(4,9) by auto
    next
      case 2
      then show ?thesis using after [of c] by auto
    next
      case 3
      then show ?thesis using last assms(9) by auto
    next
      case 4
      then have "k + n = CMDLINE_WIDTH - plen v + 67 * sect e" using assms(7) by linarith
      moreover have "plen v \<le> CMDLINE_WIDTH \<or> sect e \<noteq> 0" using assms(10) 4 assms(4) by auto
      ultimately show ?thesis using 4 assms(2) by (auto simp: window_def CMDLINE_WIDTH_def)
    next
      case 5
      have "\<not> (sect e = 0 \<and> c < plen v)" "\<not> (sect e > 0 \<and> c = 0)" using 5 assms(10) by auto
      moreover have i: "k + (c - xpos e) = c - plen v + 67 * sect e" using assms(7) by linarith
      ultimately show ?thesis using 5 unfolding i by (auto simp: window_def)
    qed
  qed
  show ?thesis
    unfolding shows_line_def row snd_conv fst_conv e'(2) window_same [OF e'(3,4,1)]
    by (simp add: cells [symmetric] Let_def)
qed

section \<open>What an operation does\<close>

text \<open>The text left and right of the cursor.\<close>

definition cl_zip :: "editor \<Rightarrow> u8 list \<times> u8 list" where
  "cl_zip e = (take (nat (lpos e)) (cl_line e), drop (nat (lpos e)) (cl_line e))"

definition framed :: "editor \<Rightarrow> editor \<Rightarrow> bool" where
  "framed e e' \<longleftrightarrow> cmdline e' = cmdline e \<and> num_history e' = num_history e \<and> history e' = history e \<and>
     maxlen e' = maxlen e \<and> (\<forall>k \<ge> HISTORY_BUF. area e' ! k = area e ! k)"

definition does :: "cl_env \<Rightarrow> editor \<Rightarrow> editor option \<Rightarrow> u8 list \<times> u8 list \<Rightarrow> bool" where
  "does v e r z \<longleftrightarrow> (\<exists>e'. r = Some e' \<and> ed_ok v e' \<and> cl_zip e' = z \<and> framed e e' \<and>
     (shows_line v e \<and> plain_line v e \<and> plain_line v e' \<longrightarrow> shows_line v e'))"

lemma framed_refl [simp]: "framed e e"
  by (simp add: framed_def)

lemma framed_trans: "framed e e1 \<Longrightarrow> framed e1 e2 \<Longrightarrow> framed e e2"
  by (simp add: framed_def)

lemma zip_line: "cl_zip e = (l, r) \<Longrightarrow> cl_line e = l @ r"
  by (auto simp: cl_zip_def)

lemma zip_lengths:
  assumes "line_ok e" "cl_zip e = (l, r)"
  shows "lpos e = int (length l)" "llen e = int (length l) + int (length r)"
  using assms length_cl_line [OF assms(1)] by (auto simp: cl_zip_def line_ok_def min_def)

lemma does_self: "ed_ok v e \<Longrightarrow> does v e (Some e) (cl_zip e)"
  by (auto simp: does_def)

text \<open>Fields the redrawing functions leave alone.\<close>

definition same_text :: "editor \<Rightarrow> editor \<Rightarrow> bool" where
  "same_text e e' \<longleftrightarrow> area e' = area e \<and> cmdline e' = cmdline e \<and> num_history e' = num_history e \<and>
     history e' = history e \<and> maxlen e' = maxlen e \<and> llen e' = llen e \<and> lpos e' = lpos e"

lemma same_text_simps:
  assumes "same_text e e'"
  shows "cl_line e' = cl_line e" "cl_zip e' = cl_zip e" "line_ok e' = line_ok e"
    "plain_line v e' = plain_line v e"
    "framed e0 e' = framed e0 e"
  using assms by (auto simp: same_text_def cl_line_def cl_zip_def line_ok_def plain_line_def framed_def)

lemma refresh_full_ok:
  assumes "line_ok e" "plen v \<le> 67"
  obtains e' where "cl_refresh v True n e = Some e'" "ed_ok v e'" "same_text e e'"
    "plain_line v e \<Longrightarrow> shows_line v e'"
proof -
  obtain e' where e': "cl_refresh v True n e = Some e'" using cl_refresh_full [OF assms] by blast
  then have c: "sect e' = new_sect v e" "xpos e' = lpos e + plen v - 67 * new_sect v e" "same_text e e'"
    unfolding cl_refresh_full [OF assms] by (auto simp: emit_def same_text_def)
  have "0 \<le> lpos e" using assms(1) by (simp add: line_ok_def)
  from new_sect_column [OF this, of v] c have "column_ok v e'"
    by (auto simp: column_ok_def same_text_def CMDLINE_WIDTH_def)
  then show thesis
    using that [OF e'] shows_full [OF assms _ e'] same_text_simps(3) [OF c(3)] assms(1) c(3)
    by (simp add: ed_ok_iff)
qed

lemma refresh_part_ok:
  assumes "line_ok e" "0 \<le> sect e" "xpos e = k + plen v - 67 * sect e" "0 \<le> k" "0 \<le> n"
    and "(if sect e = 0 then 0 else 1) \<le> lpos e + plen v - 67 * sect e"
    and "lpos e + plen v - 67 * sect e < CMDLINE_WIDTH"
  obtains e' where "cl_refresh v False n e = Some e'" "ed_ok v e'" "same_text e e'"
proof -
  obtain e' where e': "cl_refresh v False n e = Some e'" using cl_refresh_part [OF assms(1-5)] by blast
  then have c: "sect e' = sect e" "xpos e' = lpos e + plen v - 67 * sect e" "same_text e e'"
    unfolding cl_refresh_part [OF assms(1-5)] by (auto simp: emit_def same_text_def)
  then have "column_ok v e'" using assms by (auto simp: column_ok_def same_text_def)
  then show thesis
    using that [OF e'] same_text_simps(3) [OF c(3)] assms(1) c(3) by (simp add: ed_ok_iff)
qed

text \<open>Partial redraws after the text from the cursor on has changed.\<close>

lemma shows_edit:
  assumes "ed_ok v e" "shows_line v e" "line_ok e1" "plain_line v e1"
    and plen: "plen v \<le> 67" and "sect e1 = sect e" "xpos e1 = xpos e" "evs e1 = evs e"
    and "\<And>k. int k < lpos e \<Longrightarrow> area e1 ! k = area e ! k"
    and "lpos e \<le> lpos e1" "lpos e1 \<le> lpos e + n" "0 \<le> n" "xpos e + n \<le> CMDLINE_WIDTH"
    and "xpos e + n = CMDLINE_WIDTH \<or> llen e \<le> lpos e + n \<and> llen e1 \<le> lpos e + n"
    and "cl_refresh v False n e1 = Some e'"
  shows "shows_line v e'"
proof -
  obtain f where f: "row_of (evs e1) = (f, xpos e1)"
    "\<And>c. 0 \<le> c \<Longrightarrow> c \<le> CMDLINE_WIDTH \<Longrightarrow> f c = window v e c"
    using assms(2,7,8) by (cases "row_of (evs e)") (auto simp: shows_line_def)
  have x: "xpos e = lpos e + plen v - 67 * sect e" "(if sect e = 0 then 0 else 1) \<le> xpos e" "0 \<le> lpos e"
    "0 \<le> sect e" "lpos e \<le> llen e"
    using assms(1) by (auto simp: ed_ok_def)
  have l1: "lpos e1 \<le> llen e1" using assms(3) by (simp add: line_ok_def)
  show ?thesis
  proof (rule shows_part [OF assms(3) _ x(3) assms(12,4) f(1) _ assms(11) _ _ _ _ _ assms(15)])
    fix c assume c: "0 \<le> c" "c < xpos e1"
    then have "f c = window v e c" using assms(7,12,13) by (intro f(2)) auto
    also have "\<dots> = window v e1 c"
    proof -
      have "glyph v e (c - plen v + 67 * sect e) = glyph v e1 (c - plen v + 67 * sect e)"
        if "\<not> (sect e = 0 \<and> c < plen v)"
      proof -
        have "plen v \<le> c + 67 * sect e" using that x(4) c(1) plen by (cases "sect e = 0") auto
        moreover have "c - plen v + 67 * sect e < lpos e" using c(2) x(1) assms(7) by linarith
        ultimately show ?thesis
          using assms(9) [of "nat (c - plen v + 67 * sect e)"] x(5) l1 assms(10) by (simp add: glyph_def)
      qed
      moreover have "c < CMDLINE_WIDTH" using c assms(7,12,13) by linarith
      ultimately show ?thesis using assms(6) by (auto simp: window_def)
    qed
    finally show "f c = window v e1 c" .
  next
    fix c assume c: "xpos e1 + n \<le> c" "c < CMDLINE_WIDTH"
    then have i: "llen e \<le> c - plen v + 67 * sect e" "llen e1 \<le> c - plen v + 67 * sect e"
      using assms(7,14) x(1) by linarith+
    have "0 \<le> c" using c x(2) assms(7,12) by (auto split: if_splits)
    then have "f c = window v e c" using c by (intro f(2)) auto
    then show "f c = window v e1 c" using i c(2) assms(6) by (simp add: window_def glyph_def)
  next
    assume n: "xpos e1 + n \<noteq> CMDLINE_WIDTH"
    then have i: "llen e \<le> CMDLINE_WIDTH - plen v + 67 * sect e" "llen e1 \<le> CMDLINE_WIDTH - plen v + 67 * sect e"
      using assms(7,13,14) x(1) by linarith+
    have "f CMDLINE_WIDTH = window v e CMDLINE_WIDTH" by (rule f(2)) (auto simp: CMDLINE_WIDTH_def)
    then show "f CMDLINE_WIDTH = window v e1 CMDLINE_WIDTH"
      using i assms(6) by (simp add: window_def)
  qed (use x assms(6,7,13) in auto)
qed

section \<open>Moving the cursor\<close>

lemma zip_move: "cl_line e' = cl_line e \<Longrightarrow> lpos e' = k \<Longrightarrow>
  cl_zip e' = (take (nat k) (cl_line e), drop (nat k) (cl_line e))"
  by (simp add: cl_zip_def)

lemma moved_line_ok: "line_ok e \<Longrightarrow> 0 \<le> k \<Longrightarrow> k \<le> llen e \<Longrightarrow> line_ok (e\<lparr>lpos := k\<rparr>)"
  by (simp add: line_ok_def cl_line_def)

lemma refresh_moved:
  assumes "ed_ok v e" "plen v \<le> 67" "0 \<le> k" "k \<le> llen e"
  shows "does v e (cl_refresh v True 0 (e\<lparr>lpos := k\<rparr>))
    (take (nat k) (cl_line e), drop (nat k) (cl_line e))"
proof -
  have l: "line_ok (e\<lparr>lpos := k\<rparr>)" using assms by (simp add: moved_line_ok ed_ok_iff)
  obtain e' where e': "cl_refresh v True 0 (e\<lparr>lpos := k\<rparr>) = Some e'" "ed_ok v e'"
    "same_text (e\<lparr>lpos := k\<rparr>) e'" "plain_line v (e\<lparr>lpos := k\<rparr>) \<Longrightarrow> shows_line v e'"
    using refresh_full_ok [OF l assms(2)] by blast
  have "cl_line (e\<lparr>lpos := k\<rparr>) = cl_line e" "plain_line v (e\<lparr>lpos := k\<rparr>) = plain_line v e"
    "framed e (e\<lparr>lpos := k\<rparr>)"
    by (simp_all add: cl_line_def plain_line_def framed_def)
  then show ?thesis
    using e' same_text_simps [OF e'(3)] by (auto simp: does_def cl_zip_def)
qed

text \<open>Moving within the row: the cells stay, the cursor follows.\<close>

lemma moved_in_row:
  assumes "ed_ok v e" "0 \<le> k" "k \<le> llen e"
    and "(if sect e = 0 then 0 else 1) \<le> xpos e + (k - lpos e)" "xpos e + (k - lpos e) < CMDLINE_WIDTH"
    and "shows_line v e \<Longrightarrow> plain_line v e \<Longrightarrow>
      fold row_event es (row_of (evs e)) = (fst (row_of (evs e)), xpos e + (k - lpos e))"
  shows "does v e (Some (emit es (e\<lparr>lpos := k, xpos := xpos e + (k - lpos e)\<rparr>)))
    (take (nat k) (cl_line e), drop (nat k) (cl_line e))"
proof -
  let ?e = "emit es (e\<lparr>lpos := k, xpos := xpos e + (k - lpos e)\<rparr>)"
  have s: "area ?e = area e" "llen ?e = llen e" "sect ?e = sect e" by (simp_all add: emit_def)
  have "ed_ok v ?e" using assms by (auto simp: ed_ok_def emit_def cl_line_def)
  moreover have "cl_zip ?e = (take (nat k) (cl_line e), drop (nat k) (cl_line e))"
    by (simp add: cl_zip_def cl_line_def emit_def)
  moreover have "framed e ?e" by (simp add: framed_def emit_def)
  moreover have "shows_line v ?e" if "shows_line v e" "plain_line v e"
    using that assms(6) window_same [OF s, of v]
    by (simp add: shows_line_def emit_def row_of_append)
  ultimately show ?thesis by (auto simp: does_def)
qed

lemma cl_backward_ok:
  assumes "ed_ok v e" "plen v \<le> 67" "0 \<le> n" "n \<le> lpos e"
  shows "does v e (cl_backward v n e)
    (take (nat (lpos e - n)) (cl_line e), drop (nat (lpos e - n)) (cl_line e))"
proof (cases "sect e = 1 \<and> plen v + (lpos e - n) < CMDLINE_WIDTH \<or> xpos e - n < 1")
  case True
  then show ?thesis
    using refresh_moved [OF assms(1,2), of "lpos e - n"] assms by (auto simp: cl_backward_def ed_ok_def Let_def)
next
  case False
  let ?es = "if dumb v then replicate (nat n) (TPut 8) else [TGoto (xpos e - n)]"
  have x: "xpos e + (lpos e - n - lpos e) = xpos e - n" by simp
  have "fold row_event ?es (row_of (evs e)) = (fst (row_of (evs e)), xpos e + (lpos e - n - lpos e))"
    if "shows_line v e"
    using that assms(3) by (cases "row_of (evs e)") (simp add: shows_line_def)
  then have "does v e (Some (emit ?es (e\<lparr>lpos := lpos e - n, xpos := xpos e + (lpos e - n - lpos e)\<rparr>)))
    (take (nat (lpos e - n)) (cl_line e), drop (nat (lpos e - n)) (cl_line e))"
    using assms False by (intro moved_in_row) (auto simp: ed_ok_def)
  moreover have "\<not> (sect e = 1 \<and> plen v + (lpos e - n) < CMDLINE_WIDTH)" "\<not> xpos e - n < 1"
    using False by auto
  ultimately show ?thesis unfolding cl_backward_def x Let_def by auto
qed

lemma cl_forward_ok:
  assumes "ed_ok v e" "plen v \<le> 67" "0 \<le> n" "n \<le> llen e - lpos e"
  shows "does v e (cl_forward v n e)
    (take (nat (lpos e + n)) (cl_line e), drop (nat (lpos e + n)) (cl_line e))"
proof (cases "xpos e + n \<ge> CMDLINE_WIDTH")
  case True
  then show ?thesis
    using refresh_moved [OF assms(1,2), of "lpos e + n"] assms by (simp add: cl_forward_def ed_ok_def)
next
  case False
  let ?e = "e\<lparr>lpos := lpos e + n, llen := lpos e + n\<rparr>"
  have lo: "line_ok e" using assms(1) by (simp add: ed_ok_iff)
  have a: "length (area ?e) = AREA_LEN" "llen ?e < int AREA_LEN" "0 \<le> lpos e"
    using lo assms(4) by (auto simp: line_ok_def area_offsets)
  have gl: "glyphs v ?e (lpos e) (lpos e + n - 1) = glyphs v e (lpos e) (lpos e + n - 1)"
    using assms(4) by (auto simp: glyphs_def glyph_def)
  obtain es where es: "cl_print v ?e (lpos e) (lpos e + n) = Some es"
    "es = map TPut (glyphs v e (lpos e) (lpos e + n - 1))"
    using cl_print_glyphs [OF a(1,2,3), of v "lpos e + n"] assms(3) unfolding gl by auto
  let ?es = "if dumb v then es else [TGoto (xpos e + n)]"
  have x: "xpos e + (lpos e + n - lpos e) = xpos e + n" by simp
  have "fold row_event ?es (row_of (evs e)) = (fst (row_of (evs e)), xpos e + (lpos e + n - lpos e))"
    if s: "shows_line v e" "plain_line v e"
  proof -
    obtain f where r: "row_of (evs e) = (f, xpos e)" "\<And>c. 0 \<le> c \<Longrightarrow> c \<le> CMDLINE_WIDTH \<Longrightarrow> f c = window v e c"
      using s(1) by (cases "row_of (evs e)") (auto simp: shows_line_def)
    have w: "glyph v e (lpos e + (c - xpos e)) = f c" if c: "xpos e \<le> c" "c < xpos e + n" for c
    proof -
      have "0 \<le> c" "c < CMDLINE_WIDTH" and i: "lpos e + (c - xpos e) = c - plen v + 67 * sect e"
        and "\<not> (sect e = 0 \<and> c < plen v)" "\<not> (sect e > 0 \<and> c = 0)"
        using c False assms(1) by (auto simp: ed_ok_def split: if_splits)
      then show ?thesis using r(2) [of c] unfolding i by (auto simp: window_def)
    qed
    have "(\<lambda>y. if xpos e \<le> y \<and> y < xpos e + n then glyph v e (lpos e + (y - xpos e)) else f y) = f"
      using w by (auto simp: fun_eq_iff)
    then show ?thesis
      using fold_glyphs [OF s(2) lo a(3) assms(3), of f "xpos e"] r(1) es(2) by simp
  qed
  then have "does v e (Some (emit ?es (e\<lparr>lpos := lpos e + n, xpos := xpos e + (lpos e + n - lpos e)\<rparr>)))
    (take (nat (lpos e + n)) (cl_line e), drop (nat (lpos e + n)) (cl_line e))"
    using assms False by (intro moved_in_row) (auto simp: ed_ok_def split: if_splits)
  then show ?thesis using False es(1) by (auto simp: cl_forward_def x Let_def)
qed

section \<open>Changing the text\<close>

lemma cl_line_unique:
  assumes "str_of (area e) CMDLINE_BUF = Some t" "int (length t) = llen e"
  shows "cl_line e = t"
proof -
  have "nat (llen e) = length t" using assms(2) by linarith
  then show ?thesis using assms(1) by (simp add: str_of_iff cl_line_def CMDLINE_BUF_def)
qed

lemma line_cells:
  assumes "line_ok e"
  shows "\<And>k. int k < llen e \<Longrightarrow> area e ! k = cl_line e ! k \<and> cl_line e ! k \<noteq> 0"
    and "area e ! nat (llen e) = 0"
proof -
  have "nat (llen e) = length (cl_line e)" using length_cl_line [OF assms] by linarith
  then show "\<And>k. int k < llen e \<Longrightarrow> area e ! k = cl_line e ! k \<and> cl_line e ! k \<noteq> 0"
    "area e ! nat (llen e) = 0"
    using assms by (auto simp: line_ok_def str_of_iff_nth CMDLINE_BUF_def)
qed

text \<open>The state after the text changed: the cursor may have moved right over inserted text.\<close>

lemma edited:
  assumes "ed_ok v e" "plen v \<le> 67" "cl_zip e = (l, r)"
    and "length a = AREA_LEN" "str_of a CMDLINE_BUF = Some (l @ s @ r')"
    and "\<And>k. k < length l \<Longrightarrow> a ! k = area e ! k" "\<And>k. k \<ge> HISTORY_BUF \<Longrightarrow> a ! k = area e ! k"
    and "int (length (l @ s @ r')) < maxlen e"
    and e1: "e1 = e\<lparr>area := a, llen := int (length (l @ s @ r')), lpos := lpos e + int (length s)\<rparr>"
    and "q = cl_refresh v True 0 e1 \<or> (\<exists>n. q = cl_refresh v False n e1 \<and> xpos e + int (length s) < CMDLINE_WIDTH \<and>
      int (length s) \<le> n \<and> xpos e + n \<le> CMDLINE_WIDTH \<and>
      (xpos e + n = CMDLINE_WIDTH \<or> llen e \<le> lpos e + n \<and> llen e1 \<le> lpos e + n))"
  shows "does v e q (l @ s, r')"
proof -
  have lo: "line_ok e" using assms(1) by (simp add: ed_ok_iff)
  note len = zip_lengths [OF lo assms(3)]
  have t: "cl_line e1 = l @ s @ r'" by (rule cl_line_unique) (use assms(5) e1 in simp_all)
  have last: "AREA_LEN - 1 \<ge> HISTORY_BUF" by (simp add: area_offsets)
  have l1: "line_ok e1"
    using lo assms(4,5,8) assms(7) [OF last] t len by (auto simp: line_ok_def e1)
  have z: "cl_zip e1 = (l @ s, r')" using t len by (simp add: cl_zip_def e1 nat_add_distrib)
  have fr: "framed e e1" using assms(7) by (simp add: framed_def e1)
  from assms(10) consider (full) "q = cl_refresh v True 0 e1"
    | (part) n where "q = cl_refresh v False n e1" "xpos e + int (length s) < CMDLINE_WIDTH"
      "int (length s) \<le> n" "xpos e + n \<le> CMDLINE_WIDTH"
      "xpos e + n = CMDLINE_WIDTH \<or> llen e \<le> lpos e + n \<and> llen e1 \<le> lpos e + n"
    by blast
  then show ?thesis
  proof cases
    case q: full
    obtain e' where e': "cl_refresh v True 0 e1 = Some e'" "ed_ok v e'" "same_text e1 e'"
      "plain_line v e1 \<Longrightarrow> shows_line v e'"
      using refresh_full_ok [OF l1 assms(2)] by blast
    then show ?thesis using q z fr same_text_simps [OF e'(3)] by (auto simp: does_def)
  next
    case n: part
    have x: "0 \<le> sect e1" "xpos e1 = lpos e + plen v - 67 * sect e1" "0 \<le> lpos e" "0 \<le> n"
      "(if sect e1 = 0 then 0 else 1) \<le> lpos e1 + plen v - 67 * sect e1"
      "lpos e1 + plen v - 67 * sect e1 < CMDLINE_WIDTH"
      using assms(1) n(2,3) by (auto simp: ed_ok_def e1)
    obtain e' where e': "cl_refresh v False n e1 = Some e'" "ed_ok v e'" "same_text e1 e'"
      using refresh_part_ok [OF l1 x] by blast
    have "shows_line v e'" if "shows_line v e" "plain_line v e1"
    proof (rule shows_edit [OF assms(1) that(1) l1 that(2) assms(2)])
      show "area e1 ! k = area e ! k" if "int k < lpos e" for k
        using assms(6) [of k] that len(1) by (simp add: e1)
    qed (use n x(4) e'(1) in \<open>simp_all add: e1\<close>)
    then show ?thesis using n(1) z fr e' same_text_simps [OF e'(3)] by (auto simp: does_def)
  qed
qed

lemma insert_area:
  assumes "line_ok e" "cl_zip e = (l, r)" "str_of b p = Some s" "llen e + int (length s) < maxlen e"
  obtains a where
    "(if lpos e = llen e then copy_obj (area e) (CMDLINE_BUF + nat (lpos e)) b p (length s + 1)
      else do { a1 \<leftarrow> move_in (area e) (CMDLINE_BUF + nat (lpos e) + length s) (CMDLINE_BUF + nat (lpos e))
                        (nat (llen e - lpos e + 1));
                copy_obj a1 (CMDLINE_BUF + nat (lpos e)) b p (length s) }) = Some a"
    "length a = AREA_LEN" "str_of a CMDLINE_BUF = Some (l @ s @ r)"
    "\<And>k. k < length l \<Longrightarrow> a ! k = area e ! k" "\<And>k. k \<ge> KILL_BUF \<Longrightarrow> a ! k = area e ! k"
proof -
  note len = zip_lengths [OF assms(1,2)]
  have A: "length (area e) = AREA_LEN" "maxlen e \<le> int MAX_CMDLINE" using assms(1) by (auto simp: line_ok_def)
  have cell: "area e ! k = (l @ r) ! k" "(l @ r) ! k \<noteq> 0" if "k < length l + length r" for k
    using line_cells(1) [OF assms(1), of k] zip_line [OF assms(2)] that len by auto
  have end0: "area e ! (length l + length r) = 0" using line_cells(2) [OF assms(1)] len by (simp add: nat_add_distrib)
  have src: "\<And>k. k < length s \<Longrightarrow> b ! (p + k) = s ! k \<and> s ! k \<noteq> 0" "b ! (p + length s) = 0"
    "p + length s < length b"
    using assms(3) by (auto simp: str_of_iff_nth)
  have p: "nat (lpos e) = length l" "nat (llen e - lpos e + 1) = length r + 1" using len by auto
  have bnd: "length l + length r + length s < MAX_CMDLINE" using assms(4) A(2) len by linarith
  have fin: "str_of a CMDLINE_BUF = Some (l @ s @ r) \<and> (\<forall>k < length l. a ! k = area e ! k) \<and> (\<forall>k \<ge> KILL_BUF. a ! k = area e ! k)"
    if a: "length a = AREA_LEN"
      "\<And>k. a ! k = (if k < length l then area e ! k else if k < length l + length s then b ! (p + (k - length l))
         else if k \<le> length l + length s + length r then area e ! (k - length s) else area e ! k)" for a
  proof (intro conjI allI impI)
    show "str_of a CMDLINE_BUF = Some (l @ s @ r)"
      unfolding str_of_iff_nth
    proof (intro conjI allI impI)
      show "CMDLINE_BUF + length (l @ s @ r) < length a" using a(1) bnd by (simp add: area_offsets)
      show "a ! (CMDLINE_BUF + length (l @ s @ r)) = 0"
        using end0 unfolding a(2) by (auto simp: CMDLINE_BUF_def add.commute add.left_commute src)
      fix k assume k: "k < length (l @ s @ r)"
      consider "k < length l" | "length l \<le> k" "k < length l + length s" | "length l + length s \<le> k" by linarith
      then show "a ! (CMDLINE_BUF + k) = (l @ s @ r) ! k" "(l @ s @ r) ! k \<noteq> 0"
      proof (atomize (full), cases)
        case 1
        then show "a ! (CMDLINE_BUF + k) = (l @ s @ r) ! k \<and> (l @ s @ r) ! k \<noteq> 0"
          using cell [of k] by (simp add: a(2) CMDLINE_BUF_def nth_append)
      next
        case 2
        then show "a ! (CMDLINE_BUF + k) = (l @ s @ r) ! k \<and> (l @ s @ r) ! k \<noteq> 0"
          using src(1) [of "k - length l"] 2 by (simp add: a(2) CMDLINE_BUF_def nth_append less_diff_conv2)
      next
        case 3
        then obtain j where "k = length l + length s + j" using le_Suc_ex by blast
        then have "(l @ s @ r) ! k = (l @ r) ! (k - length s)" by (simp add: nth_append)
        then show "a ! (CMDLINE_BUF + k) = (l @ s @ r) ! k \<and> (l @ s @ r) ! k \<noteq> 0"
          using 3 k cell [of "k - length s"] by (simp add: a(2) CMDLINE_BUF_def)
      qed
    qed
  next
    fix k assume "k < length l" then show "a ! k = area e ! k" by (simp add: a(2))
  next
    fix k assume "k \<ge> KILL_BUF" then show "a ! k = area e ! k"
      using bnd by (simp add: a(2) area_offsets)
  qed
  show thesis
  proof (cases "lpos e = llen e")
    case True
    then have r: "r = []" using len by simp
    have "length l + (length s + 1) \<le> length (area e)" "p + (length s + 1) \<le> length b"
      using bnd A(1) src(3) by (auto simp: area_offsets)
    from copy_obj_cells [OF this] obtain a where a: "copy_obj (area e) (length l) b p (length s + 1) = Some a"
      "length a = length (area e)"
      "\<And>k. a ! k = (if length l \<le> k \<and> k < length l + (length s + 1) then b ! (p + (k - length l)) else area e ! k)"
      by metis
    have "a ! k = (if k < length l then area e ! k else if k < length l + length s then b ! (p + (k - length l))
         else if k \<le> length l + length s + length r then area e ! (k - length s) else area e ! k)" for k
    proof (cases "k = length l + length s")
      case True
      then show ?thesis using a(3) [of k] src(2) end0 r by simp
    qed (use a(3) [of k] r in auto)
    with fin [of a] a(2) A(1) show thesis using that [of a] a(1) True p by (simp add: CMDLINE_BUF_def)
  next
    case False
    have "length l + length s + (length r + 1) \<le> length (area e)" "length l + (length r + 1) \<le> length (area e)"
      using bnd A(1) by (auto simp: area_offsets)
    from move_in_cells [OF this] obtain a1 where a1:
      "move_in (area e) (length l + length s) (length l) (length r + 1) = Some a1" "length a1 = length (area e)"
      "\<And>k. a1 ! k = (if length l + length s \<le> k \<and> k < length l + length s + (length r + 1)
        then area e ! (length l + (k - (length l + length s))) else area e ! k)"
      by metis
    have "length l + length s \<le> length a1" "p + length s \<le> length b"
      using bnd A(1) a1(2) src(3) by (auto simp: area_offsets)
    from copy_obj_cells [OF this] obtain a where a: "copy_obj a1 (length l) b p (length s) = Some a"
      "length a = length a1"
      "\<And>k. a ! k = (if length l \<le> k \<and> k < length l + length s then b ! (p + (k - length l)) else a1 ! k)"
      by metis
    have "a ! k = (if k < length l then area e ! k else if k < length l + length s then b ! (p + (k - length l))
         else if k \<le> length l + length s + length r then area e ! (k - length s) else area e ! k)" for k
    proof -
      have "length l + (k - (length l + length s)) = k - length s" if "length l + length s \<le> k"
        using that by linarith
      then show ?thesis using a(3) [of k] a1(3) [of k] by auto
    qed
    with fin [of a] a(2) a1(2) A(1) show thesis using that [of a] a(1) a1(1) False p by (simp add: CMDLINE_BUF_def)
  qed
qed

lemma cl_insert_ok:
  assumes "ed_ok v e" "plen v \<le> 67" "cl_zip e = (l, r)" "str_of b p = Some s"
  shows "does v e (cl_insert v b p e) (if llen e + int (length s) < maxlen e then l @ s else l, r)"
proof (cases "llen e + int (length s) < maxlen e")
  case False
  then show ?thesis
    using does_self [OF assms(1)] assms(3,4) by (simp add: cl_insert_def grub_strlen_eq)
next
  case True
  have lo: "line_ok e" using assms(1) by (simp add: ed_ok_iff)
  note len = zip_lengths [OF lo assms(3)]
  obtain a where a:
    "(if lpos e = llen e then copy_obj (area e) (CMDLINE_BUF + nat (lpos e)) b p (length s + 1)
      else do { a1 \<leftarrow> move_in (area e) (CMDLINE_BUF + nat (lpos e) + length s) (CMDLINE_BUF + nat (lpos e))
                        (nat (llen e - lpos e + 1));
                copy_obj a1 (CMDLINE_BUF + nat (lpos e)) b p (length s) }) = Some a"
    "length a = AREA_LEN" "str_of a CMDLINE_BUF = Some (l @ s @ r)"
    "\<And>k. k < length l \<Longrightarrow> a ! k = area e ! k" "\<And>k. k \<ge> KILL_BUF \<Longrightarrow> a ! k = area e ! k"
    using insert_area [OF lo assms(3,4) True] by blast
  let ?e1 = "e\<lparr>area := a, llen := llen e + int (length s), lpos := lpos e + int (length s)\<rparr>"
  let ?q = "if xpos ?e1 + int (length s) \<ge> CMDLINE_WIDTH then cl_refresh v True 0 ?e1
    else if xpos ?e1 + int (length s) + llen ?e1 - lpos ?e1 > CMDLINE_WIDTH
      then cl_refresh v False (CMDLINE_WIDTH - xpos ?e1) ?e1
    else cl_refresh v False (int (length s) + llen ?e1 - lpos ?e1) ?e1"
  have q: "cl_insert v b p e = ?q"
    using assms(4) a(1) True unfolding cl_insert_def by (simp add: grub_strlen_eq Let_def)
  have "does v e ?q (l @ s, r)"
  proof (rule edited [OF assms(1-3) a(2,3,4)])
    show "a ! k = area e ! k" if "k \<ge> HISTORY_BUF" for k
      using a(5) that by (simp add: area_offsets)
    show "?e1 = e\<lparr>area := a, llen := int (length (l @ s @ r)), lpos := lpos e + int (length s)\<rparr>"
      using len by simp
  qed (use True len in auto)
  then show ?thesis using True q by simp
qed

text \<open>Deletion.  Only when the line is short does the block moved end before \<open>KILL_BUF\<close>.\<close>

lemma delete_area:
  assumes "line_ok e" "cl_zip e = (l, d @ r)"
  obtains a where
    "move_in (area e) (CMDLINE_BUF + nat (lpos e)) (CMDLINE_BUF + nat (lpos e + int (length d)))
       (nat (llen e - int (length d) + 1)) = Some a"
    "length a = AREA_LEN" "str_of a CMDLINE_BUF = Some (l @ r)"
    "\<And>k. k < length l \<Longrightarrow> a ! k = area e ! k" "\<And>k. k \<ge> HISTORY_BUF \<Longrightarrow> a ! k = area e ! k"
    "\<And>k. k \<ge> KILL_BUF \<Longrightarrow> 2 * length l + length r < MAX_CMDLINE \<Longrightarrow> a ! k = area e ! k"
    "\<And>k. k \<ge> KILL_BUF \<Longrightarrow> k \<le> 2 * length l + length r \<Longrightarrow> a ! k = area e ! (k + length d)"
proof -
  note len = zip_lengths [OF assms]
  have A: "length (area e) = AREA_LEN" "maxlen e \<le> int MAX_CMDLINE" "llen e < maxlen e"
    using assms(1) by (auto simp: line_ok_def)
  have cell: "area e ! k = (l @ d @ r) ! k" "(l @ d @ r) ! k \<noteq> 0" if "k < length l + length d + length r" for k
    using line_cells(1) [OF assms(1), of k] zip_line [OF assms(2)] that len by auto
  have end0: "area e ! (length l + length d + length r) = 0"
    using line_cells(2) [OF assms(1)] len by (simp add: nat_add_distrib add.assoc)
  have p: "nat (lpos e) = length l" "nat (lpos e + int (length d)) = length l + length d"
    "nat (llen e - int (length d) + 1) = length l + length r + 1"
    using len by auto
  have bnd: "length l + length d + length r < MAX_CMDLINE" using A(2,3) len by simp
  have "length l + (length l + length r + 1) \<le> length (area e)"
    "length l + length d + (length l + length r + 1) \<le> length (area e)"
    using bnd A(1) by (auto simp: area_offsets)
  from move_in_cells [OF this] obtain a where a:
    "move_in (area e) (length l) (length l + length d) (length l + length r + 1) = Some a"
    "length a = length (area e)"
    "\<And>k. a ! k = (if length l \<le> k \<and> k < length l + (length l + length r + 1)
      then area e ! (length l + length d + (k - length l)) else area e ! k)"
    by metis
  have s: "length l + length d + (k - length l) = k + length d" if "length l \<le> k" for k
    using that by linarith
  have "str_of a CMDLINE_BUF = Some (l @ r)"
    unfolding str_of_iff_nth
  proof (intro conjI allI impI)
    show "CMDLINE_BUF + length (l @ r) < length a" using a(2) A(1) bnd by (simp add: area_offsets)
    show "a ! (CMDLINE_BUF + length (l @ r)) = 0"
      using end0 by (simp add: a(3) CMDLINE_BUF_def ac_simps)
    fix k assume k: "k < length (l @ r)"
    have "a ! k = (l @ r) ! k \<and> (l @ r) ! k \<noteq> 0"
    proof (cases "k < length l")
      case True
      then show ?thesis using cell [of k] by (simp add: a(3) nth_append)
    next
      case False
      then obtain j where "k = length l + j" by (metis le_Suc_ex not_less)
      then have "(l @ d @ r) ! (k + length d) = (l @ r) ! k" by (simp add: nth_append)
      then show ?thesis using False k s [of k] cell [of "k + length d"] by (simp add: a(3) add.commute)
    qed
    then show "a ! (CMDLINE_BUF + k) = (l @ r) ! k" "(l @ r) ! k \<noteq> 0" by (simp_all add: CMDLINE_BUF_def)
  qed
  then show thesis
  proof (rule that [of a, rotated 2])
    show "a ! k = area e ! (k + length d)" if "k \<ge> KILL_BUF" "k \<le> 2 * length l + length r" for k
      using that bnd by (simp add: a(3) area_offsets) (metis add.commute s less_imp_le order_trans trans_le_add1)
  qed (use a A bnd p in \<open>auto simp: area_offsets\<close>)
qed

lemma cl_delete_ok:
  assumes "ed_ok v e" "plen v \<le> 67" "cl_zip e = (l, d @ r)"
  shows "does v e (cl_delete v (int (length d)) e) (l, r)"
proof -
  have lo: "line_ok e" using assms(1) by (simp add: ed_ok_iff)
  note len = zip_lengths [OF lo assms(3)]
  show ?thesis
  proof (rule delete_area [OF lo assms(3)])
    fix a
    assume a: "move_in (area e) (CMDLINE_BUF + nat (lpos e)) (CMDLINE_BUF + nat (lpos e + int (length d)))
         (nat (llen e - int (length d) + 1)) = Some a"
      "length a = AREA_LEN" "str_of a CMDLINE_BUF = Some (l @ r)"
      "\<And>k. k < length l \<Longrightarrow> a ! k = area e ! k" "\<And>k. k \<ge> HISTORY_BUF \<Longrightarrow> a ! k = area e ! k"
    let ?c = "int (length d)"
    let ?e1 = "e\<lparr>area := a, llen := llen e - ?c\<rparr>"
    let ?q = "if xpos ?e1 + llen ?e1 + ?c - lpos ?e1 > CMDLINE_WIDTH
      then cl_refresh v False (CMDLINE_WIDTH - xpos ?e1) ?e1
      else cl_refresh v False (llen ?e1 + ?c - lpos ?e1) ?e1"
    have q: "cl_delete v ?c e = ?q" unfolding cl_delete_def using a(1) by (simp add: Let_def)
    have "does v e ?q (l @ [], r)"
    proof (rule edited [OF assms(1-3) a(2) _ a(4,5)])
      show "str_of a CMDLINE_BUF = Some (l @ [] @ r)" using a(3) by simp
      show "?e1 = e\<lparr>area := a, llen := int (length (l @ [] @ r)), lpos := lpos e + int (length [])\<rparr>"
        using len by simp
      show "int (length (l @ [] @ r)) < maxlen e" using len lo by (simp add: line_ok_def)
      have "xpos e < CMDLINE_WIDTH" using assms(1) by (simp add: ed_ok_def)
      then show "?q = cl_refresh v True 0 ?e1 \<or> (\<exists>n. ?q = cl_refresh v False n ?e1 \<and>
        xpos e + int (length []) < CMDLINE_WIDTH \<and> int (length []) \<le> n \<and> xpos e + n \<le> CMDLINE_WIDTH \<and>
        (xpos e + n = CMDLINE_WIDTH \<or> llen e \<le> lpos e + n \<and> llen ?e1 \<le> lpos e + n))"
        using len by auto
    qed
    then show ?thesis using q by simp
  qed
qed

section \<open>The history\<close>

definition entry :: "nat \<Rightarrow> nat" where
  "entry k = HISTORY_BUF + MAX_CMDLINE * k"

definition hist_is :: "editor \<Rightarrow> u8 list list \<Rightarrow> bool" where
  "hist_is e hs \<longleftrightarrow> num_history e = int (length hs) \<and> length hs \<le> HISTORY_SIZE \<and>
     (\<forall>k < length hs. str_of (area e) (entry k) = Some (hs ! k) \<and> length (hs ! k) < MAX_CMDLINE)"

lemma hist_framed: "hist_is e hs \<Longrightarrow> framed e e' \<Longrightarrow> length (area e') = AREA_LEN \<Longrightarrow> hist_is e' hs"
  unfolding hist_is_def
proof (intro conjI allI impI; (elim conjE)?)
  fix k assume a: "framed e e'" "length (area e') = AREA_LEN" "k < length hs" "length hs \<le> HISTORY_SIZE"
    "\<forall>k < length hs. str_of (area e) (entry k) = Some (hs ! k) \<and> length (hs ! k) < MAX_CMDLINE"
  then have h: "str_of (area e) (entry k) = Some (hs ! k)" "length (hs ! k) < MAX_CMDLINE" "k < HISTORY_SIZE" by auto
  show "str_of (area e') (entry k) = Some (hs ! k)"
    by (rule str_of_same [OF h(1)]) (use a(1,2) h(2,3) in \<open>auto simp: framed_def entry_def area_offsets\<close>)
qed (auto simp: framed_def)

lemma add_history_ok:
  assumes "length (area e) = AREA_LEN" "hist_is e hs" "str_of b p = Some s" "length s < MAX_CMDLINE"
    and "no \<le> length hs" "no < HISTORY_SIZE"
  obtains a n where "add_history b p no e = Some (e\<lparr>area := a, num_history := n\<rparr>)"
    "hist_is (e\<lparr>area := a, num_history := n\<rparr>) (take HISTORY_SIZE (take no hs @ s # drop no hs))"
    "length a = AREA_LEN" "\<And>k. k < HISTORY_BUF \<or> UNIQUE_BUF \<le> k \<Longrightarrow> a ! k = area e ! k"
proof -
  let ?n = "MAX_CMDLINE * (length hs - no)"
  have h: "num_history e = int (length hs)" "length hs \<le> HISTORY_SIZE"
    "\<And>k. k < length hs \<Longrightarrow> str_of (area e) (entry k) = Some (hs ! k) \<and> length (hs ! k) < MAX_CMDLINE"
    using assms(2) by (auto simp: hist_is_def)
  have "entry (no + 1) + ?n \<le> length (area e)" "entry no + ?n \<le> length (area e)"
    using assms(1,5,6) h(2) by (auto simp: entry_def area_offsets)
  from move_in_cells [OF this] obtain a1 where a1: "move_in (area e) (entry (no + 1)) (entry no) ?n = Some a1"
    "length a1 = length (area e)"
    "\<And>k. a1 ! k = (if entry (no + 1) \<le> k \<and> k < entry (no + 1) + ?n then area e ! (entry no + (k - entry (no + 1))) else area e ! k)"
    by metis
  have "entry no + length s < length a1"
    using assms(1,4,6) a1(2) by (auto simp: entry_def area_offsets)
  from strcpy_cells [OF assms(3) this] obtain a where a: "grub_strcpy a1 (entry no) b p = Some a"
    "length a = length a1" "str_of a (entry no) = Some s"
    "\<And>k. k < entry no \<or> entry no + length s < k \<Longrightarrow> a ! k = a1 ! k"
    by metis
  let ?m = "if num_history e < int HISTORY_SIZE then num_history e + 1 else num_history e"
  let ?hs = "take HISTORY_SIZE (take no hs @ s # drop no hs)"
  have "add_history b p no e = Some (e\<lparr>area := a, num_history := ?m\<rparr>)"
  proof -
    have "nat (num_history e - int no) = length hs - no" using h(1) by linarith
    then show ?thesis unfolding add_history_def entry_def [symmetric] using a1(1) a(1) by simp
  qed
  moreover have "hist_is (e\<lparr>area := a, num_history := ?m\<rparr>) ?hs"
    unfolding hist_is_def
  proof (intro conjI allI impI)
    show "num_history (e\<lparr>area := a, num_history := ?m\<rparr>) = int (length ?hs)"
      using h(1,2) assms(5) by (auto simp: min_def)
    fix k assume k: "k < length ?hs"
    have k5: "k < HISTORY_SIZE" "k \<le> length hs" using k assms(5) by auto
    have "str_of a (entry k) = Some (?hs ! k) \<and> length (?hs ! k) < MAX_CMDLINE"
    proof -
      have "k < no \<or> k = no \<or> (\<exists>j. k = Suc j \<and> no \<le> j \<and> j < length hs)" using k5 by (cases k) auto
      then consider "k < no" | "k = no" | j where "k = Suc j" "no \<le> j" "j < length hs" by blast
      then show ?thesis
      proof cases
        case 1
        then have e: "?hs ! k = hs ! k" using k5 assms(5) by (simp add: nth_append)
        have hk: "str_of (area e) (entry k) = Some (hs ! k)" "length (hs ! k) < MAX_CMDLINE"
          using h(3) [of k] 1 assms(5) by auto
        have "str_of a (entry k) = Some (hs ! k)"
        proof (rule str_of_same [OF hk(1)])
          show "entry k + length (hs ! k) < length a"
            using hk(2) k5 a(2) a1(2) assms(1) by (simp add: entry_def area_offsets)
          fix i assume "i \<le> length (hs ! k)"
          then have i: "entry k + i < entry no" using hk(2) 1 by (simp add: entry_def area_offsets)
          have "entry no \<le> entry (no + 1)" by (simp add: entry_def)
          then show "a ! (entry k + i) = area e ! (entry k + i)" using a(4) a1(3) i by simp
        qed
        then show ?thesis using e h(3) [of k] 1 assms(5) by simp
      next
        case 2
        then have "?hs ! k = s" using k5 assms(5) by (simp add: nth_append)
        then show ?thesis using 2 a(3) assms(4) by simp
      next
        case 3
        then have e: "?hs ! k = hs ! j" using k5 assms(5) by (simp add: nth_append Suc_diff_le)
        have "str_of a (entry k) = Some (hs ! j)"
        proof (rule str_of_same [of "area e" "entry j"])
          show "entry k + length (hs ! j) < length a"
            using h(3) [OF 3(3)] k5 a(2) a1(2) assms(1) by (auto simp: entry_def area_offsets)
          fix i assume "i \<le> length (hs ! j)"
          then have i: "i < MAX_CMDLINE" using h(3) [OF 3(3)] by simp
          have "a ! (entry k + i) = a1 ! (entry k + i)"
            using 3 assms(4) by (intro a(4)) (auto simp: entry_def area_offsets)
          also have "\<dots> = area e ! (entry no + (entry k + i - entry (no + 1)))"
            using 3 i assms(5) by (auto simp: a1(3) entry_def area_offsets)
          also have "entry no + (entry k + i - entry (no + 1)) = entry j + i"
            using 3 by (auto simp: entry_def area_offsets)
          finally show "a ! (entry k + i) = area e ! (entry j + i)" .
        qed (use h(3) [OF 3(3)] in simp)
        then show ?thesis using e h(3) [OF 3(3)] by simp
      qed
    qed
    then show "str_of (area (e\<lparr>area := a, num_history := ?m\<rparr>)) (entry k) = Some (?hs ! k)"
      "length (?hs ! k) < MAX_CMDLINE" by simp_all
  qed simp
  moreover have "a ! k = area e ! k" if "k < HISTORY_BUF \<or> UNIQUE_BUF \<le> k" for k
    using that assms(4,5,6) h(2) by (auto simp: a(4) a1(3) entry_def area_offsets)
  ultimately show thesis using that a(2) a1(2) assms(1) by simp
qed

end
