(* ===== verification/LineKeys.thy ===== *)
theory LineKeys
imports LineSpec
begin

text \<open>
  The keys of the command-line editor against the zipper, the kill buffer and the history list,
  and a whole session of \<open>real_get_cmdline\<close> from the prompt to Enter.
\<close>

section \<open>The keys on the zipper\<close>

type_synonym zip = "u8 list \<times> u8 list"

text \<open>The readline keys other than completion, yank and history, and the keys always handled.\<close>

definition z_readline :: "u32 \<Rightarrow> zip \<Rightarrow> zip" where
  "z_readline c z =
     (let k = (ucast c :: u8); l = fst z; r = snd z
      in if c = 0x4700 \<or> k = 1 then ([], l @ r)
         else if c = 0x4F00 \<or> k = 5 then (l @ r, [])
         else if c = 0x4D00 \<or> k = 6 then (l @ take 1 r, drop 1 r)
         else if c = 0x4B00 \<or> k = 2 then (butlast l, drop (length l - 1) l @ r)
         else if k = 21 then ([], r)
         else if k = 11 then (l, [])
         else z)"

definition z_always :: "int \<Rightarrow> u32 \<Rightarrow> zip \<Rightarrow> zip" where
  "z_always m c z =
     (let k = (ucast c :: u8); l = fst z; r = snd z
      in if c = 0x5300 \<or> k = 4 then (l, drop 1 r)
         else if k = 8 \<or> c = 0x0E08 then (butlast l, r)
         else if 32 \<le>s k \<and> k \<le>s 126 \<and> int (length l + length r) + 1 < m then (l @ [k], r)
         else z)"

lemma does_bind:
  assumes "does v e q z" "\<And>e'. ed_ok v e' \<Longrightarrow> cl_zip e' = z \<Longrightarrow> framed e e' \<Longrightarrow> does v e' (f e') z'"
    and "\<And>e'. cl_zip e' = z \<Longrightarrow> plain_line v e \<Longrightarrow> plain_line v e'"
  shows "does v e (do { e' \<leftarrow> q; f e' }) z'"
proof -
  obtain e1 where e1: "q = Some e1" "ed_ok v e1" "cl_zip e1 = z" "framed e e1"
    "shows_line v e \<and> plain_line v e \<and> plain_line v e1 \<longrightarrow> shows_line v e1"
    using assms(1) by (auto simp: does_def)
  obtain e2 where e2: "f e1 = Some e2" "ed_ok v e2" "cl_zip e2 = z'" "framed e1 e2"
    "shows_line v e1 \<and> plain_line v e1 \<and> plain_line v e2 \<longrightarrow> shows_line v e2"
    using assms(2) [OF e1(2-4)] by (auto simp: does_def)
  show ?thesis
    using e1 e2 framed_trans [OF e1(4) e2(4)] assms(3) [OF e1(3)] by (auto simp: does_def)
qed

lemma zip_split: "cl_zip e = (l, r) \<Longrightarrow> line_ok e \<Longrightarrow> k \<le> length l + length r \<Longrightarrow>
  (take k (cl_line e), drop k (cl_line e)) = (take k l @ take (k - length l) r, drop k l @ drop (k - length l) r)"
  by (simp add: zip_line)

text \<open>The cursor moves, on the zipper.\<close>

lemma backward_zip:
  assumes "ed_ok v e" "plen v \<le> 67" "cl_zip e = (l1 @ l2, r)"
  shows "does v e (cl_backward v (int (length l2)) e) (l1, l2 @ r)"
proof -
  have lo: "line_ok e" using assms(1) by (simp add: ed_ok_iff)
  note len = zip_lengths [OF lo assms(3)]
  have "nat (lpos e - int (length l2)) = length l1" using len by simp
  then show ?thesis
    using cl_backward_ok [OF assms(1,2), of "int (length l2)"] len zip_line [OF assms(3)] by simp
qed

lemma forward_zip:
  assumes "ed_ok v e" "plen v \<le> 67" "cl_zip e = (l, r1 @ r2)"
  shows "does v e (cl_forward v (int (length r1)) e) (l @ r1, r2)"
proof -
  have lo: "line_ok e" using assms(1) by (simp add: ed_ok_iff)
  note len = zip_lengths [OF lo assms(3)]
  have "nat (lpos e + int (length r1)) = length l + length r1" using len by (simp add: nat_add_distrib)
  then show ?thesis
    using cl_forward_ok [OF assms(1,2), of "int (length r1)"] len zip_line [OF assms(3)] by simp
qed

lemma plain_zip:
  assumes "plain_line v e" "cl_zip e' = (l, r)" "set (l @ r) \<subseteq> set (cl_line e)"
  shows "plain_line v e'"
  using assms zip_line [OF assms(2)] by (auto simp: plain_line_def list_all_iff)

lemma back_delete:
  assumes "ed_ok v e" "plen v \<le> 67" "cl_zip e = (l1 @ l2, r)"
  shows "does v e (do { e1 \<leftarrow> cl_backward v (int (length l2)) e; cl_delete v (int (length l2)) e1 }) (l1, r)"
proof (rule does_bind [OF backward_zip [OF assms]])
  show "does v e' (cl_delete v (int (length l2)) e') (l1, r)" if "ed_ok v e'" "cl_zip e' = (l1, l2 @ r)" for e'
    using that assms(2) by (intro cl_delete_ok) auto
  show "plain_line v e'" if "cl_zip e' = (l1, l2 @ r)" "plain_line v e" for e'
    using plain_zip [OF that(2,1)] zip_line [OF assms(3)] by simp
qed

section \<open>The kill keys\<close>

lemma set_area_ok:
  assumes "ed_ok v e" "length a = AREA_LEN" "\<And>k. k < KILL_BUF \<or> HISTORY_BUF \<le> k \<Longrightarrow> a ! k = area e ! k"
  shows "ed_ok v (e\<lparr>area := a\<rparr>)" "cl_zip (e\<lparr>area := a\<rparr>) = cl_zip e" "framed e (e\<lparr>area := a\<rparr>)"
    "shows_line v (e\<lparr>area := a\<rparr>) = shows_line v e" "plain_line v (e\<lparr>area := a\<rparr>) = plain_line v e"
proof -
  have lo: "line_ok e" using assms(1) by (simp add: ed_ok_iff)
  have n: "nat (llen e) < KILL_BUF" "length (area e) = AREA_LEN"
    using lo by (auto simp: line_ok_def area_offsets)
  have l: "cl_line (e\<lparr>area := a\<rparr>) = cl_line e"
    unfolding cl_line_def using n assms(2,3) by (intro nth_equalityI) (auto simp: area_offsets)
  have g: "glyph v (e\<lparr>area := a\<rparr>) i = glyph v e i" for i
  proof -
    have "i < llen e \<Longrightarrow> nat i < KILL_BUF" using n(1) by linarith
    then show ?thesis using assms(3) [of "nat i"] by (auto simp: glyph_def)
  qed
  have "window v (e\<lparr>area := a\<rparr>) = window v e"
    by (simp add: fun_eq_iff window_def g)
  then show "shows_line v (e\<lparr>area := a\<rparr>) = shows_line v e" by (simp add: shows_line_def)
  have "str_of a CMDLINE_BUF = Some (cl_line e)"
    by (rule str_of_same [of "area e" CMDLINE_BUF])
      (use lo n assms(2,3) length_cl_line [OF lo] in \<open>auto simp: line_ok_def area_offsets\<close>)
  moreover have "a ! (AREA_LEN - 1) = area e ! (AREA_LEN - 1)"
    by (rule assms(3)) (simp add: area_offsets)
  ultimately show "ed_ok v (e\<lparr>area := a\<rparr>)"
    using assms(1,2) l by (simp add: ed_ok_def)
  show "cl_zip (e\<lparr>area := a\<rparr>) = cl_zip e" "plain_line v (e\<lparr>area := a\<rparr>) = plain_line v e"
    using l by (simp_all add: cl_zip_def plain_line_def)
  show "framed e (e\<lparr>area := a\<rparr>)" using assms(3) by (simp add: framed_def)
qed

lemma does_area:
  assumes "ed_ok v e" "length a = AREA_LEN" "\<And>k. k < KILL_BUF \<or> HISTORY_BUF \<le> k \<Longrightarrow> a ! k = area e ! k"
    and "does v (e\<lparr>area := a\<rparr>) q z"
  shows "does v e q z"
  using assms(4) set_area_ok [OF assms(1-3)] unfolding does_def
  by (metis framed_trans)

text \<open>Storing a block of the line in \<open>KILL_BUF\<close>.\<close>

lemma kill_area:
  assumes "ed_ok v e" "cl_zip e = (l, r)" "i + length s \<le> length l + length r"
    and "s = take (length s) (drop i (l @ r))"
  obtains a where "move_in (area e) KILL_BUF (CMDLINE_BUF + i) (length s) = Some a" "length a = AREA_LEN"
    "\<And>k. k < length s \<Longrightarrow> a ! (KILL_BUF + k) = s ! k \<and> s ! k \<noteq> 0"
    "\<And>k. k < KILL_BUF \<or> KILL_BUF + length s \<le> k \<Longrightarrow> a ! k = area e ! k"
proof -
  have lo: "line_ok e" using assms(1) by (simp add: ed_ok_iff)
  note len = zip_lengths [OF lo assms(2)]
  have A: "length (area e) = AREA_LEN" "length l + length r < MAX_CMDLINE"
    using lo len by (auto simp: line_ok_def)
  have "KILL_BUF + length s \<le> length (area e)" "CMDLINE_BUF + i + length s \<le> length (area e)"
    using A assms(3) by (auto simp: area_offsets)
  from move_in_cells [OF this] obtain a where a: "move_in (area e) KILL_BUF (CMDLINE_BUF + i) (length s) = Some a"
    "length a = length (area e)"
    "\<And>k. a ! k = (if KILL_BUF \<le> k \<and> k < KILL_BUF + length s then area e ! (CMDLINE_BUF + i + (k - KILL_BUF)) else area e ! k)"
    by metis
  have "a ! (KILL_BUF + k) = s ! k \<and> s ! k \<noteq> 0" if k: "k < length s" for k
  proof -
    have "s ! k = (l @ r) ! (i + k)"
      using assms(4) k assms(3) by (metis nth_drop nth_take length_append add_leD1)
    then show ?thesis
      using a(3) [of "KILL_BUF + k"] k line_cells(1) [OF lo, of "i + k"] assms(3) len zip_line [OF assms(2)]
      by (simp add: CMDLINE_BUF_def)
  qed
  moreover have "a ! k = area e ! k" if "k < KILL_BUF \<or> KILL_BUF + length s \<le> k" for k
    using that by (auto simp: a(3))
  ultimately show thesis using that a(1,2) A(1) by simp
qed

lemma refresh_area: "cl_refresh v f n e = Some e' \<Longrightarrow> area e' = area e"
  by (auto simp: cl_refresh_def Let_def emit_def split: bind_splits)

lemma backward_area: "cl_backward v n e = Some e' \<Longrightarrow> area e' = area e"
  by (auto simp: cl_backward_def Let_def emit_def dest!: refresh_area split: if_splits)

text \<open>The bytes of \<open>KILL_BUF\<close> after a deletion: unchanged for short lines, and otherwise moved down
  together with the tail of the line.\<close>

lemma delete_kill:
  assumes "ed_ok v e" "cl_zip e = (l, d @ r)" "cl_delete v (int (length d)) e = Some e'" "KILL_BUF \<le> k"
  shows "2 * length l + length r < MAX_CMDLINE \<Longrightarrow> area e' ! k = area e ! k"
    and "k \<le> 2 * length l + length r \<Longrightarrow> area e' ! k = area e ! (k + length d)"
proof -
  have lo: "line_ok e" using assms(1) by (simp add: ed_ok_iff)
  have "(2 * length l + length r < MAX_CMDLINE \<longrightarrow> area e' ! k = area e ! k) \<and>
    (k \<le> 2 * length l + length r \<longrightarrow> area e' ! k = area e ! (k + length d))"
  proof (rule delete_area [OF lo assms(2)])
    fix a
    assume a: "move_in (area e) (CMDLINE_BUF + nat (lpos e)) (CMDLINE_BUF + nat (lpos e + int (length d)))
         (nat (llen e - int (length d) + 1)) = Some a"
      "\<And>k. k \<ge> KILL_BUF \<Longrightarrow> 2 * length l + length r < MAX_CMDLINE \<Longrightarrow> a ! k = area e ! k"
      "\<And>k. k \<ge> KILL_BUF \<Longrightarrow> k \<le> 2 * length l + length r \<Longrightarrow> a ! k = area e ! (k + length d)"
    have "area e' = a"
      using assms(3) a(1) by (auto simp: cl_delete_def Let_def dest!: refresh_area split: if_splits)
    then show ?thesis using a(2,3) assms(4) by simp
  qed
  then show "2 * length l + length r < MAX_CMDLINE \<Longrightarrow> area e' ! k = area e ! k"
    "k \<le> 2 * length l + length r \<Longrightarrow> area e' ! k = area e ! (k + length d)" by auto
qed

lemma kill_bol_ok:
  assumes "ed_ok v e" "plen v \<le> 67" "cl_zip e = (l, r)"
  shows "does v e (cl_kill_bol v e) ([], r)"
    and "l \<noteq> [] \<Longrightarrow> cl_kill_bol v e = Some e' \<Longrightarrow> str_of (area e') KILL_BUF = Some l"
proof -
  have lo: "line_ok e" using assms(1) by (simp add: ed_ok_iff)
  note len = zip_lengths [OF lo assms(3)]
  have bnd: "length l + length r < MAX_CMDLINE" "length (area e) = AREA_LEN"
    using lo len by (auto simp: line_ok_def)
  have "0 + length l \<le> length l + length r" "l = take (length l) (drop 0 (l @ r))" by simp_all
  from kill_area [OF assms(1,3) this] obtain a where
    a: "move_in (area e) KILL_BUF CMDLINE_BUF (length l) = Some a" "length a = AREA_LEN"
      "\<And>k. k < length l \<Longrightarrow> a ! (KILL_BUF + k) = l ! k \<and> l ! k \<noteq> 0"
      "\<And>k. k < KILL_BUF \<or> KILL_BUF + length l \<le> k \<Longrightarrow> a ! k = area e ! k"
    by (metis add_0_right)
  let ?a = "a[KILL_BUF + length l := 0]"
  let ?e = "e\<lparr>area := ?a\<rparr>"
  have la: "length ?a = AREA_LEN" using a(2) by simp
  have ka: "?a ! k = area e ! k" if "k < KILL_BUF \<or> HISTORY_BUF \<le> k" for k
    using that a(4) [of k] bnd by (auto simp: area_offsets nth_list_update)
  note ok = set_area_ok [OF assms(1) la ka]
  have kb: "KILL_BUF + length l < length a" using a(2) bnd by (simp add: area_offsets)
  have st: "str_of ?a KILL_BUF = Some l"
    using a(3) kb by (auto simp: str_of_iff_nth)
  let ?q = "do { e1 \<leftarrow> cl_backward v (int (length l)) ?e; cl_delete v (int (length l)) e1 }"
  have q: "cl_kill_bol v e = (if l \<noteq> [] then ?q else Some e)"
    unfolding cl_kill_bol_def using len a(1) kb by (simp add: nat_int)
  have z: "cl_zip ?e = ([] @ l, r)" using ok(2) assms(3) by simp
  have d: "does v ?e ?q ([], r)" by (rule back_delete [OF ok(1) assms(2) z])
  have "does v e ?q ([], r)"
    using does_area [OF assms(1) la ka d] .
  then show "does v e (cl_kill_bol v e) ([], r)"
    using does_self [OF assms(1)] assms(3) q by auto
  assume l: "l \<noteq> []" and e': "cl_kill_bol v e = Some e'"
  then obtain e1 where e1: "cl_backward v (int (length l)) ?e = Some e1" "cl_delete v (int (length l)) e1 = Some e'"
    using q by (auto simp: bind_eq_Some_conv)
  have z1: "ed_ok v e1" "cl_zip e1 = ([], l @ r)"
    using backward_zip [OF ok(1) assms(2) z] e1(1) by (auto simp: does_def)
  have "length (area e') = AREA_LEN" using d e1 by (auto simp: does_def ed_ok_def)
  then show "str_of (area e') KILL_BUF = Some l"
    using delete_kill(1) [OF z1 e1(2)] bnd backward_area [OF e1(1)] la
    by (intro str_of_same [OF st]) (auto simp: area_offsets)
qed

lemma kill_eol_ok:
  assumes "ed_ok v e" "plen v \<le> 67" "cl_zip e = (l, r)"
  shows "does v e (cl_kill_eol v e) (l, [])"
    and "r \<noteq> [] \<Longrightarrow> cl_kill_eol v e = Some e' \<Longrightarrow>
      str_of (area e') KILL_BUF = Some (if 2 * length l < MAX_CMDLINE then r else [])"
proof -
  have lo: "line_ok e" using assms(1) by (simp add: ed_ok_iff)
  note len = zip_lengths [OF lo assms(3)]
  have bnd: "length l + length r < MAX_CMDLINE" "length (area e) = AREA_LEN"
    using lo len by (auto simp: line_ok_def)
  have "KILL_BUF + (length r + 1) \<le> length (area e)" "length l + (length r + 1) \<le> length (area e)"
    using bnd by (auto simp: area_offsets)
  from move_in_cells [OF this] obtain a where
    a: "move_in (area e) KILL_BUF (length l) (length r + 1) = Some a" "length a = length (area e)"
      "\<And>k. a ! k = (if KILL_BUF \<le> k \<and> k < KILL_BUF + (length r + 1) then area e ! (length l + (k - KILL_BUF)) else area e ! k)"
    by metis
  let ?e = "e\<lparr>area := a\<rparr>"
  have la: "length a = AREA_LEN" using a(2) bnd by simp
  have ka: "a ! k = area e ! k" if "k < KILL_BUF \<or> HISTORY_BUF \<le> k" for k
    using that a(3) [of k] bnd by (auto simp: area_offsets)
  note ok = set_area_ok [OF assms(1) la ka]
  have cell: "a ! (KILL_BUF + k) = (if k < length r then r ! k else 0) \<and> (k < length r \<longrightarrow> r ! k \<noteq> 0)"
    if "k \<le> length r" for k
  proof (cases "k < length r")
    case True
    then show ?thesis using a(3) [of "KILL_BUF + k"] line_cells(1) [OF lo, of "length l + k"] len zip_line [OF assms(3)]
      by simp
  next
    case False
    then have "k = length r" using that by simp
    then show ?thesis using a(3) [of "KILL_BUF + k"] line_cells(2) [OF lo] len by (simp add: nat_add_distrib)
  qed
  have st: "str_of a KILL_BUF = Some r"
    using cell la bnd by (auto simp: str_of_iff_nth area_offsets)
  have z: "cl_zip ?e = (l, r @ [])" using ok(2) assms(3) by simp
  have q: "cl_kill_eol v e = (if r \<noteq> [] then cl_delete v (int (length r)) ?e else Some e)"
  proof -
    have "nat (llen e - lpos e + 1) = length r + 1" "llen e - lpos e = int (length r)" using len by auto
    then show ?thesis unfolding cl_kill_eol_def using len a(1) by (auto simp: CMDLINE_BUF_def)
  qed
  have d: "does v ?e (cl_delete v (int (length r)) ?e) (l, [])"
    by (rule cl_delete_ok [OF ok(1) assms(2) z])
  have "does v e (cl_delete v (int (length r)) ?e) (l, [])" using does_area [OF assms(1) la ka d] .
  then show "does v e (cl_kill_eol v e) (l, [])"
    using does_self [OF assms(1)] assms(3) q by auto
  assume r: "r \<noteq> []" and e': "cl_kill_eol v e = Some e'"
  then have del: "cl_delete v (int (length r)) ?e = Some e'" using q by simp
  have la': "length (area e') = AREA_LEN" using d del by (auto simp: does_def ed_ok_def)
  show "str_of (area e') KILL_BUF = Some (if 2 * length l < MAX_CMDLINE then r else [])"
  proof (cases "2 * length l < MAX_CMDLINE")
    case True
    have "str_of (area e') KILL_BUF = Some r"
      using delete_kill(1) [OF ok(1) z del] True la la' bnd
      by (intro str_of_same [OF st]) (auto simp: area_offsets)
    then show ?thesis using True by simp
  next
    case False
    then have "area e' ! KILL_BUF = a ! (KILL_BUF + length r)"
      using delete_kill(2) [OF ok(1) z del, of KILL_BUF] by (simp add: KILL_BUF_def CMDLINE_BUF_def)
    then show ?thesis using False cell [of "length r"] la' by (simp add: str_of_iff_nth area_offsets)
  qed
qed

section \<open>One key\<close>

text \<open>Keys other than Tab (9), yank (25) and the history keys.\<close>

definition edit_key :: "u32 \<Rightarrow> bool" where
  "edit_key c \<longleftrightarrow> (ucast c :: u8) \<notin> {9, 25, 16, 14} \<and> c \<noteq> 0x4800 \<and> c \<noteq> 0x5000"

lemma key_readline_ok:
  assumes "ed_ok v e" "plen v \<le> 67" "edit_key c"
  shows "does v e (key_readline v c e) (z_readline c (cl_zip e))"
proof -
  have lo: "line_ok e" using assms(1) by (simp add: ed_ok_iff)
  obtain l r where z: "cl_zip e = (l, r)" by fastforce
  note len = zip_lengths [OF lo z]
  have h: "does v e (cl_backward v (lpos e) e) ([], l @ r)"
    using backward_zip [OF assms(1,2), of "[]" l r] z len by simp
  have t: "does v e (cl_forward v (llen e - lpos e) e) (l @ r, [])"
    using forward_zip [OF assms(1,2), of l r "[]"] z len by simp
  have right: "does v e (if lpos e < llen e then cl_forward v 1 e else Some e) (l @ take 1 r, drop 1 r)"
  proof (cases r)
    case Nil
    then show ?thesis using does_self [OF assms(1)] z len by simp
  next
    case (Cons x r')
    then show ?thesis using forward_zip [OF assms(1,2), of l "[x]" r'] z len by simp
  qed
  have left: "does v e (if lpos e > 0 then cl_backward v 1 e else Some e) (butlast l, drop (length l - 1) l @ r)"
  proof (cases l rule: rev_cases)
    case Nil
    then show ?thesis using does_self [OF assms(1)] z len by simp
  next
    case (snoc l' x)
    then show ?thesis using backward_zip [OF assms(1,2), of l' "[x]" r] z len by simp
  qed
  show ?thesis
    using assms(3) h t right left kill_bol_ok(1) [OF assms(1,2) z] kill_eol_ok(1) [OF assms(1,2) z]
      does_self [OF assms(1)] z
    unfolding key_readline_def z_readline_def edit_key_def Let_def
    by (simp only: fst_conv snd_conv if_split) auto
qed

lemma key_always_ok:
  assumes "ed_ok v e" "plen v \<le> 67"
  shows "does v e (key_always v c e) (z_always (maxlen e) c (cl_zip e))"
proof -
  have lo: "line_ok e" using assms(1) by (simp add: ed_ok_iff)
  obtain l r where z: "cl_zip e = (l, r)" by fastforce
  note len = zip_lengths [OF lo z]
  have del: "does v e (if lpos e \<noteq> llen e then cl_delete v 1 e else Some e) (l, drop 1 r)"
  proof (cases r)
    case Nil
    then show ?thesis using does_self [OF assms(1)] z len by simp
  next
    case (Cons x r')
    then show ?thesis using cl_delete_ok [OF assms(1,2), of l "[x]" r'] z len by simp
  qed
  have bs: "does v e (if lpos e > 0 then do { e1 \<leftarrow> cl_backward v 1 e; cl_delete v 1 e1 } else Some e) (butlast l, r)"
  proof (cases l rule: rev_cases)
    case Nil
    then show ?thesis using does_self [OF assms(1)] z len by simp
  next
    case (snoc l' x)
    then show ?thesis using back_delete [OF assms(1,2), of l' "[x]" r] z len by simp
  qed
  have ins: "does v e (cl_insert v [k, 0] 0 e) (if int (length l + length r) + 1 < maxlen e then l @ [k] else l, r)"
    if "32 \<le>s k" for k
  proof -
    have "k \<noteq> 0" using that by (auto simp: word_sle_eq)
    then have "str_of [k, 0] 0 = Some [k]" by (simp add: str_of.simps rd_def)
    then show ?thesis using cl_insert_ok [OF assms(1,2) z, of "[k, 0]" 0 "[k]"] len by (simp add: ac_simps)
  qed
  show ?thesis
    using del bs ins [of "ucast c"] does_self [OF assms(1)] z
    unfolding key_always_def z_always_def Let_def
    by (simp only: fst_conv snd_conv if_split) auto
qed

section \<open>The history keys\<close>

text \<open>The entries, the position (\<open>-1\<close> is the line being entered) and the line saved by the first C-p.\<close>

type_synonym hist = "u8 list list \<times> int \<times> u8 list"

definition hist_rel :: "editor \<Rightarrow> hist \<Rightarrow> bool" where
  "hist_rel e h \<longleftrightarrow> (case h of (hs, pos, saved) \<Rightarrow>
     hist_is e hs \<and> history e = pos \<and> -1 \<le> pos \<and> pos < int (length hs) \<and>
     maxlen e \<le> int (length (cmdline e)) \<and> (\<forall>s \<in> set hs. int (length s) < maxlen e) \<and>
     (0 \<le> pos \<longrightarrow> str_of (cmdline e) 0 = Some saved \<and> int (length saved) < maxlen e))"

definition keep_line :: "nat \<Rightarrow> u8 list \<Rightarrow> u8 list list \<Rightarrow> u8 list list" where
  "keep_line k s hs = (if hs ! k = s then hs else take HISTORY_SIZE (take k hs @ s # drop k hs))"

definition z_up :: "u8 list \<Rightarrow> hist \<Rightarrow> hist \<times> u8 list option" where
  "z_up s h = (case h of (hs, pos, saved) \<Rightarrow>
     let hs1 = (if pos < 0 then hs else keep_line (nat pos) s hs);
         saved1 = (if pos < 0 then s else saved)
     in if pos + 1 < int (length hs1) then ((hs1, pos + 1, saved1), Some (hs1 ! nat (pos + 1)))
        else ((hs1, pos, saved1), None))"

definition z_down :: "u8 list \<Rightarrow> hist \<Rightarrow> hist \<times> u8 list option" where
  "z_down s h = (case h of (hs, pos, saved) \<Rightarrow>
     if pos \<ge> 0 then
       let hs1 = keep_line (nat pos) s hs
       in ((hs1, pos - 1, saved), Some (if pos = 0 then saved else hs1 ! nat (pos - 1)))
     else (h, None))"

text \<open>The text after a history key: the fetched line with the cursor at its end, or what it was.\<close>

definition z_fetch :: "zip \<Rightarrow> u8 list option \<Rightarrow> zip" where
  "z_fetch z f = (case f of None \<Rightarrow> z | Some s \<Rightarrow> (s, []))"

lemma cl_replace_ok:
  assumes "ed_ok v e" "plen v \<le> 67" "str_of b p = Some s" "int (length s) < maxlen e"
  shows "does v e (cl_replace v b p e) (s, [])"
proof -
  have lo: "line_ok e" using assms(1) by (simp add: ed_ok_iff)
  have A: "length (area e) = AREA_LEN" "maxlen e \<le> int MAX_CMDLINE" using lo by (auto simp: line_ok_def)
  have "CMDLINE_BUF + length s < length (area e)" using assms(4) A by (simp add: area_offsets)
  from strcpy_cells [OF assms(3) this] obtain a where a: "grub_strcpy (area e) CMDLINE_BUF b p = Some a"
    "length a = length (area e)" "str_of a CMDLINE_BUF = Some s"
    "\<And>k. k < CMDLINE_BUF \<or> CMDLINE_BUF + length s < k \<Longrightarrow> a ! k = area e ! k" by metis
  let ?e = "e\<lparr>area := a, llen := int (length s), lpos := int (length s)\<rparr>"
  have l: "cl_line ?e = s" by (rule cl_line_unique) (use a(3) in simp_all)
  have k: "a ! k = area e ! k" if "KILL_BUF \<le> k" for k
    using that assms(4) A by (intro a(4)) (auto simp: area_offsets)
  have lo': "line_ok ?e"
    using lo a(2,3) l assms(4) k [of "AREA_LEN - 1"] by (simp add: line_ok_def area_offsets)
  obtain e' where e': "cl_refresh v True 0 ?e = Some e'" "ed_ok v e'" "same_text ?e e'"
    "plain_line v ?e \<Longrightarrow> shows_line v e'"
    using refresh_full_ok [OF lo' assms(2)] by blast
  have "cl_zip ?e = (s, [])" using l by (simp add: cl_zip_def)
  moreover have "framed e ?e" using k by (simp add: framed_def area_offsets)
  moreover have "cl_replace v b p e = Some e'"
    unfolding cl_replace_def using a(1,3) e'(1) by (simp add: grub_strlen_eq)
  ultimately show ?thesis using e' same_text_simps [OF e'(3)] by (auto simp: does_def)
qed

text \<open>States that differ in the history, the saved line and the position only.\<close>

definition same_edit :: "editor \<Rightarrow> editor \<Rightarrow> bool" where
  "same_edit e e' \<longleftrightarrow> length (area e') = AREA_LEN \<and> (\<forall>k. k < HISTORY_BUF \<or> UNIQUE_BUF \<le> k \<longrightarrow> area e' ! k = area e ! k) \<and>
     xpos e' = xpos e \<and> lpos e' = lpos e \<and> llen e' = llen e \<and> sect e' = sect e \<and> maxlen e' = maxlen e \<and> evs e' = evs e"

lemma same_edit_ok:
  assumes "ed_ok v e" "same_edit e e'"
  shows "ed_ok v e'" "cl_zip e' = cl_zip e" "cl_line e' = cl_line e"
    "shows_line v e' = shows_line v e" "plain_line v e' = plain_line v e"
proof -
  let ?e = "e\<lparr>area := area e'\<rparr>"
  have lo: "line_ok e" using assms(1) by (simp add: ed_ok_iff)
  have n: "nat (llen e) < KILL_BUF" "length (area e) = AREA_LEN"
    using lo by (auto simp: line_ok_def area_offsets)
  have l: "cl_line e' = cl_line e"
    unfolding cl_line_def using n assms(2) by (intro nth_equalityI) (auto simp: area_offsets same_edit_def)
  have g: "glyph v e' i = glyph v e i" for i
  proof -
    have "i < llen e \<Longrightarrow> nat i < HISTORY_BUF" using n(1) by (simp add: area_offsets)
    then show ?thesis using assms(2) by (auto simp: glyph_def same_edit_def)
  qed
  have "window v e' = window v e"
    using assms(2) by (simp add: fun_eq_iff window_def g same_edit_def)
  then show "shows_line v e' = shows_line v e" using assms(2) by (simp add: shows_line_def same_edit_def)
  have "str_of (area e') CMDLINE_BUF = Some (cl_line e)"
    by (rule str_of_same [of "area e" CMDLINE_BUF])
      (use lo n assms(2) length_cl_line [OF lo] in \<open>auto simp: line_ok_def same_edit_def area_offsets\<close>)
  moreover have "area e' ! (AREA_LEN - 1) = area e ! (AREA_LEN - 1)"
    using assms(2) by (simp add: same_edit_def area_offsets)
  ultimately show "ed_ok v e'"
    using assms l by (simp add: ed_ok_def same_edit_def)
  show "cl_zip e' = cl_zip e" "cl_line e' = cl_line e" "plain_line v e' = plain_line v e"
    using l assms(2) by (simp_all add: cl_zip_def plain_line_def same_edit_def)
qed

lemma keep_modified_ok:
  assumes "ed_ok v e" "hist_is e hs" "0 \<le> history e" "history e < int (length hs)"
  obtains e' where "keep_modified e = Some e'" "same_edit e e'" "cmdline e' = cmdline e" "history e' = history e"
    "hist_is e' (keep_line (nat (history e)) (cl_line e) hs)"
proof -
  have lo: "line_ok e" using assms(1) by (simp add: ed_ok_iff)
  have A: "length (area e) = AREA_LEN" "str_of (area e) CMDLINE_BUF = Some (cl_line e)"
    "length (cl_line e) < MAX_CMDLINE"
    using lo length_cl_line [OF lo] by (auto simp: line_ok_def)
  let ?k = "nat (history e)"
  have h: "num_history e = int (length hs)" "length hs \<le> HISTORY_SIZE" "?k < length hs"
    "str_of (area e) (entry ?k) = Some (hs ! ?k)"
    using assms(2-4) by (auto simp: hist_is_def)
  have g: "get_history e (history e) = Some (entry ?k)"
    using assms(3,4) h(1) by (simp add: get_history_def entry_def)
  have c: "grub_strcmp (area e) (entry ?k) (area e) CMDLINE_BUF = Some (cmp_int (strkey (hs ! ?k)) (strkey (cl_line e)))"
    by (rule grub_strcmp_strkey [OF h(4) A(2)])
  have eq: "cmp_int (strkey (hs ! ?k)) (strkey (cl_line e)) = 0 \<longleftrightarrow> hs ! ?k = cl_line e"
    using strkey_inj [of "hs ! ?k" "cl_line e"] by (auto simp: cmp_int_def)
  show thesis
  proof (cases "hs ! ?k = cl_line e")
    case True
    have "same_edit e e" using A by (simp add: same_edit_def)
    then show thesis
      using that [of e] True g c eq assms(2) by (simp add: keep_modified_def keep_line_def)
  next
    case False
    have "?k \<le> length hs" "?k < HISTORY_SIZE" using h by auto
    from add_history_ok [OF A(1) assms(2) A(2,3) this] obtain a n where
      a: "add_history (area e) CMDLINE_BUF ?k e = Some (e\<lparr>area := a, num_history := n\<rparr>)"
        "hist_is (e\<lparr>area := a, num_history := n\<rparr>) (take HISTORY_SIZE (take ?k hs @ cl_line e # drop ?k hs))"
        "length a = AREA_LEN" "\<And>k. k < HISTORY_BUF \<or> UNIQUE_BUF \<le> k \<Longrightarrow> a ! k = area e ! k"
      by blast
    then show thesis
      using that [of "e\<lparr>area := a, num_history := n\<rparr>"] False g c eq
      by (simp add: keep_modified_def keep_line_def same_edit_def)
  qed
qed

lemma keep_line_length: "k < length hs \<Longrightarrow> length hs \<le> HISTORY_SIZE \<Longrightarrow>
  length hs \<le> length (keep_line k s hs) \<and> length (keep_line k s hs) \<le> HISTORY_SIZE"
  by (auto simp: keep_line_def)

lemma keep_line_set: "set (keep_line k s hs) \<subseteq> insert s (set hs)"
  by (auto simp: keep_line_def dest!: in_set_takeD in_set_dropD)

lemma hist_is_history [simp]: "hist_is (e\<lparr>history := n\<rparr>) = hist_is e" "hist_is (e\<lparr>cmdline := c\<rparr>) = hist_is e"
  by (simp_all add: fun_eq_iff hist_is_def)

lemma get_history_entry: "hist_is e hs \<Longrightarrow> get_history e n = (if n < 0 \<or> n \<ge> int (length hs) then None else Some (entry (nat n)))"
  by (simp add: get_history_def hist_is_def entry_def)

text \<open>A history key does what the lists say: on the history, on the line and on the screen.\<close>

definition fetches :: "cl_env \<Rightarrow> editor \<Rightarrow> editor option \<Rightarrow> zip \<Rightarrow> hist \<Rightarrow> bool" where
  "fetches v e q z h \<longleftrightarrow> (\<exists>e'. q = Some e' \<and> ed_ok v e' \<and> cl_zip e' = z \<and> hist_rel e' h \<and> maxlen e' = maxlen e \<and>
     (shows_line v e \<and> plain_line v e \<and> plain_line v e' \<longrightarrow> shows_line v e'))"

lemma fetch_replace:
  assumes "ed_ok v e" "same_edit e e1" "plen v \<le> 67" "hist_rel e1 h" "str_of b p = Some s" "int (length s) < maxlen e"
  shows "fetches v e (cl_replace v b p e1) (s, []) h"
proof -
  note s = same_edit_ok [OF assms(1,2)]
  have m: "maxlen e1 = maxlen e" using assms(2) by (simp add: same_edit_def)
  obtain e2 where e2: "cl_replace v b p e1 = Some e2" "ed_ok v e2" "cl_zip e2 = (s, [])" "framed e1 e2"
    "shows_line v e1 \<and> plain_line v e1 \<and> plain_line v e2 \<longrightarrow> shows_line v e2"
    using cl_replace_ok [OF s(1) assms(3,5)] assms(6) m by (auto simp: does_def)
  have a: "length (area e2) = AREA_LEN" using e2(2) by (simp add: ed_ok_def)
  have "hist_rel e2 h"
    using assms(4) hist_framed [OF _ e2(4) a] e2(4) by (auto simp: hist_rel_def framed_def)
  then show ?thesis using e2 s m by (auto simp: fetches_def framed_def)
qed

lemma cl_up_ok:
  assumes "ed_ok v e" "plen v \<le> 67" "hist_rel e h" "z_up (cl_line e) h = (h', f)"
  shows "fetches v e (cl_up v e) (z_fetch (cl_zip e) f) h'"
proof -
  obtain hs pos saved where h: "h = (hs, pos, saved)" by (cases h)
  have lo: "line_ok e" using assms(1) by (simp add: ed_ok_iff)
  have A: "length (area e) = AREA_LEN" "str_of (area e) CMDLINE_BUF = Some (cl_line e)"
    "int (length (cl_line e)) < maxlen e"
    using lo length_cl_line [OF lo] by (auto simp: line_ok_def)
  have R: "hist_is e hs" "history e = pos" "-1 \<le> pos" "pos < int (length hs)"
    "maxlen e \<le> int (length (cmdline e))" "\<forall>s \<in> set hs. int (length s) < maxlen e"
    "0 \<le> pos \<longrightarrow> str_of (cmdline e) 0 = Some saved \<and> int (length saved) < maxlen e"
    using assms(3) by (auto simp: hist_rel_def h)
  define hs1 where "hs1 = (if pos < 0 then hs else keep_line (nat pos) (cl_line e) hs)"
  define saved1 where "saved1 = (if pos < 0 then cl_line e else saved)"
  obtain e1 where e1: "(if history e < 0
      then do { c \<leftarrow> grub_strcpy (cmdline e) 0 (area e) CMDLINE_BUF; Some (e\<lparr>cmdline := c\<rparr>) }
      else keep_modified e) = Some e1"
    "same_edit e e1" "hist_is e1 hs1" "length (cmdline e1) = length (cmdline e)" "history e1 = pos"
    "str_of (cmdline e1) 0 = Some saved1 \<and> int (length saved1) < maxlen e"
  proof (cases "pos < 0")
    case True
    have "0 + length (cl_line e) < length (cmdline e)" using A(3) R(5) by linarith
    from strcpy_cells [OF A(2) this] obtain c where c: "grub_strcpy (cmdline e) 0 (area e) CMDLINE_BUF = Some c"
      "length c = length (cmdline e)" "str_of c 0 = Some (cl_line e)" by metis
    show thesis
      by (rule that [of "e\<lparr>cmdline := c\<rparr>"])
        (use True c R A in \<open>simp_all add: same_edit_def hs1_def saved1_def\<close>)
  next
    case False
    have "0 \<le> history e" "history e < int (length hs)" using False R by auto
    from keep_modified_ok [OF assms(1) R(1) this] obtain e' where
      "keep_modified e = Some e'" "same_edit e e'" "cmdline e' = cmdline e" "history e' = history e"
      "hist_is e' (keep_line (nat (history e)) (cl_line e) hs)" .
    then show thesis
      using that [of e'] False R by (simp add: hs1_def saved1_def)
  qed
  have m1: "maxlen e1 = maxlen e" using e1(2) by (simp add: same_edit_def)
  have len1: "length hs \<le> length hs1" "\<forall>s \<in> set hs1. int (length s) < maxlen e"
    using R A(3) keep_line_length [of "nat pos" hs "cl_line e"] keep_line_set [of "nat pos" "cl_line e" hs]
    by (auto simp: hs1_def hist_is_def)
  let ?e2 = "e1\<lparr>history := pos + 1\<rparr>"
  have se: "same_edit e ?e2" "same_edit e e1" using e1(2) by (auto simp: same_edit_def)
  have up: "cl_up v e = (case get_history ?e2 (pos + 1) of
      None \<Rightarrow> Some (?e2\<lparr>history := pos\<rparr>) | Some p \<Rightarrow> cl_replace v (area e1) p ?e2)"
    unfolding cl_up_def e1(1) using e1(5) by (simp add: Let_def split: option.splits)
  have g: "get_history ?e2 (pos + 1) = (if pos + 1 \<ge> int (length hs1) then None else Some (entry (nat (pos + 1))))"
    using get_history_entry [of ?e2 hs1 "pos + 1"] e1(3) R(3) by simp
  show ?thesis
  proof (cases "pos + 1 < int (length hs1)")
    case True
    let ?n = "nat (pos + 1)"
    have hf: "h' = (hs1, pos + 1, saved1)" "f = Some (hs1 ! ?n)"
      using assms(4) True by (auto simp: z_up_def h Let_def hs1_def saved1_def split: if_splits)
    have n: "?n < length hs1" using True R(3) by linarith
    have s: "str_of (area e1) (entry ?n) = Some (hs1 ! ?n)" "int (length (hs1 ! ?n)) < maxlen e"
      using e1(3) len1(2) n by (auto simp: hist_is_def)
    have "hist_rel ?e2 h'"
      using e1 R True m1 len1(2) by (auto simp: hist_rel_def hf)
    from fetch_replace [OF assms(1) se(1) assms(2) this s] show ?thesis
      using True by (simp add: up g hf z_fetch_def)
  next
    case False
    have hf: "h' = (hs1, pos, saved1)" "f = None"
      using assms(4) False by (auto simp: z_up_def h Let_def hs1_def saved1_def split: if_splits)
    have e2: "?e2\<lparr>history := pos\<rparr> = e1" using e1(5) by simp
    have "hist_rel e1 h'"
      using e1 R m1 len1 by (auto simp: hist_rel_def hf)
    then show ?thesis
      using False same_edit_ok [OF assms(1) se(2)] m1
      by (simp add: up g hf z_fetch_def e2 fetches_def)
  qed
qed

lemma cl_down_ok:
  assumes "ed_ok v e" "plen v \<le> 67" "hist_rel e h" "z_down (cl_line e) h = (h', f)"
  shows "fetches v e (cl_down v e) (z_fetch (cl_zip e) f) h'"
proof -
  obtain hs pos saved where h: "h = (hs, pos, saved)" by (cases h)
  have lo: "line_ok e" using assms(1) by (simp add: ed_ok_iff)
  have A: "int (length (cl_line e)) < maxlen e"
    using lo length_cl_line [OF lo] by (auto simp: line_ok_def)
  have R: "hist_is e hs" "history e = pos" "-1 \<le> pos" "pos < int (length hs)"
    "maxlen e \<le> int (length (cmdline e))" "\<forall>s \<in> set hs. int (length s) < maxlen e"
    "0 \<le> pos \<longrightarrow> str_of (cmdline e) 0 = Some saved \<and> int (length saved) < maxlen e"
    using assms(3) by (auto simp: hist_rel_def h)
  show ?thesis
  proof (cases "pos < 0")
    case True
    then have "h' = h" "f = None" using assms(4) by (auto simp: z_down_def h)
    then show ?thesis using True R(2) assms(1,3) by (auto simp: cl_down_def fetches_def z_fetch_def)
  next
    case False
    define hs1 where "hs1 = keep_line (nat pos) (cl_line e) hs"
    have "0 \<le> history e" "history e < int (length hs)" using False R by auto
    from keep_modified_ok [OF assms(1) R(1) this] obtain e1 where e1:
      "keep_modified e = Some e1" "same_edit e e1" "cmdline e1 = cmdline e" "history e1 = history e"
      "hist_is e1 (keep_line (nat (history e)) (cl_line e) hs)" .
    have m1: "maxlen e1 = maxlen e" using e1(2) by (simp add: same_edit_def)
    have len1: "length hs \<le> length hs1" "\<forall>s \<in> set hs1. int (length s) < maxlen e"
      using R A keep_line_length [of "nat pos" hs "cl_line e"] keep_line_set [of "nat pos" "cl_line e" hs] False
      by (auto simp: hs1_def hist_is_def)
    let ?e2 = "e1\<lparr>history := pos - 1\<rparr>"
    have se: "same_edit e ?e2" using e1(2) by (auto simp: same_edit_def)
    have h1: "hist_is ?e2 hs1" using e1(5) R(2) by (simp add: hs1_def)
    have hf: "h' = (hs1, pos - 1, saved)" "f = Some (if pos = 0 then saved else hs1 ! nat (pos - 1))"
      using assms(4) False by (auto simp: z_down_def h Let_def hs1_def)
    have rel: "hist_rel ?e2 h'"
      using h1 e1 R m1 len1 False by (auto simp: hist_rel_def hf)
    have g: "get_history ?e2 (pos - 1) = (if pos = 0 then None else Some (entry (nat (pos - 1))))"
      using get_history_entry [OF h1, of "pos - 1"] R(4) len1(1) False by auto
    have dn: "cl_down v e = (if pos = 0 then cl_replace v (cmdline e1) 0 ?e2
        else cl_replace v (area e1) (entry (nat (pos - 1))) ?e2)"
      unfolding cl_down_def using False R(2) e1(1,4) g by simp
    show ?thesis
    proof (cases "pos = 0")
      case True
      then have "str_of (cmdline e1) 0 = Some saved" "int (length saved) < maxlen e" using R(7) e1(3) by auto
      from fetch_replace [OF assms(1) se assms(2) rel this] show ?thesis
        using True by (simp add: dn hf z_fetch_def)
    next
      case n: False
      let ?n = "nat (pos - 1)"
      have "?n < length hs1" using n False R(4) len1(1) by linarith
      then have "str_of (area e1) (entry ?n) = Some (hs1 ! ?n)" "int (length (hs1 ! ?n)) < maxlen e"
        using h1 len1(2) by (auto simp: hist_is_def)
      from fetch_replace [OF assms(1) se assms(2) rel this] show ?thesis
        using n by (simp add: dn hf z_fetch_def)
    qed
  qed
qed

section \<open>A session\<close>

text \<open>One turn of the loop of \<open>real_get_cmdline\<close>, and the same on the zipper and the history.\<close>

definition cl_key :: "cl_env \<Rightarrow> u32 \<Rightarrow> editor \<Rightarrow> editor option" where
  "cl_key v c e = do { e1 \<leftarrow> (if readline v then key_readline v c e else Some e); key_always v c e1 }"

definition z_stage :: "u32 \<Rightarrow> zip \<times> hist \<Rightarrow> zip \<times> hist" where
  "z_stage c st =
     (let z = fst st; h = snd st; k = (ucast c :: u8); line = fst z @ snd z
      in if c = 0x4800 \<or> k = 16 then (z_fetch z (snd (z_up line h)), fst (z_up line h))
         else if c = 0x5000 \<or> k = 14 then (z_fetch z (snd (z_down line h)), fst (z_down line h))
         else (z_readline c z, h))"

definition z_key :: "bool \<Rightarrow> int \<Rightarrow> u32 \<Rightarrow> zip \<times> hist \<Rightarrow> zip \<times> hist" where
  "z_key rl m c st =
     (let st1 = (if rl then z_stage c st else st) in (z_always m c (fst st1), snd st1))"

text \<open>Keys other than Tab, yank, Escape and Enter.\<close>

definition typing_key :: "u32 \<Rightarrow> bool" where
  "typing_key c \<longleftrightarrow> (ucast c :: u8) \<notin> {9, 25, 27, 10, 13}"

lemma z_lines: "set (fst (z_readline c (l, r)) @ snd (z_readline c (l, r))) \<subseteq> set (l @ r)"
  by (auto simp: z_readline_def Let_def dest: in_set_butlastD in_set_takeD in_set_dropD)

lemma fetches_does:
  assumes "does v e q z" "hist_rel e h"
  shows "fetches v e q z h"
proof -
  obtain e' where e': "q = Some e'" "ed_ok v e'" "cl_zip e' = z" "framed e e'"
    "shows_line v e \<and> plain_line v e \<and> plain_line v e' \<longrightarrow> shows_line v e'"
    using assms(1) by (auto simp: does_def)
  have a: "length (area e') = AREA_LEN" using e'(2) by (simp add: ed_ok_def)
  have "hist_rel e' h"
    using assms(2) hist_framed [OF _ e'(4) a] e'(4) by (auto simp: hist_rel_def framed_def)
  then show ?thesis using e' by (auto simp: fetches_def framed_def)
qed

lemma readline_stage:
  assumes "ed_ok v e" "plen v \<le> 67" "hist_rel e h" "typing_key c"
  defines "st \<equiv> z_stage c (cl_zip e, h)"
  shows "fetches v e (key_readline v c e) (fst st) (snd st)"
proof -
  let ?k = "ucast c :: u8"
  have line: "fst (cl_zip e) @ snd (cl_zip e) = cl_line e" by (simp add: cl_zip_def)
  consider "c = 0x4800 \<or> ?k = 16" | "\<not> (c = 0x4800 \<or> ?k = 16)" "c = 0x5000 \<or> ?k = 14"
    | "\<not> (c = 0x4800 \<or> ?k = 16)" "\<not> (c = 0x5000 \<or> ?k = 14)" by blast
  then show ?thesis
  proof cases
    case 1
    then have "key_readline v c e = cl_up v e" by (auto simp: key_readline_def)
    then show ?thesis using 1 cl_up_ok [OF assms(1-3) prod.collapse [symmetric]]
      by (simp add: st_def z_stage_def line Let_def)
  next
    case 2
    then have "key_readline v c e = cl_down v e" by (auto simp: key_readline_def)
    then show ?thesis using 2 cl_down_ok [OF assms(1-3) prod.collapse [symmetric]]
      by (simp add: st_def z_stage_def line Let_def)
  next
    case 3
    then have "edit_key c" using assms(4) by (auto simp: edit_key_def typing_key_def)
    then show ?thesis using 3 fetches_does [OF key_readline_ok [OF assms(1,2)] assms(3)]
      by (simp add: st_def z_stage_def Let_def)
  qed
qed

text \<open>The screen needs the line between the two stages to be plain as well, which a plain result implies.\<close>

lemma always_plain:
  assumes "cl_zip e1 = z1" "cl_zip e2 = z_always m c z1" "typing_key c" "z1 = z_readline c (cl_zip e) \<or> z_always m c z1 = z1"
    and "plain_line v e" "plain_line v e2"
  shows "plain_line v e1"
proof -
  have l: "cl_line x = fst (cl_zip x) @ snd (cl_zip x)" for x by (simp add: cl_zip_def)
  from assms(4) show ?thesis
  proof
    assume "z1 = z_readline c (cl_zip e)"
    then have "set (cl_line e1) \<subseteq> set (cl_line e)"
      using z_lines [of c "fst (cl_zip e)" "snd (cl_zip e)"] assms(1) by (simp add: l)
    then show ?thesis using assms(5) by (auto simp: plain_line_def list_all_iff)
  next
    assume "z_always m c z1 = z1"
    then have "cl_line e1 = cl_line e2" using assms(1,2) by (simp add: l)
    then show ?thesis using assms(6) by (simp add: plain_line_def)
  qed
qed

lemma cl_key_ok:
  assumes "ed_ok v e" "plen v \<le> 67" "hist_rel e h" "typing_key c"
  defines "st \<equiv> z_key (readline v) (maxlen e) c (cl_zip e, h)"
  shows "fetches v e (cl_key v c e) (fst st) (snd st)"
proof -
  let ?st = "if readline v then z_stage c (cl_zip e, h) else (cl_zip e, h)"
  have st: "fst st = z_always (maxlen e) c (fst ?st)" "snd st = snd ?st"
    by (simp_all add: st_def z_key_def Let_def)
  have "fetches v e (if readline v then key_readline v c e else Some e) (fst ?st) (snd ?st)"
  proof (cases "readline v")
    case True
    then show ?thesis using readline_stage [OF assms(1-4)] by simp
  next
    case False
    then show ?thesis using assms(1,3) by (simp add: fetches_def)
  qed
  then obtain e1 where e1: "(if readline v then key_readline v c e else Some e) = Some e1" "ed_ok v e1"
    "cl_zip e1 = fst ?st" "hist_rel e1 (snd ?st)" "maxlen e1 = maxlen e"
    "shows_line v e \<and> plain_line v e \<and> plain_line v e1 \<longrightarrow> shows_line v e1"
    by (auto simp: fetches_def)
  obtain e2 where e2: "key_always v c e1 = Some e2" "ed_ok v e2" "cl_zip e2 = fst st" "hist_rel e2 (snd ?st)"
    "maxlen e2 = maxlen e1" "shows_line v e1 \<and> plain_line v e1 \<and> plain_line v e2 \<longrightarrow> shows_line v e2"
    using fetches_does [OF key_always_ok [OF e1(2) assms(2)] e1(4), of c] e1(3,5) st(1) by (auto simp: fetches_def)
  have "plain_line v e1" if "plain_line v e" "plain_line v e2"
  proof (cases "readline v")
    case False
    then have "cl_line e1 = cl_line e" using e1(1) by simp
    then show ?thesis using that(1) by (simp add: plain_line_def)
  next
    case True
    have "fst ?st = z_readline c (cl_zip e) \<or> z_always (maxlen e) c (fst ?st) = fst ?st"
    proof (cases "(c = 0x4800 \<or> (ucast c :: u8) = 16) \<or> (c = 0x5000 \<or> (ucast c :: u8) = 14)")
      case True
      then have "z_always (maxlen e) c z = z" for z
        by (auto simp: z_always_def Let_def word_sle_eq)
      then show ?thesis by simp
    next
      case False
      then show ?thesis using True by (simp add: z_stage_def Let_def)
    qed
    then show ?thesis
      using always_plain [OF e1(3) _ assms(4) _ that, of "maxlen e"] e2(3) st(1) by simp
  qed
  then show ?thesis using e1 e2 st(2) by (auto simp: cl_key_def fetches_def)
qed

text \<open>Enter: the line without its leading spaces goes to the caller and, if not empty, to the history.\<close>

definition returned_line :: "cl_env \<Rightarrow> u8 list \<Rightarrow> u8 list" where
  "returned_line v s = (if echo_char v = 0 then dropWhile (\<lambda>c. c = 32) s else s)"

lemma scan_while_str:
  assumes "str_of b i = Some s" "\<not> P 0"
  shows "scan_while P b i = Some (i + length (takeWhile P s))"
  using assms(1)
proof (induction s arbitrary: i)
  case Nil
  then show ?case using assms(2) by (subst scan_while.simps) (auto simp: str_of_Nil_iff)
next
  case (Cons c s)
  then show ?case by (subst scan_while.simps) (auto simp: str_of_Cons_iff)
qed

lemma cl_finish_ok:
  assumes "ed_ok v e" "hist_rel e h"
  obtains e' where "cl_finish v e = Some e'" "str_of (cmdline e') 0 = Some (returned_line v (cl_line e))"
    "hist_is e' (if readline v \<and> returned_line v (cl_line e) \<noteq> []
       then take HISTORY_SIZE (returned_line v (cl_line e) # fst h) else fst h)"
proof -
  have lo: "line_ok e" using assms(1) by (simp add: ed_ok_iff)
  obtain hs pos saved where h: "h = (hs, pos, saved)" by (cases h)
  let ?s = "cl_line e" and ?t = "returned_line v (cl_line e)"
  define lp where "lp = length ?s - length ?t"
  have A: "length (area e) = AREA_LEN" "str_of (area e) CMDLINE_BUF = Some ?s" "int (length ?s) = llen e"
    "llen e < maxlen e" "maxlen e \<le> int MAX_CMDLINE"
    using lo length_cl_line [OF lo] by (auto simp: line_ok_def)
  have R: "hist_is e hs" "maxlen e \<le> int (length (cmdline e))"
    using assms(2) by (auto simp: hist_rel_def h)
  have lt: "length ?t \<le> length ?s" by (simp add: returned_line_def length_dropWhile_le)
  have t: "?t = drop lp ?s"
    unfolding lp_def returned_line_def
    by (auto simp: dropWhile_eq_drop [symmetric]) (metis append_eq_conv_conj dropWhile_eq_drop length_drop takeWhile_dropWhile_id diff_diff_cancel length_takeWhile_le)
  have lpl: "lp \<le> length ?s" by (simp add: lp_def)
  have scan: "(if echo_char v = 0 then scan_while (\<lambda>c. c = 32) (area e) CMDLINE_BUF else Some 0) = Some lp"
  proof (cases "echo_char v = 0")
    case True
    have "length (takeWhile (\<lambda>c. c = 32) ?s) + length ?t = length ?s"
      using True by (simp add: returned_line_def flip: length_append)
    then show ?thesis using True scan_while_str [OF A(2), of "\<lambda>c. c = 32"] by (simp add: lp_def CMDLINE_BUF_def)
  next
    case False
    then show ?thesis by (simp add: lp_def returned_line_def)
  qed
  have n: "nat (llen e - int lp + 1) = length ?t + 1" using A(3) t lpl by simp
  have src: "str_of (area e) (CMDLINE_BUF + lp) = Some ?t" using str_of_suffix [OF A(2) lpl] t by simp
  have "0 + (length ?t + 1) \<le> length (cmdline e)" "CMDLINE_BUF + lp + (length ?t + 1) \<le> length (area e)"
    using A R(2) lt str_of_bound [OF src] by linarith+
  from copy_obj_cells [OF this] obtain c where c: "copy_obj (cmdline e) 0 (area e) (CMDLINE_BUF + lp) (length ?t + 1) = Some c"
    "length c = length (cmdline e)"
    "\<And>k. c ! k = (if 0 \<le> k \<and> k < 0 + (length ?t + 1) then area e ! (CMDLINE_BUF + lp + (k - 0)) else cmdline e ! k)"
    by metis
  have sc: "str_of c 0 = Some ?t"
    by (rule str_of_same [OF src]) (use c(2,3) A R(2) lt in auto)
  let ?e = "(emit [TPut 10] e)\<lparr>lpos := int lp, cmdline := c\<rparr>"
  have fin: "cl_finish v e = (if readline v \<and> int lp < llen e then add_history c 0 0 ?e else Some ?e)"
    unfolding cl_finish_def using scan c(1) n by (cases "echo_char v = 0") (auto simp: emit_def Let_def)
  have hi: "hist_is ?e hs" "length (area ?e) = AREA_LEN" using R(1) A(1) by (simp_all add: hist_is_def emit_def)
  have ne: "int lp < llen e \<longleftrightarrow> ?t \<noteq> []"
  proof -
    have "length ?t = length ?s - lp" using t by simp
    then have "int lp < llen e \<longleftrightarrow> 0 < length ?t" using A(3) lpl by linarith
    then show ?thesis by simp
  qed
  show thesis
  proof (cases "readline v \<and> ?t \<noteq> []")
    case False
    show thesis by (rule that [of ?e]) (use False fin ne sc hi(1) h in auto)
  next
    case True
    have "length ?t < MAX_CMDLINE" "0 \<le> length hs" "0 < HISTORY_SIZE"
      using A lt by (auto simp: HISTORY_SIZE_def)
    from add_history_ok [OF hi(2,1) sc this] obtain a m where
      "add_history c 0 0 ?e = Some (?e\<lparr>area := a, num_history := m\<rparr>)"
      "hist_is (?e\<lparr>area := a, num_history := m\<rparr>) (take HISTORY_SIZE (take 0 hs @ ?t # drop 0 hs))"
      by blast
    then show thesis
      by (intro that [of "?e\<lparr>area := a, num_history := m\<rparr>"]) (use True fin ne sc h in auto)
  qed
qed

lemma cl_loop_ok:
  assumes "plen v \<le> 67" "list_all typing_key keys" "(ucast c :: u8) \<in> {10, 13}"
    and "ed_ok v e" "hist_rel e h" "fold (z_key (readline v) (maxlen e)) keys (cl_zip e, h) = ((l, r), h')"
  shows "\<exists>e'. cl_loop v e (keys @ c # rest) = Some (Returned False e') \<and>
    str_of (cmdline e') 0 = Some (returned_line v (l @ r)) \<and>
    hist_is e' (if readline v \<and> returned_line v (l @ r) \<noteq> []
       then take HISTORY_SIZE (returned_line v (l @ r) # fst h') else fst h')"
  using assms(2,4-6)
proof (induction keys arbitrary: e h)
  case Nil
  have line: "cl_line e = l @ r" "h' = h" using Nil.prems(4) zip_line by auto
  obtain e' where "cl_finish v e = Some e'" "str_of (cmdline e') 0 = Some (returned_line v (cl_line e))"
    "hist_is e' (if readline v \<and> returned_line v (cl_line e) \<noteq> []
       then take HISTORY_SIZE (returned_line v (cl_line e) # fst h) else fst h)"
    using cl_finish_ok [OF Nil.prems(2,3)] .
  then show ?case using assms(3) line by auto
next
  case (Cons k keys)
  let ?st = "z_key (readline v) (maxlen e) k (cl_zip e, h)"
  have tk: "typing_key k" using Cons.prems(1) by simp
  obtain e1 where e1: "cl_key v k e = Some e1" "ed_ok v e1" "cl_zip e1 = fst ?st" "hist_rel e1 (snd ?st)" "maxlen e1 = maxlen e"
    using cl_key_ok [OF Cons.prems(2) assms(1) Cons.prems(3) tk] by (auto simp: fetches_def)
  have step: "cl_loop v e ((k # keys) @ c # rest) = cl_loop v e1 (keys @ c # rest)"
  proof -
    obtain x where "(if readline v then key_readline v k e else Some e) = Some x" "key_always v k x = Some e1"
      using e1(1) by (auto simp: cl_key_def bind_eq_Some_conv)
    then show ?thesis using tk by (simp add: typing_key_def)
  qed
  show ?case
    unfolding step using Cons.prems e1 by (intro Cons.IH) auto
qed

section \<open>Properties\<close>

text \<open>
  C36. One key of \<open>real_get_cmdline\<close>, any key but Tab, yank (\<open>C-y\<close>), Escape and Enter, with a prompt of at most 67
  characters and a history whose lines are all shorter than the limit of the line, as they are when the same limit was
  always used, is memory safe, keeps the invariant of the editor and refines the abstract editor: the text left and
  right of the cursor and the history list with its position and saved line change as \<open>z_key\<close> says.  If the prompt,
  the line before and after the key and the echo character are made of characters of one cell each, so no tabs,
  backspaces or line ends, and the row showed the prompt, the window on the line, the scroll marks and the cursor before
  the key, it does so afterwards, although most keys redraw only a part of it.
\<close>

theorem cl_key_refines:
  assumes "ed_ok v e" "plen v \<le> 67" "hist_rel e h" "typing_key c"
  shows "\<exists>e'. cl_key v c e = Some e' \<and> ed_ok v e' \<and> maxlen e' = maxlen e \<and>
    cl_zip e' = fst (z_key (readline v) (maxlen e) c (cl_zip e, h)) \<and>
    hist_rel e' (snd (z_key (readline v) (maxlen e) c (cl_zip e, h))) \<and>
    (shows_line v e \<and> plain_line v e \<and> plain_line v e' \<longrightarrow> shows_line v e')"
  using cl_key_ok [OF assms] by (auto simp: fetches_def)

text \<open>An editor that has just started with an empty line, for the instances below.\<close>

definition demo_env :: cl_env where
  "demo_env = \<lparr>prompt = cs ''grub> '', echo_char = 0, readline = True, dumb = False,
     completions = (\<lambda>_ _ a. Some (0, a, []))\<rparr>"

definition demo_editor :: editor where
  "demo_editor = \<lparr>area = replicate AREA_LEN 0, cmdline = replicate 2048 0, num_history = 0, xpos = 6, lpos = 0,
     llen = 0, sect = 0, history = -1, maxlen = 1600, evs = []\<rparr>"

lemma demo_ok: "ed_ok demo_env demo_editor" "hist_rel demo_editor ([], -1, [])"
  by (simp_all add: ed_ok_def demo_env_def demo_editor_def cl_line_def str_of_Nil_iff area_offsets CMDLINE_WIDTH_def
    hist_rel_def hist_is_def)

theorem cl_key_refines_witness:
  "\<exists>e'. cl_key demo_env 97 demo_editor = Some e' \<and> ed_ok demo_env e' \<and> maxlen e' = maxlen demo_editor \<and>
    cl_zip e' = fst (z_key (readline demo_env) (maxlen demo_editor) 97 (cl_zip demo_editor, ([], -1, []))) \<and>
    hist_rel e' (snd (z_key (readline demo_env) (maxlen demo_editor) 97 (cl_zip demo_editor, ([], -1, [])))) \<and>
    (shows_line demo_env demo_editor \<and> plain_line demo_env demo_editor \<and> plain_line demo_env e' \<longrightarrow> shows_line demo_env e')"
  by (rule cl_key_refines [OF demo_ok(1) _ demo_ok(2)]) (simp_all add: demo_env_def typing_key_def)

text \<open>
  C37. A session of \<open>real_get_cmdline\<close>: starting from the string in \<open>cmdline\<close> and a history whose
  lines are shorter than \<open>maxlen\<close>, after any keys but Tab, yank and Escape and then Enter it returns
  0, the caller's buffer holds the edited line (without leading spaces unless it was hidden behind an
  echo character), and with \<open>readline\<close> a line that is not empty is the newest of at most five
  history entries.
\<close>

theorem real_get_cmdline_session:
  assumes "length (area e) = AREA_LEN" "area e ! (AREA_LEN - 1) = 0" "plen v \<le> 67"
    and "str_of (cmdline e) 0 = Some s" "length s < m" "m \<le> MAX_CMDLINE" "m \<le> length (cmdline e)"
    and "hist_is e hs" "\<forall>t \<in> set hs. length t < m"
    and "list_all typing_key keys" "(ucast c :: u8) \<in> {10, 13}"
    and "fold (z_key (readline v) (int m)) keys ((s, []), (hs, -1, [])) = ((l, r), h')"
  shows "\<exists>e'. real_get_cmdline v m e (keys @ c # rest) = Some (Returned False e') \<and>
    str_of (cmdline e') 0 = Some (returned_line v (l @ r)) \<and>
    hist_is e' (if readline v \<and> returned_line v (l @ r) \<noteq> []
       then take HISTORY_SIZE (returned_line v (l @ r) # fst h') else fst h')"
proof -
  have "CMDLINE_BUF + length s < length (area e)" using assms(1,5,6) by (simp add: area_offsets)
  from strcpy_cells [OF assms(4) this] obtain a where a: "grub_strcpy (area e) CMDLINE_BUF (cmdline e) 0 = Some a"
    "length a = length (area e)" "str_of a CMDLINE_BUF = Some s"
    "\<And>k. k < CMDLINE_BUF \<or> CMDLINE_BUF + length s < k \<Longrightarrow> a ! k = area e ! k" by metis
  let ?e0 = "e\<lparr>area := a, cmdline := cmdline e, maxlen := int m, llen := int (length s), lpos := int (length s), history := -1\<rparr>"
  let ?e = "emit [TPut 10] ?e0"
  have far: "a ! k = area e ! k" if "HISTORY_BUF \<le> k" for k
    using that assms(5,6) by (intro a(4)) (auto simp: area_offsets)
  have line: "cl_line ?e = s" by (rule cl_line_unique) (use a(3) in \<open>simp_all add: emit_def\<close>)
  have zip0: "cl_zip ?e = (s, [])" using line by (simp add: cl_zip_def emit_def)
  have lo: "line_ok ?e"
    using assms(1,2,5,6) a(2,3) far [of "AREA_LEN - 1"] line by (simp add: line_ok_def emit_def area_offsets)
  obtain e1 where e1: "cl_refresh v True 0 ?e = Some e1" "ed_ok v e1" "same_text ?e e1"
    using refresh_full_ok [OF lo assms(3)] by blast
  have hi: "hist_is e1 hs"
    unfolding hist_is_def
  proof (intro conjI allI impI)
    fix k assume k: "k < length hs"
    then have h: "str_of (area e) (entry k) = Some (hs ! k)" "length (hs ! k) < MAX_CMDLINE" "length hs \<le> HISTORY_SIZE"
      using assms(8) by (auto simp: hist_is_def)
    show "str_of (area e1) (entry k) = Some (hs ! k)" "length (hs ! k) < MAX_CMDLINE"
      using h k e1(3) a(2) far assms(1)
      by (auto intro!: str_of_same [OF h(1)] simp: same_text_def emit_def entry_def area_offsets)
  qed (use assms(8) e1(3) in \<open>simp_all add: hist_is_def same_text_def emit_def\<close>)
  have mx: "maxlen e1 = int m" using e1(3) by (simp add: same_text_def emit_def)
  have rel: "hist_rel e1 (hs, -1, [])"
    using hi e1(3) assms(7,9) by (simp add: hist_rel_def same_text_def emit_def)
  have z: "cl_zip e1 = (s, [])" using zip0 same_text_simps(2) [OF e1(3)] by simp
  have run: "real_get_cmdline v m e (keys @ c # rest) = cl_loop v e1 (keys @ c # rest)"
    unfolding real_get_cmdline_def cl_init_def
    using assms(4,6) a(1) e1(1) by (simp add: grub_strlen_eq)
  show ?thesis
    unfolding run
    using assms(12) by (intro cl_loop_ok [OF assms(3,10,11) e1(2) rel]) (simp add: z mx)
qed

theorem real_get_cmdline_session_witness:
  "\<exists>e'. real_get_cmdline demo_env 1600 demo_editor ([32, 98, 97, 0x4B00, 0x5300, 0x4800, 111] @ 13 # []) =
      Some (Returned False e') \<and>
    str_of (cmdline e') 0 = Some (returned_line demo_env ([32, 98, 111] @ [])) \<and>
    hist_is e' (if readline demo_env \<and> returned_line demo_env ([32, 98, 111] @ []) \<noteq> []
       then take HISTORY_SIZE (returned_line demo_env ([32, 98, 111] @ []) # fst ([] :: u8 list list, -1 :: int, [32 :: u8, 98]))
       else fst ([] :: u8 list list, -1 :: int, [32 :: u8, 98]))"
proof (rule real_get_cmdline_session)
  show "fold (z_key (readline demo_env) (int 1600)) [32, 98, 97, 0x4B00, 0x5300, 0x4800, 111] (([], []), ([], -1, [])) =
    (([32, 98, 111], []), ([], -1, [32, 98]))"
    by (simp add: demo_env_def z_key_def z_stage_def z_always_def z_readline_def z_up_def z_fetch_def Let_def word_sle_eq)
qed (use demo_ok(2) in \<open>simp_all add: demo_editor_def demo_env_def hist_rel_def str_of_Nil_iff typing_key_def area_offsets\<close>)

text \<open>
  Killing to the end of the line: the text right of the cursor disappears, and the kill buffer
  holds it for a later yank only when the cursor is before column 800.  Further right the block
  that \<open>cl_delete\<close> moves (\<open>llen - count + 1\<close> bytes instead of the tail of the line) runs into
  \<open>KILL_BUF\<close> and leaves an empty kill buffer.
\<close>

theorem cl_kill_eol_kill:
  assumes "ed_ok v e" "plen v \<le> 67" "cl_zip e = (l, r)" "r \<noteq> []"
  shows "\<exists>e'. cl_kill_eol v e = Some e' \<and> ed_ok v e' \<and> cl_zip e' = (l, []) \<and>
    str_of (area e') KILL_BUF = Some (if length l < 800 then r else [])"
proof -
  obtain e' where "cl_kill_eol v e = Some e'" "ed_ok v e'" "cl_zip e' = (l, [])"
    using kill_eol_ok(1) [OF assms(1-3)] by (auto simp: does_def)
  then show ?thesis using kill_eol_ok(2) [OF assms, of e'] by (simp add: area_offsets)
qed

definition demo_line :: editor where
  "demo_line = demo_editor\<lparr>area := [97, 98] @ replicate (AREA_LEN - 2) 0, llen := 2, lpos := 1, xpos := 7\<rparr>"

lemma demo_line_ok: "ed_ok demo_env demo_line" "cl_zip demo_line = ([97], [98])"
proof -
  have l: "cl_line demo_line = [97, 98]" by (simp add: demo_line_def cl_line_def)
  then show "cl_zip demo_line = ([97], [98])" by (simp add: cl_zip_def demo_line_def)
  have "str_of (area demo_line) CMDLINE_BUF = Some [97, 98]"
    by (simp add: demo_line_def CMDLINE_BUF_def str_of_iff area_offsets)
  then show "ed_ok demo_env demo_line"
    using l by (simp add: ed_ok_def demo_line_def demo_editor_def demo_env_def area_offsets CMDLINE_WIDTH_def)
qed

theorem cl_kill_eol_kill_witness:
  "\<exists>e'. cl_kill_eol demo_env demo_line = Some e' \<and> ed_ok demo_env e' \<and> cl_zip e' = ([97], []) \<and>
    str_of (area e') KILL_BUF = Some (if length [97 :: u8] < 800 then [98] else [])"
  by (rule cl_kill_eol_kill [OF demo_line_ok(1) _ demo_line_ok(2)]) (simp_all add: demo_env_def)

end
