(* ===== verification/Terminal.thy ===== *)
theory Terminal
imports CBase
begin

text \<open>
  \<open>grub_putchar\<close> of \<open>stage2/char_io.c\<close> above the terminal drivers: tabs, carriage returns and
  the pager that stops every \<open>max_lines - 2\<close> lines and waits for a key.  What reaches the driver is
  recorded in \<open>out\<close>; the keys that will be pressed are the list \<open>keys\<close>, and \<open>None\<close> is waiting
  for a key that never comes.
\<close>

datatype tout = Out u8 | Color bool

text \<open>The driver: its position function if it has one, the \<open>TERM_DUMB\<close> flag, whether it has colours.\<close>

record driver =
  getxy :: "(tout list \<Rightarrow> u32) option"
  dumb_term :: bool
  setcolorstate :: bool
  max_lines :: int

record tstate =
  out :: "tout list"
  count_lines :: int
  quit_print :: bool
  keys :: "u32 list"

definition put :: "u8 list \<Rightarrow> tstate \<Rightarrow> tstate" where
  "put s t = t\<lparr>out := out t @ map Out s\<rparr>"

definition color :: "driver \<Rightarrow> bool \<Rightarrow> tstate \<Rightarrow> tstate" where
  "color d highlight t = (if setcolorstate d then t\<lparr>out := out t @ [Color highlight]\<rparr> else t)"

definition more_prompt :: "u8 list" where
  "more_prompt = cs ''[Hit Q to quit, any other key to continue]''"

definition more_erase :: "u8 list" where
  "more_erase = 13 # replicate 42 32 @ [13]"

definition grub_putchar :: "driver \<Rightarrow> u32 \<Rightarrow> tstate \<Rightarrow> tstate option" where
  "grub_putchar d c t =
     (if c = 9 \<and> getxy d \<noteq> None
      then Some (put (replicate (unat (8 - (drop_bit 8 (the (getxy d) (out t)) AND 3))) 32) t)
      else
        if c = 10 then
          let t1 = put [13] t;
              t2 = (if count_lines t1 \<ge> 0 then t1\<lparr>count_lines := count_lines t1 + 1\<rparr> else t1)
          in if count_lines t1 \<ge> 0 \<and> count_lines t2 \<ge> max_lines d - 2 then
               let t3 = put [10] (t2\<lparr>count_lines := -1\<rparr>)
               in do { t6 \<leftarrow> (if dumb_term d then Some t3
                            else let t4 = put more_prompt (color d True t3)
                                 in case keys t4 of [] \<Rightarrow> None
                                    | k # ks \<Rightarrow>
                                      let t5 = t4\<lparr>keys := ks, quit_print := (quit_print t4 \<or> k AND 0xDF = 0x51)\<rparr>
                                      in Some (color d False (put more_erase t5)));
                      Some (t6\<lparr>count_lines := 0\<rparr>) }
             else Some (put [ucast c] t2)
        else Some (put [ucast c] t))"

fun grub_puts :: "driver \<Rightarrow> u32 list \<Rightarrow> tstate \<Rightarrow> tstate option" where
  "grub_puts d [] t = Some t"
| "grub_puts d (c # s) t = do { t' \<leftarrow> grub_putchar d c t; grub_puts d s t' }"

section \<open>The pager\<close>

abbreviation newlines :: "u32 list \<Rightarrow> int" where
  "newlines s \<equiv> int (length (filter (\<lambda>c. c = 10) s))"

lemma putchar_count:
  assumes "0 \<le> count_lines t" "count_lines t < max_lines d - 2" "\<not> dumb_term d"
    and "c = 10 \<longrightarrow> count_lines t + 1 = max_lines d - 2 \<longrightarrow> keys t \<noteq> []"
  shows "\<exists>t'. grub_putchar d c t = Some t' \<and>
    count_lines t' = (if c = 10 then (if count_lines t + 1 = max_lines d - 2 then 0 else count_lines t + 1) else count_lines t) \<and>
    keys t' = (if c = 10 \<and> count_lines t + 1 = max_lines d - 2 then tl (keys t) else keys t)"
  using assms
  by (cases "keys t") (auto simp: grub_putchar_def put_def color_def Let_def split: option.splits)

text \<open>
  C35. The pager of \<open>grub_putchar\<close> on a terminal that is not dumb: whatever text is printed, it
  waits for exactly one key per \<open>max_lines - 2\<close> newlines, counted from the last stop, so no line
  scrolls away unread, and it never waits for a key otherwise.
\<close>

theorem pager_stops:
  assumes "0 \<le> count_lines t" "count_lines t < max_lines d - 2" "\<not> dumb_term d"
    and "(count_lines t + newlines s) div (max_lines d - 2) \<le> int (length (keys t))"
  shows "\<exists>t'. grub_puts d s t = Some t' \<and>
    count_lines t' = (count_lines t + newlines s) mod (max_lines d - 2) \<and>
    keys t' = drop (nat ((count_lines t + newlines s) div (max_lines d - 2))) (keys t)"
  using assms
proof (induction s arbitrary: t)
  case Nil
  then show ?case by (simp add: div_pos_pos_trivial mod_pos_pos_trivial)
next
  case (Cons c s)
  let ?m = "max_lines d - 2"
  have m: "0 < ?m" using Cons.prems by linarith
  have stop: "(count_lines t + newlines (c # s)) div ?m = newlines s div ?m + 1"
    "(count_lines t + newlines (c # s)) mod ?m = newlines s mod ?m" if "c = 10" "count_lines t + 1 = ?m"
  proof -
    have "count_lines t + newlines (c # s) = newlines s + ?m" using that by simp
    moreover have "?m \<noteq> 0" using m by simp
    ultimately show "(count_lines t + newlines (c # s)) div ?m = newlines s div ?m + 1"
      "(count_lines t + newlines (c # s)) mod ?m = newlines s mod ?m"
      using div_add_self2 [of ?m "newlines s"] mod_add_self2 [of "newlines s" ?m] by metis+
  qed
  have q: "0 \<le> newlines s div ?m" using m by (simp add: pos_imp_zdiv_nonneg_iff)
  have "c = 10 \<longrightarrow> count_lines t + 1 = ?m \<longrightarrow> keys t \<noteq> []"
    using Cons.prems(4) stop(1) q by (auto simp del: filter.simps)
  from putchar_count [OF Cons.prems(1-3) this] obtain t1 where t1: "grub_putchar d c t = Some t1"
    "count_lines t1 = (if c = 10 then (if count_lines t + 1 = ?m then 0 else count_lines t + 1) else count_lines t)"
    "keys t1 = (if c = 10 \<and> count_lines t + 1 = ?m then tl (keys t) else keys t)" by blast
  show ?case
  proof (cases "c = 10 \<and> count_lines t + 1 = ?m")
    case True
    then have k: "count_lines t1 = 0" "keys t1 = tl (keys t)" using t1 by auto
    have d: "newlines s div ?m + 1 \<le> int (length (keys t))" using Cons.prems(4) stop True by simp
    then have l: "newlines s div ?m \<le> int (length (tl (keys t)))" by simp
    obtain t' where t': "grub_puts d s t1 = Some t'" "count_lines t' = newlines s mod ?m"
      "keys t' = drop (nat (newlines s div ?m)) (tl (keys t))"
      using Cons.IH [of t1] k l m Cons.prems(3) by auto
    have "drop (nat (newlines s div ?m)) (tl (keys t)) = drop (nat (newlines s div ?m + 1)) (keys t)"
      using q by (simp add: drop_Suc nat_add_distrib)
    then show ?thesis using t1(1) t' stop True by (simp del: filter.simps)
  next
    case False
    then have k: "count_lines t1 + newlines s = count_lines t + newlines (c # s)" "keys t1 = keys t"
      "0 \<le> count_lines t1" "count_lines t1 < ?m"
      using t1 Cons.prems by auto
    then show ?thesis using Cons.IH [of t1] t1(1) Cons.prems(3,4) by (simp del: filter.simps)
  qed
qed

theorem pager_stops_witness:
  "\<exists>t'. grub_puts \<lparr>getxy = None, dumb_term = False, setcolorstate = True, max_lines = 4\<rparr> [65, 10, 10, 66, 10]
      \<lparr>out = [], count_lines = 0, quit_print = False, keys = [32]\<rparr> = Some t' \<and>
    count_lines t' = (0 + newlines [65, 10, 10, 66, 10]) mod (4 - 2) \<and>
    keys t' = drop (nat ((0 + newlines [65, 10, 10, 66, 10]) div (4 - 2))) [32]"
  using pager_stops [of "\<lparr>out = [], count_lines = 0, quit_print = False, keys = [32]\<rparr>"
    "\<lparr>getxy = None, dumb_term = False, setcolorstate = True, max_lines = 4\<rparr>" "[65, 10, 10, 66, 10]"]
  by simp

end
