(* ===== verification/Md5.thy ===== *)
theory Md5
imports StringLib
begin

text \<open>
  \<open>stage2/md5.c\<close>: the streaming MD5 of \<open>md5_init\<close>, \<open>md5_update\<close>, \<open>md5_final\<close> with the static
  \<open>state\<close>, \<open>length\<close> and \<open>buffer\<close> as a record, against RFC 1321 (padding and compression of whole
  messages), and \<open>md5_password\<close> against the MD5-crypt scheme it implements.
\<close>

section \<open>The compression function\<close>

definition F :: "u32 \<Rightarrow> u32 \<Rightarrow> u32 \<Rightarrow> u32" where "F x y z = (x AND y) OR (NOT x AND z)"
definition G :: "u32 \<Rightarrow> u32 \<Rightarrow> u32 \<Rightarrow> u32" where "G x y z = (x AND z) OR (y AND NOT z)"
definition H :: "u32 \<Rightarrow> u32 \<Rightarrow> u32 \<Rightarrow> u32" where "H x y z = x XOR y XOR z"
definition I :: "u32 \<Rightarrow> u32 \<Rightarrow> u32 \<Rightarrow> u32" where "I x y z = y XOR (x OR NOT z)"

definition ROTATE_LEFT :: "u32 \<Rightarrow> nat \<Rightarrow> u32" where
  "ROTATE_LEFT x n = push_bit n x OR drop_bit (32 - n) x"

type_synonym md5_state = "u32 \<times> u32 \<times> u32 \<times> u32"

definition initstate :: md5_state where
  "initstate = (0x67452301, 0xefcdab89, 0x98badcfe, 0x10325476)"

definition s1 :: "nat list" where "s1 = [7, 12, 17, 22]"
definition s2 :: "nat list" where "s2 = [5, 9, 14, 20]"
definition s3 :: "nat list" where "s3 = [4, 11, 16, 23]"
definition s4 :: "nat list" where "s4 = [6, 10, 15, 21]"

definition T :: "u32 list" where
  "T = [
    0xd76aa478, 0xe8c7b756, 0x242070db, 0xc1bdceee,
    0xf57c0faf, 0x4787c62a, 0xa8304613, 0xfd469501,
    0x698098d8, 0x8b44f7af, 0xffff5bb1, 0x895cd7be,
    0x6b901122, 0xfd987193, 0xa679438e, 0x49b40821,
    0xf61e2562, 0xc040b340, 0x265e5a51, 0xe9b6c7aa,
    0xd62f105d, 0x02441453, 0xd8a1e681, 0xe7d3fbc8,
    0x21e1cde6, 0xc33707d6, 0xf4d50d87, 0x455a14ed,
    0xa9e3e905, 0xfcefa3f8, 0x676f02d9, 0x8d2a4c8a,
    0xfffa3942, 0x8771f681, 0x6d9d6122, 0xfde5380c,
    0xa4beea44, 0x4bdecfa9, 0xf6bb4b60, 0xbebfbc70,
    0x289b7ec6, 0xeaa127fa, 0xd4ef3085, 0x04881d05,
    0xd9d4d039, 0xe6db99e5, 0x1fa27cf8, 0xc4ac5665,
    0xf4292244, 0x432aff97, 0xab9423a7, 0xfc93a039,
    0x655b59c3, 0x8f0ccc92, 0xffeff47d, 0x85845dd1,
    0x6fa87e4f, 0xfe2ce6e0, 0xa3014314, 0x4e0811a1,
    0xf7537e82, 0xbd3af235, 0x2ad7d2bb, 0xeb86d391]"

text \<open>The words of a block.\<close>

definition block_word :: "u8 list \<Rightarrow> nat \<Rightarrow> u32" where
  "block_word b k = le32 (b ! (4 * k)) (b ! (4 * k + 1)) (b ! (4 * k + 2)) (b ! (4 * k + 3))"

text \<open>The body of the four loops, and a loop from \<open>i\<close> with index \<open>j\<close> advancing by \<open>dj\<close>.\<close>

definition md5_step :: "(u32 \<Rightarrow> u32 \<Rightarrow> u32 \<Rightarrow> u32) \<Rightarrow> u32 \<Rightarrow> u32 \<Rightarrow> nat \<Rightarrow> md5_state \<Rightarrow> md5_state" where
  "md5_step f x t s = (\<lambda>(a, b, c, d).
     let tmp = a + f b c d + x + t; tmp = ROTATE_LEFT tmp s; tmp = tmp + b in (d, tmp, b, c))"

function md5_loop :: "(u32 \<Rightarrow> u32 \<Rightarrow> u32 \<Rightarrow> u32) \<Rightarrow> nat list \<Rightarrow> nat \<Rightarrow> nat \<Rightarrow> u8 list \<Rightarrow> nat \<Rightarrow> nat \<Rightarrow> md5_state \<Rightarrow> md5_state" where
  "md5_loop f s off dj b i j st =
     (if i < 16 then md5_loop f s off dj b (i + 1) (j + dj)
        (md5_step f (block_word b (j AND 15)) (T ! (i + off)) (s ! (i AND 3)) st)
      else st)"
  by pat_completeness auto
termination
  by (relation "measure (\<lambda>(f, s, off, dj, b, i, j, st). 16 - i)") auto

declare md5_loop.simps [simp del]

definition add_state :: "md5_state \<Rightarrow> md5_state \<Rightarrow> md5_state" where
  "add_state = (\<lambda>(a, b, c, d) (a', b', c', d'). (a + a', b + b', c + c', d + d'))"

definition md5_transform :: "md5_state \<Rightarrow> u8 list \<Rightarrow> md5_state" where
  "md5_transform st block =
     (let r1 = md5_loop F s1 0 1 block 0 0 st;
          r2 = md5_loop G s2 16 5 block 0 1 r1;
          r3 = md5_loop H s3 32 3 block 0 5 r2;
          r4 = md5_loop I s4 48 7 block 0 0 r3
      in add_state st r4)"

section \<open>The stream\<close>

record md5_ctx =
  state :: md5_state
  len :: u32
  buffer :: "u8 list"

definition md5_init :: "md5_ctx \<Rightarrow> md5_ctx" where
  "md5_init c = c\<lparr>state := initstate, len := 0\<rparr>"

function update_loop :: "md5_state \<Rightarrow> u8 list \<Rightarrow> md5_state \<times> u8 list" where
  "update_loop st input =
     (if length input \<ge> 64 then update_loop (md5_transform st (take 64 input)) (drop 64 input)
      else (st, input))"
  by pat_completeness auto
termination
  by (relation "measure (\<lambda>(st, input). length input)") auto

declare update_loop.simps [simp del]

definition md5_update :: "u8 list \<Rightarrow> md5_ctx \<Rightarrow> md5_ctx" where
  "md5_update input c =
     (let buflen = unat (len c AND 63);
          c1 = c\<lparr>len := len c + of_nat (length input)\<rparr>
      in if buflen + length input < 64 then c1\<lparr>buffer := blit (buffer c1) buflen input\<rparr>
         else let b1 = blit (buffer c1) buflen (take (64 - buflen) input);
                  st1 = md5_transform (state c1) b1;
                  (st2, rest) = update_loop st1 (drop (64 - buflen) input)
              in c1\<lparr>state := st2, buffer := blit b1 0 rest\<rparr>)"

text \<open>The result of \<open>md5_final\<close> is a pointer to \<open>state\<close>: its sixteen bytes.\<close>

definition state_bytes :: "md5_state \<Rightarrow> u8 list" where
  "state_bytes = (\<lambda>(a, b, c, d). bytes32 a @ bytes32 b @ bytes32 c @ bytes32 d)"

definition md5_final :: "md5_ctx \<Rightarrow> md5_ctx" where
  "md5_final c =
     (let buflen = unat (len c AND 63);
          b1 = (buffer c)[buflen := 0x80];
          b2 = blit b1 (buflen + 1) (replicate (64 - (buflen + 1)) 0);
          (st3, b3) = (if buflen + 1 > 56 then (md5_transform (state c) b2, blit b2 0 (replicate 64 0))
                       else (state c, b2));
          b4 = blit b3 56 (bytes32 (8 * len c));
          b5 = blit b4 60 (bytes32 0)
      in c\<lparr>state := md5_transform st3 b5, buffer := b5\<rparr>)"

section \<open>RFC 1321\<close>

text \<open>Steps 0 to 63 as the RFC numbers them: function, word index, rotation and constant of step \<open>i\<close>.\<close>

definition rfc_fun :: "nat \<Rightarrow> u32 \<Rightarrow> u32 \<Rightarrow> u32 \<Rightarrow> u32" where
  "rfc_fun i = (if i < 16 then F else if i < 32 then G else if i < 48 then H else I)"

definition rfc_index :: "nat \<Rightarrow> nat" where
  "rfc_index i = (if i < 16 then i else if i < 32 then (5 * i + 1) mod 16
     else if i < 48 then (3 * i + 5) mod 16 else 7 * i mod 16)"

definition rfc_shift :: "nat \<Rightarrow> nat" where
  "rfc_shift i = [7, 12, 17, 22, 5, 9, 14, 20, 4, 11, 16, 23, 6, 10, 15, 21] ! (4 * (i div 16) + i mod 4)"

definition rfc_step :: "u8 list \<Rightarrow> nat \<Rightarrow> md5_state \<Rightarrow> md5_state" where
  "rfc_step b i = (\<lambda>(A, B, C, D).
     (D, B + word_rotl (rfc_shift i) (A + rfc_fun i B C D + block_word b (rfc_index i) + T ! i), B, C))"

definition rfc_compress :: "md5_state \<Rightarrow> u8 list \<Rightarrow> md5_state" where
  "rfc_compress st b = add_state st (fold (rfc_step b) [0..<64] st)"

text \<open>Padding to a multiple of 64 bytes with the length in bits at the end.\<close>

definition md5_pad :: "u8 list \<Rightarrow> u8 list" where
  "md5_pad m = m @ 0x80 # replicate ((119 - length m mod 64) mod 64) 0
     @ bytes32 (of_nat (8 * length m)) @ bytes32 (of_nat (8 * length m div 2 ^ 32))"

function blocks :: "u8 list \<Rightarrow> u8 list list" where
  "blocks m = (if length m < 64 then [] else take 64 m # blocks (drop 64 m))"
  by pat_completeness auto
termination
  by (relation "measure length") auto

declare blocks.simps [simp del]

definition rfc_md5 :: "u8 list \<Rightarrow> u8 list" where
  "rfc_md5 m = state_bytes (foldl rfc_compress initstate (blocks (md5_pad m)))"

lemma ROTATE_LEFT_rotl:
  assumes "0 < n" "n < 32"
  shows "ROTATE_LEFT x n = word_rotl n x"
proof (rule bit_word_eqI)
  fix i assume i: "i < LENGTH(32)"
  show "bit (ROTATE_LEFT x n) i = bit (word_rotl n x) i"
  proof (cases "n \<le> i")
    case True
    then have e: "i + 32 - n = 32 + (i - n)" by simp
    have "(i + 32 - n) mod 32 = i - n" unfolding e using i by (simp only: mod_add_self1) simp
    then show ?thesis using True i assms bit_imp_le_length [of x "32 - n + i"]
      by (auto simp: ROTATE_LEFT_def bit_simps)
  next
    case False
    then have "i + 32 - n = 32 - n + i" "32 - n + i < 32" using assms by simp_all
    then show ?thesis using False i assms by (auto simp: ROTATE_LEFT_def bit_simps)
  qed
qed

lemma md5_loop_fold:
  assumes "i \<le> 16"
  shows "md5_loop f s off dj b i (j0 + dj * i) st =
    fold (\<lambda>i. md5_step f (block_word b ((j0 + dj * i) AND 15)) (T ! (i + off)) (s ! (i AND 3))) [i..<16] st"
  using assms
proof (induction "16 - i" arbitrary: i st)
  case 0
  then show ?case by (subst md5_loop.simps) simp
next
  case (Suc n)
  then have i: "i < 16" by simp
  have "md5_loop f s off dj b i (j0 + dj * i) st =
      md5_loop f s off dj b (Suc i) (j0 + dj * Suc i)
        (md5_step f (block_word b ((j0 + dj * i) AND 15)) (T ! (i + off)) (s ! (i AND 3)) st)"
    using i by (subst md5_loop.simps) (simp add: algebra_simps)
  also have "\<dots> = fold (\<lambda>i. md5_step f (block_word b ((j0 + dj * i) AND 15)) (T ! (i + off)) (s ! (i AND 3)))
      [Suc i..<16] (md5_step f (block_word b ((j0 + dj * i) AND 15)) (T ! (i + off)) (s ! (i AND 3)) st)"
    using Suc by (intro Suc.hyps(1)) auto
  finally show ?case using i by (simp add: upt_conv_Cons)
qed

lemma and_15: "n AND 15 = (n mod 16 :: nat)"
  using take_bit_eq_mask [of 4 n] by (simp add: take_bit_eq_mod mask_eq_exp_minus_1)

lemma and_3: "n AND 3 = (n mod 4 :: nat)"
  using take_bit_eq_mask [of 2 n] by (simp add: take_bit_eq_mod mask_eq_exp_minus_1)

lemma fold_shift: "fold f [k..<k + n] st = fold (\<lambda>i. f (k + i)) [0..<n] st"
  by (induction n) auto

lemma md5_step_rfc:
  assumes "i < 64" "f = rfc_fun i" "k = rfc_index i" "s = rfc_shift i"
  shows "md5_step f (block_word b k) (T ! i) s = rfc_step b i"
proof -
  have "list_all (\<lambda>i. 0 < rfc_shift i \<and> rfc_shift i < 32) [0..<64]" by code_simp
  then have "0 < s" "s < 32" using assms by (auto simp: list_all_iff)
  then show ?thesis
    by (auto simp: md5_step_def rfc_step_def Let_def ROTATE_LEFT_rotl assms(2-4) [symmetric] add.commute fun_eq_iff)
qed

lemma md5_transform_rfc: "md5_transform st b = rfc_compress st b"
proof -
  have loop: "md5_loop f s off dj b 0 j0 st = fold (rfc_step b) [off..<off + 16] st"
    if "list_all (\<lambda>i. off + i < 64 \<and> (j0 + dj * i) mod 16 = rfc_index (off + i) \<and> s ! (i mod 4) = rfc_shift (off + i)) [0..<16]"
      "\<And>i. i < 16 \<Longrightarrow> f = rfc_fun (off + i)" for f s off dj j0 st
  proof -
    have "md5_loop f s off dj b 0 j0 st =
        fold (\<lambda>i. md5_step f (block_word b ((j0 + dj * i) mod 16)) (T ! (i + off)) (s ! (i mod 4))) [0..<16] st"
      using md5_loop_fold [of 0 f s off dj b j0 st] by (simp add: and_15 and_3)
    also have "\<dots> = fold (\<lambda>i. rfc_step b (off + i)) [0..<16] st"
      by (rule fold_cong) (use that in \<open>auto simp: list_all_iff add.commute [of _ off] intro!: md5_step_rfc\<close>)
    finally show ?thesis by (simp only: fold_shift)
  qed
  have 1: "md5_loop F s1 0 1 b 0 0 st = fold (rfc_step b) [0..<0 + 16] st" for st
    by (rule loop) (code_simp, simp add: rfc_fun_def)
  have 2: "md5_loop G s2 16 5 b 0 1 st = fold (rfc_step b) [16..<16 + 16] st" for st
    by (rule loop) (code_simp, simp add: rfc_fun_def)
  have 3: "md5_loop H s3 32 3 b 0 5 st = fold (rfc_step b) [32..<32 + 16] st" for st
    by (rule loop) (code_simp, simp add: rfc_fun_def)
  have 4: "md5_loop I s4 48 7 b 0 0 st = fold (rfc_step b) [48..<48 + 16] st" for st
    by (rule loop) (code_simp, simp add: rfc_fun_def)
  have u: "[0..<64] = [0..<0 + 16] @ [16..<16 + 16] @ [32..<32 + 16] @ [48..<48 + 16 :: nat]" by code_simp
  show ?thesis unfolding md5_transform_def rfc_compress_def Let_def 1 2 3 4 u by simp
qed


section \<open>The stream against whole messages\<close>

text \<open>An interface of a streaming hash: the messages a context stands for.\<close>

locale hash_stream =
  fixes init :: "'c \<Rightarrow> 'c" and update :: "u8 list \<Rightarrow> 'c \<Rightarrow> 'c" and digest :: "'c \<Rightarrow> u8 list"
    and wf :: "'c \<Rightarrow> bool" and holds_msg :: "'c \<Rightarrow> u8 list \<Rightarrow> bool" and hash :: "u8 list \<Rightarrow> u8 list" and bound :: nat
  assumes init_msg: "wf c \<Longrightarrow> holds_msg (init c) []"
    and update_msg: "holds_msg c m \<Longrightarrow> holds_msg (update x c) (m @ x)"
    and digest_msg: "holds_msg c m \<Longrightarrow> length m < bound \<Longrightarrow> digest c = hash m"
begin

text \<open>Any way of cutting a message into pieces gives its hash.\<close>

lemma updates_msg: "holds_msg c m \<Longrightarrow> holds_msg (fold update xs c) (m @ concat xs)"
proof (induction xs arbitrary: c m)
  case (Cons x xs)
  then show ?case using Cons.IH [OF update_msg [OF Cons.prems, of x]] by simp
qed simp

lemma digest_pieces:
  assumes "wf c" "length (concat xs) < bound"
  shows "digest (fold update xs (init c)) = hash (concat xs)"
  using digest_msg [OF updates_msg [OF init_msg [OF assms(1)], of xs]] assms(2) by simp

end

definition md5_wf :: "md5_ctx \<Rightarrow> bool" where
  "md5_wf c \<longleftrightarrow> length (buffer c) = 64"

definition md5_holds :: "md5_ctx \<Rightarrow> u8 list \<Rightarrow> bool" where
  "md5_holds c m \<longleftrightarrow> length (buffer c) = 64 \<and> len c = of_nat (length m) \<and>
     state c = foldl md5_transform initstate (blocks m) \<and>
     take (length m mod 64) (buffer c) = drop (64 * (length m div 64)) m"

lemma blocks_short [simp]: "length m < 64 \<Longrightarrow> blocks m = []"
  by (simp add: blocks.simps)

lemma blocks_long: "64 \<le> length m \<Longrightarrow> blocks m = take 64 m # blocks (drop 64 m)"
  by (subst blocks.simps) simp

lemma blocks_cons: "length a = 64 \<Longrightarrow> blocks (a @ b) = a # blocks b"
  by (subst blocks_long) auto

lemma blocks_one: "length a = 64 \<Longrightarrow> blocks a = [a]"
  using blocks_cons [of a "[]"] by simp

lemma blocks_append: "length a mod 64 = 0 \<Longrightarrow> blocks (a @ b) = blocks a @ blocks b"
proof (induction a rule: blocks.induct)
  case (1 a)
  show ?case
  proof (cases "length a < 64")
    case True
    then show ?thesis using "1.prems" by simp
  next
    case False
    then have "length (drop 64 a) mod 64 = 0" using "1.prems" by (simp add: le_mod_geq)
    then show ?thesis using 1(1) [OF False] False by (simp add: blocks_long)
  qed
qed

lemma update_loop_blocks:
  "update_loop st x = (foldl md5_transform st (blocks x), drop (64 * (length x div 64)) x)"
proof (induction st x rule: update_loop.induct)
  case (1 st x)
  show ?case
  proof (cases "64 \<le> length x")
    case True
    then have "length x div 64 = Suc ((length x - 64) div 64)" by (simp add: le_div_geq)
    then show ?thesis using 1 True by (subst update_loop.simps) (simp add: blocks_long add.commute)
  next
    case False
    then show ?thesis by (subst update_loop.simps) simp
  qed
qed

lemma and_63: "unat (x AND 63 :: u32) = unat x mod 64"
proof -
  have "x AND 63 = take_bit 6 x" by (simp add: take_bit_eq_mask mask_eq_exp_minus_1)
  then show ?thesis by (simp add: unsigned_take_bit_eq take_bit_eq_mod unat_mod)
qed

lemma buflen: "unat ((of_nat n :: u32) AND 63) = n mod 64"
proof -
  have "(64 :: nat) dvd 4294967296" by (simp add: dvd_def)
  then show ?thesis by (simp add: and_63 unat_of_nat mod_mod_cancel)
qed

lemma add64:
  assumes "n mod 64 + k < (64 :: nat)"
  shows "(n + k) mod 64 = n mod 64 + k" "(n + k) div 64 = n div 64"
proof -
  have e: "n + k = (n mod 64 + k) + 64 * (n div 64)" by simp
  show "(n + k) mod 64 = n mod 64 + k"
    by (subst e) (simp only: mod_mult_self2 mod_less [OF assms])
  have "((n mod 64 + k) + 64 * (n div 64)) div 64 = n div 64 + (n mod 64 + k) div 64"
    by (rule div_mult_self2) simp
  then show "(n + k) div 64 = n div 64" unfolding e [symmetric] div_less [OF assms] by simp
qed

lemma take_blit: "i + length s \<le> length b \<Longrightarrow> take (i + length s) (blit b i s) = take i b @ s"
  by (simp add: blit_def)

lemma drop_app: "length a = n \<Longrightarrow> drop (n + k) (a @ b) = drop k b"
  by auto

lemma blit_0: "blit b 0 s = s @ drop (length s) b"
  by (simp add: blit_def)

lemma md5_update_holds:
  assumes "md5_holds c m"
  shows "md5_holds (md5_update x c) (m @ x)"
proof -
  let ?q = "length m div 64" and ?r = "length m mod 64"
  let ?p = "take (64 * ?q) m" and ?t = "drop (64 * ?q) m"
  have lt: "length ?t = ?r" by (simp add: minus_mult_div_eq_mod)
  have lp: "length ?p = 64 * ?q" by simp
  have pm: "m = ?p @ ?t" by simp
  have bm: "blocks m = blocks ?p" using blocks_append [of ?p ?t] lt lp by simp
  have C: "length (buffer c) = 64" "len c = of_nat (length m)"
    "state c = foldl md5_transform initstate (blocks ?p)" "take ?r (buffer c) = ?t"
    using assms bm by (simp_all add: md5_holds_def)
  have bl: "unat (len c AND 63) = ?r" using C(2) buflen by simp
  have r: "?r < 64" by simp
  show ?thesis
  proof (cases "?r + length x < 64")
    case True
    have "blocks (m @ x) = blocks ?p"
    proof -
      have "blocks (?t @ x) = []" using lt True by simp
      then show ?thesis using blocks_append [of ?p "?t @ x"] lp pm by (metis append.assoc append_Nil2 mod_mult_self1_is_0)
    qed
    moreover have "take (?r + length x) (blit (buffer c) ?r x) = ?t @ x"
      using take_blit [of ?r x "buffer c"] True C(1,4) by simp
    moreover have "md5_update x c = c\<lparr>len := len c + of_nat (length x), buffer := blit (buffer c) ?r x\<rparr>"
      using True bl by (simp add: md5_update_def Let_def)
    ultimately show ?thesis using C True add64 [OF True] by (simp add: md5_holds_def)
  next
    case False
    let ?h = "take (64 - ?r) x" and ?x = "drop (64 - ?r) x"
    have lh: "length ?h = 64 - ?r" using False by simp
    have b1: "blit (buffer c) ?r ?h = ?t @ ?h"
      using take_blit [of ?r ?h "buffer c"] C(1,4) lh r by (simp add: blit_def)
    have mx: "m @ x = (?p @ ?t @ ?h) @ ?x" by simp
    have lb: "length (?p @ ?t @ ?h) = 64 * (?q + 1)" using lp lt lh r by simp
    have bx: "blocks (m @ x) = blocks ?p @ (?t @ ?h) # blocks ?x"
    proof -
      have "blocks (m @ x) = blocks (?p @ ?t @ ?h) @ blocks ?x"
        unfolding mx by (rule blocks_append) (simp only: lb mod_mult_self1_is_0)
      also have "blocks (?p @ ?t @ ?h) = blocks ?p @ blocks (?t @ ?h)"
        using blocks_append [of ?p "?t @ ?h"] lp by simp
      also have "blocks (?t @ ?h) = [?t @ ?h]"
        using lt lh r by (subst blocks_long) auto
      finally show ?thesis by simp
    qed
    have l2: "length (m @ x) = 64 * (?q + 1) + length ?x" using lb mx by (metis length_append)
    have md: "length (m @ x) mod 64 = length ?x mod 64" "length (m @ x) div 64 = ?q + 1 + length ?x div 64"
      unfolding l2 by (rule mod_mult_self4, rule div_mult_self4) simp
    let ?rest = "drop (64 * (length ?x div 64)) ?x"
    have lr: "length ?rest = length ?x mod 64" by (simp only: length_drop [of _ ?x] minus_mult_div_eq_mod)
    have dr: "drop (64 * (length (m @ x) div 64)) (m @ x) = ?rest"
    proof -
      have "drop (64 * (length (m @ x) div 64)) (m @ x) =
          drop (64 * (?q + 1) + 64 * (length ?x div 64)) ((?p @ ?t @ ?h) @ ?x)"
        unfolding md(2) mx [symmetric] by (simp add: algebra_simps)
      also have "\<dots> = ?rest" by (rule drop_app [OF lb])
      finally show ?thesis .
    qed
    have bf: "blit (?t @ ?h) 0 ?rest = ?rest @ drop (length ?rest) (?t @ ?h)" by (rule blit_0)
    have u: "md5_update x c = c\<lparr>len := len c + of_nat (length x),
        state := foldl md5_transform initstate (blocks (m @ x)), buffer := blit (?t @ ?h) 0 ?rest\<rparr>"
      unfolding md5_update_def Let_def bl
      using False b1 bx C(3) by (simp add: update_loop_blocks)
    have lbf: "length (blit (?t @ ?h) 0 ?rest) = 64"
      using lt lh r lr by (subst length_blit) auto
    have "take (length (m @ x) mod 64) (blit (?t @ ?h) 0 ?rest) = ?rest"
      unfolding bf md(1) lr [symmetric] by simp
    then show ?thesis
      unfolding u md5_holds_def using lbf dr C(2) by simp
  qed
qed


definition md5_digest :: "md5_ctx \<Rightarrow> u8 list" where
  "md5_digest c = state_bytes (state (md5_final c))"

lemma foldl_transform: "foldl md5_transform = foldl rfc_compress"
  by (simp add: md5_transform_rfc [abs_def])

lemma blit_tail: "length a = 56 \<Longrightarrow>
  blit (blit (a @ replicate 8 0) 56 (bytes32 w)) 60 (bytes32 0) = a @ bytes32 w @ bytes32 0"
  by (simp add: blit_def)

lemma md5_final_digest:
  assumes "md5_holds c m" "length m < 2 ^ 29"
  shows "md5_digest c = rfc_md5 m"
proof -
  let ?q = "length m div 64" and ?r = "length m mod 64"
  let ?p = "take (64 * ?q) m" and ?t = "drop (64 * ?q) m"
  let ?len = "bytes32 (of_nat (8 * length m)) @ bytes32 0"
  have lt: "length ?t = ?r" by (simp add: minus_mult_div_eq_mod)
  have lp: "length ?p mod 64 = 0" by simp
  have pm: "m = ?p @ ?t" by simp
  have r: "?r < 64" by simp
  have bm: "blocks m = blocks ?p" using blocks_append [OF lp, of ?t] lt by simp
  have C: "length (buffer c) = 64" "len c = of_nat (length m)"
    "state c = foldl md5_transform initstate (blocks ?p)" "take ?r (buffer c) = ?t"
    using assms(1) bm by (simp_all add: md5_holds_def)
  have hi: "of_nat (8 * length m div 2 ^ 32) = (0 :: u32)" using assms(2) by simp
  have bl: "unat (len c AND 63) = ?r" using C(2) buflen by simp
  have l8: "8 * len c = of_nat (8 * length m)" using C(2) by simp
  let ?z = "64 - (?r + 1)"
  have b1: "take (?r + 1) ((buffer c)[?r := 0x80]) = ?t @ [0x80]"
    using C(1,4) r by (simp add: take_Suc_conv_app_nth)
  have b2: "blit ((buffer c)[?r := 0x80]) (?r + 1) (replicate ?z 0) = ?t @ 0x80 # replicate ?z 0"
    using b1 C(1) r by (simp add: blit_def)
  have pad: "blocks (md5_pad m) = blocks ?p @ blocks (?t @ 0x80 # replicate ((119 - ?r) mod 64) 0 @ ?len)"
    unfolding md5_pad_def hi by (subst pm) (simp only: append_assoc blocks_append [OF lp])
  have st: "state (md5_final c) = foldl md5_transform initstate (blocks (md5_pad m))"
  proof (cases "?r + 1 > 56")
    case True
    have n: "(119 - ?r) mod 64 = 119 - ?r" using True by simp
    have s: "0x80 # replicate (119 - ?r) 0 @ ?len = (0x80 # replicate ?z 0) @ replicate 56 0 @ ?len"
    proof -
      have e: "119 - ?r = ?z + 56" using r by simp
      show ?thesis by (simp only: e replicate_add append_Cons append_assoc)
    qed
    have l1: "length (?t @ 0x80 # replicate ?z 0) = 64" using lt r by simp
    have "blocks (?t @ 0x80 # replicate (119 - ?r) 0 @ ?len) =
        [?t @ 0x80 # replicate ?z 0, replicate 56 0 @ ?len]"
    proof -
      have e: "?t @ 0x80 # replicate (119 - ?r) 0 @ ?len = (?t @ 0x80 # replicate ?z 0) @ (replicate 56 0 @ ?len)"
        by (simp only: s append_assoc)
      have "length (replicate 56 0 @ ?len) = 64" by simp
      then show ?thesis by (simp only: e blocks_cons [OF l1] blocks_one)
    qed
    moreover have "blit (?t @ 0x80 # replicate ?z 0) 0 (replicate 64 0) = replicate 64 0"
      by (simp only: blit_0 length_replicate l1 drop_all order_refl append_Nil2)
    moreover have "blit (blit (replicate 64 0) 56 (bytes32 w)) 60 (bytes32 0) = replicate 56 0 @ bytes32 w @ bytes32 0" for w
    proof -
      have "replicate 64 (0 :: u8) = replicate 56 0 @ replicate 8 0" by (simp flip: replicate_add)
      then show ?thesis by (simp add: blit_def)
    qed
    ultimately show ?thesis
      using True C(3) pad n b2
      by (simp add: md5_final_def Let_def bl l8)
  next
    case False
    have n: "(119 - ?r) mod 64 = 55 - ?r"
    proof -
      have e: "119 - ?r = 64 + (55 - ?r)" using False by simp
      show ?thesis unfolding e mod_add_self1 by simp
    qed
    have b4: "blit (blit (?t @ 0x80 # replicate ?z 0) 56 (bytes32 (of_nat (8 * length m)))) 60 (bytes32 0) =
        ?t @ 0x80 # replicate (55 - ?r) 0 @ ?len"
    proof -
      have e: "?z = (55 - ?r) + 8" using False by simp
      have s: "?t @ 0x80 # replicate ?z 0 = (?t @ 0x80 # replicate (55 - ?r) 0) @ replicate 8 0"
        by (simp only: e replicate_add append_assoc append_Cons)
      have "length (?t @ 0x80 # replicate (55 - ?r) 0) = 56" using lt False by simp
      from blit_tail [OF this] show ?thesis unfolding s by (simp only: append_assoc append_Cons)
    qed
    have "blocks (?t @ 0x80 # replicate (55 - ?r) 0 @ ?len) = [?t @ 0x80 # replicate (55 - ?r) 0 @ ?len]"
      using lt False by (subst blocks_long) simp_all
    then show ?thesis
      using False C(3) pad n b2 b4
      by (simp add: md5_final_def Let_def bl l8)
  qed
  show ?thesis by (simp add: md5_digest_def rfc_md5_def st foldl_transform)
qed

interpretation md5: hash_stream md5_init md5_update md5_digest md5_wf md5_holds rfc_md5 "2 ^ 29"
proof unfold_locales
  show "md5_holds (md5_init c) []" if "md5_wf c" for c
    using that by (simp add: md5_holds_def md5_init_def md5_wf_def)
  show "md5_holds (md5_update x c) (m @ x)" if "md5_holds c m" for c m x
    using md5_update_holds [OF that] .
  show "md5_digest c = rfc_md5 m" if "md5_holds c m" "length m < 2 ^ 29" for c m
    using md5_final_digest [OF that] .
qed


section \<open>Passwords\<close>

definition b64t :: "u8 list" where
  "b64t = cs ''./0123456789ABCDEFGHIJKLMNOPQRSTUVWXYZabcdefghijklmnopqrstuvwxyz''"

text \<open>The loops that feed \<open>alt_result\<close> and the bits of the key length.\<close>

function alt_loop :: "nat \<Rightarrow> u8 list \<Rightarrow> md5_ctx \<Rightarrow> md5_ctx" where
  "alt_loop i alt c = (if i > 16 then alt_loop (i - 16) alt (md5_update alt c) else md5_update (take i alt) c)"
  by pat_completeness auto
termination
  by (relation "measure (\<lambda>(i, alt, c). i)") auto

function bit_loop :: "cbuf \<Rightarrow> nat \<Rightarrow> nat \<Rightarrow> md5_ctx \<Rightarrow> md5_ctx option" where
  "bit_loop key keylen i c =
     (if i > 0 then do { x \<leftarrow> rd key (if odd i then keylen else 0); bit_loop key keylen (i div 2) (md5_update [x] c) }
      else Some c)"
  by pat_completeness auto
termination
  by (relation "measure (\<lambda>(key, keylen, i, c). i)") auto

declare alt_loop.simps [simp del] bit_loop.simps [simp del]

text \<open>One of the thousand rounds; the digest of the previous one is still in \<open>state\<close>.\<close>

definition crypt_round :: "u8 list \<Rightarrow> u8 list \<Rightarrow> nat \<Rightarrow> md5_ctx \<Rightarrow> md5_ctx" where
  "crypt_round key salt i c =
     (let alt_result = state_bytes (state c);
          c0 = c\<lparr>state := initstate, len := 0\<rparr>;
          c1 = (if odd i then md5_update key c0 else md5_update alt_result c0);
          c2 = (if i mod 3 \<noteq> 0 then md5_update salt c1 else c1);
          c3 = (if i mod 7 \<noteq> 0 then md5_update key c2 else c2);
          c4 = (if odd i then md5_update alt_result c3 else md5_update key c3)
      in md5_final c4)"

text \<open>The base-64 output: store or compare; \<open>Inl\<close> is the \<open>return 1\<close> of a mismatch.\<close>

fun put64 :: "bool \<Rightarrow> nat \<Rightarrow> u32 \<Rightarrow> nat \<Rightarrow> cbuf \<Rightarrow> (int + nat \<times> cbuf) option" where
  "put64 check 0 w p b = Some (Inr (p, b))"
| "put64 check (Suc n) w p b =
     (let x = b64t ! unat (w AND 0x3f)
      in if check then do { y \<leftarrow> rd b p; if y \<noteq> x then Some (Inl 1) else put64 check n (drop_bit 6 w) (p + 1) b }
         else do { b' \<leftarrow> wr b p x; put64 check n (drop_bit 6 w) (p + 1) b' })"

definition digest_word :: "u8 list \<Rightarrow> nat \<Rightarrow> u32" where
  "digest_word d i = ucast (d ! (if i = 4 then 5 else 12 + i)) OR push_bit 8 (ucast (d ! (6 + i)))
     OR push_bit 16 (ucast (d ! i))"

function put_words :: "bool \<Rightarrow> u8 list \<Rightarrow> nat \<Rightarrow> nat \<Rightarrow> cbuf \<Rightarrow> (int + nat \<times> cbuf) option" where
  "put_words check d i p b =
     (if i < 5 then do { r \<leftarrow> put64 check 4 (digest_word d i) p b;
        case r of Inl e \<Rightarrow> Some (Inl e) | Inr (p', b') \<Rightarrow> put_words check d (i + 1) p' b' }
      else put64 check 2 (ucast (d ! 11)) p b)"
  by pat_completeness auto
termination
  by (relation "measure (\<lambda>(check, d, i, p, b). 5 - i)") auto

declare put_words.simps [simp del]

text \<open>
  \<open>md5_password\<close>: the returned value, the buffer \<open>crypted\<close> and the statics.  When a stored password
  has no dollar sign after its header the code subtracts from \<open>NULL\<close>: \<open>None\<close>.
\<close>

definition md5_password :: "cbuf \<Rightarrow> cbuf \<Rightarrow> bool \<Rightarrow> md5_ctx \<Rightarrow> (int \<times> cbuf \<times> md5_ctx) option" where
  "md5_password key crypted check c =
     do { keylen \<leftarrow> grub_strlen key 0;
          k \<leftarrow> slice key 0 keylen;
          r \<leftarrow> (if check then
                  do { n \<leftarrow> grub_strlen crypted 0;
                       if n \<le> 3 then Some (Inl 1)
                       else do { e \<leftarrow> grub_strstr crypted 3 (cs ''$'' @ [0]) 0;
                                 case e of None \<Rightarrow> None | Some q \<Rightarrow> Some (Inr (q - 3, crypted)) } }
                else
                  do { e \<leftarrow> grub_strstr crypted 3 (cs ''$'' @ [0]) 0;
                       let saltlen = (case e of Some q \<Rightarrow> if q - 3 < 8 then q - 3 else 8 | None \<Rightarrow> 8);
                       b \<leftarrow> wr crypted (3 + saltlen) (ch CHR ''$'');
                       Some (Inr (saltlen, b)) });
          case r of Inl v \<Rightarrow> Some (v, crypted, c)
          | Inr (saltlen, b) \<Rightarrow>
            do { salt \<leftarrow> slice b 3 saltlen;
                 header \<leftarrow> slice b 0 (3 + saltlen);
                 let c1 = md5_final (md5_update k (md5_update salt (md5_update k (md5_init c))));
                 let alt_result = state_bytes (state c1);
                 let c2 = md5_update header (md5_update k (c1\<lparr>state := initstate, len := 0\<rparr>));
                 let c3 = alt_loop keylen alt_result c2;
                 c4 \<leftarrow> bit_loop key keylen keylen c3;
                 let c5 = fold (crypt_round k salt) [0..<1000] (md5_final c4);
                 o' \<leftarrow> put_words check (state_bytes (state c5)) 0 (3 + saltlen + 1) b;
                 case o' of Inl v \<Rightarrow> Some (v, b, c5)
                 | Inr (p, b1) \<Rightarrow>
                   do { b2 \<leftarrow> (if check then Some b1 else wr b1 p 0);
                        x \<leftarrow> rd b2 p;
                        Some (sint x, b2, c5) } } }"

section \<open>The password scheme\<close>

text \<open>MD5-crypt over a hash on whole messages: key \<open>k\<close>, salt \<open>s\<close>, header \<open>h\<close>.\<close>

definition stretch :: "nat \<Rightarrow> u8 list \<Rightarrow> u8 list" where
  "stretch n alt = take n (concat (replicate (n div 16 + 1) alt))"

function key_bits :: "u8 list \<Rightarrow> nat \<Rightarrow> u8 list" where
  "key_bits k i = (if i > 0 then (if odd i then 0 else k ! 0) # key_bits k (i div 2) else [])"
  by pat_completeness auto
termination
  by (relation "measure (\<lambda>(k, i). i)") auto

declare key_bits.simps [simp del]

definition round_msg :: "u8 list \<Rightarrow> u8 list \<Rightarrow> nat \<Rightarrow> u8 list \<Rightarrow> u8 list" where
  "round_msg k s i d =
     (if odd i then k else d) @ (if i mod 3 \<noteq> 0 then s else []) @ (if i mod 7 \<noteq> 0 then k else [])
      @ (if odd i then d else k)"

definition md5_crypt :: "u8 list \<Rightarrow> u8 list \<Rightarrow> u8 list \<Rightarrow> u8 list" where
  "md5_crypt k s h =
     fold (\<lambda>i d. rfc_md5 (round_msg k s i d)) [0..<1000]
       (rfc_md5 (k @ h @ stretch (length k) (rfc_md5 (k @ s @ k)) @ key_bits k (length k)))"

definition enc64 :: "nat \<Rightarrow> u32 \<Rightarrow> u8 list" where
  "enc64 n w = map (\<lambda>k. b64t ! unat (drop_bit (6 * k) w AND 0x3f)) [0..<n]"

definition crypt_text :: "u8 list \<Rightarrow> u8 list" where
  "crypt_text d = concat (map (\<lambda>i. enc64 4 (digest_word d i)) [0..<5]) @ enc64 2 (ucast (d ! 11))"

lemma enc64_Suc: "enc64 (Suc n) w = b64t ! unat (w AND 0x3f) # enc64 n (drop_bit 6 w)"
  by (simp add: enc64_def upt_conv_Cons map_Suc_upt [symmetric] comp_def drop_bit_drop_bit add.commute del: upt_Suc map_Suc_upt)

lemma enc64_0 [simp]: "enc64 0 w = []"
  by (simp add: enc64_def)

lemma length_enc64 [simp]: "length (enc64 n w) = n"
  by (simp add: enc64_def)

lemma length_crypt_text [simp]: "length (crypt_text d) = 22"
  by (simp add: crypt_text_def upt_rec)

lemma b64t_nz: "k < 64 \<Longrightarrow> b64t ! k \<noteq> 0"
proof -
  have "list_all (\<lambda>k. b64t ! k \<noteq> 0) [0..<64]" by code_simp
  then show "k < 64 \<Longrightarrow> b64t ! k \<noteq> 0" by (simp add: list_all_iff)
qed

lemma and_3f_less: "unat (w AND 0x3f :: u32) < 64"
  using and_63 [of w] by simp

lemma enc64_nz: "0 \<notin> set (enc64 n w)"
  using b64t_nz [OF and_3f_less] by (force simp: enc64_def)

lemma crypt_text_nz: "0 \<notin> set (crypt_text d)"
  using enc64_nz by (auto simp: crypt_text_def)

text \<open>The output loops, storing and comparing.\<close>

lemma put64_store:
  "p + n \<le> length b \<Longrightarrow> put64 False n w p b = Some (Inr (p + n, blit b p (enc64 n w)))"
proof (induction n arbitrary: w p b)
  case (Suc n)
  then show ?case by (simp add: enc64_Suc Let_def blit_Cons)
qed simp

lemma put64_check:
  "p + n \<le> length b \<Longrightarrow> put64 True n w p b =
     Some (if take n (drop p b) = enc64 n w then Inr (p + n, b) else Inl 1)"
proof (induction n arbitrary: w p)
  case (Suc n)
  have "drop p b = b ! p # drop (Suc p) b" using Suc.prems by (simp add: Cons_nth_drop_Suc)
  then show ?case using Suc by (auto simp: enc64_Suc Let_def)
qed simp

lemma put64_check_safe:
  "str_of b p = Some t \<Longrightarrow> length t < n \<Longrightarrow> put64 True n w p b = Some (Inl 1)"
proof (induction n arbitrary: w p t)
  case (Suc n)
  have nz: "b64t ! unat (w AND 0x3f) \<noteq> 0" using b64t_nz [OF and_3f_less] .
  show ?case
  proof (cases t)
    case Nil
    then show ?thesis using Suc.prems nz by (auto simp: str_of_Nil_iff Let_def)
  next
    case (Cons x t')
    then have r: "rd b p = Some x" "str_of b (p + 1) = Some t'" using Suc.prems by (simp_all add: str_of_Cons_iff)
    then show ?thesis using Suc.IH [OF r(2)] Suc.prems Cons by (simp add: Let_def)
  qed
qed simp

definition words_from :: "u8 list \<Rightarrow> nat \<Rightarrow> u8 list" where
  "words_from d i = concat (map (\<lambda>i. enc64 4 (digest_word d i)) [i..<5]) @ enc64 2 (ucast (d ! 11))"

lemma words_from_Suc: "i < 5 \<Longrightarrow> words_from d i = enc64 4 (digest_word d i) @ words_from d (i + 1)"
  by (simp add: words_from_def upt_conv_Cons)

lemma words_from_5: "words_from d 5 = enc64 2 (ucast (d ! 11))"
  by (simp add: words_from_def)

lemma length_words_from: "i \<le> 5 \<Longrightarrow> length (words_from d i) = 22 - 4 * i"
proof (induction "5 - i" arbitrary: i)
  case 0
  then have "i = 5" by simp
  then show ?case by (simp add: words_from_5)
next
  case (Suc n)
  then have "i < 5" by simp
  then show ?case using Suc.hyps(1) [of "i + 1"] Suc.hyps(2) by (simp add: words_from_Suc)
qed

lemma blit_blit: "p + length s + length t \<le> length b \<Longrightarrow>
  blit (blit b p s) (p + length s) t = blit b p (s @ t)"
  by (simp add: blit_def ac_simps)

lemma put_words_store:
  "i \<le> 5 \<Longrightarrow> p + length (words_from d i) \<le> length b \<Longrightarrow>
    put_words False d i p b = Some (Inr (p + length (words_from d i), blit b p (words_from d i)))"
proof (induction "5 - i" arbitrary: i p b)
  case 0
  then have "i = 5" by simp
  then show ?case using 0 put64_store [of p 2 b] by (subst put_words.simps) (simp add: words_from_5)
next
  case (Suc n)
  then have i: "i < 5" by simp
  have l: "p + 4 + length (words_from d (i + 1)) \<le> length b"
    using Suc.prems i by (simp add: words_from_Suc)
  let ?b = "blit b p (enc64 4 (digest_word d i))"
  have "put_words False d i p b = put_words False d (i + 1) (p + 4) ?b"
    using i l put64_store [of p 4 b "digest_word d i"] by (subst put_words.simps) simp
  also have "\<dots> = Some (Inr (p + 4 + length (words_from d (i + 1)), blit ?b (p + 4) (words_from d (i + 1))))"
    using Suc.hyps(2) i l by (intro Suc.hyps(1)) simp_all
  also have "blit ?b (p + 4) (words_from d (i + 1)) = blit b p (words_from d i)"
    using blit_blit [of p "enc64 4 (digest_word d i)" "words_from d (i + 1)" b] l i by (simp add: words_from_Suc)
  finally show ?case using i by (simp add: words_from_Suc)
qed

lemma put_words_check:
  "i \<le> 5 \<Longrightarrow> str_of b p = Some t \<Longrightarrow>
    put_words True d i p b = Some (if take (length (words_from d i)) t = words_from d i
      then Inr (p + length (words_from d i), b) else Inl 1)"
proof (induction "5 - i" arbitrary: i p t)
  case 0
  then have i: "i = 5" by simp
  have b: "p + length t < length b" "take (length t) (drop p b) = t" using 0 by (auto simp: str_of_iff)
  show ?case
  proof (cases "length t < 2")
    case True
    then show ?thesis using put64_check_safe [OF 0(3)] i
      by (subst put_words.simps) (auto simp: words_from_5 dest: arg_cong [of _ _ length])
  next
    case False
    then have "take 2 (drop p b) = take 2 t" using b by (metis linorder_not_less min.absorb1 take_take)
    then show ?thesis using put64_check [of p 2 b] b(1) False i
      by (subst put_words.simps) (simp add: words_from_5)
  qed
next
  case (Suc n)
  then have i: "i < 5" by simp
  have b: "p + length t < length b" "take (length t) (drop p b) = t" using Suc.prems by (auto simp: str_of_iff)
  show ?case
  proof (cases "length t < 4")
    case True
    then show ?thesis using put64_check_safe [OF Suc.prems(2)] i
      by (subst put_words.simps) (auto simp: words_from_Suc dest: arg_cong [of _ _ length])
  next
    case False
    then have t4: "take 4 (drop p b) = take 4 t" using b by (metis linorder_not_less min.absorb1 take_take)
    have rest: "str_of b (p + 4) = Some (drop 4 t)" using str_of_suffix [OF Suc.prems(2)] False by simp
    have IH: "put_words True d (i + 1) (p + 4) b = Some (if take (length (words_from d (i + 1))) (drop 4 t) = words_from d (i + 1)
        then Inr (p + 4 + length (words_from d (i + 1)), b) else Inl 1)"
      using Suc.hyps(2) i by (intro Suc.hyps(1) rest) simp_all
    have sp: "take (length (words_from d i)) t = words_from d i \<longleftrightarrow> take 4 t = enc64 4 (digest_word d i) \<and>
        take (length (words_from d (i + 1))) (drop 4 t) = words_from d (i + 1)"
      using i False by (simp add: words_from_Suc take_add)
    have l: "length (words_from d i) = 4 + length (words_from d (i + 1))" using i by (simp add: words_from_Suc)
    have "put64 True 4 (digest_word d i) p b =
        Some (if take 4 t = enc64 4 (digest_word d i) then Inr (p + 4, b) else Inl 1)"
      using put64_check [of p 4 b "digest_word d i"] b(1) False t4 by simp
    then show ?thesis
      using IH i unfolding sp by (subst put_words.simps) (simp add: l)
  qed
qed

text \<open>The statics after the loops.\<close>

lemma stretch_step: "length alt = 16 \<Longrightarrow> 16 < n \<Longrightarrow> stretch n alt = alt @ stretch (n - 16) alt"
  by (simp add: stretch_def le_div_geq)

lemma stretch_length: "length (stretch n alt) \<le> n"
  by (simp add: stretch_def)

lemma stretch_short: "length alt = 16 \<Longrightarrow> n \<le> 16 \<Longrightarrow> stretch n alt = take n alt"
  by (cases "n = 16") (simp_all add: stretch_def)

lemma alt_loop_holds:
  "md5_holds c m \<Longrightarrow> length alt = 16 \<Longrightarrow> md5_holds (alt_loop i alt c) (m @ stretch i alt)"
proof (induction i alt c arbitrary: m rule: alt_loop.induct)
  case (1 i alt c)
  show ?case
  proof (cases "i > 16")
    case True
    have "md5_holds (alt_loop (i - 16) alt (md5_update alt c)) ((m @ alt) @ stretch (i - 16) alt)"
      using True 1 by (intro 1(1) md5_update_holds) auto
    then show ?thesis using True 1(3) by (subst alt_loop.simps) (simp add: stretch_step)
  next
    case False
    then show ?thesis using md5_update_holds [OF 1(2)] 1(3) by (subst alt_loop.simps) (simp add: stretch_short)
  qed
qed

lemma bit_loop_holds:
  "str_of key 0 = Some k \<Longrightarrow> md5_holds c m \<Longrightarrow> i \<le> length k \<Longrightarrow>
    \<exists>c'. bit_loop key (length k) i c = Some c' \<and> md5_holds c' (m @ key_bits k i)"
proof (induction i arbitrary: c m rule: less_induct)
  case (less i)
  show ?case
  proof (cases "i > 0")
    case True
    let ?x = "if odd i then 0 else k ! 0"
    have "rd key (if odd i then length k else 0) = Some ?x"
    proof -
      have "rd key (length k) = Some 0" "0 < length key" using less.prems(1) by (auto simp: str_of_iff)
      moreover have "key ! 0 = k ! 0"
        using str_of_nth [OF less.prems(1), of 0] less.prems(3) True by (cases k) simp_all
      ultimately show ?thesis by simp
    qed
    moreover have "i div 2 \<le> length k" using less.prems(3) by linarith
    then obtain c' where "bit_loop key (length k) (i div 2) (md5_update [?x] c) = Some c'"
      "md5_holds c' ((m @ [?x]) @ key_bits k (i div 2))"
      using less.IH [of "i div 2" "md5_update [?x] c" "m @ [?x]"] less.prems True md5_update_holds [OF less.prems(2)]
      by auto
    ultimately show ?thesis
      using True by (subst bit_loop.simps, subst key_bits.simps) simp
  next
    case False
    then show ?thesis using less.prems by (simp add: bit_loop.simps key_bits.simps)
  qed
qed

lemma length_state_bytes [simp]: "length (state_bytes s) = 16"
  by (cases s) (simp add: state_bytes_def)

lemma length_rfc_md5 [simp]: "length (rfc_md5 m) = 16"
  by (simp add: rfc_md5_def)

lemma md5_final_wf:
  assumes "md5_wf c"
  shows "md5_wf (md5_final c)"
proof -
  have r: "unat (len c AND 63) < 64" by (simp add: and_63)
  let ?r = "unat (len c AND 63)"
  have "length (blit ((buffer c)[?r := 0x80]) (?r + 1) (replicate (64 - (?r + 1)) 0)) = 64"
    using assms r by (subst length_blit) (simp_all add: md5_wf_def)
  then show ?thesis
    by (simp add: md5_wf_def md5_final_def Let_def length_blit)
qed

lemma holds_wf: "md5_holds c m \<Longrightarrow> md5_wf c"
  by (simp add: md5_holds_def md5_wf_def)

lemma reset_holds: "md5_wf c \<Longrightarrow> md5_holds (c\<lparr>state := initstate, len := 0\<rparr>) []"
  by (simp add: md5_holds_def md5_wf_def)

lemma crypt_round_digest:
  assumes "md5_wf c" "length k < 2 ^ 24" "length s < 2 ^ 24"
  shows "state_bytes (state (crypt_round k s i c)) = rfc_md5 (round_msg k s i (state_bytes (state c)))"
    and "md5_wf (crypt_round k s i c)"
proof -
  let ?d = "state_bytes (state c)"
  let ?c0 = "c\<lparr>state := initstate, len := 0\<rparr>"
  let ?c1 = "if odd i then md5_update k ?c0 else md5_update ?d ?c0"
  let ?c2 = "if i mod 3 \<noteq> 0 then md5_update s ?c1 else ?c1"
  let ?c3 = "if i mod 7 \<noteq> 0 then md5_update k ?c2 else ?c2"
  let ?c4 = "if odd i then md5_update ?d ?c3 else md5_update k ?c3"
  have 1: "md5_holds ?c1 (if odd i then k else ?d)"
    using md5_update_holds [OF reset_holds [OF assms(1)]] by simp
  have 2: "md5_holds ?c2 ((if odd i then k else ?d) @ (if i mod 3 \<noteq> 0 then s else []))"
    using 1 md5_update_holds [OF 1] by simp
  have 3: "md5_holds ?c3 (((if odd i then k else ?d) @ (if i mod 3 \<noteq> 0 then s else [])) @ (if i mod 7 \<noteq> 0 then k else []))"
    using 2 md5_update_holds [OF 2] by simp
  have 4: "md5_holds ?c4 (round_msg k s i ?d)"
    using md5_update_holds [OF 3] unfolding round_msg_def by (cases "odd i") simp_all
  have e: "crypt_round k s i c = md5_final ?c4" by (simp only: crypt_round_def Let_def)
  have "length (round_msg k s i ?d) < 2 ^ 29"
    using assms(2,3) by (auto simp: round_msg_def)
  from md5_final_digest [OF 4 this] show "state_bytes (state (crypt_round k s i c)) = rfc_md5 (round_msg k s i ?d)"
    unfolding e md5_digest_def .
  show "md5_wf (crypt_round k s i c)"
    using md5_final_wf [OF holds_wf [OF 4]] unfolding e .
qed

lemma crypt_rounds_digest:
  assumes "length k < 2 ^ 24" "length s < 2 ^ 24" "md5_wf c"
  shows "state_bytes (state (fold (crypt_round k s) is c)) =
      fold (\<lambda>i d. rfc_md5 (round_msg k s i d)) is (state_bytes (state c)) \<and> md5_wf (fold (crypt_round k s) is c)"
  using assms(3)
  by (induction "is" arbitrary: c) (simp_all add: crypt_round_digest [OF _ assms(1,2)])

text \<open>The digest computed by \<open>md5_password\<close> after it has found the salt.\<close>

lemma key_bits_length: "length (key_bits k i) \<le> i"
proof (induction i rule: less_induct)
  case (less i)
  show ?case
  proof (cases "i > 0")
    case True
    then show ?thesis using less.IH [of "i div 2"] by (subst key_bits.simps) simp
  qed (simp add: key_bits.simps)
qed

lemma crypt_digest_ok:
  assumes "str_of key 0 = Some k" "length k < 2 ^ 24" "length s < 2 ^ 24" "length h < 2 ^ 24" "md5_wf c"
  defines "c1 \<equiv> md5_final (md5_update k (md5_update s (md5_update k (md5_init c))))"
  defines "c3 \<equiv> alt_loop (length k) (state_bytes (state c1)) (md5_update h (md5_update k (c1\<lparr>state := initstate, len := 0\<rparr>)))"
  shows "\<exists>c4. bit_loop key (length k) (length k) c3 = Some c4 \<and>
    state_bytes (state (fold (crypt_round k s) [0..<1000] (md5_final c4))) = md5_crypt k s h \<and>
    md5_wf (fold (crypt_round k s) [0..<1000] (md5_final c4))"
proof -
  let ?a = "md5_update k (md5_update s (md5_update k (md5_init c)))"
  have a: "md5_holds ?a (k @ s @ k)"
    using md5.updates_msg [OF md5.init_msg [OF assms(5)], of "[k, s, k]"] by simp
  have "length (k @ s @ k) < 2 ^ 29" using assms(2,3) by simp
  from md5_final_digest [OF a this] have d1: "state_bytes (state c1) = rfc_md5 (k @ s @ k)"
    by (simp add: md5_digest_def c1_def)
  have w1: "md5_wf c1" unfolding c1_def by (rule md5_final_wf [OF holds_wf [OF a]])
  have "md5_holds (md5_update h (md5_update k (c1\<lparr>state := initstate, len := 0\<rparr>))) (k @ h)"
    using md5.updates_msg [OF reset_holds [OF w1], of "[k, h]"] by simp
  from alt_loop_holds [OF this, of "state_bytes (state c1)" "length k"]
  have c3: "md5_holds c3 ((k @ h) @ stretch (length k) (rfc_md5 (k @ s @ k)))"
    by (simp add: c3_def d1)
  obtain c4 where c4: "bit_loop key (length k) (length k) c3 = Some c4"
    "md5_holds c4 (((k @ h) @ stretch (length k) (rfc_md5 (k @ s @ k))) @ key_bits k (length k))"
    using bit_loop_holds [OF assms(1) c3 order_refl] by blast
  have "length (((k @ h) @ stretch (length k) (rfc_md5 (k @ s @ k))) @ key_bits k (length k)) < 2 ^ 29"
    using assms(2,4) key_bits_length [of k "length k"] stretch_length [of "length k" "rfc_md5 (k @ s @ k)"]
    by simp
  from md5_final_digest [OF c4(2) this] have "state_bytes (state (md5_final c4)) =
      rfc_md5 (k @ h @ stretch (length k) (rfc_md5 (k @ s @ k)) @ key_bits k (length k))"
    by (simp add: md5_digest_def)
  then show ?thesis
    using c4(1) crypt_rounds_digest [OF assms(2,3) md5_final_wf [OF holds_wf [OF c4(2)]], of "[0..<1000]"]
    by (simp add: md5_crypt_def)
qed


section \<open>Properties\<close>

text \<open>
  C32. The streaming MD5 of \<open>md5_init\<close>, \<open>md5_update\<close> and \<open>md5_final\<close> computes RFC 1321: however
  a message of less than \<open>2^29\<close> bytes is cut into the pieces passed to \<open>md5_update\<close>, and whatever
  the statics held before, the digest is that of padding the whole message and compressing its
  blocks.
\<close>

theorem md5_stream_rfc:
  assumes "length (buffer c) = 64" "length (concat pieces) < 2 ^ 29"
  shows "state_bytes (state (md5_final (fold md5_update pieces (md5_init c)))) = rfc_md5 (concat pieces)"
  using md5.digest_pieces [of c pieces] assms by (simp add: md5_wf_def md5_digest_def)

theorem md5_stream_rfc_witness:
  "state_bytes (state (md5_final (fold md5_update [cs ''ab'', [], cs ''c'']
      (md5_init \<lparr>state = (0, 0, 0, 0), len = 7, buffer = replicate 64 1\<rparr>)))) =
    rfc_md5 (concat [cs ''ab'', [], cs ''c''])"
  by (rule md5_stream_rfc) simp_all

text \<open>The text \<open>md5_password\<close> stores for key \<open>k\<close> when the salt is \<open>s\<close> and the header with it \<open>h\<close>.\<close>

definition crypted_text :: "u8 list \<Rightarrow> u8 list \<Rightarrow> u8 list \<Rightarrow> u8 list" where
  "crypted_text k s h = crypt_text (md5_crypt k s h)"

lemma crypt_text_words: "crypt_text d = words_from d 0"
  by (simp add: crypt_text_def words_from_def)

text \<open>
  C34. \<open>md5_password\<close> without \<open>check\<close> stores MD5-crypt: after the header and the salt (the characters
  before the first dollar sign, eight at most) it writes a dollar sign, the 22 characters that encode
  the scheme's digest of the key, and the terminator, changes nothing else and returns 0.
\<close>

theorem md5_password_crypt:
  assumes "str_of key 0 = Some k" "length k < 2 ^ 24" "length (buffer c) = 64"
    and "grub_strstr b 3 (cs ''$'' @ [0]) 0 = Some e"
    and "n = (case e of Some q \<Rightarrow> if q - 3 < 8 then q - 3 else 8 | None \<Rightarrow> 8)" "n + 27 \<le> length b"
  shows "\<exists>c'. md5_password key b False c =
    Some (0, blit b (3 + n) (cs ''$'' @ crypted_text k (take n (drop 3 b)) (take (3 + n) b) @ [0]), c')"
proof -
  let ?s = "take n (drop 3 b)" and ?h = "take (3 + n) b"
  let ?b = "b[3 + n := ch CHR ''$'']"
  have n8: "n \<le> 8" using assms(5) by (auto split: option.splits)
  have sl: "slice key 0 (length k) = Some k" using assms(1) by (auto simp: slice_def str_of_iff)
  have sb: "slice ?b 3 n = Some ?s" "slice ?b 0 (3 + n) = Some ?h"
    using assms(6) by (simp_all add: slice_def take_drop)
  have ls: "length ?s < 2 ^ 24" "length ?h < 2 ^ 24" using n8 assms(6) by simp_all
  have "md5_wf c" using assms(3) by (simp add: md5_wf_def)
  from crypt_digest_ok [OF assms(1,2) ls this] obtain c4 where c4:
    "bit_loop key (length k) (length k) (alt_loop (length k)
       (state_bytes (state (md5_final (md5_update k (md5_update ?s (md5_update k (md5_init c)))))))
       (md5_update ?h (md5_update k ((md5_final (md5_update k (md5_update ?s (md5_update k (md5_init c)))))\<lparr>state := initstate, len := 0\<rparr>)))) = Some c4"
    "state_bytes (state (fold (crypt_round k ?s) [0..<1000] (md5_final c4))) = md5_crypt k ?s ?h"
    by blast
  let ?t = "crypted_text k ?s ?h"
  have t: "?t = words_from (md5_crypt k ?s ?h) 0" by (simp add: crypted_text_def crypt_text_words)
  have lt: "length ?t = 22" by (simp add: crypted_text_def)
  have put: "put_words False (md5_crypt k ?s ?h) 0 (3 + n + 1) ?b = Some (Inr (3 + n + 23, blit ?b (3 + n + 1) ?t))"
    using put_words_store [of 0 "3 + n + 1" "md5_crypt k ?s ?h" ?b] assms(6) lt t by simp
  have fin: "(blit ?b (3 + n + 1) ?t)[3 + n + 23 := 0] = blit b (3 + n) (cs ''$'' @ ?t @ [0])"
  proof -
    have 1: "blit ?b (3 + n + 1) ?t = blit b (3 + n) (ch CHR ''$'' # ?t)"
      using blit_Cons [of "3 + n" ?t b "ch CHR ''$''"] assms(6) lt by simp
    have "blit b (3 + n) ((ch CHR ''$'' # ?t) @ [0]) = blit (blit b (3 + n) (ch CHR ''$'' # ?t)) (3 + n + 23) [0]"
      using blit_blit [of "3 + n" "ch CHR ''$'' # ?t" "[0]" b] assms(6) lt by simp
    also have "\<dots> = (blit b (3 + n) (ch CHR ''$'' # ?t))[3 + n + 23 := 0]"
      using assms(6) lt blit_Cons [of "3 + n + 23" "[]" "blit b (3 + n) (ch CHR ''$'' # ?t)" 0] by simp
    finally show ?thesis unfolding 1 by simp
  qed
  have l: "length (blit ?b (3 + n + 1) ?t) = length b" using assms(6) lt by simp
  let ?c5 = "fold (crypt_round k ?s) [0..<1000] (md5_final c4)"
  have "md5_password key b False c = Some (0, (blit ?b (3 + n + 1) ?t)[3 + n + 23 := 0], ?c5)"
    using assms(1,4,6) sl sb c4(1) put l
    by (simp add: md5_password_def grub_strlen_eq c4(2) assms(5) [symmetric])
  then show ?thesis unfolding fin by blast
qed

text \<open>Checking a string whose salt ends at the first dollar sign after the header.\<close>

lemma md5_password_check_eq:
  assumes "str_of key 0 = Some k" "length k < 2 ^ 24" "length (buffer c) = 64"
    and "str_of b 0 = Some t" "3 < length t" "grub_strstr b 3 (cs ''$'' @ [0]) 0 = Some (Some q)" "q \<le> length t" "3 \<le> q"
    and "length t < 2 ^ 24" "str_of b (q + 1) = Some u"
  defines "x \<equiv> crypted_text k (take (q - 3) (drop 3 b)) (take q b)"
  shows "\<exists>c' r. md5_password key b True c = Some (r, b, c') \<and> (r = 0 \<longleftrightarrow> u = x)"
proof -
  let ?s = "take (q - 3) (drop 3 b)" and ?h = "take q b"
  have lb: "length t < length b" using assms(4) by (simp add: str_of_iff)
  have sl: "slice key 0 (length k) = Some k" using assms(1) by (auto simp: slice_def str_of_iff)
  have sb: "slice b 3 (q - 3) = Some ?s" "slice b 0 (3 + (q - 3)) = Some ?h"
    using assms(7,8) lb by (simp_all add: slice_def)
  have ls: "length ?s < 2 ^ 24" "length ?h < 2 ^ 24" using assms(7,9) by auto
  have "md5_wf c" using assms(3) by (simp add: md5_wf_def)
  from crypt_digest_ok [OF assms(1,2) ls this] obtain c4 where c4:
    "bit_loop key (length k) (length k) (alt_loop (length k)
       (state_bytes (state (md5_final (md5_update k (md5_update ?s (md5_update k (md5_init c)))))))
       (md5_update ?h (md5_update k ((md5_final (md5_update k (md5_update ?s (md5_update k (md5_init c)))))\<lparr>state := initstate, len := 0\<rparr>)))) = Some c4"
    "state_bytes (state (fold (crypt_round k ?s) [0..<1000] (md5_final c4))) = md5_crypt k ?s ?h"
    by blast
  let ?c5 = "fold (crypt_round k ?s) [0..<1000] (md5_final c4)"
  have x: "x = words_from (md5_crypt k ?s ?h) 0" "length x = 22"
    by (simp_all add: x_def crypted_text_def crypt_text_words [symmetric])
  have put: "put_words True (md5_crypt k ?s ?h) 0 (3 + (q - 3) + 1) b =
      Some (if take 22 u = x then Inr (q + 1 + 22, b) else Inl 1)"
    using put_words_check [of 0 b "q + 1" u "md5_crypt k ?s ?h"] assms(8,10) x by simp
  have end0: "u = x \<longleftrightarrow> take 22 u = x \<and> rd b (q + 1 + 22) = Some 0" if "take 22 u = x"
  proof -
    have lu: "22 \<le> length u" using that x(2) by (metis length_take min.bounded_iff order_refl)
    have "str_of b (q + 1 + 22) = Some (drop 22 u)" using str_of_suffix [OF assms(10) lu] .
    then have "rd b (q + 1 + 22) = Some 0 \<longleftrightarrow> drop 22 u = []" by (metis option.inject str_of_Nil_iff)
    moreover have "u = x \<longleftrightarrow> drop 22 u = []" using that x(2) lu by (metis append_Nil2 append_take_drop_id drop_all order_refl)
    ultimately show ?thesis using that by simp
  qed
  show ?thesis
  proof (cases "take 22 u = x")
    case True
    have "22 \<le> length u" using True x(2) by (metis length_take min.bounded_iff order_refl)
    then have r: "q + 1 + 22 < length b" using str_of_bound [OF assms(10)] by simp
    have "md5_password key b True c = Some (sint (b ! (q + 1 + 22)), b, ?c5)"
      using assms(1,4,5,6) sl sb c4(1) put r True
      by (simp add: md5_password_def grub_strlen_eq c4(2))
    moreover have "sint (b ! (q + 1 + 22)) = 0 \<longleftrightarrow> u = x" using end0 True r by simp
    ultimately show ?thesis by blast
  next
    case False
    then have "md5_password key b True c = Some (1, b, ?c5)"
      using assms(1,4,5,6) sl sb c4(1) put
      by (simp add: md5_password_def grub_strlen_eq c4(2))
    moreover have "u \<noteq> x" using False x(2) by auto
    ultimately show ?thesis by (metis zero_neq_one)
  qed
qed

lemma first_dollar: "ch CHR ''$'' \<notin> set s \<Longrightarrow> first_occ (cs ''$'') (s @ ch CHR ''$'' # r) = Some (length s)"
  by (induction s) auto

text \<open>A stored password: header, salt, dollar sign, text.\<close>

lemma md5_password_checked:
  assumes "str_of key 0 = Some k" "length k < 2 ^ 24" "length (buffer c) = 64"
    and "length h = 3" "ch CHR ''$'' \<notin> set s" "0 \<notin> set (h @ s @ u)" "length (h @ s @ u) + 1 < 2 ^ 24"
  shows "\<exists>c' r. md5_password key (h @ s @ ch CHR ''$'' # u @ 0 # rest) True c =
      Some (r, h @ s @ ch CHR ''$'' # u @ 0 # rest, c') \<and> (r = 0 \<longleftrightarrow> u = crypted_text k s (h @ s))"
proof -
  let ?b = "h @ s @ ch CHR ''$'' # u @ 0 # rest"
  have t: "str_of ?b 0 = Some (h @ s @ ch CHR ''$'' # u)"
    using str_of_literal [of "h @ s @ ch CHR ''$'' # u" rest] assms(6) by simp
  have t3: "str_of ?b 3 = Some (s @ ch CHR ''$'' # u)"
    using str_of_suffix [OF t, of 3] assms(4) by simp
  have d: "str_of (cs ''$'' @ [0]) 0 = Some (cs ''$'')"
    using str_of_literal [of "cs ''$''" "[]"] by simp
  have f: "grub_strstr ?b 3 (cs ''$'' @ [0]) 0 = Some (Some (3 + length s))"
    using grub_strstr_first_occ [OF t3 d] first_dollar [OF assms(5)] by simp
  have u: "str_of ?b (3 + length s + 1) = Some u"
    using str_of_suffix [OF t, of "3 + length s + 1"] assms(4) by simp
  have "\<exists>c' r. md5_password key ?b True c = Some (r, ?b, c') \<and>
      (r = 0 \<longleftrightarrow> u = crypted_text k (take (3 + length s - 3) (drop 3 ?b)) (take (3 + length s) ?b))"
    by (rule md5_password_check_eq [OF assms(1-3) t _ f _ _ _ u]) (use assms(4,7) in simp_all)
  then show ?thesis using assms(4) by simp
qed

text \<open>
  C33. Checking a stored password \<open>h $ s $ u\<close> (a header \<open>h\<close> of three characters, a salt without dollar
  sign) against a key returns 0 exactly when \<open>u\<close> is the text MD5-crypt stores for this key, salt and
  header; the buffer is left alone.
\<close>

theorem md5_password_check:
  assumes "str_of key 0 = Some k" "length k < 2 ^ 24" "length (buffer c) = 64"
    and "length h = 3" "ch CHR ''$'' \<notin> set s" "0 \<notin> set (h @ s @ u)" "length (h @ s @ u) + 1 < 2 ^ 24"
  shows "\<exists>c' r. md5_password key (h @ s @ ch CHR ''$'' # u @ 0 # rest) True c =
      Some (r, h @ s @ ch CHR ''$'' # u @ 0 # rest, c') \<and> (r = 0 \<longleftrightarrow> u = crypted_text k s (h @ s))"
  using assms by (rule md5_password_checked)

theorem md5_password_check_witness:
  "\<exists>c' r. md5_password (cs ''pw'' @ [0]) (cs ''$1$'' @ cs ''salt'' @ ch CHR ''$'' # cs ''wrong'' @ 0 # []) True
        \<lparr>state = (0, 0, 0, 0), len = 0, buffer = replicate 64 0\<rparr> =
      Some (r, cs ''$1$'' @ cs ''salt'' @ ch CHR ''$'' # cs ''wrong'' @ 0 # [], c') \<and>
      (r = 0 \<longleftrightarrow> cs ''wrong'' = crypted_text (cs ''pw'') (cs ''salt'') (cs ''$1$'' @ cs ''salt''))"
  by (rule md5_password_check) (use str_of_literal [of "cs ''pw''" "[]"] in simp_all)

theorem md5_password_crypt_witness:
  "\<exists>c'. md5_password (cs ''pw'' @ [0]) (cs ''$1$ab$'' @ replicate 30 0) False
      \<lparr>state = (0, 0, 0, 0), len = 0, buffer = replicate 64 0\<rparr> =
    Some (0, blit (cs ''$1$ab$'' @ replicate 30 0) (3 + 2)
      (cs ''$'' @ crypted_text (cs ''pw'') (take 2 (drop 3 (cs ''$1$ab$'' @ replicate 30 0))) (take (3 + 2) (cs ''$1$ab$'' @ replicate 30 0)) @ [0]), c')"
proof (rule md5_password_crypt)
  have "str_of (cs ''$1$'' @ cs ''ab$'' @ 0 # replicate 29 0) (length (cs ''$1$'')) = Some (cs ''ab$'')"
    by (rule str_of_at) simp
  then have t: "str_of (cs ''$1$ab$'' @ replicate 30 0) 3 = Some (cs ''ab$'')"
    by (simp add: numeral_eq_Suc)
  have d: "str_of (cs ''$'' @ [0]) 0 = Some (cs ''$'')"
    using str_of_literal [of "cs ''$''" "[]"] by simp
  show "grub_strstr (cs ''$1$ab$'' @ replicate 30 0) 3 (cs ''$'' @ [0]) 0 = Some (Some 5)"
    using grub_strstr_first_occ [OF t d] by simp
qed (use str_of_literal [of "cs ''pw''" "[]"] in simp_all)

end
