(* ===== verification/Globals.thy ===== *)
theory Globals
imports StringLib
begin

text \<open>
  The globals of stage 2 that several components share (\<open>stage2/shared.h\<close>, \<open>disk_io.c\<close>), and typed
  accesses to flat memory.  Components that keep more state extend the record; functions on the
  globals are stated for every extension.
\<close>

section \<open>Flat memory\<close>

definition peek16 :: "mem \<Rightarrow> u32 \<Rightarrow> u16" where
  "peek16 m a = le16 (m a) (m (a + 1))"

definition peek32 :: "mem \<Rightarrow> u32 \<Rightarrow> u32" where
  "peek32 m a = le32 (m a) (m (a + 1)) (m (a + 2)) (m (a + 3))"

text \<open>\<open>poke a s m\<close> is memory \<open>m\<close> with the bytes \<open>s\<close> stored at \<open>a\<close>.\<close>

definition poke :: "u32 \<Rightarrow> u8 list \<Rightarrow> mem \<Rightarrow> mem" where
  "poke a s m = (\<lambda>x. if unat (x - a) < length s then s ! unat (x - a) else m x)"

definition peek :: "mem \<Rightarrow> u32 \<Rightarrow> nat \<Rightarrow> u8 list" where
  "peek m a n = map (\<lambda>i. m (a + of_nat i)) [0..<n]"

lemma length_peek [simp]: "length (peek m a n) = n"
  by (simp add: peek_def)

lemma nth_peek [simp]: "i < n \<Longrightarrow> peek m a n ! i = m (a + of_nat i)"
  by (simp add: peek_def)

section \<open>State\<close>

record geometry =
  cylinders :: u32
  heads :: u32
  sectors :: u32
  total_sectors :: u32
  sector_size :: u32
  gflags :: u32

text \<open>What is written to the terminal.\<close>

datatype tty =
    PrintError grub_error | Print "u8 list" | AnyKey | InitPage | CmdlineMessage bool
  | SectorTrace u32 u32 u32

text \<open>
  \<open>dev\<close> is the state of the disks behind the BIOS, \<open>hook\<close> the variables of the function
  \<open>disk_read_func\<close> points to.  A \<open>NULL\<close> pointer is address 0.
\<close>

record ('d, 'h) globals =
  errnum :: grub_error
  mem :: mem
  dev :: 'd
  hook :: 'h
  mem_upper :: u32
  mbi_flags :: u32
  debug :: u32
  out :: "tty list"
  buf_drive :: u32
  buf_track :: u32
  buf_geom :: geometry
  current_drive :: u32
  current_partition :: u32
  current_slice :: u32
  saved_drive :: u32
  saved_partition :: u32
  part_start :: u32
  part_length :: u32
  part_offset :: u32
  part_entry :: u32
  ext_offset :: u32
  cur_part_offset :: u32
  cur_part_addr :: u32
  boot_part_addr :: u32
  dest_partition :: u32
  bsd_part_no :: u32
  pc_slice_no :: u32
  bsd_evil_hack :: u32
  rawread_ignore_memmove_overflow :: bool
  emu_iso_sector_size_2048 :: bool
  do_completion :: bool
  fsys_type :: nat
  unique :: int
  print_possibilities :: bool
  incomplete :: bool
  disk_choice :: bool
  part_choice :: nat
  relative_path :: bool
  compressed_file :: bool
  block_file :: bool
  filepos :: u32
  filemax :: u32
  fsmax :: u32
  open_filename :: cbuf
  saved_dir :: "u8 list"
  edit_area :: cbuf

text \<open>The default configuration defines twelve filesystems.\<close>

definition NUM_FSYS :: nat where "NUM_FSYS = 12"

text \<open>
  The values the globals are initialised with; the buffers of the command line, which \<open>edit_area\<close>
  holds with the offsets of the command-line editor, are empty here.
\<close>

definition globals_start :: "mem \<Rightarrow> 'd \<Rightarrow> 'h \<Rightarrow> ('d, 'h) globals" where
  "globals_start m d h = \<lparr>errnum = ERR_NONE, mem = m, dev = d, hook = h, mem_upper = 0, mbi_flags = 0, debug = 0,
     out = [], buf_drive = -1, buf_track = -1, buf_geom = \<lparr>cylinders = 0, heads = 0, sectors = 0,
     total_sectors = 0, sector_size = 0, gflags = 0\<rparr>, current_drive = 0xFFFFFFFF, current_partition = 0,
     current_slice = 0, saved_drive = 0, saved_partition = 0, part_start = 0, part_length = 0, part_offset = 0,
     part_entry = 0, ext_offset = 0, cur_part_offset = 0, cur_part_addr = 0, boot_part_addr = 0, dest_partition = 0,
     bsd_part_no = 0, pc_slice_no = 0, bsd_evil_hack = 0, rawread_ignore_memmove_overflow = False, emu_iso_sector_size_2048 = False, do_completion = False,
     fsys_type = NUM_FSYS, unique = 0, print_possibilities = False, incomplete = False, disk_choice = False, part_choice = 0,
     relative_path = False, compressed_file = False, block_file = False, filepos = 0, filemax = 0, fsmax = 0,
     open_filename = replicate 512 0, saved_dir = [], edit_area = []\<rparr>"

type_synonym ('d, 'h, 'z) gstate = "('d, 'h, 'z) globals_scheme"

definition print_tty :: "tty list \<Rightarrow> ('d, 'h, 'z) gstate \<Rightarrow> ('d, 'h, 'z) gstate" where
  "print_tty es s = s\<lparr>out := out s @ es\<rparr>"

definition fail :: "grub_error \<Rightarrow> ('d, 'h, 'z) gstate \<Rightarrow> ('d, 'h, 'z) gstate" where
  "fail e s = s\<lparr>errnum := e\<rparr>"

text \<open>\<open>grub_memmove\<close> on the state: \<open>memcheck\<close> sets \<open>errnum\<close>.\<close>

definition gmemmove :: "u32 \<Rightarrow> u32 \<Rightarrow> u32 \<Rightarrow> ('d, 'h, 'z) gstate \<Rightarrow> ('d, 'h, 'z) gstate" where
  "gmemmove to from len s =
     (let (p, e, m) = grub_memmove (mem_upper s) to from len (mem s) in s\<lparr>errnum := e, mem := m\<rparr>)"

end
