(* ===== verification/Bios.thy ===== *)
theory Bios
imports Globals
begin

text \<open>
  Disk access through the BIOS, \<open>stage2/bios.c\<close>: \<open>biosdisk\<close> with its address packet, its fallback
  to cylinder, head and sector addressing and its memory disks, and \<open>get_diskinfo\<close>, \<open>get_cdinfo\<close>.
  The interrupts themselves (\<open>biosdisk_int13_extensions\<close> and the other routines of \<open>asm.S\<close>) are
  arguments, as are the probes \<open>probe_mbr\<close> and \<open>probe_bpb\<close>.  The packets lie in memory at \<open>0x580\<close>, as in the
  code.  Messages printed at debug levels above 0 are left out.
\<close>

section \<open>The interface to the BIOS\<close>

text \<open>
  An interrupt routine gets memory and the state of the disks and returns its error number and both.
  \<open>get_diskinfo_standard\<close> returns cylinders, heads and sectors when its error is 0.  The probes return
  their result and the probed cylinders, heads, sectors per track and totalal sectors.  The other
  fields are variables that do not change while the disk is in use.
\<close>

record probe =
  probe_err :: u32
  probed_cylinders :: u32
  probed_heads :: u32
  probed_sectors_per_track :: u32
  probed_total_sectors :: u32

record ('d, 'h) disk_env =
  int13_extensions :: "u32 \<Rightarrow> u32 \<Rightarrow> mem \<Rightarrow> 'd \<Rightarrow> u32 \<times> mem \<times> 'd"
  int13_standard :: "u32 \<Rightarrow> u32 \<Rightarrow> u32 \<Rightarrow> u32 \<Rightarrow> u32 \<Rightarrow> u32 \<Rightarrow> u32 \<Rightarrow> mem \<Rightarrow> 'd \<Rightarrow> u32 \<times> mem \<times> 'd"
  check_int13_extensions :: "u32 \<Rightarrow> 'd \<Rightarrow> u32"
  get_diskinfo_standard :: "u32 \<Rightarrow> 'd \<Rightarrow> u32 \<times> u32 \<times> u32 \<times> u32"
  probe_mbr :: "mem \<Rightarrow> u32 \<Rightarrow> probe"
  probe_bpb :: "mem \<Rightarrow> probe"
  ram_drive :: u32
  rd_base :: u32
  rd_size :: u32
  cdrom_drive :: u32
  min_cdrom_id :: u32
  atapi_dev_count :: u32
  mmap_addr :: u32
  mmap_length :: u32
  pxe_entry :: u32
  network_ready :: bool
  disk_read_func :: "(u32 \<Rightarrow> u32 \<Rightarrow> u32 \<Rightarrow> 'h \<Rightarrow> 'h) option"
  disk_read_hook :: "(u32 \<Rightarrow> u32 \<Rightarrow> u32 \<Rightarrow> 'h \<Rightarrow> 'h) option"

definition BUFFERADDR :: u32 where "BUFFERADDR = 0x70000"
definition BUFFERSEG :: u32 where "BUFFERSEG = 0x7000"
definition BUFFERLEN :: u32 where "BUFFERLEN = 0x7e00"
definition SCRATCHADDR :: u32 where "SCRATCHADDR = 0x77e00"
definition SCRATCHSEG :: u32 where "SCRATCHSEG = 0x77e0"
definition SECTOR_SIZE :: u32 where "SECTOR_SIZE = 0x200"
definition BIOSDISK_ERROR_GEOMETRY :: u32 where "BIOSDISK_ERROR_GEOMETRY = 0x100"
definition BIOSDISK_FLAG_LBA_EXTENSION :: u32 where "BIOSDISK_FLAG_LBA_EXTENSION = 0x1"
definition BIOSDISK_FLAG_CDROM :: u32 where "BIOSDISK_FLAG_CDROM = 0x2"

definition bytes16 :: "u16 \<Rightarrow> u8 list" where
  "bytes16 w = [ucast w, ucast (drop_bit 8 w)]"

definition bytes64 :: "64 word \<Rightarrow> u8 list" where
  "bytes64 w = bytes32 (ucast w) @ bytes32 (ucast (drop_bit 32 w))"

definition peek64 :: "mem \<Rightarrow> u32 \<Rightarrow> 64 word" where
  "peek64 m a = ucast (peek32 m a) OR push_bit 32 (ucast (peek32 m (a + 4)))"

section \<open>Reading and writing sectors\<close>

text \<open>The disk address packet at \<open>0x580\<close>: \<open>sector\<close> is an \<open>int\<close> and widened with its sign.\<close>

definition dap :: "u32 \<Rightarrow> u32 \<Rightarrow> u32 \<Rightarrow> mem \<Rightarrow> mem" where
  "dap sector nsec segment =
     poke 0x580 ([0x10, 0] @ bytes16 (ucast nsec) @ bytes32 (push_bit 16 segment) @ bytes64 (scast sector))"

text \<open>\<open>write\<close> is \<open>read\<close> of the source: \<open>BIOSDISK_WRITE\<close> is 1.\<close>

definition is_mem_disk :: "('d, 'h) disk_env \<Rightarrow> u32 \<Rightarrow> bool" where
  "is_mem_disk v drive \<longleftrightarrow> drive = 0xffff \<or> (drive = ram_drive v \<and> rd_base v \<noteq> 0xffffffff)"

definition mem_disk :: "('d, 'h) disk_env \<Rightarrow> bool \<Rightarrow> u32 \<Rightarrow> u32 \<Rightarrow> u32 \<Rightarrow> u32 \<Rightarrow> ('d, 'h, 'z) gstate \<Rightarrow> u32 \<times> ('d, 'h, 'z) gstate" where
  "mem_disk v write drive sector nsec segment s =
     (let base = (if drive = 0xffff then 0 else rd_base v);
          place = push_bit 9 sector + base; seg = push_bit 4 segment; len = push_bit 9 nsec
      in if 0 < nsec \<and> nsec < 0x80
         then (0, if write then gmemmove place seg len s else gmemmove seg place len s)
         else (1, s))"

definition chs_disk :: "('d, 'h) disk_env \<Rightarrow> bool \<Rightarrow> u32 \<Rightarrow> geometry \<Rightarrow> u32 \<Rightarrow> u32 \<Rightarrow> u32 \<Rightarrow> ('d, 'h, 'z) gstate \<Rightarrow> (u32 \<times> ('d, 'h, 'z) gstate) option" where
  "chs_disk v write drive g sector nsec segment s =
     (if sectors g = 0 \<or> heads g = 0 then None
      else let sector_offset = sector mod sectors g + 1;
               head = sector div sectors g;
               head_offset = head mod heads g;
               cylinder_offset = head div heads g
           in if cylinder_offset \<ge> cylinders g then Some (BIOSDISK_ERROR_GEOMETRY, s)
              else let (err, m, d) = int13_standard v (of_bool write + 2) drive cylinder_offset head_offset sector_offset
                                       nsec segment (mem s) (dev s)
                   in Some (err, s\<lparr>mem := m, dev := d\<rparr>))"

definition biosdisk :: "('d, 'h) disk_env \<Rightarrow> bool \<Rightarrow> u32 \<Rightarrow> geometry \<Rightarrow> u32 \<Rightarrow> u32 \<Rightarrow> u32 \<Rightarrow> ('d, 'h, 'z) gstate \<Rightarrow> (u32 \<times> ('d, 'h, 'z) gstate) option" where
  "biosdisk v write drive g sector nsec segment s =
     (if gflags g AND BIOSDISK_FLAG_LBA_EXTENSION \<noteq> 0 then
        if is_mem_disk v drive then Some (mem_disk v write drive sector nsec segment s)
        else let (err, m, d) = int13_extensions v (push_bit 8 (of_bool write + 0x42)) drive
                                 (dap sector nsec segment (mem s)) (dev s);
                 s1 = s\<lparr>mem := m, dev := d\<rparr>
             in if err = 0 \<or> gflags g AND BIOSDISK_FLAG_CDROM \<noteq> 0 then Some (err, s1)
                else chs_disk v write drive g sector nsec segment s1
      else chs_disk v write drive g sector nsec segment s)"

section \<open>Geometry\<close>

text \<open>The top of the usable memory below 4 GiB, from the BIOS memory map.  The fuel counts the entries.\<close>

fun mem_top :: "nat \<Rightarrow> mem \<Rightarrow> u32 \<Rightarrow> u32 \<Rightarrow> 64 word \<Rightarrow> 64 word option" where
  "mem_top 0 m map_end a tot = None"
| "mem_top (Suc n) m map_end a tot =
     (if map_end > a then
        let top = peek64 m (a + 4) + peek64 m (a + 12);
            top1 = (if top > 0x100000000 then 0x100000000 else top);
            total1 = (if peek32 m (a + 20) \<noteq> 1 then tot else if tot < top1 then top1 else tot)
        in mem_top n m map_end (a + 4 + peek32 m a) total1
      else Some tot)"

definition total_mem_bytes :: "('d, 'h) disk_env \<Rightarrow> ('d, 'h, 'z) gstate \<Rightarrow> 64 word option" where
  "total_mem_bytes v s =
     (if mbi_flags s AND 0x40 \<noteq> 0
      then mem_top (unat (mmap_length v) + 1) (mem s) (mmap_addr v + mmap_length v) (mmap_addr v) 0
      else Some 0)"

definition mem_geometry :: "u32 \<Rightarrow> geometry" where
  "mem_geometry tot = \<lparr>cylinders = (tot + 255 * 63 - 1) div (255 * 63), heads = 255, sectors = 63,
     total_sectors = tot, sector_size = SECTOR_SIZE, gflags = BIOSDISK_FLAG_LBA_EXTENSION\<rparr>"

definition cd_geometry :: geometry where
  "cd_geometry = \<lparr>cylinders = 65536, heads = 255, sectors = 15, total_sectors = 65536 * 255 * 15, sector_size = 2048,
     gflags = BIOSDISK_FLAG_LBA_EXTENSION OR BIOSDISK_FLAG_CDROM\<rparr>"

text \<open>\<open>grub_memset\<close> of the packet area; \<open>memcheck\<close> clears \<open>errnum\<close>.\<close>

definition clear_packet :: "nat \<Rightarrow> ('d, 'h, 'z) gstate \<Rightarrow> ('d, 'h, 'z) gstate" where
  "clear_packet n s = s\<lparr>errnum := ERR_NONE, mem := poke 0x580 (replicate n 0) (mem s)\<rparr>"

text \<open>The specification packet of a bootable CD; the result is the drive, or 0.\<close>

definition get_cdinfo :: "('d, 'h) disk_env \<Rightarrow> u32 \<Rightarrow> ('d, 'h, 'z) gstate \<Rightarrow> u32 \<times> ('d, 'h, 'z) gstate" where
  "get_cdinfo v drive s =
     (let s1 = clear_packet 35 s;
          (err, m, d) = int13_extensions v 0x4B01 drive (poke 0x580 [19] (mem s1)) (dev s1);
          s2 = s1\<lparr>mem := m, dev := d\<rparr>;
          drive_no = ucast (m 0x582);
          drive' = (if drive = 0x7F \<and> drive < drive_no then drive_no else drive)
      in (if err = 0 \<and> drive_no = drive' \<and> m 0x581 AND 0x0F = 0 then drive' else 0, s2))"

text \<open>The drive parameters packet.\<close>

definition drp_cylinders :: "mem \<Rightarrow> u32" where "drp_cylinders m = peek32 m 0x584"
definition drp_heads :: "mem \<Rightarrow> u32" where "drp_heads m = peek32 m 0x588"
definition drp_sectors :: "mem \<Rightarrow> u32" where "drp_sectors m = peek32 m 0x58c"
definition drp_total :: "mem \<Rightarrow> 64 word" where "drp_total m = peek64 m 0x590"
definition drp_bytes :: "mem \<Rightarrow> u32" where "drp_bytes m = ucast (peek16 m 0x598)"

text \<open>The largest values of the BIOS calls, bounded so that a track fits the track buffer.\<close>

definition merge_geometry :: "u32 \<Rightarrow> mem \<Rightarrow> geometry \<Rightarrow> geometry" where
  "merge_geometry fl m g =
     (let ss = (if drp_bytes m \<noteq> 0 then drp_bytes m else SECTOR_SIZE);
          h1 = max (heads g) (drp_heads m);
          h = (if h1 > 256 then 256 else h1);
          n1 = max (sectors g) (drp_sectors m);
          n = (if n1 * ss > 63 * 512 then 63 * 512 div ss else n1)
      in g\<lparr>gflags := fl, sector_size := ss, cylinders := max (cylinders g) (drp_cylinders m), heads := h, sectors := n\<rparr>)"

definition chs_total :: "geometry \<Rightarrow> 64 word" where
  "chs_total g = ucast (cylinders g) * ucast (heads g) * ucast (sectors g)"

text \<open>Use safe values where a count is zero.\<close>

definition safe_geometry :: "u32 \<Rightarrow> geometry \<Rightarrow> geometry" where
  "safe_geometry drive g =
     (let hd = drive AND 0x80 \<noteq> 0;
          g1 = (if sectors g = 0
                then g\<lparr>sectors := (if hd then 63 else if total_sectors g > 5760 then 63
                                   else if total_sectors g > 2880 then 36 else 18)\<rparr> else g);
          g2 = (if heads g1 = 0
                then g1\<lparr>heads := (if hd then 255 else if total_sectors g1 > 5760 then 255 else 2)\<rparr> else g1)
      in if cylinders g2 = 0 then g2\<lparr>cylinders := total_sectors g2 div heads g2 div sectors g2\<rparr> else g2)"

text \<open>The boot sector says more: read it into the scratch buffer and probe it.\<close>

definition read_boot_sector :: "('d, 'h) disk_env \<Rightarrow> u32 \<Rightarrow> geometry \<Rightarrow> ('d, 'h, 'z) gstate \<Rightarrow> u32 \<times> ('d, 'h, 'z) gstate" where
  "read_boot_sector v drive g s =
     (let (err, m, d) = int13_standard v 2 drive 0 0 1 1 SCRATCHSEG (mem s) (dev s);
          s1 = s\<lparr>mem := m, dev := d\<rparr>
      in if err \<noteq> 0 \<and> gflags g AND BIOSDISK_FLAG_LBA_EXTENSION \<noteq> 0
         then let (err2, m2, d2) = int13_extensions v 0x4200 drive (dap 0 1 SCRATCHSEG (mem s1)) (dev s1)
              in (err2, s1\<lparr>mem := m2, dev := d2\<rparr>)
         else (err, s1))"

definition probed_geometry :: "probe \<Rightarrow> 64 word \<Rightarrow> geometry \<Rightarrow> geometry" where
  "probed_geometry p tot g =
     (let g1 = g\<lparr>cylinders := probed_cylinders p, heads := probed_heads p, sectors := probed_sectors_per_track p\<rparr>
      in if ucast (probed_total_sectors p) > tot then g1\<lparr>total_sectors := probed_total_sectors p\<rparr> else g1)"

text \<open>When the probe of a floppy fails, ask the BIOS.\<close>

definition floppy_geometry :: "mem \<Rightarrow> geometry \<Rightarrow> geometry" where
  "floppy_geometry m g =
     (let g1 = (if drp_heads m > 0 \<and> drp_heads m \<le> 256 \<and> drp_sectors m > 0 \<and> drp_sectors m \<le> 63
                then g\<lparr>sectors := drp_sectors m, heads := drp_heads m, cylinders := drp_cylinders m,
                       total_sectors := drp_cylinders m * drp_heads m * drp_sectors m\<rparr> else g)
      in if ucast (total_sectors g1) < drp_total m then g1\<lparr>total_sectors := ucast (drp_total m)\<rparr> else g1)"

definition probe_geometry :: "('d, 'h) disk_env \<Rightarrow> u32 \<Rightarrow> 64 word \<Rightarrow> geometry \<Rightarrow> ('d, 'h, 'z) gstate \<Rightarrow> geometry \<times> ('d, 'h, 'z) gstate" where
  "probe_geometry v drive tot g s =
     (let (err, s1) = read_boot_sector v drive g s;
          hd = drive AND 0x80 \<noteq> 0;
          p = (if hd then probe_mbr v (mem s1) (ucast tot) else probe_bpb v (mem s1))
      in if err \<noteq> 0 then (safe_geometry drive g, s1)
         else if probe_err p = 0 then (safe_geometry drive (probed_geometry p tot g), s1)
         else if hd then (safe_geometry drive g, s1)
         else let s2 = clear_packet 82 s1;
                  (_, m, d) = int13_extensions v 0x4800 drive (poke 0x580 (bytes16 66) (mem s2)) (dev s2)
              in (safe_geometry drive (floppy_geometry m g), s2\<lparr>mem := m, dev := d\<rparr>))"

text \<open>The result is the error number; \<open>g\<close> is the structure \<open>geometry\<close> points to.\<close>

definition bios_geometry :: "('d, 'h) disk_env \<Rightarrow> u32 \<Rightarrow> geometry \<Rightarrow> ('d, 'h, 'z) gstate \<Rightarrow> u32 \<times> geometry \<times> ('d, 'h, 'z) gstate" where
  "bios_geometry v drive g s =
     (let version = check_int13_extensions v drive (dev s);
          s1 = clear_packet 82 s;
          s2 = s1\<lparr>mem := poke 0x580 (bytes16 66) (mem s1)\<rparr>;
          (err, m, d) = (if drive AND 0x80 \<noteq> 0 then int13_extensions v 0x4800 drive (mem s2) (dev s2)
                         else (0, mem s2, dev s2));
          s3 = s2\<lparr>mem := m, dev := d\<rparr>;
          fl = (if err = 0 \<and> version AND 1 \<noteq> 0
                then BIOSDISK_FLAG_LBA_EXTENSION OR (if drp_bytes m = 2048 then BIOSDISK_FLAG_CDROM else 0) else 0);
          tot = (if err = 0 then drp_total m else 0);
          (version, c, h, n) = get_diskinfo_standard v drive d;
          g1 = (if version = 0 then g\<lparr>cylinders := c, heads := h, sectors := n\<rparr> else g)
      in if version \<noteq> 0 \<and> err \<noteq> 0 then (err, g1, s3)
         else let g2 = merge_geometry fl m g1;
                  total2 = max tot (chs_total g2);
                  g3 = g2\<lparr>total_sectors := ucast total2\<rparr>
              in if sector_size g3 \<noteq> SECTOR_SIZE then (0, g3, s3)
                 else let (g4, s4) = probe_geometry v drive total2 g3 s3 in (0, g4, s4))"

definition is_cdrom :: "('d, 'h) disk_env \<Rightarrow> u32 \<Rightarrow> bool" where
  "is_cdrom v drive \<longleftrightarrow> drive = cdrom_drive v \<or> (min_cdrom_id v \<le> drive \<and> drive < min_cdrom_id v + atapi_dev_count v)"

definition get_diskinfo :: "('d, 'h) disk_env \<Rightarrow> u32 \<Rightarrow> geometry \<Rightarrow> ('d, 'h, 'z) gstate \<Rightarrow> (u32 \<times> geometry \<times> ('d, 'h, 'z) gstate) option" where
  "get_diskinfo v drive g s0 =
     do { let s = (if drive = 0xffff \<and> mbi_flags s0 AND 0x40 = 0
                   then print_tty [Print (cs ''Address Map BIOS Interface is not activated.'' @ [10])] s0 else s0);
          special \<leftarrow>
            (if drive = 0xffff then
               do { tot \<leftarrow> total_mem_bytes v s;
                    Some (if tot \<noteq> 0 then Some (mem_geometry (ucast (drop_bit 9 tot))) else None) }
             else Some (if drive = ram_drive v \<and> rd_base v \<noteq> 0xffffffff
                        then Some (mem_geometry (if rd_size v \<noteq> 0 then drop_bit 9 (rd_size v + SECTOR_SIZE - 1) else 0x800000))
                        else None));
          case special of Some g' \<Rightarrow> Some (0, g', s)
          | None \<Rightarrow>
            if is_cdrom v drive then Some (0, cd_geometry, s)
            else let (cd, s1) = (if sint drive \<ge> 0x80 + sint (mem s 0x475) then get_cdinfo v drive s else (0, s))
                 in Some (if cd \<noteq> 0 then (0, cd_geometry, s1) else bios_geometry v drive g s1) }"

end
