(* ===== verification/RawDisk.thy ===== *)
theory RawDisk
imports Bios
begin

text \<open>
  Absolute and partition-relative sector access, \<open>stage2/disk_io.c\<close>: \<open>rawread\<close> with its track buffer,
  \<open>devread\<close>, \<open>rawwrite\<close> and \<open>devwrite\<close>.  The pointers are addresses of flat memory; the results are the
  returned truth value and the state, \<open>None\<close> where the code divides by zero or does not return.
\<close>

section \<open>Reading\<close>

text \<open>\<open>bsfl\<close>: the lowest bit that is set.  Its result for 0 is not defined; 0 here.\<close>

definition log2_tmp :: "u32 \<Rightarrow> nat" where
  "log2_tmp w = (case find (bit w) [0..<32] of Some n \<Rightarrow> n | None \<Rightarrow> 0)"

text \<open>Make the geometry of the buffer the one of \<open>drive\<close>.\<close>

definition select_drive :: "('d, 'h) disk_env \<Rightarrow> u32 \<Rightarrow> ('d, 'h, 'z) gstate \<Rightarrow> (bool \<times> ('d, 'h, 'z) gstate) option" where
  "select_drive v drive s =
     (if buf_drive s \<noteq> drive then
        do { (err, g, s1) \<leftarrow> get_diskinfo v drive (buf_geom s) s;
             Some (if err \<noteq> 0 then (False, s1\<lparr>buf_geom := g, errnum := ERR_NO_DISK\<rparr>)
                   else (True, s1\<lparr>buf_geom := g, buf_drive := drive, buf_track := -1\<rparr>)) }
      else Some (True, s))"

definition sectors_per_vtrack :: "geometry \<Rightarrow> u32" where
  "sectors_per_vtrack g =
     (let bits = log2_tmp (sector_size g)
      in if push_bit bits (sectors g) > BUFFERLEN then drop_bit bits BUFFERLEN else sectors g)"

text \<open>
  Have the sectors from \<open>sector\<close> on in the track buffer; the result is whether they are, and where
  the first one starts.
\<close>

definition load_track :: "('d, 'h) disk_env \<Rightarrow> u32 \<Rightarrow> u32 \<Rightarrow> u32 \<Rightarrow> ('d, 'h, 'z) gstate \<Rightarrow> (bool \<times> u32 \<times> ('d, 'h, 'z) gstate) option" where
  "load_track v drive sector slen s =
     (let bits = log2_tmp (sector_size (buf_geom s));
          spt = sectors_per_vtrack (buf_geom s);
          soff = sector mod spt;
          track = sector - soff;
          num_sect = spt - soff;
          bufaddr = BUFFERADDR + push_bit bits soff
      in if spt = 0 then None
         else if track \<noteq> buf_track s then
           let part = slen > num_sect
           in do { (bios_err, s1) \<leftarrow> biosdisk v False drive (buf_geom s) (if part then sector else track)
                                      (if part then num_sect else spt) BUFFERSEG
                                      (s\<lparr>buf_track := (if part then -1 else track)\<rparr>);
                   Some (if bios_err \<noteq> 0
                         then (False, 0, s1\<lparr>buf_track := -1, errnum := (if bios_err = BIOSDISK_ERROR_GEOMETRY then ERR_GEOM else ERR_READ)\<rparr>)
                         else (True, if part then BUFFERADDR else bufaddr, s1)) }
         else Some (True, bufaddr, s))"

text \<open>The calls of \<open>disk_read_func\<close> for the \<open>cnt\<close> bytes read.\<close>

function hook_sectors :: "(u32 \<Rightarrow> u32 \<Rightarrow> u32 \<Rightarrow> 'h \<Rightarrow> 'h) \<Rightarrow> u32 \<Rightarrow> u32 \<Rightarrow> u32 \<Rightarrow> 'h \<Rightarrow> 'h" where
  "hook_sectors f ssize sector len h =
     (if len > ssize \<and> ssize \<noteq> 0 then hook_sectors f ssize (sector + 1) (len - ssize) (f sector 0 ssize h)
      else f sector 0 len h)"
  by pat_completeness auto
termination
  by (relation "measure (\<lambda>(f, ssize, sector, len, h). unat len)") (auto simp: unat_sub word_less_nat_alt word_le_nat_alt unat_gt_0 intro!: diff_less)

declare hook_sectors.simps [simp del]

definition hook_read :: "('d, 'h) disk_env \<Rightarrow> u32 \<Rightarrow> u32 \<Rightarrow> u32 \<Rightarrow> ('d, 'h, 'z) gstate \<Rightarrow> ('d, 'h, 'z) gstate" where
  "hook_read v sector byte_offset cnt s =
     (case disk_read_func v of None \<Rightarrow> s
      | Some f \<Rightarrow>
          let ssize = sector_size (buf_geom s);
              len1 = (if ssize - byte_offset > cnt then cnt else ssize - byte_offset);
              h1 = f sector byte_offset len1 (hook s);
              len2 = cnt - len1
          in s\<lparr>hook := (if len2 > 0 then hook_sectors f ssize (sector + 1) len2 h1 else h1)\<rparr>)"

text \<open>
  One turn of the loop: \<open>None\<close> in the middle is a return of 0, otherwise the sector, offset, remaining
  length and buffer of the next turn.
\<close>

definition rawread_turn :: "('d, 'h) disk_env \<Rightarrow> u32 \<Rightarrow> u32 \<Rightarrow> u32 \<Rightarrow> u32 \<Rightarrow> u32 \<Rightarrow> ('d, 'h, 'z) gstate \<Rightarrow>
    ((u32 \<times> u32 \<times> u32 \<times> u32) option \<times> ('d, 'h, 'z) gstate) option" where
  "rawread_turn v drive sector byte_offset byte_len buf s0 =
     do { (ok, s) \<leftarrow> select_drive v drive s0;
          if \<not> ok then Some (None, s)
          else if sector_size (buf_geom s) = 0 then None
          else
            let bits = log2_tmp (sector_size (buf_geom s));
                slen = drop_bit bits (byte_offset + byte_len + sector_size (buf_geom s) - 1);
                spt = sectors_per_vtrack (buf_geom s)
            in do { (loaded, base, s1) \<leftarrow> load_track v drive sector slen s;
                    if \<not> loaded then Some (None, s1)
                    else let num_sect = spt - sector mod spt;
                             room = push_bit bits num_sect - byte_offset;
                             cnt = (if byte_len > room then room else byte_len);
                             s2 = hook_read v sector byte_offset cnt s1;
                             s3 = gmemmove buf (base + byte_offset) cnt s2
                         in Some (if errnum s3 = ERR_WONT_FIT then
                                    if \<not> rawread_ignore_memmove_overflow s3 then (None, s3)
                                    else (Some (sector + num_sect, 0, byte_len - cnt, 0), s3\<lparr>errnum := ERR_NONE\<rparr>)
                                  else (Some (sector + num_sect, 0, byte_len - cnt, buf + cnt), s3)) } }"

fun rawread_loop :: "nat \<Rightarrow> ('d, 'h) disk_env \<Rightarrow> u32 \<Rightarrow> u32 \<Rightarrow> u32 \<Rightarrow> u32 \<Rightarrow> u32 \<Rightarrow> ('d, 'h, 'z) gstate \<Rightarrow> (bool \<times> ('d, 'h, 'z) gstate) option" where
  "rawread_loop 0 v drive sector byte_offset byte_len buf s = None"
| "rawread_loop (Suc n) v drive sector byte_offset byte_len buf s =
     (if byte_len = 0 then Some (True, s)
      else do { (r, s1) \<leftarrow> rawread_turn v drive sector byte_offset byte_len buf s;
                case r of None \<Rightarrow> Some (False, s1)
                | Some (sector', offset', len', buf') \<Rightarrow> rawread_loop n v drive sector' offset' len' buf' s1 })"

text \<open>Every turn but perhaps the first reads a byte, so \<open>byte_len + 2\<close> turns are enough.\<close>

definition rawread :: "('d, 'h) disk_env \<Rightarrow> u32 \<Rightarrow> u32 \<Rightarrow> u32 \<Rightarrow> u32 \<Rightarrow> u32 \<Rightarrow> ('d, 'h, 'z) gstate \<Rightarrow> (bool \<times> ('d, 'h, 'z) gstate) option" where
  "rawread v drive sector byte_offset byte_len buf s =
     rawread_loop (unat byte_len + 2) v drive sector byte_offset byte_len buf (s\<lparr>errnum := ERR_NONE\<rparr>)"

text \<open>Relative to the partition.  An emulated CD counts sectors of 2048 bytes.\<close>

definition devread :: "('d, 'h) disk_env \<Rightarrow> u32 \<Rightarrow> u32 \<Rightarrow> u32 \<Rightarrow> u32 \<Rightarrow> ('d, 'h, 'z) gstate \<Rightarrow> (bool \<times> ('d, 'h, 'z) gstate) option" where
  "devread v sector0 byte_offset byte_len buf s0 =
     (let bits = log2_tmp (sector_size (buf_geom s0));
          sector1 = (if emu_iso_sector_size_2048 s0 then push_bit (nat ((11 - int bits) mod 32)) sector0 else sector0);
          s = s0\<lparr>emu_iso_sector_size_2048 := False\<rparr>
      in if sector1 + drop_bit bits (byte_offset + byte_len - 1) \<ge> part_length s then Some (False, fail ERR_OUTSIDE_PART s)
         else let sector = sector1 + drop_bit bits byte_offset;
                  offset = byte_offset AND (sector_size (buf_geom s) - 1);
                  s1 = (if \<not> Option.is_none (disk_read_hook v) \<and> debug s \<ge> 0x7FFFFFFF
                        then print_tty [SectorTrace sector offset byte_len] s else s)
              in rawread v (current_drive s1) (part_start s1 + sector) offset byte_len buf s1)"

section \<open>Writing\<close>

definition rawwrite :: "('d, 'h) disk_env \<Rightarrow> u32 \<Rightarrow> u32 \<Rightarrow> u32 \<Rightarrow> ('d, 'h, 'z) gstate \<Rightarrow> (bool \<times> ('d, 'h, 'z) gstate) option" where
  "rawwrite v drive sector buf s =
     do { (err, s1) \<leftarrow> biosdisk v False drive (buf_geom s) sector 1 SCRATCHSEG s;
          if err \<noteq> 0 then Some (False, fail ERR_READ s1)
          else if peek (mem s1) SCRATCHADDR 512 = peek (mem s1) buf 512 then Some (True, s1)
          else do { (err2, s3) \<leftarrow> biosdisk v True drive (buf_geom s1) sector 1 SCRATCHSEG (gmemmove SCRATCHADDR buf SECTOR_SIZE s1);
                    if err2 \<noteq> 0 then Some (False, fail ERR_WRITE s3)
                    else if buf_drive s3 = drive then
                      if sectors (buf_geom s3) = 0 then None
                      else if sector - sector mod sectors (buf_geom s3) = buf_track s3
                      then Some (True, gmemmove (BUFFERADDR + push_bit 9 (sector - buf_track s3)) buf SECTOR_SIZE s3)
                      else Some (True, s3)
                    else Some (True, s3) } }"

fun devwrite_loop :: "nat \<Rightarrow> ('d, 'h) disk_env \<Rightarrow> u32 \<Rightarrow> u32 \<Rightarrow> u32 \<Rightarrow> ('d, 'h, 'z) gstate \<Rightarrow> (bool \<times> ('d, 'h, 'z) gstate) option" where
  "devwrite_loop 0 v sector i buf s = Some (True, s)"
| "devwrite_loop (Suc n) v sector i buf s =
     do { (ok, s1) \<leftarrow> rawwrite v (current_drive s) (part_start s + sector + i) (buf + push_bit 9 i) s;
          if \<not> ok then Some (False, s1) else devwrite_loop n v sector (i + 1) buf s1 }"

definition devwrite :: "('d, 'h) disk_env \<Rightarrow> u32 \<Rightarrow> u32 \<Rightarrow> u32 \<Rightarrow> ('d, 'h, 'z) gstate \<Rightarrow> (bool \<times> ('d, 'h, 'z) gstate) option" where
  "devwrite v sector sector_count buf s = devwrite_loop (unat sector_count) v sector 0 buf s"

end
