(* ===== verification/DiskRead.thy ===== *)
theory DiskRead
imports RawDisk
begin

text \<open>
  \<open>rawread\<close> reads what is on the disk.  The locale \<open>sector_source\<close> states what the track buffer relies
  on: a drive whose sectors \<open>biosdisk\<close> reads into the buffer.  It is interpreted on \<open>biosdisk\<close> for drives
  with the disk address packet and for drives addressed by cylinder, head and sector.
\<close>

section \<open>Words\<close>

lemma log2_tmp_pow:
  assumes "k < 32"
  shows "log2_tmp (2 ^ k) = k"
proof -
  have b: "bit (2 ^ k :: u32) n \<longleftrightarrow> n = k \<and> n < 32" for n
    using assms by (auto simp: bit_exp_iff)
  have "find (bit (2 ^ k :: u32)) [0..<32] = Some k"
    unfolding find_Some_iff using assms by (intro exI [of _ k]) (auto simp: b)
  then show ?thesis by (simp add: log2_tmp_def)
qed

lemma push_bit_of_nat: "push_bit k (of_nat n :: u32) = of_nat (n * 2 ^ k)"
  by (simp add: push_bit_eq_mult mult.commute)

lemma unat_of_nat_small: "n < 2 ^ 32 \<Longrightarrow> unat (of_nat n :: u32) = n"
  by (simp add: unat_of_nat)

lemma drop_bit_of_nat:
  assumes "n < 2 ^ 32"
  shows "drop_bit k (of_nat n :: u32) = of_nat (n div 2 ^ k)"
proof (rule word_unat_eq_iff [THEN iffD2])
  have "n div 2 ^ k \<le> n" by (rule div_le_dividend)
  then have l: "n div 2 ^ k < 2 ^ 32" using assms by linarith
  have "unat (drop_bit k (of_nat n :: u32)) = drop_bit k (unat (of_nat n :: u32))"
    by (rule unat_drop_bit_eq)
  also have "\<dots> = n div 2 ^ k" by (simp only: drop_bit_eq_div unat_of_nat_small [OF assms])
  finally show "unat (drop_bit k (of_nat n :: u32)) = unat (of_nat (n div 2 ^ k) :: u32)"
    using unat_of_nat_small [OF l] by simp
qed

lemma of_nat_mod_u32:
  assumes "a < 2 ^ 32" "b < 2 ^ 32"
  shows "(of_nat a :: u32) mod of_nat b = of_nat (a mod b)"
proof (rule word_unat_eq_iff [THEN iffD2])
  have "a mod b < 2 ^ 32" using assms(1) by (rule le_less_trans [OF mod_less_eq_dividend])
  then show "unat ((of_nat a :: u32) mod of_nat b) = unat (of_nat (a mod b) :: u32)"
    by (simp only: unat_mod unat_of_nat_small assms)
qed

lemma unat_add_of_nat: "unat (a :: u32) + n < 2 ^ 32 \<Longrightarrow> unat (a + of_nat n) = unat a + n"
  by (simp add: unat_word_ariths unat_of_nat)

lemma of_nat_less_u32: "a < 2 ^ 32 \<Longrightarrow> b < 2 ^ 32 \<Longrightarrow> (of_nat a :: u32) < of_nat b \<longleftrightarrow> a < b"
  by (simp add: word_less_nat_alt unat_of_nat_small)

section \<open>Memory regions\<close>

text \<open>The packets and the track and scratch buffers.\<close>

definition io_area :: "u32 \<Rightarrow> bool" where
  "io_area x \<longleftrightarrow> 0x580 \<le> x \<and> x < 0x5d2 \<or> 0x70000 \<le> x \<and> x < 0x78000"

definition same_outside :: "(u32 \<Rightarrow> bool) \<Rightarrow> mem \<Rightarrow> mem \<Rightarrow> bool" where
  "same_outside A m m' \<longleftrightarrow> (\<forall>x. \<not> A x \<longrightarrow> m' x = m x)"

lemma same_outside_refl [simp]: "same_outside A m m"
  by (simp add: same_outside_def)

lemma same_outside_trans: "same_outside A m1 m2 \<Longrightarrow> same_outside A m2 m3 \<Longrightarrow> same_outside A m1 m3"
  by (simp add: same_outside_def)

definition region :: "u32 \<Rightarrow> nat \<Rightarrow> u32 \<Rightarrow> bool" where
  "region a n x \<longleftrightarrow> unat (x - a) < n"

text \<open>A destination \<open>memcheck\<close> accepts whole and that is clear of the buffers.\<close>

definition dest_ok :: "u32 \<Rightarrow> u32 \<Rightarrow> nat \<Rightarrow> bool" where
  "dest_ok upper buf n \<longleftrightarrow> buf \<noteq> 0 \<and> unat buf + n \<le> 0x100000 + unat upper * 1024 \<and> unat upper < 2 ^ 22 - 1024
     \<and> (\<forall>i < n. \<not> io_area (buf + of_nat i))"

lemma dest_ok_bound: "dest_ok upper buf n \<Longrightarrow> unat buf + n \<le> 2 ^ 32"
  by (simp add: dest_ok_def)

lemma dest_ok_part:
  assumes "dest_ok upper buf n" "j + c \<le> n"
  shows "dest_ok upper (buf + of_nat j) c \<or> c = 0"
proof (cases "c = 0")
  case False
  have "unat buf + j < 2 ^ 32" using dest_ok_bound [OF assms(1)] assms(2) False by linarith
  then have u: "unat (buf + of_nat j) = unat buf + j"
    by (simp add: unat_word_ariths unat_of_nat)
  have "buf + of_nat j \<noteq> 0"
  proof
    assume "buf + of_nat j = 0"
    then have "unat buf + j = 0" using u by simp
    then have "unat buf = 0" by simp
    then show False using assms(1) by (simp add: dest_ok_def unat_eq_0)
  qed
  moreover have "\<not> io_area (buf + of_nat j + of_nat i)" if "i < c" for i
  proof -
    have "j + i < n" using that assms(2) by linarith
    then have "\<not> io_area (buf + of_nat (j + i))" using assms(1) unfolding dest_ok_def by blast
    then show ?thesis by (simp add: add.assoc)
  qed
  ultimately show ?thesis using assms u by (simp add: dest_ok_def)
qed simp

lemma memcheck_dest:
  assumes "dest_ok upper buf n"
  shows "memcheck upper buf (of_nat n) = ERR_NONE"
proof (cases "buf \<ge> 0x100000")
  case True
  have n: "n < 2 ^ 32" "unat upper * 1024 < 2 ^ 32"
    using assms True by (simp_all add: dest_ok_def word_le_nat_alt)
  have "unat (upper * 1024) = unat upper * 1024" using n by (simp add: unat_word_ariths)
  moreover have "unat (buf - 0x100000) = unat buf - 0x100000" using True by (simp add: unat_sub)
  moreover have "unat (buf - 0x100000 + of_nat n) = unat buf - 0x100000 + n"
  proof -
    have "unat buf - 0x100000 + n < 2 ^ 32" using assms True n by (auto simp: dest_ok_def word_le_nat_alt)
    then show ?thesis using calculation(2) unat_of_nat_small [OF n(1)]
      by (simp only: unat_word_ariths(1)) simp
  qed
  ultimately show ?thesis
    using assms True by (auto simp: memcheck_def dest_ok_def word_less_nat_alt word_le_nat_alt)
next
  case False
  then show ?thesis using assms by (simp add: memcheck_def dest_ok_def)
qed

lemma gmemmove_dest:
  assumes "dest_ok (mem_upper s) buf n" "unat from + n \<le> 2 ^ 32"
  shows "gmemmove buf from (of_nat n) s = s\<lparr>errnum := ERR_NONE, mem := copied buf from n (mem s)\<rparr>"
proof -
  have "0 < unat buf" using assms(1) by (simp add: dest_ok_def unat_gt_0)
  then have "n < 2 ^ 32" using dest_ok_bound [OF assms(1)] by linarith
  then have "unat (of_nat n :: u32) = n" by (rule unat_of_nat_small)
  then show ?thesis
    using grub_memmove_effect [OF memcheck_dest [OF assms(1)], of "from" "mem s"] dest_ok_bound [OF assms(1)] assms(2)
    by (simp add: gmemmove_def)
qed

lemma copied_in: "i < n \<Longrightarrow> n \<le> 2 ^ 32 \<Longrightarrow> copied to from n m (to + of_nat i) = m (from + of_nat i)"
  by (simp add: copied_def unat_of_nat)

lemma copied_out: "\<not> region to n x \<Longrightarrow> copied to from n m x = m x"
  by (simp add: copied_def region_def)

section \<open>The track buffer\<close>

text \<open>The invariant of the buffer: it is empty or holds the \<open>spt\<close> sectors of the track \<open>buf_track\<close>.\<close>

definition buffer_ok :: "u32 \<Rightarrow> geometry \<Rightarrow> (nat \<Rightarrow> u8) \<Rightarrow> nat \<Rightarrow> nat \<Rightarrow> nat \<Rightarrow> ('d, 'h, 'z) gstate \<Rightarrow> bool" where
  "buffer_ok drive g disk N k spt s \<longleftrightarrow> buf_drive s = drive \<and> buf_geom s = g \<and>
     (buf_track s \<noteq> -1 \<longrightarrow> unat (buf_track s) mod spt = 0 \<and> unat (buf_track s) + spt \<le> N \<and>
        (\<forall>i < spt * 2 ^ k. mem s (BUFFERADDR + of_nat i) = disk (unat (buf_track s) * 2 ^ k + i)))"

lemma hook_read_keeps: "\<exists>h. hook_read v sec off c s = s\<lparr>hook := h\<rparr>"
proof (cases "disk_read_func v")
  case None
  then show ?thesis by (intro exI [of _ "hook s"]) (simp add: hook_read_def)
next
  case (Some f)
  then show ?thesis by (auto simp: hook_read_def Let_def)
qed

text \<open>
  \<open>disk\<close> is the content of a drive of \<open>N\<close> sectors of \<open>2 ^ k\<close> bytes; \<open>spt\<close> sectors are buffered.  \<open>ready\<close>
  is what the drive needs to read them.
\<close>

locale sector_source =
  fixes v :: "('d, 'h) disk_env" and drive :: u32 and g :: geometry
    and disk :: "nat \<Rightarrow> u8" and N k spt :: nat and ready :: "('d, 'h, 'z) gstate \<Rightarrow> bool"
  assumes geom: "ready s \<Longrightarrow> sector_size g = 2 ^ k \<and> k \<le> 11 \<and> unat (sectors_per_vtrack g) = spt \<and> 0 < spt
      \<and> spt * 2 ^ k \<le> 0x7e00 \<and> N \<le> 2 ^ 31"
    and read: "ready s \<Longrightarrow> 0 < n \<Longrightarrow> sector mod spt + n \<le> spt \<Longrightarrow> sector + n \<le> N \<Longrightarrow>
      \<exists>m e. biosdisk v False drive g (of_nat sector) (of_nat n) BUFFERSEG s = Some (0, s\<lparr>mem := m, errnum := e\<rparr>)
        \<and> (\<forall>i < n * 2 ^ k. m (BUFFERADDR + of_nat i) = disk (sector * 2 ^ k + i)) \<and> same_outside io_area (mem s) m"
    and stable: "ready s \<Longrightarrow> dev s' = dev s \<Longrightarrow> ready s'"
begin

definition cached :: "('d, 'h, 'z) gstate \<Rightarrow> bool" where
  "cached s \<longleftrightarrow> ready s \<and> buffer_ok drive g disk N k spt s"

lemma ss_pos: "ready s \<Longrightarrow> 0 < (2::nat) ^ k \<and> (2::nat) ^ k \<le> 2048"
proof -
  assume "ready s"
  then have "k \<le> 11" using geom by blast
  then have "(2::nat) ^ k \<le> 2 ^ 11" by (intro power_increasing) auto
  then show ?thesis by simp
qed

lemma load_track_correct:
  assumes c: "cached s" and S: "S < N" and fit: "S div spt * spt + spt \<le> N"
  defines "num \<equiv> spt - S mod spt"
  shows "\<exists>s1 base m e t. load_track v drive (of_nat S) slen s = Some (True, base, s1)
     \<and> s1 = s\<lparr>mem := m, errnum := e, buf_track := t\<rparr> \<and> cached s1 \<and> same_outside io_area (mem s) m
     \<and> 0x70000 \<le> unat base \<and> unat base + num * 2 ^ k \<le> 0x77e00
     \<and> (\<forall>i < num * 2 ^ k. m (base + of_nat i) = disk (S * 2 ^ k + i))"
proof -
  have r: "ready s" and g: "buf_geom s = g" using c by (auto simp: cached_def buffer_ok_def)
  have gg: "sector_size g = 2 ^ k" "k \<le> 11" "unat (sectors_per_vtrack g) = spt" "0 < spt" "spt * 2 ^ k \<le> 0x7e00" "N \<le> 2 ^ 31"
    using geom [OF r] by auto
  have k: "log2_tmp (sector_size g) = k" using gg(1,2) log2_tmp_pow [of k] by simp
  have spt: "sectors_per_vtrack g = of_nat spt" using gg(3) by (auto simp flip: gg(3))
  have spt': "spt \<le> 0x7e00" using gg(5) by (metis mult.right_neutral mult_le_mono2 order_trans one_le_numeral one_le_power)
  define soff track where "soff = S mod spt" and "track = S div spt * spt"
  have so: "soff < spt" "S = track + soff" using gg(4) by (simp_all add: soff_def track_def)
  have small: "S < 2 ^ 32" "spt < 2 ^ 32" "track < 2 ^ 32" using S gg(6) spt' so by auto
  have w_soff: "(of_nat S :: u32) mod of_nat spt = of_nat soff"
    using of_nat_mod_u32 [OF small(1,2)] by (simp add: soff_def)
  have w_track: "(of_nat S :: u32) - of_nat soff = of_nat track" unfolding so(2) by simp
  have w_num: "(of_nat spt :: u32) - of_nat soff = of_nat num"
    using so(1) by (simp add: num_def soff_def of_nat_diff)
  have nz: "(of_nat spt :: u32) \<noteq> 0" using small(2) gg(4) unat_of_nat_small by fastforce
  have num: "num * 2 ^ k + soff * 2 ^ k = spt * 2 ^ k" "0 < num" "num \<le> spt"
    using so(1) by (simp_all add: num_def soff_def flip: distrib_right)
  have "num = spt - soff" by (simp add: num_def soff_def)
  moreover have "track + spt \<le> N" using fit by (simp add: track_def)
  ultimately have tn: "track + spt \<le> N" "S + num \<le> N" using so by linarith+
  define base where "base = BUFFERADDR + of_nat (soff * 2 ^ k)"
  have ub: "unat base = 0x70000 + soff * 2 ^ k"
    unfolding base_def using num(1) gg(5) by (subst unat_add_of_nat) (simp_all add: BUFFERADDR_def)
  have whole: "\<forall>i < num * 2 ^ k. m (base + of_nat i) = disk (S * 2 ^ k + i)"
    if "\<forall>i < spt * 2 ^ k. m (BUFFERADDR + of_nat i) = disk (track * 2 ^ k + i)" for m
  proof (intro allI impI)
    fix i assume i: "i < num * 2 ^ k"
    have "soff * 2 ^ k + i < spt * 2 ^ k" using i num(1) by linarith
    then have "m (BUFFERADDR + of_nat (soff * 2 ^ k + i)) = disk (track * 2 ^ k + (soff * 2 ^ k + i))"
      using that by blast
    then show "m (base + of_nat i) = disk (S * 2 ^ k + i)"
      unfolding base_def so(2) by (simp add: algebra_simps)
  qed
  have bnd: "0x70000 \<le> unat base \<and> unat base + num * 2 ^ k \<le> 0x77e00" using ub num(1) gg(5) by linarith
  let ?lt = "load_track v drive (of_nat S) slen s"
  consider "of_nat track = buf_track s" | "of_nat track \<noteq> buf_track s" "slen > of_nat num"
    | "of_nat track \<noteq> buf_track s" "\<not> slen > of_nat num" by blast
  then show ?thesis
  proof cases
    case 1
    have lt: "?lt = Some (True, base, s)"
      using nz 1 by (simp add: load_track_def g k spt w_soff w_track Let_def push_bit_of_nat base_def)
    have "buf_track s \<noteq> -1"
    proof
      assume "buf_track s = -1"
      then have "unat (of_nat track :: u32) = unat (- 1 :: u32)" using 1 by simp
      moreover have "unat (- 1 :: u32) = 2 ^ 32 - 1"
        by (simp add: unsigned_minus_1_eq_mask mask_eq_exp_minus_1)
      ultimately show False using tn gg(6) small(3) by (simp add: unat_of_nat_small)
    qed
    moreover have "unat (buf_track s) = track" using 1 small(3) unat_of_nat_small by metis
    ultimately have w: "\<forall>i < spt * 2 ^ k. mem s (BUFFERADDR + of_nat i) = disk (track * 2 ^ k + i)"
      using c unfolding cached_def buffer_ok_def by blast
    have "s = s\<lparr>mem := mem s, errnum := errnum s, buf_track := buf_track s\<rparr>" by simp
    then show ?thesis using lt c bnd whole [OF w] same_outside_refl [of io_area "mem s"] by blast
  next
    case 2
    let ?s0 = "s\<lparr>buf_track := -1\<rparr>"
    have r0: "ready ?s0" by (rule stable [OF r]) simp
    have "S mod spt + num \<le> spt" using so(1) by (simp add: num_def soff_def)
    then obtain m e where b: "biosdisk v False drive g (of_nat S) (of_nat num) BUFFERSEG ?s0 = Some (0, ?s0\<lparr>mem := m, errnum := e\<rparr>)"
      "\<forall>i < num * 2 ^ k. m (BUFFERADDR + of_nat i) = disk (S * 2 ^ k + i)" "same_outside io_area (mem s) m"
      using read [OF r0 num(2) _ tn(2)] by auto
    let ?s1 = "s\<lparr>mem := m, errnum := e, buf_track := -1\<rparr>"
    have lt: "?lt = Some (True, BUFFERADDR, ?s1)"
      using nz 2 b(1) by (simp add: load_track_def g k spt w_soff w_track w_num Let_def)
    have "cached ?s1" using c stable [OF r, of ?s1] by (simp add: cached_def buffer_ok_def)
    moreover have "0x70000 \<le> unat BUFFERADDR \<and> unat BUFFERADDR + num * 2 ^ k \<le> 0x77e00"
      using num(1) gg(5) by (simp add: BUFFERADDR_def)
    ultimately show ?thesis using lt b(2,3) by blast
  next
    case 3
    let ?s0 = "s\<lparr>buf_track := of_nat track\<rparr>"
    have r0: "ready ?s0" by (rule stable [OF r]) simp
    obtain m e where b: "biosdisk v False drive g (of_nat track) (of_nat spt) BUFFERSEG ?s0 = Some (0, ?s0\<lparr>mem := m, errnum := e\<rparr>)"
      "\<forall>i < spt * 2 ^ k. m (BUFFERADDR + of_nat i) = disk (track * 2 ^ k + i)" "same_outside io_area (mem s) m"
      using read [OF r0 gg(4) _ tn(1)] by (auto simp: track_def)
    let ?s1 = "s\<lparr>mem := m, errnum := e, buf_track := of_nat track\<rparr>"
    have lt: "?lt = Some (True, base, ?s1)"
      using nz 3 b(1) by (simp add: load_track_def g k spt w_soff w_track w_num Let_def push_bit_of_nat base_def)
    have "track mod spt = 0" by (simp add: track_def)
    then have "cached ?s1"
      using c stable [OF r, of ?s1] b(2) tn(1) small(3) by (simp add: cached_def buffer_ok_def unat_of_nat_small)
    then show ?thesis using lt bnd b(3) whole [OF b(2)] by blast
  qed
qed


lemma cached_keep:
  assumes "cached s" "\<And>x. io_area x \<Longrightarrow> m x = mem s x"
  shows "cached (s\<lparr>mem := m, errnum := e, hook := h\<rparr>)"
proof -
  have r: "ready s" using assms(1) by (simp add: cached_def buffer_ok_def)
  have "m (BUFFERADDR + of_nat i) = mem s (BUFFERADDR + of_nat i)" if "i < spt * 2 ^ k" for i
  proof -
    have "i < 0x7e00" using that geom [OF r] by linarith
    then have "unat (BUFFERADDR + of_nat i) = 0x70000 + i"
      by (subst unat_add_of_nat) (simp_all add: BUFFERADDR_def)
    then have "io_area (BUFFERADDR + of_nat i)"
      using \<open>i < 0x7e00\<close> by (simp add: io_area_def word_le_nat_alt word_less_nat_alt)
    then show ?thesis by (rule assms(2))
  qed
  then show ?thesis
    using assms(1) stable [OF r, of "s\<lparr>mem := m, errnum := e, hook := h\<rparr>"] by (simp add: cached_def buffer_ok_def)
qed

lemma cached_same:
  assumes "cached s" "dev s' = dev s" "mem s' = mem s" "buf_drive s' = buf_drive s" "buf_geom s' = buf_geom s" "buf_track s' = buf_track s"
  shows "cached s'"
  using assms stable [of s s'] by (simp add: cached_def buffer_ok_def)

lemma rawread_turn_correct:
  assumes c: "cached s" and S: "S < N" and fit: "S div spt * spt + spt \<le> N" and off: "off < 2 ^ k"
    and L: "0 < L" "L < 2 ^ 32"
  defines "num \<equiv> spt - S mod spt"
  defines "cnt \<equiv> min L (num * 2 ^ k - off)"
  assumes d: "dest_ok (mem_upper s) B cnt"
  shows "0 < cnt" and "\<exists>m t h. rawread_turn v drive (of_nat S) (of_nat off) (of_nat L) B s =
      Some (Some (of_nat (S + num), 0, of_nat (L - cnt), B + of_nat cnt), s\<lparr>mem := m, errnum := ERR_NONE, buf_track := t, hook := h\<rparr>)
    \<and> cached (s\<lparr>mem := m, errnum := ERR_NONE, buf_track := t, hook := h\<rparr>)
    \<and> same_outside (\<lambda>x. io_area x \<or> region B cnt x) (mem s) m
    \<and> (\<forall>i < cnt. m (B + of_nat i) = disk (S * 2 ^ k + off + i))"
proof -
  have r: "ready s" and g: "buf_geom s = g" "buf_drive s = drive" using c by (auto simp: cached_def buffer_ok_def)
  have gg: "sector_size g = 2 ^ k" "k \<le> 11" "unat (sectors_per_vtrack g) = spt" "0 < spt" "spt * 2 ^ k \<le> 0x7e00" "N \<le> 2 ^ 31"
    using geom [OF r] by auto
  have k: "log2_tmp (sector_size g) = k" using gg(1,2) log2_tmp_pow [of k] by simp
  have spt: "sectors_per_vtrack g = of_nat spt" using gg(3) by (auto simp flip: gg(3))
  have spt': "spt \<le> 0x7e00" using gg(5) by (metis mult.right_neutral mult_le_mono2 order_trans one_le_numeral one_le_power)
  have p: "(0::nat) < 2 ^ k" "(2::nat) ^ k \<le> 2048" using ss_pos [OF r] by auto
  have nz: "sector_size g \<noteq> 0" using gg(1,2) by simp
  have so: "S mod spt < spt" using gg(4) by simp
  then have num: "0 < num" "num \<le> spt" by (simp_all add: num_def)
  have "num * 2 ^ k \<le> 0x7e00" using mult_le_mono1 [OF num(2), of "2 ^ k"] gg(5) by linarith
  moreover have "2 ^ k \<le> num * 2 ^ k" using num(1) by simp
  ultimately have room: "off < num * 2 ^ k" "num * 2 ^ k \<le> 0x7e00" using off by linarith+
  show cnt0: "0 < cnt" using L room by (simp add: cnt_def)
  have cnt: "cnt \<le> L" "off + cnt \<le> num * 2 ^ k" using room by (simp_all add: cnt_def)
  have w_num: "(of_nat spt :: u32) - of_nat S mod of_nat spt = of_nat num"
    using of_nat_mod_u32 [of S spt] S gg(6) spt' so by (simp add: num_def of_nat_diff)
  have w_room: "push_bit k (of_nat num :: u32) - of_nat off = of_nat (num * 2 ^ k - off)"
    using room(1) by (simp add: push_bit_of_nat of_nat_diff)
  have w_cnt: "(if of_nat L > (of_nat (num * 2 ^ k - off) :: u32) then of_nat (num * 2 ^ k - off) else of_nat L) = (of_nat cnt :: u32)"
    using of_nat_less_u32 [of "num * 2 ^ k - off" L] L(2) room(2) by (auto simp: cnt_def min_def)
  have w_rest: "(of_nat L :: u32) - of_nat cnt = of_nat (L - cnt)" using cnt(1) by (simp add: of_nat_diff)
  define slen where "slen = drop_bit k (of_nat off + of_nat L + sector_size g - 1 :: u32)"
  obtain s1 base m1 e1 t where ld: "load_track v drive (of_nat S) slen s = Some (True, base, s1)"
      and s1: "s1 = s\<lparr>mem := m1, errnum := e1, buf_track := t\<rparr>" and c1: "cached s1"
      and so1: "same_outside io_area (mem s) m1"
      and base: "0x70000 \<le> unat base" "unat base + num * 2 ^ k \<le> 0x77e00"
      and data: "\<forall>i < num * 2 ^ k. m1 (base + of_nat i) = disk (S * 2 ^ k + i)"
    using load_track_correct [OF c S fit, of slen] unfolding num_def by blast
  obtain h where h: "hook_read v (of_nat S) (of_nat off) (of_nat cnt) s1 = s1\<lparr>hook := h\<rparr>"
    using hook_read_keeps [of v "of_nat S" "of_nat off" "of_nat cnt" s1] by blast
  define m where "m = copied B (base + of_nat off) cnt m1"
  have ub: "unat (base + of_nat off) = unat base + off" using base room by (intro unat_add_of_nat) simp
  have mv: "gmemmove B (base + of_nat off) (of_nat cnt) (s1\<lparr>hook := h\<rparr>) = s1\<lparr>hook := h, errnum := ERR_NONE, mem := m\<rparr>"
    using gmemmove_dest [of "s1\<lparr>hook := h\<rparr>" B cnt "base + of_nat off"] d ub base cnt(2) by (simp add: s1 m_def)
  have turn: "rawread_turn v drive (of_nat S) (of_nat off) (of_nat L) B s =
      Some (Some (of_nat (S + num), 0, of_nat (L - cnt), B + of_nat cnt), s\<lparr>mem := m, errnum := ERR_NONE, buf_track := t, hook := h\<rparr>)"
    unfolding rawread_turn_def select_drive_def g
    by (simp only: simp_thms if_False if_True bind.simps prod.case Let_def g nz k spt ld [unfolded slen_def])
      (unfold w_num w_room w_cnt w_rest h mv, simp add: s1)
  have out: "\<not> io_area x" if "region B cnt x" for x
  proof -
    have "\<not> io_area (B + of_nat (unat (x - B)))" using d that unfolding dest_ok_def region_def by blast
    then show ?thesis by simp
  qed
  have "m x = m1 x" if "io_area x" for x unfolding m_def by (rule copied_out) (use out that in blast)
  then have "cached (s1\<lparr>mem := m, errnum := ERR_NONE, hook := h\<rparr>)" by (intro cached_keep [OF c1]) (simp add: s1)
  moreover have "s1\<lparr>mem := m, errnum := ERR_NONE, hook := h\<rparr> = s\<lparr>mem := m, errnum := ERR_NONE, buf_track := t, hook := h\<rparr>"
    unfolding s1 by simp
  ultimately have c2: "cached (s\<lparr>mem := m, errnum := ERR_NONE, buf_track := t, hook := h\<rparr>)" by simp
  have so2: "same_outside (\<lambda>x. io_area x \<or> region B cnt x) (mem s) m"
    using so1 by (auto simp: same_outside_def m_def copied_out)
  have "m (B + of_nat i) = disk (S * 2 ^ k + off + i)" if i: "i < cnt" for i
  proof -
    have "cnt \<le> 2 ^ 32" "off + i < num * 2 ^ k" using i cnt room by auto
    then have "m (B + of_nat i) = m1 (base + of_nat (off + i))"
      using copied_in [OF i, of B "base + of_nat off" m1] by (simp add: m_def add.assoc)
    moreover have "m1 (base + of_nat (off + i)) = disk (S * 2 ^ k + (off + i))"
      using data \<open>off + i < num * 2 ^ k\<close> by blast
    ultimately show ?thesis by (simp add: add.assoc)
  qed
  then show "\<exists>m t h. rawread_turn v drive (of_nat S) (of_nat off) (of_nat L) B s =
      Some (Some (of_nat (S + num), 0, of_nat (L - cnt), B + of_nat cnt), s\<lparr>mem := m, errnum := ERR_NONE, buf_track := t, hook := h\<rparr>)
    \<and> cached (s\<lparr>mem := m, errnum := ERR_NONE, buf_track := t, hook := h\<rparr>)
    \<and> same_outside (\<lambda>x. io_area x \<or> region B cnt x) (mem s) m
    \<and> (\<forall>i < cnt. m (B + of_nat i) = disk (S * 2 ^ k + off + i))"
    using turn c2 so2 by blast
qed


lemma region_part:
  assumes "region (B + of_nat c) (L - c) x" "c \<le> L" "L < 2 ^ 32"
  shows "region B L x"
proof -
  have "x - B = (x - (B + of_nat c)) + of_nat c" by simp
  moreover have "unat (x - (B + of_nat c)) + c < 2 ^ 32" using assms by (simp add: region_def)
  ultimately have "unat (x - B) = unat (x - (B + of_nat c)) + c" by (metis unat_add_of_nat)
  then show ?thesis using assms(1,2) by (simp add: region_def)
qed

lemma not_region_before:
  assumes "i < c" "c \<le> L" "L < 2 ^ 32"
  shows "\<not> region (B + of_nat c) (L - c) (B + of_nat i)"
proof -
  have "B + of_nat i - (B + of_nat c) = (of_nat i - of_nat c :: u32)" by simp
  moreover have "unat (of_nat i - of_nat c :: u32) = 2 ^ 32 + i - c"
    using assms by (intro unat_diff_wrap) auto
  ultimately show ?thesis using assms by (simp add: region_def)
qed

lemma rawread_loop_correct:
  assumes "cached s" "errnum s = ERR_NONE" "off < 2 ^ k" "L < 2 ^ 32" "L < n"
    and "0 < L \<Longrightarrow> (S * 2 ^ k + off + L - 1) div 2 ^ k div spt * spt + spt \<le> N"
    and "0 < L \<Longrightarrow> dest_ok (mem_upper s) B L"
  shows "\<exists>m t h. rawread_loop n v drive (of_nat S) (of_nat off) (of_nat L) B s =
      Some (True, s\<lparr>mem := m, errnum := ERR_NONE, buf_track := t, hook := h\<rparr>)
    \<and> cached (s\<lparr>mem := m, errnum := ERR_NONE, buf_track := t, hook := h\<rparr>)
    \<and> same_outside (\<lambda>x. io_area x \<or> region B L x) (mem s) m
    \<and> (\<forall>i < L. m (B + of_nat i) = disk (S * 2 ^ k + off + i))"
  using assms
proof (induction n arbitrary: S off L B s)
  case (Suc n)
  note prems = Suc.prems
  show ?case
  proof (cases "L = 0")
    case True
    have "s\<lparr>mem := mem s, errnum := ERR_NONE, buf_track := buf_track s, hook := hook s\<rparr> = s"
      using prems(2) by simp
    then show ?thesis using True prems(1) by (intro exI [of _ "mem s"] exI [of _ "buf_track s"] exI [of _ "hook s"]) simp
  next
    case False
    then have L: "0 < L" "L < 2 ^ 32" using prems(4) by auto
    have r: "ready s" using prems(1) by (simp add: cached_def buffer_ok_def)
    have spt: "0 < spt" using geom [OF r] by blast
    have d: "dest_ok (mem_upper s) B L" using prems(7) L(1) by blast
    let ?last = "(S * 2 ^ k + off + L - 1) div 2 ^ k"
    have "S * 2 ^ k div 2 ^ k \<le> ?last" using L(1) by (intro div_le_mono) simp
    then have "S \<le> ?last" using ss_pos [OF r] by simp
    then have "S div spt \<le> ?last div spt" by (rule div_le_mono)
    then have fit: "S div spt * spt + spt \<le> N" using prems(6) L(1) by (meson add_le_mono1 mult_le_mono1 order_trans)
    have "S < S div spt * spt + spt" using spt by (metis dividend_less_div_times add.commute)
    then have S: "S < N" using fit by linarith
    define num cnt where "num = spt - S mod spt" and "cnt = min L (num * 2 ^ k - off)"
    have "cnt \<le> L" by (simp add: cnt_def)
    have dc: "dest_ok (mem_upper s) B cnt" using d \<open>cnt \<le> L\<close> by (auto simp: dest_ok_def)
    obtain m1 t1 h1 where cnt0: "0 < cnt"
      and turn: "rawread_turn v drive (of_nat S) (of_nat off) (of_nat L) B s =
        Some (Some (of_nat (S + num), 0, of_nat (L - cnt), B + of_nat cnt), s\<lparr>mem := m1, errnum := ERR_NONE, buf_track := t1, hook := h1\<rparr>)"
      and c1: "cached (s\<lparr>mem := m1, errnum := ERR_NONE, buf_track := t1, hook := h1\<rparr>)"
      and o1: "same_outside (\<lambda>x. io_area x \<or> region B cnt x) (mem s) m1"
      and d1: "\<forall>i < cnt. m1 (B + of_nat i) = disk (S * 2 ^ k + off + i)"
      using rawread_turn_correct [OF prems(1) S fit prems(3) L, of B] dc unfolding num_def cnt_def by blast
    let ?s1 = "s\<lparr>mem := m1, errnum := ERR_NONE, buf_track := t1, hook := h1\<rparr>"
    have next_at: "(S + num) * 2 ^ k = S * 2 ^ k + off + cnt" if "0 < L - cnt"
    proof -
      have "cnt = num * 2 ^ k - off" "0 < num * 2 ^ k - off" using that cnt0 by (simp_all add: cnt_def min_def split: if_splits)
      then show ?thesis by (simp add: distrib_right)
    qed
    have "\<exists>m t h. rawread_loop n v drive (of_nat (S + num)) (of_nat 0) (of_nat (L - cnt)) (B + of_nat cnt) ?s1 =
          Some (True, ?s1\<lparr>mem := m, errnum := ERR_NONE, buf_track := t, hook := h\<rparr>)
        \<and> cached (?s1\<lparr>mem := m, errnum := ERR_NONE, buf_track := t, hook := h\<rparr>)
        \<and> same_outside (\<lambda>x. io_area x \<or> region (B + of_nat cnt) (L - cnt) x) (mem ?s1) m
        \<and> (\<forall>i < L - cnt. m (B + of_nat cnt + of_nat i) = disk ((S + num) * 2 ^ k + 0 + i))"
    proof (rule Suc.IH [OF c1])
      show "errnum ?s1 = ERR_NONE" by simp
      show "0 < (2::nat) ^ k" using ss_pos [OF r] by blast
      show "L - cnt < 2 ^ 32" "L - cnt < n" using L cnt0 prems(5) by linarith+
      assume rest: "0 < L - cnt"
      have "(S + num) * 2 ^ k + 0 + (L - cnt) - 1 = S * 2 ^ k + off + L - 1"
        using next_at [OF rest] rest by linarith
      then show "((S + num) * 2 ^ k + 0 + (L - cnt) - 1) div 2 ^ k div spt * spt + spt \<le> N"
        using prems(6) L(1) by simp
      show "dest_ok (mem_upper ?s1) (B + of_nat cnt) (L - cnt)"
        using dest_ok_part [OF d, of cnt "L - cnt"] \<open>cnt \<le> L\<close> rest by simp
    qed
    then obtain m t h where lp: "rawread_loop n v drive (of_nat (S + num)) 0 (of_nat (L - cnt)) (B + of_nat cnt) ?s1 =
          Some (True, s\<lparr>mem := m, errnum := ERR_NONE, buf_track := t, hook := h\<rparr>)"
        and c2: "cached (s\<lparr>mem := m, errnum := ERR_NONE, buf_track := t, hook := h\<rparr>)"
        and o2: "same_outside (\<lambda>x. io_area x \<or> region (B + of_nat cnt) (L - cnt) x) m1 m"
        and d2: "\<forall>i < L - cnt. m (B + of_nat cnt + of_nat i) = disk ((S + num) * 2 ^ k + i)"
      by (auto simp: )
    have "same_outside (\<lambda>x. io_area x \<or> region B L x) (mem s) m"
      using o1 o2 region_part [OF _ \<open>cnt \<le> L\<close> L(2)] \<open>cnt \<le> L\<close>
      by (auto simp: same_outside_def region_def)
    moreover have "m (B + of_nat i) = disk (S * 2 ^ k + off + i)" if i: "i < L" for i
    proof (cases "i < cnt")
      case True
      have "\<not> io_area (B + of_nat i)" using d i by (simp add: dest_ok_def)
      then have "m (B + of_nat i) = m1 (B + of_nat i)"
        using o2 not_region_before [OF True \<open>cnt \<le> L\<close> L(2)] unfolding same_outside_def by blast
      then show ?thesis using d1 True by simp
    next
      case False
      then have "m (B + of_nat cnt + of_nat (i - cnt)) = disk ((S + num) * 2 ^ k + (i - cnt))"
        using d2 i by (metis diff_less_mono linorder_not_less)
      moreover have "B + of_nat cnt + of_nat (i - cnt) = B + (of_nat i :: u32)" using False by (simp add: of_nat_diff)
      moreover have "(S + num) * 2 ^ k + (i - cnt) = S * 2 ^ k + off + i" using next_at False i by simp
      ultimately show ?thesis by simp
    qed
    moreover have "(of_nat L :: u32) \<noteq> 0" using L unat_of_nat_small [of L] by fastforce
    then have "rawread_loop (Suc n) v drive (of_nat S) (of_nat off) (of_nat L) B s =
          Some (True, s\<lparr>mem := m, errnum := ERR_NONE, buf_track := t, hook := h\<rparr>)"
      using turn lp by simp
    ultimately show ?thesis using c2 by blast
  qed
qed simp

text \<open>The contract of \<open>rawread\<close>: the bytes of the disk in the buffer, and nothing else changed.\<close>

theorem rawread_reads:
  assumes "cached s" "off < 2 ^ k" "L < 2 ^ 32"
    and "0 < L \<Longrightarrow> (S * 2 ^ k + off + L - 1) div 2 ^ k div spt * spt + spt \<le> N"
    and "0 < L \<Longrightarrow> dest_ok (mem_upper s) B L"
  shows "\<exists>m t h. rawread v drive (of_nat S) (of_nat off) (of_nat L) B s =
      Some (True, s\<lparr>mem := m, errnum := ERR_NONE, buf_track := t, hook := h\<rparr>)
    \<and> cached (s\<lparr>mem := m, errnum := ERR_NONE, buf_track := t, hook := h\<rparr>)
    \<and> same_outside (\<lambda>x. io_area x \<or> region B L x) (mem s) m
    \<and> (\<forall>i < L. m (B + of_nat i) = disk (S * 2 ^ k + off + i))"
proof -
  have c: "cached (s\<lparr>errnum := ERR_NONE\<rparr>)"
    using cached_keep [OF assms(1), of "mem s" "hook s" ERR_NONE] by simp
  have "unat (of_nat L :: u32) = L" using assms(3) by (rule unat_of_nat_small)
  then show ?thesis
    using rawread_loop_correct [OF c _ assms(2,3), of "L + 2" S B] assms(4,5) by (simp add: rawread_def)
qed

lemma devread_reads:
  assumes c: "cached s" and k9: "9 \<le> k" and cd: "current_drive s = drive" and emu: "\<not> emu_iso_sector_size_2048 s" and L: "0 < L" "L < 2 ^ 31" "off < 2 ^ 31" "sector < 2 ^ 31"
    and dbg: "debug s = 0"
  defines "final \<equiv> sector + (off + L - 1) div 2 ^ k"
  shows "unat (part_length s) \<le> final \<Longrightarrow>
      devread v (of_nat sector) (of_nat off) (of_nat L) B s = Some (False, s\<lparr>errnum := ERR_OUTSIDE_PART\<rparr>)"
    and "final < unat (part_length s) \<Longrightarrow>
      (unat (part_start s) + final) div spt * spt + spt \<le> N \<Longrightarrow> dest_ok (mem_upper s) B L \<Longrightarrow>
      \<exists>m t h. let s' = s\<lparr>mem := m, errnum := ERR_NONE, buf_track := t, hook := h\<rparr>
        in devread v (of_nat sector) (of_nat off) (of_nat L) B s = Some (True, s')
          \<and> cached s' \<and> same_outside (\<lambda>x. io_area x \<or> region B L x) (mem s) m
          \<and> (\<forall>i < L. m (B + of_nat i) = disk ((unat (part_start s) + sector) * 2 ^ k + off + i))"
proof -
  have g: "buf_geom s = g" using c by (simp add: cached_def buffer_ok_def)
  have "ready s" using c by (simp add: cached_def)
  then have sg: "sector_size g = 2 ^ k" "k \<le> 11" "0 < spt" "N \<le> 2 ^ 31" using geom by blast+
  have k: "log2_tmp (sector_size g) = k" using sg log2_tmp_pow [of k] by simp
  have emu_s: "s\<lparr>emu_iso_sector_size_2048 := False\<rparr> = s" using emu by simp
  have ol: "(of_nat off :: u32) + of_nat L - 1 = of_nat (off + L - 1)" using L(1) by (cases L) auto
  have oll: "off + L - 1 < 2 ^ 32" using L by simp
  have "(2::nat) ^ 9 \<le> 2 ^ k" using k9 by (intro power_increasing) auto
  then have "(off + L - 1) div 2 ^ k \<le> (off + L - 1) div 2 ^ 9" by (intro div_le_mono2) simp_all
  moreover have "(off + L - 1) div 2 ^ 9 < 2 ^ 31" using oll by (intro div_less_iff_less_mult [THEN iffD2]) simp_all
  ultimately have "final < 2 ^ 31 + 2 ^ 31" using L(4) unfolding final_def by linarith
  then have ll: "final < 2 ^ 32" by simp
  have w_last: "of_nat sector + drop_bit k (of_nat off + of_nat L - 1) = (of_nat final :: u32)"
    unfolding ol drop_bit_of_nat [OF oll] by (simp add: final_def)
  have cmp: "part_length s \<le> of_nat final \<longleftrightarrow> unat (part_length s) \<le> final"
    by (simp add: word_le_nat_alt unat_of_nat_small [OF ll])
  show "devread v (of_nat sector) (of_nat off) (of_nat L) B s = Some (False, s\<lparr>errnum := ERR_OUTSIDE_PART\<rparr>)"
    if "unat (part_length s) \<le> final"
    using that cmp by (simp add: devread_def emu emu_s g k w_last fail_def Let_def)
  assume inside: "final < unat (part_length s)" and fit: "(unat (part_start s) + final) div spt * spt + spt \<le> N"
    and d: "dest_ok (mem_upper s) B L"
  let ?S = "unat (part_start s) + sector + off div 2 ^ k" and ?o = "off mod 2 ^ k"
  have o32: "off < 2 ^ 32" using L(3) by simp
  have mask: "(2 ^ k - 1 :: u32) = mask k" by (simp add: mask_eq_exp_minus_1)
  have w_off: "of_nat off AND (2 ^ k - 1 :: u32) = of_nat ?o"
    unfolding mask take_bit_eq_mask [symmetric] take_bit_of_nat by (simp only: take_bit_eq_mod)
  have w_off': "of_nat off AND (sector_size g - 1) = (of_nat ?o :: u32)" by (simp only: sg(1) w_off)
  have w_S: "part_start s + (of_nat sector + drop_bit k (of_nat off)) = (of_nat ?S :: u32)"
    unfolding drop_bit_of_nat [OF o32] by (simp add: add.assoc)
  have pos: "?S * 2 ^ k + ?o = (unat (part_start s) + sector) * 2 ^ k + off"
    by (simp only: add_mult_distrib add.assoc div_mult_mod_eq)
  have "?S * 2 ^ k + ?o + L - 1 = off + L - 1 + (unat (part_start s) + sector) * 2 ^ k"
    using pos L(1) by linarith
  then have "(?S * 2 ^ k + ?o + L - 1) div 2 ^ k = unat (part_start s) + final"
    by (simp add: final_def)
  then have fit': "(?S * 2 ^ k + ?o + L - 1) div 2 ^ k div spt * spt + spt \<le> N" using fit by simp
  have o': "?o < 2 ^ k" and L': "L < 2 ^ 32" using L(2) by simp_all
  have dev: "devread v (of_nat sector) (of_nat off) (of_nat L) B s =
      rawread v drive (of_nat ?S) (of_nat ?o) (of_nat L) B s"
    by (simp only: devread_def Let_def cd emu emu_s if_False g k w_last w_off' cmp not_le [THEN iffD2, OF inside] dbg)
      (simp add: cd, simp only: w_S, simp add: cd)
  show "\<exists>m t h. let s' = s\<lparr>mem := m, errnum := ERR_NONE, buf_track := t, hook := h\<rparr>
        in devread v (of_nat sector) (of_nat off) (of_nat L) B s = Some (True, s')
          \<and> cached s' \<and> same_outside (\<lambda>x. io_area x \<or> region B L x) (mem s) m
          \<and> (\<forall>i < L. m (B + of_nat i) = disk ((unat (part_start s) + sector) * 2 ^ k + off + i))"
    using rawread_reads [OF c o' L' fit' d] unfolding dev pos Let_def by blast
qed

end


section \<open>Drives with the disk address packet\<close>

lemma poke_at [simp]: "unat (x - a) < length s \<Longrightarrow> poke a s m x = s ! unat (x - a)"
  by (simp add: poke_def)

lemma le16_bytes16: "le16 (ucast w) (ucast (drop_bit 8 w)) = (w :: u16)"
proof (rule bit_word_eqI)
  fix n assume n: "n < LENGTH(16)"
  consider "n < 8" | "8 \<le> n" by linarith
  then show "bit (le16 (ucast w) (ucast (drop_bit 8 w))) n = bit w n"
    using n by cases (auto simp: le16_def bit_simps)
qed

lemma join_64: "ucast (ucast w :: u32) OR push_bit 32 (ucast (ucast (drop_bit 32 w) :: u32)) = (w :: 64 word)"
proof (rule bit_word_eqI)
  fix n assume n: "n < LENGTH(64)"
  consider "n < 32" | "32 \<le> n" by linarith
  then show "bit (ucast (ucast w :: u32) OR push_bit 32 (ucast (ucast (drop_bit 32 w) :: u32)) :: 64 word) n = bit w n"
    using n by cases (auto simp: bit_simps)
qed

text \<open>The packet \<open>biosdisk\<close> builds says what it means to say.\<close>

lemma dap_fields:
  "dap sector n seg m 0x580 = 0x10" "peek16 (dap sector n seg m) 0x582 = ucast n"
  "peek32 (dap sector n seg m) 0x584 = push_bit 16 seg" "peek64 (dap sector n seg m) 0x588 = scast sector"
  by (simp_all add: dap_def peek16_def peek32_def peek64_def bytes16_def bytes32_def bytes64_def le16_bytes16
      le32_bytes32 join_64)

lemma dap_out: "unat (x - 0x580) \<ge> 16 \<Longrightarrow> dap sector n seg m x = m x"
  by (simp add: dap_def poke_def bytes16_def bytes32_def bytes64_def)

text \<open>
  Function \<open>42h\<close> of the extensions, as documented: the packet gives the number of blocks, the segment
  and offset of the buffer and the first block; at most 127 blocks are read into the buffer.
\<close>

definition edd_reads :: "('d, 'h) disk_env \<Rightarrow> u32 \<Rightarrow> (nat \<Rightarrow> u8) \<Rightarrow> nat \<Rightarrow> nat \<Rightarrow> bool" where
  "edd_reads v drive disk N k \<longleftrightarrow> (\<forall>m d n lba buf. m 0x580 = 0x10 \<and> n = unat (peek16 m 0x582) \<and> n \<le> 127
      \<and> buf = push_bit 4 (drop_bit 16 (peek32 m 0x584)) + (peek32 m 0x584 AND 0xFFFF)
      \<and> lba = unat (peek64 m 0x588) \<and> lba + n \<le> N \<longrightarrow>
      (\<exists>m'. int13_extensions v 0x4200 drive m d = (0, m', d) \<and> same_outside (region buf (n * 2 ^ k)) m m'
        \<and> (\<forall>i < n * 2 ^ k. m' (buf + of_nat i) = disk (lba * 2 ^ k + i))))"

definition sound_geometry :: "geometry \<Rightarrow> nat \<Rightarrow> nat \<Rightarrow> nat \<Rightarrow> bool" where
  "sound_geometry g k spt N \<longleftrightarrow> sector_size g = 2 ^ k \<and> 9 \<le> k \<and> k \<le> 11 \<and> unat (sectors_per_vtrack g) = spt \<and> 0 < spt
     \<and> spt * 2 ^ k \<le> 0x7e00 \<and> N \<le> 2 ^ 31"

definition edd_drive :: "('d, 'h) disk_env \<Rightarrow> u32 \<Rightarrow> geometry \<Rightarrow> (nat \<Rightarrow> u8) \<Rightarrow> nat \<Rightarrow> nat \<Rightarrow> nat \<Rightarrow> bool" where
  "edd_drive v drive g disk N k spt \<longleftrightarrow> sound_geometry g k spt N \<and> edd_reads v drive disk N k
     \<and> gflags g AND BIOSDISK_FLAG_LBA_EXTENSION \<noteq> 0 \<and> \<not> is_mem_disk v drive"

lemma edd_readsD:
  assumes "edd_reads v drive disk N k" "m 0x580 = 0x10" "unat (peek16 m 0x582) = n" "n \<le> 127"
    "push_bit 4 (drop_bit 16 (peek32 m 0x584)) + (peek32 m 0x584 AND 0xFFFF) = buf"
    "unat (peek64 m 0x588) = lba" "lba + n \<le> N"
  shows "\<exists>m'. int13_extensions v 0x4200 drive m d = (0, m', d) \<and> same_outside (region buf (n * 2 ^ k)) m m'
        \<and> (\<forall>i < n * 2 ^ k. m' (buf + of_nat i) = disk (lba * 2 ^ k + i))"
  using assms unfolding edd_reads_def by blast

lemma track_small:
  assumes "sound_geometry g k spt N" "n \<le> spt"
  shows "n * 2 ^ k \<le> 0x7e00" "n \<le> 63"
proof -
  have g: "9 \<le> k" "spt * 2 ^ k \<le> 0x7e00" using assms(1) by (auto simp: sound_geometry_def)
  show l: "n * 2 ^ k \<le> 0x7e00" using mult_le_mono1 [OF assms(2), of "2 ^ k"] g(2) by linarith
  have "(2::nat) ^ 9 \<le> 2 ^ k" using g(1) by (intro power_increasing) auto
  then have "n * 2 ^ 9 \<le> n * 2 ^ k" by (intro mult_le_mono) auto
  then have "n * 2 ^ 9 \<le> 0x7e00" using l by (rule order_trans)
  then show "n \<le> 63" by simp
qed

lemma buffer_region:
  assumes "region BUFFERADDR n x" "n \<le> 0x7e00"
  shows "io_area x"
proof -
  have "unat (BUFFERADDR + of_nat (unat (x - BUFFERADDR))) = unat BUFFERADDR + unat (x - BUFFERADDR)"
    using assms by (intro unat_add_of_nat) (simp add: region_def BUFFERADDR_def)
  then have "unat x = 0x70000 + unat (x - BUFFERADDR)" by (simp add: BUFFERADDR_def)
  then show ?thesis using assms by (simp add: region_def io_area_def word_le_nat_alt word_less_nat_alt)
qed

lemma packet_region: "unat (x - 0x580) < 82 \<Longrightarrow> io_area x"
proof -
  assume a: "unat (x - 0x580) < 82"
  then have "unat (0x580 + of_nat (unat (x - 0x580)) :: u32) = 0x580 + unat (x - 0x580)"
    by (subst unat_add_of_nat) simp_all
  then have "unat x = 0x580 + unat (x - 0x580)" by simp
  then show ?thesis using a by (simp add: io_area_def word_le_nat_alt word_less_nat_alt)
qed

lemma unat_scast_small:
  assumes "s < 2 ^ 31"
  shows "unat (scast (of_nat s :: u32) :: 64 word) = s"
proof -
  have "unat (of_nat s :: u32) = s" using assms by (intro unat_of_nat_small) simp
  then have "sint (of_nat s :: u32) = int s"
    using assms by (simp add: signed_of_nat signed_take_bit_int_eq_self)
  then have "(scast (of_nat s :: u32) :: 64 word) = of_nat s" by (simp add: scast_eq)
  then show ?thesis using assms by (simp add: unat_of_nat)
qed

lemma edd_biosdisk:
  assumes e: "edd_drive v drive g disk N k spt" and n: "0 < n" "sector mod spt + n \<le> spt" "sector + n \<le> N"
  shows "\<exists>m e. biosdisk v False drive g (of_nat sector) (of_nat n) BUFFERSEG s = Some (0, s\<lparr>mem := m, errnum := e\<rparr>)
    \<and> (\<forall>i < n * 2 ^ k. m (BUFFERADDR + of_nat i) = disk (sector * 2 ^ k + i)) \<and> same_outside io_area (mem s) m"
proof -
  have g: "sound_geometry g k spt N" "edd_reads v drive disk N k" using e by (auto simp: edd_drive_def)
  have ns: "n * 2 ^ k \<le> 0x7e00" "n \<le> 63" using track_small [OF g(1), of n] n(2) by auto
  let ?m = "dap (of_nat sector) (of_nat n) BUFFERSEG (mem s)"
  have "sector < 2 ^ 31" using n g(1) by (simp add: sound_geometry_def)
  then have lba: "unat (peek64 ?m 0x588) = sector" by (simp add: dap_fields unat_scast_small)
  have nb: "unat (peek16 ?m 0x582) = n" using ns(2) by (simp add: dap_fields unat_of_nat unsigned_ucast_eq take_bit_eq_mod)
  have buf: "push_bit 4 (drop_bit 16 (peek32 ?m 0x584)) + (peek32 ?m 0x584 AND 0xFFFF) = BUFFERADDR"
    by (simp add: dap_fields BUFFERSEG_def BUFFERADDR_def)
  obtain m' where m': "int13_extensions v 0x4200 drive ?m (dev s) = (0, m', dev s)"
      "same_outside (region BUFFERADDR (n * 2 ^ k)) ?m m'"
      "\<forall>i < n * 2 ^ k. m' (BUFFERADDR + of_nat i) = disk (sector * 2 ^ k + i)"
    using edd_readsD [OF g(2) dap_fields(1) nb _ buf lba n(3)] ns(2) by auto
  have "m' x = mem s x" if "\<not> io_area x" for x
  proof -
    have "m' x = ?m x" using m'(2) buffer_region [OF _ ns(1)] that unfolding same_outside_def by blast
    moreover have "unat (x - 0x580) \<ge> 16" using packet_region [of x] that by fastforce
    ultimately show ?thesis using dap_out by metis
  qed
  then have "same_outside io_area (mem s) m'" by (simp add: same_outside_def)
  moreover have "push_bit 8 (of_bool False + 0x42) = (0x4200 :: u32)" by simp
  then have "biosdisk v False drive g (of_nat sector) (of_nat n) BUFFERSEG s = Some (0, s\<lparr>mem := m', errnum := errnum s\<rparr>)"
    using e m'(1) by (simp add: biosdisk_def edd_drive_def)
  ultimately show ?thesis using m'(3) by blast
qed

interpretation edd: sector_source v drive g disk N k spt "\<lambda>s. edd_drive v drive g disk N k spt"
  for v :: "('d, 'h) disk_env" and drive g disk N k spt
proof (unfold_locales, goal_cases)
  case (1 s)
  then show ?case by (simp add: edd_drive_def sound_geometry_def)
next
  case (2 s n sector)
  then show ?case by (rule edd_biosdisk)
qed

section \<open>Drives addressed by cylinder, head and sector\<close>

text \<open>
  Functions \<open>02h\<close>, as documented: \<open>n\<close> sectors from the given address on, which do not cross the end of the
  track, are read to the segment.
\<close>

definition chs_reads :: "('d, 'h) disk_env \<Rightarrow> u32 \<Rightarrow> geometry \<Rightarrow> (nat \<Rightarrow> u8) \<Rightarrow> nat \<Rightarrow> bool" where
  "chs_reads v drive g disk k \<longleftrightarrow> (\<forall>m d c h sc n seg lba. c < cylinders g \<and> h < heads g \<and> 1 \<le> unat sc
      \<and> unat sc - 1 + unat n \<le> unat (sectors g) \<and> 0 < n
      \<and> lba = (unat c * unat (heads g) + unat h) * unat (sectors g) + (unat sc - 1) \<longrightarrow>
      (\<exists>m'. int13_standard v 2 drive c h sc n seg m d = (0, m', d)
        \<and> same_outside (region (push_bit 4 seg) (unat n * 2 ^ k)) m m'
        \<and> (\<forall>i < unat n * 2 ^ k. m' (push_bit 4 seg + of_nat i) = disk (lba * 2 ^ k + i))))"

definition chs_drive :: "('d, 'h) disk_env \<Rightarrow> u32 \<Rightarrow> geometry \<Rightarrow> (nat \<Rightarrow> u8) \<Rightarrow> nat \<Rightarrow> nat \<Rightarrow> nat \<Rightarrow> bool" where
  "chs_drive v drive g disk N k spt \<longleftrightarrow> sound_geometry g k spt N \<and> chs_reads v drive g disk k
     \<and> gflags g AND BIOSDISK_FLAG_LBA_EXTENSION = 0 \<and> spt = unat (sectors g) \<and> heads g \<noteq> 0
     \<and> N \<le> unat (cylinders g) * unat (heads g) * unat (sectors g)"

lemma chs_readsD:
  assumes "chs_reads v drive g disk k" "c < cylinders g" "h < heads g" "1 \<le> unat sc"
    "unat sc - 1 + unat n \<le> unat (sectors g)" "0 < n" "unat n = n'" "push_bit 4 seg = buf"
    "(unat c * unat (heads g) + unat h) * unat (sectors g) + (unat sc - 1) = lba"
  shows "\<exists>m'. int13_standard v 2 drive c h sc n seg m d = (0, m', d) \<and> same_outside (region buf (n' * 2 ^ k)) m m'
        \<and> (\<forall>i < n' * 2 ^ k. m' (buf + of_nat i) = disk (lba * 2 ^ k + i))"
  using assms unfolding chs_reads_def by blast

text \<open>The address \<open>chs_disk\<close> computes is the sector's.\<close>

lemma chs_address:
  fixes sector secs hds cyls :: u32
  assumes "secs \<noteq> 0" "hds \<noteq> 0" "unat sector < unat cyls * unat hds * unat secs"
  defines "c \<equiv> sector div secs div hds" and "h \<equiv> sector div secs mod hds"
  shows "c < cyls" "h < hds" "unat (sector mod secs + 1) = unat sector mod unat secs + 1"
    "(unat c * unat hds + unat h) * unat secs + unat sector mod unat secs = unat sector"
proof -
  have p: "0 < unat secs" "0 < unat hds" using assms(1,2) by (simp_all add: unat_gt_0)
  have "unat sector mod unat secs + 1 \<le> unat secs" using p(1) by (simp add: Suc_le_eq)
  then have "unat sector mod unat secs + 1 < 2 ^ 32" by (rule le_less_trans) simp
  then show "unat (sector mod secs + 1) = unat sector mod unat secs + 1"
    by (simp add: unat_word_ariths unat_mod)
  have "unat sector < unat cyls * (unat hds * unat secs)" using assms(3) by (simp add: mult.assoc)
  then have "unat sector div unat secs div unat hds < unat cyls"
    using p by (simp add: div_mult2_eq [symmetric] less_mult_imp_div_less mult.commute)
  then show "c < cyls" by (simp add: c_def word_less_nat_alt unat_div)
  show "h < hds" using p by (simp add: h_def word_less_nat_alt unat_mod)
  show "(unat c * unat hds + unat h) * unat secs + unat sector mod unat secs = unat sector"
    by (simp add: c_def h_def unat_div unat_mod)
qed

lemma chs_biosdisk:
  assumes e: "chs_drive v drive g disk N k spt" and n: "0 < n" "sector mod spt + n \<le> spt" "sector + n \<le> N"
  shows "\<exists>m e. biosdisk v False drive g (of_nat sector) (of_nat n) BUFFERSEG s = Some (0, s\<lparr>mem := m, errnum := e\<rparr>)
    \<and> (\<forall>i < n * 2 ^ k. m (BUFFERADDR + of_nat i) = disk (sector * 2 ^ k + i)) \<and> same_outside io_area (mem s) m"
proof -
  have g: "sound_geometry g k spt N" "chs_reads v drive g disk k" "spt = unat (sectors g)" "heads g \<noteq> 0"
      "N \<le> unat (cylinders g) * unat (heads g) * unat (sectors g)"
    using e by (auto simp: chs_drive_def)
  have ns: "n * 2 ^ k \<le> 0x7e00" using track_small(1) [OF g(1), of n] n(2) by auto
  have small: "unat (of_nat sector :: u32) = sector" "unat (of_nat n :: u32) = n"
    using n g(1) track_small(2) [OF g(1), of n] by (auto intro!: unat_of_nat_small simp: sound_geometry_def)
  have secs: "sectors g \<noteq> 0" using g(1,3) by (auto simp: sound_geometry_def)
  let ?w = "of_nat sector :: u32"
  have "unat ?w < unat (cylinders g) * unat (heads g) * unat (sectors g)" using g(5) n(1,3) small(1) by linarith
  note adr = chs_address [OF secs g(4) this, unfolded small(1)]
  let ?c = "?w div sectors g div heads g" and ?h = "?w div sectors g mod heads g" and ?s = "?w mod sectors g + 1"
  have nn: "0 < (of_nat n :: u32)" using n(1) small(2) by (simp add: word_less_nat_alt)
  have buf: "push_bit 4 BUFFERSEG = BUFFERADDR" by (simp add: BUFFERSEG_def BUFFERADDR_def)
  have one: "1 \<le> unat ?s" "unat ?s - 1 + unat (of_nat n :: u32) \<le> unat (sectors g)"
    "(unat ?c * unat (heads g) + unat ?h) * unat (sectors g) + (unat ?s - 1) = sector"
    using adr(3,4) n(2) g(3) small(2) by simp_all
  then obtain m' where m': "int13_standard v 2 drive ?c ?h ?s (of_nat n) BUFFERSEG (mem s) (dev s) = (0, m', dev s)"
      "same_outside (region BUFFERADDR (n * 2 ^ k)) (mem s) m'"
      "\<forall>i < n * 2 ^ k. m' (BUFFERADDR + of_nat i) = disk (sector * 2 ^ k + i)"
    using chs_readsD [OF g(2) adr(1,2) one(1,2) nn small(2) buf one(3)] by blast
  have "same_outside io_area (mem s) m'"
    using m'(2) buffer_region [OF _ ns] unfolding same_outside_def by blast
  moreover have "biosdisk v False drive g ?w (of_nat n) BUFFERSEG s = Some (0, s\<lparr>mem := m', errnum := errnum s\<rparr>)"
    using e m'(1) secs adr(1) [unfolded not_le [symmetric]] by (simp add: biosdisk_def chs_disk_def chs_drive_def Let_def)
  ultimately show ?thesis using m'(3) by blast
qed

interpretation chs: sector_source v drive g disk N k spt "\<lambda>s. chs_drive v drive g disk N k spt"
  for v :: "('d, 'h) disk_env" and drive g disk N k spt
proof (unfold_locales, goal_cases)
  case (1 s)
  then show ?case by (auto simp: chs_drive_def sound_geometry_def)
next
  case (2 s n sector)
  then show ?case by (rule chs_biosdisk)
qed


section \<open>The contracts of the disk layer\<close>

lemma buffer_ok_stable:
  assumes "edd_drive v drive g disk N k spt" "buffer_ok drive g disk N k spt s"
  shows "edd.cached drive g disk N k spt v s"
  unfolding edd.cached_def using assms by blast

text \<open>
  C27. On a drive with the disk address packet, \<open>rawread\<close> of \<open>L\<close> bytes at offset \<open>off\<close> of sector \<open>S\<close> returns 1
  with exactly these bytes of the disk at \<open>B\<close>, whatever track was in the buffer; it changes no other
  memory but the packet and the buffers, and the track buffer is coherent with the disk again.
\<close>

theorem rawread_reads_disk:
  assumes "edd_drive v drive g disk N k spt" "buffer_ok drive g disk N k spt s"
    and "off < 2 ^ k" "0 < L" "L < 2 ^ 32" "(S * 2 ^ k + off + L - 1) div 2 ^ k div spt * spt + spt \<le> N"
    and "dest_ok (mem_upper s) B L"
  shows "\<exists>m t h. let s' = s\<lparr>mem := m, errnum := ERR_NONE, buf_track := t, hook := h\<rparr>
     in rawread v drive (of_nat S) (of_nat off) (of_nat L) B s = Some (True, s')
        \<and> buffer_ok drive g disk N k spt s' \<and> same_outside (\<lambda>x. io_area x \<or> region B L x) (mem s) m
        \<and> (\<forall>i < L. m (B + of_nat i) = disk (S * 2 ^ k + off + i))"
  using edd.rawread_reads [OF buffer_ok_stable [OF assms(1,2)] assms(3,5,6,7)]
  unfolding edd.cached_def Let_def by blast

text \<open>
  The same holds on a drive addressed by cylinder, head and sector: the address \<open>biosdisk\<close> computes
  is that of the sector.
\<close>

theorem rawread_reads_chs:
  assumes "chs_drive v drive g disk N k spt" "buffer_ok drive g disk N k spt s"
    and "off < 2 ^ k" "0 < L" "L < 2 ^ 32" "(S * 2 ^ k + off + L - 1) div 2 ^ k div spt * spt + spt \<le> N"
    and "dest_ok (mem_upper s) B L"
  shows "\<exists>m t h. let s' = s\<lparr>mem := m, errnum := ERR_NONE, buf_track := t, hook := h\<rparr>
     in rawread v drive (of_nat S) (of_nat off) (of_nat L) B s = Some (True, s')
        \<and> buffer_ok drive g disk N k spt s' \<and> same_outside (\<lambda>x. io_area x \<or> region B L x) (mem s) m
        \<and> (\<forall>i < L. m (B + of_nat i) = disk (S * 2 ^ k + off + i))"
proof -
  have "chs.cached drive g disk N k spt v s" unfolding chs.cached_def using assms(1,2) by blast
  from chs.rawread_reads [OF this assms(3,5,6,7)] show ?thesis unfolding chs.cached_def Let_def by blast
qed

lemma devread_partition:
  assumes "edd_drive v (current_drive s) g disk N k spt" "buffer_ok (current_drive s) g disk N k spt s"
    and "\<not> emu_iso_sector_size_2048 s" "0 < L" "L < 2 ^ 31" "off < 2 ^ 31" "sector < 2 ^ 31" "debug s = 0"
  shows "unat (part_length s) \<le> sector + (off + L - 1) div 2 ^ k \<Longrightarrow>
      devread v (of_nat sector) (of_nat off) (of_nat L) B s = Some (False, s\<lparr>errnum := ERR_OUTSIDE_PART\<rparr>)"
    and "sector + (off + L - 1) div 2 ^ k < unat (part_length s) \<Longrightarrow>
      (unat (part_start s) + (sector + (off + L - 1) div 2 ^ k)) div spt * spt + spt \<le> N \<Longrightarrow> dest_ok (mem_upper s) B L \<Longrightarrow>
      \<exists>m t h. let s' = s\<lparr>mem := m, errnum := ERR_NONE, buf_track := t, hook := h\<rparr>
        in devread v (of_nat sector) (of_nat off) (of_nat L) B s = Some (True, s')
          \<and> buffer_ok (current_drive s) g disk N k spt s'
          \<and> (\<forall>i < L. m (B + of_nat i) = disk ((unat (part_start s) + sector) * 2 ^ k + off + i))"
proof -
  have "9 \<le> k" using assms(1) by (simp add: edd_drive_def sound_geometry_def)
  note r = edd.devread_reads [OF buffer_ok_stable [OF assms(1,2)] this refl assms(3-8)]
  show "devread v (of_nat sector) (of_nat off) (of_nat L) B s = Some (False, s\<lparr>errnum := ERR_OUTSIDE_PART\<rparr>)"
    if "unat (part_length s) \<le> sector + (off + L - 1) div 2 ^ k"
    using r(1) [OF that] .
  show "\<exists>m t h. let s' = s\<lparr>mem := m, errnum := ERR_NONE, buf_track := t, hook := h\<rparr>
        in devread v (of_nat sector) (of_nat off) (of_nat L) B s = Some (True, s')
          \<and> buffer_ok (current_drive s) g disk N k spt s'
          \<and> (\<forall>i < L. m (B + of_nat i) = disk ((unat (part_start s) + sector) * 2 ^ k + off + i))"
    if "sector + (off + L - 1) div 2 ^ k < unat (part_length s)"
      "(unat (part_start s) + (sector + (off + L - 1) div 2 ^ k)) div spt * spt + spt \<le> N" "dest_ok (mem_upper s) B L"
    using r(2) [OF that] unfolding edd.cached_def Let_def by blast
qed


text \<open>
  C28. For a sector, an offset and a positive length below \<open>2\<^sup>3\<^sup>1\<close>, without debugging and on a drive read through the
  disk address packet whose 2048-byte sectors are not emulated, \<open>devread\<close> reads relative to the partition: the bytes are those of the partition at
  \<open>sector\<close> and \<open>byte_offset\<close>, which may be beyond the sector, when the tracks they lie on are on the disk.  A read that
  reaches behind the partition fails with \<open>ERR_OUTSIDE_PART\<close> and touches neither memory nor disk, wherever it would
  lead.  Larger numbers are left out because the sum in the test of the code wraps around.
\<close>

theorem devread_reads_partition:
  assumes "edd_drive v (current_drive s) g disk N k spt" "buffer_ok (current_drive s) g disk N k spt s"
    and "\<not> emu_iso_sector_size_2048 s" "0 < L" "L < 2 ^ 31" "off < 2 ^ 31" "sector < 2 ^ 31" "debug s = 0"
  shows "if sector + (off + L - 1) div 2 ^ k < unat (part_length s)
     then (unat (part_start s) + (sector + (off + L - 1) div 2 ^ k)) div spt * spt + spt \<le> N \<and> dest_ok (mem_upper s) B L \<longrightarrow>
       (\<exists>m t h. let s' = s\<lparr>mem := m, errnum := ERR_NONE, buf_track := t, hook := h\<rparr>
        in devread v (of_nat sector) (of_nat off) (of_nat L) B s = Some (True, s')
          \<and> buffer_ok (current_drive s) g disk N k spt s'
          \<and> (\<forall>i < L. m (B + of_nat i) = disk ((unat (part_start s) + sector) * 2 ^ k + off + i)))
     else devread v (of_nat sector) (of_nat off) (of_nat L) B s = Some (False, s\<lparr>errnum := ERR_OUTSIDE_PART\<rparr>)"
proof (cases "sector + (off + L - 1) div 2 ^ k < unat (part_length s)")
  case True
  then show ?thesis using devread_partition(2) [OF assms(1-8) True] by simp
next
  case False
  then show ?thesis using devread_partition(1) [OF assms(1-8)] by simp
qed

section \<open>A disk image\<close>

text \<open>A BIOS that serves the reads of both kinds from an image.\<close>

definition image_bios :: "(nat \<Rightarrow> u8) \<Rightarrow> geometry \<Rightarrow> ('d, 'h) disk_env" where
  "image_bios disk g = \<lparr>int13_extensions = (\<lambda>ax drive m d.
       let n = unat (peek16 m 0x582); ss = unat (sector_size g); lba = unat (peek64 m 0x588);
           buf = push_bit 4 (drop_bit 16 (peek32 m 0x584)) + (peek32 m 0x584 AND 0xFFFF)
       in if ax = 0x4200 then (0, poke buf (map (\<lambda>i. disk (lba * ss + i)) [0..<n * ss]) m, d) else (1, m, d)),
     int13_standard = (\<lambda>ah drive c h sc n seg m d.
       let ss = unat (sector_size g);
           lba = (unat c * unat (heads g) + unat h) * unat (sectors g) + (unat sc - 1)
       in if ah = 2 then (0, poke (push_bit 4 seg) (map (\<lambda>i. disk (lba * ss + i)) [0..<unat n * ss]) m, d) else (1, m, d)),
     check_int13_extensions = (\<lambda>drive d. 1), get_diskinfo_standard = (\<lambda>drive d. (0, cylinders g, heads g, sectors g)),
     probe_mbr = (\<lambda>m t. \<lparr>probe_err = 1, probed_cylinders = 0, probed_heads = 0, probed_sectors_per_track = 0, probed_total_sectors = 0\<rparr>),
     probe_bpb = (\<lambda>m. \<lparr>probe_err = 1, probed_cylinders = 0, probed_heads = 0, probed_sectors_per_track = 0, probed_total_sectors = 0\<rparr>),
     ram_drive = 0x7F, rd_base = -1, rd_size = 0, cdrom_drive = -1, min_cdrom_id = 0, atapi_dev_count = 0,
     mmap_addr = 0, mmap_length = 0, pxe_entry = 0, network_ready = False, disk_read_func = None, disk_read_hook = None\<rparr>"

lemma poke_image:
  assumes "n < 2 ^ 32"
  shows "same_outside (region a n) m (poke a (map f [0..<n]) m)" "\<forall>i < n. poke a (map f [0..<n]) m (a + of_nat i) = f i"
proof -
  show "same_outside (region a n) m (poke a (map f [0..<n]) m)"
    by (simp add: same_outside_def region_def poke_def)
  have "unat (of_nat i :: u32) = i" if "i < n" for i using that assms by (intro unat_of_nat_small) simp
  then show "\<forall>i < n. poke a (map f [0..<n]) m (a + of_nat i) = f i" by simp
qed

lemma image_edd:
  assumes "sound_geometry g k spt N" "gflags g AND BIOSDISK_FLAG_LBA_EXTENSION \<noteq> 0" "drive \<noteq> 0xffff"
  shows "edd_drive (image_bios disk g) drive g disk N k spt"
proof -
  have k: "k \<le> 11" and "sector_size g = 2 ^ k" using assms(1) by (auto simp: sound_geometry_def)
  moreover have "(2::nat) ^ k \<le> 2 ^ 11" using k by (intro power_increasing) auto
  ultimately have ss: "unat (sector_size g) = 2 ^ k" using unat_of_nat_small [of "2 ^ k"] by simp
  have n: "n * 2 ^ k < 2 ^ 32" if "n \<le> 127" for n :: nat
    using mult_le_mono [OF that \<open>(2::nat) ^ k \<le> 2 ^ 11\<close>] by simp
  show ?thesis
    using assms n by (simp add: edd_drive_def is_mem_disk_def edd_reads_def image_bios_def ss poke_image Let_def)
qed

lemma image_chs:
  assumes "sound_geometry g k spt N" "gflags g AND BIOSDISK_FLAG_LBA_EXTENSION = 0" "spt = unat (sectors g)" "heads g \<noteq> 0"
    and "N \<le> unat (cylinders g) * unat (heads g) * unat (sectors g)"
  shows "chs_drive (image_bios disk g) drive g disk N k spt"
proof -
  have k: "k \<le> 11" and "sector_size g = 2 ^ k" using assms(1) by (auto simp: sound_geometry_def)
  moreover have "(2::nat) ^ k \<le> 2 ^ 11" using k by (intro power_increasing) auto
  ultimately have ss: "unat (sector_size g) = 2 ^ k" using unat_of_nat_small [of "2 ^ k"] by simp
  have n: "n * 2 ^ k < 2 ^ 32" if "a + n \<le> unat (sectors g)" for a n :: nat
    using track_small(1) [OF assms(1), of n] that assms(3) by simp
  have reads: "chs_reads (image_bios disk g) drive g disk k"
    unfolding chs_reads_def
  proof (intro allI impI, elim conjE)
    fix m d and c h sc n seg :: u32 and lba
    assume "unat sc - 1 + unat n \<le> unat (sectors g)"
      and "lba = (unat c * unat (heads g) + unat h) * unat (sectors g) + (unat sc - 1)"
    moreover from this have "unat n * 2 ^ k < 2 ^ 32" by (intro n)
    ultimately show "\<exists>m'. int13_standard (image_bios disk g) 2 drive c h sc n seg m d = (0, m', d)
        \<and> same_outside (region (push_bit 4 seg) (unat n * 2 ^ k)) m m'
        \<and> (\<forall>i < unat n * 2 ^ k. m' (push_bit 4 seg + of_nat i) = disk (lba * 2 ^ k + i))"
      by (simp add: image_bios_def ss poke_image Let_def)
  qed
  show ?thesis
    using assms reads by (simp add: chs_drive_def)
qed

lemma dest_ok_low:
  assumes "0x5d2 \<le> unat a" "unat a + n \<le> 0x70000" "unat upper < 2 ^ 22 - 1024"
  shows "dest_ok upper a n"
proof -
  have "\<not> io_area (a + of_nat i)" if "i < n" for i
  proof -
    have "unat (a + of_nat i) = unat a + i" using assms that by (intro unat_add_of_nat) simp
    then show ?thesis using assms that by (simp add: io_area_def word_le_nat_alt word_less_nat_alt)
  qed
  moreover have "a \<noteq> 0" using assms(1) by auto
  ultimately show ?thesis using assms by (simp add: dest_ok_def)
qed

definition demo_geometry :: "u32 \<Rightarrow> geometry" where
  "demo_geometry fl = \<lparr>cylinders = 10, heads = 2, sectors = 63, total_sectors = 1260, sector_size = 512, gflags = fl\<rparr>"

lemma demo_sound: "sound_geometry (demo_geometry fl) 9 63 1260"
proof -
  have "unat (sectors_per_vtrack (demo_geometry fl)) = 63" by (simp add: demo_geometry_def) code_simp
  then show ?thesis by (simp add: sound_geometry_def demo_geometry_def)
qed

definition demo_disk_state :: "u32 \<Rightarrow> (unit, unit) globals" where
  "demo_disk_state fl = (globals_start (\<lambda>a. 0) () ())\<lparr>mem_upper := 0x10000, buf_drive := 0x80, buf_geom := demo_geometry fl,
     current_drive := 0x80, part_start := 63, part_length := 189\<rparr>"

lemma demo_buffer: "buffer_ok 0x80 (demo_geometry fl) disk N k spt (demo_disk_state fl)"
  by (simp add: buffer_ok_def demo_disk_state_def globals_start_def)

lemma demo_edd: "edd_drive (image_bios disk (demo_geometry 1)) 0x80 (demo_geometry 1) disk 1260 9 63"
  by (rule image_edd [OF demo_sound]) (simp_all add: demo_geometry_def BIOSDISK_FLAG_LBA_EXTENSION_def)

lemma demo_chs: "chs_drive (image_bios disk (demo_geometry 0)) 0x80 (demo_geometry 0) disk 1260 9 63"
  by (rule image_chs [OF demo_sound]) (simp_all add: demo_geometry_def BIOSDISK_FLAG_LBA_EXTENSION_def)

lemma demo_dest: "dest_ok (mem_upper (demo_disk_state fl)) 0x8000 3000"
  by (rule dest_ok_low) (simp_all add: demo_disk_state_def)

theorem rawread_reads_disk_witness:
  "\<exists>s'. rawread (image_bios of_nat (demo_geometry 1)) 0x80 60 16 3000 0x8000 (demo_disk_state 1) = Some (True, s')
     \<and> mem s' (0x8000 + 2999) = of_nat (60 * 512 + 16 + 2999)"
proof -
  have r: "(60 * 2 ^ 9 + 16 + 3000 - 1) div 2 ^ 9 div 63 * 63 + 63 \<le> (1260::nat)" by simp
  have "16 < (2::nat) ^ 9" "0 < (3000::nat)" "(3000::nat) < 2 ^ 32" by simp_all
  from rawread_reads_disk [OF demo_edd [of of_nat] demo_buffer this r demo_dest]
  obtain m t h where rd: "rawread (image_bios of_nat (demo_geometry 1)) 0x80 (of_nat 60) (of_nat 16) (of_nat 3000) 0x8000 (demo_disk_state 1)
      = Some (True, (demo_disk_state 1)\<lparr>mem := m, errnum := ERR_NONE, buf_track := t, hook := h\<rparr>)"
    and data: "\<forall>i < 3000. m (0x8000 + of_nat i) = of_nat (60 * 2 ^ 9 + 16 + i)"
    by (auto simp: Let_def)
  show ?thesis using rd data [rule_format, of 2999] by simp
qed

theorem rawread_reads_chs_witness:
  "\<exists>s'. rawread (image_bios of_nat (demo_geometry 0)) 0x80 60 16 3000 0x8000 (demo_disk_state 0) = Some (True, s')
     \<and> mem s' (0x8000 + 2999) = of_nat (60 * 512 + 16 + 2999)"
proof -
  have r: "(60 * 2 ^ 9 + 16 + 3000 - 1) div 2 ^ 9 div 63 * 63 + 63 \<le> (1260::nat)" by simp
  have "16 < (2::nat) ^ 9" "0 < (3000::nat)" "(3000::nat) < 2 ^ 32" by simp_all
  from rawread_reads_chs [OF demo_chs [of of_nat] demo_buffer this r demo_dest]
  obtain m t h where rd: "rawread (image_bios of_nat (demo_geometry 0)) 0x80 (of_nat 60) (of_nat 16) (of_nat 3000) 0x8000 (demo_disk_state 0)
      = Some (True, (demo_disk_state 0)\<lparr>mem := m, errnum := ERR_NONE, buf_track := t, hook := h\<rparr>)"
    and data: "\<forall>i < 3000. m (0x8000 + of_nat i) = of_nat (60 * 2 ^ 9 + 16 + i)"
    by (auto simp: Let_def)
  show ?thesis using rd data [rule_format, of 2999] by simp
qed

theorem devread_reads_partition_witness:
  "devread (image_bios of_nat (demo_geometry 1)) 188 512 3000 0x8000 (demo_disk_state 1)
     = Some (False, (demo_disk_state 1)\<lparr>errnum := ERR_OUTSIDE_PART\<rparr>)
   \<and> (\<exists>s'. devread (image_bios of_nat (demo_geometry 1)) 2 1000 3000 0x8000 (demo_disk_state 1) = Some (True, s')
     \<and> mem s' 0x8000 = of_nat (65 * 512 + 1000))"
proof -
  let ?s = "demo_disk_state 1" and ?g = "demo_geometry 1"
  have cd: "current_drive ?s = 0x80" "part_start ?s = 63" "part_length ?s = 189" "\<not> emu_iso_sector_size_2048 ?s" "debug ?s = 0"
    by (simp_all add: demo_disk_state_def globals_start_def)
  have e: "edd_drive (image_bios of_nat ?g) (current_drive ?s) ?g of_nat 1260 9 63"
    unfolding cd by (rule demo_edd)
  have b: "buffer_ok (current_drive ?s) ?g of_nat 1260 9 63 ?s" unfolding cd by (rule demo_buffer)
  have n: "0 < (3000::nat)" "(3000::nat) < 2 ^ 31" "(512::nat) < 2 ^ 31" "(188::nat) < 2 ^ 31" "(1000::nat) < 2 ^ 31" "(2::nat) < 2 ^ 31"
    by simp_all
  have r: "(unat (part_start ?s) + (2 + (1000 + 3000 - 1) div 2 ^ 9)) div 63 * 63 + 63 \<le> (1260::nat)" by (simp add: cd)
  have "devread (image_bios of_nat ?g) 188 512 3000 0x8000 ?s = Some (False, ?s\<lparr>errnum := ERR_OUTSIDE_PART\<rparr>)"
    using devread_reads_partition [OF e b cd(4) n(1-4) cd(5)] by (simp add: cd)
  moreover obtain s' m where "devread (image_bios of_nat ?g) (of_nat 2) (of_nat 1000) (of_nat 3000) 0x8000 ?s = Some (True, s')"
    "mem s' = m" "\<forall>i < 3000. m (0x8000 + of_nat i) = of_nat ((63 + 2) * 2 ^ 9 + 1000 + i)"
    using devread_reads_partition [OF e b cd(4) n(1,2,5,6) cd(5), where B = "0x8000"] r demo_dest [of 1] by (auto simp: cd Let_def)
  then have "\<exists>s'. devread (image_bios of_nat ?g) 2 1000 3000 0x8000 ?s = Some (True, s') \<and> mem s' 0x8000 = of_nat (65 * 512 + 1000)"
    by (auto dest: spec [of _ 0])
  ultimately show ?thesis by blast
qed

end
