(* ===== verification/BlockDev.thy ===== *)
theory BlockDev
imports DiskRead
begin

text \<open>
  The interface between the disk layer and the filesystems: a locale of what a reader of a partition
  promises, interpreted on \<open>devread\<close> over drives of both addressing modes.  File access is proved against
  this interface.
\<close>

section \<open>The interface\<close>

text \<open>Two states see the same device: the variables the disk layer uses and its buffers agree.\<close>

definition same_device :: "('d, 'h, 'z) gstate \<Rightarrow> ('d, 'h, 'z) gstate \<Rightarrow> bool" where
  "same_device s s' \<longleftrightarrow> current_drive s' = current_drive s \<and> part_start s' = part_start s \<and> part_length s' = part_length s
     \<and> buf_drive s' = buf_drive s \<and> buf_track s' = buf_track s \<and> buf_geom s' = buf_geom s
     \<and> emu_iso_sector_size_2048 s' = emu_iso_sector_size_2048 s \<and> debug s' = debug s
     \<and> (\<forall>x. io_area x \<longrightarrow> mem s' x = mem s x)"

lemma same_device_refl [simp]: "same_device s s"
  by (simp add: same_device_def)

text \<open>
  \<open>part\<close> is the content of the partition, \<open>len\<close> its length in sectors of \<open>2 ^ k\<close> bytes, \<open>usable\<close> the states in
  which it can be read.
\<close>

locale partition_reader =
  fixes rdev :: "u32 \<Rightarrow> u32 \<Rightarrow> u32 \<Rightarrow> u32 \<Rightarrow> ('d, 'h, 'z) gstate \<Rightarrow> (bool \<times> ('d, 'h, 'z) gstate) option"
    and part :: "nat \<Rightarrow> u8" and k len :: nat and usable :: "('d, 'h, 'z) gstate \<Rightarrow> bool"
  assumes sectors_of: "usable s \<Longrightarrow> sector_size (buf_geom s) = 2 ^ k \<and> 9 \<le> k \<and> k \<le> 11"
    and inside: "usable s \<Longrightarrow> 0 < L \<Longrightarrow> L < 2 ^ 31 \<Longrightarrow> off < 2 ^ 31 \<Longrightarrow> sector < 2 ^ 31 \<Longrightarrow>
      sector + (off + L - 1) div 2 ^ k < len \<Longrightarrow> dest_ok (mem_upper s) B L \<Longrightarrow>
      \<exists>m t h. let s' = s\<lparr>mem := m, errnum := ERR_NONE, buf_track := t, hook := h\<rparr>
        in rdev (of_nat sector) (of_nat off) (of_nat L) B s = Some (True, s') \<and> usable s'
          \<and> same_outside (\<lambda>x. io_area x \<or> region B L x) (mem s) m
          \<and> (\<forall>i < L. m (B + of_nat i) = part (sector * 2 ^ k + off + i))"
    and outside: "usable s \<Longrightarrow> 0 < L \<Longrightarrow> L < 2 ^ 31 \<Longrightarrow> off < 2 ^ 31 \<Longrightarrow> sector < 2 ^ 31 \<Longrightarrow>
      len \<le> sector + (off + L - 1) div 2 ^ k \<Longrightarrow>
      rdev (of_nat sector) (of_nat off) (of_nat L) B s = Some (False, s\<lparr>errnum := ERR_OUTSIDE_PART\<rparr>)"
    and stable: "usable s \<Longrightarrow> same_device s s' \<Longrightarrow> usable s'"

section \<open>The disk layer provides it\<close>

definition part_bytes :: "(nat \<Rightarrow> u8) \<Rightarrow> nat \<Rightarrow> u32 \<Rightarrow> nat \<Rightarrow> u8" where
  "part_bytes disk k start i = disk (unat start * 2 ^ k + i)"

text \<open>
  The current device is the partition from \<open>start\<close> on, of \<open>plen\<close> sectors, and the tracks it touches are on
  the disk.
\<close>

definition on_partition :: "u32 \<Rightarrow> u32 \<Rightarrow> u32 \<Rightarrow> nat \<Rightarrow> nat \<Rightarrow> ('d, 'h, 'z) gstate \<Rightarrow> bool" where
  "on_partition drive start plen N spt s \<longleftrightarrow> current_drive s = drive \<and> part_start s = start \<and> part_length s = plen
     \<and> \<not> emu_iso_sector_size_2048 s \<and> debug s = 0
     \<and> (\<forall>i < unat plen. (unat start + i) div spt * spt + spt \<le> N)"

definition edd_usable :: "('d, 'h) disk_env \<Rightarrow> u32 \<Rightarrow> geometry \<Rightarrow> (nat \<Rightarrow> u8) \<Rightarrow> nat \<Rightarrow> nat \<Rightarrow> nat \<Rightarrow> u32 \<Rightarrow> u32 \<Rightarrow> ('d, 'h, 'z) gstate \<Rightarrow> bool" where
  "edd_usable v drive g disk N k spt start plen s \<longleftrightarrow>
     edd_drive v drive g disk N k spt \<and> buffer_ok drive g disk N k spt s \<and> on_partition drive start plen N spt s"

definition chs_usable :: "('d, 'h) disk_env \<Rightarrow> u32 \<Rightarrow> geometry \<Rightarrow> (nat \<Rightarrow> u8) \<Rightarrow> nat \<Rightarrow> nat \<Rightarrow> nat \<Rightarrow> u32 \<Rightarrow> u32 \<Rightarrow> ('d, 'h, 'z) gstate \<Rightarrow> bool" where
  "chs_usable v drive g disk N k spt start plen s \<longleftrightarrow>
     chs_drive v drive g disk N k spt \<and> buffer_ok drive g disk N k spt s \<and> on_partition drive start plen N spt s"

lemma buffer_in_io: "i < spt * 2 ^ k \<Longrightarrow> spt * 2 ^ k \<le> 0x7e00 \<Longrightarrow> io_area (BUFFERADDR + of_nat i)"
proof -
  assume "i < spt * 2 ^ k" "spt * 2 ^ k \<le> 0x7e00"
  then have i: "i < 0x7e00" by linarith
  then have "unat (BUFFERADDR + of_nat i) = 0x70000 + i"
    by (subst unat_add_of_nat) (simp_all add: BUFFERADDR_def)
  then show "io_area (BUFFERADDR + of_nat i)" using i by (simp add: io_area_def word_le_nat_alt word_less_nat_alt)
qed

lemma buffer_ok_same_device:
  assumes "buffer_ok drive g disk N k spt s" "same_device s s'" "spt * 2 ^ k \<le> 0x7e00"
  shows "buffer_ok drive g disk N k spt s'"
  using assms buffer_in_io [of _ spt k] by (auto simp: buffer_ok_def same_device_def)

lemma on_partition_same_device:
  "on_partition drive start plen N spt s \<Longrightarrow> same_device s s' \<Longrightarrow> on_partition drive start plen N spt s'"
  by (simp add: on_partition_def same_device_def)

lemma on_partition_update [simp]:
  "on_partition drive start plen N spt (s\<lparr>mem := m, errnum := e, buf_track := t, hook := h\<rparr>) = on_partition drive start plen N spt s"
  by (simp add: on_partition_def)

lemma part_bytes_sector: "part_bytes disk k start (sector * 2 ^ k + off + i) = disk ((unat start + sector) * 2 ^ k + off + i)"
  by (simp add: part_bytes_def algebra_simps)

context sector_source
begin

text \<open>\<open>devread\<close> under the conditions both interpretations share.\<close>

lemma reads_partition:
  assumes "cached s" "9 \<le> k" "on_partition drive start plen N spt s"
    and "0 < L" "L < 2 ^ 31" "off < 2 ^ 31" "sector < 2 ^ 31" "sector + (off + L - 1) div 2 ^ k < unat plen" "dest_ok (mem_upper s) B L"
  shows "\<exists>m t h. let s' = s\<lparr>mem := m, errnum := ERR_NONE, buf_track := t, hook := h\<rparr>
        in devread v (of_nat sector) (of_nat off) (of_nat L) B s = Some (True, s') \<and> cached s'
          \<and> same_outside (\<lambda>x. io_area x \<or> region B L x) (mem s) m
          \<and> (\<forall>i < L. m (B + of_nat i) = part_bytes disk k start (sector * 2 ^ k + off + i))"
proof -
  have p: "current_drive s = drive" "part_start s = start" "part_length s = plen" "\<not> emu_iso_sector_size_2048 s" "debug s = 0"
    "(unat (part_start s) + (sector + (off + L - 1) div 2 ^ k)) div spt * spt + spt \<le> N"
    using assms(3,8) by (auto simp: on_partition_def)
  show ?thesis
    using devread_reads(2) [OF assms(1,2) p(1,4) assms(4-7) p(5) _ p(6) assms(9)] assms(8) p(2,3)
    unfolding part_bytes_sector by simp
qed

lemma outside_partition:
  assumes "cached s" "9 \<le> k" "on_partition drive start plen N spt s"
    and "0 < L" "L < 2 ^ 31" "off < 2 ^ 31" "sector < 2 ^ 31" "unat plen \<le> sector + (off + L - 1) div 2 ^ k"
  shows "devread v (of_nat sector) (of_nat off) (of_nat L) B s = Some (False, s\<lparr>errnum := ERR_OUTSIDE_PART\<rparr>)"
  using devread_reads(1) [OF assms(1,2) _ _ assms(4-7)] assms(3,8) by (simp add: on_partition_def)

end

lemma edd_usableD:
  assumes "edd_usable v drive g disk N k spt start plen s"
  shows "edd.cached drive g disk N k spt v s" "9 \<le> k" "on_partition drive start plen N spt s"
proof -
  have u: "edd_drive v drive g disk N k spt" "buffer_ok drive g disk N k spt s" "on_partition drive start plen N spt s"
    using assms by (simp_all add: edd_usable_def)
  show "edd.cached drive g disk N k spt v s" by (rule buffer_ok_stable [OF u(1,2)])
  show "9 \<le> k" using u(1) by (simp add: edd_drive_def sound_geometry_def)
  show "on_partition drive start plen N spt s" by (rule u(3))
qed

interpretation edd_part: partition_reader "devread v" "part_bytes disk k start" k "unat plen" "edd_usable v drive g disk N k spt start plen"
  for v :: "('d, 'h) disk_env" and drive g disk N k spt start plen
proof (unfold_locales, goal_cases)
  case (1 s)
  then show ?case by (auto simp: edd_usable_def edd_drive_def sound_geometry_def buffer_ok_def)
next
  case (2 s L off sector B)
  note u = edd_usableD [OF 2(1)]
  from edd.reads_partition [OF u 2(2-7)] 2(1) u(3) show ?case
    unfolding edd_usable_def edd.cached_def Let_def by simp
next
  case (3 s L off sector B)
  note u = edd_usableD [OF 3(1)]
  from edd.outside_partition [OF u 3(2-6)] show ?case .
next
  case (4 s s')
  then show ?case
    by (auto simp: edd_usable_def edd_drive_def sound_geometry_def intro: buffer_ok_same_device on_partition_same_device)
qed

lemma chs_cachedI: "chs_drive v drive g disk N k spt \<Longrightarrow> buffer_ok drive g disk N k spt s \<Longrightarrow> chs.cached drive g disk N k spt v s"
  unfolding chs.cached_def by blast

lemma chs_usableD:
  assumes "chs_usable v drive g disk N k spt start plen s"
  shows "chs.cached drive g disk N k spt v s" "9 \<le> k" "on_partition drive start plen N spt s"
proof -
  have u: "chs_drive v drive g disk N k spt" "buffer_ok drive g disk N k spt s" "on_partition drive start plen N spt s"
    using assms by (simp_all add: chs_usable_def)
  show "chs.cached drive g disk N k spt v s" by (rule chs_cachedI [OF u(1,2)])
  show "9 \<le> k" using u(1) by (simp add: chs_drive_def sound_geometry_def)
  show "on_partition drive start plen N spt s" by (rule u(3))
qed

interpretation chs_part: partition_reader "devread v" "part_bytes disk k start" k "unat plen" "chs_usable v drive g disk N k spt start plen"
  for v :: "('d, 'h) disk_env" and drive g disk N k spt start plen
proof (unfold_locales, goal_cases)
  case (1 s)
  then show ?case by (auto simp: chs_usable_def chs_drive_def sound_geometry_def buffer_ok_def)
next
  case (2 s L off sector B)
  note u = chs_usableD [OF 2(1)]
  from chs.reads_partition [OF u 2(2-7)] 2(1) u(3) show ?case
    unfolding chs_usable_def chs.cached_def Let_def by simp
next
  case (3 s L off sector B)
  note u = chs_usableD [OF 3(1)]
  from chs.outside_partition [OF u 3(2-6)] show ?case .
next
  case (4 s s')
  then show ?case
    by (auto simp: chs_usable_def chs_drive_def sound_geometry_def intro: buffer_ok_same_device on_partition_same_device)
qed

end
