(* ===== verification/PartTable.thy ===== *)
theory PartTable
imports RawDisk
begin

text \<open>
  Partition tables: the macros of \<open>stage2/pc_slice.h\<close> on a sector buffer, and the iteration over the
  partitions of a drive, \<open>next_bsd_partition\<close>, \<open>next_pc_slice\<close> and \<open>next_partition\<close> of \<open>stage2/disk_io.c\<close>.
\<close>

section \<open>Fields of a sector buffer\<close>

definition PC_MBR_CHECK_SIG :: "mem \<Rightarrow> u32 \<Rightarrow> bool" where
  "PC_MBR_CHECK_SIG m p \<longleftrightarrow> peek16 m (p + 510) = 0xaa55"

definition PC_SLICE_FLAG :: "mem \<Rightarrow> u32 \<Rightarrow> u32 \<Rightarrow> u8" where
  "PC_SLICE_FLAG m p part = m (p + 446 + push_bit 4 part)"

definition PC_SLICE_TYPE :: "mem \<Rightarrow> u32 \<Rightarrow> u32 \<Rightarrow> u8" where
  "PC_SLICE_TYPE m p part = m (p + 446 + 4 + push_bit 4 part)"

definition PC_SLICE_START :: "mem \<Rightarrow> u32 \<Rightarrow> u32 \<Rightarrow> u32" where
  "PC_SLICE_START m p part = peek32 m (p + 446 + 8 + push_bit 4 part)"

definition PC_SLICE_LENGTH :: "mem \<Rightarrow> u32 \<Rightarrow> u32 \<Rightarrow> u32" where
  "PC_SLICE_LENGTH m p part = peek32 m (p + 446 + 12 + push_bit 4 part)"

definition PC_SLICE_ENTRY_IS_EMPTY :: "mem \<Rightarrow> u32 \<Rightarrow> u32 \<Rightarrow> bool" where
  "PC_SLICE_ENTRY_IS_EMPTY m p part \<longleftrightarrow>
     (let a = p + 446 + push_bit 4 part
      in m a = m (a + 1) \<and> peek16 m a = peek16 m (a + 2) \<and> peek32 m a = peek32 m (a + 4) \<and> peek64 m a = peek64 m (a + 8))"

definition IS_PC_SLICE_TYPE_EXTENDED :: "u32 \<Rightarrow> bool" where
  "IS_PC_SLICE_TYPE_EXTENDED t \<longleftrightarrow> t = 5 \<or> t = 0x15 \<or> t = 0xf \<or> t = 0x1f \<or> t = 0x85"

definition IS_PC_SLICE_TYPE_BSD_WITH_FS :: "u32 \<Rightarrow> u32 \<Rightarrow> bool" where
  "IS_PC_SLICE_TYPE_BSD_WITH_FS t fs \<longleftrightarrow>
     t = (0xa5 OR push_bit 8 fs) \<or> t = (0xa6 OR push_bit 8 fs) \<or> t = (0xa9 OR push_bit 8 fs)"

definition IS_PC_SLICE_TYPE_BSD :: "u32 \<Rightarrow> bool" where
  "IS_PC_SLICE_TYPE_BSD t = IS_PC_SLICE_TYPE_BSD_WITH_FS t 0"

definition BSD_LABEL_CHECK_MAG :: "mem \<Rightarrow> u32 \<Rightarrow> bool" where
  "BSD_LABEL_CHECK_MAG m p \<longleftrightarrow> peek32 m p = 0x82564557"

definition BSD_LABEL_DTYPE :: "mem \<Rightarrow> u32 \<Rightarrow> u16" where
  "BSD_LABEL_DTYPE m p = peek16 m (p + 4)"

definition BSD_LABEL_NPARTS :: "mem \<Rightarrow> u32 \<Rightarrow> u32" where
  "BSD_LABEL_NPARTS m p = ucast (peek16 m (p + 138))"

definition BSD_PART_LENGTH :: "mem \<Rightarrow> u32 \<Rightarrow> u32 \<Rightarrow> u32" where
  "BSD_PART_LENGTH m p part = peek32 m (p + 148 + push_bit 4 part)"

definition BSD_PART_START :: "mem \<Rightarrow> u32 \<Rightarrow> u32 \<Rightarrow> u32" where
  "BSD_PART_START m p part = peek32 m (p + 148 + 4 + push_bit 4 part)"

definition BSD_PART_TYPE :: "mem \<Rightarrow> u32 \<Rightarrow> u32 \<Rightarrow> u8" where
  "BSD_PART_TYPE m p part = m (p + 148 + 12 + push_bit 4 part)"

section \<open>The iterator\<close>

text \<open>
  The variables \<open>next_partition_drive\<close> to \<open>next_partition_buf\<close>: the first two and the buffer are values,
  the others what the pointers point to.
\<close>

record part_iter =
  next_drive :: u32
  next_dest :: u32
  next_part_no :: u32
  next_type :: u32
  next_start :: u32
  next_len :: u32
  next_offset :: u32
  next_entry :: u32
  next_ext_offset :: u32
  next_buf :: u32

text \<open>The first used BSD partition from \<open>i\<close> on, as the iterator and \<open>bsd_evil_hack\<close>.\<close>

definition bsd_found :: "u32 \<Rightarrow> part_iter \<Rightarrow> ('d, 'h, 'z) gstate \<Rightarrow> part_iter \<times> ('d, 'h, 'z) gstate" where
  "bsd_found i it s =
     (let m = mem s; p = next_buf it
      in (it\<lparr>next_type := push_bit 8 (ucast (BSD_PART_TYPE m p i)) OR (next_type it AND 0xFF),
             next_start := BSD_PART_START m p i, next_len := BSD_PART_LENGTH m p i,
             next_part_no := (next_part_no it AND 0xFF00FF) OR push_bit 8 i\<rparr>,
          if next_drive it AND 0x80 \<noteq> 0 \<and> BSD_LABEL_DTYPE m p = 4 then s\<lparr>bsd_evil_hack := 4\<rparr> else s))"

definition bsd_scan :: "part_iter \<Rightarrow> ('d, 'h, 'z) gstate \<Rightarrow> bool \<times> part_iter \<times> ('d, 'h, 'z) gstate" where
  "bsd_scan it s =
     (let n = BSD_LABEL_NPARTS (mem s) (next_buf it)
      in case (if n \<le> 8 then find (\<lambda>i. BSD_PART_TYPE (mem s) (next_buf it) (of_nat i) \<noteq> 0)
                             [unat (bsd_part_no s + 1)..<unat n] else None) of
           Some i \<Rightarrow> (let (it', s') = bsd_found (of_nat i) it s in (True, it', s'))
         | None \<Rightarrow> (False, it, fail ERR_NO_PART s))"

definition next_bsd_partition :: "('d, 'h) disk_env \<Rightarrow> part_iter \<Rightarrow> ('d, 'h, 'z) gstate \<Rightarrow> (bool \<times> part_iter \<times> ('d, 'h, 'z) gstate) option" where
  "next_bsd_partition v it s0 =
     (let s = s0\<lparr>bsd_part_no := drop_bit 8 (next_part_no it AND 0xFF00)\<rparr>
      in if bsd_part_no s = 0xFF then
           if next_len it < 2 then Some (False, it, fail ERR_BAD_PART_TABLE s)
           else do { (ok, s1) \<leftarrow> rawread v (next_drive it) (next_start it + 1) 0 SECTOR_SIZE (next_buf it) s;
                     Some (if \<not> ok then (False, it, s1)
                           else if \<not> BSD_LABEL_CHECK_MAG (mem s1) (next_buf it) then (False, it, fail ERR_BAD_PART_TABLE s1)
                           else bsd_scan it (s1\<lparr>bsd_part_no := -1\<rparr>)) }
         else Some (bsd_scan it s))"

section \<open>Slices\<close>

text \<open>
  The entries of the table in the buffer behind \<open>next_entry\<close>: the first one that is not skipped, or
  none.  In an extended partition empty entries and those of type 0 are skipped.
\<close>

definition at_entry :: "mem \<Rightarrow> u32 \<Rightarrow> part_iter \<Rightarrow> part_iter" where
  "at_entry m e it = it\<lparr>next_entry := e, next_type := ucast (PC_SLICE_TYPE m (next_buf it) e),
     next_start := next_offset it + PC_SLICE_START m (next_buf it) e, next_len := PC_SLICE_LENGTH m (next_buf it) e\<rparr>"

function scan_entries :: "mem \<Rightarrow> u32 \<Rightarrow> part_iter \<Rightarrow> bool \<times> part_iter" where
  "scan_entries m no it =
     (let e = next_entry it + 1; it' = at_entry m e it
      in if e = 4 then (False, it\<lparr>next_entry := 4\<rparr>)
         else if 3 \<le>s no \<and> (PC_SLICE_ENTRY_IS_EMPTY m (next_buf it) e \<or> next_type it' = 0) then scan_entries m no it'
         else (True, it'))"
  by pat_completeness auto
termination
proof (relation "measure (\<lambda>(m, no, it). unat (3 - next_entry it))", goal_cases)
  case (2 m no it e it')
  have "3 - next_entry it \<noteq> 0"
  proof
    assume "3 - next_entry it = 0"
    then have "next_entry it = 3" by simp
    then show False using 2 by simp
  qed
  then have "unat (3 - next_entry it - 1) < unat (3 - next_entry it)"
    by (metis unat_minus_one diff_less unat_gt_0 less_numeral_extra(1))
  then show ?case using 2 by (simp add: at_entry_def algebra_simps)
qed simp

declare scan_entries.simps [simp del]

text \<open>The first extended partition of the table in the buffer, as the next table to read.\<close>

definition extended_entry :: "mem \<Rightarrow> part_iter \<Rightarrow> part_iter option" where
  "extended_entry m it =
     (case find (\<lambda>i. IS_PC_SLICE_TYPE_EXTENDED (ucast (PC_SLICE_TYPE m (next_buf it) (of_nat i)))) [0..<4] of
        None \<Rightarrow> None
      | Some i \<Rightarrow>
          let off = next_ext_offset it + PC_SLICE_START m (next_buf it) (of_nat i)
          in Some (it\<lparr>next_offset := off, next_ext_offset := (if next_ext_offset it = 0 then off else next_ext_offset it),
                      next_entry := -1\<rparr>))"

text \<open>
  From the label \<open>redo\<close> to the end: \<open>Inl it\<close> goes back to \<open>redo\<close>, \<open>Inr (ok, it)\<close> returns.
\<close>

definition pc_slice_table :: "('d, 'h) disk_env \<Rightarrow> part_iter \<Rightarrow> ('d, 'h, 'z) gstate \<Rightarrow>
    ((part_iter + bool \<times> part_iter) \<times> ('d, 'h, 'z) gstate) option" where
  "pc_slice_table v it0 s0 =
     (let no0 = drop_bit 16 (next_part_no it0 AND 0xFF0000);
          first = (no0 = 0xFF);
          it = (if first then it0\<lparr>next_offset := 0, next_ext_offset := 0, next_entry := -1\<rparr> else it0);
          no = (if first then -1 else no0);
          s = s0\<lparr>pc_slice_no := no\<rparr>
      in do { (ok, s1) \<leftarrow> rawread v (next_drive it) (next_offset it) 0 SECTOR_SIZE (next_buf it) s;
              if \<not> ok then Some (Inr (False, it), s1)
              else if \<not> PC_MBR_CHECK_SIG (mem s1) (next_buf it) then Some (Inr (False, it), fail ERR_BAD_PART_TABLE s1)
              else let (found, it1) = scan_entries (mem s1) no it
                   in if \<not> found then
                        Some (case extended_entry (mem s1) it1 of
                                Some it2 \<Rightarrow> (Inl it2, s1)
                              | None \<Rightarrow> (Inr (False, it1), fail ERR_NO_PART s1))
                      else let no' = (if no <s 3 \<or> \<not> IS_PC_SLICE_TYPE_EXTENDED (next_type it1) then no + 1 else no)
                           in Some (Inr (True, it1\<lparr>next_part_no := push_bit 16 no' OR 0xFFFF\<rparr>), s1\<lparr>pc_slice_no := no'\<rparr>) })"

text \<open>The chain of extended partitions may be cyclic; then \<open>next_pc_slice\<close> does not return, and the model is \<open>None\<close>.\<close>

partial_function (option) next_pc_slice :: "('d, 'h) disk_env \<Rightarrow> part_iter \<Rightarrow> ('d, 'h, 'z) gstate \<Rightarrow> (bool \<times> part_iter \<times> ('d, 'h, 'z) gstate) option" where
  "next_pc_slice v it s =
     do { (r, s1) \<leftarrow> pc_slice_table v it s;
          case r of Inl it' \<Rightarrow> next_pc_slice v it' s1 | Inr (ok, it') \<Rightarrow> Some (ok, it', s1) }"

section \<open>Next partition\<close>

definition NETWORK_DRIVE :: u32 where "NETWORK_DRIVE = 0x20"
definition PXE_DRIVE :: u32 where "PXE_DRIVE = 0x21"

definition next_partition :: "('d, 'h) disk_env \<Rightarrow> part_iter \<Rightarrow> ('d, 'h, 'z) gstate \<Rightarrow> (bool \<times> part_iter \<times> ('d, 'h, 'z) gstate) option" where
  "next_partition v it s =
     (if current_drive s = NETWORK_DRIVE \<or> current_drive s = PXE_DRIVE then Some (False, it, s)
      else if (next_part_no it \<noteq> 0xFFFFFF \<and> IS_PC_SLICE_TYPE_BSD (next_type it AND 0xff)) \<or> next_drive it AND 0x80 = 0 then
        do { (ok, it1, s1) \<leftarrow> next_bsd_partition v (if next_type it = 0 then it\<lparr>next_type := 0xa5\<rparr> else it) s;
             if ok then Some (True, it1, s1)
             else if next_dest it1 AND 0xFF00 \<noteq> 0xFF00
                \<and> (next_dest it1 AND 0xFF0000 = 0xFF0000 \<or> next_dest it1 AND 0xFF0000 = next_part_no it1 AND 0xFF0000)
             then Some (False, it1, s1)
             else next_pc_slice v it1 (s1\<lparr>errnum := ERR_NONE\<rparr>) }
      else next_pc_slice v it s)"

end
