(* ===== verification/OpenPart.thy ===== *)
theory OpenPart
imports PartTable NumText LineEdit
begin

text \<open>
  Opening partitions and mounting filesystems, \<open>stage2/disk_io.c\<close>: \<open>make_saved_active\<close>,
  \<open>set_bootdev\<close>, \<open>print_fsys_type\<close>, \<open>attempt_mount\<close>, \<open>open_device\<close>, \<open>next_part\<close>, \<open>check_and_print_mount\<close>,
  \<open>print_a_completion\<close>, \<open>sane_partition\<close> and \<open>real_open_partition\<close>.  The drivers of the filesystems are
  entries of a table.
\<close>

section \<open>Filesystem table\<close>

record ('d, 'h, 'z) fsys =
  fsys_name :: "u8 list"
  mount_func :: "('d, 'h, 'z) gstate \<Rightarrow> (bool \<times> ('d, 'h, 'z) gstate) option"
  read_func :: "u32 \<Rightarrow> u32 \<Rightarrow> ('d, 'h, 'z) gstate \<Rightarrow> (u32 \<times> ('d, 'h, 'z) gstate) option"
  dir_func :: "u8 list \<Rightarrow> ('d, 'h, 'z) gstate \<Rightarrow> (bool \<times> ('d, 'h, 'z) gstate) option"
  close_func :: "(('d, 'h, 'z) gstate \<Rightarrow> ('d, 'h, 'z) gstate) option"

text \<open>
  The rows of \<open>fsys_table\<close> up to \<open>NUM_FSYS\<close>, \<open>None\<close> for a row of \<open>NULL\<close> pointers.  The default
  configuration counts FFS and UFS2, which have no row.
\<close>

type_synonym ('d, 'h, 'z) fsys_tab = "('d, 'h, 'z) fsys option list"

definition fsys_table :: "(string \<Rightarrow> ('d, 'h, 'z) fsys) \<Rightarrow> ('d, 'h, 'z) fsys_tab" where
  "fsys_table driver = map (\<lambda>n. Some ((driver n)\<lparr>fsys_name := cs n\<rparr>))
     [''pxe'', ''ext2fs'', ''fat'', ''ntfs'', ''minix'', ''reiserfs'', ''vstafs'', ''jfs'', ''xfs'', ''iso9660''] @ [None, None]"

definition gprintf :: "string \<Rightarrow> parg list \<Rightarrow> ('d, 'h, 'z) gstate \<Rightarrow> ('d, 'h, 'z) gstate option" where
  "gprintf f args s = do { t \<leftarrow> grub_printf (cs f @ [0]) args; Some (print_tty [Print t] s) }"

section \<open>The active flag and the boot device\<close>

definition MBR :: u32 where "MBR = 0x8000"
definition BOOT_PART_TABLE :: u32 where "BOOT_PART_TABLE = 0x07be"

definition set_flag :: "u32 \<Rightarrow> u32 \<Rightarrow> u8 \<Rightarrow> mem \<Rightarrow> mem" where
  "set_flag p part b m = m(p + 446 + push_bit 4 part := b)"

definition clear_flags :: "u32 \<Rightarrow> mem \<Rightarrow> mem" where
  "clear_flags p m = fold (\<lambda>i. set_flag p i 0) [0, 1, 2, 3] m"

definition make_saved_active :: "('d, 'h) disk_env \<Rightarrow> bool \<Rightarrow> ('d, 'h, 'z) gstate \<Rightarrow> (bool \<times> ('d, 'h, 'z) gstate) option" where
  "make_saved_active v status_only s =
     (if saved_drive s AND 0x80 = 0 then Some (False, fail ERR_DEV_VALUES s)
      else let part = drop_bit 16 (saved_partition s)
           in if part > 3 then Some (False, fail ERR_DEV_VALUES s)
              else do { (ok, s1) \<leftarrow> rawread v (saved_drive s) 0 0 SECTOR_SIZE MBR s;
                        if \<not> ok then Some (False, s1)
                        else if IS_PC_SLICE_TYPE_EXTENDED (ucast (PC_SLICE_TYPE (mem s1) MBR part)) then Some (False, fail ERR_DEV_VALUES s1)
                        else if status_only then Some (PC_SLICE_FLAG (mem s1) MBR part = 0x80, s1)
                        else if PC_SLICE_FLAG (mem s1) MBR part \<noteq> 0x80
                        then rawwrite v (saved_drive s1) 0 MBR (s1\<lparr>mem := set_flag MBR part 0x80 (clear_flags MBR (mem s1))\<rparr>)
                        else Some (True, s1) })"

text \<open>The partition table is copied byte by byte to \<open>BOOT_PART_TABLE\<close>, where its flags are set.\<close>

definition boot_table :: "u32 \<Rightarrow> mem \<Rightarrow> mem" where
  "boot_table addr m =
     (let m1 = poke BOOT_PART_TABLE (peek m (SCRATCHADDR + 0x1BE) 0x40) m
      in (fold (\<lambda>i m. m(BOOT_PART_TABLE + 446 + push_bit 4 i := 0)) [0, 1, 2, 3] m1)(addr := 0x80))"

definition MAKEBOOTDEV :: "u32 \<Rightarrow> u32 \<Rightarrow> u32 \<Rightarrow> u32 \<Rightarrow> u32 \<Rightarrow> u32" where
  "MAKEBOOTDEV ty adaptor controller unit_no part =
     ty OR push_bit 24 adaptor OR push_bit 20 controller OR push_bit 16 unit_no OR push_bit 8 part OR 0xa0000000"

definition bootdev_number :: "u32 \<Rightarrow> ('d, 'h, 'z) gstate \<Rightarrow> u32" where
  "bootdev_number hdbias s =
     (let i = (if saved_partition s = 0xFFFFFF then 1
               else if drop_bit 16 (saved_partition s) = 0xFF then 0
               else drop_bit 16 (saved_partition s) + 2);
          j = (if saved_drive s AND 0x80 \<noteq> 0 then bsd_evil_hack s else 2)
      in MAKEBOOTDEV j (drop_bit 4 i) (i AND 0xF) ((saved_drive s - hdbias) AND 0x7F)
           (drop_bit 8 (saved_partition s) AND 0xFF))"

definition set_bootdev :: "('d, 'h) disk_env \<Rightarrow> u32 \<Rightarrow> ('d, 'h, 'z) gstate \<Rightarrow> (u32 \<times> ('d, 'h, 'z) gstate) option" where
  "set_bootdev v hdbias s =
     (if saved_drive s AND 0x80 \<noteq> 0 \<and> cur_part_addr s \<noteq> 0 then
        do { (ok, s1) \<leftarrow> rawread v (saved_drive s) (cur_part_offset s) 0 SECTOR_SIZE SCRATCHADDR s;
             if \<not> ok then Some (0, s1)
             else let s2 = s1\<lparr>mem := boot_table (cur_part_addr s1) (mem s1), boot_part_addr := cur_part_addr s1\<rparr>
                  in Some (bootdev_number hdbias s2, s2) }
      else Some (bootdev_number hdbias s, s))"

section \<open>Mounting\<close>

definition print_fsys_type :: "('d, 'h, 'z) fsys_tab \<Rightarrow> ('d, 'h, 'z) gstate \<Rightarrow> ('d, 'h, 'z) gstate option" where
  "print_fsys_type tab s =
     (if do_completion s then Some s
      else do { s1 \<leftarrow> gprintf '' Filesystem type '' [] s;
                s2 \<leftarrow> (if fsys_type s1 \<noteq> length tab
                       then do { f \<leftarrow> rd tab (fsys_type s1); g \<leftarrow> f; gprintf ''is %s, '' [PStr (fsys_name g)] s1 }
                       else gprintf ''unknown, '' [] s1);
                if current_partition s2 = 0xFFFFFF then do { s3 \<leftarrow> gprintf ''using whole disk'' [] s2; Some (print_tty [Print [10]] s3) }
                else do { s3 \<leftarrow> gprintf ''partition type 0x%x'' [PNum (current_slice s2 AND 0xFF)] s2; Some (print_tty [Print [10]] s3) } })"

fun mount_from :: "nat \<Rightarrow> ('d, 'h, 'z) fsys_tab \<Rightarrow> ('d, 'h, 'z) gstate \<Rightarrow> ('d, 'h, 'z) gstate option" where
  "mount_from n [] s = (let s1 = s\<lparr>fsys_type := n\<rparr> in Some (if errnum s1 = ERR_NONE then fail ERR_FSYS_MOUNT s1 else s1))"
| "mount_from n (f # fs) s =
     do { g \<leftarrow> f;
          (ok, s1) \<leftarrow> mount_func g (s\<lparr>fsys_type := n, errnum := ERR_NONE\<rparr>);
          if ok then Some s1 else mount_from (n + 1) fs s1 }"

definition attempt_mount :: "('d, 'h, 'z) fsys_tab \<Rightarrow> ('d, 'h, 'z) gstate \<Rightarrow> ('d, 'h, 'z) gstate option" where
  "attempt_mount tab s = mount_from 0 tab s"

definition check_and_print_mount :: "('d, 'h, 'z) fsys_tab \<Rightarrow> ('d, 'h, 'z) gstate \<Rightarrow> ('d, 'h, 'z) gstate option" where
  "check_and_print_mount tab s =
     do { s1 \<leftarrow> attempt_mount tab s;
          let s2 = (if errnum s1 = ERR_FSYS_MOUNT then s1\<lparr>errnum := ERR_NONE\<rparr> else s1);
          s3 \<leftarrow> (if errnum s2 = ERR_NONE then print_fsys_type tab s2 else Some s2);
          Some (print_tty [PrintError (errnum s3)] s3) }"

section \<open>Partitions\<close>

definition part_iter_of :: "('d, 'h, 'z) gstate \<Rightarrow> part_iter" where
  "part_iter_of s = \<lparr>next_drive = current_drive s, next_dest = dest_partition s, next_part_no = current_partition s,
     next_type = current_slice s, next_start = part_start s, next_len = part_length s, next_offset = part_offset s,
     next_entry = part_entry s, next_ext_offset = ext_offset s, next_buf = MBR\<rparr>"

definition set_part_iter :: "part_iter \<Rightarrow> ('d, 'h, 'z) gstate \<Rightarrow> ('d, 'h, 'z) gstate" where
  "set_part_iter it s = s\<lparr>current_partition := next_part_no it, current_slice := next_type it, part_start := next_start it,
     part_length := next_len it, part_offset := next_offset it, part_entry := next_entry it, ext_offset := next_ext_offset it\<rparr>"

definition next_part :: "('d, 'h) disk_env \<Rightarrow> ('d, 'h, 'z) gstate \<Rightarrow> (bool \<times> ('d, 'h, 'z) gstate) option" where
  "next_part v s =
     do { (ok, it, s1) \<leftarrow> next_partition v (part_iter_of s) s;
          let s2 = set_part_iter it s1;
          Some (ok, s2\<lparr>bsd_part_no := drop_bit 8 (current_partition s2) AND 0xFF, pc_slice_no := drop_bit 16 (current_partition s2)\<rparr>) }"

definition sane_partition :: "('d, 'h, 'z) gstate \<Rightarrow> bool \<times> ('d, 'h, 'z) gstate" where
  "sane_partition s =
     (let p = current_partition s
      in if p AND 0xFF000000 = 0 \<and> p AND 0xFF = 0xFF \<and> (p AND 0xFF00 = 0xFF00 \<or> p AND 0xFF00 < 0x800)
           \<and> (drop_bit 16 p = 0xFF \<or> current_drive s AND 0x80 \<noteq> 0)
         then (True, s) else (False, fail ERR_DEV_VALUES s))"

text \<open>
  Save the common prefix of the completions in \<open>UNIQUE_BUF\<close>, or print the completion.
\<close>

fun common_prefix :: "u8 list \<Rightarrow> u8 list \<Rightarrow> u8 list" where
  "common_prefix (a # as) (b # bs) = (if a = b then a # common_prefix as bs else [])"
| "common_prefix _ _ = []"

definition print_a_completion :: "u8 list \<Rightarrow> ('d, 'h, 'z) gstate \<Rightarrow> ('d, 'h, 'z) gstate option" where
  "print_a_completion nm s =
     (if nm = cs ''.'' \<or> nm = cs ''..'' then Some s
      else if do_completion s then
        do { u \<leftarrow> str_of (edit_area s) UNIQUE_BUF;
             let u' = common_prefix u nm;
             a \<leftarrow> (if unique s = 0 then store (edit_area s) UNIQUE_BUF (nm @ [0]) else wr (edit_area s) (UNIQUE_BUF + length u') 0);
             Some (s\<lparr>edit_area := a, unique := unique s + 1\<rparr>) }
      else do { s1 \<leftarrow> gprintf '' %s'' [PStr nm] s; Some (s1\<lparr>unique := unique s1 + 1\<rparr>) })"

text \<open>The loop over the BSD partitions of a slice, with \<open>got_part\<close>.\<close>

partial_function (option) list_bsd :: "('d, 'h) disk_env \<Rightarrow> ('d, 'h, 'z) fsys_tab \<Rightarrow> bool \<Rightarrow> ('d, 'h, 'z) gstate \<Rightarrow> (bool \<times> ('d, 'h, 'z) gstate) option" where
  "list_bsd v tab got s =
     do { (ok, s1) \<leftarrow> next_part v s;
          if \<not> ok \<or> bsd_part_no s1 = 0xFF then Some (got, s1)
          else do { s2 \<leftarrow> (if got then Some s1
                          else do { t \<leftarrow> gprintf ''[BSD sub-partitions immediately follow]'' [] s1; Some (print_tty [Print [10]] t) });
                    s3 \<leftarrow> gprintf (''     BSD Partition num: '' @ [CHR 39] @ ''%c'' @ [CHR 39] @ '', '')
                           [PNum (bsd_part_no s2 + 97)] s2;
                    s4 \<leftarrow> check_and_print_mount tab s3;
                    list_bsd v tab True s4 } }"

datatype open_next = Continue | Break | LoopStart

text \<open>Show one partition, the branches of \<open>flags && ! IS_PC_SLICE_TYPE_EXTENDED\<close>.\<close>

definition show_listed :: "('d, 'h) disk_env \<Rightarrow> ('d, 'h, 'z) fsys_tab \<Rightarrow> ('d, 'h, 'z) gstate \<Rightarrow> (open_next \<times> ('d, 'h, 'z) gstate) option" where
  "show_listed v tab s0 =
     do { s \<leftarrow> (if current_drive s0 AND 0x80 \<noteq> 0
               then gprintf ''   Partition num: %d, '' [PNum (drop_bit 16 (current_partition s0))] s0 else Some s0);
          if \<not> IS_PC_SLICE_TYPE_BSD (current_slice s) then do { s1 \<leftarrow> check_and_print_mount tab s; Some (Continue, s1) }
          else do { (got, s1) \<leftarrow> list_bsd v tab False s;
                    s2 \<leftarrow> (if got then Some s1
                          else do { t \<leftarrow> gprintf '' No BSD sub-partition found, partition type 0x%x'' [PNum (current_slice s)] s1;
                                    Some (print_tty [Print [10]] t) });
                    Some (if errnum s2 \<noteq> ERR_NONE then (Break, s2\<lparr>errnum := ERR_NONE\<rparr>) else (LoopStart, s2)) } }"

definition dec_text :: "u32 \<Rightarrow> u8 list option" where
  "dec_text n = grub_printf (cs ''%d'' @ [0]) [PNum n]"

definition show_completion :: "('d, 'h, 'z) gstate \<Rightarrow> ('d, 'h, 'z) gstate option" where
  "show_completion s =
     (if bsd_part_no s \<noteq> 0xFF then
        do { d \<leftarrow> dec_text (pc_slice_no s);
             let letter = ucast (bsd_part_no s + 97);
             print_a_completion (if current_drive s AND 0x80 = 0 \<or> drop_bit 16 (dest_partition s) = pc_slice_no s
                                 then [letter, 41] else d @ [44, letter, 41]) s }
      else if \<not> IS_PC_SLICE_TYPE_BSD (current_slice s) then do { d \<leftarrow> dec_text (pc_slice_no s); print_a_completion (d @ [41]) s }
      else Some s)"

text \<open>
  The loop over the partitions: \<open>advance\<close> is off at the label \<open>loop_start\<close>.  The result says whether the
  destination was found.
\<close>

definition is_dest :: "('d, 'h, 'z) gstate \<Rightarrow> bool" where
  "is_dest s \<longleftrightarrow> dest_partition s = current_partition s
     \<or> (drop_bit 16 (dest_partition s) = 0xFF \<and> drop_bit 8 (dest_partition s) AND 0xFF = bsd_part_no s)"

partial_function (option) open_loop :: "('d, 'h) disk_env \<Rightarrow> ('d, 'h, 'z) fsys_tab \<Rightarrow> bool \<Rightarrow> bool \<Rightarrow> ('d, 'h, 'z) gstate \<Rightarrow> (bool \<times> ('d, 'h, 'z) gstate) option" where
  "open_loop v tab flags advance s0 =
     do { (more, s1) \<leftarrow> (if advance then next_part v s0 else Some (True, s0));
          if \<not> more then Some (False, s1)
          else
            let s = s1\<lparr>cur_part_offset := part_offset s1, cur_part_addr := BOOT_PART_TABLE + push_bit 4 (part_entry s1)\<rparr>
            in if current_slice s = 0 then open_loop v tab flags True s
               else do { (r, s2) \<leftarrow> (if flags \<and> \<not> IS_PC_SLICE_TYPE_EXTENDED (current_slice s) then
                                       if \<not> do_completion s then show_listed v tab s
                                       else do { t \<leftarrow> show_completion s; Some (Continue, t) }
                                     else Some (Continue, s));
                         case r of Break \<Rightarrow> Some (False, s2)
                         | LoopStart \<Rightarrow> open_loop v tab flags False s2
                         | Continue \<Rightarrow>
                             let s3 = s2\<lparr>errnum := ERR_NONE\<rparr>
                             in if \<not> flags \<and> is_dest s3 then Some (True, s3) else open_loop v tab flags True s3 } }"

definition real_open_partition :: "('d, 'h) disk_env \<Rightarrow> ('d, 'h, 'z) fsys_tab \<Rightarrow> bool \<Rightarrow> ('d, 'h, 'z) gstate \<Rightarrow> (bool \<times> ('d, 'h, 'z) gstate) option" where
  "real_open_partition v tab flags s0 =
     (let s1 = s0\<lparr>dest_partition := current_partition s0\<rparr>
      in if current_drive s1 = NETWORK_DRIVE \<or> current_drive s1 = PXE_DRIVE then Some (True, s1)
         else let (sane, s2) = sane_partition s1
              in if \<not> sane then Some (False, s2)
                 else do { (ok, s3) \<leftarrow> select_drive v (current_drive s2) (s2\<lparr>bsd_evil_hack := 0, current_slice := 0, part_start := 0\<rparr>);
                           if \<not> ok then Some (False, s3)
                           else let s4 = s3\<lparr>part_length := total_sectors (buf_geom s3)\<rparr>
                                in if \<not> flags \<and> current_partition s4 = 0xFFFFFF then Some (True, s4)
                                   else do { (found, s5) \<leftarrow> open_loop v tab flags True
                                               (s4\<lparr>dest_partition := (if flags then 0xFFFFFF else dest_partition s4), current_partition := 0xFFFFFF\<rparr>);
                                             if found then Some (True, s5)
                                             else if flags then
                                               do { s6 \<leftarrow> (if current_drive s5 AND 0x80 = 0
                                                          then check_and_print_mount tab (s5\<lparr>current_partition := 0xFFFFFF\<rparr>) else Some s5);
                                                    Some (True, s6\<lparr>errnum := ERR_NONE\<rparr>) }
                                             else Some (False, s5) } })"

definition open_partition :: "('d, 'h) disk_env \<Rightarrow> ('d, 'h, 'z) fsys_tab \<Rightarrow> ('d, 'h, 'z) gstate \<Rightarrow> (bool \<times> ('d, 'h, 'z) gstate) option" where
  "open_partition v tab s = real_open_partition v tab False s"

definition open_device :: "('d, 'h) disk_env \<Rightarrow> ('d, 'h, 'z) fsys_tab \<Rightarrow> ('d, 'h, 'z) gstate \<Rightarrow> (bool \<times> ('d, 'h, 'z) gstate) option" where
  "open_device v tab s =
     do { (ok, s1) \<leftarrow> open_partition v tab s;
          s2 \<leftarrow> (if ok then attempt_mount tab s1 else Some s1);
          Some (errnum s2 = ERR_NONE, s2) }"

end
