(* ===== verification/DevName.thy ===== *)
theory DevName
imports OpenPart DiskRead
begin

text \<open>
  Device names, \<open>stage2/disk_io.c\<close>: \<open>set_device\<close> parses a device string such as \<open>(hd0,1,a)\<close> into
  \<open>current_drive\<close> and \<open>current_partition\<close>, \<open>setup_part\<close> opens the device a file name starts with.  The main
  theorem reads back every device name written in canonical form.
\<close>

section \<open>Parsing a device\<close>

definition GRUB_INVALID_DRIVE :: u32 where "GRUB_INVALID_DRIVE = 0xFFFFFFFF"
definition PART_UNSPECIFIED :: nat where "PART_UNSPECIFIED = 0"
definition PART_DISK :: nat where "PART_DISK = 1"
definition PART_CHOSEN :: nat where "PART_CHOSEN = 2"

text \<open>\<open>safe_parse_maxint\<close> on the state: the position behind the number and the number.\<close>

definition parse_num :: "cbuf \<Rightarrow> nat \<Rightarrow> ('d, 'h, 'z) gstate \<Rightarrow> ((nat \<times> u32) option \<times> ('d, 'h, 'z) gstate) option" where
  "parse_num b p s =
     do { r \<leftarrow> safe_parse_maxint b p;
          Some (case r of Inl e \<Rightarrow> (None, fail e s) | Inr x \<Rightarrow> (Some x, s)) }"

text \<open>The letters a drive name may start with.\<close>

definition drive_letter :: "('d, 'h) disk_env \<Rightarrow> u8 \<Rightarrow> bool" where
  "drive_letter v c \<longleftrightarrow> c = ch CHR ''f'' \<or> c = ch CHR ''h'' \<or> c = ch CHR ''m'' \<or> c = ch CHR ''r''
     \<or> c = ch CHR ''n'' \<and> network_ready v \<or> c = ch CHR ''p'' \<and> pxe_entry v \<noteq> 0
     \<or> c = ch CHR ''c'' \<and> (cdrom_drive v \<noteq> GRUB_INVALID_DRIVE \<or> atapi_dev_count v \<noteq> 0)"

definition is_digit :: "u8 \<Rightarrow> bool" where
  "is_digit c \<longleftrightarrow> ch CHR ''0'' \<le> c \<and> c \<le> ch CHR ''9''"

definition is_bsd_letter :: "u8 \<Rightarrow> bool" where
  "is_bsd_letter c \<longleftrightarrow> ch CHR ''a'' \<le> c \<and> c \<le> ch CHR ''h''"

text \<open>
  Only a letter, or a letter and \<open>d\<close>: the string is completed to the latter, and the position of
  its end is returned.
\<close>

definition drive_prefix :: "('d, 'h) disk_env \<Rightarrow> cbuf \<Rightarrow> nat \<Rightarrow> (nat \<times> cbuf) option option" where
  "drive_prefix v b p =
     do { c \<leftarrow> rd b p;
          if drive_letter v c then
            do { c1 \<leftarrow> rd b (p + 1);
                 if c1 = 0 then do { b1 \<leftarrow> wr b (p + 1) (ch CHR ''d''); b2 \<leftarrow> wr b1 (p + 2) 0; Some (Some (p + 2, b2)) }
                 else if c1 = ch CHR ''d'' then
                   do { c2 \<leftarrow> rd b (p + 2); Some (if c2 = 0 then Some (p + 2, b) else None) }
                 else Some None }
          else Some None }"

text \<open>The drive: \<open>p\<close> is at its letter or number, the result behind it.\<close>

definition drive_number :: "('d, 'h) disk_env \<Rightarrow> u8 \<Rightarrow> cbuf \<Rightarrow> nat \<Rightarrow> ('d, 'h, 'z) gstate \<Rightarrow> (nat \<times> ('d, 'h, 'z) gstate) option" where
  "drive_number v c b p s =
     do { (r, s1) \<leftarrow> parse_num b p s;
          let (p1, s2) = (case r of Some (p1, n) \<Rightarrow> (p1, s1\<lparr>current_drive := n\<rparr>) | None \<Rightarrow> (p, s1));
          let s3 = s2\<lparr>disk_choice := False\<rparr>;
          Some (p1, if c = ch CHR ''h'' then s3\<lparr>current_drive := current_drive s3 OR 0x80\<rparr>
                    else if c = ch CHR ''c'' \<and> atapi_dev_count v \<noteq> 0 \<and> current_drive s3 < atapi_dev_count v
                    then s3\<lparr>current_drive := current_drive s3 + min_cdrom_id v\<rparr> else s3) }"

definition set_drive :: "('d, 'h) disk_env \<Rightarrow> cbuf \<Rightarrow> nat \<Rightarrow> ('d, 'h, 'z) gstate \<Rightarrow> (nat \<times> ('d, 'h, 'z) gstate) option" where
  "set_drive v b p0 s0 =
     do { c \<leftarrow> rd b p0;
          (p, s) \<leftarrow> (if drive_letter v c
                    then do { c1 \<leftarrow> rd b (p0 + 1); Some (p0 + 2, if c1 \<noteq> ch CHR ''d'' then fail ERR_NUMBER_PARSING s0 else s0) }
                    else Some (p0, s0));
          if c = ch CHR ''n'' \<and> network_ready v then Some (p, s\<lparr>current_drive := NETWORK_DRIVE\<rparr>)
          else if c = ch CHR ''p'' \<and> pxe_entry v \<noteq> 0 then Some (p, s\<lparr>current_drive := PXE_DRIVE\<rparr>)
          else do { cd \<leftarrow> (if c = ch CHR ''c'' \<and> cdrom_drive v \<noteq> GRUB_INVALID_DRIVE
                          then do { e \<leftarrow> rd b p; Some (e = ch CHR '')'') } else Some False);
                    if cd then Some (p, s\<lparr>current_drive := cdrom_drive v\<rparr>)
                    else if c = ch CHR ''m'' then Some (p, s\<lparr>current_drive := 0xffff\<rparr>)
                    else if c = ch CHR ''r'' then Some (p, s\<lparr>current_drive := ram_drive v\<rparr>)
                    else drive_number v c b p s } }"

text \<open>The partition, behind the comma; the result is \<open>None\<close> for a return of \<open>NULL\<close>.\<close>

definition set_bsd :: "cbuf \<Rightarrow> nat \<Rightarrow> ('d, 'h, 'z) gstate \<Rightarrow> (nat \<times> ('d, 'h, 'z) gstate) option" where
  "set_bsd b p s =
     do { c \<leftarrow> rd b p;
          Some (if is_bsd_letter c
                then (p + 1, s\<lparr>current_partition := push_bit 8 (ucast (c - ch CHR ''a'')) OR (current_partition s AND 0xFF00FF)\<rparr>)
                else (p, s)) }"

definition set_slice :: "cbuf \<Rightarrow> nat \<Rightarrow> ('d, 'h, 'z) gstate \<Rightarrow> (nat option \<times> ('d, 'h, 'z) gstate) option" where
  "set_slice b p s =
     (if current_drive s AND 0x80 = 0 then Some (None, fail ERR_DEV_FORMAT s)
      else do { (r, s1) \<leftarrow> parse_num b p s;
                case r of None \<Rightarrow> Some (None, fail ERR_DEV_FORMAT s1)
                | Some (p1, n) \<Rightarrow>
                    if n > 254 then Some (None, fail ERR_DEV_FORMAT (s1\<lparr>current_partition := n\<rparr>))
                    else do { c \<leftarrow> rd b p1;
                              (p2, s2) \<leftarrow> set_bsd b (if c = ch CHR '','' then p1 + 1 else p1)
                                            (s1\<lparr>current_partition := push_bit 16 n + 0xFFFF\<rparr>);
                              Some (Some p2, s2) } })"

definition set_part :: "cbuf \<Rightarrow> nat \<Rightarrow> ('d, 'h, 'z) gstate \<Rightarrow> (nat option \<times> ('d, 'h, 'z) gstate) option" where
  "set_part b p s0 =
     do { c \<leftarrow> rd b p;
          let s = s0\<lparr>disk_choice := False, part_choice := part_choice s0 + 1\<rparr>;
          if is_digit c then set_slice b p (s\<lparr>part_choice := part_choice s + 1, current_partition := 0\<rparr>)
          else if is_bsd_letter c
          then Some (Some (p + 1), s\<lparr>part_choice := part_choice s + 1,
                                     current_partition := push_bit 8 (ucast (c - ch CHR ''a'')) OR 0xFF00FF\<rparr>)
          else Some (Some p, s) }"

text \<open>From the check of \<open>errnum\<close> behind the drive to the end; \<open>p\<close> is behind the drive.\<close>

definition device_end :: "cbuf \<Rightarrow> nat \<Rightarrow> bool \<Rightarrow> ('d, 'h, 'z) gstate \<Rightarrow> (nat option \<times> ('d, 'h, 'z) gstate) option" where
  "device_end b p result s =
     (let (sane, s1) = sane_partition s
      in if \<not> sane then Some (None, s1)
         else if result then Some (Some (p + 1), s1)
         else do { c \<leftarrow> rd b p; Some (None, fail ERR_DEV_FORMAT (if c = 0 then s1\<lparr>incomplete := True\<rparr> else s1)) })"

definition device_tail :: "cbuf \<Rightarrow> nat \<Rightarrow> ('d, 'h, 'z) gstate \<Rightarrow> (nat option \<times> ('d, 'h, 'z) gstate) option" where
  "device_tail b p s =
     (if errnum s \<noteq> ERR_NONE then Some (None, s)
      else do { c \<leftarrow> rd b p;
                if c = ch CHR '')'' then device_end b p True (s\<lparr>part_choice := PART_CHOSEN\<rparr>)
                else if c = ch CHR '','' then
                  do { (r, s1) \<leftarrow> set_part b (p + 1) s;
                       case r of None \<Rightarrow> Some (None, s1)
                       | Some p1 \<Rightarrow>
                           do { e \<leftarrow> rd b p1;
                                if e = ch CHR '')'' then
                                  device_end b p1 True (if part_choice s1 = PART_DISK
                                    then s1\<lparr>current_partition := saved_partition s1, part_choice := part_choice s1 + 1\<rparr> else s1)
                                else device_end b p1 False s1 } }
                else device_end b p False s })"

text \<open>The position behind the device or \<open>None\<close>, and the string, which may be completed.\<close>

definition set_device :: "('d, 'h) disk_env \<Rightarrow> cbuf \<Rightarrow> nat \<Rightarrow> ('d, 'h, 'z) gstate \<Rightarrow> (nat option \<times> cbuf \<times> ('d, 'h, 'z) gstate) option" where
  "set_device v b p s0 =
     (let s = s0\<lparr>incomplete := False, disk_choice := True, part_choice := PART_UNSPECIFIED,
                 current_drive := saved_drive s0, current_partition := 0xFFFFFF\<rparr>
      in do { c \<leftarrow> rd b p;
              if c \<noteq> ch CHR ''('' then do { (r, s1) \<leftarrow> device_end b p False s; Some (r, b, s1) }
              else do { c1 \<leftarrow> rd b (p + 1);
                        if c1 = 0 then Some (Some (p + 1), b, s)
                        else if c1 = ch CHR '')'' then Some (Some (p + 2), b, s\<lparr>current_partition := saved_partition s\<rparr>)
                        else if c1 = ch CHR '','' then do { (r, s1) \<leftarrow> device_tail b (p + 1) s; Some (r, b, s1) }
                        else do { pre \<leftarrow> drive_prefix v b (p + 1);
                                  case pre of Some (q, b') \<Rightarrow> Some (Some q, b', s)
                                  | None \<Rightarrow> do { (q, s1) \<leftarrow> set_drive v b (p + 1) s;
                                                 (r, s2) \<leftarrow> device_tail b q s1; Some (r, b, s2) } } } })"

section \<open>Opening the device of a file name\<close>

definition open_for :: "('d, 'h) disk_env \<Rightarrow> ('d, 'h, 'z) fsys_tab \<Rightarrow> cbuf \<Rightarrow> nat \<Rightarrow> ('d, 'h, 'z) gstate \<Rightarrow> ('d, 'h, 'z) gstate option" where
  "open_for v tab b p s =
     do { c \<leftarrow> rd b p;
          (_, s1) \<leftarrow> (if c \<noteq> ch CHR ''/'' then open_partition v tab s else open_device v tab s);
          Some s1 }"

definition setup_part :: "('d, 'h) disk_env \<Rightarrow> ('d, 'h, 'z) fsys_tab \<Rightarrow> cbuf \<Rightarrow> nat \<Rightarrow> ('d, 'h, 'z) gstate \<Rightarrow> (nat option \<times> cbuf \<times> ('d, 'h, 'z) gstate) option" where
  "setup_part v tab b0 p0 s0 =
     do { c \<leftarrow> rd b0 p0;
          let s = s0\<lparr>relative_path := True\<rparr>;
          (r, b, s1) \<leftarrow>
            (if c = ch CHR ''('' then
               do { (q, b, t) \<leftarrow> set_device v b0 p0 (s\<lparr>relative_path := False\<rparr>);
                    case q of None \<Rightarrow> Some (None, b, t\<lparr>current_drive := GRUB_INVALID_DRIVE\<rparr>)
                    | Some p \<Rightarrow> do { t1 \<leftarrow> open_for v tab b p t; Some (Some p, b, t1) } }
             else if saved_drive s \<noteq> current_drive s \<or> saved_partition s \<noteq> current_partition s
                     \<or> (c = ch CHR ''/'' \<and> fsys_type s = length tab) \<or> buf_drive s = -1
             then do { t \<leftarrow> open_for v tab b0 p0 (s\<lparr>current_drive := saved_drive s, current_partition := saved_partition s\<rparr>);
                       Some (Some p0, b0, t) }
             else Some (Some p0, b0, s));
          case r of None \<Rightarrow> Some (None, b, s1)
          | Some p \<Rightarrow>
              do { e \<leftarrow> rd b p;
                   if errnum s1 \<noteq> ERR_NONE \<and> (e = ch CHR ''/'' \<or> errnum s1 \<noteq> ERR_FSYS_MOUNT) then Some (None, b, s1)
                   else let (sane, s2) = sane_partition (s1\<lparr>errnum := ERR_NONE\<rparr>)
                        in Some (if sane then Some p else None, b, s2) } }"

section \<open>Reading back a device name\<close>

fun ahead :: "nat \<Rightarrow> grub_error + nat \<times> 'a \<Rightarrow> grub_error + nat \<times> 'a" where
  "ahead k (Inl e) = Inl e"
| "ahead k (Inr (q, x)) = Inr (k + q, x)"

lemma spm_loop_shift:
  "spm_loop (pre @ b) (length pre + p) mult negative acc f =
     map_option (ahead (length pre)) (spm_loop b p mult negative acc f)"
proof (induction b p mult negative acc f rule: spm_loop.induct)
  case (1 b p mult negative acc f)
  show ?case
  proof (cases "rd b p")
    case None
    then show ?thesis by (subst (1 2) spm_loop.simps) (simp add: rd_append_right)
  next
    case c: (Some c)
    show ?thesis
    proof (cases "digit_value mult c")
      case None
      then show ?thesis using c by (subst (1 2) spm_loop.simps) (simp add: rd_append_right)
    next
      case d: (Some d)
      show ?thesis
      proof (cases "mult = 10 \<and> \<not> negative \<and> acc > (0xFFFFFFFF - d) div mult")
        case True
        have "rd (pre @ b) (length pre + p) = Some c" using c by (simp add: rd_append_right)
        then have "spm_loop (pre @ b) (length pre + p) mult negative acc f = Some (Inl ERR_NUMBER_OVERFLOW)"
          using d True by (subst spm_loop.simps) auto
        moreover have "spm_loop b p mult negative acc f = Some (Inl ERR_NUMBER_OVERFLOW)"
          using c d True by (subst spm_loop.simps) auto
        ultimately show ?thesis by simp
      next
        case False
        have "rd (pre @ b) (length pre + p) = Some c" using c by (simp add: rd_append_right)
        then have "spm_loop (pre @ b) (length pre + p) mult negative acc f
            = spm_loop (pre @ b) (length pre + (p + 1)) mult negative (acc * mult + d) True"
          using d False by (subst spm_loop.simps) auto
        moreover have "spm_loop b p mult negative acc f = spm_loop b (p + 1) mult negative (acc * mult + d) True"
          using c d False by (subst spm_loop.simps) auto
        ultimately show ?thesis using "1.IH" [OF c d False] by simp
      qed
    qed
  qed
qed

definition num_prefix :: "cbuf \<Rightarrow> nat \<Rightarrow> (bool \<times> bool) option" where
  "num_prefix b p =
     do { c0 \<leftarrow> rd b p;
          let negative = (c0 = ch CHR ''-'');
          c1 \<leftarrow> rd b (p + of_bool negative);
          hex \<leftarrow> (if c1 = ch CHR ''0'' then do { c2 \<leftarrow> rd b (p + (of_bool negative + 1)); Some (grub_tolower (scast c2) = 120) } else Some False);
          Some (negative, hex) }"

definition num_result :: "bool \<Rightarrow> grub_error + nat \<times> u32 \<times> bool \<Rightarrow> grub_error + nat \<times> u32" where
  "num_result negative r =
     (case r of Inl e \<Rightarrow> Inl e
      | Inr (ptr, myint, found) \<Rightarrow> if \<not> found then Inl ERR_NUMBER_PARSING else Inr (ptr, if negative then - myint else myint))"

lemma safe_parse_maxint_prefix:
  "safe_parse_maxint b p =
     do { (negative, hex) \<leftarrow> num_prefix b p;
          map_option (num_result negative)
            (spm_loop b (p + (of_bool negative + (if hex then 2 else 0))) (if hex then 16 else 10) negative 0 False) }"
  by (auto simp: safe_parse_maxint_def num_prefix_def num_result_def Let_def of_bool_def bind_eq_None_conv
      map_conv_bind_option Option.bind_assoc split: sum.splits prod.splits intro!: Option.bind_cong)

lemma num_prefix_shift: "num_prefix (pre @ b) (length pre) = num_prefix b 0"
proof -
  have "rd (pre @ b) (length pre) = rd b 0" "\<And>i. rd (pre @ b) (Suc (length pre + i)) = rd b (Suc i)"
    using rd_append_right [of pre b 0] rd_append_right [of pre b "Suc i" for i] by simp_all
  then show ?thesis by (simp add: num_prefix_def Let_def rd_append_right cong del: if_weak_cong)
qed

lemma num_result_ahead: "num_result negative (ahead k r) = ahead k (num_result negative r)"
  by (cases r) (auto simp: num_result_def split: prod.splits)

lemma safe_parse_maxint_shift:
  "safe_parse_maxint (pre @ b) (length pre) = map_option (ahead (length pre)) (safe_parse_maxint b 0)"
  by (cases "num_prefix b 0")
    (auto simp: safe_parse_maxint_prefix num_prefix_shift spm_loop_shift option.map_comp comp_def num_result_ahead)

text \<open>Decimal text as a user writes it.\<close>

definition dec :: "nat \<Rightarrow> u8 list" where
  "dec n = digit_chars (ch CHR ''d'') (digits_of 10 n)"

lemma dec_digits: "digits_at 10 (dec n) (map of_nat (digits_of 10 n))"
  unfolding dec_def by (rule digits_at_chars, rule digit_value_dec) (rule digits_of_less, simp_all)

lemma parse_dec:
  assumes "n < 2 ^ 32" "digit_value 10 stop = None" "tolower_char stop \<noteq> ch CHR ''x''"
  shows "safe_parse_maxint (pre @ dec n @ stop # r) (length pre) = Some (Inr (length pre + length (dec n), of_nat n))"
proof -
  have "map unat (map of_nat (digits_of 10 n) :: u32 list) = digits_of 10 n"
  proof (rule map_unat_of_nat)
    fix d assume "d \<in> set (digits_of 10 n)"
    then have "d < 10" using digits_of_less [of 10 d n] by simp
    then show "d < 16" by simp
  qed
  moreover have "dec n \<noteq> []" by (simp add: dec_def digit_chars_def)
  ultimately show ?thesis
    using parse_decimal(1) [OF dec_digits _ assms(2,3), of n r] assms(1)
    by (simp add: safe_parse_maxint_shift value_digits_of)
qed

lemma dec_hd: "\<exists>c t. dec n = c # t \<and> is_digit c"
proof -
  obtain d ds where d: "digits_of 10 n = d # ds" by (cases "digits_of 10 n") auto
  then have "d < 10" using digits_of_less [of 10 d n] by simp
  moreover have "list_all (\<lambda>d. is_digit (cta_char (ch CHR ''d'') (of_nat d))) [0..<10]" by code_simp
  ultimately show ?thesis using d by (auto simp: dec_def digit_chars_def list_all_iff)
qed

datatype part_spec = WholeDisk | Slice nat "nat option" | BsdPart nat

datatype drive_spec = Hard nat | Floppy nat | Cd | Memory | Ram | Network | Pxe | Root

fun part_text :: "part_spec \<Rightarrow> u8 list" where
  "part_text WholeDisk = []"
| "part_text (Slice n None) = cs '','' @ dec n"
| "part_text (Slice n (Some l)) = cs '','' @ dec n @ cs '','' @ [ch CHR ''a'' + of_nat l]"
| "part_text (BsdPart l) = cs '','' @ [ch CHR ''a'' + of_nat l]"

fun drive_text :: "drive_spec \<Rightarrow> u8 list" where
  "drive_text (Hard n) = cs ''hd'' @ dec n"
| "drive_text (Floppy n) = cs ''fd'' @ dec n"
| "drive_text Cd = cs ''cd''"
| "drive_text Memory = cs ''md''"
| "drive_text Ram = cs ''rd''"
| "drive_text Network = cs ''nd''"
| "drive_text Pxe = cs ''pd''"
| "drive_text Root = []"

definition device_text :: "drive_spec \<Rightarrow> part_spec \<Rightarrow> u8 list" where
  "device_text d p = cs ''('' @ drive_text d @ part_text p @ cs '')''"

fun drive_value :: "('d, 'h) disk_env \<Rightarrow> u32 \<Rightarrow> drive_spec \<Rightarrow> u32" where
  "drive_value v root (Hard n) = of_nat n OR 0x80"
| "drive_value v root (Floppy n) = of_nat n"
| "drive_value v root Cd = cdrom_drive v"
| "drive_value v root Memory = 0xffff"
| "drive_value v root Ram = ram_drive v"
| "drive_value v root Network = NETWORK_DRIVE"
| "drive_value v root Pxe = PXE_DRIVE"
| "drive_value v root Root = root"

fun part_value :: "u32 \<Rightarrow> drive_spec \<Rightarrow> part_spec \<Rightarrow> u32" where
  "part_value root d WholeDisk = (if d = Root then root else 0xFFFFFF)"
| "part_value root d (Slice n None) = push_bit 16 (of_nat n) OR 0xFFFF"
| "part_value root d (Slice n (Some l)) = push_bit 16 (of_nat n) OR push_bit 8 (of_nat l) OR 0xFF"
| "part_value root d (BsdPart l) = 0xFF00FF OR push_bit 8 (of_nat l)"

fun drive_valid :: "('d, 'h) disk_env \<Rightarrow> drive_spec \<Rightarrow> part_spec \<Rightarrow> bool" where
  "drive_valid v (Hard n) p = (n < 2 ^ 32)"
| "drive_valid v (Floppy n) p = (n < 2 ^ 32)"
| "drive_valid v Cd p = (cdrom_drive v \<noteq> GRUB_INVALID_DRIVE \<and> p = WholeDisk)"
| "drive_valid v Network p = network_ready v"
| "drive_valid v Pxe p = (pxe_entry v \<noteq> 0)"
| "drive_valid v d p = True"

fun part_valid :: "u32 \<Rightarrow> part_spec \<Rightarrow> bool" where
  "part_valid drive WholeDisk = True"
| "part_valid drive (Slice n l) = (drive AND 0x80 \<noteq> 0 \<and> n \<le> 254 \<and> (\<forall>k. l = Some k \<longrightarrow> k < 8))"
| "part_valid drive (BsdPart l) = (l < 8)"

definition part_sane :: "u32 \<Rightarrow> bool" where
  "part_sane p \<longleftrightarrow> p AND 0xFF000000 = 0 \<and> p AND 0xFF = 0xFF \<and> (p AND 0xFF00 = 0xFF00 \<or> p AND 0xFF00 < 0x800)"

lemma slice_bits:
  assumes "n \<le> 254"
  defines "w \<equiv> push_bit 16 (of_nat n) :: u32"
  shows "w + 0xFFFF = (w OR 0xFFFF)" "w AND 0xFF00FF = w" "w AND 0xFF000000 = 0" "w AND 0xFF = 0" "w AND 0xFF00 = 0"
    "\<not> (of_nat n :: u32) > 254"
proof -
  have "list_all (\<lambda>n. let w = push_bit 16 (of_nat n) :: u32 in w + 0xFFFF = (w OR 0xFFFF) \<and> w AND 0xFF00FF = w
      \<and> w AND 0xFF000000 = 0 \<and> w AND 0xFF = 0 \<and> w AND 0xFF00 = 0 \<and> \<not> (of_nat n :: u32) > 254) [0..<255]"
    by code_simp
  moreover have "n < 255" using assms(1) by simp
  ultimately show "w + 0xFFFF = (w OR 0xFFFF)" "w AND 0xFF00FF = w" "w AND 0xFF000000 = 0" "w AND 0xFF = 0" "w AND 0xFF00 = 0"
    "\<not> (of_nat n :: u32) > 254"
    by (auto simp: list_all_iff w_def Let_def)
qed

lemma bsd_bits:
  assumes "l < 8"
  defines "w \<equiv> push_bit 8 (of_nat l) :: u32"
  shows "w AND 0xFF000000 = 0" "w AND 0xFF = 0" "w AND 0xFF00 = w" "w < 0x800" "w AND 0xFF00FF = 0"
    "is_bsd_letter (ch CHR ''a'' + of_nat l)" "\<not> is_digit (ch CHR ''a'' + of_nat l)"
    "push_bit 8 (ucast (ch CHR ''a'' + of_nat l - ch CHR ''a'')) = w"
proof -
  have "list_all (\<lambda>l. let w = push_bit 8 (of_nat l) :: u32 in w AND 0xFF000000 = 0 \<and> w AND 0xFF = 0 \<and> w AND 0xFF00 = w \<and> w < 0x800
      \<and> w AND 0xFF00FF = 0 \<and> is_bsd_letter (ch CHR ''a'' + of_nat l) \<and> \<not> is_digit (ch CHR ''a'' + of_nat l)
      \<and> push_bit 8 (ucast (ch CHR ''a'' + of_nat l - ch CHR ''a'')) = w) [0..<8]"
    by code_simp
  then show "w AND 0xFF000000 = 0" "w AND 0xFF = 0" "w AND 0xFF00 = w" "w < 0x800" "w AND 0xFF00FF = 0"
    "is_bsd_letter (ch CHR ''a'' + of_nat l)" "\<not> is_digit (ch CHR ''a'' + of_nat l)"
    "push_bit 8 (ucast (ch CHR ''a'' + of_nat l - ch CHR ''a'')) = w"
    using assms(1) by (auto simp: list_all_iff w_def Let_def)
qed

lemma part_value_sane:
  assumes "part_valid drive p" "p \<noteq> WholeDisk"
  shows "part_sane (part_value root d p)"
proof (cases p)
  case WholeDisk
  then show ?thesis using assms(2) by simp
next
  case (Slice n l)
  then have n: "n \<le> 254" using assms(1) by simp
  show ?thesis
  proof (cases l)
    case None
    then show ?thesis using Slice slice_bits [OF n] by (simp add: part_sane_def bit.conj_disj_distrib2)
  next
    case (Some k)
    then have "k < 8" using assms(1) Slice by simp
    then show ?thesis using Slice Some slice_bits [OF n] bsd_bits [of k] by (simp add: part_sane_def bit.conj_disj_distrib2)
  qed
next
  case (BsdPart l)
  then show ?thesis using bsd_bits [of l] assms(1) by (simp add: part_sane_def bit.conj_disj_distrib2)
qed

lemma part_field:
  assumes "part_valid drive p"
  shows "drop_bit 16 (part_value root d p) = 0xFF \<or> drive AND 0x80 \<noteq> 0 \<or> p = WholeDisk"
proof (cases p)
  case (BsdPart l)
  then have "l < 8" using assms by simp
  moreover have "list_all (\<lambda>l. drop_bit 16 (0xFF00FF OR push_bit 8 (of_nat l)) = (0xFF :: u32)) [0..<8]" by code_simp
  ultimately show ?thesis using BsdPart by (auto simp: list_all_iff)
qed (use assms in auto)

lemma sane_partition_value:
  assumes "part_valid (current_drive s) p" "current_partition s = part_value root d p" "p \<noteq> WholeDisk"
  shows "sane_partition s = (True, s)"
  using part_value_sane [OF assms(1,3), of root d] part_field [OF assms(1), of root d] assms(2,3)
  by (auto simp: sane_partition_def Let_def part_sane_def)

lemma sane_whole: "current_partition s = 0xFFFFFF \<Longrightarrow> sane_partition s = (True, s)"
  by (simp add: sane_partition_def Let_def)

lemma rd_here: "b = pre @ x # r \<Longrightarrow> p = length pre \<Longrightarrow> rd b p = Some x"
  using rd_append_right [of pre "x # r" 0] by simp

lemma parse_num_dec:
  assumes "b = pre @ dec n @ stop # r" "p = length pre" "n < 2 ^ 32" "digit_value 10 stop = None" "tolower_char stop \<noteq> ch CHR ''x''"
  shows "parse_num b p s = Some (Some (p + length (dec n), of_nat n), s)"
  using parse_dec [OF assms(3-5), of pre r] assms(1,2) by (simp add: parse_num_def)

lemma stops [simp]:
  "digit_value 10 41 = None" "digit_value 10 44 = None" "tolower_char 41 \<noteq> 120" "tolower_char 44 \<noteq> 120"
  by (simp_all add: digit_value_def grub_tolower_def tolower_char_def)

lemma device_tail_part:
  assumes b: "b = pre @ part_text p @ ch CHR '')'' # r"
    and s: "errnum s = ERR_NONE" "part_choice s = PART_UNSPECIFIED" "current_partition s = 0xFFFFFF"
    and p: "part_valid (current_drive s) p" and d: "d \<noteq> Root \<or> p \<noteq> WholeDisk"
  shows "\<exists>c. device_tail b (length pre) s = Some (Some (length pre + length (part_text p) + 1),
      s\<lparr>disk_choice := c, part_choice := PART_CHOSEN, current_partition := part_value root d p\<rparr>)"
proof (cases p)
  case WholeDisk
  have "rd b (length pre) = Some (ch CHR '')'')" by (rule rd_here) (use b WholeDisk in auto)
  moreover have "sane_partition (s\<lparr>part_choice := PART_CHOSEN\<rparr>) = (True, s\<lparr>part_choice := PART_CHOSEN\<rparr>)"
    by (rule sane_whole) (simp add: s)
  ultimately have "device_tail b (length pre) s = Some (Some (length pre + 1), s\<lparr>part_choice := PART_CHOSEN\<rparr>)"
    using s by (simp add: device_tail_def device_end_def)
  then show ?thesis using d WholeDisk s by (intro exI [of _ "disk_choice s"]) simp
next
  case (BsdPart l)
  then have l: "l < 8" using p by simp
  let ?c = "ch CHR ''a'' + of_nat l :: u8"
  have b1: "b = pre @ ch CHR '','' # ?c # ch CHR '')'' # r" using b BsdPart by simp
  have r: "rd b (length pre) = Some (ch CHR '','')" "rd b (length pre + 1) = Some ?c" "rd b (length pre + 1 + 1) = Some (ch CHR '')'')"
    by (rule rd_here [of _ pre] rd_here [of _ "pre @ [ch CHR '','']"] rd_here [of _ "pre @ [ch CHR '','', ?c]"]; use b1 in simp)+
  let ?s = "s\<lparr>disk_choice := False, part_choice := PART_CHOSEN, current_partition := part_value root d p\<rparr>"
  have "part_value root d p = push_bit 8 (ucast (?c - ch CHR ''a'')) OR 0xFF00FF"
    using bsd_bits(8) [OF l] BsdPart by (simp add: or.commute)
  then have "set_part b (length pre + 1) s = Some (Some (length pre + 1 + 1), ?s)"
    unfolding set_part_def r(2) using bsd_bits(6,7) [OF l] s by (simp add: PART_CHOSEN_def PART_UNSPECIFIED_def)
  moreover have "sane_partition ?s = (True, ?s)"
    by (rule sane_partition_value [where p = p and root = root and d = d]) (use BsdPart p in simp_all)
  ultimately have "device_tail b (length pre) s = Some (Some (length pre + 1 + 1 + 1), ?s)"
    unfolding device_tail_def r(1) using s r(3) by (simp add: device_end_def PART_CHOSEN_def PART_DISK_def)
  then show ?thesis using BsdPart by auto
next
  case (Slice n l)
  then have n: "n \<le> 254" "current_drive s AND 0x80 \<noteq> 0" using p by auto
  define e where "e = (case l of None \<Rightarrow> [] | Some k \<Rightarrow> [ch CHR '','', ch CHR ''a'' + of_nat k :: u8])"
  have b1: "b = pre @ ch CHR '','' # dec n @ e @ ch CHR '')'' # r" using b Slice by (auto simp: e_def split: option.splits)
  have r0: "rd b (length pre) = Some (ch CHR '','')" by (rule rd_here) (use b1 in auto)
  obtain c t where c: "dec n = c # t" "is_digit c" using dec_hd by blast
  have r1: "rd b (length pre + 1) = Some c" by (rule rd_here [of _ "pre @ [ch CHR '','']"]) (use b1 c in auto)
  obtain stop q where q: "e @ ch CHR '')'' # r = stop # q" "stop = ch CHR '','' \<or> stop = ch CHR '')''"
    by (cases l) (auto simp: e_def)
  let ?q = "length pre + 1 + length (dec n)"
  let ?z = "s\<lparr>disk_choice := False, part_choice := PART_CHOSEN, current_partition := 0\<rparr>"
  have pn: "parse_num b (length pre + 1) ?z = Some (Some (?q, of_nat n), ?z)"
    by (rule parse_num_dec [of _ "pre @ [ch CHR '','']" _ stop q]) (use b1 q n in auto)
  have rs: "rd b ?q = Some stop" by (rule rd_here [of _ "pre @ ch CHR '','' # dec n"]) (use b1 q in auto)
  let ?s = "s\<lparr>disk_choice := False, part_choice := PART_CHOSEN, current_partition := part_value root d p\<rparr>"
  have sb: "set_bsd b (if stop = ch CHR '','' then ?q + 1 else ?q) (?z\<lparr>current_partition := push_bit 16 (of_nat n) + 0xFFFF\<rparr>)
      = Some (?q + length e, ?s)"
  proof (cases l)
    case None
    then have "stop = ch CHR '')''" using q by (simp add: e_def)
    then show ?thesis using rs None Slice slice_bits(1) [OF n(1)] by (simp add: set_bsd_def e_def is_bsd_letter_def)
  next
    case (Some k)
    then have k: "k < 8" using p Slice by simp
    have st: "stop = ch CHR '',''" using Some q by (simp add: e_def)
    have "rd b (?q + 1) = Some (ch CHR ''a'' + of_nat k)"
      by (rule rd_here [of _ "pre @ ch CHR '','' # dec n @ [ch CHR '','']"]) (use b1 Some in \<open>auto simp: e_def\<close>)
    then show ?thesis using st Some Slice slice_bits(1,2) [OF n(1)] bsd_bits(6,8) [OF k]
      by (simp add: set_bsd_def e_def bit.conj_disj_distrib2 or.left_commute or.commute)
  qed
  have "set_slice b (length pre + 1) ?z = Some (Some (?q + length e), ?s)"
    using pn rs sb n slice_bits(6) [OF n(1)] by (cases "stop = ch CHR '',''") (simp_all add: set_slice_def)
  then have sp: "set_part b (length pre + 1) s = Some (Some (?q + length e), ?s)"
    unfolding set_part_def using r1 c(2) s by (simp add: PART_CHOSEN_def PART_UNSPECIFIED_def numeral_2_eq_2)
  have "rd b (?q + length e) = Some (ch CHR '')'')"
    by (rule rd_here [of _ "pre @ ch CHR '','' # dec n @ e"]) (use b1 in auto)
  moreover have "sane_partition ?s = (True, ?s)"
    by (rule sane_partition_value [where p = p and root = root and d = d]) (use Slice p in simp_all)
  ultimately have "device_tail b (length pre) s = Some (Some (?q + length e + 1), ?s)"
    unfolding device_tail_def r0 using s sp by (simp add: device_end_def PART_CHOSEN_def PART_DISK_def)
  moreover have "length pre + length (part_text p) + 1 = ?q + length e + 1" using Slice by (auto simp: e_def split: option.splits)
  ultimately show ?thesis by auto
qed

lemma part_text_cases:
  obtains c t where "part_text p @ ch CHR '')'' # r = c # t" "c = ch CHR '','' \<or> c = ch CHR '')''"
proof (cases p)
  case (Slice n l)
  then show ?thesis using that by (cases l) auto
qed (use that in auto)

text \<open>What \<open>set_drive\<close> makes of the drive, behind which \<open>stop\<close> follows.\<close>

lemma set_drive_value:
  assumes b: "b = pre @ drive_text d @ part_text p @ ch CHR '')'' # r" and v: "drive_valid v d p" "d \<noteq> Root"
  shows "\<exists>c. drive_prefix v b (length pre) = Some None \<and> set_drive v b (length pre) s
    = Some (length pre + length (drive_text d), s\<lparr>current_drive := drive_value v root d, disk_choice := c\<rparr>)"
proof -
  obtain stop t where t: "part_text p @ ch CHR '')'' # r = stop # t" "stop = ch CHR '','' \<or> stop = ch CHR '')''"
    by (rule part_text_cases)
  have two: "rd b (length pre) = Some x" "rd b (length pre + 1) = Some y" "rd b (length pre + 2) = Some z"
    if "drive_text d @ stop # t = x # y # z # q" for x y z q
    by (rule rd_here [of _ pre] rd_here [of _ "pre @ [x]"] rd_here [of _ "pre @ [x, y]"]; use b t that in simp)+
  have num: "parse_num b (length pre + 2) s = Some (Some (length pre + 2 + length (dec n), of_nat n), s)"
    if "drive_text d = [x, y] @ dec n" "n < 2 ^ 32" for x y n
    by (rule parse_num_dec [of _ "pre @ [x, y]" _ stop t]) (use b t that in auto)
  have np: "z \<noteq> 0" "z \<noteq> ch CHR '')''" if "is_digit z" for z using that by (auto simp: is_digit_def)
  have stop: "stop \<noteq> 0" using t(2) by auto
  show ?thesis
  proof (cases d)
    case (Hard n)
    obtain z q where z: "dec n = z # q" "is_digit z" using dec_hd by blast
    have n: "n < 2 ^ 32" using v Hard by simp
    have t3: "drive_text d @ stop # t = ch CHR ''h'' # ch CHR ''d'' # z # q @ stop # t" using Hard z by simp
    note r = two [OF t3]
    have "drive_prefix v b (length pre) = Some None" using r np [OF z(2)] by (simp add: drive_prefix_def)
    moreover have "parse_num b (length pre + 2) s = Some (Some (length pre + 2 + length (dec n), of_nat n), s)"
      by (rule num [OF _ n]) (use Hard in simp)
    then have "drive_number v (ch CHR ''h'') b (length pre + 2) s
        = Some (length pre + length (drive_text d), s\<lparr>current_drive := drive_value v root d, disk_choice := False\<rparr>)"
      using Hard by (simp add: drive_number_def)
    then have "set_drive v b (length pre) s
        = Some (length pre + length (drive_text d), s\<lparr>current_drive := drive_value v root d, disk_choice := False\<rparr>)"
      using r by (simp add: set_drive_def drive_letter_def)
    ultimately show ?thesis by blast
  next
    case (Floppy n)
    obtain z q where z: "dec n = z # q" "is_digit z" using dec_hd by blast
    have n: "n < 2 ^ 32" using v Floppy by simp
    have t3: "drive_text d @ stop # t = ch CHR ''f'' # ch CHR ''d'' # z # q @ stop # t" using Floppy z by simp
    note r = two [OF t3]
    have "drive_prefix v b (length pre) = Some None" using r np [OF z(2)] by (simp add: drive_prefix_def)
    moreover have "parse_num b (length pre + 2) s = Some (Some (length pre + 2 + length (dec n), of_nat n), s)"
      by (rule num [OF _ n]) (use Floppy in simp)
    then have "drive_number v (ch CHR ''f'') b (length pre + 2) s
        = Some (length pre + length (drive_text d), s\<lparr>current_drive := drive_value v root d, disk_choice := False\<rparr>)"
      using Floppy by (simp add: drive_number_def)
    then have "set_drive v b (length pre) s
        = Some (length pre + length (drive_text d), s\<lparr>current_drive := drive_value v root d, disk_choice := False\<rparr>)"
      using r by (simp add: set_drive_def drive_letter_def)
    ultimately show ?thesis by blast
  next
    case Root
    then show ?thesis using v by simp
  next
    case Cd
    then have stop: "stop = ch CHR '')''" using v t by simp
    then have t3: "drive_text d @ stop # t = ch CHR ''c'' # ch CHR ''d'' # stop # t" using Cd by simp
    show ?thesis using two [OF t3] v Cd stop
      by (intro exI [of _ "disk_choice s"]) (simp add: drive_prefix_def set_drive_def drive_letter_def)
  next
    case Memory
    then have t3: "drive_text d @ stop # t = ch CHR ''m'' # ch CHR ''d'' # stop # t" using Memory by simp
    show ?thesis using two [OF t3] v Memory stop
      by (intro exI [of _ "disk_choice s"]) (simp add: drive_prefix_def set_drive_def drive_letter_def)
  next
    case Ram
    then have t3: "drive_text d @ stop # t = ch CHR ''r'' # ch CHR ''d'' # stop # t" using Ram by simp
    show ?thesis using two [OF t3] v Ram stop
      by (intro exI [of _ "disk_choice s"]) (simp add: drive_prefix_def set_drive_def drive_letter_def)
  next
    case Network
    then have t3: "drive_text d @ stop # t = ch CHR ''n'' # ch CHR ''d'' # stop # t" using Network by simp
    show ?thesis using two [OF t3] v Network stop
      by (intro exI [of _ "disk_choice s"]) (simp add: drive_prefix_def set_drive_def drive_letter_def)
  next
    case Pxe
    then have t3: "drive_text d @ stop # t = ch CHR ''p'' # ch CHR ''d'' # stop # t" using Pxe by simp
    show ?thesis using two [OF t3] v Pxe stop
      by (intro exI [of _ "disk_choice s"]) (simp add: drive_prefix_def set_drive_def drive_letter_def)
  qed
qed

text \<open>
  C23. Every device name written in canonical form is read back: \<open>set_device\<close> returns the position behind its
  closing parenthesis, leaves the string and \<open>errnum\<close> alone and sets \<open>current_drive\<close> and \<open>current_partition\<close> to
  what the name says, for hard disks, floppies, CD, memory, ram, network and PXE drives and the root
  device, with a slice, a slice and a BSD partition, a BSD partition, or none.
\<close>

theorem set_device_reads_back:
  assumes "drive_valid v d p" "part_valid (drive_value v (saved_drive s) d) p" "errnum s = ERR_NONE"
    and buf: "b = pre @ device_text d p @ r"
  shows "\<exists>s'. set_device v b (length pre) s = Some (Some (length pre + length (device_text d p)), b, s') \<and> errnum s' = ERR_NONE
    \<and> current_drive s' = drive_value v (saved_drive s) d
    \<and> current_partition s' = part_value (saved_partition s) d p"
proof -
  let ?s = "s\<lparr>incomplete := False, disk_choice := True, part_choice := PART_UNSPECIFIED,
                 current_drive := saved_drive s, current_partition := 0xFFFFFF\<rparr>"
  let ?pre = "pre @ [ch CHR ''('']"
  have b: "b = pre @ ch CHR ''('' # drive_text d @ part_text p @ ch CHR '')'' # r" by (simp add: buf device_text_def)
  have open_paren: "rd b (length pre) = Some (ch CHR ''('')" by (rule rd_here) (rule b, simp)
  show ?thesis
  proof (cases "d = Root")
    case True
    show ?thesis
    proof (cases "p = WholeDisk")
      case whole: True
      have "rd b (length pre + 1) = Some (ch CHR '')'')" by (rule rd_here [of _ ?pre]) (use b True whole in auto)
      then show ?thesis using open_paren True whole assms(3)
        by (simp add: set_device_def device_text_def)
    next
      case False
      obtain t where t: "part_text p = ch CHR '','' # t" using False by (cases p rule: part_text.cases) auto
      have "rd b (length pre + 1) = Some (ch CHR '','')" by (rule rd_here [of _ ?pre]) (use b True t in auto)
      moreover obtain c where "device_tail b (length ?pre) ?s = Some (Some (length ?pre + length (part_text p) + 1),
          ?s\<lparr>disk_choice := c, part_choice := PART_CHOSEN, current_partition := part_value (saved_partition s) d p\<rparr>)"
        using device_tail_part [of b ?pre p r ?s d "saved_partition s"] b True False assms(2,3) by auto
      ultimately show ?thesis using open_paren True assms(3)
        by (simp add: set_device_def device_text_def)
    qed
  next
    case False
    have b2: "b = ?pre @ drive_text d @ part_text p @ ch CHR '')'' # r" using b by simp
    obtain c where c: "drive_prefix v b (length ?pre) = Some None" "set_drive v b (length ?pre) ?s
        = Some (length ?pre + length (drive_text d), ?s\<lparr>current_drive := drive_value v (saved_drive s) d, disk_choice := c\<rparr>)"
      using set_drive_value [OF b2 assms(1) False, of ?s "saved_drive s"] by blast
    let ?y = "?s\<lparr>current_drive := drive_value v (saved_drive s) d, disk_choice := c\<rparr>"
    obtain c2 where "device_tail b (length (?pre @ drive_text d)) ?y
        = Some (Some (length (?pre @ drive_text d) + length (part_text p) + 1),
          ?y\<lparr>disk_choice := c2, part_choice := PART_CHOSEN, current_partition := part_value (saved_partition s) d p\<rparr>)"
      using device_tail_part [of b "?pre @ drive_text d" p r ?y d "saved_partition s"] b False assms(2,3) by auto
    moreover obtain x y where "drive_text d = x # y" "x \<noteq> 0" "x \<noteq> ch CHR '')''" "x \<noteq> ch CHR '',''"
      using False by (cases d) auto
    moreover from this have "rd b (length pre + 1) = Some x" by (intro rd_here [of _ ?pre]) (use b in auto)
    ultimately show ?thesis using open_paren c assms(3)
      by (simp add: set_device_def device_text_def)
  qed
qed

theorem set_device_reads_back_witness:
  "\<exists>s'. set_device (image_bios (\<lambda>i. 0) (demo_geometry 1)) (cs ''(hd1,4,b)/boot'' @ [0]) 0 (demo_disk_state 1)
      = Some (Some 9, cs ''(hd1,4,b)/boot'' @ [0], s') \<and> current_drive s' = 0x81 \<and> current_partition s' = 0x401FF"
proof -
  have t: "device_text (Hard 1) (Slice 4 (Some 1)) = cs ''(hd1,4,b)''"
    by (simp add: device_text_def dec_def digit_chars_def digits_of.simps cta_char_def)
  have a: "drive_valid (image_bios (\<lambda>i. 0) (demo_geometry 1)) (Hard 1) (Slice 4 (Some 1))"
    "part_valid (drive_value (image_bios (\<lambda>i. 0) (demo_geometry 1)) (saved_drive (demo_disk_state 1)) (Hard 1)) (Slice 4 (Some 1))"
    "errnum (demo_disk_state 1) = ERR_NONE"
    "cs ''(hd1,4,b)/boot'' @ [0] = [] @ device_text (Hard 1) (Slice 4 (Some 1)) @ cs ''/boot'' @ [0]"
    by (simp_all add: t [simplified] demo_disk_state_def globals_start_def)
  show ?thesis using set_device_reads_back [OF a] by (auto simp: t [simplified])
qed

end
