(* ===== verification/FileIO.thy ===== *)
theory FileIO
imports BlockDev DevName
begin

text \<open>
  File access, \<open>stage2/disk_io.c\<close>: \<open>dir\<close>, \<open>grub_open\<close> with its block lists, \<open>grub_read\<close> and \<open>grub_close\<close>.  The
  block list of a block file is kept in memory at \<open>FSYS_BUF\<close>, as in the code.  Decompression
  (\<open>gunzip_test_header\<close>, \<open>gunzip_read\<close>) is an argument.
\<close>

section \<open>Block lists in memory\<close>

definition FSYS_BUF :: u32 where "FSYS_BUF = 0x68000"
definition BLK_MAX_ADDR :: u32 where "BLK_MAX_ADDR = FSYS_BUF + 0x77F9"
definition BLK_BLKLIST_START :: u32 where "BLK_BLKLIST_START = FSYS_BUF + 12"
definition BLK_BLKLIST_INC_VAL :: u32 where "BLK_BLKLIST_INC_VAL = 8"
definition MAXINT :: u32 where "MAXINT = 0xFFFFFFFF"

definition BLK_BLKSTART :: "mem \<Rightarrow> u32 \<Rightarrow> u32" where "BLK_BLKSTART m l = peek32 m l"
definition BLK_BLKLENGTH :: "mem \<Rightarrow> u32 \<Rightarrow> u32" where "BLK_BLKLENGTH m l = peek32 m (l + 4)"
definition BLK_CUR_FILEPOS :: "mem \<Rightarrow> u32" where "BLK_CUR_FILEPOS m = peek32 m FSYS_BUF"
definition BLK_CUR_BLKLIST :: "mem \<Rightarrow> u32" where "BLK_CUR_BLKLIST m = peek32 m (FSYS_BUF + 4)"
definition BLK_CUR_BLKNUM :: "mem \<Rightarrow> u32" where "BLK_CUR_BLKNUM m = peek32 m (FSYS_BUF + 8)"

text \<open>Set \<open>BLK_CUR_FILEPOS\<close>, \<open>BLK_CUR_BLKLIST\<close> and \<open>BLK_CUR_BLKNUM\<close>.\<close>

definition set_blk_cur :: "u32 \<Rightarrow> u32 \<Rightarrow> u32 \<Rightarrow> mem \<Rightarrow> mem" where
  "set_blk_cur fp l n m = poke (FSYS_BUF + 8) (bytes32 n) (poke (FSYS_BUF + 4) (bytes32 l) (poke FSYS_BUF (bytes32 fp) m))"

section \<open>Opening\<close>

text \<open>
  The loop that reads the block list \<open>start+length,...\<close> or a file length at the end: the position
  reached, \<open>list_addr\<close> and the state.  \<open>nfsys\<close> is \<open>NUM_FSYS\<close>.
\<close>

definition word_ends :: "u8 \<Rightarrow> bool" where
  "word_ends c \<longleftrightarrow> c = 0 \<or> c = ch CHR ''/'' \<or> isspace_char c"

function blk_loop :: "nat \<Rightarrow> cbuf \<Rightarrow> nat \<Rightarrow> u32 \<Rightarrow> ('d, 'h, 'z) gstate \<Rightarrow> (nat \<times> u32 \<times> ('d, 'h, 'z) gstate) option" where
  "blk_loop nfsys b ptr addr s =
     (if addr < BLK_MAX_ADDR then
        do { (r, s1) \<leftarrow> parse_num b ptr s;
             let (p1, tmp) = (case r of Some x \<Rightarrow> x | None \<Rightarrow> (ptr, 0));
             let s2 = s1\<lparr>errnum := ERR_NONE\<rparr>;
             c \<leftarrow> rd b p1;
             if c \<noteq> ch CHR ''+'' then
               Some (p1, addr, if \<not> word_ends c \<or> tmp = 0 \<or> tmp > filemax s2 then fail ERR_BAD_FILENAME s2 else s2\<lparr>filemax := tmp\<rparr>)
             else
               do { (r3, s3) \<leftarrow> parse_num b (p1 + 1) (s2\<lparr>fsys_type := nfsys, mem := poke addr (bytes32 tmp) (mem s2)\<rparr>);
                    case r3 of None \<Rightarrow> Some (p1 + 1, addr, fail ERR_BAD_FILENAME s3)
                    | Some (p3, n) \<Rightarrow>
                        do { c3 \<leftarrow> rd b p3;
                             if n = 0 \<or> \<not> (word_ends c3 \<or> c3 = ch CHR '','') then Some (p3, addr, fail ERR_BAD_FILENAME s3)
                             else
                               let s4 = s3\<lparr>mem := poke (addr + 4) (bytes32 n) (mem s3),
                                           filemax := filemax s3 + n * sector_size (buf_geom s3)\<rparr>
                               in if c3 \<noteq> ch CHR '','' then Some (p3, addr + BLK_BLKLIST_INC_VAL, s4)
                                  else blk_loop nfsys b (p3 + 1) (addr + BLK_BLKLIST_INC_VAL) s4 } } }
      else Some (ptr, addr, s))"
  by pat_completeness auto
termination
  by (relation "measure (\<lambda>(nfsys, b, ptr, addr, s). unat BLK_MAX_ADDR - unat addr)")
    (auto simp: word_less_nat_alt BLK_MAX_ADDR_def FSYS_BUF_def BLK_BLKLIST_INC_VAL_def unat_word_ariths)

declare blk_loop.simps [simp del]


text \<open>The decompression routines.\<close>

record ('d, 'h, 'z) gunzip =
  gunzip_test_header :: "('d, 'h, 'z) gstate \<Rightarrow> (bool \<times> ('d, 'h, 'z) gstate) option"
  gunzip_read :: "u32 \<Rightarrow> u32 \<Rightarrow> ('d, 'h, 'z) gstate \<Rightarrow> (u32 \<times> ('d, 'h, 'z) gstate) option"

text \<open>The name handed to the filesystem: relative names are put behind \<open>saved_dir\<close> in \<open>open_filename\<close>.\<close>

definition relative_fits :: "u8 list \<Rightarrow> ('d, 'h, 'z) gstate \<Rightarrow> bool" where
  "relative_fits nm s \<longleftrightarrow> length (saved_dir s) + length nm < length (open_filename s)"

definition full_name :: "u8 list \<Rightarrow> ('d, 'h, 'z) gstate \<Rightarrow> (u8 list \<times> ('d, 'h, 'z) gstate) option" where
  "full_name nm s =
     (if relative_path s then do { b \<leftarrow> store (open_filename s) 0 (saved_dir s @ nm @ [0]);
                                   Some (saved_dir s @ nm, s\<lparr>open_filename := b\<rparr>) }
      else Some (nm, s))"

definition fsys_of :: "('d, 'h, 'z) fsys_tab \<Rightarrow> ('d, 'h, 'z) gstate \<Rightarrow> ('d, 'h, 'z) fsys option" where
  "fsys_of tab s = do { f \<leftarrow> rd tab (fsys_type s); f }"

definition dir :: "('d, 'h) disk_env \<Rightarrow> ('d, 'h, 'z) fsys_tab \<Rightarrow> cbuf \<Rightarrow> nat \<Rightarrow> ('d, 'h, 'z) gstate \<Rightarrow> (bool \<times> cbuf \<times> ('d, 'h, 'z) gstate) option" where
  "dir v tab b0 p0 s0 =
     do { (r, b, s) \<leftarrow> setup_part v tab b0 p0 (s0\<lparr>compressed_file := False\<rparr>);
          case r of None \<Rightarrow> Some (False, b, s)
          | Some p \<Rightarrow>
              do { nm \<leftarrow> str_of b p;
                   c \<leftarrow> rd b p;
                   let s1 = (if c \<noteq> ch CHR ''/'' then fail ERR_BAD_FILENAME s else s);
                   let s2 = (if fsys_type s1 = length tab then fail ERR_FSYS_MOUNT s1 else s1);
                   let s3 = (if relative_path s2 \<and> \<not> relative_fits nm s2 then fail ERR_WONT_FIT s2 else s2);
                   if errnum s3 \<noteq> ERR_NONE then Some (False, b, s3)
                   else do { (full, s4) \<leftarrow> full_name nm (s3\<lparr>print_possibilities := True\<rparr>);
                             g \<leftarrow> fsys_of tab s4;
                             (ok, s5) \<leftarrow> dir_func g full s4;
                             Some (ok, b, s5) } } }"

definition grub_open :: "('d, 'h) disk_env \<Rightarrow> ('d, 'h, 'z) fsys_tab \<Rightarrow> ('d, 'h, 'z) gunzip \<Rightarrow> cbuf \<Rightarrow> nat \<Rightarrow> ('d, 'h, 'z) gstate \<Rightarrow> (bool \<times> cbuf \<times> ('d, 'h, 'z) gstate) option" where
  "grub_open v tab gz b0 p0 s0 =
     do { (r, b, s) \<leftarrow> setup_part v tab b0 p0 (s0\<lparr>compressed_file := False, filepos := 0\<rparr>);
          case r of None \<Rightarrow> Some (False, b, s)
          | Some p \<Rightarrow>
              do { nm \<leftarrow> str_of b p;
                   c \<leftarrow> rd b p;
                   let s1 = s\<lparr>block_file := False, fsmax := MAXINT\<rparr>;
                   (is_block, s2) \<leftarrow>
                     (if c \<noteq> ch CHR ''/'' then
                        do { (q, addr, t) \<leftarrow> blk_loop (length tab) b p BLK_BLKLIST_START (s1\<lparr>filemax := 0\<rparr>);
                             Some (if addr < BLK_MAX_ADDR \<and> q \<noteq> p \<and> errnum t = ERR_NONE
                                   then (True, t\<lparr>block_file := True, mem := set_blk_cur 0 BLK_BLKLIST_START 0 (mem t)\<rparr>)
                                   else (False, t)) }
                      else Some (False, s1));
                   if is_block then do { (ok, s3) \<leftarrow> gunzip_test_header gz s2; Some (ok, b, s3) }
                   else
                     let s3 = (if errnum s2 = ERR_NONE \<and> fsys_type s2 = length tab then fail ERR_FSYS_MOUNT s2 else s2);
                         s4 = s3\<lparr>print_possibilities := False\<rparr>
                     in if relative_path s4 \<and> \<not> relative_fits nm s4 then Some (False, b, fail ERR_WONT_FIT s4)
                        else do { (full, s5) \<leftarrow> full_name nm s4;
                                  if errnum s5 \<noteq> ERR_NONE then Some (False, b, s5)
                                  else do { g \<leftarrow> fsys_of tab s5;
                                            (ok, s6) \<leftarrow> dir_func g full s5;
                                            if \<not> ok then Some (False, b, s6)
                                            else do { (ok', s7) \<leftarrow> gunzip_test_header gz s6; Some (ok', b, s7) } } } } }"

section \<open>Reading\<close>

text \<open>
  Find the block of \<open>filepos\<close> in the lists.  Neither this loop nor the one that reads need end on
  every list, so both are partial.
\<close>

partial_function (option) blk_seek :: "('d, 'h, 'z) gstate \<Rightarrow> ('d, 'h, 'z) gstate option" where
  "blk_seek s =
     (let m = mem s; fp = BLK_CUR_FILEPOS m; l = BLK_CUR_BLKLIST m; n = BLK_CUR_BLKNUM m; ss = sector_size (buf_geom s)
      in if filepos s > fp then
           if filepos s - (fp AND NOT (ss - 1)) \<ge> ss then
             blk_seek (s\<lparr>mem := (if n + 1 \<ge> BLK_BLKLENGTH m l then set_blk_cur (fp + ss) (l + BLK_BLKLIST_INC_VAL) 0 m
                                 else set_blk_cur (fp + ss) l (n + 1) m)\<rparr>)
           else blk_seek (s\<lparr>mem := set_blk_cur (filepos s) l n m\<rparr>)
         else Some s)"

definition blk_rewind :: "('d, 'h, 'z) gstate \<Rightarrow> ('d, 'h, 'z) gstate" where
  "blk_rewind s = (if filepos s < BLK_CUR_FILEPOS (mem s) then s\<lparr>mem := set_blk_cur 0 BLK_BLKLIST_START 0 (mem s)\<rparr> else s)"

text \<open>\<open>rdev\<close> is \<open>devread\<close>; the accumulator is \<open>ret\<close>.\<close>

partial_function (option) blk_read :: "(u32 \<Rightarrow> u32 \<Rightarrow> u32 \<Rightarrow> u32 \<Rightarrow> ('d, 'h, 'z) gstate \<Rightarrow> (bool \<times> ('d, 'h, 'z) gstate) option) \<Rightarrow>
    u32 \<Rightarrow> u32 \<Rightarrow> u32 \<Rightarrow> ('d, 'h, 'z) gstate \<Rightarrow> (u32 \<times> ('d, 'h, 'z) gstate) option" where
  "blk_read rdev buf len ret s =
     (if len \<noteq> 0 \<and> errnum s = ERR_NONE then
        do { s1 \<leftarrow> blk_seek (blk_rewind s);
             let m = mem s1; l = BLK_CUR_BLKLIST m; n = BLK_CUR_BLKNUM m; ss = sector_size (buf_geom s1);
                 off = filepos s1 AND (ss - 1);
                 room = (BLK_BLKLENGTH m l - n) * ss - off;
                 cnt = (if room > len then len else room)
             in do { (_, s2) \<leftarrow> rdev (BLK_BLKSTART m l + n) off cnt buf s1;
                     blk_read rdev (buf + cnt) (len - cnt) (ret + cnt) (s2\<lparr>filepos := filepos s2 + cnt\<rparr>) } }
      else Some (if errnum s \<noteq> ERR_NONE then 0 else ret, s))"

definition grub_read :: "('d, 'h) disk_env \<Rightarrow> ('d, 'h, 'z) fsys_tab \<Rightarrow> ('d, 'h, 'z) gunzip \<Rightarrow> u32 \<Rightarrow> u32 \<Rightarrow> ('d, 'h, 'z) gstate \<Rightarrow> (u32 \<times> ('d, 'h, 'z) gstate) option" where
  "grub_read v tab gz buf len0 s0 =
     (let s = (if filepos s0 > filemax s0 then s0\<lparr>filepos := filemax s0\<rparr> else s0);
          len = (if len0 > filemax s - filepos s then filemax s - filepos s else len0)
      in if filepos s + len > fsmax s then Some (0, fail ERR_FILELENGTH s)
         else if compressed_file s then gunzip_read gz buf len s
         else if block_file s then blk_read (devread (v\<lparr>disk_read_func := disk_read_hook v\<rparr>)) buf len 0 s
         else if fsys_type s = length tab then Some (0, fail ERR_FSYS_MOUNT s)
         else do { g \<leftarrow> fsys_of tab s; read_func g buf len s })"

text \<open>A file that is no block file belongs to a mounted filesystem.\<close>

definition grub_close :: "('d, 'h, 'z) fsys_tab \<Rightarrow> ('d, 'h, 'z) gstate \<Rightarrow> ('d, 'h, 'z) gstate option" where
  "grub_close tab s =
     (if block_file s then Some s
      else do { g \<leftarrow> fsys_of tab s; Some (case close_func g of None \<Rightarrow> s | Some f \<Rightarrow> f s) })"

end
