(* ===== verification/BlockFile.thy ===== *)
theory BlockFile
imports FileIO
begin

text \<open>
  Block files are correct: against the interface of a partition reader, \<open>grub_read\<close> on a block list reads
  the concatenation of its blocks.
\<close>

section \<open>Fields of memory\<close>

lemma peek32_poke [simp]: "peek32 (poke a (bytes32 x) m) a = x"
  by (simp add: peek32_def poke_def bytes32_def le32_bytes32)

lemma peek32_poke_apart:
  assumes "length s \<le> unat (b - a)" "unat (b - a) + 4 \<le> 2 ^ 32"
  shows "peek32 (poke a s m) b = peek32 m b"
proof -
  have "unat (b + of_nat i - a) = unat (b - a) + i" if "i < 4" for i
  proof -
    have "b + of_nat i - a = (b - a) + of_nat i" by (simp add: algebra_simps)
    then show ?thesis using assms(2) that unat_add_of_nat [of "b - a" i] by (simp only:)
  qed
  from this [of 0] this [of 1] this [of 2] this [of 3] show ?thesis
    using assms(1) by (simp add: peek32_def poke_def)
qed

lemma same_outsideD: "same_outside A m m' \<Longrightarrow> \<not> A x \<Longrightarrow> m' x = m x"
  by (simp add: same_outside_def)

lemma same_outside_mono: "same_outside A m m' \<Longrightarrow> (\<And>x. A x \<Longrightarrow> B x) \<Longrightarrow> same_outside B m m'"
  by (auto simp: same_outside_def)

lemma poke_same_outside: "length s \<le> n \<Longrightarrow> same_outside (region a n) m (poke a s m)"
  by (auto simp: same_outside_def region_def poke_def)

lemma peek32_same:
  "same_outside A m m' \<Longrightarrow> (\<And>i. i < 4 \<Longrightarrow> \<not> A (a + of_nat i)) \<Longrightarrow> peek32 m' a = peek32 m a"
proof -
  assume s: "same_outside A m m'" and o: "\<And>i. i < 4 \<Longrightarrow> \<not> A (a + of_nat i)"
  have "m' (a + of_nat i) = m (a + of_nat i)" if "i < 4" for i using s o [OF that] by (rule same_outsideD)
  from this [of 0] this [of 1] this [of 2] this [of 3] show ?thesis by (simp add: peek32_def)
qed

section \<open>Block lists\<close>

type_synonym blocks = "(nat \<times> nat) list"

definition sum_len :: "blocks \<Rightarrow> nat" where "sum_len bl = sum_list (map snd bl)"

text \<open>The sectors of the file, in order, and its bytes.\<close>

definition file_sectors :: "blocks \<Rightarrow> nat list" where
  "file_sectors bl = concat (map (\<lambda>(st, n). [st..<st + n]) bl)"

definition file_byte :: "(nat \<Rightarrow> u8) \<Rightarrow> nat \<Rightarrow> blocks \<Rightarrow> nat \<Rightarrow> u8" where
  "file_byte part k bl i = part (file_sectors bl ! (i div 2 ^ k) * 2 ^ k + i mod 2 ^ k)"

lemma length_file_sectors: "length (file_sectors bl) = sum_len bl"
  by (induction bl) (auto simp: file_sectors_def sum_len_def)

lemma sum_len_take_Suc: "j < length bl \<Longrightarrow> sum_len (take (Suc j) bl) = sum_len (take j bl) + snd (bl ! j)"
  by (simp add: sum_len_def take_Suc_conv_app_nth)

lemma sum_len_take_le: "sum_len (take j bl) \<le> sum_len bl"
proof -
  have "sum_len bl = sum_len (take j bl) + sum_len (drop j bl)"
    unfolding sum_len_def by (metis append_take_drop_id map_append sum_list_append)
  then show ?thesis by simp
qed

lemma nth_file_sectors:
  assumes "j < length bl" "c < snd (bl ! j)"
  shows "file_sectors bl ! (sum_len (take j bl) + c) = fst (bl ! j) + c"
proof -
  have "file_sectors bl = file_sectors (take j bl) @ file_sectors [bl ! j] @ file_sectors (drop (Suc j) bl)"
    using arg_cong [OF id_take_nth_drop [OF assms(1)], of file_sectors] by (simp add: file_sectors_def)
  then have "file_sectors bl ! (sum_len (take j bl) + c) = (file_sectors [bl ! j] @ file_sectors (drop (Suc j) bl)) ! c"
    by (simp add: length_file_sectors nth_append)
  also have "\<dots> = [fst (bl ! j)..<fst (bl ! j) + snd (bl ! j)] ! c"
    using assms(2) by (simp add: file_sectors_def nth_append case_prod_unfold)
  also have "\<dots> = fst (bl ! j) + c" using assms(2) by simp
  finally show ?thesis .
qed

text \<open>Lists that fit the buffer, on a partition of \<open>psize\<close> sectors.\<close>

definition blocks_ok :: "nat \<Rightarrow> nat \<Rightarrow> blocks \<Rightarrow> bool" where
  "blocks_ok k psize bl \<longleftrightarrow> length bl \<le> 3837 \<and> (\<forall>(st, n) \<in> set bl. 0 < n \<and> st + n \<le> psize) \<and> psize \<le> 2 ^ 31
     \<and> sum_len bl * 2 ^ k < 2 ^ 31"

definition blk_entry :: "nat \<Rightarrow> u32" where "blk_entry j = BLK_BLKLIST_START + of_nat (8 * j)"

definition blk_stored :: "mem \<Rightarrow> blocks \<Rightarrow> bool" where
  "blk_stored m bl \<longleftrightarrow> (\<forall>j < length bl. BLK_BLKSTART m (blk_entry j) = of_nat (fst (bl ! j))
     \<and> BLK_BLKLENGTH m (blk_entry j) = of_nat (snd (bl ! j)))"

text \<open>The cursor: block \<open>c\<close> of list \<open>j\<close> is the sector of \<open>BLK_CUR_FILEPOS\<close>.\<close>

definition blk_at :: "nat \<Rightarrow> mem \<Rightarrow> blocks \<Rightarrow> nat \<Rightarrow> nat \<Rightarrow> bool" where
  "blk_at k m bl j c \<longleftrightarrow> j < length bl \<and> c < snd (bl ! j) \<and> BLK_CUR_BLKLIST m = blk_entry j \<and> BLK_CUR_BLKNUM m = of_nat c
     \<and> unat (BLK_CUR_FILEPOS m) div 2 ^ k = sum_len (take j bl) + c"

definition blk_cursor :: "nat \<Rightarrow> mem \<Rightarrow> blocks \<Rightarrow> bool" where
  "blk_cursor k m bl \<longleftrightarrow> (\<exists>j c. blk_at k m bl j c)"

lemma set_blk_cur [simp]:
  "BLK_CUR_FILEPOS (set_blk_cur fp l n m) = fp" "BLK_CUR_BLKLIST (set_blk_cur fp l n m) = l" "BLK_CUR_BLKNUM (set_blk_cur fp l n m) = n"
proof -
  have f: "4 \<le> unat (FSYS_BUF - (FSYS_BUF + 4))" "4 \<le> unat (FSYS_BUF - (FSYS_BUF + 8))" "4 \<le> unat (FSYS_BUF + 4 - (FSYS_BUF + 8))"
    "unat (FSYS_BUF - (FSYS_BUF + 4)) + 4 \<le> 2 ^ 32" "unat (FSYS_BUF - (FSYS_BUF + 8)) + 4 \<le> 2 ^ 32"
    "unat (FSYS_BUF + 4 - (FSYS_BUF + 8)) + 4 \<le> 2 ^ 32"
    by (simp_all add: FSYS_BUF_def)
  show "BLK_CUR_FILEPOS (set_blk_cur fp l n m) = fp" "BLK_CUR_BLKLIST (set_blk_cur fp l n m) = l" "BLK_CUR_BLKNUM (set_blk_cur fp l n m) = n"
    using f by (simp_all add: BLK_CUR_FILEPOS_def BLK_CUR_BLKLIST_def BLK_CUR_BLKNUM_def set_blk_cur_def peek32_poke_apart)
qed

lemma set_blk_cur_outside: "same_outside (region FSYS_BUF 12) m (set_blk_cur fp l n m)"
proof -
  have r: "region FSYS_BUF 12 x" if "region (FSYS_BUF + of_nat q) 4 x" "q \<le> 8" for x q
  proof -
    have "x - FSYS_BUF = (x - (FSYS_BUF + of_nat q)) + of_nat q" by simp
    moreover have "unat (x - (FSYS_BUF + of_nat q) + of_nat q) = unat (x - (FSYS_BUF + of_nat q)) + q"
      using that by (intro unat_add_of_nat) (simp add: region_def)
    ultimately show ?thesis using that by (simp add: region_def)
  qed
  have "same_outside (region (FSYS_BUF + of_nat q) 4) m' (poke (FSYS_BUF + of_nat q) (bytes32 x) m')" for m' x q
    by (rule poke_same_outside) simp
  then have p: "q \<le> 8 \<Longrightarrow> same_outside (region FSYS_BUF 12) m' (poke (FSYS_BUF + of_nat q) (bytes32 x) m')" for m' x q
    using r by (blast intro: same_outside_mono)
  show ?thesis unfolding set_blk_cur_def
    using p [of 0 m fp] p [of 4 "poke FSYS_BUF (bytes32 fp) m" l]
      p [of 8 "poke (FSYS_BUF + 4) (bytes32 l) (poke FSYS_BUF (bytes32 fp) m)" n]
    by simp (blast intro: same_outside_trans)
qed

text \<open>Entries lie behind the cursor.\<close>

lemma blk_entry_apart:
  assumes "j \<le> 3837" "i < 8"
  shows "\<not> region FSYS_BUF 12 (blk_entry j + of_nat i)" "region FSYS_BUF 0x8000 (blk_entry j + of_nat i)"
proof -
  have e: "blk_entry j + of_nat i - FSYS_BUF = of_nat (12 + 8 * j + i)"
    by (simp add: blk_entry_def BLK_BLKLIST_START_def)
  have u: "unat (of_nat (12 + 8 * j + i) :: u32) = 12 + 8 * j + i"
    using assms by (intro unat_of_nat_small) simp
  have "unat (blk_entry j + of_nat i - FSYS_BUF) = 12 + 8 * j + i" by (simp only: e u)
  then show "\<not> region FSYS_BUF 12 (blk_entry j + of_nat i)" "region FSYS_BUF 0x8000 (blk_entry j + of_nat i)"
    using assms by (simp_all add: region_def)
qed

lemma blk_stored_same:
  assumes "blk_stored m bl" "same_outside A m m'" "length bl \<le> 3837"
    and "\<And>j i. j < length bl \<Longrightarrow> i < 8 \<Longrightarrow> \<not> A (blk_entry j + of_nat i)"
  shows "blk_stored m' bl"
  unfolding blk_stored_def
proof (intro allI impI)
  fix j assume j: "j < length bl"
  have "peek32 m' (blk_entry j) = peek32 m (blk_entry j)"
    using assms(4) [OF j] by (intro peek32_same [OF assms(2)]) simp
  moreover have "peek32 m' (blk_entry j + 4) = peek32 m (blk_entry j + 4)"
  proof (rule peek32_same [OF assms(2)])
    fix i :: nat assume "i < 4"
    then have "\<not> A (blk_entry j + of_nat (4 + i))" by (intro assms(4) [OF j]) simp
    then show "\<not> A (blk_entry j + 4 + of_nat i)" by (simp add: add.assoc)
  qed
  ultimately show "BLK_BLKSTART m' (blk_entry j) = of_nat (fst (bl ! j)) \<and> BLK_BLKLENGTH m' (blk_entry j) = of_nat (snd (bl ! j))"
    using assms(1) j by (simp add: blk_stored_def BLK_BLKSTART_def BLK_BLKLENGTH_def)
qed

lemma blk_stored_cur:
  "blk_stored m bl \<Longrightarrow> same_outside (region FSYS_BUF 12) m m' \<Longrightarrow> length bl \<le> 3837 \<Longrightarrow> blk_stored m' bl"
  by (erule blk_stored_same) (use blk_entry_apart in auto)

section \<open>Seeking\<close>

lemma and_not_sector:
  assumes "k \<le> 11"
  shows "x AND NOT (2 ^ k - 1) = (of_nat (unat x div 2 ^ k * 2 ^ k) :: u32)" "x AND (2 ^ k - 1) = (of_nat (unat x mod 2 ^ k) :: u32)"
proof -
  have mask: "(2 ^ k - 1 :: u32) = mask k" by (simp add: mask_eq_exp_minus_1)
  have "x AND mask k = take_bit k x" by (simp add: take_bit_eq_mask)
  also have "\<dots> = take_bit k (of_nat (unat x))" by simp
  also have "\<dots> = of_nat (unat x mod 2 ^ k)" unfolding take_bit_of_nat by (simp only: take_bit_eq_mod)
  finally show low: "x AND (2 ^ k - 1) = of_nat (unat x mod 2 ^ k)" unfolding mask .
  have "x AND NOT (mask k) = x - (x AND mask k)"
  proof -
    have "(x AND NOT (mask k)) AND (x AND mask k) = 0" by (rule bit_word_eqI) (simp add: bit_simps)
    then have "(x AND NOT (mask k)) + (x AND mask k) = (x AND NOT (mask k)) OR (x AND mask k)" by (rule disjunctive_add_eq_or)
    also have "\<dots> = x" by (rule bit_word_eqI) (auto simp: bit_simps)
    finally show ?thesis by (simp add: eq_diff_eq)
  qed
  also have "\<dots> = of_nat (unat x) - of_nat (unat x mod 2 ^ k)" using low unfolding mask by simp
  also have "\<dots> = of_nat (unat x - unat x mod 2 ^ k)" by (rule of_nat_diff [symmetric]) simp
  also have "unat x - unat x mod 2 ^ k = unat x div 2 ^ k * 2 ^ k" by (rule minus_mod_eq_div_mult)
  finally show "x AND NOT (2 ^ k - 1) = of_nat (unat x div 2 ^ k * 2 ^ k)" unfolding mask .
qed

lemma sector_behind:
  assumes "k \<le> 11" "fp < x"
  shows "x - (fp AND NOT (2 ^ k - 1)) \<ge> (2 ^ k :: u32) \<longleftrightarrow> unat fp div 2 ^ k < unat x div 2 ^ k"
proof -
  let ?b = "unat fp div 2 ^ k * 2 ^ k"
  have lt: "?b \<le> unat fp" "unat fp < unat x" using assms(2) by (simp_all add: word_less_nat_alt)
  have ub: "unat (of_nat ?b :: u32) = ?b" by (intro unat_of_nat_small order_le_less_trans [OF lt(1)]) simp
  have "(of_nat ?b :: u32) \<le> x" unfolding word_le_nat_alt ub using lt by linarith
  then have dif: "unat (x - of_nat ?b) = unat x - ?b" using unat_sub [of "of_nat ?b" x] unfolding ub by blast
  have "unat (2 ^ k :: u32) = 2 ^ k"
  proof -
    have "(2::nat) ^ k \<le> 2 ^ 11" using assms(1) by (intro power_increasing) auto
    then have "unat (of_nat (2 ^ k) :: u32) = 2 ^ k" by (intro unat_of_nat_small) simp
    then show ?thesis by simp
  qed
  moreover have "2 ^ k \<le> unat x - ?b \<longleftrightarrow> unat fp div 2 ^ k < unat x div 2 ^ k"
  proof -
    have "2 ^ k \<le> unat x - ?b \<longleftrightarrow> (unat fp div 2 ^ k + 1) * 2 ^ k \<le> unat x" unfolding add_mult_distrib using lt by linarith
    also have "\<dots> \<longleftrightarrow> unat fp div 2 ^ k + 1 \<le> unat x div 2 ^ k" by (simp add: less_eq_div_iff_mult_less_eq)
    finally show ?thesis by (simp only: Suc_eq_plus1 [symmetric] Suc_le_eq)
  qed
  ultimately show ?thesis unfolding and_not_sector(1) [OF assms(1)] word_le_nat_alt dif by simp
qed

text \<open>One step of the cursor to the next block.\<close>

definition blk_step :: "u32 \<Rightarrow> mem \<Rightarrow> mem" where
  "blk_step ss m = (if BLK_CUR_BLKNUM m + 1 \<ge> BLK_BLKLENGTH m (BLK_CUR_BLKLIST m)
     then set_blk_cur (BLK_CUR_FILEPOS m + ss) (BLK_CUR_BLKLIST m + BLK_BLKLIST_INC_VAL) 0 m
     else set_blk_cur (BLK_CUR_FILEPOS m + ss) (BLK_CUR_BLKLIST m) (BLK_CUR_BLKNUM m + 1) m)"

lemma blocks_okD:
  assumes "blocks_ok k psize bl" "j < length bl"
  shows "0 < snd (bl ! j)" "fst (bl ! j) + snd (bl ! j) \<le> psize" "snd (bl ! j) < 2 ^ 32" "fst (bl ! j) < 2 ^ 31"
proof -
  have "bl ! j \<in> set bl" using assms(2) by simp
  then have b: "0 < snd (bl ! j) \<and> fst (bl ! j) + snd (bl ! j) \<le> psize" "psize \<le> 2 ^ 31"
    using assms(1) by (auto simp: blocks_ok_def)
  then show "0 < snd (bl ! j)" "fst (bl ! j) + snd (bl ! j) \<le> psize" by simp_all
  show "snd (bl ! j) < 2 ^ 32" "fst (bl ! j) < 2 ^ 31" using b by auto
qed

lemma blk_step_at:
  assumes at: "blk_at k m bl j c" and ok: "blocks_ok k psize bl" and st: "blk_stored m bl"
    and more: "unat (BLK_CUR_FILEPOS m) div 2 ^ k + 1 < sum_len bl"
  shows "blk_cursor k (blk_step (2 ^ k) m) bl" "same_outside (region FSYS_BUF 12) m (blk_step (2 ^ k) m)"
    "unat (BLK_CUR_FILEPOS (blk_step (2 ^ k) m)) div 2 ^ k = unat (BLK_CUR_FILEPOS m) div 2 ^ k + 1"
proof -
  let ?fp = "unat (BLK_CUR_FILEPOS m)" and ?n = "snd (bl ! j)"
  have a: "j < length bl" "c < ?n" "BLK_CUR_BLKLIST m = blk_entry j" "BLK_CUR_BLKNUM m = of_nat c"
    "?fp div 2 ^ k = sum_len (take j bl) + c"
    using at by (simp_all add: blk_at_def)
  have n: "?n < 2 ^ 32" using blocks_okD(3) [OF ok a(1)] .
  have len: "BLK_BLKLENGTH m (blk_entry j) = of_nat ?n" using st a(1) by (simp add: blk_stored_def)
  have big: "sum_len bl * 2 ^ k < 2 ^ 31" using ok by (simp add: blocks_ok_def)
  have fp: "unat (BLK_CUR_FILEPOS m + 2 ^ k) = ?fp + 2 ^ k"
  proof -
    have "?fp < (?fp div 2 ^ k + 1) * 2 ^ k" using dividend_less_div_times [of "2 ^ k" ?fp] by simp
    then have "?fp + 2 ^ k < (?fp div 2 ^ k + 1 + 1) * 2 ^ k" by simp
    also have "\<dots> \<le> sum_len bl * 2 ^ k" using more by (intro mult_le_mono1) simp
    finally have "?fp + 2 ^ k < 2 ^ 32" using big by simp
    then have "unat (BLK_CUR_FILEPOS m + of_nat (2 ^ k)) = ?fp + 2 ^ k" by (rule unat_add_of_nat)
    then show ?thesis by simp
  qed
  then have d: "unat (BLK_CUR_FILEPOS m + 2 ^ k) div 2 ^ k = sum_len (take j bl) + c + 1"
    using a(5) div_add_self2 [of "2 ^ k" ?fp] by simp
  have c1: "unat (of_nat c + 1 :: u32) = c + 1"
  proof -
    have "unat (of_nat (c + 1) :: u32) = c + 1" using a(2) n by (intro unat_of_nat_small) linarith
    then show ?thesis by (simp add: add.commute)
  qed
  have cmp: "BLK_BLKLENGTH m (blk_entry j) \<le> of_nat c + 1 \<longleftrightarrow> ?n \<le> c + 1"
    unfolding len word_le_nat_alt c1 using unat_of_nat_small [OF n] by simp
  show "same_outside (region FSYS_BUF 12) m (blk_step (2 ^ k) m)"
    by (simp add: blk_step_def set_blk_cur_outside)
  have f: "BLK_CUR_FILEPOS (blk_step (2 ^ k) m) = BLK_CUR_FILEPOS m + 2 ^ k" by (simp add: blk_step_def)
  show "unat (BLK_CUR_FILEPOS (blk_step (2 ^ k) m)) div 2 ^ k = ?fp div 2 ^ k + 1" unfolding f d using a(5) by simp
  show "blk_cursor k (blk_step (2 ^ k) m) bl"
  proof (cases "?n \<le> c + 1")
    case True
    then have "?n = c + 1" using a(2) by simp
    then have nx: "sum_len (take (Suc j) bl) = sum_len (take j bl) + c + 1" using sum_len_take_Suc [OF a(1)] by simp
    have "Suc j < length bl"
    proof (rule ccontr)
      assume "\<not> Suc j < length bl"
      then have "take (Suc j) bl = bl" by simp
      then show False using nx more a(5) by simp
    qed
    moreover from this have "0 < snd (bl ! Suc j)" by (rule blocks_okD(1) [OF ok])
    moreover have "blk_entry j + BLK_BLKLIST_INC_VAL = blk_entry (Suc j)"
      by (simp add: blk_entry_def BLK_BLKLIST_INC_VAL_def)
    ultimately have "blk_at k (blk_step (2 ^ k) m) bl (Suc j) 0"
      using True a(3,4) cmp d nx by (simp add: blk_at_def blk_step_def)
    then show ?thesis by (auto simp: blk_cursor_def)
  next
    case False
    then have "blk_at k (blk_step (2 ^ k) m) bl j (c + 1)"
      using a cmp d by (simp add: blk_at_def blk_step_def add.commute)
    then show ?thesis unfolding blk_cursor_def by blast
  qed
qed

lemma blk_seek_finds:
  assumes "sector_size (buf_geom s) = 2 ^ k" "k \<le> 11" "blk_stored (mem s) bl" "blocks_ok k psize bl" "blk_cursor k (mem s) bl"
    and "unat (BLK_CUR_FILEPOS (mem s)) div 2 ^ k \<le> unat (filepos s) div 2 ^ k" "unat (filepos s) div 2 ^ k < sum_len bl"
  shows "\<exists>m. blk_seek s = Some (s\<lparr>mem := m\<rparr>) \<and> same_outside (region FSYS_BUF 12) (mem s) m \<and> blk_cursor k m bl
    \<and> unat (BLK_CUR_FILEPOS m) div 2 ^ k = unat (filepos s) div 2 ^ k"
  using assms
proof (induction "unat (filepos s) div 2 ^ k - unat (BLK_CUR_FILEPOS (mem s)) div 2 ^ k" arbitrary: s)
  case (Suc d)
  let ?m = "mem s" and ?m' = "blk_step (2 ^ k) (mem s)"
  obtain j c where at: "blk_at k ?m bl j c" using Suc.prems(5) by (auto simp: blk_cursor_def)
  have lt: "unat (BLK_CUR_FILEPOS ?m) div 2 ^ k < unat (filepos s) div 2 ^ k" using Suc.hyps(2) by simp
  have gt: "BLK_CUR_FILEPOS ?m < filepos s"
  proof (rule ccontr)
    assume "\<not> BLK_CUR_FILEPOS ?m < filepos s"
    then have "unat (filepos s) \<le> unat (BLK_CUR_FILEPOS ?m)" by (simp add: word_less_nat_alt)
    then have "unat (filepos s) div 2 ^ k \<le> unat (BLK_CUR_FILEPOS ?m) div 2 ^ k" by (rule div_le_mono)
    then show False using lt by simp
  qed
  have st: "blk_cursor k ?m' bl" "same_outside (region FSYS_BUF 12) ?m ?m'"
    "unat (BLK_CUR_FILEPOS ?m') div 2 ^ k = unat (BLK_CUR_FILEPOS ?m) div 2 ^ k + 1"
    using blk_step_at [OF at Suc.prems(4,3)] lt Suc.prems(7) by auto
  have "blk_seek s = blk_seek (s\<lparr>mem := ?m'\<rparr>)"
    using gt sector_behind [OF Suc.prems(2) gt] lt Suc.prems(1)
    by (subst blk_seek.simps) (simp add: Let_def blk_step_def)
  moreover have "\<exists>m. blk_seek (s\<lparr>mem := ?m'\<rparr>) = Some (s\<lparr>mem := ?m'\<rparr>\<lparr>mem := m\<rparr>)
      \<and> same_outside (region FSYS_BUF 12) (mem (s\<lparr>mem := ?m'\<rparr>)) m \<and> blk_cursor k m bl
      \<and> unat (BLK_CUR_FILEPOS m) div 2 ^ k = unat (filepos (s\<lparr>mem := ?m'\<rparr>)) div 2 ^ k"
  proof (rule Suc.hyps(1))
    show "d = unat (filepos (s\<lparr>mem := ?m'\<rparr>)) div 2 ^ k - unat (BLK_CUR_FILEPOS (mem (s\<lparr>mem := ?m'\<rparr>))) div 2 ^ k"
      using Suc.hyps(2) st(3) by simp
    show "blk_stored (mem (s\<lparr>mem := ?m'\<rparr>)) bl"
      using blk_stored_cur [OF Suc.prems(3) st(2)] Suc.prems(4) by (simp add: blocks_ok_def)
  qed (use Suc.prems st lt in simp_all)
  ultimately show ?case using st(2) by (auto intro: same_outside_trans)
next
  case 0
  let ?m = "mem s"
  have eq: "unat (BLK_CUR_FILEPOS ?m) div 2 ^ k = unat (filepos s) div 2 ^ k" using "0.hyps" "0.prems"(6) by simp
  show ?case
  proof (cases "BLK_CUR_FILEPOS ?m < filepos s")
    case True
    let ?m' = "set_blk_cur (filepos s) (BLK_CUR_BLKLIST ?m) (BLK_CUR_BLKNUM ?m) ?m"
    have "blk_seek s = blk_seek (s\<lparr>mem := ?m'\<rparr>)"
      using True sector_behind [OF "0.prems"(2) True] eq "0.prems"(1)
      by (subst blk_seek.simps) (simp add: Let_def)
    also have "\<dots> = Some (s\<lparr>mem := ?m'\<rparr>)" by (subst blk_seek.simps) simp
    finally have "blk_seek s = Some (s\<lparr>mem := ?m'\<rparr>)" .
    moreover have "blk_cursor k ?m' bl" using "0.prems"(5) eq by (auto simp: blk_cursor_def blk_at_def)
    ultimately show ?thesis using set_blk_cur_outside by (intro exI [of _ ?m']) simp
  next
    case False
    then have "blk_seek s = Some s" by (subst blk_seek.simps) (simp add: Let_def)
    then show ?thesis using "0.prems"(5) eq by (intro exI [of _ ?m]) simp
  qed
qed

section \<open>Reading\<close>

lemma fsys_not_io: "region FSYS_BUF 0x8000 x \<Longrightarrow> \<not> io_area x"
proof -
  assume r: "region FSYS_BUF 0x8000 x"
  then have "unat (FSYS_BUF + of_nat (unat (x - FSYS_BUF))) = 0x68000 + unat (x - FSYS_BUF)"
    by (subst unat_add_of_nat) (simp_all add: region_def FSYS_BUF_def)
  then have "unat x = 0x68000 + unat (x - FSYS_BUF)" by simp
  then show ?thesis using r by (simp add: region_def io_area_def word_le_nat_alt word_less_nat_alt)
qed

lemma region_mono: "region a n x \<Longrightarrow> n \<le> n' \<Longrightarrow> region a n' x"
  by (simp add: region_def)

text \<open>A destination clear of the filesystem buffer.\<close>

definition fs_clear :: "u32 \<Rightarrow> nat \<Rightarrow> bool" where
  "fs_clear B n \<longleftrightarrow> (\<forall>x. region FSYS_BUF 0x8000 x \<longrightarrow> \<not> region B n x)"

lemma fs_clear_le: "fs_clear B n \<Longrightarrow> n' \<le> n \<Longrightarrow> fs_clear B n'"
  by (auto simp: fs_clear_def intro: region_mono)

lemma region_later:
  assumes "region (B + of_nat c) (n - c) x" "c \<le> n" "n < 2 ^ 32"
  shows "region B n x"
proof -
  have "x - B = (x - (B + of_nat c)) + of_nat c" by simp
  moreover have "unat (x - (B + of_nat c) + of_nat c) = unat (x - (B + of_nat c)) + c"
    using assms by (intro unat_add_of_nat) (simp add: region_def)
  ultimately show ?thesis using assms by (simp add: region_def)
qed

lemma fs_clear_later: "fs_clear B n \<Longrightarrow> c \<le> n \<Longrightarrow> n < 2 ^ 32 \<Longrightarrow> fs_clear (B + of_nat c) (n - c)"
  unfolding fs_clear_def using region_later by blast

lemma file_byte_block:
  assumes "blk_at k m bl j c" "unat (BLK_CUR_FILEPOS m) div 2 ^ k = fp div 2 ^ k"
    and "fp mod 2 ^ k + i < (snd (bl ! j) - c) * 2 ^ k"
  shows "file_byte part k bl (fp + i) = part ((fst (bl ! j) + c) * 2 ^ k + fp mod 2 ^ k + i)"
proof -
  let ?e = "(fp mod 2 ^ k + i) div 2 ^ k"
  have a: "j < length bl" "c < snd (bl ! j)" "fp div 2 ^ k = sum_len (take j bl) + c"
    using assms(1,2) by (auto simp: blk_at_def)
  have s: "fp + i = (fp mod 2 ^ k + i) + (fp div 2 ^ k) * 2 ^ k" using div_mult_mod_eq [of fp "2 ^ k"] by linarith
  have d: "(fp + i) div 2 ^ k = sum_len (take j bl) + (c + ?e)" "(fp + i) mod 2 ^ k = (fp mod 2 ^ k + i) mod 2 ^ k"
    unfolding s using a(3) by simp_all
  have "?e < snd (bl ! j) - c" using assms(3) by (simp add: less_mult_imp_div_less)
  then have e: "c + ?e < snd (bl ! j)" by linarith
  have "file_byte part k bl (fp + i) = part ((fst (bl ! j) + (c + ?e)) * 2 ^ k + (fp mod 2 ^ k + i) mod 2 ^ k)"
    unfolding file_byte_def d nth_file_sectors [OF a(1) e] ..
  also have "(fst (bl ! j) + (c + ?e)) * 2 ^ k + (fp mod 2 ^ k + i) mod 2 ^ k = (fst (bl ! j) + c) * 2 ^ k + fp mod 2 ^ k + i"
    using div_mult_mod_eq [of "fp mod 2 ^ k + i" "2 ^ k"] unfolding add_mult_distrib by linarith
  finally show ?thesis .
qed

text \<open>The bytes read in one turn: the rest of the block list entry, or what is asked for.\<close>

definition turn_bytes :: "nat \<Rightarrow> blocks \<Rightarrow> nat \<Rightarrow> nat \<Rightarrow> nat \<Rightarrow> nat \<Rightarrow> nat" where
  "turn_bytes k bl j c fp n =
     (let room = (snd (bl ! j) - c) * 2 ^ k - fp mod 2 ^ k in if room > n then n else room)"

lemma turn_bytes_bounds:
  assumes "blk_at k m bl j c" "0 < n"
  shows "0 < turn_bytes k bl j c fp n" "turn_bytes k bl j c fp n \<le> n"
    "fp mod 2 ^ k + turn_bytes k bl j c fp n \<le> (snd (bl ! j) - c) * 2 ^ k"
proof -
  have "1 * 2 ^ k \<le> (snd (bl ! j) - c) * 2 ^ k" using assms(1) by (intro mult_le_mono1) (auto simp: blk_at_def)
  moreover have "fp mod 2 ^ k < 2 ^ k" by simp
  ultimately have "0 < (snd (bl ! j) - c) * 2 ^ k - fp mod 2 ^ k" by linarith
  then show "0 < turn_bytes k bl j c fp n" "turn_bytes k bl j c fp n \<le> n"
    "fp mod 2 ^ k + turn_bytes k bl j c fp n \<le> (snd (bl ! j) - c) * 2 ^ k"
    using assms(2) by (auto simp: turn_bytes_def Let_def)
qed

lemma turn_bytes_word:
  assumes "blk_at k m bl j c" "blocks_ok k psize bl" "n < 2 ^ 31"
  shows "(let room = (of_nat (snd (bl ! j)) - of_nat c) * 2 ^ k - of_nat (fp mod 2 ^ k) :: u32
      in if room > of_nat n then of_nat n else room) = of_nat (turn_bytes k bl j c fp n)"
proof -
  let ?room = "(snd (bl ! j) - c) * 2 ^ k - fp mod 2 ^ k"
  have jc: "j < length bl" "c < snd (bl ! j)" using assms(1) by (simp_all add: blk_at_def)
  have "1 * 2 ^ k \<le> (snd (bl ! j) - c) * 2 ^ k" using jc(2) by (intro mult_le_mono1) simp
  moreover have "fp mod 2 ^ k < 2 ^ k" by simp
  ultimately have pos: "fp mod 2 ^ k \<le> (snd (bl ! j) - c) * 2 ^ k" by linarith
  have "snd (bl ! j) \<le> sum_len bl" using sum_len_take_Suc [OF jc(1)] sum_len_take_le [of "Suc j" bl] by linarith
  then have "(snd (bl ! j) - c) * 2 ^ k \<le> sum_len bl * 2 ^ k" by (intro mult_le_mono1) simp
  moreover have "sum_len bl * 2 ^ k < 2 ^ 31" using assms(2) by (simp add: blocks_ok_def)
  ultimately have "(snd (bl ! j) - c) * 2 ^ k < 2 ^ 31" by (rule le_less_trans)
  moreover have "(2::nat) ^ 31 \<le> 2 ^ 32" by simp
  ultimately have r32: "?room < 2 ^ 32" "n < 2 ^ 32" using assms(3) by linarith+
  have "of_nat (snd (bl ! j)) - of_nat c = (of_nat (snd (bl ! j) - c) :: u32)" using jc(2) by (simp add: of_nat_diff)
  moreover have "of_nat ?room = (of_nat ((snd (bl ! j) - c) * 2 ^ k) - of_nat (fp mod 2 ^ k) :: u32)"
    using pos by (rule of_nat_diff)
  ultimately have w: "(of_nat (snd (bl ! j)) - of_nat c) * 2 ^ k - of_nat (fp mod 2 ^ k) = (of_nat ?room :: u32)"
    by (simp only: of_nat_mult of_nat_power of_nat_numeral)
  have "(of_nat ?room :: u32) > of_nat n \<longleftrightarrow> ?room > n" using r32 by (simp only: word_less_nat_alt unat_of_nat_small)
  then show ?thesis unfolding w turn_bytes_def Let_def by (cases "?room > n") (simp_all only: if_True if_False)
qed

text \<open>Memory outside the filesystem buffer does not matter to an open block file.\<close>

lemma blk_keep:
  assumes "same_outside A m m'" "\<And>x. region FSYS_BUF 0x8000 x \<Longrightarrow> \<not> A x" "length bl \<le> 3837" "blk_stored m bl" "blk_cursor k m bl"
  shows "blk_stored m' bl" "blk_cursor k m' bl"
proof -
  have "\<not> A (blk_entry j + of_nat i)" if "j < length bl" "i < 8" for j i
    by (rule assms(2)) (use blk_entry_apart(2) that assms(3) in auto)
  then show "blk_stored m' bl" using blk_stored_same [OF assms(4,1,3)] by blast
  have p: "peek32 m' (FSYS_BUF + of_nat i) = peek32 m (FSYS_BUF + of_nat i)" if "i \<le> 8" for i
  proof (rule peek32_same [OF assms(1)], rule assms(2))
    fix q :: nat assume q: "q < 4"
    have "unat (of_nat (i + q) :: u32) = i + q" using q that by (intro unat_of_nat_small) simp
    then show "region FSYS_BUF 0x8000 (FSYS_BUF + of_nat i + of_nat q)" using q that by (simp add: region_def)
  qed
  from p [of 0] p [of 4] p [of 8] show "blk_cursor k m' bl"
    using assms(5) by (simp add: blk_cursor_def blk_at_def BLK_CUR_FILEPOS_def BLK_CUR_BLKLIST_def BLK_CUR_BLKNUM_def)
qed

text \<open>A byte read is not touched by later turns.\<close>

lemma earlier_byte:
  assumes d: "dest_ok upper B n" and clear: "fs_clear B n" and i: "i < n" "n < 2 ^ 31" "i < cnt" "cnt \<le> n"
    and q: "q \<le> 0x8000"
  shows "\<not> (io_area (B + of_nat i) \<or> region FSYS_BUF q (B + of_nat i) \<or> region (B + of_nat cnt) (n - cnt) (B + of_nat i))"
proof -
  have "\<not> io_area (B + of_nat i)" using d i(1) by (simp add: dest_ok_def)
  moreover have "unat (of_nat i :: u32) = i" using i by (intro unat_of_nat_small) simp
  then have "region B n (B + of_nat i)" using i by (simp add: region_def)
  then have "\<not> region FSYS_BUF q (B + of_nat i)"
    using clear region_mono [OF _ q, of FSYS_BUF "B + of_nat i"] by (auto simp: fs_clear_def)
  moreover have "\<not> region (B + of_nat cnt) (n - cnt) (B + of_nat i)"
  proof
    assume rg: "region (B + of_nat cnt) (n - cnt) (B + of_nat i)"
    have "B + of_nat i - (B + of_nat cnt) = (of_nat i - of_nat cnt :: u32)" by simp
    moreover have "unat (of_nat i - of_nat cnt :: u32) = 2 ^ 32 + i - cnt"
      using i by (intro unat_diff_wrap) simp_all
    ultimately show False using rg i by (simp add: region_def)
  qed
  ultimately show ?thesis by blast
qed

text \<open>The state of an open block file, on a device that can be read in the states \<open>usable\<close>.\<close>

definition blk_file :: "(('d, 'h, 'z) gstate \<Rightarrow> bool) \<Rightarrow> nat \<Rightarrow> nat \<Rightarrow> blocks \<Rightarrow> ('d, 'h, 'z) gstate \<Rightarrow> bool" where
  "blk_file usable k psize bl s \<longleftrightarrow> usable s \<and> blocks_ok k psize bl \<and> blk_stored (mem s) bl \<and> blk_cursor k (mem s) bl"

context partition_reader
begin

abbreviation block_open :: "blocks \<Rightarrow> ('d, 'h, 'z) gstate \<Rightarrow> bool" where
  "block_open bl s \<equiv> blk_file usable k len bl s"

lemma block_open_rewind:
  assumes "block_open bl s"
  shows "\<exists>m. blk_rewind s = s\<lparr>mem := m\<rparr> \<and> same_outside (region FSYS_BUF 12) (mem s) m \<and> blk_stored m bl \<and> blk_cursor k m bl
    \<and> unat (BLK_CUR_FILEPOS m) div 2 ^ k \<le> unat (filepos s) div 2 ^ k"
proof (cases "filepos s < BLK_CUR_FILEPOS (mem s)")
  case True
  let ?m = "set_blk_cur 0 BLK_BLKLIST_START 0 (mem s)"
  have "0 < length bl" using assms by (auto simp: blk_file_def blk_cursor_def blk_at_def)
  then have "blk_at k ?m bl 0 0"
    using assms blocks_okD(1) [of k len bl 0] by (simp add: blk_at_def blk_file_def blk_entry_def sum_len_def)
  then have "blk_cursor k ?m bl" unfolding blk_cursor_def by blast
  moreover have "blk_stored ?m bl"
    using assms set_blk_cur_outside by (auto simp: blk_file_def blocks_ok_def intro: blk_stored_cur)
  ultimately show ?thesis using True set_blk_cur_outside by (intro exI [of _ ?m]) (simp add: blk_rewind_def)
next
  case False
  then have "unat (BLK_CUR_FILEPOS (mem s)) div 2 ^ k \<le> unat (filepos s) div 2 ^ k"
    by (simp add: word_less_nat_alt div_le_mono)
  then show ?thesis using assms False by (intro exI [of _ "mem s"]) (simp add: blk_rewind_def blk_file_def)
qed

lemma block_open_seek:
  assumes "block_open bl s" "unat (filepos s) div 2 ^ k < sum_len bl"
  shows "\<exists>m. blk_seek (blk_rewind s) = Some (s\<lparr>mem := m\<rparr>) \<and> same_outside (region FSYS_BUF 12) (mem s) m
    \<and> block_open bl (s\<lparr>mem := m\<rparr>) \<and> unat (BLK_CUR_FILEPOS m) div 2 ^ k = unat (filepos s) div 2 ^ k"
proof -
  have u: "usable s" "blocks_ok k len bl" using assms(1) by (auto simp: blk_file_def)
  obtain m1 where m1: "blk_rewind s = s\<lparr>mem := m1\<rparr>" "same_outside (region FSYS_BUF 12) (mem s) m1" "blk_stored m1 bl" "blk_cursor k m1 bl"
    "unat (BLK_CUR_FILEPOS m1) div 2 ^ k \<le> unat (filepos s) div 2 ^ k"
    using block_open_rewind [OF assms(1)] by blast
  obtain m where m: "blk_seek (s\<lparr>mem := m1\<rparr>) = Some (s\<lparr>mem := m\<rparr>)" "same_outside (region FSYS_BUF 12) m1 m" "blk_cursor k m bl"
    "unat (BLK_CUR_FILEPOS m) div 2 ^ k = unat (filepos s) div 2 ^ k"
    using blk_seek_finds [of "s\<lparr>mem := m1\<rparr>" k bl len] sectors_of [OF u(1)] m1 u(2) assms(2) by auto
  have so: "same_outside (region FSYS_BUF 12) (mem s) m" using m1(2) m(2) by (rule same_outside_trans)
  have "same_device s (s\<lparr>mem := m\<rparr>)"
  proof -
    have "m x = mem s x" if "io_area x" for x
    proof (rule same_outsideD [OF so], rule notI)
      assume "region FSYS_BUF 12 x"
      then have "region FSYS_BUF 0x8000 x" by (rule region_mono) simp
      then show False using fsys_not_io that by blast
    qed
    then show ?thesis by (simp add: same_device_def)
  qed
  then have "block_open bl (s\<lparr>mem := m\<rparr>)"
    using u m(3) blk_stored_cur [OF m1(3) m(2)] stable [OF u(1)] by (simp add: blk_file_def blocks_ok_def)
  then show ?thesis using m1(1) m so by auto
qed

text \<open>One turn of the loop.\<close>

lemma blk_read_turn:
  assumes o: "block_open bl s" and e: "errnum s = ERR_NONE" and fit: "unat (filepos s) + n \<le> sum_len bl * 2 ^ k"
    and n: "0 < n" and d: "dest_ok (mem_upper s) B n" and clear: "fs_clear B n"
  shows "\<exists>cnt m t h. let s' = s\<lparr>mem := m, errnum := ERR_NONE, buf_track := t, hook := h, filepos := filepos s + of_nat cnt\<rparr>
     in 0 < cnt \<and> cnt \<le> n \<and> blk_read rdev B (of_nat n) ret s = blk_read rdev (B + of_nat cnt) (of_nat (n - cnt)) (ret + of_nat cnt) s'
       \<and> block_open bl s' \<and> same_outside (\<lambda>x. io_area x \<or> region FSYS_BUF 12 x \<or> region B n x) (mem s) m
       \<and> (\<forall>i < cnt. m (B + of_nat i) = file_byte part k bl (unat (filepos s) + i))"
proof -
  let ?fp = "unat (filepos s)"
  have u: "usable s" "blocks_ok k len bl" using o by (auto simp: blk_file_def)
  have ss: "sector_size (buf_geom s) = 2 ^ k" "9 \<le> k" "k \<le> 11" using sectors_of [OF u(1)] by auto
  have big: "sum_len bl * 2 ^ k < 2 ^ 31" "len \<le> 2 ^ 31" "length bl \<le> 3837" using u(2) by (auto simp: blocks_ok_def)
  have n31: "n < 2 ^ 31" using fit big(1) by linarith
  have "?fp < sum_len bl * 2 ^ k" using fit n by linarith
  then have fpin: "?fp div 2 ^ k < sum_len bl" by (simp add: less_mult_imp_div_less)
  obtain m1 where m1: "blk_seek (blk_rewind s) = Some (s\<lparr>mem := m1\<rparr>)" "same_outside (region FSYS_BUF 12) (mem s) m1"
    "block_open bl (s\<lparr>mem := m1\<rparr>)" "unat (BLK_CUR_FILEPOS m1) div 2 ^ k = ?fp div 2 ^ k"
    using block_open_seek [OF o fpin] by blast
  obtain j c where at: "blk_at k m1 bl j c" using m1(3) by (auto simp: blk_file_def blk_cursor_def)
  then have jc: "j < length bl" "c < snd (bl ! j)" "BLK_CUR_BLKLIST m1 = blk_entry j" "BLK_CUR_BLKNUM m1 = of_nat c"
    by (auto simp: blk_at_def)
  have entry: "BLK_BLKSTART m1 (blk_entry j) = of_nat (fst (bl ! j))" "BLK_BLKLENGTH m1 (blk_entry j) = of_nat (snd (bl ! j))"
    using m1(3) jc(1) by (auto simp: blk_file_def blk_stored_def)
  let ?st = "fst (bl ! j) + c" and ?off = "?fp mod 2 ^ k"
  define cnt where "cnt = turn_bytes k bl j c ?fp n"
  have cnt: "0 < cnt" "cnt \<le> n" "?off + cnt \<le> (snd (bl ! j) - c) * 2 ^ k"
    unfolding cnt_def by (rule turn_bytes_bounds [OF at n])+
  have "(2::nat) ^ k \<le> 2 ^ 11" using ss(3) by (intro power_increasing) auto
  then have "?off < 2 ^ 11" by (rule less_le_trans [rotated]) simp
  then have lim: "cnt < 2 ^ 31" "?off < 2 ^ 31" using cnt(2) n31 by simp_all
  have "(?off + cnt - 1) div 2 ^ k < snd (bl ! j) - c" using cnt(1,3) by (intro less_mult_imp_div_less) linarith
  then have sec: "?st + (?off + cnt - 1) div 2 ^ k < len" "?st < 2 ^ 31" using blocks_okD(2) [OF u(2) jc(1)] jc(2) big(2) by linarith+
  have dc: "dest_ok (mem_upper (s\<lparr>mem := m1\<rparr>)) B cnt" using dest_ok_part [OF d, of 0 cnt] cnt by simp
  have u1: "usable (s\<lparr>mem := m1\<rparr>)" using m1(3) by (simp add: blk_file_def)
  obtain m2 t h where r: "rdev (of_nat ?st) (of_nat ?off) (of_nat cnt) B (s\<lparr>mem := m1\<rparr>)
      = Some (True, s\<lparr>mem := m2, errnum := ERR_NONE, buf_track := t, hook := h\<rparr>)"
    "usable (s\<lparr>mem := m2, errnum := ERR_NONE, buf_track := t, hook := h\<rparr>)"
    "same_outside (\<lambda>x. io_area x \<or> region B cnt x) m1 m2"
    "\<forall>i < cnt. m2 (B + of_nat i) = part (?st * 2 ^ k + ?off + i)"
    using inside [OF u1 cnt(1) lim(1,2) sec(2,1) dc] unfolding Let_def by auto
  let ?s2 = "s\<lparr>mem := m2, errnum := ERR_NONE, buf_track := t, hook := h, filepos := filepos s + of_nat cnt\<rparr>"
  have "blk_read rdev B (of_nat n) ret s = blk_read rdev (B + of_nat cnt) (of_nat n - of_nat cnt) (ret + of_nat cnt) ?s2"
  proof -
    have "unat (of_nat n :: u32) = n" using n31 by (intro unat_of_nat_small) simp
    then have "(of_nat n :: u32) \<noteq> 0" using n by auto
    moreover have "BLK_BLKSTART m1 (BLK_CUR_BLKLIST m1) + BLK_CUR_BLKNUM m1 = of_nat ?st" using entry jc(3,4) by simp
    ultimately show ?thesis
      using e m1(1) ss(1) and_not_sector(2) [OF ss(3), of "filepos s"] entry jc(3,4) r(1)
        turn_bytes_word [OF at u(2) n31, of ?fp, folded cnt_def]
      by (subst blk_read.simps) (simp del: of_nat_diff add: Let_def split del: if_split cong del: if_weak_cong)
  qed
  moreover have "(of_nat n - of_nat cnt :: u32) = of_nat (n - cnt)" using cnt(2) by (simp add: of_nat_diff)
  moreover have "usable ?s2" by (rule stable [OF r(2)]) (simp add: same_device_def)
  then have ob: "block_open bl ?s2"
    using blk_keep [OF r(3) _ big(3), of k] fsys_not_io fs_clear_le [OF clear cnt(2)] m1(3) u(2)
    by (auto simp: blk_file_def fs_clear_def)
  note ob
  moreover have "same_outside (\<lambda>x. io_area x \<or> region FSYS_BUF 12 x \<or> region B n x) (mem s) m2"
    by (rule same_outside_trans [OF same_outside_mono [OF m1(2)] same_outside_mono [OF r(3)]]) (use region_mono cnt(2) in blast)+
  moreover have "\<forall>i < cnt. m2 (B + of_nat i) = file_byte part k bl (?fp + i)"
    using r(4) file_byte_block [OF at m1(4)] cnt(3) by simp
  ultimately show ?thesis using cnt(1,2) unfolding Let_def
    by (intro exI [of _ cnt] exI [of _ m2] exI [of _ t] exI [of _ h] conjI) (simp_all only:)
qed

text \<open>Reading \<open>n\<close> bytes inside the file.\<close>

lemma blk_read_correct:
  assumes "block_open bl s" "errnum s = ERR_NONE" "unat (filepos s) + n \<le> sum_len bl * 2 ^ k" "0 < n \<Longrightarrow> dest_ok (mem_upper s) B n" "fs_clear B n"
  shows "\<exists>m t h. let s' = s\<lparr>mem := m, buf_track := t, hook := h, filepos := filepos s + of_nat n\<rparr>
     in blk_read rdev B (of_nat n) ret s = Some (ret + of_nat n, s') \<and> block_open bl s'
       \<and> same_outside (\<lambda>x. io_area x \<or> region FSYS_BUF 12 x \<or> region B n x) (mem s) m
       \<and> (\<forall>i < n. m (B + of_nat i) = file_byte part k bl (unat (filepos s) + i))"
  using assms
proof (induction n arbitrary: s B ret rule: less_induct)
  case (less n)
  show ?case
  proof (cases "n = 0")
    case True
    have "blk_read rdev B (of_nat n) ret s = Some (ret + of_nat n, s)"
      using True less.prems(2) by (subst blk_read.simps) simp
    then show ?thesis using True less.prems(1) unfolding Let_def
      by (intro exI [of _ "mem s"] exI [of _ "buf_track s"] exI [of _ "hook s"]) simp
  next
    case False
    let ?fp = "unat (filepos s)"
    have n0: "0 < n" and d: "dest_ok (mem_upper s) B n" using less.prems(4) False by simp_all
    have "sum_len bl * 2 ^ k < 2 ^ 31" using less.prems(1) by (simp add: blk_file_def blocks_ok_def)
    then have n31: "?fp + n < 2 ^ 31" using less.prems(3) by linarith
    obtain cnt m2 t h where cnt: "0 < cnt" "cnt \<le> n"
      and turn: "blk_read rdev B (of_nat n) ret s = blk_read rdev (B + of_nat cnt) (of_nat (n - cnt)) (ret + of_nat cnt)
        (s\<lparr>mem := m2, errnum := ERR_NONE, buf_track := t, hook := h, filepos := filepos s + of_nat cnt\<rparr>)"
      and o2: "block_open bl (s\<lparr>mem := m2, errnum := ERR_NONE, buf_track := t, hook := h, filepos := filepos s + of_nat cnt\<rparr>)" and so2: "same_outside (\<lambda>x. io_area x \<or> region FSYS_BUF 12 x \<or> region B n x) (mem s) m2"
      and data: "\<forall>i < cnt. m2 (B + of_nat i) = file_byte part k bl (?fp + i)"
      using blk_read_turn [OF less.prems(1-3) n0 d less.prems(5), of ret] unfolding Let_def by blast
    let ?s2 = "s\<lparr>mem := m2, errnum := ERR_NONE, buf_track := t, hook := h, filepos := filepos s + of_nat cnt\<rparr>"
    have fp2: "unat (filepos s + of_nat cnt) = ?fp + cnt" using cnt(2) n31 by (intro unat_add_of_nat) simp
    let ?n2 = "n - cnt" and ?B2 = "B + of_nat cnt"
    have d2: "0 < ?n2 \<Longrightarrow> dest_ok (mem_upper ?s2) ?B2 ?n2" using dest_ok_part [OF d, of cnt ?n2] cnt(2) by auto
    have f2: "fs_clear ?B2 ?n2" using less.prems(5) cnt(2) n31 by (intro fs_clear_later) auto
    obtain m3 t3 h3 where r3: "blk_read rdev ?B2 (of_nat ?n2) (ret + of_nat cnt) ?s2 = Some (ret + of_nat cnt + of_nat ?n2,
        ?s2\<lparr>mem := m3, buf_track := t3, hook := h3, filepos := filepos ?s2 + of_nat ?n2\<rparr>)"
      "block_open bl (?s2\<lparr>mem := m3, buf_track := t3, hook := h3, filepos := filepos ?s2 + of_nat ?n2\<rparr>)"
      "same_outside (\<lambda>x. io_area x \<or> region FSYS_BUF 12 x \<or> region ?B2 ?n2 x) m2 m3"
      "\<forall>i < ?n2. m3 (?B2 + of_nat i) = file_byte part k bl (?fp + cnt + i)"
      using less.IH [OF _ o2 _ _ d2 f2, of "ret + of_nat cnt"] cnt less.prems(3) fp2 unfolding Let_def by auto
    have e: "ret + of_nat cnt + of_nat ?n2 = ret + of_nat n" "filepos s + of_nat cnt + of_nat ?n2 = filepos s + of_nat n"
      using cnt(2) by (simp_all add: of_nat_diff)
    let ?s3 = "s\<lparr>mem := m3, buf_track := t3, hook := h3, filepos := filepos s + of_nat n\<rparr>"
    have s3: "?s2\<lparr>mem := m3, buf_track := t3, hook := h3, filepos := filepos ?s2 + of_nat ?n2\<rparr> = ?s3"
      using less.prems(2) e(2) by simp
    have "blk_read rdev B (of_nat n) ret s = Some (ret + of_nat n, ?s3)" unfolding turn r3(1) s3 e(1) ..
    moreover have "block_open bl ?s3" using r3(2) unfolding s3 .
    moreover have "same_outside (\<lambda>x. io_area x \<or> region FSYS_BUF 12 x \<or> region B n x) (mem s) m3"
      by (rule same_outside_trans [OF so2 same_outside_mono [OF r3(3)]]) (use region_later [of B cnt n] cnt(2) n31 in auto)
    moreover have "\<forall>i < n. m3 (B + of_nat i) = file_byte part k bl (?fp + i)"
    proof (intro allI impI)
      fix i assume i: "i < n"
      show "m3 (B + of_nat i) = file_byte part k bl (?fp + i)"
      proof (cases "i < cnt")
        case True
        have "m3 (B + of_nat i) = m2 (B + of_nat i)"
          using earlier_byte [OF d less.prems(5) i _ True cnt(2), of 12] n31 by (intro same_outsideD [OF r3(3)]) simp
        then show ?thesis using data True by simp
      next
        case False
        then have "i - cnt < ?n2" using i by simp
        then have "m3 (?B2 + of_nat (i - cnt)) = file_byte part k bl (?fp + cnt + (i - cnt))"
          by (rule r3(4) [rule_format])
        moreover have "?B2 + of_nat (i - cnt) = B + of_nat i" using False by (simp add: of_nat_diff)
        ultimately show ?thesis using False by simp
      qed
    qed
    ultimately show ?thesis unfolding Let_def
      by (intro exI [of _ m3] exI [of _ t3] exI [of _ h3] conjI)
  qed
qed

end

end
