(* ===== verification/BlockOpen.thy ===== *)
theory BlockOpen
imports BlockFile
begin

text \<open>
  Opening a block file: \<open>grub_open\<close> stores the block list its argument names.
\<close>

section \<open>The text of a block list\<close>

text \<open>\<open>start+length\<close>, where a start of 0 may be left out.\<close>

fun block_text :: "nat \<times> nat \<Rightarrow> u8 list" where
  "block_text (st, n) = (if st = 0 then [] else dec st) @ ch CHR ''+'' # dec n"

fun blocks_text :: "blocks \<Rightarrow> u8 list" where
  "blocks_text [] = []"
| "blocks_text [e] = block_text e"
| "blocks_text (e # es) = block_text e @ ch CHR '','' # blocks_text es"

text \<open>A length of the file in bytes may follow.\<close>

fun size_text :: "nat option \<Rightarrow> u8 list" where
  "size_text None = []"
| "size_text (Some z) = ch CHR '','' # dec z"

text \<open>Memory with a list from entry \<open>i\<close> on.\<close>

definition put_block :: "nat \<Rightarrow> nat \<times> nat \<Rightarrow> mem \<Rightarrow> mem" where
  "put_block i e m = poke (blk_entry i + 4) (bytes32 (of_nat (snd e))) (poke (blk_entry i) (bytes32 (of_nat (fst e))) m)"

fun put_blocks :: "nat \<Rightarrow> blocks \<Rightarrow> mem \<Rightarrow> mem" where
  "put_blocks i [] m = m"
| "put_blocks i (e # es) m = put_blocks (Suc i) es (put_block i e m)"

lemma blk_entry_Suc: "blk_entry i + BLK_BLKLIST_INC_VAL = blk_entry (Suc i)"
  by (simp add: blk_entry_def BLK_BLKLIST_INC_VAL_def)

lemma unat_blk_entry: "i \<le> 3838 \<Longrightarrow> unat (blk_entry i) = 0x6800C + 8 * i"
  unfolding blk_entry_def BLK_BLKLIST_START_def FSYS_BUF_def
  by (subst unat_add_of_nat) simp_all

lemma blk_entry_in: "i \<le> 3837 \<Longrightarrow> blk_entry i < BLK_MAX_ADDR"
  by (simp add: word_less_nat_alt unat_blk_entry BLK_MAX_ADDR_def FSYS_BUF_def)

lemma put_block_get:
  "BLK_BLKSTART (put_block i e m) (blk_entry i) = of_nat (fst e)" "BLK_BLKLENGTH (put_block i e m) (blk_entry i) = of_nat (snd e)"
proof -
  have "peek32 (put_block i e m) (blk_entry i) = peek32 (poke (blk_entry i) (bytes32 (of_nat (fst e))) m) (blk_entry i)"
    unfolding put_block_def by (rule peek32_poke_apart) simp_all
  then show "BLK_BLKSTART (put_block i e m) (blk_entry i) = of_nat (fst e)" by (simp add: BLK_BLKSTART_def)
  show "BLK_BLKLENGTH (put_block i e m) (blk_entry i) = of_nat (snd e)" by (simp add: BLK_BLKLENGTH_def put_block_def)
qed

lemma put_block_outside: "same_outside (region (blk_entry i) 8) m (put_block i e m)"
proof -
  have "same_outside (region (blk_entry i) 8) m (poke (blk_entry i) (bytes32 (of_nat (fst e))) m)"
    by (rule poke_same_outside) simp
  moreover have "same_outside (region (blk_entry i) 8) m' (poke (blk_entry i + 4) (bytes32 x) m')" for m' x
  proof (rule same_outside_mono [OF poke_same_outside [of _ 4]])
    fix y assume "region (blk_entry i + 4) 4 y"
    then show "region (blk_entry i) 8 y" using region_later [of "blk_entry i" 4 8 y] by simp
  qed simp
  ultimately show ?thesis unfolding put_block_def by (rule same_outside_trans)
qed

lemma put_blocks_outside:
  "length es \<le> 3838 \<Longrightarrow> same_outside (region (blk_entry i) (8 * length es)) m (put_blocks i es m)"
proof (induction es arbitrary: i m)
  case (Cons e es)
  have "same_outside (region (blk_entry i) (8 * length (e # es))) m (put_block i e m)"
    by (rule same_outside_mono [OF put_block_outside]) (auto intro: region_mono)
  moreover have "same_outside (region (blk_entry i) (8 * length (e # es))) (put_block i e m) (put_blocks (Suc i) es (put_block i e m))"
  proof (rule same_outside_mono [OF Cons.IH])
    fix y assume "region (blk_entry (Suc i)) (8 * length es) y"
    then show "region (blk_entry i) (8 * length (e # es)) y"
      using region_later [of "blk_entry i" 8 "8 * length (e # es)" y] Cons.prems
      by (simp add: blk_entry_Suc [symmetric] BLK_BLKLIST_INC_VAL_def)
  qed (use Cons.prems in simp)
  ultimately show ?case by (simp add: same_outside_trans)
qed simp

lemma put_blocks_get:
  "length es \<le> 3837 \<Longrightarrow> j < length es \<Longrightarrow>
    BLK_BLKSTART (put_blocks i es m) (blk_entry (i + j)) = of_nat (fst (es ! j))
    \<and> BLK_BLKLENGTH (put_blocks i es m) (blk_entry (i + j)) = of_nat (snd (es ! j))"
proof (induction es arbitrary: i j m)
  case (Cons e es)
  show ?case
  proof (cases j)
    case 0
    let ?m = "put_block i e m"
    have so: "same_outside (region (blk_entry (Suc i)) (8 * length es)) ?m (put_blocks (Suc i) es ?m)"
      using Cons.prems(1) by (intro put_blocks_outside) simp
    have out: "\<not> region (blk_entry (Suc i)) (8 * length es) (blk_entry i + of_nat a)" if "a < 8" for a
    proof -
      have "blk_entry i + of_nat a - blk_entry (Suc i) = (of_nat a - of_nat 8 :: u32)"
        by (simp add: blk_entry_Suc [symmetric] BLK_BLKLIST_INC_VAL_def)
      moreover have "unat (of_nat a - of_nat 8 :: u32) = 2 ^ 32 + a - 8" using that by (intro unat_diff_wrap) simp_all
      ultimately have "unat (blk_entry i + of_nat a - blk_entry (Suc i)) = 2 ^ 32 + a - 8" by (simp only:)
      then show ?thesis using Cons.prems(1) by (simp add: region_def)
    qed
    have "peek32 (put_blocks (Suc i) es ?m) (blk_entry i) = peek32 ?m (blk_entry i)"
      by (rule peek32_same [OF so]) (use out in simp)
    moreover have "peek32 (put_blocks (Suc i) es ?m) (blk_entry i + 4) = peek32 ?m (blk_entry i + 4)"
    proof (rule peek32_same [OF so])
      fix a :: nat assume "a < 4"
      then show "\<not> region (blk_entry (Suc i)) (8 * length es) (blk_entry i + 4 + of_nat a)"
        using out [of "4 + a"] by (simp add: add.assoc)
    qed
    ultimately show ?thesis using 0 put_block_get [of i e m] by (simp add: BLK_BLKSTART_def BLK_BLKLENGTH_def)
  next
    case (Suc j')
    then show ?thesis using Cons.IH [of j' "Suc i"] Cons.prems by simp
  qed
qed simp

lemma put_blocks_stored: "length es \<le> 3837 \<Longrightarrow> blk_stored (put_blocks 0 es m) es"
  using put_blocks_get [of es _ 0 m] by (simp add: blk_stored_def)

section \<open>Reading the list\<close>

lemma parse_start:
  assumes "b = pre @ block_text e @ stop # r" "fst e < 2 ^ 32" "snd e < 2 ^ 32"
    and "digit_value 10 stop = None" "tolower_char stop \<noteq> ch CHR ''x''"
  defines "p1 \<equiv> length pre + (if fst e = 0 then 0 else length (dec (fst e)))"
  shows "\<exists>r1 s1. parse_num b (length pre) s = Some (r1, s1) \<and> s1\<lparr>errnum := ERR_NONE\<rparr> = s\<lparr>errnum := ERR_NONE\<rparr>
      \<and> (case r1 of Some x \<Rightarrow> x | None \<Rightarrow> (length pre, 0)) = (p1, of_nat (fst e))"
    and "rd b p1 = Some (ch CHR ''+'')"
    and "parse_num b (p1 + 1) s = Some (Some (length pre + length (block_text e), of_nat (snd e)), s)"
proof -
  obtain st n where e: "e = (st, n)" by (cases e)
  have b: "b = pre @ (if st = 0 then [] else dec st) @ ch CHR ''+'' # dec n @ stop # r" using assms(1) e by simp
  have plus: "digit_value 10 (ch CHR ''+'') = None" "tolower_char (ch CHR ''+'') \<noteq> ch CHR ''x''"
    by (simp_all add: digit_value_def grub_tolower_def tolower_char_def)
  show "\<exists>r1 s1. parse_num b (length pre) s = Some (r1, s1) \<and> s1\<lparr>errnum := ERR_NONE\<rparr> = s\<lparr>errnum := ERR_NONE\<rparr>
      \<and> (case r1 of Some x \<Rightarrow> x | None \<Rightarrow> (length pre, 0)) = (p1, of_nat (fst e))"
  proof (cases "st = 0")
    case True
    obtain c t where "dec n @ stop # r = c # t" "is_digit c" using dec_hd [of n] by auto
    then have "safe_parse_maxint (ch CHR ''+'' # dec n @ stop # r) 0 = Some (Inl ERR_NUMBER_PARSING)"
      by (simp add: safe_parse_maxint_def spm_loop.simps digit_value_def grub_tolower_def Let_def)
    then have "safe_parse_maxint b (length pre) = Some (Inl ERR_NUMBER_PARSING)"
      using safe_parse_maxint_shift [of pre "ch CHR ''+'' # dec n @ stop # r"] b True by simp
    then show ?thesis using True e by (simp add: parse_num_def fail_def p1_def)
  next
    case False
    then have "parse_num b (length pre) s = Some (Some (length pre + length (dec st), of_nat st), s)"
      using assms(2) e plus by (intro parse_num_dec [of _ pre _ "ch CHR ''+''" "dec n @ stop # r"]) (simp_all add: b)
    then show ?thesis using False e by (simp add: p1_def)
  qed
  show "rd b p1 = Some (ch CHR ''+'')"
    by (rule rd_here [of _ "pre @ (if st = 0 then [] else dec st)"]) (simp_all add: b p1_def e)
  have "parse_num b (p1 + 1) s = Some (Some (p1 + 1 + length (dec n), of_nat n), s)"
    by (rule parse_num_dec [of _ "pre @ (if st = 0 then [] else dec st) @ [ch CHR ''+'']" _ stop r])
      (use assms(3-5) e in \<open>simp_all add: b p1_def\<close>)
  then show "parse_num b (p1 + 1) s = Some (Some (length pre + length (block_text e), of_nat (snd e)), s)"
    by (simp add: p1_def e add.assoc)
qed

lemma scast_u8_eq: "(scast c :: u32) = scast d \<longleftrightarrow> c = (d :: u8)"
proof
  have u: "(ucast (scast x :: u32) :: u8) = x" for x :: u8 by (rule bit_word_eqI) (simp add: bit_simps)
  assume "(scast c :: u32) = scast d"
  then have "(ucast (scast c :: u32) :: u8) = ucast (scast d :: u32)" by simp
  then show "c = d" unfolding u .
qed simp

lemma isspace_char_iff: "isspace_char c \<longleftrightarrow> c = 32 \<or> c = 9 \<or> c = 13 \<or> c = 10"
  using scast_u8_eq [of c 32] scast_u8_eq [of c 9] scast_u8_eq [of c 13] scast_u8_eq [of c 10]
  by (simp add: isspace_char_def grub_isspace_def)

lemma word_ends_stops: "word_ends c \<Longrightarrow> digit_value 10 c = None \<and> tolower_char c \<noteq> ch CHR ''x'' \<and> c \<noteq> ch CHR '','' \<and> c \<noteq> ch CHR ''+''"
  by (auto simp: word_ends_def isspace_char_iff digit_value_def grub_tolower_def tolower_char_def)

definition entry_ok :: "nat \<times> nat \<Rightarrow> bool" where
  "entry_ok e \<longleftrightarrow> fst e < 2 ^ 32 \<and> 0 < snd e \<and> snd e < 2 ^ 32"

definition listed :: "nat \<Rightarrow> nat \<Rightarrow> blocks \<Rightarrow> ('d, 'h, 'z) gstate \<Rightarrow> ('d, 'h, 'z) gstate" where
  "listed nf i bl s = s\<lparr>errnum := ERR_NONE, fsys_type := nf, mem := put_blocks i bl (mem s),
     filemax := filemax s + of_nat (sum_len bl) * sector_size (buf_geom s)\<rparr>"

lemma blk_loop_entry:
  fixes s :: "('d, 'h, 'z) gstate"
  assumes b: "b = pre @ block_text e @ stop # r" and e: "entry_ok e" and i: "i \<le> 3837"
    and stop: "word_ends stop \<or> stop = ch CHR '',''"
  defines "p \<equiv> length pre + length (block_text e)"
  shows "blk_loop nf b (length pre) (blk_entry i) s =
    (if stop = ch CHR '','' then blk_loop nf b (p + 1) (blk_entry (Suc i)) (listed nf i [e] s)
     else Some (p, blk_entry (Suc i), listed nf i [e] s))"
proof -
  have d: "digit_value 10 stop = None" "tolower_char stop \<noteq> ch CHR ''x''"
    using stop word_ends_stops by auto
  have e1: "fst e < 2 ^ 32" "snd e < 2 ^ 32" using e by (simp_all add: entry_ok_def)
  have nz: "(of_nat (snd e) :: u32) \<noteq> 0"
  proof
    assume "(of_nat (snd e) :: u32) = 0"
    then have "unat (of_nat (snd e) :: u32) = 0" by simp
    then show False using unat_of_nat_small [of "snd e"] e by (simp add: entry_ok_def)
  qed
  define q where "q = length pre + (if fst e = 0 then 0 else length (dec (fst e)))"
  note ps = parse_start [OF b e1 d, folded q_def]
  obtain r1 s1 where p1: "parse_num b (length pre) s = Some (r1, s1)" "s1\<lparr>errnum := ERR_NONE\<rparr> = s\<lparr>errnum := ERR_NONE\<rparr>"
    "(case r1 of Some x \<Rightarrow> x | None \<Rightarrow> (length pre, 0)) = (q, of_nat (fst e))"
    using ps(1) by blast
  have p3: "parse_num b (q + 1) t = Some (Some (length pre + length (block_text e), of_nat (snd e)), t)" for t :: "('d, 'h, 'z) gstate"
    by (rule ps(3))
  have same: "mem s1 = mem s" "filemax s1 = filemax s" "buf_geom s1 = buf_geom s"
    using arg_cong [OF p1(2), of mem] arg_cong [OF p1(2), of filemax] arg_cong [OF p1(2), of buf_geom] by simp_all
  have r3: "rd b p = Some stop" unfolding p_def by (rule rd_here [of _ "pre @ block_text e"]) (use b in simp_all)
  let ?u = "s\<lparr>errnum := ERR_NONE\<rparr>"
  have l: "listed nf i [e] s = ?u\<lparr>fsys_type := nf, mem := poke (blk_entry i + 4) (bytes32 (of_nat (snd e))) (poke (blk_entry i) (bytes32 (of_nat (fst e))) (mem s)),
      filemax := filemax s + of_nat (snd e) * sector_size (buf_geom s)\<rparr>"
    by (simp add: listed_def put_block_def sum_len_def)
  note facts = blk_entry_in [OF i] p1 same ps(2) p3 nz r3
  show ?thesis
  proof (cases "stop = ch CHR '',''")
    case True
    then show ?thesis using facts by (subst blk_loop.simps) (simp add: Let_def p_def l blk_entry_Suc)
  next
    case False
    then have "word_ends stop" using stop by blast
    then show ?thesis using facts False by (subst blk_loop.simps) (simp add: Let_def p_def l blk_entry_Suc)
  qed
qed

lemma listed_Cons: "listed nf (Suc i) es (listed nf i [e] s) = listed nf i (e # es) s"
  by (simp add: listed_def sum_len_def algebra_simps)

lemma blk_loop_list:
  assumes "bl \<noteq> []" "\<forall>e \<in> set bl. entry_ok e" "i + length bl \<le> 3838" "word_ends stop \<or> stop = ch CHR '',''"
    and "b = pre @ blocks_text bl @ stop # r"
  shows "blk_loop nf b (length pre) (blk_entry i) s =
    (let p = length pre + length (blocks_text bl); addr = blk_entry (i + length bl)
     in if stop = ch CHR '','' then blk_loop nf b (p + 1) addr (listed nf i bl s) else Some (p, addr, listed nf i bl s))"
  using assms
proof (induction bl arbitrary: i pre s rule: blocks_text.induct)
  case (2 e)
  then show ?case using blk_loop_entry [of b pre e stop r i nf s] by (simp add: Let_def)
next
  case (3 e e' es)
  let ?pre = "pre @ block_text e @ [ch CHR '','']"
  have "blk_loop nf b (length pre) (blk_entry i) s
      = blk_loop nf b (length pre + length (block_text e) + 1) (blk_entry (Suc i)) (listed nf i [e] s)"
    using "3.prems" blk_loop_entry [of b pre e "ch CHR '',''" "blocks_text (e' # es) @ stop # r" i nf s] by simp
  also have "length pre + length (block_text e) + 1 = length ?pre" by simp
  also have "blk_loop nf b (length ?pre) (blk_entry (Suc i)) (listed nf i [e] s) =
    (let p = length ?pre + length (blocks_text (e' # es)); addr = blk_entry (Suc i + length (e' # es))
     in if stop = ch CHR '','' then blk_loop nf b (p + 1) addr (listed nf (Suc i) (e' # es) (listed nf i [e] s))
        else Some (p, addr, listed nf (Suc i) (e' # es) (listed nf i [e] s)))"
    by (rule "3.IH") (use "3.prems" in simp_all)
  finally show ?case unfolding listed_Cons by (simp add: Let_def ac_simps)
qed simp

text \<open>With the length of the file behind it.\<close>

lemma blk_loop_file:
  assumes bl: "bl \<noteq> []" "\<forall>e \<in> set bl. entry_ok e" "length bl \<le> 3837" and stop: "word_ends stop"
    and z: "\<And>n. z = Some n \<Longrightarrow> 0 < n \<and> n < 2 ^ 32 \<and> of_nat n \<le> filemax (listed nf 0 bl s)"
    and b: "b = pre @ blocks_text bl @ size_text z @ stop # r"
  shows "blk_loop nf b (length pre) BLK_BLKLIST_START s =
    Some (length pre + length (blocks_text bl @ size_text z), blk_entry (length bl),
      (listed nf 0 bl s)\<lparr>filemax := (case z of None \<Rightarrow> filemax (listed nf 0 bl s) | Some n \<Rightarrow> of_nat n)\<rparr>)"
proof -
  have start: "BLK_BLKLIST_START = blk_entry 0" by (simp add: blk_entry_def)
  show ?thesis
  proof (cases z)
    case None
    then show ?thesis using blk_loop_list [of bl 0 stop b pre r nf s] assms word_ends_stops [OF stop] by (simp add: start Let_def)
  next
    case (Some n)
    let ?s = "listed nf 0 bl s" and ?pre = "pre @ blocks_text bl @ [ch CHR '','']"
    let ?p = "length ?pre"
    have n: "0 < n" "n < 2 ^ 32" "of_nat n \<le> filemax ?s" using z [OF Some] by auto
    have "blk_loop nf b (length pre) (blk_entry 0) s = blk_loop nf b ?p (blk_entry (length bl)) ?s"
      using blk_loop_list [of bl 0 "ch CHR '',''" b pre "dec n @ stop # r" nf s] assms Some by (simp add: Let_def)
    also have "\<dots> = Some (?p + length (dec n), blk_entry (length bl), ?s\<lparr>filemax := of_nat n\<rparr>)"
    proof -
      have "parse_num b ?p ?s = Some (Some (?p + length (dec n), of_nat n), ?s)"
        by (rule parse_num_dec [of _ ?pre _ stop r]) (use b Some n word_ends_stops [OF stop] in simp_all)
      moreover have "rd b (?p + length (dec n)) = Some stop"
        by (rule rd_here [of _ "?pre @ dec n"]) (use b Some in simp_all)
      moreover have "(of_nat n :: u32) \<noteq> 0"
      proof
        assume "(of_nat n :: u32) = 0"
        then have "unat (of_nat n :: u32) = 0" by simp
        then show False using unat_of_nat_small [of n] n by simp
      qed
      moreover have "?s\<lparr>errnum := ERR_NONE\<rparr> = ?s" by (simp add: listed_def)
      ultimately show ?thesis
        using blk_entry_in [OF bl(3)] word_ends_stops [OF stop] stop n(3)
        by (subst blk_loop.simps) (simp add: Let_def)
    qed
    finally show ?thesis using Some by (simp add: start)
  qed
qed

section \<open>The contract of grub\_open on block lists\<close>

lemma same_device_trans: "same_device s t \<Longrightarrow> same_device t u \<Longrightarrow> same_device s u"
  by (simp add: same_device_def)

lemma put_blocks_io:
  assumes "length bl \<le> 3837" "io_area x"
  shows "put_blocks 0 bl m x = m x"
proof (rule same_outsideD [OF put_blocks_outside])
  show "\<not> region (blk_entry 0) (8 * length bl) x"
  proof
    assume "region (blk_entry 0) (8 * length bl) x"
    then have "region (blk_entry 0) (30708 - 12) x" by (rule region_mono) (use assms(1) in simp)
    moreover have "blk_entry 0 = FSYS_BUF + of_nat 12" by (simp add: blk_entry_def BLK_BLKLIST_START_def)
    ultimately have "region (FSYS_BUF + of_nat 12) (30708 - 12) x" by (simp only:)
    then have "region FSYS_BUF 30708 x" by (rule region_later) simp_all
    then have "region FSYS_BUF 0x8000 x" by (rule region_mono) simp
    then show False using fsys_not_io assms(2) by blast
  qed
qed (use assms in simp)

lemma blk_file_listed:
  fixes usable :: "('d, 'h, 'z) gstate \<Rightarrow> bool"
  assumes u: "usable s" and st: "\<And>s s'. usable s \<Longrightarrow> same_device s s' \<Longrightarrow> usable s'"
    and ok: "blocks_ok k psize bl" "bl \<noteq> []"
    and s': "same_device s s'" "mem s' = set_blk_cur 0 BLK_BLKLIST_START 0 (put_blocks 0 bl m)"
  shows "blk_file usable k psize bl s'"
proof -
  have l: "length bl \<le> 3837" using ok(1) by (simp add: blocks_ok_def)
  have "blk_stored (mem s') bl" unfolding s'(2)
    by (rule blk_stored_cur [OF put_blocks_stored [OF l] set_blk_cur_outside l])
  moreover have "blk_at k (mem s') bl 0 0"
    using ok blocks_okD(1) [OF ok(1), of 0] by (simp add: blk_at_def s'(2) blk_entry_def sum_len_def)
  then have "blk_cursor k (mem s') bl" unfolding blk_cursor_def by blast
  ultimately show ?thesis using st [OF u s'(1)] ok(1) by (simp add: blk_file_def)
qed

lemma blocks_text_nonempty: "bl \<noteq> [] \<Longrightarrow> blocks_text bl \<noteq> []"
  by (cases bl rule: blocks_text.cases) auto

text \<open>The first character of a block list is a digit or a plus sign, not a slash.\<close>

lemma blocks_text_hd: "bl \<noteq> [] \<Longrightarrow> \<exists>c t. blocks_text bl @ r = c # t \<and> c \<noteq> ch CHR ''/''"
proof -
  have e: "\<exists>c t. block_text e = c # t \<and> c \<noteq> ch CHR ''/''" for e
  proof (cases "fst e = 0")
    case True
    then show ?thesis by (cases e) auto
  next
    case False
    obtain c t where "dec (fst e) = c # t" "is_digit c" using dec_hd by blast
    then show ?thesis using False by (cases e) (auto simp: is_digit_def)
  qed
  assume "bl \<noteq> []"
  then obtain x xs where "bl = x # xs" by (cases bl) auto
  then show ?thesis using e [of x] by (cases xs) auto
qed

lemma open_block_list:
  fixes s :: "('d, 'h, 'z) gstate"
  assumes opn: "setup_part v tab b0 p0 (s0\<lparr>compressed_file := False, filepos := 0\<rparr>) = Some (Some (length pre), b, s)"
    and buf: "b = pre @ blocks_text bl @ size_text z @ stop # r" "word_ends stop" "str_of b (length pre) = Some nm"
    and ok: "blocks_ok k (unat psize) bl" "bl \<noteq> []" "edd_usable w drive g disk N k spt start psize s"
    and z: "\<And>n. z = Some n \<Longrightarrow> 0 < n \<and> n \<le> sum_len bl * 2 ^ k"
    and gz: "\<And>t. gunzip_test_header gz t = Some (f t)"
  shows "\<exists>t. grub_open v tab gz b0 p0 s0 = Some (fst (f t), b, snd (f t))
    \<and> blk_file (edd_usable w drive g disk N k spt start psize) k (unat psize) bl t
    \<and> block_file t \<and> errnum t = ERR_NONE \<and> fsmax t = MAXINT \<and> filepos t = filepos s
    \<and> compressed_file t = compressed_file s \<and> mem_upper t = mem_upper s
    \<and> unat (filemax t) = (case z of None \<Rightarrow> sum_len bl * 2 ^ k | Some n \<Rightarrow> n)"
proof -
  have l: "length bl \<le> 3837" and big: "sum_len bl * 2 ^ k < 2 ^ 31" using ok(1) by (simp_all add: blocks_ok_def)
  have e: "\<forall>e \<in> set bl. entry_ok e"
  proof
    fix x assume "x \<in> set bl"
    then have "0 < snd x \<and> fst x + snd x \<le> unat psize" "unat psize \<le> 2 ^ 31" using ok(1) by (auto simp: blocks_ok_def)
    then show "entry_ok x" by (auto simp: entry_ok_def)
  qed
  let ?s = "s\<lparr>block_file := False, fsmax := MAXINT, filemax := 0\<rparr>"
  have ss: "sector_size (buf_geom s) = 2 ^ k" using edd_part.sectors_of [OF ok(3)] by simp
  have w: "filemax (listed (length tab) 0 bl ?s) = of_nat (sum_len bl * 2 ^ k)" by (simp add: listed_def ss)
  have ub: "unat (of_nat (sum_len bl * 2 ^ k) :: u32) = sum_len bl * 2 ^ k" using big by (intro unat_of_nat_small) simp
  have zz: "0 < n \<and> n < 2 ^ 32 \<and> of_nat n \<le> filemax (listed (length tab) 0 bl ?s)" if "z = Some n" for n
  proof -
    have n: "0 < n" "n \<le> sum_len bl * 2 ^ k" using z [OF that] by auto
    then have n32: "n < 2 ^ 32" using big by simp
    then show ?thesis using n unfolding w word_le_nat_alt ub unat_of_nat_small [OF n32] by simp
  qed
  let ?t = "(listed (length tab) 0 bl ?s)\<lparr>filemax := (case z of None \<Rightarrow> filemax (listed (length tab) 0 bl ?s) | Some n \<Rightarrow> of_nat n)\<rparr>"
  let ?u = "?t\<lparr>block_file := True, mem := set_blk_cur 0 BLK_BLKLIST_START 0 (mem ?t)\<rparr>"
  have loop: "blk_loop (length tab) b (length pre) BLK_BLKLIST_START ?s
      = Some (length pre + length (blocks_text bl @ size_text z), blk_entry (length bl), ?t)"
    by (rule blk_loop_file [OF ok(2) e l buf(2) zz buf(1)])
  obtain c t where c: "blocks_text bl @ size_text z @ stop # r = c # t" "c \<noteq> ch CHR ''/''"
    using blocks_text_hd [OF ok(2)] by blast
  have rc: "rd b (length pre) = Some c" by (rule rd_here [of _ pre _ t]) (use buf(1) c in simp_all)
  have ne: "length pre + length (blocks_text bl @ size_text z) \<noteq> length pre" using blocks_text_nonempty [OF ok(2)] by simp
  have "grub_open v tab gz b0 p0 s0 = Some (fst (f ?u), b, snd (f ?u))"
    using opn buf(3) rc c(2) loop blk_entry_in [OF l] ne gz [of ?u]
    by (simp add: grub_open_def Let_def listed_def case_prod_unfold)
  moreover have "same_device s ?u"
  proof -
    have "mem ?u x = mem s x" if "io_area x" for x
    proof -
      have "\<not> region FSYS_BUF 12 x"
      proof
        assume "region FSYS_BUF 12 x"
        then have "region FSYS_BUF 0x8000 x" by (rule region_mono) simp
        then show False using fsys_not_io that by blast
      qed
      then have "mem ?u x = put_blocks 0 bl (mem s) x"
        using same_outsideD [OF set_blk_cur_outside] by (simp add: listed_def)
      then show ?thesis using put_blocks_io [OF l that] by simp
    qed
    then show ?thesis by (simp add: same_device_def listed_def)
  qed
  then have "blk_file (edd_usable w drive g disk N k spt start psize) k (unat psize) bl ?u"
    by (intro blk_file_listed [where usable = "edd_usable w drive g disk N k spt start psize", OF ok(3) edd_part.stable ok(1,2)])
      (simp_all add: listed_def)
  moreover have "unat (filemax ?u) = (case z of None \<Rightarrow> sum_len bl * 2 ^ k | Some n \<Rightarrow> n)"
  proof (cases z)
    case None
    then show ?thesis using w ub by simp
  next
    case (Some n)
    then have "n < 2 ^ 32" using zz by blast
    then show ?thesis using Some unat_of_nat_small [of n] by simp
  qed
  ultimately show ?thesis by (intro exI [of _ ?u]) (simp add: listed_def)
qed

text \<open>
  C18. When the device of a name has been opened, which left \<open>filepos\<close> at 0 where \<open>grub_open\<close> had set it, and a block
  list follows it, with a file length or without, \<open>grub_open\<close> opens the block file of exactly these blocks: what
  \<open>gunzip_test_header\<close> is asked about is a state in which the file is open at position 0 with the right length, and its
  answer is the result.
\<close>

theorem grub_open_block_list:
  fixes s :: "('d, 'h, 'z) gstate"
  assumes opn: "setup_part v tab b0 p0 (s0\<lparr>compressed_file := False, filepos := 0\<rparr>) = Some (Some (length pre), b, s)" "filepos s = 0"
    and buf: "b = pre @ blocks_text bl @ size_text z @ stop # r" "word_ends stop" "str_of b (length pre) = Some nm"
    and ok: "blocks_ok k (unat psize) bl" "bl \<noteq> []" "edd_usable w drive g disk N k spt start psize s"
    and z: "\<And>n. z = Some n \<Longrightarrow> 0 < n \<and> n \<le> sum_len bl * 2 ^ k"
    and gz: "\<And>t. gunzip_test_header gz t = Some (f t)"
  shows "\<exists>t. grub_open v tab gz b0 p0 s0 = Some (fst (f t), b, snd (f t))
    \<and> blk_file (edd_usable w drive g disk N k spt start psize) k (unat psize) bl t
    \<and> block_file t \<and> errnum t = ERR_NONE \<and> fsmax t = MAXINT \<and> filepos t = 0
    \<and> compressed_file t = compressed_file s \<and> mem_upper t = mem_upper s
    \<and> unat (filemax t) = (case z of None \<Rightarrow> sum_len bl * 2 ^ k | Some n \<Rightarrow> n)"
  using open_block_list [OF opn(1) buf ok z gz] unfolding opn(2) .

section \<open>The contract of grub\_read on block files\<close>

text \<open>
  C17. On an open block file \<open>grub_read\<close> returns the number of bytes asked for, or the number left, stores
  at \<open>B\<close> these bytes of the concatenation of the blocks, advances \<open>filepos\<close> by them and leaves the file open
  in the same sense, wherever the cursor of the previous read was and however the blocks are scattered
  over the partition.
\<close>

theorem grub_read_block_file:
  fixes s :: "('d, 'h, 'z) gstate"
  assumes o: "blk_file (edd_usable (v\<lparr>disk_read_func := disk_read_hook v\<rparr>) drive g disk N k spt start psize) k (unat psize) bl s"
    and f: "block_file s" "\<not> compressed_file s" "errnum s = ERR_NONE" "fsmax s = MAXINT"
    and pos: "filepos s \<le> filemax s" "unat (filemax s) \<le> sum_len bl * 2 ^ k"
    and n: "n = min (unat cnt) (unat (filemax s) - unat (filepos s))"
    and d: "0 < n \<Longrightarrow> dest_ok (mem_upper s) B n" "fs_clear B n"
  shows "\<exists>s'. grub_read v tab gz B cnt s = Some (of_nat n, s') \<and> filepos s' = filepos s + of_nat n
    \<and> blk_file (edd_usable (v\<lparr>disk_read_func := disk_read_hook v\<rparr>) drive g disk N k spt start psize) k (unat psize) bl s'
    \<and> (\<forall>i < n. mem s' (B + of_nat i) = file_byte (part_bytes disk k start) k bl (unat (filepos s) + i))"
proof -
  have le: "unat (filepos s) \<le> unat (filemax s)" using pos(1) by (simp add: word_le_nat_alt)
  have u: "unat (filemax s - filepos s) = unat (filemax s) - unat (filepos s)" using pos(1) by (rule unat_sub)
  have w: "(if cnt > filemax s - filepos s then filemax s - filepos s else cnt) = of_nat n"
  proof (cases "cnt > filemax s - filepos s")
    case True
    then have "n = unat (filemax s - filepos s)" using n u by (simp add: word_less_nat_alt)
    then show ?thesis using True by simp
  next
    case False
    then have "n = unat cnt" using n u by (simp add: word_less_nat_alt)
    then show ?thesis using False by simp
  qed
  have fit: "unat (filepos s) + n \<le> sum_len bl * 2 ^ k" using le pos(2) n by linarith
  have "grub_read v tab gz B cnt s = blk_read (devread (v\<lparr>disk_read_func := disk_read_hook v\<rparr>)) B (of_nat n) 0 s"
  proof -
    have "\<not> filepos s > filemax s" using pos(1) by simp
    moreover have "\<not> filepos s + of_nat n > fsmax s" 
    proof -
      have "unat (0xFFFFFFFF :: u32) = 4294967295" by simp
      then show ?thesis using unat_u32 [of "filepos s + of_nat n"] unfolding f(4) MAXINT_def word_less_nat_alt by linarith
    qed
    ultimately show ?thesis using f w by (simp add: grub_read_def Let_def)
  qed
  then show ?thesis
    using edd_part.blk_read_correct [OF o f(3) fit d, of 0] unfolding Let_def by auto
qed

section \<open>A block file on the demonstration disk\<close>

lemma fs_clear_low:
  assumes "unat B + n \<le> 0x68000"
  shows "fs_clear B n"
  unfolding fs_clear_def
proof (intro allI impI notI)
  fix x assume r: "region FSYS_BUF 0x8000 x" "region B n x"
  have "unat (B + of_nat (unat (x - B))) = unat B + unat (x - B)"
    using assms r(2) by (intro unat_add_of_nat) (simp add: region_def)
  moreover have "unat (FSYS_BUF + of_nat (unat (x - FSYS_BUF))) = 0x68000 + unat (x - FSYS_BUF)"
    using r(1) by (subst unat_add_of_nat) (simp_all add: region_def FSYS_BUF_def)
  ultimately show False using assms r(2) by (simp add: region_def)
qed

definition demo_gunzip :: "(unit, unit, unit) gunzip" where
  "demo_gunzip = \<lparr>gunzip_test_header = (\<lambda>t. Some (True, t)), gunzip_read = (\<lambda>buf len t. None)\<rparr>"

definition demo_file_state :: "(unit, unit) globals" where
  "demo_file_state = (demo_disk_state 1)\<lparr>saved_drive := 0x80, saved_partition := 0xFFFF, current_partition := 0xFFFF\<rparr>"

abbreviation demo_bios :: "(unit, unit) disk_env" where
  "demo_bios \<equiv> image_bios of_nat (demo_geometry 1)"

lemma demo_usable: "edd_usable demo_bios 0x80 (demo_geometry 1) of_nat 1260 9 63 63 189 demo_file_state"
proof -
  have "buffer_ok 0x80 (demo_geometry 1) of_nat 1260 9 63 demo_file_state"
    using demo_buffer [of 1 of_nat 1260 9 63] by (simp add: buffer_ok_def demo_file_state_def)
  moreover have "on_partition 0x80 63 189 1260 63 demo_file_state"
    by (simp add: on_partition_def demo_file_state_def demo_disk_state_def globals_start_def) linarith
  ultimately show ?thesis using demo_edd by (simp add: edd_usable_def)
qed

lemma demo_setup:
  "setup_part demo_bios [] (cs ''+2,5+1,1025'' @ [0]) 0 (demo_file_state\<lparr>compressed_file := False, filepos := 0\<rparr>)
     = Some (Some (length ([] :: cbuf)), cs ''+2,5+1,1025'' @ [0], demo_file_state\<lparr>compressed_file := False, filepos := 0, relative_path := True\<rparr>)"
  by (simp add: setup_part_def demo_file_state_def demo_disk_state_def globals_start_def sane_partition_def Let_def)

lemma demo_text: "cs ''+2,5+1,1025'' @ [0] = [] @ blocks_text [(0, 2), (5, 1)] @ size_text (Some 1025) @ 0 # []"
  by (simp add: dec_def digit_chars_def digits_of.simps cta_char_def)

lemma demo_blocks: "blocks_ok 9 (unat (189 :: u32)) [(0, 2), (5, 1)]"
  by (simp add: blocks_ok_def sum_len_def)

lemma demo_str: "str_of (cs ''+2,5+1,1025'' @ [0]) (length ([] :: cbuf)) = Some (cs ''+2,5+1,1025'')"
  using str_of_literal [of "cs ''+2,5+1,1025''" "[]"] by simp

lemma demo_usable2:
  "edd_usable demo_bios 0x80 (demo_geometry 1) of_nat 1260 9 63 63 189 (demo_file_state\<lparr>compressed_file := False, filepos := 0, relative_path := True\<rparr>)"
  by (rule edd_part.stable [OF demo_usable]) (simp add: same_device_def)

theorem grub_open_block_list_witness:
  "\<exists>t. grub_open demo_bios [] demo_gunzip (cs ''+2,5+1,1025'' @ [0]) 0 demo_file_state = Some (True, cs ''+2,5+1,1025'' @ [0], t)
    \<and> block_file t \<and> unat (filemax t) = 1025 \<and> blk_stored (mem t) [(0, 2), (5, 1)]"
proof -
  have z: "\<And>n. Some (1025 :: nat) = Some n \<Longrightarrow> 0 < n \<and> n \<le> sum_len [(0, 2), (5, 1)] * 2 ^ 9" by (simp add: sum_len_def)
  have gz: "\<And>t. gunzip_test_header demo_gunzip t = Some ((\<lambda>t. (True, t)) t)" by (simp add: demo_gunzip_def)
  have we: "word_ends (0 :: u8)" by (simp add: word_ends_def)
  have p: "filepos (demo_file_state\<lparr>compressed_file := False, filepos := 0, relative_path := True\<rparr>) = 0" by simp
  show ?thesis
    using grub_open_block_list [OF demo_setup p demo_text we demo_str demo_blocks _ demo_usable2 z gz]
    by (auto simp: blk_file_def)
qed

theorem grub_read_block_file_witness:
  "\<exists>t s'. grub_open demo_bios [] demo_gunzip (cs ''+2,5+1,1025'' @ [0]) 0 demo_file_state = Some (True, cs ''+2,5+1,1025'' @ [0], t)
    \<and> grub_read demo_bios [] demo_gunzip 0x8000 5000 t = Some (1025, s') \<and> mem s' 0x8000 = of_nat (63 * 512) \<and> filepos s' = 1025
    \<and> mem s' (0x8000 + 1024) = of_nat (68 * 512)"
proof -
  have z: "\<And>n. Some (1025 :: nat) = Some n \<Longrightarrow> 0 < n \<and> n \<le> sum_len [(0, 2), (5, 1)] * 2 ^ 9" by (simp add: sum_len_def)
  have gz: "\<And>t. gunzip_test_header demo_gunzip t = Some ((\<lambda>t. (True, t)) t)" by (simp add: demo_gunzip_def)
  have we: "word_ends (0 :: u8)" by (simp add: word_ends_def)
  have dv: "demo_bios\<lparr>disk_read_func := disk_read_hook demo_bios\<rparr> = demo_bios" by (simp add: image_bios_def)
  let ?bl = "[(0, 2), (5, 1)] :: blocks" and ?U = "edd_usable demo_bios 0x80 (demo_geometry 1) of_nat 1260 9 63 63 189"
  obtain t where t: "grub_open demo_bios [] demo_gunzip (cs ''+2,5+1,1025'' @ [0]) 0 demo_file_state = Some (True, cs ''+2,5+1,1025'' @ [0], t)"
    "blk_file ?U 9 (unat (189 :: u32)) ?bl t" "block_file t" "errnum t = ERR_NONE" "fsmax t = MAXINT" "filepos t = 0"
    "\<not> compressed_file t" "unat (filemax t) = 1025" "mem_upper t = 0x10000"
    using open_block_list [OF demo_setup demo_text we demo_str demo_blocks _ demo_usable2 z gz]
    by (auto simp: demo_file_state_def demo_disk_state_def)
  have pos: "filepos t \<le> filemax t" "unat (filemax t) \<le> sum_len ?bl * 2 ^ 9" using t(6,8) by (simp_all add: sum_len_def)
  have n: "1025 = min (unat (5000 :: u32)) (unat (filemax t) - unat (filepos t))" using t(6,8) by simp
  have d: "dest_ok (mem_upper t) 0x8000 1025" unfolding t(9) by (rule dest_ok_low) simp_all
  have fs: "fs_clear 0x8000 1025" by (rule fs_clear_low) simp
  obtain s' where s': "grub_read demo_bios [] demo_gunzip 0x8000 5000 t = Some (of_nat 1025, s')" "filepos s' = filepos t + of_nat 1025"
    "\<forall>i < 1025. mem s' (0x8000 + of_nat i) = file_byte (part_bytes of_nat 9 63) 9 ?bl (unat (filepos t) + i)"
    using grub_read_block_file [of demo_bios, unfolded dv, OF t(2,3,7,4,5) pos n d fs, of "[]" demo_gunzip] by blast
  have fb: "file_byte (part_bytes of_nat 9 63) 9 ?bl 0 = of_nat (63 * 512)"
    "file_byte (part_bytes of_nat 9 63) 9 ?bl 1024 = of_nat (68 * 512)"
    by (simp_all add: file_byte_def file_sectors_def part_bytes_def upt_rec)
  show ?thesis using t(1,6) s' s'(3) [rule_format, of 0] s'(3) [rule_format, of 1024] fb by auto
qed

end
