(* ===== verification/DiskSafe.thy ===== *)
theory DiskSafe
imports DiskRead
begin

text \<open>
  What the disk layer guarantees whatever the BIOS does: the geometry \<open>get_diskinfo\<close> accepts never makes
  \<open>biosdisk\<close> divide by zero, and \<open>rawread\<close> returns on every request, with an error code that says why when it
  fails.
\<close>

section \<open>Geometry\<close>

definition countable_geometry :: "geometry \<Rightarrow> bool" where
  "countable_geometry g \<longleftrightarrow> sectors g \<noteq> 0 \<and> heads g \<noteq> 0"

lemma safe_geometry_counts: "countable_geometry (safe_geometry drive g)"
  by (simp add: countable_geometry_def safe_geometry_def Let_def)

lemma safe_geometry_size [simp]: "sector_size (safe_geometry drive g) = sector_size g"
  by (simp add: safe_geometry_def Let_def)

lemma merge_geometry_size [simp]: "sector_size (merge_geometry fl m g) = (if drp_bytes m \<noteq> 0 then drp_bytes m else SECTOR_SIZE)"
  by (simp add: merge_geometry_def Let_def)

lemma probe_geometry_size: "probe_geometry v drive tot g s = (g', s') \<Longrightarrow> sector_size g' = sector_size g"
  by (auto simp: probe_geometry_def probed_geometry_def floppy_geometry_def Let_def split: prod.splits if_splits)

lemma probe_geometry_ex:
  assumes "sector_size g = n"
  shows "\<exists>g'. (\<exists>s'. probe_geometry v drive tot g s = (g', s')) \<and> sector_size g' = n"
  using probe_geometry_size [of v drive tot g s] assms by (metis surj_pair)

lemma probe_geometry_counts: "probe_geometry v drive tot g s = (g', s') \<Longrightarrow> countable_geometry g'"
  by (auto simp: probe_geometry_def safe_geometry_counts Let_def split: prod.splits if_splits)

lemma bios_geometry_counts:
  assumes "bios_geometry v drive g s = (0, g', s')" "sector_size g' = SECTOR_SIZE"
  shows "countable_geometry g'"
  using assms by (auto simp: bios_geometry_def Let_def dest: probe_geometry_counts split: prod.splits if_splits)

lemma get_diskinfo_counts:
  assumes "get_diskinfo v drive g s = Some (0, g', s')" "sector_size g' = SECTOR_SIZE"
  shows "countable_geometry g'"
proof -
  consider n where "g' = mem_geometry n" | "g' = cd_geometry" | t where "bios_geometry v drive g t = (0, g', s')"
    using assms(1) by (auto simp: get_diskinfo_def Let_def split: bind_splits prod.splits if_splits option.splits)
  then show ?thesis
  proof cases
    case (3 t)
    then show ?thesis using bios_geometry_counts assms(2) by blast
  qed (simp_all add: countable_geometry_def mem_geometry_def cd_geometry_def)
qed

section \<open>\<open>biosdisk\<close> returns\<close>

text \<open>Only memory, hardware and \<open>errnum\<close> differ.\<close>

definition io_only :: "('d, 'h, 'z) gstate \<Rightarrow> ('d, 'h, 'z) gstate \<Rightarrow> bool" where
  "io_only s s' \<longleftrightarrow> (\<exists>m e d. s' = s\<lparr>mem := m, errnum := e, dev := d\<rparr>)"

named_theorems io \<open>calls that change memory, hardware and errnum only\<close>

lemma io_onlyI: "s' = s\<lparr>mem := m, errnum := e, dev := d\<rparr> \<Longrightarrow> io_only s s'"
  unfolding io_only_def by blast

lemma io_only_refl [io]: "io_only s s"
  by (rule io_onlyI [where m = "mem s" and e = "errnum s" and d = "dev s"]) simp

lemma io_only_trans:
  assumes "io_only s t" "io_only t u"
  shows "io_only s u"
proof -
  obtain m e d m' e' d' where "t = s\<lparr>mem := m, errnum := e, dev := d\<rparr>" "u = t\<lparr>mem := m', errnum := e', dev := d'\<rparr>"
    using assms unfolding io_only_def by blast
  then have "u = s\<lparr>mem := m', errnum := e', dev := d'\<rparr>" by simp
  then show ?thesis by (rule io_onlyI)
qed

lemma io_only_mem_dev [io]: "io_only s (s\<lparr>mem := m, dev := d\<rparr>)"
  by (rule io_onlyI [where m = m and e = "errnum s" and d = d]) simp

lemma io_only_errnum [io]: "io_only s (s\<lparr>errnum := e\<rparr>)"
  by (rule io_onlyI [where m = "mem s" and e = e and d = "dev s"]) simp

lemma io_only_errnum_mem [io]: "io_only s (s\<lparr>errnum := e, mem := m\<rparr>)"
  by (rule io_onlyI [where m = m and e = e and d = "dev s"]) simp

lemma io_only_gmemmove [io]: "io_only s (gmemmove to from n s)"
  by (simp add: gmemmove_def io split: prod.splits)

lemma gmemmove_errnum: "errnum (gmemmove to from n s) = ERR_NONE \<or> errnum (gmemmove to from n s) = ERR_WONT_FIT"
  by (auto simp: gmemmove_def grub_memmove_def memcheck_def Let_def)

lemma mem_disk_io: "mem_disk v wflag drive sector nsec segment s = (err, s') \<Longrightarrow> io_only s s'"
  by (auto simp: mem_disk_def Let_def io split: if_splits)

lemma chs_disk_returns:
  assumes "countable_geometry g"
  shows "\<exists>err s'. chs_disk v wflag drive g sector nsec segment s = Some (err, s') \<and> io_only s s'"
  using assms by (auto simp: chs_disk_def countable_geometry_def Let_def io split: prod.splits)

lemma biosdisk_returns:
  assumes "countable_geometry g"
  shows "\<exists>err s'. biosdisk v wflag drive g sector nsec segment s = Some (err, s') \<and> io_only s s'"
proof -
  have chs: "\<exists>err s'. chs_disk v wflag drive g sector nsec segment (s\<lparr>mem := m, dev := d\<rparr>) = Some (err, s') \<and> io_only s s'" for m d
  proof -
    obtain err s' where c: "chs_disk v wflag drive g sector nsec segment (s\<lparr>mem := m, dev := d\<rparr>) = Some (err, s')"
        "io_only (s\<lparr>mem := m, dev := d\<rparr>) s'"
      using chs_disk_returns [OF assms, of v wflag drive sector nsec segment "s\<lparr>mem := m, dev := d\<rparr>"] by blast
    then show ?thesis using io_only_trans [OF io_only_mem_dev c(2)] by blast
  qed
  have md: "io_only s (snd (mem_disk v wflag drive sector nsec segment s))"
    by (rule mem_disk_io [of v wflag drive sector nsec segment s "fst (mem_disk v wflag drive sector nsec segment s)"]) simp
  obtain e s' where "mem_disk v wflag drive sector nsec segment s = (e, s')" by force
  then show ?thesis
    using md chs chs_disk_returns [OF assms, of v wflag drive sector nsec segment s]
    by (auto simp: biosdisk_def Let_def io split: prod.splits)
qed

text \<open>
  C16. Whatever the BIOS answers, when \<open>get_diskinfo\<close> reports a drive with 512-byte sectors, no request to
  \<open>biosdisk\<close> with its geometry divides by zero: \<open>biosdisk\<close> always returns.
\<close>

theorem get_diskinfo_usable:
  assumes "get_diskinfo v drive g s = Some (0, g', s')" "sector_size g' = SECTOR_SIZE"
  shows "\<exists>err t'. biosdisk w wflag drive' g' sector nsec segment t = Some (err, t')"
  using biosdisk_returns [OF get_diskinfo_counts [OF assms]] by blast

section \<open>\<open>rawread\<close> returns\<close>

text \<open>The buffered drive has sectors of \<open>2 ^ k\<close> bytes and counts.\<close>

definition usable_geometry :: "geometry \<Rightarrow> nat \<Rightarrow> bool" where
  "usable_geometry g k \<longleftrightarrow> countable_geometry g \<and> sector_size g = 2 ^ k \<and> 9 \<le> k \<and> k \<le> 11 \<and> unat (sectors g) \<le> 63"

lemma usable_track:
  assumes "usable_geometry g k"
  shows "log2_tmp (sector_size g) = k" "0 < unat (sectors_per_vtrack g)" "unat (sectors_per_vtrack g) * 2 ^ k \<le> 0x7e00"
    "unat (sectors_per_vtrack g) \<le> 63"
proof -
  have k: "k \<in> {9, 10, 11}" using assms by (auto simp: usable_geometry_def)
  show l: "log2_tmp (sector_size g) = k" using assms log2_tmp_pow [of k] by (simp add: usable_geometry_def)
  have n: "unat (sectors g) \<le> 63" "0 < unat (sectors g)"
    using assms by (simp_all add: usable_geometry_def countable_geometry_def unat_gt_0)
  have pk: "(2::nat) ^ k \<le> 2048" using k by auto
  have "unat (push_bit k (sectors g)) = unat (sectors g) * 2 ^ k"
  proof -
    have "unat (sectors g) * 2 ^ k \<le> 63 * 2048" using mult_le_mono [OF n(1) pk] .
    then have "unat (of_nat (unat (sectors g) * 2 ^ k) :: u32) = unat (sectors g) * 2 ^ k" by (intro unat_of_nat_small) simp
    then show ?thesis using push_bit_of_nat [of k "unat (sectors g)"] by simp
  qed
  then have "sectors_per_vtrack g = (if 0x7e00 < unat (sectors g) * 2 ^ k then drop_bit k 0x7e00 else sectors g)"
    by (simp add: sectors_per_vtrack_def l BUFFERLEN_def word_less_nat_alt)
  moreover have "unat (drop_bit k 0x7e00 :: u32) * 2 ^ k \<le> 0x7e00" "0 < unat (drop_bit k 0x7e00 :: u32)" "unat (drop_bit k 0x7e00 :: u32) \<le> 63"
    using k by (auto simp: unat_drop_bit_eq drop_bit_eq_div)
  ultimately show "0 < unat (sectors_per_vtrack g)" "unat (sectors_per_vtrack g) * 2 ^ k \<le> 0x7e00" "unat (sectors_per_vtrack g) \<le> 63"
    using n by (simp_all split: if_splits)
qed


text \<open>What one turn leaves of the loop variables and of the state.\<close>

definition same_drive :: "('d, 'h, 'z) gstate \<Rightarrow> ('d, 'h, 'z) gstate \<Rightarrow> bool" where
  "same_drive s s' \<longleftrightarrow> buf_drive s' = buf_drive s \<and> buf_geom s' = buf_geom s
     \<and> rawread_ignore_memmove_overflow s' = rawread_ignore_memmove_overflow s"

lemma same_drive_io: "io_only s s' \<Longrightarrow> same_drive s s'"
  by (auto simp: io_only_def same_drive_def)

lemma same_drive_trans: "same_drive s t \<Longrightarrow> same_drive t u \<Longrightarrow> same_drive s u"
  by (simp add: same_drive_def)

lemma load_track_returns:
  assumes "usable_geometry (buf_geom s) k"
  shows "\<exists>ok base s'. load_track v drive sector slen s = Some (ok, base, s') \<and> same_drive s s'
    \<and> (\<not> ok \<longrightarrow> (errnum s' = ERR_GEOM \<or> errnum s' = ERR_READ) \<and> buf_track s' = -1)"
proof -
  let ?g = "buf_geom s"
  have c: "countable_geometry ?g" using assms by (simp add: usable_geometry_def)
  have spt: "sectors_per_vtrack ?g \<noteq> 0" using usable_track(2) [OF assms] by auto
  have b: "\<exists>err s'. biosdisk v False drive ?g a n BUFFERSEG (s\<lparr>buf_track := t\<rparr>) = Some (err, s') \<and> same_drive s s'" for a n t
  proof -
    obtain err s' where r: "biosdisk v False drive ?g a n BUFFERSEG (s\<lparr>buf_track := t\<rparr>) = Some (err, s')" "io_only (s\<lparr>buf_track := t\<rparr>) s'"
      using biosdisk_returns [OF c] by blast
    have "same_drive s (s\<lparr>buf_track := t\<rparr>)" by (simp add: same_drive_def)
    then show ?thesis using r same_drive_trans same_drive_io by blast
  qed
  define track where "track = sector - sector mod sectors_per_vtrack ?g"
  define num where "num = sectors_per_vtrack ?g - sector mod sectors_per_vtrack ?g"
  define part where "part = (slen > num)"
  obtain err s' where r: "biosdisk v False drive ?g (if part then sector else track) (if part then num else sectors_per_vtrack ?g) BUFFERSEG
      (s\<lparr>buf_track := (if part then -1 else track)\<rparr>) = Some (err, s')" "same_drive s s'"
    using b by blast
  have "same_drive s' (s'\<lparr>buf_track := -1, errnum := e\<rparr>)" for e by (simp add: same_drive_def)
  then have sd: "same_drive s (s'\<lparr>buf_track := -1, errnum := e\<rparr>)" for e using same_drive_trans [OF r(2)] by blast
  have "same_drive s s" by (simp add: same_drive_def)
  then show ?thesis
    using r sd spt unfolding load_track_def Let_def track_def [symmetric] num_def [symmetric]
    by (cases "track = buf_track s"; cases part) (auto simp: sd part_def)
qed

lemma rawread_turn_returns:
  assumes u: "usable_geometry (buf_geom s) k" and d: "buf_drive s = drive" and off: "unat off < 2 ^ k" and len: "len \<noteq> 0"
  shows "\<exists>r s'. rawread_turn v drive sector off len buf s = Some (r, s') \<and> same_drive s s'
    \<and> (case r of None \<Rightarrow> errnum s' \<in> {ERR_GEOM, ERR_READ, ERR_WONT_FIT} | Some (sec', off', len', buf') \<Rightarrow> off' = 0 \<and> len' < len \<and> errnum s' = ERR_NONE)"
proof -
  let ?g = "buf_geom s"
  let ?spt = "sectors_per_vtrack ?g"
  have ss: "sector_size ?g = 2 ^ k" "k \<le> 11" "9 \<le> k" using u by (simp_all add: usable_geometry_def)
  have ssn: "sector_size ?g \<noteq> 0" using ss by (auto simp: exp_eq_zero_iff)
  note tr = usable_track [OF u]
  have sel: "select_drive v drive s = Some (True, s)" using d by (simp add: select_drive_def)
  obtain ok base s1 where l: "load_track v drive sector (drop_bit k (off + len + 2 ^ k - 1)) s = Some (ok, base, s1)" "same_drive s s1"
    "\<not> ok \<longrightarrow> errnum s1 = ERR_GEOM \<or> errnum s1 = ERR_READ"
    using load_track_returns [OF u, of v drive sector "drop_bit k (off + len + 2 ^ k - 1)"] by blast
  define num where "num = ?spt - sector mod ?spt"
  define room where "room = push_bit k num - off"
  define cnt where "cnt = (if len > room then room else len)"
  have "unat (sector mod ?spt) < unat ?spt" using tr(2) by (simp add: unat_mod)
  then have num: "0 < unat num" "unat num \<le> unat ?spt"
    by (simp_all add: num_def unat_sub word_le_nat_alt)
  have le: "unat num * 2 ^ k \<le> 0x7e00" using mult_le_mono1 [OF num(2), of "2 ^ k"] tr(3) by linarith
  then have "unat (of_nat (unat num * 2 ^ k) :: u32) = unat num * 2 ^ k" by (intro unat_of_nat_small) simp
  then have up: "unat (push_bit k num) = unat num * 2 ^ k" using push_bit_of_nat [of k "unat num"] by simp
  have "2 ^ k \<le> unat num * 2 ^ k" using num(1) by simp
  then have "unat off < unat (push_bit k num)" using off up by linarith
  then have "room \<noteq> 0" by (auto simp: room_def)
  then have cnt: "cnt \<noteq> 0" "cnt \<le> len" using len by (auto simp: cnt_def)
  have "unat (len - cnt) = unat len - unat cnt" using cnt(2) by (simp add: unat_sub word_le_nat_alt)
  moreover have "0 < unat cnt" using cnt(1) by (simp add: unat_gt_0)
  moreover have "0 < unat len" using len by (simp add: unat_gt_0)
  ultimately have less: "len - cnt < len" by (simp add: word_less_nat_alt)
  obtain h where h: "hook_read v sector off cnt s1 = s1\<lparr>hook := h\<rparr>" using hook_read_keeps [of v sector off cnt s1] by blast
  define s3 where "s3 = gmemmove buf (base + off) cnt (s1\<lparr>hook := h\<rparr>)"
  have "same_drive s1 (s1\<lparr>hook := h\<rparr>)" by (simp add: same_drive_def)
  then have s3: "same_drive s s3"
    using l(2) same_drive_trans same_drive_io [OF io_only_gmemmove] unfolding s3_def by blast
  have e3: "errnum s3 = ERR_NONE \<or> errnum s3 = ERR_WONT_FIT" unfolding s3_def by (rule gmemmove_errnum)
  have s3': "same_drive s (s3\<lparr>errnum := ERR_NONE\<rparr>)" using s3 by (simp add: same_drive_def)
  have turn: "rawread_turn v drive sector off len buf s =
     (if \<not> ok then Some (None, s1)
      else if errnum s3 = ERR_WONT_FIT then
        if \<not> rawread_ignore_memmove_overflow s3 then Some (None, s3)
        else Some (Some (sector + num, 0, len - cnt, 0), s3\<lparr>errnum := ERR_NONE\<rparr>)
      else Some (Some (sector + num, 0, len - cnt, buf + cnt), s3))"
    using ssn l(1) log2_tmp_pow [of k] ss(2) by (simp add: rawread_turn_def sel Let_def ss(1) num_def [symmetric] room_def [symmetric] cnt_def [symmetric] h s3_def [symmetric]
        split del: if_split cong del: if_weak_cong) (simp split: if_split)
  show ?thesis
    unfolding turn using l(2,3) s3 s3' e3 less by (cases ok; cases "errnum s3 = ERR_WONT_FIT"; cases "rawread_ignore_memmove_overflow s3") auto
qed

lemma rawread_loop_returns:
  "usable_geometry (buf_geom s) k \<Longrightarrow> buf_drive s = drive \<Longrightarrow> unat off < 2 ^ k \<Longrightarrow> unat len < n \<Longrightarrow> errnum s = ERR_NONE \<Longrightarrow>
    \<exists>ok s'. rawread_loop n v drive sector off len buf s = Some (ok, s') \<and> same_drive s s'
      \<and> (if ok then errnum s' = ERR_NONE else errnum s' \<in> {ERR_GEOM, ERR_READ, ERR_WONT_FIT})"
proof (induction n arbitrary: sector off len buf s)
  case (Suc n)
  show ?case
  proof (cases "len = 0")
    case True
    then show ?thesis using Suc.prems(5) by (auto simp: same_drive_def intro!: exI [of _ True])
  next
    case False
    obtain r s1 where t: "rawread_turn v drive sector off len buf s = Some (r, s1)" "same_drive s s1"
      and c: "case r of None \<Rightarrow> errnum s1 \<in> {ERR_GEOM, ERR_READ, ERR_WONT_FIT}
        | Some (sec', off', len', buf') \<Rightarrow> off' = 0 \<and> len' < len \<and> errnum s1 = ERR_NONE"
      using rawread_turn_returns [OF Suc.prems(1-3) False] by blast
    show ?thesis
    proof (cases r)
      case None
      then show ?thesis using t c False by (auto intro!: exI [of _ False])
    next
      case (Some p)
      obtain sec' off' len' buf' where p: "p = (sec', off', len', buf')" by (cases p)
      have n: "off' = 0" "unat len' < n" "errnum s1 = ERR_NONE"
        using c Some p Suc.prems(4) by (auto simp: word_less_nat_alt)
      have u: "usable_geometry (buf_geom s1) k" "buf_drive s1 = drive" using t(2) Suc.prems(1,2) by (simp_all add: same_drive_def)
      have "unat off' < 2 ^ k" using n(1) by simp
      from Suc.IH [OF u this n(2,3), of sec' buf'] obtain ok s' where
        r: "rawread_loop n v drive sec' off' len' buf' s1 = Some (ok, s')" "same_drive s1 s'"
        "if ok then errnum s' = ERR_NONE else errnum s' \<in> {ERR_GEOM, ERR_READ, ERR_WONT_FIT}" by blast
      then show ?thesis using t Some p False same_drive_trans by auto
    qed
  qed
qed simp

text \<open>
  C15. On a buffered drive with a sound geometry \<open>rawread\<close> returns for every request and whatever the BIOS
  and the hook do: with 1 and no error, or with 0 and the error of the geometry, of the read or of the
  destination; the drive of the buffer stays.
\<close>

theorem rawread_returns:
  assumes "usable_geometry (buf_geom s) k" "buf_drive s = drive" "unat off < 2 ^ k"
  shows "\<exists>ok s'. rawread v drive sector off len buf s = Some (ok, s') \<and> same_drive s s'
    \<and> (if ok then errnum s' = ERR_NONE else errnum s' \<in> {ERR_GEOM, ERR_READ, ERR_WONT_FIT})"
proof -
  have "usable_geometry (buf_geom (s\<lparr>errnum := ERR_NONE\<rparr>)) k" "buf_drive (s\<lparr>errnum := ERR_NONE\<rparr>) = drive" using assms by simp_all
  from rawread_loop_returns [OF this assms(3), of len "unat len + 2" v sector buf]
  show ?thesis by (simp add: rawread_def same_drive_def)
qed

section \<open>Witnesses\<close>

theorem rawread_returns_witness:
  "\<exists>ok s'. rawread (image_bios of_nat (demo_geometry 0)) 0x80 5000 0 0x10000 0 (demo_disk_state 0) = Some (ok, s')"
proof -
  have "usable_geometry (buf_geom (demo_disk_state 0)) 9" "buf_drive (demo_disk_state 0) = 0x80"
    by (simp_all add: usable_geometry_def countable_geometry_def demo_disk_state_def demo_geometry_def)
  from rawread_returns [OF this, of 0 "image_bios of_nat (demo_geometry 0)" 5000 "0x10000" 0]
  show ?thesis by auto
qed

theorem get_diskinfo_usable_witness:
  "\<exists>g' s' err t'. get_diskinfo (image_bios of_nat (demo_geometry 0)) 0x81 (demo_geometry 0) (demo_disk_state 0) = Some (0, g', s')
     \<and> biosdisk (image_bios of_nat (demo_geometry 0)) True 0x81 g' 0x7FFFFFFF 1 0x7000 s' = Some (err, t')"
proof -
  let ?v = "image_bios of_nat (demo_geometry 0) :: (unit, unit) disk_env"
  have "\<exists>g' s'. get_diskinfo ?v 0x81 (demo_geometry 0) (demo_disk_state 0) = Some (0, g', s') \<and> sector_size g' = SECTOR_SIZE"
    by (simp add: get_diskinfo_def is_cdrom_def get_cdinfo_def bios_geometry_def image_bios_def demo_disk_state_def globals_start_def Let_def
        drp_bytes_def peek16_def clear_packet_def poke_def le16_def bytes16_def SECTOR_SIZE_def split: prod.splits)
      (rule probe_geometry_ex, simp add: drp_bytes_def peek16_def clear_packet_def poke_def le16_def bytes16_def SECTOR_SIZE_def)
  then obtain g' s' where g: "get_diskinfo ?v 0x81 (demo_geometry 0) (demo_disk_state 0) = Some (0, g', s')" "sector_size g' = SECTOR_SIZE"
    by blast
  show ?thesis using g(1) get_diskinfo_usable [OF g] by blast
qed

end
