(* ===== verification/CmdLine.thy ===== *)
theory CmdLine
imports Globals
begin

text \<open>
  The command interpreter of \<open>stage2/cmdline.c\<close>: \<open>skip_to\<close>, \<open>find_command\<close>, \<open>init_cmdline\<close>,
  the execution of one line with its \<open>&&\<close> and \<open>||\<close> operators, \<open>enter_cmdline\<close> and
  \<open>run_script\<close>.  The builtin commands are an argument: a table of names, flags and functions on the
  state.  \<open>heap\<close> is the command-line buffer; it is an object of its own, starting at index 0.
\<close>

section \<open>Words\<close>

function skip_word :: "bool \<Rightarrow> cbuf \<Rightarrow> nat \<Rightarrow> nat option" where
  "skip_word after_equal b i =
     do { c \<leftarrow> rd b i;
          if c \<noteq> 0 \<and> c \<noteq> 32 \<and> c \<noteq> 9 \<and> \<not> (after_equal \<and> c = ch CHR ''='') then skip_word after_equal b (i + 1)
          else Some i }"
  by pat_completeness auto
termination
  by (relation "measure (\<lambda>(a, b, i). length b - i)") (auto simp: cmem)

function skip_space :: "bool \<Rightarrow> cbuf \<Rightarrow> nat \<Rightarrow> nat option" where
  "skip_space after_equal b i =
     do { c \<leftarrow> rd b i;
          if c = 32 \<or> c = 9 \<or> (after_equal \<and> c = ch CHR ''='') then skip_space after_equal b (i + 1)
          else Some i }"
  by pat_completeness auto
termination
  by (relation "measure (\<lambda>(a, b, i). length b - i)") (auto simp: cmem)

definition skip_to :: "bool \<Rightarrow> cbuf \<Rightarrow> nat \<Rightarrow> nat option" where
  "skip_to after_equal b i = do { j \<leftarrow> skip_word after_equal b i; skip_space after_equal b j }"

declare skip_word.simps [simp del] skip_space.simps [simp del]

section \<open>State\<close>

text \<open>The other globals the interpreter uses; \<open>world\<close> is everything else the builtins change.\<close>

record ('d, 'h, 'w) shell = "('d, 'h) globals" +
  heap :: cbuf
  count_lines :: int
  use_pager :: bool
  errorcheck :: bool
  fallback_entryno :: int
  kernel_loaded :: bool
  boot_drive :: u32
  install_partition :: u32
  world :: 'w

record ('d, 'h, 'w) builtin =
  name :: "u8 list"
  flags :: u32
  func :: "nat \<Rightarrow> u32 \<Rightarrow> ('d, 'h, 'w) shell \<Rightarrow> (int \<times> ('d, 'h, 'w) shell) option"
  is_commandline_func :: bool

record ('d, 'h, 'w) shell_env =
  builtin_table :: "('d, 'h, 'w) builtin list"
  init_builtins :: "('d, 'h, 'w) shell \<Rightarrow> ('d, 'h, 'w) shell option"
  saved_mem_upper :: u32
  mmap_length :: u32

definition BUILTIN_CMDLINE :: u32 where "BUILTIN_CMDLINE = 0x1"
definition BUILTIN_SCRIPT :: u32 where "BUILTIN_SCRIPT = 0x8"
definition BUILTIN_NO_ECHO :: u32 where "BUILTIN_NO_ECHO = 0x10"

section \<open>Finding a command\<close>

function command_end :: "cbuf \<Rightarrow> nat \<Rightarrow> nat option" where
  "command_end b i =
     do { c \<leftarrow> rd b i;
          if c \<noteq> 0 \<and> c \<noteq> 32 \<and> c \<noteq> 9 \<and> c \<noteq> ch CHR ''='' then command_end b (i + 1) else Some i }"
  by pat_completeness auto
termination
  by (relation "measure (\<lambda>(b, i). length b - i)") (auto simp: cmem)

declare command_end.simps [simp del]

fun seek_builtin :: "('d, 'h, 'w) builtin list \<Rightarrow> cbuf \<Rightarrow> nat \<Rightarrow> ('d, 'h, 'w) builtin option option" where
  "seek_builtin [] b p = Some None"
| "seek_builtin (x # xs) b p =
     do { ret \<leftarrow> grub_strcmp b p (name x @ [0]) 0;
          if ret = 0 then Some (Some x) else if ret < 0 then Some None else seek_builtin xs b p }"

text \<open>The buffer is terminated after the command name during the search and restored.\<close>

definition find_command :: "('d, 'h, 'w) shell_env \<Rightarrow> nat \<Rightarrow> ('d, 'h, 'w) shell \<Rightarrow> (('d, 'h, 'w) builtin option \<times> ('d, 'h, 'w) shell) option" where
  "find_command v command s =
     do { ptr \<leftarrow> command_end (heap s) command;
          c \<leftarrow> rd (heap s) ptr;
          h1 \<leftarrow> wr (heap s) ptr 0;
          r \<leftarrow> seek_builtin (builtin_table v) h1 command;
          h2 \<leftarrow> wr h1 ptr c;
          Some (r, s\<lparr>heap := h2, errnum := (if r = None then ERR_UNRECOGNIZED else errnum s)\<rparr>) }"

text \<open>\<open>! builtin || ! (builtin->flags & BUILTIN_CMDLINE)\<close>\<close>

definition runnable :: "('d, 'h, 'w) builtin option \<Rightarrow> bool" where
  "runnable r = (case r of None \<Rightarrow> False | Some b \<Rightarrow> flags b AND BUILTIN_CMDLINE \<noteq> 0)"

definition init_cmdline :: "('d, 'h, 'w) shell_env \<Rightarrow> ('d, 'h, 'w) shell \<Rightarrow> ('d, 'h, 'w) shell option" where
  "init_cmdline v s =
     (let s1 = s\<lparr>saved_drive := boot_drive s, saved_partition := install_partition s,
                 current_drive := 0xFFFFFFFF, count_lines := -1, mem_upper := saved_mem_upper v,
                 mbi_flags := (if mmap_length v \<noteq> 0 then mbi_flags s OR 0x40 else mbi_flags s)\<rparr>
      in do { s2 \<leftarrow> init_builtins v s1; Some (s2\<lparr>errnum := ERR_NONE\<rparr>) })"

section \<open>Running a line\<close>

lemma skip_word_ge: "skip_word a b i = Some j \<Longrightarrow> i \<le> j"
proof (induction a b i rule: skip_word.induct)
  case (1 a b i)
  then show ?case by (subst (asm) (2) skip_word.simps) (fastforce simp: bind_eq_Some_conv split: if_splits)
qed

lemma skip_space_ge: "skip_space a b i = Some j \<Longrightarrow> i \<le> j"
proof (induction a b i rule: skip_space.induct)
  case (1 a b i)
  then show ?case by (subst (asm) (2) skip_space.simps) (fastforce simp: bind_eq_Some_conv split: if_splits)
qed

lemma skip_to_advance:
  assumes "skip_to a b i = Some j" "rd b i = Some c" "c \<noteq> 0"
  shows "i < j"
proof -
  obtain k where k: "skip_word a b i = Some k" "skip_space a b k = Some j"
    using assms(1) by (auto simp: skip_to_def bind_eq_Some_conv)
  show ?thesis
  proof (cases "k = i")
    case True
    then have "c = 32 \<or> c = 9 \<or> a \<and> c = ch CHR ''=''"
      using k(1) assms(2,3) skip_word_ge [of a b "i + 1" i]
      by (subst (asm) skip_word.simps) (auto split: if_splits)
    then have "skip_space a b (i + 1) = Some j"
      using k(2) assms(2) True by (subst (asm) skip_space.simps) auto
    then show ?thesis using skip_space_ge by fastforce
  next
    case False
    then show ?thesis using skip_word_ge [OF k(1)] skip_space_ge [OF k(2)] by simp
  qed
qed

text \<open>Is there an operator \<open>&&\<close> or \<open>||\<close> at \<open>arg\<close>, where the character \<open>c\<close> stands?\<close>

definition op_at :: "cbuf \<Rightarrow> nat \<Rightarrow> u8 \<Rightarrow> bool option" where
  "op_at b arg c =
     (if c = ch CHR ''&'' \<or> c = ch CHR ''|'' then
        do { c1 \<leftarrow> rd b (arg + 1);
             if c1 = c then do { c2 \<leftarrow> rd b (arg + 2); Some (c2 = 32 \<or> c2 = 9) } else Some False }
      else Some False)"

text \<open>The loop over the words of a line up to the first operator: its position and character.\<close>

function find_op :: "cbuf \<Rightarrow> nat \<Rightarrow> (nat \<times> u8) option option" where
  "find_op b arg =
     do { c \<leftarrow> rd b arg;
          if c = 0 then Some None
          else do { found \<leftarrow> op_at b arg c;
                    if found then Some (Some (arg, c))
                    else do { arg' \<leftarrow> skip_to False b arg; find_op b arg' } } }"
  by pat_completeness auto
termination
  by (relation "measure (\<lambda>(b, arg). length b - arg)")
     (auto simp: cmem dest: skip_to_advance intro!: diff_less_mono2)

declare find_op.simps [simp del]

definition run_op :: "('d, 'h, 'w) shell_env \<Rightarrow> u32 \<Rightarrow> ('d, 'h, 'w) builtin \<Rightarrow> nat \<Rightarrow> u8 \<Rightarrow> ('d, 'h, 'w) shell \<Rightarrow> ('d, 'h, 'w) shell option" where
  "run_op v mode b arg1 c s =
     do { arg \<leftarrow> skip_to False (heap s) arg1;
          (r, s1) \<leftarrow> find_command v arg s;
          if \<not> runnable r then Some (s1\<lparr>errnum := ERR_UNRECOGNIZED\<rparr>)
          else
            do { h1 \<leftarrow> wr (heap s1) arg1 0;
                 a \<leftarrow> skip_to True h1 0;
                 (ret, s2) \<leftarrow> func b a mode (s1\<lparr>heap := h1\<rparr>);
                 h2 \<leftarrow> wr (heap s2) arg1 c;
                 let s3 = s2\<lparr>heap := h2\<rparr>;
                 if (c = ch CHR ''&'' \<and> ret \<noteq> 0) \<or> (c = ch CHR ''|'' \<and> ret = 0)
                 then do { arg' \<leftarrow> skip_to True (heap s3) arg; (_, s4) \<leftarrow> func (the r) arg' mode s3; Some s4 }
                 else Some s3 } }"

definition exec_line :: "('d, 'h, 'w) shell_env \<Rightarrow> u32 \<Rightarrow> ('d, 'h, 'w) builtin \<Rightarrow> ('d, 'h, 'w) shell \<Rightarrow> ('d, 'h, 'w) shell option" where
  "exec_line v mode b s =
     do { a0 \<leftarrow> skip_to False (heap s) 0;
          r \<leftarrow> find_op (heap s) a0;
          case r of Some (arg1, c) \<Rightarrow> run_op v mode b arg1 c s
          | None \<Rightarrow> do { arg \<leftarrow> (if is_commandline_func b then Some 0 else skip_to True (heap s) 0);
                         (_, s1) \<leftarrow> func b arg mode s; Some s1 } }"

section \<open>The command line\<close>

text \<open>
  The lines \<open>get_cmdline\<close> will return, \<open>None\<close> for Escape: each is the content of the buffer
  afterwards with the state the editor leaves (its history and the terminal are in \<open>world\<close>).
\<close>

type_synonym ('d, 'h, 'w) reader = "('d, 'h, 'w) shell \<Rightarrow> ('d, 'h, 'w) shell option"

definition cmdline_start :: "('d, 'h, 'w) shell_env \<Rightarrow> bool \<Rightarrow> ('d, 'h, 'w) shell \<Rightarrow> ('d, 'h, 'w) shell option" where
  "cmdline_start v forever s =
     map_option (print_tty [InitPage, CmdlineMessage forever])
       (init_cmdline v (s\<lparr>debug := (if debug s = 0 then 1 else debug s)\<rparr>))"

text \<open>The loop: a line has been read into the heap.\<close>

definition cmdline_turn :: "('d, 'h, 'w) shell_env \<Rightarrow> ('d, 'h, 'w) shell \<Rightarrow> ('d, 'h, 'w) shell option" where
  "cmdline_turn v s =
     do { c \<leftarrow> rd (heap s) 0;
          if c = 0 then Some s
          else do { (r, s1) \<leftarrow> find_command v 0 s;
                    case r of None \<Rightarrow> Some s1
                    | Some b \<Rightarrow>
                      if flags b AND BUILTIN_CMDLINE = 0 then Some (s1\<lparr>errnum := ERR_UNRECOGNIZED\<rparr>)
                      else do { let s2 = s1\<lparr>buf_drive := -1, count_lines := (if use_pager s1 then 0 else count_lines s1)\<rparr>;
                                s3 \<leftarrow> exec_line v BUILTIN_CMDLINE b s2;
                                Some (s3\<lparr>count_lines := -1\<rparr>) } } }"

fun cmdline_loop :: "('d, 'h, 'w) shell_env \<Rightarrow> ('d, 'h, 'w) reader list \<Rightarrow> ('d, 'h, 'w) shell \<Rightarrow> (bool \<times> ('d, 'h, 'w) shell) option" where
  "cmdline_loop v [] s = Some (False, s)"
| "cmdline_loop v (get_cmdline # rs) s =
     do { h \<leftarrow> wr (heap s) 0 0;
          let s1 = (print_tty [PrintError (errnum s)] (s\<lparr>heap := h\<rparr>))\<lparr>errnum := ERR_NONE\<rparr>;
          case get_cmdline s1 of None \<Rightarrow> Some (True, s1)
          | Some s2 \<Rightarrow> do { s3 \<leftarrow> cmdline_turn v s2; cmdline_loop v rs s3 } }"

text \<open>The result says whether Escape was pressed; otherwise the loop waits for another line.\<close>

definition enter_cmdline :: "('d, 'h, 'w) shell_env \<Rightarrow> bool \<Rightarrow> ('d, 'h, 'w) reader list \<Rightarrow> ('d, 'h, 'w) shell \<Rightarrow> (bool \<times> ('d, 'h, 'w) shell) option" where
  "enter_cmdline v forever readers s = do { s1 \<leftarrow> cmdline_start v forever s; cmdline_loop v readers s1 }"

section \<open>Scripts\<close>

text \<open>
  The top of the loop of \<open>run_script\<close>: after an error the script ends.  \<open>builtin\<close> is \<open>NULL\<close> when the
  last command was not found, and its flags are read then all the same.
\<close>

definition script_error :: "('d, 'h, 'w) builtin option \<Rightarrow> u8 list \<Rightarrow> ('d, 'h, 'w) shell \<Rightarrow> ('d, 'h, 'w) shell option" where
  "script_error r old_entry s =
     (if fallback_entryno s < 0 then
        do { b \<leftarrow> r;
             Some ((print_tty ((if flags b AND BUILTIN_NO_ECHO = 0 then [Print (old_entry @ [10])] else [])
                    @ [PrintError (errnum s), Print (10 # cs ''Press any key to continue...''), AnyKey]) s)\<lparr>errnum := ERR_NONE\<rparr>) }
      else Some (s\<lparr>errnum := ERR_NONE\<rparr>))"

text \<open>\<open>Inl ret\<close> is a return; \<open>Inr r\<close> goes on with \<open>builtin = r\<close>.\<close>

definition script_turn :: "('d, 'h, 'w) shell_env \<Rightarrow> ('d, 'h, 'w) shell \<Rightarrow> ((int + ('d, 'h, 'w) builtin option) \<times> ('d, 'h, 'w) shell) option" where
  "script_turn v s0 =
     do { c \<leftarrow> rd (heap s0) 0;
          if c = 0 \<and> \<not> kernel_loaded s0 then Some (Inl 0, s0)
          else do { h \<leftarrow> (if c = 0 then copy_obj (heap s0) 0 (cs ''boot'' @ [0]) 0 5 else Some (heap s0));
                    (r, s1) \<leftarrow> find_command v 0 (s0\<lparr>heap := h\<rparr>);
                    case r of None \<Rightarrow> Some (Inr None, s1)
                    | Some b \<Rightarrow>
                      if flags b AND BUILTIN_CMDLINE = 0 then Some (Inr r, s1\<lparr>errnum := ERR_UNRECOGNIZED\<rparr>)
                      else do { s2 \<leftarrow> exec_line v BUILTIN_SCRIPT b (s1\<lparr>buf_drive := -1\<rparr>); Some (Inr r, s2) } } }"

text \<open>
  The loop, with the last builtin and entry.  An entry that names no builtin is printed before the
  loop goes on.
\<close>

function script_loop :: "('d, 'h, 'w) shell_env \<Rightarrow> cbuf \<Rightarrow> nat \<Rightarrow> ('d, 'h, 'w) builtin option \<Rightarrow> u8 list \<Rightarrow> ('d, 'h, 'w) shell \<Rightarrow> (int \<times> ('d, 'h, 'w) shell) option" where
  "script_loop v script cur builtin old_entry s =
     (if errnum s \<noteq> ERR_NONE \<and> errorcheck s then map_option (Pair 1) (script_error builtin old_entry s)
      else do { entry \<leftarrow> str_of script cur;
                h \<leftarrow> copy_obj (heap s) 0 script cur (length entry + 1);
                (r, s1) \<leftarrow> script_turn v (s\<lparr>errnum := ERR_NONE, heap := h\<rparr>);
                case r of Inl ret \<Rightarrow> Some (ret, s1)
                | Inr None \<Rightarrow> script_loop v script (cur + length entry + 1) None entry (print_tty [Print (entry @ [10])] s1)
                | Inr (Some b) \<Rightarrow> script_loop v script (cur + length entry + 1) (Some b) entry s1 })"
  by pat_completeness auto
termination
  by (relation "measure (\<lambda>(v, script, cur, r, e, s). length script - cur)") (auto dest: str_of_bound)

declare script_loop.simps [simp del]

definition run_script :: "('d, 'h, 'w) shell_env \<Rightarrow> cbuf \<Rightarrow> ('d, 'h, 'w) shell \<Rightarrow> (int \<times> ('d, 'h, 'w) shell) option" where
  "run_script v script s = do { s1 \<leftarrow> init_cmdline v s; script_loop v script 0 None [] (s1\<lparr>errnum := ERR_NONE\<rparr>) }"

section \<open>The scanners against the strings they read\<close>

definition sep :: "bool \<Rightarrow> u8 \<Rightarrow> bool" where
  "sep after_equal c \<longleftrightarrow> c = 32 \<or> c = 9 \<or> (after_equal \<and> c = ch CHR ''='')"

lemmas sep_iff = sep_def [abs_def]

lemma sep_0 [simp]: "\<not> sep a 0"
  by (simp add: sep_def)

definition next_word :: "bool \<Rightarrow> u8 list \<Rightarrow> u8 list" where
  "next_word a s = dropWhile (sep a) (dropWhile (Not \<circ> sep a) s)"

lemma skip_word_span:
  assumes "str_of b i = Some s"
  shows "skip_word a b i = Some (i + length (takeWhile (Not \<circ> sep a) s))"
  using assms
proof (induction a b i arbitrary: s rule: skip_word.induct)
  case (1 a b i)
  show ?case using "1.prems" "1.IH"
    by (cases s; subst skip_word.simps) (auto simp: cstr sep_iff comp_def)
qed

lemma skip_space_span:
  assumes "str_of b i = Some s"
  shows "skip_space a b i = Some (i + length (takeWhile (sep a) s))"
  using assms
proof (induction a b i arbitrary: s rule: skip_space.induct)
  case (1 a b i)
  show ?case using "1.prems" "1.IH"
    by (cases s; subst skip_space.simps) (auto simp: cstr sep_iff)
qed

lemma length_next_word: "length (next_word a s) \<le> length s"
  unfolding next_word_def by (meson length_dropWhile_le order_trans)

lemma next_word_drop: "next_word a s = drop (length s - length (next_word a s)) s"
proof -
  have "suffix (next_word a s) s"
    unfolding next_word_def by (meson suffix_dropWhile suffix_order.trans)
  then obtain zs where z: "s = zs @ next_word a s" by (auto simp: suffix_def)
  then have "length s - length (next_word a s) = length zs"
    by (metis add_diff_cancel_right' length_append)
  then show ?thesis using z by (metis append_eq_conv_conj)
qed

lemma skip_to_str:
  assumes "str_of b i = Some s"
  shows "skip_to a b i = Some (i + (length s - length (next_word a s)))"
    and "str_of b (i + (length s - length (next_word a s))) = Some (next_word a s)"
proof -
  let ?w = "takeWhile (Not \<circ> sep a) s" and ?r = "dropWhile (Not \<circ> sep a) s"
  have l: "length ?w + length ?r = length s"
    by (metis length_append takeWhile_dropWhile_id)
  have r: "str_of b (i + length ?w) = Some ?r"
    using str_of_suffix [OF assms, of "length ?w"]
    by (simp add: length_takeWhile_le dropWhile_eq_drop)
  have l2: "length (takeWhile (sep a) ?r) + length (next_word a s) = length ?r"
    unfolding next_word_def by (metis length_append takeWhile_dropWhile_id)
  show "skip_to a b i = Some (i + (length s - length (next_word a s)))"
    using l l2 by (simp add: skip_to_def skip_word_span [OF assms] skip_space_span [OF r])
  show "str_of b (i + (length s - length (next_word a s))) = Some (next_word a s)"
    using str_of_suffix [OF assms, of "length s - length (next_word a s)"] next_word_drop [of a s] by simp
qed

text \<open>The word \<open>find_command\<close> looks up, and the table in the order \<open>grub_strcmp\<close> decides.\<close>

definition command_word :: "u8 list \<Rightarrow> u8 list" where
  "command_word s = takeWhile (Not \<circ> sep True) s"

lemma command_end_span:
  assumes "str_of b i = Some s"
  shows "command_end b i = Some (i + length (command_word s))"
  using assms
proof (induction b i arbitrary: s rule: command_end.induct)
  case (1 b i)
  show ?case using "1.prems" "1.IH"
    by (cases s; subst command_end.simps) (auto simp: cstr sep_iff comp_def command_word_def)
qed

definition lookup :: "('d, 'h, 'w) builtin list \<Rightarrow> u8 list \<Rightarrow> ('d, 'h, 'w) builtin option" where
  "lookup tab w = find (\<lambda>x. name x = w) tab"

definition table_ok :: "('d, 'h, 'w) builtin list \<Rightarrow> bool" where
  "table_ok tab \<longleftrightarrow> sorted_wrt (<) (map (strkey \<circ> name) tab) \<and> (\<forall>x \<in> set tab. 0 \<notin> set (name x))"

lemma seek_builtin_lookup:
  assumes "table_ok tab" "str_of b p = Some w"
  shows "seek_builtin tab b p = Some (lookup tab w)"
  using assms(1)
proof (induction tab)
  case Nil
  then show ?case by (simp add: lookup_def)
next
  case (Cons x xs)
  have n: "str_of (name x @ [0]) 0 = Some (name x)"
    using Cons.prems by (simp add: table_ok_def str_of_literal)
  have c: "grub_strcmp b p (name x @ [0]) 0 = Some (cmp_int (strkey w) (strkey (name x)))"
    by (rule grub_strcmp_strkey [OF assms(2) n])
  have ih: "seek_builtin xs b p = Some (lookup xs w)"
    using Cons by (auto simp: table_ok_def)
  have none: "lookup xs w = None" if "strkey w < strkey (name x)"
    using that Cons.prems
    by (fastforce simp: lookup_def find_None_iff table_ok_def)
  consider "w = name x" | "strkey w < strkey (name x)" "w \<noteq> name x" | "strkey (name x) < strkey w" "w \<noteq> name x"
    by (metis linorder_neqE strkey_inj)
  then show ?case
  proof cases
    case 2
    then show ?thesis using c ih none by (auto simp: cmp_int_def lookup_def)
  qed (use c ih in \<open>auto simp: cmp_int_def lookup_def\<close>)
qed

lemma find_command_lookup:
  assumes "table_ok (builtin_table v)" "str_of (heap s) command = Some l"
  shows "find_command v command s =
    Some (lookup (builtin_table v) (command_word l),
          s\<lparr>errnum := (if lookup (builtin_table v) (command_word l) = None then ERR_UNRECOGNIZED else errnum s)\<rparr>)"
proof -
  let ?w = "command_word l" and ?p = "command + length (command_word l)"
  have k: "length ?w \<le> length l" by (simp add: command_word_def length_takeWhile_le)
  have p: "?p < length (heap s)" using str_of_bound [OF assms(2)] k by linarith
  have w: "str_of ((heap s)[?p := 0]) command = Some ?w"
    using str_of_update_nul [OF assms(2) k] by (simp add: command_word_def takeWhile_eq_take [symmetric])
  show ?thesis
    using p by (simp add: find_command_def command_end_span [OF assms(2)] seek_builtin_lookup [OF assms(1) w])
qed

text \<open>
  C31. \<open>find_command\<close> finds the builtin whose name is the text at \<open>command\<close> up to a blank, an equal
  sign or its end, whenever the table is in the order \<open>grub_strcmp\<close> decides; it sets
  \<open>ERR_UNRECOGNIZED\<close> exactly when there is none, and the buffer it terminates during the search is
  as before.
\<close>

theorem find_command_correct:
  assumes "table_ok (builtin_table v)" "str_of (heap s) command = Some l"
  shows "find_command v command s =
    Some (lookup (builtin_table v) (command_word l),
          s\<lparr>errnum := (if lookup (builtin_table v) (command_word l) = None then ERR_UNRECOGNIZED else errnum s)\<rparr>)"
  by (rule find_command_lookup [OF assms])

section \<open>The operators of a line\<close>

text \<open>
  An operator stands at index \<open>k\<close> of the line \<open>l\<close> when a blank comes before it, two equal
  characters \<open>&\<close> or \<open>|\<close> stand there and a blank follows.
\<close>

definition blank :: "u8 \<Rightarrow> bool" where
  "blank c \<longleftrightarrow> c = 32 \<or> c = 9"

definition is_op :: "u8 list \<Rightarrow> nat \<Rightarrow> bool" where
  "is_op l k \<longleftrightarrow> 0 < k \<and> k + 2 < length l \<and> blank (l ! (k - 1)) \<and> (l ! k = ch CHR ''&'' \<or> l ! k = ch CHR ''|'')
     \<and> l ! (k + 1) = l ! k \<and> blank (l ! (k + 2))"

definition first_op :: "u8 list \<Rightarrow> nat option" where
  "first_op l = find (is_op l) [1..<length l]"

lemma sep_False: "sep False = blank"
  by (simp add: sep_def blank_def fun_eq_iff)

lemma find_upt_skip:
  assumes "j \<le> j'" "j' \<le> n" "\<And>k. j \<le> k \<Longrightarrow> k < j' \<Longrightarrow> \<not> P k"
  shows "find P [j..<n] = find P [j'..<n]"
proof -
  have "[j..<n] = [j..<j'] @ [j'..<n]" using assms(1,2) by (metis le_Suc_ex upt_add_eq_append)
  moreover have "find P [j..<j'] = None" using assms(3) by (auto simp: find_None_iff)
  moreover have "find P (xs @ ys) = (case find P xs of None \<Rightarrow> find P ys | r \<Rightarrow> r)" for xs ys
    by (induction xs) auto
  ultimately show ?thesis by simp
qed

lemma op_at_is_op:
  assumes "str_of b 0 = Some l" "0 < j" "j < length l" "blank (l ! (j - 1))"
  shows "op_at b j (l ! j) = Some (is_op l j)"
proof -
  have len: "length l < length b" using str_of_bound [OF assms(1)] by simp
  have n: "b ! i = (if i < length l then l ! i else 0)" if "i \<le> length l" for i
    using that str_of_nth [OF assms(1), of i] assms(1) by (cases "i < length l") (auto simp: str_of_iff)
  have nz: "l ! j \<noteq> 0" using str_of_nth_nz [OF assms(1,3)] .
  consider "j + 1 = length l" | "j + 2 = length l" | "j + 2 < length l" using assms(3) by linarith
  then show ?thesis
  proof cases
    case 1
    then show ?thesis using n [of "j + 1"] len nz by (auto simp: op_at_def is_op_def)
  next
    case 2
    then show ?thesis using n [of "j + 1"] n [of "j + 2"] len by (auto simp: op_at_def is_op_def)
  next
    case 3
    then show ?thesis using n [of "j + 1"] n [of "j + 2"] len assms(2,4)
      by (auto simp: op_at_def is_op_def blank_def)
  qed
qed

text \<open>From the start of a word, \<open>skip_to\<close> passes no operator but one at its start.\<close>

lemma skip_passes_no_op:
  assumes "j < k" "k < j + (length (drop j l) - length (next_word False (drop j l)))"
  shows "\<not> is_op l k"
proof -
  define s w r where "s = drop j l" and "w = takeWhile (Not \<circ> blank) s" and "r = dropWhile (Not \<circ> blank) s"
  have s: "s = w @ takeWhile blank r @ next_word False s"
    by (simp add: w_def r_def next_word_def sep_False)
  have "length s = length w + (length (takeWhile blank r) + length (next_word False s))"
    by (metis s length_append)
  then have k: "k - j < length w + length (takeWhile blank r)"
    using assms by (simp add: s_def [symmetric])
  have nth: "l ! (j + i) = s ! i" if "i < length s" for i
    using that by (simp add: s_def)
  show ?thesis
  proof (cases "k - 1 - j < length w")
    case True
    then have "s ! (k - 1 - j) = w ! (k - 1 - j)" by (subst s) (simp add: nth_append)
    moreover have "w ! (k - 1 - j) \<in> set w" using True by simp
    then have "\<not> blank (w ! (k - 1 - j))"
      unfolding w_def by (metis comp_def set_takeWhileD)
    moreover have "length w \<le> length s" by (simp add: w_def length_takeWhile_le)
    ultimately have "\<not> blank (l ! (k - 1))" using nth [of "k - 1 - j"] True assms(1) by simp
    then show ?thesis by (simp add: is_op_def)
  next
    case False
    let ?i = "k - j - length w"
    have i: "?i < length (takeWhile blank r)" "length w \<le> k - j" using False k assms(1) by linarith+
    then have "s ! (k - j) = takeWhile blank r ! ?i" by (subst s) (simp add: nth_append)
    moreover have "blank (takeWhile blank r ! ?i)"
      using i(1) by (metis nth_mem set_takeWhileD)
    moreover have "k - j < length s" using k by (subst s) simp
    ultimately have "blank (l ! k)" using nth [of "k - j"] assms(1) by simp
    then show ?thesis by (auto simp: is_op_def blank_def)
  qed
qed

lemma next_word_blank_before:
  assumes "str_of b 0 = Some l" "j \<le> length l" "j' = j + (length (drop j l) - length (next_word False (drop j l)))"
    "j' < length l"  "j < j'"
  shows "blank (l ! (j' - 1))"
proof -
  define s w r where "s = drop j l" and "w = takeWhile (Not \<circ> blank) s" and "r = dropWhile (Not \<circ> blank) s"
  have s: "s = w @ takeWhile blank r @ next_word False s"
    by (simp add: w_def r_def next_word_def sep_False)
  have len: "length s = length w + (length (takeWhile blank r) + length (next_word False s))"
    by (metis s length_append)
  have j': "j' = j + (length w + length (takeWhile blank r))"
    using assms(3) len by (simp add: s_def)
  have "takeWhile blank r \<noteq> []"
  proof
    assume e: "takeWhile blank r = []"
    then have "next_word False s = r" unfolding next_word_def sep_False r_def [symmetric]
      by (metis append_Nil takeWhile_dropWhile_id)
    moreover have "r = drop j' l" using calculation e j' s by (metis add.commute append_Nil2 append_eq_conv_conj
        append_self_conv2 drop_drop length_append s_def)
    moreover have "drop j' l \<noteq> []" using assms(4) by simp
    ultimately obtain c t where r: "r = c # t" by (metis neq_Nil_conv)
    then have "blank c" unfolding r_def by (simp add: dropWhile_eq_Cons_conv)
    then show False using e r by simp
  qed
  then have b: "blank (last (takeWhile blank r))" by (metis last_in_set set_takeWhileD)
  have "l ! (j' - 1) = s ! (j' - 1 - j)" using assms(4,5) by (simp add: s_def)
  also have "\<dots> = last (takeWhile blank r)"
  proof -
    define t where "t = takeWhile blank r"
    have t: "t \<noteq> []" "s = w @ t @ next_word False s" using \<open>takeWhile blank r \<noteq> []\<close> s by (simp_all add: t_def)
    then have "j' - 1 - j = length w + (length t - 1)" using j' by (cases t) (simp_all add: t_def)
    moreover have "s ! (length w + (length t - 1)) = t ! (length t - 1)"
      using t(1) by (subst t(2)) (simp only: nth_append_length_plus, simp add: nth_append)
    ultimately show ?thesis using t(1) by (simp add: t_def last_conv_nth)
  qed
  finally show ?thesis using b by simp
qed

lemma find_op_first:
  assumes "str_of b 0 = Some l" "j \<le> length l" "j < length l \<Longrightarrow> 0 < j \<and> blank (l ! (j - 1))"
  shows "find_op b j = Some (map_option (\<lambda>k. (k, l ! k)) (find (is_op l) [j..<length l]))"
  using assms
proof (induction b j rule: find_op.induct)
  case (1 b j)
  show ?case
  proof (cases "j < length l")
    case False
    then show ?thesis using "1.prems" by (subst find_op.simps) (auto simp: str_of_iff)
  next
    case j: True
    let ?t = "drop j l"
    let ?j = "j + (length ?t - length (next_word False ?t))"
    have bl: "0 < j" "blank (l ! (j - 1))" using "1.prems"(3) j by auto
    have c: "rd b j = Some (l ! j)" "l ! j \<noteq> 0"
      using str_of_nth [OF "1.prems"(1) j] str_of_bound [OF "1.prems"(1)] str_of_nth_nz [OF "1.prems"(1) j] j by auto
    have t: "str_of b j = Some ?t" using str_of_suffix [OF "1.prems"(1,2)] by simp
    have sk: "skip_to False b j = Some ?j" by (rule skip_to_str(1) [OF t])
    have lt: "j < ?j" by (rule skip_to_advance [OF sk c])
    have le: "?j \<le> length l" using j by simp
    show ?thesis
    proof (cases "is_op l j")
      case True
      then show ?thesis using c op_at_is_op [OF "1.prems"(1) bl(1) j bl(2)] j
        by (subst find_op.simps) (simp add: upt_conv_Cons)
    next
      case False
      have "find_op b ?j = Some (map_option (\<lambda>k. (k, l ! k)) (find (is_op l) [?j..<length l]))"
        using c op_at_is_op [OF "1.prems"(1) bl(1) j bl(2)] False sk "1.prems"(1) le lt
          next_word_blank_before [OF "1.prems"(1,2) refl _ lt]
        by (intro "1.IH") auto
      moreover have "find (is_op l) [j..<length l] = find (is_op l) [?j..<length l]"
        by (rule find_upt_skip) (use lt le False skip_passes_no_op in \<open>auto simp: le_less\<close>)
      ultimately show ?thesis using c op_at_is_op [OF "1.prems"(1) bl(1) j bl(2)] False sk
        by (subst find_op.simps) simp
    qed
  qed
qed

lemma find_op_line:
  assumes "str_of b 0 = Some l"
  shows "do { a0 \<leftarrow> skip_to False b 0; find_op b a0 } = Some (map_option (\<lambda>k. (k, l ! k)) (first_op l))"
proof (cases "l = []")
  case True
  then show ?thesis
    using skip_to_str [OF assms, of False] find_op_first [OF assms, of 0] by (simp add: first_op_def)
next
  case False
  let ?j = "0 + (length (drop 0 l) - length (next_word False (drop 0 l)))"
  have sk: "skip_to False b 0 = Some ?j" using skip_to_str(1) [OF assms, of False] by simp
  have c: "rd b 0 = Some (l ! 0)" "l ! 0 \<noteq> 0"
    using False str_of_nth [OF assms, of 0] str_of_bound [OF assms] str_of_nth_nz [OF assms, of 0] by (auto simp: rd_def)
  have lt: "0 < ?j" by (rule skip_to_advance [OF sk c])
  have "find_op b ?j = Some (map_option (\<lambda>k. (k, l ! k)) (find (is_op l) [?j..<length l]))"
    using next_word_blank_before [OF assms _ refl, of 0] lt by (intro find_op_first [OF assms]) auto
  moreover have "find (is_op l) [1..<length l] = find (is_op l) [?j..<length l]"
    by (rule find_upt_skip) (use lt skip_passes_no_op [of 0 _ l] in auto)
  ultimately show ?thesis using sk by (simp add: first_op_def)
qed

lemma first_opD: "first_op l = Some k \<Longrightarrow> is_op l k"
  by (auto simp: first_op_def find_Some_iff)

lemma str_of_drop: "str_of (drop j b) i = str_of b (j + i)"
proof (induction "drop j b" i rule: str_of.induct)
  case (1 i)
  show ?case
    by (subst str_of.simps, subst (2) str_of.simps) (auto simp: rd_drop 1 split: option.splits)
qed

lemma str_of_same_tail: "drop k b = drop k b' \<Longrightarrow> k \<le> i \<Longrightarrow> str_of b i = str_of b' i"
  using str_of_drop [of k b "i - k"] str_of_drop [of k b' "i - k"] by simp

lemma skip_to_after:
  assumes "str_of b i = Some l"
  shows "skip_to a b i = Some (i + length l - length (next_word a l))"
  using skip_to_str(1) [OF assms, of a] length_next_word [of a l] by simp

lemma bind_snd: "m \<bind> (\<lambda>(u, y). Some y) = map_option snd m"
  by (cases m) auto

lemma exec_line_op:
  assumes tab: "table_ok (builtin_table v)" and l: "str_of (heap s) 0 = Some l" and k: "first_op l = Some k"
  defines "rest \<equiv> next_word False (drop k l)"
  defines "r \<equiv> lookup (builtin_table v) (command_word rest)"
  shows "\<not> runnable r \<Longrightarrow> exec_line v mode b s = Some (s\<lparr>errnum := ERR_UNRECOGNIZED\<rparr>)"
    and "r = Some b2 \<Longrightarrow> runnable r \<Longrightarrow>
      func b (k - length (next_word True (take k l))) mode (s\<lparr>heap := (heap s)[k := 0]\<rparr>) = Some (ret, s2) \<Longrightarrow>
      length (heap s2) = length (heap s) \<Longrightarrow> drop (k + 1) (heap s2) = drop (k + 1) (heap s) \<Longrightarrow>
      exec_line v mode b s =
        (let s3 = s2\<lparr>heap := (heap s2)[k := l ! k]\<rparr>
         in if (l ! k = ch CHR ''&'') = (ret \<noteq> 0)
            then map_option snd (func b2 (length l - length (next_word True rest)) mode s3) else Some s3)"
proof -
  have op: "is_op l k" by (rule first_opD [OF k])
  then have kl: "k < length l" by (simp add: is_op_def)
  have kb: "k < length (heap s)" using kl str_of_bound [OF l] by simp
  have d: "str_of (heap s) k = Some (drop k l)" using str_of_suffix [OF l, of k] kl by simp
  define p where "p = k + (length (drop k l) - length rest)"
  have arg: "skip_to False (heap s) k = Some p" "str_of (heap s) p = Some rest"
    using skip_to_str [OF d, of False] by (simp_all add: rest_def p_def)
  have adv: "k < p"
    using skip_to_advance [OF arg(1), of "l ! k"] str_of_nth [OF l kl] str_of_nth_nz [OF l kl] kb by simp
  have fc: "find_command v p s = Some (r, s\<lparr>errnum := (if r = None then ERR_UNRECOGNIZED else errnum s)\<rparr>)"
    using find_command_lookup [OF tab arg(2)] by (simp add: r_def)
  have ex: "exec_line v mode b s = run_op v mode b k (l ! k) s"
    using find_op_line [OF l] k by (auto simp: exec_line_def bind_eq_Some_conv Option.bind_map_option)
  show "exec_line v mode b s = Some (s\<lparr>errnum := ERR_UNRECOGNIZED\<rparr>)" if "\<not> runnable r"
    using that unfolding ex by (simp add: run_op_def arg fc)
  assume r2: "r = Some b2" "runnable r"
    and f: "func b (k - length (next_word True (take k l))) mode (s\<lparr>heap := (heap s)[k := 0]\<rparr>) = Some (ret, s2)"
    and len: "length (heap s2) = length (heap s)" and tl: "drop (k + 1) (heap s2) = drop (k + 1) (heap s)"
  have cut: "skip_to True ((heap s)[k := 0]) 0 = Some (k - length (next_word True (take k l)))"
    using skip_to_after [of "(heap s)[k := 0]" 0 "take k l" True] str_of_update_nul [OF l, of k] kl by simp
  have s3: "str_of ((heap s2)[k := l ! k]) p = Some rest"
    using str_of_same_tail [of "k + 1" "(heap s2)[k := l ! k]" "heap s" p] tl adv arg(2) by simp
  have a2: "skip_to True ((heap s2)[k := l ! k]) p = Some (length l - length (next_word True rest))"
    using skip_to_after [OF s3, of True] length_next_word [of False "drop k l"] kl by (simp add: rest_def p_def)
  have amp: "(l ! k = ch CHR ''&'') = (ret \<noteq> 0) \<longleftrightarrow>
      (l ! k = ch CHR ''&'' \<and> ret \<noteq> 0) \<or> (l ! k = ch CHR ''|'' \<and> ret = 0)"
    using op by (auto simp: is_op_def)
  show "exec_line v mode b s =
        (let s3 = s2\<lparr>heap := (heap s2)[k := l ! k]\<rparr>
         in if (l ! k = ch CHR ''&'') = (ret \<noteq> 0)
            then map_option snd (func b2 (length l - length (next_word True rest)) mode s3) else Some s3)"
    unfolding ex run_op_def amp using kb len r2
    by (simp add: arg fc cut f a2 Let_def bind_snd)
qed

text \<open>
  C30. A line \<open>l\<close> with an operator runs its first command on the text before the operator and, if
  the operator is \<open>&&\<close> and the result is not zero, or it is \<open>||\<close> and the result is zero, then the
  second command on its own arguments, once the operator's character is back in the line: for any
  first command that leaves the text behind the operator as it is.  When the second command
  is unknown, or not meant for the command line, neither runs and \<open>ERR_UNRECOGNIZED\<close> is set.
\<close>

theorem exec_line_operator:
  assumes "table_ok (builtin_table v)" "str_of (heap s) 0 = Some l" "first_op l = Some k"
    and "func b (k - length (next_word True (take k l))) mode (s\<lparr>heap := (heap s)[k := 0]\<rparr>) = Some (ret, s2)"
    and "length (heap s2) = length (heap s)" "drop (k + 1) (heap s2) = drop (k + 1) (heap s)"
  shows "let rest = next_word False (drop k l); r = lookup (builtin_table v) (command_word rest);
             s3 = s2\<lparr>heap := (heap s2)[k := l ! k]\<rparr>
         in exec_line v mode b s =
           (if \<not> runnable r then Some (s\<lparr>errnum := ERR_UNRECOGNIZED\<rparr>)
            else if (l ! k = ch CHR ''&'') = (ret \<noteq> 0)
            then map_option snd (func (the r) (length l - length (next_word True rest)) mode s3) else Some s3)"
proof -
  define r where "r = lookup (builtin_table v) (command_word (next_word False (drop k l)))"
  show ?thesis
  proof (cases "runnable r")
    case True
    then obtain b2 where b2: "r = Some b2" by (cases r) (auto simp: runnable_def)
    show ?thesis
      using exec_line_op(2) [OF assms(1-3) b2 [unfolded r_def] True [unfolded r_def] assms(4-6)] True b2
      by (simp add: Let_def r_def)
  next
    case False
    then show ?thesis using exec_line_op(1) [OF assms(1-3)] by (simp add: Let_def r_def)
  qed
qed

section \<open>Scripts as lists of lines\<close>

definition script_text :: "u8 list list \<Rightarrow> u8 list" where
  "script_text ls = concat (map (\<lambda>l. l @ [0]) ls)"

text \<open>
  The lines of a script run in turn, each put into the buffer first.  \<open>Some ret\<close> is a return after
  an error, \<open>None\<close> the end of the lines.
\<close>

fun run_lines :: "('d, 'h, 'w) shell_env \<Rightarrow> u8 list list \<Rightarrow> ('d, 'h, 'w) builtin option \<Rightarrow> u8 list \<Rightarrow> ('d, 'h, 'w) shell \<Rightarrow> (int option \<times> ('d, 'h, 'w) shell) option" where
  "run_lines v [] r old s =
     (if errnum s \<noteq> ERR_NONE \<and> errorcheck s then map_option (Pair (Some 1)) (script_error r old s) else Some (None, s))"
| "run_lines v (l # ls) r old s =
     (if errnum s \<noteq> ERR_NONE \<and> errorcheck s then map_option (Pair (Some 1)) (script_error r old s)
      else do { h \<leftarrow> store (heap s) 0 (l @ [0]);
                let s1 = s\<lparr>errnum := ERR_NONE, heap := h\<rparr>;
                case lookup (builtin_table v) (command_word l) of
                  None \<Rightarrow> run_lines v ls None l (print_tty [Print (l @ [10])] (s1\<lparr>errnum := ERR_UNRECOGNIZED\<rparr>))
                | Some b \<Rightarrow>
                    if flags b AND BUILTIN_CMDLINE = 0 then run_lines v ls (Some b) l (s1\<lparr>errnum := ERR_UNRECOGNIZED\<rparr>)
                    else do { s2 \<leftarrow> exec_line v BUILTIN_SCRIPT b (s1\<lparr>buf_drive := -1\<rparr>); run_lines v ls (Some b) l s2 } })"

lemma str_of_blit_line:
  assumes "store h 0 (l @ [0]) = Some h'" "0 \<notin> set l"
  shows "str_of h' 0 = Some l"
  using assms str_of_literal [of l "drop (length l + 1) h"]
  by (auto simp: store_def blit_def split: if_splits)

lemma copy_line: "copy_obj h 0 (pre @ l @ 0 # r) (length pre) (length l + 1) = store h 0 (l @ [0])"
  by (simp add: copy_obj_def slice_def)

lemma bind_pair: "m \<bind> (\<lambda>x. Some (f, x)) = map_option (Pair f) m"
  by (cases m) auto

lemma script_turn_line:
  assumes tab: "table_ok (builtin_table v)" and l: "str_of (heap s) 0 = Some l" "l \<noteq> []"
  shows "script_turn v s =
    (case lookup (builtin_table v) (command_word l) of
       None \<Rightarrow> Some (Inr None, s\<lparr>errnum := ERR_UNRECOGNIZED\<rparr>)
     | Some b \<Rightarrow> if flags b AND BUILTIN_CMDLINE = 0 then Some (Inr (Some b), s\<lparr>errnum := ERR_UNRECOGNIZED\<rparr>)
         else map_option (Pair (Inr (Some b))) (exec_line v BUILTIN_SCRIPT b (s\<lparr>buf_drive := -1\<rparr>)))"
proof -
  obtain c t where ct: "l = c # t" using l(2) by (cases l) auto
  then have c: "rd (heap s) 0 = Some c" "c \<noteq> 0" using l(1) by (auto simp: cstr)
  show ?thesis
    by (simp add: script_turn_def c bind_pair find_command_lookup [OF tab l(1)] split: option.splits)
qed

text \<open>The end mark: without a kernel the script ends; otherwise \<open>boot\<close> is run.\<close>

lemma copy_end: "copy_obj h 0 (pre @ 0 # post) (length pre) (Suc 0) = wr h 0 0"
  using copy_line [of h pre "[]" post] by (cases h) (simp_all add: store_def blit_def wr_def)

lemma str_of_end: "str_of (pre @ 0 # post) (length pre) = Some []"
  by (simp add: cstr rd_def nth_append)

lemma script_loop_end:
  assumes "\<not> (errnum s \<noteq> ERR_NONE \<and> errorcheck s)" "\<not> kernel_loaded s"
  shows "script_loop v (pre @ 0 # post) (length pre) r old s =
    map_option (\<lambda>h. (0, s\<lparr>errnum := ERR_NONE, heap := h\<rparr>)) (wr (heap s) 0 0)"
proof (cases "wr (heap s) 0 0")
  case None
  then show ?thesis using assms(1) by (subst script_loop.simps) (auto simp: str_of_end copy_end)
next
  case (Some h)
  then have "rd h 0 = Some 0" by (auto simp: wr_def rd_def split: if_splits)
  then show ?thesis using assms Some by (subst script_loop.simps) (auto simp: str_of_end copy_end script_turn_def)
qed

lemma script_loop_prefix:
  assumes tab: "table_ok (builtin_table v)" and ls: "\<forall>l \<in> set ls. l \<noteq> [] \<and> 0 \<notin> set l"
    and run: "run_lines v ls r old s = Some (e, s')"
  shows "case e of Some ret \<Rightarrow> script_loop v (pre @ script_text ls @ 0 # post) (length pre) r old s = Some (ret, s')
    | None \<Rightarrow> \<not> (errnum s' \<noteq> ERR_NONE \<and> errorcheck s') \<and>
        (\<exists>r' old'. script_loop v (pre @ script_text ls @ 0 # post) (length pre) r old s =
           script_loop v ((pre @ script_text ls) @ 0 # post) (length (pre @ script_text ls)) r' old' s')"
  using ls run
proof (induction ls arbitrary: pre r old s)
  case Nil
  show ?case
  proof (cases "errnum s \<noteq> ERR_NONE \<and> errorcheck s")
    case True
    then show ?thesis using Nil.prems by (subst script_loop.simps) (auto simp: script_text_def)
  next
    case False
    then have "e = None" "s' = s" using Nil.prems by auto
    then show ?thesis using False by (auto simp: script_text_def)
  qed
next
  case (Cons l ls)
  let ?sc = "pre @ script_text (l # ls) @ 0 # post"
  show ?case
  proof (cases "errnum s \<noteq> ERR_NONE \<and> errorcheck s")
    case True
    then show ?thesis using Cons.prems by (subst script_loop.simps) auto
  next
    case False
    let ?v = "script_text ls @ 0 # post"
    have sc: "?sc = pre @ l @ 0 # ?v" "?sc = (pre @ l @ [0]) @ script_text ls @ 0 # post"
      "pre @ script_text (l # ls) = (pre @ l @ [0]) @ script_text ls"
      by (simp_all add: script_text_def)
    have l: "l \<noteq> []" "0 \<notin> set l" using Cons.prems by auto
    have st: "str_of ?sc (length pre) = Some l" unfolding sc(1) by (rule str_of_at [OF l(2)])
    let ?Q = "\<lambda>X. case e of Some ret \<Rightarrow> X = Some (ret, s')
      | None \<Rightarrow> \<not> (errnum s' \<noteq> ERR_NONE \<and> errorcheck s') \<and>
        (\<exists>r' old'. X = script_loop v ((pre @ script_text (l # ls)) @ 0 # post) (length (pre @ script_text (l # ls))) r' old' s')"
    have IH: "?Q (script_loop v ?sc (length pre + length l + 1) r1 l sa)"
      if "run_lines v ls r1 l sa = Some (e, s')" for r1 sa
      using Cons.IH [OF _ that, of "pre @ l @ [0]"] Cons.prems(1) unfolding sc(2,3) by (cases e) (simp_all add: add.assoc)
    obtain h where h: "store (heap s) 0 (l @ [0]) = Some h"
      using Cons.prems(2) False by (auto simp: bind_eq_Some_conv split: if_splits)
    have cp: "copy_obj (heap s) 0 ?sc (length pre) (length l + 1) = Some h"
      unfolding sc(1) copy_line h ..
    let ?s1 = "s\<lparr>errnum := ERR_NONE, heap := h\<rparr>"
    have turn: "script_turn v ?s1 =
      (case lookup (builtin_table v) (command_word l) of
         None \<Rightarrow> Some (Inr None, ?s1\<lparr>errnum := ERR_UNRECOGNIZED\<rparr>)
       | Some b \<Rightarrow> if flags b AND BUILTIN_CMDLINE = 0 then Some (Inr (Some b), ?s1\<lparr>errnum := ERR_UNRECOGNIZED\<rparr>)
           else map_option (Pair (Inr (Some b))) (exec_line v BUILTIN_SCRIPT b (?s1\<lparr>buf_drive := -1\<rparr>)))"
      by (rule script_turn_line [OF tab _ l(1)]) (simp add: str_of_blit_line [OF h l(2)])
    have step: "script_loop v ?sc (length pre) r old s =
      do { (r, sa) \<leftarrow> script_turn v ?s1;
           case r of Inl ret \<Rightarrow> Some (ret, sa)
           | Inr None \<Rightarrow> script_loop v ?sc (length pre + length l + 1) None l (print_tty [Print (l @ [10])] sa)
           | Inr (Some b) \<Rightarrow> script_loop v ?sc (length pre + length l + 1) (Some b) l sa }"
      using False by (subst script_loop.simps) (simp only: st cp option.simps bind.simps if_False simp_thms)
    have "\<exists>r1 sa. script_loop v ?sc (length pre) r old s = script_loop v ?sc (length pre + length l + 1) r1 l sa
        \<and> run_lines v ls r1 l sa = Some (e, s')"
      using Cons.prems(2) False h unfolding step turn
      by (auto simp: Let_def bind_eq_Some_conv split: option.splits if_splits) blast+
    then obtain r1 sa where eq: "script_loop v ?sc (length pre) r old s = script_loop v ?sc (length pre + length l + 1) r1 l sa"
      "run_lines v ls r1 l sa = Some (e, s')" by blast
    show ?thesis unfolding eq(1) by (rule IH [OF eq(2)])
  qed
qed

lemma script_loop_lines:
  assumes tab: "table_ok (builtin_table v)" and ls: "\<forall>l \<in> set ls. l \<noteq> [] \<and> 0 \<notin> set l"
    and run: "run_lines v ls r old s = Some (e, s')"
    and fin: "e = None \<Longrightarrow> \<not> kernel_loaded s' \<and> heap s' \<noteq> []"
  shows "script_loop v (pre @ script_text ls @ 0 # post) (length pre) r old s =
    Some (case e of Some ret \<Rightarrow> (ret, s') | None \<Rightarrow> (0, s'\<lparr>errnum := ERR_NONE, heap := (heap s')[0 := 0]\<rparr>))"
proof (cases e)
  case None
  note p = script_loop_prefix [OF tab ls run, of pre post, unfolded None option.case]
  have w: "wr (heap s') 0 0 = Some ((heap s')[0 := 0])" using fin [OF None] by (simp add: wr_def)
  have "script_loop v ((pre @ script_text ls) @ 0 # post) (length (pre @ script_text ls)) r' old' s' =
      Some (0, s'\<lparr>errnum := ERR_NONE, heap := (heap s')[0 := 0]\<rparr>)" for r' old'
    using script_loop_end [of s' v "pre @ script_text ls" post r' old'] p fin [OF None] w by simp
  then show ?thesis using p None by auto
next
  case (Some ret)
  then show ?thesis using script_loop_prefix [OF tab ls run, of pre post] by simp
qed

text \<open>With a kernel loaded, \<open>boot\<close> is run at the end mark, and an error it reports ends the script.\<close>

lemma script_loop_boot:
  assumes tab: "table_ok (builtin_table v)" and s: "\<not> (errnum s \<noteq> ERR_NONE \<and> errorcheck s)" "kernel_loaded s"
    and h: "wr (heap s) 0 0 = Some h" "store h 0 (cs ''boot'' @ [0]) = Some h'"
    and b: "lookup (builtin_table v) (cs ''boot'') = Some b" "flags b AND BUILTIN_CMDLINE \<noteq> 0"
    and run: "exec_line v BUILTIN_SCRIPT b (s\<lparr>errnum := ERR_NONE, heap := h', buf_drive := -1\<rparr>) = Some u"
    and err: "errnum u \<noteq> ERR_NONE" "errorcheck u"
  shows "script_loop v (pre @ 0 # post) (length pre) r old s = map_option (Pair 1) (script_error (Some b) [] u)"
proof -
  let ?sa = "s\<lparr>errnum := ERR_NONE, heap := h\<rparr>"
  have h0: "rd h 0 = Some 0" using h(1) by (auto simp: wr_def rd_def split: if_splits)
  have cb: "copy_obj h 0 (cs ''boot'' @ [0]) 0 5 = Some h'"
    using copy_line [of h "[]" "cs ''boot''" "[]"] h(2) by (simp add: numeral_eq_Suc)
  have nz: "0 \<notin> set (cs ''boot'')" by simp
  have st: "str_of h' 0 = Some (cs ''boot'')" by (rule str_of_blit_line [OF h(2) nz])
  have w: "command_word (cs ''boot'') = cs ''boot''" by (simp add: command_word_def sep_def)
  have f: "find_command v 0 (?sa\<lparr>heap := h'\<rparr>) = Some (Some b, ?sa\<lparr>heap := h'\<rparr>)"
    using find_command_lookup [OF tab, of "?sa\<lparr>heap := h'\<rparr>" 0 "cs ''boot''"] st b(1) w by simp
  have "script_turn v ?sa = Some (Inr (Some b), u)"
    unfolding script_turn_def using h0 s(2) cb f b(2) run by simp
  moreover have "script_loop v (pre @ 0 # post) (length pre + length [] + 1) (Some b) [] u = map_option (Pair 1) (script_error (Some b) [] u)"
    using err by (subst script_loop.simps) simp
  ultimately show ?thesis
    using s(1) h(1) by (subst script_loop.simps) (auto simp: str_of_end copy_end)
qed

text \<open>
  C29. \<open>run_script\<close> on the lines of a script, each terminated and an empty one at the end, runs them in
  turn and returns 1 after the first error, or 0 when they end with no kernel loaded; it reads no
  byte of the script beyond its end.
\<close>

theorem run_script_lines:
  assumes "table_ok (builtin_table v)" "\<forall>l \<in> set ls. l \<noteq> [] \<and> 0 \<notin> set l"
    and "init_cmdline v s = Some s0" "run_lines v ls None [] s0 = Some (e, s')"
    and "e = None \<Longrightarrow> \<not> kernel_loaded s' \<and> heap s' \<noteq> []"
  shows "run_script v (script_text ls @ [0]) s =
    Some (case e of Some ret \<Rightarrow> (ret, s') | None \<Rightarrow> (0, s'\<lparr>errnum := ERR_NONE, heap := (heap s')[0 := 0]\<rparr>))"
proof -
  have "s0\<lparr>errnum := ERR_NONE\<rparr> = s0"
    using assms(3) by (auto simp: init_cmdline_def Let_def bind_eq_Some_conv)
  then show ?thesis
    using script_loop_lines [OF assms(1,2,4,5), of "[]" "[]"] assms(3) by (simp add: run_script_def)
qed

section \<open>Concrete lines\<close>

definition demo_cmd :: "string \<Rightarrow> int \<Rightarrow> (unit, unit, unit) builtin" where
  "demo_cmd n r = \<lparr>name = cs n, flags = 3, func = (\<lambda>a mode s. Some (r, print_tty [Print (cs n)] s)), is_commandline_func = False\<rparr>"

definition demo_env :: "(unit, unit, unit) shell_env" where
  "demo_env = \<lparr>builtin_table = [demo_cmd ''no'' 0, demo_cmd ''yes'' 1], init_builtins = Some, saved_mem_upper = 1000, mmap_length = 0\<rparr>"

definition demo_shell :: "u8 list \<Rightarrow> (unit, unit, unit) shell" where
  "demo_shell h = globals.extend (globals_start (\<lambda>a. 0) () ())
     \<lparr>heap = h, count_lines = -1, use_pager = True, errorcheck = True, fallback_entryno = -1, kernel_loaded = False,
      boot_drive = 0x80, install_partition = 0xFFFFFF, world = ()\<rparr>"

lemma demo_env_ok: "table_ok (builtin_table demo_env)"
  by code_simp

theorem find_command_correct_witness:
  "find_command demo_env 0 (demo_shell (cs ''yes=1'' @ [0])) =
     Some (Some (demo_cmd ''yes'' 1), demo_shell (cs ''yes=1'' @ [0]))"
proof -
  have l: "str_of (heap (demo_shell (cs ''yes=1'' @ [0]))) 0 = Some (cs ''yes=1'')" by code_simp
  have "name (demo_cmd ''no'' 0) \<noteq> command_word (cs ''yes=1'')"
    "name (demo_cmd ''yes'' 1) = command_word (cs ''yes=1'')" by code_simp+
  then have "lookup (builtin_table demo_env) (command_word (cs ''yes=1'')) = Some (demo_cmd ''yes'' 1)"
    by (simp add: lookup_def demo_env_def)
  then show ?thesis using find_command_correct [OF demo_env_ok l] by simp
qed

theorem exec_line_operator_witness:
  "map_option out (exec_line demo_env BUILTIN_CMDLINE (demo_cmd ''yes'' 1) (demo_shell (cs ''yes && no x'' @ [0])))
     = Some [Print (cs ''yes''), Print (cs ''no'')]"
proof -
  let ?s = "demo_shell (cs ''yes && no x'' @ [0])" and ?l = "cs ''yes && no x''"
  have l: "str_of (heap ?s) 0 = Some ?l" "first_op ?l = Some 4" by code_simp+
  have n: "name (demo_cmd ''no'' 0) = command_word (next_word False (drop 4 ?l))" by code_simp
  then have r: "lookup (builtin_table demo_env) (command_word (next_word False (drop 4 ?l))) = Some (demo_cmd ''no'' 0)"
    by (simp add: lookup_def demo_env_def)
  have run: "runnable (lookup (builtin_table demo_env) (command_word (next_word False (drop 4 ?l))))"
    unfolding r by (simp add: runnable_def demo_cmd_def BUILTIN_CMDLINE_def)
  define s2 where "s2 = print_tty [Print (cs ''yes'')] (?s\<lparr>heap := (heap ?s)[4 := 0]\<rparr>)"
  have f: "func (demo_cmd ''yes'' 1) (4 - length (next_word True (take 4 ?l))) BUILTIN_CMDLINE
      (?s\<lparr>heap := (heap ?s)[4 := 0]\<rparr>) = Some (1, s2)"
    by (simp add: demo_cmd_def s2_def)
  have same: "length (heap s2) = length (heap ?s)" "drop (4 + 1) (heap s2) = drop (4 + 1) (heap ?s)"
    by (simp_all add: s2_def print_tty_def)
  have amp: "?l ! 4 = ch CHR ''&''" by simp
  have "out s2 = [Print (cs ''yes'')]" unfolding s2_def by code_simp
  with amp show ?thesis
    using exec_line_operator [OF demo_env_ok l f same] r run
    by (simp add: Let_def demo_cmd_def print_tty_def)
qed

theorem run_script_lines_witness:
  "map_option (\<lambda>(ret, s). (ret, out s)) (run_script demo_env (script_text [cs ''yes'', cs ''no''] @ [0]) (demo_shell (replicate 16 0)))
     = Some (0, [Print (cs ''yes''), Print (cs ''no'')])"
proof -
  define s0 where "s0 = (demo_shell (replicate 16 0))\<lparr>saved_drive := 0x80, saved_partition := 0xFFFFFF, mem_upper := 1000\<rparr>"
  define r where "r = run_lines demo_env [cs ''yes'', cs ''no''] None [] s0"
  have i: "init_cmdline demo_env (demo_shell (replicate 16 0)) = Some s0"
    by (simp add: init_cmdline_def demo_env_def s0_def demo_shell_def globals_start_def globals.defs)
  have "map_option fst r = Some None" "map_option (\<lambda>(e, s). (kernel_loaded s, heap s = [], out s)) r = Some (False, False, [Print (cs ''yes''), Print (cs ''no'')])"
    unfolding r_def s0_def by code_simp+
  then obtain s' where s': "r = Some (None, s')" "\<not> kernel_loaded s' \<and> heap s' \<noteq> []" "out s' = [Print (cs ''yes''), Print (cs ''no'')]"
    by auto
  show ?thesis
    using run_script_lines [OF demo_env_ok _ i s'(1) [unfolded r_def]] s'(2,3) by simp
qed

end
