(* ===== verification/PartCmd.thy ===== *)
theory PartCmd
imports DevName CmdLine
begin

text \<open>
  The commands on partition tables of \<open>stage2/builtins.c\<close>: \<open>hide\<close>, \<open>unhide\<close>, \<open>hiddenflag\<close> with
  \<open>set_partition_hidden_flag\<close>, \<open>parttype\<close>, \<open>makeactive\<close> and \<open>partnew\<close>.  An argument is an index into the
  command-line buffer \<open>heap\<close>.
\<close>

section \<open>Finding a partition\<close>

text \<open>The iterator of the local variables; only the partition number is initialised in the code.\<close>

definition first_iter :: "('d, 'h, 'z) gstate \<Rightarrow> part_iter" where
  "first_iter s = \<lparr>next_drive = current_drive s, next_dest = 0xFFFFFF, next_part_no = 0xFFFFFF, next_type = 0, next_start = 0,
     next_len = 0, next_offset = 0, next_entry = 0, next_ext_offset = 0, next_buf = MBR\<rparr>"

text \<open>The loop over the partitions up to \<open>current_partition\<close>.\<close>

partial_function (option) seek_partition :: "('d, 'h) disk_env \<Rightarrow> part_iter \<Rightarrow> ('d, 'h, 'z) gstate \<Rightarrow> (part_iter option \<times> ('d, 'h, 'z) gstate) option" where
  "seek_partition v it s =
     do { (ok, it1, s1) \<leftarrow> next_partition v it s;
          if \<not> ok then Some (None, s1)
          else if next_part_no it1 = current_partition s1 then Some (Some it1, s1)
          else seek_partition v it1 s1 }"

definition PC_SLICE_TYPE_HIDDEN_FLAG :: u8 where "PC_SLICE_TYPE_HIDDEN_FLAG = 0x10"

definition type_address :: "u32 \<Rightarrow> u32" where
  "type_address e = MBR + 446 + 4 + push_bit 4 e"

text \<open>The checks both commands start with.\<close>

definition is_slice_of_hard_disk :: "('d, 'h, 'z) gstate \<Rightarrow> bool" where
  "is_slice_of_hard_disk s \<longleftrightarrow> current_drive s AND 0x80 \<noteq> 0 \<and> drop_bit 16 (current_partition s) \<noteq> 0xFF
     \<and> current_partition s AND 0xFFFF = 0xFFFF"

text \<open>Store a type and write the table back.\<close>

definition store_type :: "('d, 'h) disk_env \<Rightarrow> part_iter \<Rightarrow> u8 \<Rightarrow> ('d, 'h, 'z) gstate \<Rightarrow> (bool \<times> ('d, 'h, 'z) gstate) option" where
  "store_type v it ty s =
     rawwrite v (current_drive s) (next_offset it) MBR
       (s\<lparr>mem := (mem s)(type_address (next_entry it) := ty), buf_track := -1\<rparr>)"

text \<open>\<open>hidden\<close> is \<open>None\<close> for -1, the status only.\<close>

definition set_partition_hidden_flag :: "('d, 'h) disk_env \<Rightarrow> bool option \<Rightarrow> ('d, 'h, 'z) gstate \<Rightarrow> (int \<times> ('d, 'h, 'z) gstate) option" where
  "set_partition_hidden_flag v hidden s =
     (if \<not> is_slice_of_hard_disk s then Some (0, fail ERR_BAD_ARGUMENT s)
      else do { (r, s1) \<leftarrow> seek_partition v (first_iter s) s;
                case r of None \<Rightarrow> Some (0, s1)
                | Some it \<Rightarrow>
                    let ty = PC_SLICE_TYPE (mem s1) MBR (next_entry it)
                    in case hidden of None \<Rightarrow> Some (uint (ty AND PC_SLICE_TYPE_HIDDEN_FLAG), s1)
                       | Some h \<Rightarrow> do { (ok, s2) \<leftarrow> store_type v it (if h then ty OR PC_SLICE_TYPE_HIDDEN_FLAG
                                                        else ty AND NOT PC_SLICE_TYPE_HIDDEN_FLAG) s1;
                                         Some (of_bool ok, s2) } })"

section \<open>The commands\<close>

definition BUILTIN_MENU :: u32 where "BUILTIN_MENU = 0x2"

text \<open>\<open>grub_memcmp (arg, "...", n) == 0\<close> for a literal of \<open>n\<close> characters.\<close>

definition arg_is :: "string \<Rightarrow> cbuf \<Rightarrow> nat \<Rightarrow> bool option" where
  "arg_is w b a = map_option (\<lambda>r. r = 0) (grub_memcmp b a (cs w) 0 (length w))"

definition no_arg :: "cbuf \<Rightarrow> nat \<Rightarrow> bool option" where
  "no_arg b a = map_option (\<lambda>c. c = 0 \<or> c = 32 \<or> c = 9) (rd b a)"

text \<open>The device of the argument, or the root device without one.\<close>

definition device_arg :: "('d, 'h) disk_env \<Rightarrow> nat \<Rightarrow> ('d, 'h, 'w) shell \<Rightarrow> (bool \<times> ('d, 'h, 'w) shell) option" where
  "device_arg v a s =
     do { none \<leftarrow> no_arg (heap s) a;
          if none then Some (True, s\<lparr>current_drive := saved_drive s, current_partition := saved_partition s\<rparr>)
          else do { (r, b, s1) \<leftarrow> set_device v (heap s) a s; Some (r \<noteq> None, s1\<lparr>heap := b\<rparr>) } }"

definition hide_func :: "('d, 'h) disk_env \<Rightarrow> nat \<Rightarrow> u32 \<Rightarrow> ('d, 'h, 'w) shell \<Rightarrow> (int \<times> ('d, 'h, 'w) shell) option" where
  "hide_func v a mode s =
     do { (ok, s1) \<leftarrow> device_arg v a s;
          if \<not> ok then Some (0, s1) else set_partition_hidden_flag v (Some True) s1 }"

definition unhide_func :: "('d, 'h) disk_env \<Rightarrow> nat \<Rightarrow> u32 \<Rightarrow> ('d, 'h, 'w) shell \<Rightarrow> (int \<times> ('d, 'h, 'w) shell) option" where
  "unhide_func v a mode s =
     do { (ok, s1) \<leftarrow> device_arg v a s;
          if \<not> ok then Some (0, s1) else set_partition_hidden_flag v (Some False) s1 }"

text \<open>A literal the argument starts with.\<close>

lemma arg_is_hd: "arg_is (c # w) b a = Some True \<Longrightarrow> rd b a = Some (ch c)"
  by (auto simp: arg_is_def bind_eq_Some_conv cmem split: if_splits)

function hidden_options :: "cbuf \<Rightarrow> nat \<Rightarrow> bool option \<Rightarrow> (nat \<times> bool option) option" where
  "hidden_options b a hidden =
     do { set \<leftarrow> arg_is ''--set'' b a;
          clear \<leftarrow> (if set then Some False else arg_is ''--clear'' b a);
          if set \<or> clear then do { a' \<leftarrow> skip_to False b a; hidden_options b a' (Some set) }
          else Some (a, hidden) }"
  by pat_completeness auto
termination
proof (relation "measure (\<lambda>(b, a, h). length b - a)", goal_cases)
  case (2 b a hidden set clear a')
  then have "rd b a = Some (ch CHR ''-'')"
    using arg_is_hd [of "CHR ''-''" "''-set''" b a] arg_is_hd [of "CHR ''-''" "''-clear''" b a] by (auto split: if_splits)
  then show ?case using skip_to_advance [OF 2(4)] by (auto simp: cmem)
qed simp

declare hidden_options.simps [simp del]

definition hiddenflag_func :: "('d, 'h) disk_env \<Rightarrow> nat \<Rightarrow> u32 \<Rightarrow> ('d, 'h, 'w) shell \<Rightarrow> (int \<times> ('d, 'h, 'w) shell) option" where
  "hiddenflag_func v a mode s =
     do { (a', hidden) \<leftarrow> hidden_options (heap s) a None;
          (ok, s1) \<leftarrow> device_arg v a' s;
          if \<not> ok then Some (0, s1) else set_partition_hidden_flag v hidden s1 }"

definition makeactive_func :: "('d, 'h) disk_env \<Rightarrow> nat \<Rightarrow> u32 \<Rightarrow> ('d, 'h, 'w) shell \<Rightarrow> (int \<times> ('d, 'h, 'w) shell) option" where
  "makeactive_func v a mode s =
     do { status \<leftarrow> arg_is ''--status'' (heap s) a;
          (ok, s1) \<leftarrow> make_saved_active v status s;
          Some (of_bool ok, s1) }"

text \<open>The partition and the new type; the type is -1 without one, and the result \<open>None\<close> for a return of 0.\<close>

definition parttype_args :: "('d, 'h) disk_env \<Rightarrow> nat \<Rightarrow> ('d, 'h, 'w) shell \<Rightarrow> (u32 option \<times> ('d, 'h, 'w) shell) option" where
  "parttype_args v a s =
     do { none \<leftarrow> no_arg (heap s) a;
          if none then Some (Some (-1), s\<lparr>current_drive := saved_drive s, current_partition := saved_partition s\<rparr>)
          else do { (r, b, s0) \<leftarrow> set_device v (heap s) a s;
                    let s1 = s0\<lparr>heap := b\<rparr>;
                    if r = None then
                      do { (n, s2) \<leftarrow> parse_num (heap s1) a s1;
                           Some (case n of None \<Rightarrow> (None, s2)
                                 | Some (_, ty) \<Rightarrow> (Some ty, s2\<lparr>current_drive := saved_drive s2, current_partition := saved_partition s2\<rparr>)) }
                    else do { a' \<leftarrow> skip_to False (heap s1) a;
                              no_type \<leftarrow> no_arg (heap s1) a';
                              if no_type then Some (Some (-1), s1)
                              else do { (n, s2) \<leftarrow> parse_num (heap s1) a' s1; Some (map_option snd n, s2) } } } }"

definition parttype_found :: "('d, 'h) disk_env \<Rightarrow> part_iter \<Rightarrow> u32 \<Rightarrow> ('d, 'h, 'z) gstate \<Rightarrow> (int \<times> ('d, 'h, 'z) gstate) option" where
  "parttype_found v it new_type s =
     (if new_type = -1 then
        let ty = PC_SLICE_TYPE (mem s) MBR (next_entry it)
        in do { s1 \<leftarrow> (if 0 <s debug s
                      then do { t \<leftarrow> gprintf ''Partition type for (hd%d,%d) is 0x%X''
                                  [PNum (current_drive s AND 0x7F), PNum (drop_bit 16 (current_partition s)), PNum (ucast ty)] s;
                                Some (print_tty [Print [10]] t) }
                      else Some s);
                Some (uint ty, s1) }
      else do { (ok, s1) \<leftarrow> store_type v it (ucast new_type) s;
                Some (if ok then (1, s1\<lparr>errnum := ERR_NONE\<rparr>) else (0, s1)) })"

definition parttype_func :: "('d, 'h) disk_env \<Rightarrow> nat \<Rightarrow> u32 \<Rightarrow> ('d, 'h, 'w) shell \<Rightarrow> (int \<times> ('d, 'h, 'w) shell) option" where
  "parttype_func v a mode s =
     do { (r, s1) \<leftarrow> parttype_args v a s;
          case r of None \<Rightarrow> Some (0, s1)
          | Some new_type \<Rightarrow>
              if \<not> is_slice_of_hard_disk s1 \<or> (new_type \<noteq> -1 \<and> new_type > 0xFF) then Some (0, fail ERR_BAD_ARGUMENT s1)
              else do { (it, s2) \<leftarrow> seek_partition v (first_iter s1) s1;
                        case it of None \<Rightarrow> Some (0, s2)
                        | Some it \<Rightarrow> parttype_found v it new_type (s2\<lparr>errnum := ERR_NONE\<rparr>) } }"

section \<open>A new partition\<close>

text \<open>Cylinder, head and sector in the format of interrupt 13: \<open>cl\<close>, \<open>ch\<close> and \<open>dh\<close>.\<close>

definition lba_to_chs :: "geometry \<Rightarrow> u32 \<Rightarrow> (u32 \<times> u32 \<times> u32) option" where
  "lba_to_chs g lba =
     (if sectors g = 0 \<or> heads g = 0 \<or> sectors g * heads g = 0 then None
      else let sector = lba mod sectors g + 1;
               head = (lba div sectors g) mod heads g;
               c1 = lba div (sectors g * heads g);
               c2 = (if c1 > 0x3FF then 0x3FF else c1);
               cylinder = (if c2 \<ge> cylinders g then cylinders g - 1 else c2)
           in Some (sector OR drop_bit 2 (cylinder AND 0x300), cylinder AND 0xFF, head))"

text \<open>The 16 bytes of an entry behind its flag.\<close>

definition entry_bytes :: "u32 \<times> u32 \<times> u32 \<Rightarrow> u32 \<times> u32 \<times> u32 \<Rightarrow> u32 \<Rightarrow> u32 \<Rightarrow> u32 \<Rightarrow> u8 list" where
  "entry_bytes start_chs end_chs ty start len =
     (case start_chs of (cl, c, dh) \<Rightarrow> [ucast dh, ucast cl, ucast c]) @ [ucast ty]
     @ (case end_chs of (cl, c, dh) \<Rightarrow> [ucast dh, ucast cl, ucast c]) @ bytes32 start @ bytes32 len"

text \<open>An entry in use must be covered by another one.\<close>

definition covered :: "mem \<Rightarrow> u32 \<Rightarrow> bool" where
  "covered m e \<longleftrightarrow> (\<exists>i \<in> set [0, 1, 2, 3]. i \<noteq> e \<and> PC_SLICE_START m MBR e \<ge> PC_SLICE_START m MBR i
     \<and> PC_SLICE_START m MBR e + PC_SLICE_LENGTH m MBR e \<le> PC_SLICE_START m MBR i + PC_SLICE_LENGTH m MBR i)"

text \<open>Clear the flags of the other entries, with a message for each.\<close>

fun deactivate :: "u32 list \<Rightarrow> u32 \<Rightarrow> ('d, 'h, 'z) gstate \<Rightarrow> ('d, 'h, 'z) gstate option" where
  "deactivate [] e s = Some s"
| "deactivate (i # is) e s =
     do { let flag = PC_SLICE_FLAG (mem s) MBR i;
          s1 \<leftarrow> (if i = e \<or> flag = 0 then Some s
                else do { t \<leftarrow> (if \<not> 0 <s debug s then Some s
                               else do { t \<leftarrow> (if flag = 0x80 then gprintf ''The active flag(0x80) of partition %d was changed to 0.'' [PNum i] s
                                              else gprintf ''The invalid active flag(0x%X) of partition %d was changed to 0.'' [PNum (ucast flag), PNum i] s);
                                         Some (print_tty [Print [10]] t) });
                          Some (t\<lparr>mem := set_flag MBR i 0 (mem t)\<rparr>) });
          deactivate is e s1 }"

text \<open>
  The part behind the arguments: \<open>from_file\<close> says that they were taken from a file.
\<close>

definition write_partition :: "('d, 'h) disk_env \<Rightarrow> bool \<Rightarrow> bool \<Rightarrow> u32 \<Rightarrow> u32 \<Rightarrow> u32 \<Rightarrow> u32 \<Rightarrow> ('d, 'h, 'z) gstate \<Rightarrow> (int \<times> ('d, 'h, 'z) gstate) option" where
  "write_partition v from_file active e ty start len s =
     do { (ok, s1) \<leftarrow> rawread v (current_drive s) 0 0 SECTOR_SIZE MBR s;
          if \<not> ok then Some (0, s1)
          else if from_file \<and> (PC_SLICE_START (mem s1) MBR e \<noteq> 0 \<or> PC_SLICE_LENGTH (mem s1) MBR e \<noteq> 0) \<and> \<not> covered (mem s1) e
          then do { s2 \<leftarrow> (if 0 <s debug s1
                          then do { t \<leftarrow> gprintf ''Cannot overwrite an independent partition.'' [] s1; Some (print_tty [Print [10]] t) }
                          else Some s1);
                    Some (0, fail ERR_BAD_ARGUMENT s2) }
          else if \<not> (ty = 0 \<and> start = 0 \<and> len = 0) \<and> (start = 0 \<or> len = 0) then Some (0, fail ERR_BAD_PART_TABLE s1)
          else do { (chs1, chs2) \<leftarrow> (if ty = 0 \<and> start = 0 \<and> len = 0 then Some ((0, 0, 0), (0, 0, 0))
                                     else do { a \<leftarrow> lba_to_chs (buf_geom s1) start; b \<leftarrow> lba_to_chs (buf_geom s1) (start + len - 1); Some (a, b) });
                    let s2 = (if active then s1\<lparr>mem := set_flag MBR e 0x80 (mem s1)\<rparr>
                              else if PC_SLICE_FLAG (mem s1) MBR e \<noteq> 0x80 then s1\<lparr>mem := set_flag MBR e 0 (mem s1)\<rparr> else s1);
                    s3 \<leftarrow> (if PC_SLICE_FLAG (mem s2) MBR e = 0x80 then deactivate [0, 1, 2, 3] e s2 else Some s2);
                    let m = poke (MBR + 510) [0x55, 0xAA]
                              (poke (MBR + 446 + push_bit 4 e + 1) (entry_bytes chs1 chs2 ty start len) (mem s3));
                    (w, s4) \<leftarrow> rawwrite v (current_drive s3) 0 MBR (s3\<lparr>mem := m, buf_track := -1\<rparr>);
                    Some (of_bool w, s4) } }"

text \<open>
  The arguments \<open>PART TYPE START LEN\<close>; \<open>partnew_file\<close> is the branch that takes \<open>START\<close> from a block list or
  file, from the position of \<open>START\<close> on: the start, length and type, or \<open>None\<close> for a return of 0.
\<close>

definition partnew_func :: "('d, 'h) disk_env \<Rightarrow> (nat \<Rightarrow> u32 \<Rightarrow> ('d, 'h, 'w) shell \<Rightarrow> ((u32 \<times> u32 \<times> u32) option \<times> ('d, 'h, 'w) shell) option) \<Rightarrow>
    nat \<Rightarrow> u32 \<Rightarrow> ('d, 'h, 'w) shell \<Rightarrow> (int \<times> ('d, 'h, 'w) shell) option" where
  "partnew_func v partnew_file a0 mode s0 =
     do { active \<leftarrow> arg_is ''--active'' (heap s0) a0;
          a1 \<leftarrow> (if active then skip_to False (heap s0) a0 else Some a0);
          (r, b, s) \<leftarrow> set_device v (heap s0) a1 s0;
          let s1 = s\<lparr>heap := b\<rparr>;
          if r = None then Some (0, s1)
          else if current_drive s1 AND 0x80 = 0 \<or> drop_bit 16 (current_partition s1) > 3 \<or> current_partition s1 AND 0xFFFF \<noteq> 0xFFFF
          then Some (0, fail ERR_BAD_ARGUMENT s1)
          else do { let e = drop_bit 16 (current_partition s1);
                    a2 \<leftarrow> skip_to False b a1;
                    (tn, s2) \<leftarrow> parse_num b a2 s1;
                    case tn of None \<Rightarrow> Some (0, s2)
                    | Some (p2, ty) \<Rightarrow>
                        if ty > 0xFF then Some (0, fail ERR_BAD_ARGUMENT s2)
                        else do { a3 \<leftarrow> skip_to False b p2;
                                  (sn, s3) \<leftarrow> parse_num b a3 s2;
                                  (ln, s4) \<leftarrow> (case sn of None \<Rightarrow> Some (None, s3)
                                              | Some (p3, start) \<Rightarrow> do { a4 \<leftarrow> skip_to False b p3; (n, t) \<leftarrow> parse_num b a4 s3;
                                                                         Some (map_option (\<lambda>(p, len). (start, len)) n, t) });
                                  case ln of
                                    Some (start, len) \<Rightarrow>
                                      if mode AND (BUILTIN_MENU OR BUILTIN_SCRIPT) \<noteq> 0 then
                                        do { t \<leftarrow> (if 0 <s debug s4
                                                  then do { t \<leftarrow> gprintf ''This form of partnew is inhibited from running in a script.'' [] s4;
                                                            Some (print_tty [Print [10]] t) }
                                                  else Some s4);
                                             Some (0, fail ERR_BAD_ARGUMENT t) }
                                      else write_partition v False active e ty start len s4
                                  | None \<Rightarrow>
                                      do { (f, s5) \<leftarrow> partnew_file a3 ty s4;
                                           case f of None \<Rightarrow> Some (0, s5)
                                           | Some (start, len, ty') \<Rightarrow> write_partition v True active e ty' start len s5 } } } }"

end
