(* ===== verification/SliceWalk.thy ===== *)
theory SliceWalk
imports PartTable DiskRead
begin

text \<open>
  The chain of partition tables as a relation on the content of a disk, and that \<open>next_pc_slice\<close> follows it:
  it returns exactly the next slice of the relation, and does not return when the chain of extended
  partitions comes back to itself.
\<close>

section \<open>The tables of a disk\<close>

definition sector_image :: "(nat \<Rightarrow> u8) \<Rightarrow> nat \<Rightarrow> mem" where
  "sector_image disk sector = (\<lambda>a. disk (sector * 512 + unat a))"

text \<open>The sectors of a disk whose whole track is on it.\<close>

definition table_at :: "(nat \<Rightarrow> u8) \<Rightarrow> nat \<Rightarrow> nat \<Rightarrow> u32 \<Rightarrow> mem option" where
  "table_at disk N spt off = (if unat off div spt * spt + spt \<le> N then Some (sector_image disk (unat off)) else None)"

definition slice_used :: "mem \<Rightarrow> nat \<Rightarrow> bool" where
  "slice_used t j \<longleftrightarrow> \<not> PC_SLICE_ENTRY_IS_EMPTY t 0 (of_nat j) \<and> PC_SLICE_TYPE t 0 (of_nat j) \<noteq> 0"

definition slice_extended :: "mem \<Rightarrow> nat \<Rightarrow> bool" where
  "slice_extended t j \<longleftrightarrow> IS_PC_SLICE_TYPE_EXTENDED (ucast (PC_SLICE_TYPE t 0 (of_nat j)))"

text \<open>
  What comes after slice \<open>n\<close>, in the table at \<open>off\<close> from entry \<open>i\<close> on; \<open>ext\<close> is where the extended partition
  starts.  Slices up to 3 are the entries of the first table whether used or not; behind them only used
  entries count, and an extended one does not have a number of its own.
\<close>

datatype next_slice = NextSlice int u32 u32 mem nat | EndOfTables | BadTable

inductive slice_after :: "(u32 \<Rightarrow> mem option) \<Rightarrow> int \<Rightarrow> u32 \<Rightarrow> u32 \<Rightarrow> nat \<Rightarrow> next_slice \<Rightarrow> bool" for T where
  bad: "T off = Some t \<Longrightarrow> \<not> PC_MBR_CHECK_SIG t 0 \<Longrightarrow> slice_after T n off ext i BadTable"
| here: "T off = Some t \<Longrightarrow> PC_MBR_CHECK_SIG t 0 \<Longrightarrow> find (\<lambda>j. n < 3 \<or> slice_used t j) [i..<4] = Some j \<Longrightarrow>
    slice_after T n off ext i (NextSlice (if n < 3 \<or> \<not> slice_extended t j then n + 1 else n) off ext t j)"
| chain: "T off = Some t \<Longrightarrow> PC_MBR_CHECK_SIG t 0 \<Longrightarrow> find (\<lambda>j. n < 3 \<or> slice_used t j) [i..<4] = None \<Longrightarrow>
    find (slice_extended t) [0..<4] = Some j \<Longrightarrow> off' = ext + PC_SLICE_START t 0 (of_nat j) \<Longrightarrow>
    slice_after T n off' (if ext = 0 then off' else ext) 0 r \<Longrightarrow> slice_after T n off ext i r"
| none: "T off = Some t \<Longrightarrow> PC_MBR_CHECK_SIG t 0 \<Longrightarrow> find (\<lambda>j. n < 3 \<or> slice_used t j) [i..<4] = None \<Longrightarrow>
    find (slice_extended t) [0..<4] = None \<Longrightarrow> slice_after T n off ext i EndOfTables"

inductive_cases slice_afterE: "slice_after T n off ext i r"

lemma slice_after_deterministic:
  "slice_after T n off ext i r \<Longrightarrow> slice_after T n off ext i r' \<Longrightarrow> r' = r"
proof (induction arbitrary: r' rule: slice_after.induct)
  case (chain off t n i j off' ext r)
  have "slice_after T n off' (if ext = 0 then off' else ext) 0 r'"
    using chain.prems by (rule slice_afterE) (use chain.hyps in \<open>auto split: if_splits\<close>)
  then show ?case by (rule chain.IH)
next
  case (bad off t n ext i)
  from bad(3) show ?case by (rule slice_afterE) (use bad in simp_all)
next
  case (here off t n i j ext)
  from here(4) show ?case by (rule slice_afterE) (use here in simp_all)
next
  case (none off t n i ext)
  from none(5) show ?case by (rule slice_afterE) (use none in simp_all)
qed

section \<open>The buffered table\<close>

text \<open>A buffer that holds a sector has its fields.\<close>

definition in_buffer :: "mem \<Rightarrow> u32 \<Rightarrow> mem \<Rightarrow> bool" where
  "in_buffer m p t \<longleftrightarrow> (\<forall>a. unat a < 512 \<longrightarrow> m (p + a) = t a)"

lemma in_buffer_shift: "in_buffer m p t \<longleftrightarrow> in_buffer (\<lambda>a. m (p + a)) 0 t"
  by (simp add: in_buffer_def)

lemma fields_shift:
  "PC_MBR_CHECK_SIG m p = PC_MBR_CHECK_SIG (\<lambda>a. m (p + a)) 0"
  "PC_SLICE_TYPE m p e = PC_SLICE_TYPE (\<lambda>a. m (p + a)) 0 e"
  "PC_SLICE_START m p e = PC_SLICE_START (\<lambda>a. m (p + a)) 0 e"
  "PC_SLICE_LENGTH m p e = PC_SLICE_LENGTH (\<lambda>a. m (p + a)) 0 e"
  "PC_SLICE_ENTRY_IS_EMPTY m p e = PC_SLICE_ENTRY_IS_EMPTY (\<lambda>a. m (p + a)) 0 e"
  by (simp_all add: PC_MBR_CHECK_SIG_def PC_SLICE_TYPE_def PC_SLICE_START_def PC_SLICE_LENGTH_def PC_SLICE_ENTRY_IS_EMPTY_def
      peek16_def peek32_def peek64_def Let_def add.assoc)

lemma in_buffer_fields:
  assumes "in_buffer m p t"
  shows "PC_MBR_CHECK_SIG m p = PC_MBR_CHECK_SIG t 0"
    and "j < 4 \<Longrightarrow> PC_SLICE_TYPE m p (of_nat j) = PC_SLICE_TYPE t 0 (of_nat j)"
    and "j < 4 \<Longrightarrow> PC_SLICE_START m p (of_nat j) = PC_SLICE_START t 0 (of_nat j)"
    and "j < 4 \<Longrightarrow> PC_SLICE_LENGTH m p (of_nat j) = PC_SLICE_LENGTH t 0 (of_nat j)"
    and "j < 4 \<Longrightarrow> PC_SLICE_ENTRY_IS_EMPTY m p (of_nat j) = PC_SLICE_ENTRY_IS_EMPTY t 0 (of_nat j)"
proof -
  define m' where "m' = (\<lambda>a. m (p + a))"
  have h: "unat a < 512 \<Longrightarrow> m' a = t a" for a using assms by (simp add: in_buffer_def m'_def)
  note sh = fields_shift [of m p, folded m'_def]
  note defs = PC_MBR_CHECK_SIG_def PC_SLICE_TYPE_def PC_SLICE_START_def PC_SLICE_LENGTH_def PC_SLICE_ENTRY_IS_EMPTY_def
      peek16_def peek32_def peek64_def Let_def
  show "PC_MBR_CHECK_SIG m p = PC_MBR_CHECK_SIG t 0" unfolding sh by (simp add: defs h)
  assume "j < 4"
  then have "j \<in> {0, 1, 2, 3}" by auto
  then show "PC_SLICE_TYPE m p (of_nat j) = PC_SLICE_TYPE t 0 (of_nat j)"
    "PC_SLICE_START m p (of_nat j) = PC_SLICE_START t 0 (of_nat j)"
    "PC_SLICE_LENGTH m p (of_nat j) = PC_SLICE_LENGTH t 0 (of_nat j)"
    "PC_SLICE_ENTRY_IS_EMPTY m p (of_nat j) = PC_SLICE_ENTRY_IS_EMPTY t 0 (of_nat j)"
    unfolding sh by (auto simp: defs h)
qed


lemma at_entry_at_entry [simp]: "at_entry m e (at_entry m e' it) = at_entry m e it"
  by (simp add: at_entry_def)

lemma at_entry_fields [simp]:
  "next_entry (at_entry m e it) = e" "next_buf (at_entry m e it) = next_buf it" "next_offset (at_entry m e it) = next_offset it"
  "next_ext_offset (at_entry m e it) = next_ext_offset it" "next_part_no (at_entry m e it) = next_part_no it"
  "next_drive (at_entry m e it) = next_drive it" "next_dest (at_entry m e it) = next_dest it"
  by (simp_all add: at_entry_def)

lemma ucast_u8_0: "(ucast (x :: u8) :: u32) = 0 \<longleftrightarrow> x = 0"
proof -
  have "unat x < 2 ^ 32" by (rule less_trans [OF unat_u8]) simp
  then show ?thesis by (simp add: word_unat_eq_iff unsigned_ucast_eq take_bit_eq_mod)
qed

text \<open>The search of a table stops at the first entry that counts.\<close>

lemma scan_entries_find:
  assumes "in_buffer m (next_buf it) t" "next_entry it + 1 = of_nat i" "i \<le> 4"
  shows "case find (\<lambda>j. no <s 3 \<or> slice_used t j) [i..<4] of
      Some j \<Rightarrow> scan_entries m no it = (True, at_entry m (of_nat j) it)
    | None \<Rightarrow> \<exists>ty st ln. scan_entries m no it = (False, it\<lparr>next_entry := 4, next_type := ty, next_start := st, next_len := ln\<rparr>)"
  using assms
proof (induction "4 - i" arbitrary: i it)
  case 0
  then have "i = 4" by simp
  then have "scan_entries m no it = (False, it\<lparr>next_entry := 4, next_type := next_type it, next_start := next_start it, next_len := next_len it\<rparr>)"
    using 0 by (subst scan_entries.simps) (simp add: Let_def)
  then have "\<exists>ty st ln. scan_entries m no it = (False, it\<lparr>next_entry := 4, next_type := ty, next_start := st, next_len := ln\<rparr>)"
    by blast
  then show ?case using \<open>i = 4\<close> by simp
next
  case (Suc d)
  then have i: "i < 4" by simp
  then have "i \<in> {0, 1, 2, 3}" by auto
  then have ne: "of_nat i \<noteq> (4 :: u32)" by auto
  have up: "[i..<4] = i # [Suc i..<4]" using i by (rule upt_conv_Cons)
  have u: "slice_used t i \<longleftrightarrow> \<not> PC_SLICE_ENTRY_IS_EMPTY m (next_buf it) (of_nat i) \<and> next_type (at_entry m (of_nat i) it) \<noteq> 0"
    unfolding slice_used_def at_entry_def using in_buffer_fields(2,5) [OF Suc.prems(1) i]
    by (simp add: ucast_u8_0)
  show ?case
  proof (cases "no <s 3 \<or> slice_used t i")
    case True
    then have "scan_entries m no it = (True, at_entry m (of_nat i) it)"
      using ne u Suc.prems(2) by (subst scan_entries.simps) (auto simp: Let_def signed.not_less)
    then show ?thesis using True up by simp
  next
    case False
    have s: "scan_entries m no it = scan_entries m no (at_entry m (of_nat i) it)"
      using ne u Suc.prems(2) False by (subst scan_entries.simps) (auto simp: Let_def signed.not_less)
    have "d = 4 - Suc i" using Suc.hyps(2) by simp
    have eq: "at_entry m (of_nat i) it\<lparr>next_entry := 4, next_type := ty, next_start := st, next_len := ln\<rparr>
        = it\<lparr>next_entry := 4, next_type := ty, next_start := st, next_len := ln\<rparr>" for ty st ln
      by (simp add: at_entry_def)
    show ?thesis
      using Suc.hyps(1) [OF \<open>d = 4 - Suc i\<close>, of "at_entry m (of_nat i) it"] Suc.prems i False
      unfolding eq up s by (simp split: option.splits)
  qed
qed

lemma extended_entry_find:
  assumes "in_buffer m (next_buf it) t"
  shows "extended_entry m it = map_option (\<lambda>j. let off = next_ext_offset it + PC_SLICE_START t 0 (of_nat j)
      in it\<lparr>next_offset := off, next_ext_offset := (if next_ext_offset it = 0 then off else next_ext_offset it), next_entry := -1\<rparr>)
    (find (slice_extended t) [0..<4])"
proof -
  have "find (\<lambda>i. IS_PC_SLICE_TYPE_EXTENDED (ucast (PC_SLICE_TYPE m (next_buf it) (of_nat i)))) [0..<4] = find (slice_extended t) [0..<4]"
    using in_buffer_fields(2) [OF assms] by (intro find_cong) (simp_all add: slice_extended_def)
  moreover have "j < 4" if "find (slice_extended t) [0..<4] = Some j" for j
    using that by (auto simp: find_Some_iff)
  ultimately show ?thesis
    using in_buffer_fields(3) [OF assms] by (auto simp: extended_entry_def Let_def split: option.splits)
qed


section \<open>One table\<close>

text \<open>The iterator is behind slice \<open>n\<close>, or fresh.\<close>

definition at_cursor :: "part_iter \<Rightarrow> int \<Rightarrow> u32 \<Rightarrow> u32 \<Rightarrow> nat \<Rightarrow> bool" where
  "at_cursor it n off ext i \<longleftrightarrow>
     (if drop_bit 16 (next_part_no it AND 0xFF0000) = 0xFF then n = -1 \<and> off = 0 \<and> ext = 0 \<and> i = 0
      else 0 \<le> n \<and> n < 255 \<and> drop_bit 16 (next_part_no it AND 0xFF0000) = of_int n \<and> next_offset it = off \<and> next_ext_offset it = ext
        \<and> next_entry it + 1 = of_nat i \<and> i \<le> 4)"

definition same_target :: "part_iter \<Rightarrow> part_iter \<Rightarrow> bool" where
  "same_target it it' \<longleftrightarrow> next_drive it' = next_drive it \<and> next_buf it' = next_buf it \<and> next_dest it' = next_dest it"

text \<open>Only what reading a table changes differs.\<close>

definition walked :: "('d, 'h, 'z) gstate \<Rightarrow> ('d, 'h, 'z) gstate \<Rightarrow> bool" where
  "walked s s' \<longleftrightarrow> (\<exists>m e t h n. s' = s\<lparr>mem := m, errnum := e, buf_track := t, hook := h, pc_slice_no := n\<rparr>)"

lemma walkedI: "s' = s\<lparr>mem := m, errnum := e, buf_track := t, hook := h, pc_slice_no := n\<rparr> \<Longrightarrow> walked s s'"
  unfolding walked_def by blast

lemma walked_trans:
  assumes "walked s t" "walked t u"
  shows "walked s u"
proof -
  obtain m e tk h n m' e' tk' h' n' where "t = s\<lparr>mem := m, errnum := e, buf_track := tk, hook := h, pc_slice_no := n\<rparr>"
    "u = t\<lparr>mem := m', errnum := e', buf_track := tk', hook := h', pc_slice_no := n'\<rparr>"
    using assms unfolding walked_def by blast
  then have "u = s\<lparr>mem := m', errnum := e', buf_track := tk', hook := h', pc_slice_no := n'\<rparr>" by simp
  then show ?thesis by (rule walkedI)
qed

lemma walked_keeps:
  assumes "walked s s'"
  shows "mem_upper s' = mem_upper s" "dev s' = dev s" "current_drive s' = current_drive s" "current_partition s' = current_partition s"
    "buf_drive s' = buf_drive s" "buf_geom s' = buf_geom s"
  using assms by (auto simp: walked_def)

text \<open>What the caller gets for each outcome.\<close>

definition delivers :: "next_slice \<Rightarrow> bool \<Rightarrow> part_iter \<Rightarrow> ('d, 'h, 'z) gstate \<Rightarrow> bool" where
  "delivers r ok it s \<longleftrightarrow> (case r of
     NextSlice n off ext t j \<Rightarrow> ok \<and> next_part_no it = push_bit 16 (of_int n) OR 0xFFFF \<and> next_type it = ucast (PC_SLICE_TYPE t 0 (of_nat j))
       \<and> next_start it = off + PC_SLICE_START t 0 (of_nat j) \<and> next_len it = PC_SLICE_LENGTH t 0 (of_nat j)
       \<and> next_offset it = off \<and> next_ext_offset it = ext \<and> next_entry it = of_nat j \<and> in_buffer (mem s) (next_buf it) t
   | EndOfTables \<Rightarrow> \<not> ok \<and> errnum s = ERR_NO_PART
   | BadTable \<Rightarrow> \<not> ok \<and> errnum s = ERR_BAD_PART_TABLE)"

lemma sless_3:
  assumes "-1 \<le> n" "n < 255"
  shows "(of_int n :: u32) <s 3 \<longleftrightarrow> n < 3"
proof -
  have "sint (of_int n :: u32) = n" using assms by (simp add: signed_of_int signed_take_bit_int_eq_self)
  then show ?thesis by (simp add: word_sless_alt)
qed

context sector_source
begin

text \<open>Reading a table, from a drive of 512-byte sectors.\<close>

lemma read_table:
  assumes k: "k = 9" and c: "cached s" and t: "table_at disk N spt off = Some t" and d: "dest_ok (mem_upper s) p 512"
  shows "\<exists>m tk h. let s' = s\<lparr>mem := m, errnum := ERR_NONE, buf_track := tk, hook := h\<rparr>
    in rawread v drive off 0 SECTOR_SIZE p s = Some (True, s') \<and> cached s' \<and> in_buffer m p t \<and> same_outside (\<lambda>x. io_area x \<or> region p 512 x) (mem s) m"
proof -
  have t': "unat off div spt * spt + spt \<le> N" "t = sector_image disk (unat off)"
    using t by (auto simp: table_at_def split: if_splits)
  have "(unat off * 2 ^ k + 0 + 512 - 1) div 2 ^ k = unat off" using k by simp
  then have fit: "0 < (512::nat) \<Longrightarrow> (unat off * 2 ^ k + 0 + 512 - 1) div 2 ^ k div spt * spt + spt \<le> N" using t'(1) by simp
  have "0 < (2::nat) ^ k" "(512::nat) < 2 ^ 32" by simp_all
  from rawread_reads [OF c this fit, of p] d
  obtain m tk h where r: "rawread v drive off 0 SECTOR_SIZE p s = Some (True, s\<lparr>mem := m, errnum := ERR_NONE, buf_track := tk, hook := h\<rparr>)"
    "cached (s\<lparr>mem := m, errnum := ERR_NONE, buf_track := tk, hook := h\<rparr>)" "same_outside (\<lambda>x. io_area x \<or> region p 512 x) (mem s) m"
    and data: "\<forall>i < 512. m (p + of_nat i) = disk (unat off * 2 ^ k + 0 + i)"
    by (auto simp: SECTOR_SIZE_def)
  have "m (p + a) = t a" if "unat a < 512" for a
    using data that k by (force simp: t'(2) sector_image_def)
  then show ?thesis using r unfolding in_buffer_def Let_def by blast
qed

end

lemma same_target_trans: "same_target it it' \<Longrightarrow> same_target it' it'' \<Longrightarrow> same_target it it''"
  by (simp add: same_target_def)

lemma at_cursor_fresh: "at_cursor it n off ext i \<Longrightarrow> n = -1 \<Longrightarrow> i = 0"
  by (auto simp: at_cursor_def split: if_splits)

lemma next_pc_slice_unfold:
  "next_pc_slice v it s = (case pc_slice_table v it s of None \<Rightarrow> None
     | Some (Inl it', s1) \<Rightarrow> next_pc_slice v it' s1 | Some (Inr (ok, it'), s1) \<Rightarrow> Some (ok, it', s1))"
  by (subst next_pc_slice.simps) (simp split: option.splits sum.splits prod.splits)

context sector_source
begin

lemma pc_slice_table_step:
  assumes k: "k = 9" and b: "cached s"
    and t: "table_at disk N spt off = Some t" and d: "dest_ok (mem_upper s) (next_buf it) 512"
    and c: "at_cursor it n off ext i" and dr: "next_drive it = drive"
  defines "found \<equiv> find (\<lambda>j. n < 3 \<or> slice_used t j) [i..<4]"
  shows "\<exists>res s'. pc_slice_table v it s = Some (res, s') \<and> cached s' \<and> walked s s' \<and>
    (if \<not> PC_MBR_CHECK_SIG t 0 then \<exists>it'. res = Inr (False, it') \<and> delivers BadTable False it' s'
     else case found of
       Some j \<Rightarrow> \<exists>it'. res = Inr (True, it') \<and> same_target it it' \<and> delivers (NextSlice (if n < 3 \<or> \<not> slice_extended t j then n + 1 else n) off ext t j) True it' s'
     | None \<Rightarrow> (case find (slice_extended t) [0..<4] of
         Some j \<Rightarrow> \<exists>it' off'. res = Inl it' \<and> off' = ext + PC_SLICE_START t 0 (of_nat j) \<and> same_target it it'
           \<and> (n \<noteq> -1 \<longrightarrow> at_cursor it' n off' (if ext = 0 then off' else ext) 0)
       | None \<Rightarrow> \<exists>it'. res = Inr (False, it') \<and> delivers EndOfTables False it' s'))"
proof -
  define no0 where "no0 = drop_bit 16 (next_part_no it AND 0xFF0000)"
  define it1 where "it1 = (if no0 = 0xFF then it\<lparr>next_offset := 0, next_ext_offset := 0, next_entry := -1\<rparr> else it)"
  define no where "no = (if no0 = 0xFF then -1 else no0)"
  have n: "no = of_int n" "-1 \<le> n" "n < 255" and cur: "next_offset it1 = off" "next_ext_offset it1 = ext" "next_entry it1 + 1 = of_nat i" "i \<le> 4"
    using c unfolding at_cursor_def no0_def [symmetric] by (auto simp: no_def it1_def split: if_splits)
  have tg: "next_drive it1 = drive" "next_buf it1 = next_buf it" "next_dest it1 = next_dest it" "next_part_no it1 = next_part_no it"
    using dr by (simp_all add: it1_def)
  have b': "cached (s\<lparr>pc_slice_no := no\<rparr>)" by (rule cached_same [OF b]) simp_all
  have d': "dest_ok (mem_upper (s\<lparr>pc_slice_no := no\<rparr>)) (next_buf it) 512" using d by simp
  obtain m tk h where rd: "rawread v drive off 0 SECTOR_SIZE (next_buf it) (s\<lparr>pc_slice_no := no\<rparr>)
      = Some (True, s\<lparr>pc_slice_no := no\<rparr>\<lparr>mem := m, errnum := ERR_NONE, buf_track := tk, hook := h\<rparr>)"
    and bo: "cached (s\<lparr>pc_slice_no := no\<rparr>\<lparr>mem := m, errnum := ERR_NONE, buf_track := tk, hook := h\<rparr>)"
    and ho: "in_buffer m (next_buf it) t"
    using read_table [OF k b' t d'] unfolding Let_def by blast
  define s1 where "s1 = s\<lparr>pc_slice_no := no\<rparr>\<lparr>mem := m, errnum := ERR_NONE, buf_track := tk, hook := h\<rparr>"
  have s1: "mem s1 = m" by (simp add: s1_def)
  have wk1: "walked s s1"
    unfolding s1_def by (rule walkedI [where m = m and e = ERR_NONE and t = tk and h = h and n = no]) simp
  have wk2: "walked s (s1\<lparr>errnum := er\<rparr>)" for er
    unfolding s1_def by (rule walkedI [where m = m and e = er and t = tk and h = h and n = no]) simp
  have wk3: "walked s (s1\<lparr>pc_slice_no := w\<rparr>)" for w
    unfolding s1_def by (rule walkedI [where m = m and e = ERR_NONE and t = tk and h = h and n = w]) simp
  have rd1: "rawread v drive off 0 SECTOR_SIZE (next_buf it) (s\<lparr>pc_slice_no := no\<rparr>) = Some (True, s1)"
    unfolding s1_def by (rule rd)
  have bo1: "cached (s1\<lparr>errnum := er\<rparr>)" "cached (s1\<lparr>pc_slice_no := w\<rparr>)"
    "cached s1" for er w
    unfolding s1_def by (rule cached_same [OF bo], simp_all)+
  have lt: "no <s 3 \<longleftrightarrow> n < 3" unfolding n(1) by (rule sless_3 [OF n(2,3)])
  have fnd: "found = find (\<lambda>j. no <s 3 \<or> slice_used t j) [i..<4]" by (simp add: found_def lt)
  have ho1: "in_buffer m (next_buf it1) t" using ho tg by simp
  note scan = scan_entries_find [OF ho1 cur(3,4), of no, folded fnd]
  have tab: "pc_slice_table v it s =
     (if \<not> PC_MBR_CHECK_SIG t 0 then Some (Inr (False, it1), fail ERR_BAD_PART_TABLE s1)
      else let (fd, it2) = scan_entries m no it1
           in if \<not> fd then Some (case extended_entry m it2 of Some it3 \<Rightarrow> (Inl it3, s1) | None \<Rightarrow> (Inr (False, it2), fail ERR_NO_PART s1))
              else let no' = (if no <s 3 \<or> \<not> IS_PC_SLICE_TYPE_EXTENDED (next_type it2) then no + 1 else no)
                   in Some (Inr (True, it2\<lparr>next_part_no := push_bit 16 no' OR 0xFFFF\<rparr>), s1\<lparr>pc_slice_no := no'\<rparr>))"
    unfolding pc_slice_table_def no0_def [symmetric] Let_def it1_def [symmetric] no_def [symmetric] tg cur rd1 in_buffer_fields(1) [OF ho, symmetric]
    by (simp add: s1 split: prod.split)
  show ?thesis
  proof (cases "PC_MBR_CHECK_SIG t 0")
    case False
    then show ?thesis using tab bo1(1) wk2 by (simp add: delivers_def fail_def)
  next
    case sig: True
    show ?thesis
    proof (cases found)
      case (Some j)
      have j: "j < 4" using Some by (auto simp: found_def find_Some_iff)
      have sc: "scan_entries m no it1 = (True, at_entry m (of_nat j) it1)" using scan Some by simp
      define no' where "no' = (if no <s 3 \<or> \<not> IS_PC_SLICE_TYPE_EXTENDED (next_type (at_entry m (of_nat j) it1)) then no + 1 else no)"
      have ty: "next_type (at_entry m (of_nat j) it1) = ucast (PC_SLICE_TYPE t 0 (of_nat j))"
        using in_buffer_fields(2) [OF ho1 j] by (simp add: at_entry_def)
      have no': "no' = of_int (if n < 3 \<or> \<not> slice_extended t j then n + 1 else n)"
        using lt n(1) by (simp add: no'_def ty slice_extended_def)
      have tgt: "same_target it (at_entry m (of_nat j) it1\<lparr>next_part_no := push_bit 16 no' OR 0xFFFF\<rparr>)"
        using tg dr by (simp add: same_target_def)
      have "delivers (NextSlice (if n < 3 \<or> \<not> slice_extended t j then n + 1 else n) off ext t j) True
          (at_entry m (of_nat j) it1\<lparr>next_part_no := push_bit 16 no' OR 0xFFFF\<rparr>) (s1\<lparr>pc_slice_no := no'\<rparr>)"
        using in_buffer_fields(2,3,4) [OF ho1 j] cur(1,2) ho1 unfolding no' delivers_def by (simp add: at_entry_def s1)
      moreover have "pc_slice_table v it s = Some (Inr (True, at_entry m (of_nat j) it1\<lparr>next_part_no := push_bit 16 no' OR 0xFFFF\<rparr>), s1\<lparr>pc_slice_no := no'\<rparr>)"
        using sig unfolding tab sc by (simp add: no'_def Let_def)
      ultimately show ?thesis using sig Some bo1(2) wk3 tgt by simp
    next
      case None
      obtain ty st ln where sc: "scan_entries m no it1 = (False, it1\<lparr>next_entry := 4, next_type := ty, next_start := st, next_len := ln\<rparr>)"
        using scan None by auto
      define it2 where "it2 = it1\<lparr>next_entry := 4, next_type := ty, next_start := st, next_len := ln\<rparr>"
      have it2: "next_ext_offset it2 = ext" "next_buf it2 = next_buf it" "next_drive it2 = next_drive it" "next_dest it2 = next_dest it"
        "next_part_no it2 = next_part_no it"
        using cur tg dr by (simp_all add: it2_def)
      have ho2: "in_buffer m (next_buf it2) t" using ho it2 by simp
      note ext = extended_entry_find [OF ho2, unfolded it2(1)]
      have tab2: "pc_slice_table v it s = Some (case extended_entry m it2 of Some it3 \<Rightarrow> (Inl it3, s1) | None \<Rightarrow> (Inr (False, it2), fail ERR_NO_PART s1))"
        using sig unfolding tab sc it2_def [symmetric] by simp
      show ?thesis
      proof (cases "find (slice_extended t) [0..<4]")
        case (Some j)
        define off' where "off' = ext + PC_SLICE_START t 0 (of_nat j)"
        define it3 where "it3 = it2\<lparr>next_offset := off', next_ext_offset := (if ext = 0 then off' else ext), next_entry := -1\<rparr>"
        have ee: "extended_entry m it2 = Some it3" unfolding ext Some it3_def by (simp add: Let_def off'_def)
        have "at_cursor it3 n off' (if ext = 0 then off' else ext) 0" if "n \<noteq> -1"
          using c that it2(5) by (auto simp: at_cursor_def it3_def split: if_splits)
        moreover have "same_target it it3" using it2 by (simp add: same_target_def it3_def)
        ultimately show ?thesis using sig \<open>found = None\<close> tab2 ee Some bo1(3) wk1 by (auto simp: off'_def split: if_splits)
      next
        case none: None
        have ee: "extended_entry m it2 = None" unfolding ext none by simp
        show ?thesis using sig \<open>found = None\<close> tab2 ee none bo1(1) wk2 by (simp add: delivers_def fail_def)
      qed
    qed
  qed
qed


text \<open>The whole chain.\<close>

lemma follows:
  assumes k: "k = 9"
  shows "slice_after (table_at disk N spt) n off ext i r \<Longrightarrow> at_cursor it n off ext i \<Longrightarrow> next_drive it = drive \<Longrightarrow>
    cached s \<Longrightarrow> dest_ok (mem_upper s) (next_buf it) 512 \<Longrightarrow>
    \<exists>ok it' s'. next_pc_slice v it s = Some (ok, it', s') \<and> delivers r ok it' s' \<and> cached s' \<and> walked s s'
      \<and> (ok \<longrightarrow> same_target it it')"
proof (induction arbitrary: it s rule: slice_after.induct)
  case (bad off t n ext i)
  from pc_slice_table_step [OF k bad.prems(3) bad.hyps(1) bad.prems(4,1,2)] bad.hyps(2)
  show ?case by (subst next_pc_slice_unfold) auto
next
  case (here off t n i j ext)
  from pc_slice_table_step [OF k here.prems(3) here.hyps(1) here.prems(4,1,2)] here.hyps(2,3)
  show ?case by (subst next_pc_slice_unfold) auto
next
  case (none off t n i ext)
  from pc_slice_table_step [OF k none.prems(3) none.hyps(1) none.prems(4,1,2)] none.hyps(2-4)
  show ?case by (subst next_pc_slice_unfold) auto
next
  case (chain off t n i j off' ext r)
  have "n \<noteq> -1"
  proof
    assume "n = -1"
    then have "i = 0" using at_cursor_fresh [OF chain.prems(1)] by simp
    then show False using chain.hyps(3) \<open>n = -1\<close> by (auto simp: find_None_iff dest: spec [of _ 0])
  qed
  with pc_slice_table_step [OF k chain.prems(3) chain.hyps(1) chain.prems(4,1,2)] chain.hyps(2-5)
  obtain it' s' where st: "pc_slice_table v it s = Some (Inl it', s')" "cached s'" "walked s s'"
    "same_target it it'" "at_cursor it' n off' (if ext = 0 then off' else ext) 0"
    by auto
  have "next_drive it' = drive" "dest_ok (mem_upper s') (next_buf it') 512"
    using walked_keeps(1) [OF st(3)] st(4) chain.prems(2,4) by (simp_all add: same_target_def)
  from chain.IH [OF st(5) this(1) st(2) this(2)] show ?case
    using walked_trans [OF st(3)] same_target_trans [OF st(4)] by (subst next_pc_slice_unfold) (auto simp: st(1))
qed

end

section \<open>The contracts\<close>

text \<open>
  C9. \<open>next_pc_slice\<close> returns the slice that comes next on the disk: entries 0 to 3 of the first table by
  their index, then the used entries of the tables the chain of extended partitions leads to, numbered from
  4 on, with their start relative to the table they are in and the chain relative to the extended partition;
  at the end of the chain and at a table without signature it fails with the error that says so.
\<close>

theorem next_pc_slice_follows:
  assumes "edd_drive v (next_drive it) g disk N 9 spt" "buffer_ok (next_drive it) g disk N 9 spt s" "dest_ok (mem_upper s) (next_buf it) 512"
    and "at_cursor it n off ext i" "slice_after (table_at disk N spt) n off ext i r"
  shows "\<exists>ok it' s'. next_pc_slice v it s = Some (ok, it', s') \<and> delivers r ok it' s' \<and> buffer_ok (next_drive it) g disk N 9 spt s'"
  using edd.follows [OF refl assms(5,4) refl buffer_ok_stable [OF assms(1,2)] assms(3)] unfolding edd.cached_def by blast

text \<open>
  The chain need not end, but it may: a used entry in the next table stops the search, and a table without one
  has no extended entry to follow, unless all 16 bytes of that entry are equal.
\<close>

lemma slice_after_exists:
  assumes here: "table_at disk N spt off = Some t"
    and there: "\<And>j. j < 4 \<Longrightarrow> slice_extended t j \<Longrightarrow> \<exists>t'. table_at disk N spt (ext + PC_SLICE_START t 0 (of_nat j)) = Some t'
      \<and> (\<forall>i < 4. slice_extended t' i \<longrightarrow> slice_used t' i)"
  shows "\<exists>r. slice_after (table_at disk N spt) n off ext i r"
proof (cases "PC_MBR_CHECK_SIG t 0 \<and> find (\<lambda>j. n < 3 \<or> slice_used t j) [i..<4] = None \<and> find (slice_extended t) [0..<4] \<noteq> None")
  case False
  then show ?thesis using slice_after.bad [of "table_at disk N spt", OF here] slice_after.here [of "table_at disk N spt", OF here]
      slice_after.none [of "table_at disk N spt", OF here] by (metis not_None_eq)
next
  case True
  then obtain j where j: "find (slice_extended t) [0..<4] = Some j" by auto
  then have "j < 4" "slice_extended t j" by (auto simp: find_Some_iff)
  define off' where "off' = ext + PC_SLICE_START t 0 (of_nat j)"
  obtain t' where t': "table_at disk N spt off' = Some t'" and used: "\<forall>i < 4. slice_extended t' i \<longrightarrow> slice_used t' i"
    using there [OF \<open>j < 4\<close> \<open>slice_extended t j\<close>] by (auto simp: off'_def)
  have "\<exists>r. slice_after (table_at disk N spt) n off' (if ext = 0 then off' else ext) 0 r"
  proof (cases "PC_MBR_CHECK_SIG t' 0")
    case False
    then show ?thesis using slice_after.bad [of "table_at disk N spt", OF t'] by blast
  next
    case sig: True
    show ?thesis
    proof (cases "find (\<lambda>j. n < 3 \<or> slice_used t' j) [0..<4]")
      case (Some j')
      then show ?thesis using slice_after.here [of "table_at disk N spt", OF t' sig] by blast
    next
      case None
      then have "find (slice_extended t') [0..<4] = None"
        using used by (auto simp: find_None_iff)
      then show ?thesis using slice_after.none [of "table_at disk N spt", OF t' sig None] by blast
    qed
  qed
  then show ?thesis using slice_after.chain [of "table_at disk N spt", OF here _ _ j off'_def] True by blast
qed

text \<open>
  C13. \<open>next_pc_slice\<close> returns, whatever loops the chain of extended partitions has, as long as the tables the
  current one leads to are on the disk and have no extended entry filled with one byte.
\<close>

theorem next_pc_slice_returns:
  assumes "edd_drive v (next_drive it) g disk N 9 spt" "buffer_ok (next_drive it) g disk N 9 spt s" "dest_ok (mem_upper s) (next_buf it) 512"
    and "at_cursor it n off ext i" "table_at disk N spt off = Some t"
    and "\<forall>j < 4. slice_extended t j \<longrightarrow> (\<exists>t'. table_at disk N spt (ext + PC_SLICE_START t 0 (of_nat j)) = Some t'
      \<and> (\<forall>i < 4. slice_extended t' i \<longrightarrow> slice_used t' i))"
  shows "\<exists>ok it' s'. next_pc_slice v it s = Some (ok, it', s') \<and> buffer_ok (next_drive it) g disk N 9 spt s'"
proof -
  obtain r where "slice_after (table_at disk N spt) n off ext i r" 
    using slice_after_exists [of disk N spt off t ext n i] assms(5,6) by blast
  from edd.follows [OF refl this assms(4) refl buffer_ok_stable [OF assms(1,2)] assms(3)] show ?thesis unfolding edd.cached_def by blast
qed


section \<open>A disk with an extended partition\<close>

text \<open>
  A primary and an extended partition; the table in the extended partition at 126 has a logical partition and
  an extended entry that leads back to this table.
\<close>

definition slice_bytes :: "u8 \<Rightarrow> u32 \<Rightarrow> u32 \<Rightarrow> u8 list" where
  "slice_bytes ty st ln = [0, 0, 0, 0, ty, 0, 0, 0] @ bytes32 st @ bytes32 ln"

definition chain_disk :: "nat \<Rightarrow> u8" where
  "chain_disk i =
     (if 446 \<le> i \<and> i < 512 then (slice_bytes 6 63 63 @ slice_bytes 5 126 126 @ replicate 32 0 @ [0x55, 0xAA]) ! (i - 446)
      else if 126 * 512 + 446 \<le> i \<and> i < 126 * 512 + 512
      then (slice_bytes 0x83 1 62 @ slice_bytes 5 0 126 @ replicate 32 0 @ [0x55, 0xAA]) ! (i - (126 * 512 + 446)) else 0)"

lemmas chain_simps = PC_MBR_CHECK_SIG_def PC_SLICE_TYPE_def PC_SLICE_START_def PC_SLICE_LENGTH_def PC_SLICE_ENTRY_IS_EMPTY_def
  peek16_def peek32_def peek64_def le16_def le32_def sector_image_def chain_disk_def slice_bytes_def bytes32_def
  slice_used_def slice_extended_def IS_PC_SLICE_TYPE_EXTENDED_def nth_append

lemma chain_tables:
  "table_at chain_disk 1260 63 0 = Some (sector_image chain_disk 0)" "table_at chain_disk 1260 63 126 = Some (sector_image chain_disk 126)"
  by (simp_all add: table_at_def)

lemma chain_first:
  "PC_MBR_CHECK_SIG (sector_image chain_disk 0) 0" "find (slice_extended (sector_image chain_disk 0)) [0..<4] = Some 1"
  "PC_SLICE_START (sector_image chain_disk 0) 0 (of_nat 1) = 126"
  by (simp_all add: chain_simps upt_rec)

lemma chain_second:
  "PC_MBR_CHECK_SIG (sector_image chain_disk 126) 0" "slice_used (sector_image chain_disk 126) 0" "slice_used (sector_image chain_disk 126) 1"
  "\<not> slice_extended (sector_image chain_disk 126) 0" "slice_extended (sector_image chain_disk 126) 1"
  "\<not> slice_extended (sector_image chain_disk 126) 2" "\<not> slice_extended (sector_image chain_disk 126) 3"
  "PC_SLICE_START (sector_image chain_disk 126) 0 0 = 1"
  by (simp_all add: chain_simps)

definition chain_iter :: "u32 \<Rightarrow> u32 \<Rightarrow> u32 \<Rightarrow> part_iter" where
  "chain_iter no off e = \<lparr>next_drive = 0x80, next_dest = 0xFFFFFF, next_part_no = push_bit 16 no OR 0xFFFF, next_type = 0, next_start = 0,
     next_len = 0, next_offset = off, next_entry = e, next_ext_offset = off, next_buf = 0x8000\<rparr>"

lemma chain_drive:
  "edd_drive (image_bios chain_disk (demo_geometry 1)) (next_drive (chain_iter no off e)) (demo_geometry 1) chain_disk 1260 9 63"
  "buffer_ok (next_drive (chain_iter no off e)) (demo_geometry 1) chain_disk 1260 9 63 (demo_disk_state 1)"
  "dest_ok (mem_upper (demo_disk_state 1)) (next_buf (chain_iter no off e)) 512"
  using demo_edd [of chain_disk] demo_buffer [of 1 chain_disk 1260 9 63]
  by (simp_all add: chain_iter_def) (rule dest_ok_low, simp_all add: demo_disk_state_def)

theorem next_pc_slice_follows_witness:
  "\<exists>it' s'. next_pc_slice (image_bios chain_disk (demo_geometry 1)) (chain_iter 3 0 3) (demo_disk_state 1) = Some (True, it', s')
     \<and> next_part_no it' = 0x4FFFF \<and> next_start it' = 127"
proof -
  let ?T = "table_at chain_disk 1260 63"
  have cur: "at_cursor (chain_iter 3 0 3) 3 0 0 4" by (simp add: at_cursor_def chain_iter_def)
  have f: "find (\<lambda>j. (3::int) < 3 \<or> slice_used (sector_image chain_disk 126) j) [0..<4] = Some 0"
    by (simp add: upt_rec chain_second)
  have a: "slice_after ?T 3 126 126 0 (NextSlice 4 126 126 (sector_image chain_disk 126) 0)"
    using slice_after.here [of ?T, OF chain_tables(2) chain_second(1) f, of 126] chain_second(4) by simp
  have "find (\<lambda>j. (3::int) < 3 \<or> slice_used (sector_image chain_disk 0) j) [4..<4] = None" by simp
  from slice_after.chain [of ?T, OF chain_tables(1) chain_first(1) this chain_first(2) refl, of 0] a
  have "slice_after ?T 3 0 0 4 (NextSlice 4 126 126 (sector_image chain_disk 126) 0)" using chain_first(3) by simp
  from next_pc_slice_follows [OF chain_drive cur this] show ?thesis
    by (auto simp: delivers_def chain_second(8) split: next_slice.splits)
qed

theorem next_pc_slice_returns_witness:
  "\<exists>ok it' s'. next_pc_slice (image_bios chain_disk (demo_geometry 1)) (chain_iter 4 126 3) (demo_disk_state 1) = Some (ok, it', s')"
proof -
  let ?t = "sector_image chain_disk 126"
  have cur: "at_cursor (chain_iter 4 126 3) 4 126 126 4" by (simp add: at_cursor_def chain_iter_def)
  have s: "PC_SLICE_START ?t 0 1 = 0" by (simp add: chain_simps)
  have u: "slice_extended ?t i \<Longrightarrow> i < 4 \<Longrightarrow> i = 1" for i
  proof -
    assume "slice_extended ?t i" "i < 4"
    moreover from this have "i \<in> {0, 1, 2, 3}" by auto
    ultimately show "i = 1" using chain_second(4,6,7) by auto
  qed
  have n: "\<forall>j < 4. slice_extended ?t j \<longrightarrow> (\<exists>t'. table_at chain_disk 1260 63 (126 + PC_SLICE_START ?t 0 (of_nat j)) = Some t'
      \<and> (\<forall>i < 4. slice_extended t' i \<longrightarrow> slice_used t' i))"
    using u s chain_tables(2) chain_second(3) by fastforce
  from next_pc_slice_returns [OF chain_drive cur chain_tables(2) n] show ?thesis by blast
qed

end
