(* ===== verification/DiskWrite.thy ===== *)
theory DiskWrite
imports BlockDev
begin

text \<open>
  Correctness of \<open>rawwrite\<close> and \<open>devwrite\<close> on a drive whose BIOS reads and writes sectors through the disk
  address packet: the content of the drive is part of the state behind the BIOS, each write changes exactly
  its sectors and the track buffer stays coherent, so what is written is what is read back.
\<close>

section \<open>A drive that can be written\<close>

text \<open>\<open>patch disk a bs\<close> is \<open>disk\<close> with the bytes \<open>bs\<close> from position \<open>a\<close> on.\<close>

definition patch :: "(nat \<Rightarrow> u8) \<Rightarrow> nat \<Rightarrow> u8 list \<Rightarrow> nat \<Rightarrow> u8" where
  "patch disk a bs i = (if a \<le> i \<and> i < a + length bs then bs ! (i - a) else disk i)"

lemma patch_in [simp]: "j < length bs \<Longrightarrow> patch disk a bs (a + j) = bs ! j"
  by (simp add: patch_def)

lemma patch_out: "i < a \<or> a + length bs \<le> i \<Longrightarrow> patch disk a bs i = disk i"
  by (auto simp: patch_def)

lemma patch_same:
  assumes "\<And>j. j < length bs \<Longrightarrow> disk (a + j) = bs ! j"
  shows "patch disk a bs = disk"
proof
  fix i show "patch disk a bs i = disk i"
    using assms [of "i - a"] by (auto simp: patch_def)
qed

lemma patch_append: "patch (patch disk a xs) (a + length xs) ys = patch disk a (xs @ ys)"
  by (rule ext) (auto simp: patch_def nth_append)

text \<open>
  Functions \<open>42h\<close> and \<open>43h\<close> of the extensions, as documented, on the packet at \<open>0x580\<close>: \<open>content\<close> is what is
  on the drive in a state of the hardware.
\<close>

definition edd_transfers :: "('d, 'h) disk_env \<Rightarrow> u32 \<Rightarrow> ('d \<Rightarrow> nat \<Rightarrow> u8) \<Rightarrow> nat \<Rightarrow> nat \<Rightarrow> bool" where
  "edd_transfers v drive content N k \<longleftrightarrow> (\<forall>m d n lba buf. m 0x580 = 0x10 \<and> n = unat (peek16 m 0x582) \<and> n \<le> 127
      \<and> buf = push_bit 4 (drop_bit 16 (peek32 m 0x584)) + (peek32 m 0x584 AND 0xFFFF)
      \<and> lba = unat (peek64 m 0x588) \<and> lba + n \<le> N \<longrightarrow>
      (\<exists>m'. int13_extensions v 0x4200 drive m d = (0, m', d) \<and> same_outside (region buf (n * 2 ^ k)) m m'
        \<and> (\<forall>i < n * 2 ^ k. m' (buf + of_nat i) = content d (lba * 2 ^ k + i)))
      \<and> (\<exists>d'. int13_extensions v 0x4300 drive m d = (0, m, d')
        \<and> content d' = patch (content d) (lba * 2 ^ k) (peek m buf (n * 2 ^ k))))"

definition rw_drive :: "('d, 'h) disk_env \<Rightarrow> u32 \<Rightarrow> geometry \<Rightarrow> ('d \<Rightarrow> nat \<Rightarrow> u8) \<Rightarrow> nat \<Rightarrow> nat \<Rightarrow> nat \<Rightarrow> bool" where
  "rw_drive v drive g content N k spt \<longleftrightarrow> sound_geometry g k spt N \<and> edd_transfers v drive content N k
     \<and> gflags g AND BIOSDISK_FLAG_LBA_EXTENSION \<noteq> 0 \<and> \<not> is_mem_disk v drive"

lemma edd_transfersD:
  assumes "edd_transfers v drive content N k" "m 0x580 = 0x10" "unat (peek16 m 0x582) = n" "n \<le> 127"
    "push_bit 4 (drop_bit 16 (peek32 m 0x584)) + (peek32 m 0x584 AND 0xFFFF) = buf"
    "unat (peek64 m 0x588) = lba" "lba + n \<le> N"
  shows "\<exists>m'. int13_extensions v 0x4200 drive m d = (0, m', d) \<and> same_outside (region buf (n * 2 ^ k)) m m'
        \<and> (\<forall>i < n * 2 ^ k. m' (buf + of_nat i) = content d (lba * 2 ^ k + i))"
    and "\<exists>d'. int13_extensions v 0x4300 drive m d = (0, m, d')
        \<and> content d' = patch (content d) (lba * 2 ^ k) (peek m buf (n * 2 ^ k))"
  using assms unfolding edd_transfers_def by blast+

text \<open>The packet for a transfer of \<open>n\<close> sectors at the segment of one of the buffers.\<close>

lemma dap_transfer:
  fixes m seg sector n defines "p \<equiv> dap (of_nat sector) (of_nat n) seg m"
  assumes "sector < 2 ^ 31" "n \<le> 127" "seg = BUFFERSEG \<or> seg = SCRATCHSEG"
  shows "p 0x580 = 0x10" "unat (peek16 p 0x582) = n" "unat (peek64 p 0x588) = sector"
    "push_bit 4 (drop_bit 16 (peek32 p 0x584)) + (peek32 p 0x584 AND 0xFFFF) = push_bit 4 seg"
    "\<not> io_area x \<Longrightarrow> p x = m x" "0x600 \<le> x \<Longrightarrow> p x = m x"
proof -
  show "p 0x580 = 0x10" unfolding p_def by (rule dap_fields)
  show "unat (peek64 p 0x588) = sector" using assms(2) by (simp add: p_def dap_fields unat_scast_small)
  show "unat (peek16 p 0x582) = n"
    using assms(3) by (simp add: p_def dap_fields unat_of_nat unsigned_ucast_eq take_bit_eq_mod)
  show "push_bit 4 (drop_bit 16 (peek32 p 0x584)) + (peek32 p 0x584 AND 0xFFFF) = push_bit 4 seg"
    using assms(4) by (auto simp: p_def dap_fields BUFFERSEG_def SCRATCHSEG_def)
  show "p x = m x" if "\<not> io_area x"
    using that packet_region [of x] dap_out [of x] unfolding p_def by fastforce
  show "p x = m x" if x: "0x600 \<le> x"
  proof -
    have "unat (x - 0x580) = unat x - 0x580" using x by (subst unat_sub) (simp_all add: word_le_nat_alt)
    then have "unat (x - 0x580) \<ge> 16" using x by (simp add: word_le_nat_alt)
    then show ?thesis unfolding p_def by (rule dap_out)
  qed
qed

lemma rw_read:
  assumes e: "rw_drive v drive g content N k spt" and n: "n * 2 ^ k \<le> 0x7e00" "n \<le> 63" "sector + n \<le> N" "0 < n"
    and seg: "seg = BUFFERSEG \<or> seg = SCRATCHSEG"
  shows "\<exists>m. biosdisk v False drive g (of_nat sector) (of_nat n) seg s = Some (0, s\<lparr>mem := m\<rparr>)
    \<and> (\<forall>i < n * 2 ^ k. m (push_bit 4 seg + of_nat i) = content (dev s) (sector * 2 ^ k + i))
    \<and> (\<forall>x. 0x600 \<le> x \<longrightarrow> \<not> region (push_bit 4 seg) (n * 2 ^ k) x \<longrightarrow> m x = mem s x)
    \<and> (\<forall>x. \<not> io_area x \<longrightarrow> \<not> region (push_bit 4 seg) (n * 2 ^ k) x \<longrightarrow> m x = mem s x)"
proof -
  have g: "N \<le> 2 ^ 31" "edd_transfers v drive content N k" using e by (auto simp: rw_drive_def sound_geometry_def)
  have sec: "sector < 2 ^ 31" "n \<le> 127" using n g(1) by simp_all
  note p = dap_transfer [OF sec seg, where m = "mem s"]
  obtain m where m: "int13_extensions v 0x4200 drive (dap (of_nat sector) (of_nat n) seg (mem s)) (dev s) = (0, m, dev s)"
      "same_outside (region (push_bit 4 seg) (n * 2 ^ k)) (dap (of_nat sector) (of_nat n) seg (mem s)) m"
      "\<forall>i < n * 2 ^ k. m (push_bit 4 seg + of_nat i) = content (dev s) (sector * 2 ^ k + i)"
    using edd_transfersD(1) [OF g(2) p(1,2) sec(2) p(4,3) n(3)] by blast
  have "push_bit 8 (of_bool False + 0x42) = (0x4200 :: u32)" by simp
  then have "biosdisk v False drive g (of_nat sector) (of_nat n) seg s = Some (0, s\<lparr>mem := m\<rparr>)"
    using e m(1) by (simp add: biosdisk_def rw_drive_def)
  then show ?thesis using m(2,3) p(5,6) unfolding same_outside_def by metis
qed

lemma rw_write:
  assumes e: "rw_drive v drive g content N k spt" and n: "n \<le> 63" "sector + n \<le> N" "0 < n"
    and seg: "seg = BUFFERSEG \<or> seg = SCRATCHSEG" and k: "n * 2 ^ k \<le> 0x8000"
  shows "\<exists>m d. biosdisk v True drive g (of_nat sector) (of_nat n) seg s = Some (0, s\<lparr>mem := m, dev := d\<rparr>)
    \<and> content d = patch (content (dev s)) (sector * 2 ^ k) (peek (mem s) (push_bit 4 seg) (n * 2 ^ k))
    \<and> (\<forall>x. 0x600 \<le> x \<longrightarrow> m x = mem s x) \<and> (\<forall>x. \<not> io_area x \<longrightarrow> m x = mem s x)"
proof -
  have g: "N \<le> 2 ^ 31" "edd_transfers v drive content N k" using e by (auto simp: rw_drive_def sound_geometry_def)
  have sec: "sector < 2 ^ 31" "n \<le> 127" using n g(1) by simp_all
  note p = dap_transfer [OF sec seg, where m = "mem s"]
  let ?m = "dap (of_nat sector) (of_nat n) seg (mem s)"
  have "?m (push_bit 4 seg + of_nat i) = mem s (push_bit 4 seg + of_nat i)" if "i < n * 2 ^ k" for i
  proof (rule p(6))
    have "unat (push_bit 4 seg + of_nat i) = unat (push_bit 4 seg) + i"
      using that k seg by (intro unat_add_of_nat) (auto simp: BUFFERSEG_def SCRATCHSEG_def)
    then show "0x600 \<le> push_bit 4 seg + of_nat i"
      using seg by (auto simp: BUFFERSEG_def SCRATCHSEG_def word_le_nat_alt)
  qed
  then have "peek ?m (push_bit 4 seg) (n * 2 ^ k) = peek (mem s) (push_bit 4 seg) (n * 2 ^ k)"
    by (simp add: peek_def)
  then obtain d where d: "int13_extensions v 0x4300 drive ?m (dev s) = (0, ?m, d)"
      "content d = patch (content (dev s)) (sector * 2 ^ k) (peek (mem s) (push_bit 4 seg) (n * 2 ^ k))"
    using edd_transfersD(2) [OF g(2) p(1,2) sec(2) p(4,3) n(2), of "dev s"] by auto
  have "push_bit 8 (of_bool True + 0x42) = (0x4300 :: u32)" by simp
  then have "biosdisk v True drive g (of_nat sector) (of_nat n) seg s = Some (0, s\<lparr>mem := ?m, dev := d\<rparr>)"
    using e d(1) by (simp add: biosdisk_def rw_drive_def)
  then show ?thesis using d(2) p(5,6) by blast
qed

text \<open>Such a drive can be read like any other, as long as its content stays.\<close>

interpretation rw: sector_source v drive g disk N k spt "\<lambda>s. rw_drive v drive g content N k spt \<and> content (dev s) = disk"
  for v :: "('d, 'h) disk_env" and drive g disk N k spt and content :: "'d \<Rightarrow> nat \<Rightarrow> u8"
proof (unfold_locales, goal_cases)
  case (1 s)
  then show ?case by (simp add: rw_drive_def sound_geometry_def)
next
  case (2 s n sector)
  then have sg: "sound_geometry g k spt N" "n \<le> spt" by (auto simp: rw_drive_def)
  note ts = track_small [OF sg]
  obtain m where m: "biosdisk v False drive g (of_nat sector) (of_nat n) BUFFERSEG s = Some (0, s\<lparr>mem := m\<rparr>)"
      "\<forall>i < n * 2 ^ k. m (push_bit 4 BUFFERSEG + of_nat i) = content (dev s) (sector * 2 ^ k + i)"
      "\<forall>x. \<not> io_area x \<longrightarrow> \<not> region (push_bit 4 BUFFERSEG) (n * 2 ^ k) x \<longrightarrow> m x = mem s x"
    using rw_read [of v drive g content N k spt n sector BUFFERSEG s] ts 2 by auto
  have b: "push_bit 4 BUFFERSEG = BUFFERADDR" by (simp add: BUFFERSEG_def BUFFERADDR_def)
  have "same_outside io_area (mem s) m"
    using m(3) buffer_region [OF _ ts(1)] unfolding same_outside_def b by blast
  moreover have "s\<lparr>mem := m, errnum := errnum s\<rparr> = s\<lparr>mem := m\<rparr>" by simp
  ultimately show ?case using m(1,2) 2(1) unfolding b by metis
qed auto


section \<open>Writing a sector\<close>

lemma gmemmove_low:
  assumes "to \<noteq> 0" "unat to + n \<le> 0x100000" "unat from + n \<le> 2 ^ 32"
  shows "gmemmove to from (of_nat n) s = s\<lparr>errnum := ERR_NONE, mem := copied to from n (mem s)\<rparr>"
proof -
  have "n \<le> 0x100000" using assms(2) by linarith
  then have n: "unat (of_nat n :: u32) = n" by (intro unat_of_nat_small) simp
  have "0 < unat to" using assms(1) by (simp add: unat_gt_0)
  show ?thesis
  proof (cases "n = 0")
    case True
    have "unat to \<le> 0x100000" using assms(2) by linarith
    then have "memcheck (mem_upper s) to (of_nat n) = ERR_NONE"
      using assms(1) True by (auto simp: memcheck_def word_le_nat_alt word_less_nat_alt unat_sub)
    then show ?thesis
      using grub_memmove_effect [of "mem_upper s" to "of_nat n" "from" "mem s"] assms(2,3) n by (simp add: gmemmove_def)
  next
    case False
    then have "memcheck (mem_upper s) to (of_nat n) = ERR_NONE"
      using assms(1,2) by (simp add: memcheck_def word_le_nat_alt)
    then show ?thesis
      using grub_memmove_effect [of "mem_upper s" to "of_nat n" "from" "mem s"] assms(2,3) n by (simp add: gmemmove_def)
  qed
qed

text \<open>What a source outside the buffers keeps.\<close>

definition clear_source :: "u32 \<Rightarrow> nat \<Rightarrow> bool" where
  "clear_source a n \<longleftrightarrow> unat a + n \<le> 2 ^ 32 \<and> (\<forall>i < n. \<not> io_area (a + of_nat i))"

lemma clear_source_peek: "clear_source a n \<Longrightarrow> same_outside io_area m m' \<Longrightarrow> peek m' a n = peek m a n"
  by (simp add: clear_source_def same_outside_def peek_def)

lemma clear_source_part:
  assumes "clear_source a n" "j + c \<le> n" "0 < c"
  shows "clear_source (a + of_nat j) c"
proof -
  have u: "unat (a + of_nat j) = unat a + j" using assms by (intro unat_add_of_nat) (simp add: clear_source_def)
  have "\<not> io_area (a + of_nat j + of_nat i)" if "i < c" for i
  proof -
    have "j + i < n" using that assms(2) by linarith
    then have "\<not> io_area (a + of_nat (j + i))" using assms(1) unfolding clear_source_def by blast
    then show ?thesis by (simp add: add.assoc)
  qed
  then show ?thesis using u assms(1,2) by (simp add: clear_source_def)
qed

text \<open>The scratch buffer and the track buffer are different parts of the input and output area.\<close>

lemma scratch_region:
  assumes "region SCRATCHADDR 512 x"
  shows "io_area x" "\<forall>i < 0x7e00. x \<noteq> BUFFERADDR + of_nat i"
proof -
  have "unat (SCRATCHADDR + of_nat (unat (x - SCRATCHADDR))) = unat SCRATCHADDR + unat (x - SCRATCHADDR)"
    using assms by (intro unat_add_of_nat) (simp add: region_def SCRATCHADDR_def)
  then have u: "unat x = 0x77e00 + unat (x - SCRATCHADDR)" by (simp add: SCRATCHADDR_def)
  show "io_area x" using u assms by (simp add: region_def io_area_def word_le_nat_alt word_less_nat_alt)
  show "\<forall>i < 0x7e00. x \<noteq> BUFFERADDR + of_nat i"
  proof (intro allI impI notI)
    fix i :: nat assume "i < 0x7e00" "x = BUFFERADDR + of_nat i"
    moreover from this have "unat (BUFFERADDR + of_nat i) = 0x70000 + i"
      by (subst unat_add_of_nat) (simp_all add: BUFFERADDR_def)
    ultimately show False using u by simp
  qed
qed

lemma buffer_high: "i < 0x7e00 \<Longrightarrow> unat (BUFFERADDR + of_nat i) = 0x70000 + i \<and> 0x600 \<le> BUFFERADDR + of_nat i"
proof -
  assume i: "i < 0x7e00"
  then have "unat (BUFFERADDR + of_nat i) = 0x70000 + i" by (subst unat_add_of_nat) (simp_all add: BUFFERADDR_def)
  then show ?thesis by (simp add: word_le_nat_alt)
qed

text \<open>Keeping the buffer for a drive whose sector \<open>S\<close> has become \<open>bs\<close>.\<close>

lemma buffer_ok_other_track:
  assumes b: "buffer_ok drive g disk N 9 spt s" and S: "unat (buf_track s) \<noteq> S div spt * spt" and bs: "length bs = 512" and "0 < spt"
    and same: "\<And>i. i < spt * 512 \<Longrightarrow> mem s' (BUFFERADDR + of_nat i) = mem s (BUFFERADDR + of_nat i)"
    and st: "buf_track s' = buf_track s" "buf_drive s' = buf_drive s" "buf_geom s' = buf_geom s"
  shows "buffer_ok drive g (patch disk (S * 512) bs) N 9 spt s'"
proof -
  define t where "t = unat (buf_track s)"
  have out: "patch disk (S * 512) bs (t * 512 + i) = disk (t * 512 + i)" if "t mod spt = 0" "i < spt * 512" for i
  proof -
    have td: "t = t div spt * spt" using that(1) \<open>0 < spt\<close> by (metis add.right_neutral div_mult_mod_eq)
    have "S < t \<or> t + spt \<le> S"
    proof (rule ccontr)
      assume "\<not> ?thesis"
      then have "t div spt * spt \<le> S" "S < Suc (t div spt) * spt" using td by simp_all
      then have "S div spt = t div spt" by (metis div_nat_eqI mult.commute)
      then show False using S td by (simp add: t_def)
    qed
    then show ?thesis using that(2) bs by (intro patch_out) linarith
  qed
  show ?thesis
    using b same out st by (simp add: buffer_ok_def t_def)
qed

lemma buffer_ok_same_track:
  assumes b: "buffer_ok drive g disk N 9 spt s" and t: "unat (buf_track s) = S div spt * spt" "buf_track s \<noteq> -1"
    and bs: "length bs = 512" and p: "0 < spt"
    and new: "\<And>i. i < spt * 512 \<Longrightarrow> mem s' (BUFFERADDR + of_nat i) =
      (if S mod spt * 512 \<le> i \<and> i < S mod spt * 512 + 512 then bs ! (i - S mod spt * 512) else mem s (BUFFERADDR + of_nat i))"
    and st: "buf_track s' = buf_track s" "buf_drive s' = buf_drive s" "buf_geom s' = buf_geom s"
  shows "buffer_ok drive g (patch disk (S * 512) bs) N 9 spt s'"
proof -
  define tr where "tr = unat (buf_track s)"
  have S: "S = tr + S mod spt" using t(1) by (simp add: tr_def)
  have off: "S * 512 = tr * 512 + S mod spt * 512" by (subst S) (simp only: distrib_right)
  have "patch disk (S * 512) bs (tr * 512 + i) = mem s' (BUFFERADDR + of_nat i)" if "i < spt * 512" for i
  proof -
    have "mem s (BUFFERADDR + of_nat i) = disk (tr * 512 + i)" using b t(2) that by (simp add: buffer_ok_def tr_def)
    moreover have "tr * 512 + i - S * 512 = i - S mod spt * 512" using off by linarith
    ultimately show ?thesis using new [OF that] bs off by (auto simp: patch_def)
  qed
  then show ?thesis using b st by (simp add: buffer_ok_def tr_def)
qed


lemma rawwrite_writes:
  assumes e: "rw_drive v drive g content N 9 spt" and sp: "unat (sectors g) = spt"
    and b: "buffer_ok drive g (content (dev s)) N 9 spt s" and S: "S < N" and src: "clear_source buf 512"
  shows "\<exists>m er d. let s' = s\<lparr>mem := m, errnum := er, dev := d\<rparr>
    in rawwrite v drive (of_nat S) buf s = Some (True, s') \<and> content d = patch (content (dev s)) (S * 512) (peek (mem s) buf 512)
      \<and> buffer_ok drive g (content d) N 9 spt s' \<and> same_outside io_area (mem s) m"
proof -
  have sg: "sound_geometry g 9 spt N" using e by (simp add: rw_drive_def)
  have g: "0 < spt" "spt * 512 \<le> 0x7e00" "N \<le> 2 ^ 31" using sg by (simp_all add: sound_geometry_def)
  have bg: "buf_geom s = g" "buf_drive s = drive" using b by (simp_all add: buffer_ok_def)
  have scr: "push_bit 4 SCRATCHSEG = SCRATCHADDR" by (simp add: SCRATCHSEG_def SCRATCHADDR_def)
  have nz: "sectors g \<noteq> 0" using sp g(1) by auto
  let ?D = "content (dev s)" and ?bs = "peek (mem s) buf 512"
  have S1: "S + 1 \<le> N" "S < 2 ^ 32" using S g(3) by simp_all
  obtain m1 where rd: "biosdisk v False drive g (of_nat S) 1 SCRATCHSEG s = Some (0, s\<lparr>mem := m1\<rparr>)"
    and data: "\<forall>i < 512. m1 (SCRATCHADDR + of_nat i) = ?D (S * 512 + i)"
    and keep1: "\<forall>x. 0x600 \<le> x \<longrightarrow> \<not> region SCRATCHADDR 512 x \<longrightarrow> m1 x = mem s x"
    and out1: "\<forall>x. \<not> io_area x \<longrightarrow> \<not> region SCRATCHADDR 512 x \<longrightarrow> m1 x = mem s x"
    using rw_read [OF e, of 1 S SCRATCHSEG s] S1 scr by auto
  have o1: "same_outside io_area (mem s) m1" using out1 scratch_region(1) unfolding same_outside_def by blast
  have pb: "peek m1 buf 512 = ?bs" by (rule clear_source_peek [OF src o1])
  have lo: "\<not> region SCRATCHADDR 512 (BUFFERADDR + of_nat i)" if "i < spt * 512" for i
    using scratch_region(2) [of "BUFFERADDR + of_nat i"] that g(2) by (metis less_le_trans)
  have bufkeep: "m1 (BUFFERADDR + of_nat i) = mem s (BUFFERADDR + of_nat i)" if "i < spt * 512" for i
    using keep1 lo [OF that] buffer_high [of i] that g(2) by simp
  show ?thesis
  proof (cases "peek m1 SCRATCHADDR 512 = peek m1 buf 512")
    case True
    then have "?bs ! j = ?D (S * 512 + j)" if "j < 512" for j
      using data that pb by (metis nth_peek)
    then have same: "patch ?D (S * 512) ?bs = ?D" by (intro patch_same) simp
    have "rawwrite v drive (of_nat S) buf s = Some (True, s\<lparr>mem := m1, errnum := errnum s, dev := dev s\<rparr>)"
      using True rd bg by (simp add: rawwrite_def)
    moreover have "buffer_ok drive g ?D N 9 spt (s\<lparr>mem := m1, errnum := errnum s, dev := dev s\<rparr>)"
      using b bufkeep by (simp add: buffer_ok_def)
    ultimately show ?thesis using same o1 unfolding Let_def by metis
  next
    case False
    have ls: "SCRATCHADDR \<noteq> 0" "unat SCRATCHADDR + 512 \<le> 0x100000" by (simp_all add: SCRATCHADDR_def)
    have lb: "unat buf + 512 \<le> 2 ^ 32" using src by (simp add: clear_source_def)
    let ?s1 = "s\<lparr>mem := m1\<rparr>"
    define m2 where "m2 = copied SCRATCHADDR buf 512 m1"
    have mv: "gmemmove SCRATCHADDR buf SECTOR_SIZE ?s1 = ?s1\<lparr>errnum := ERR_NONE, mem := m2\<rparr>"
      using gmemmove_low [OF ls lb, of ?s1] by (simp add: SECTOR_SIZE_def m2_def)
    have p2: "peek m2 SCRATCHADDR 512 = ?bs"
      unfolding pb [symmetric] m2_def by (rule nth_equalityI) (simp_all add: copied_in)
    have k2: "m2 x = m1 x" if "\<not> region SCRATCHADDR 512 x" for x
      using that by (simp add: m2_def copied_out)
    obtain m3 d where wr: "biosdisk v True drive g (of_nat S) 1 SCRATCHSEG (?s1\<lparr>errnum := ERR_NONE, mem := m2\<rparr>)
        = Some (0, ?s1\<lparr>errnum := ERR_NONE, mem := m3, dev := d\<rparr>)"
      and cd: "content d = patch ?D (S * 512) ?bs" and keep3: "\<forall>x. 0x600 \<le> x \<longrightarrow> m3 x = m2 x" and out3: "\<forall>x. \<not> io_area x \<longrightarrow> m3 x = m2 x"
      using rw_write [OF e, of 1 S SCRATCHSEG "?s1\<lparr>errnum := ERR_NONE, mem := m2\<rparr>"] S1 p2 scr by auto
    let ?s3 = "s\<lparr>mem := m3, errnum := ERR_NONE, dev := d\<rparr>"
    have s3: "?s1\<lparr>errnum := ERR_NONE, mem := m3, dev := d\<rparr> = ?s3" by simp
    have o3: "same_outside io_area (mem s) m3"
      using out3 k2 o1 scratch_region(1) unfolding same_outside_def by metis
    have b3: "m3 (BUFFERADDR + of_nat i) = mem s (BUFFERADDR + of_nat i)" if "i < spt * 512" for i
      using keep3 k2 [OF lo [OF that]] bufkeep [OF that] buffer_high [of i] that g(2) by simp
    have wS: "(of_nat S :: u32) - of_nat S mod sectors g = of_nat (S div spt * spt)"
    proof -
      have "sectors g = of_nat spt" by (simp flip: sp)
      moreover have "spt < 2 ^ 32" using g(2) by simp
      ultimately have "(of_nat S :: u32) mod sectors g = of_nat (S mod spt)" using of_nat_mod_u32 [OF S1(2)] by simp
      moreover have "S = S div spt * spt + S mod spt" by simp
      then have "(of_nat S :: u32) = of_nat (S div spt * spt) + of_nat (S mod spt)" by (metis of_nat_add)
      ultimately show ?thesis by simp
    qed
    have "S div spt * spt \<le> S" by simp
    then have ut: "unat (of_nat (S div spt * spt) :: u32) = S div spt * spt" using S1(2) by (intro unat_of_nat_small) linarith
    show ?thesis
    proof (cases "of_nat (S div spt * spt) = buf_track s")
      case other: False
      have r: "rawwrite v drive (of_nat S) buf s = Some (True, ?s3)"
        using False rd bg nz mv wr wS other unfolding s3 by (simp add: rawwrite_def Let_def)
      have "unat (buf_track s) \<noteq> S div spt * spt"
      proof
        assume "unat (buf_track s) = S div spt * spt"
        then have "of_nat (S div spt * spt) = buf_track s" by (metis of_nat_unat ucast_id)
        then show False using other by simp
      qed
      then have "buffer_ok drive g (content d) N 9 spt ?s3"
        unfolding cd using b b3 g(1) by (intro buffer_ok_other_track [OF b]) simp_all
      then show ?thesis using r cd o3 unfolding Let_def by blast
    next
      case True
      let ?o = "S mod spt * 512"
      have om: "S mod spt + 1 \<le> spt" using g(1) by (simp add: Suc_le_eq)
      then have oo: "?o + 512 \<le> spt * 512" by linarith
      have pos: "BUFFERADDR + push_bit 9 (of_nat S - buf_track s) = BUFFERADDR + of_nat ?o"
      proof -
        have "(of_nat S :: u32) - of_nat (S div spt * spt) = of_nat (S mod spt)"
          by (metis add_diff_cancel_left' div_mult_mod_eq of_nat_add)
        then show ?thesis by (simp add: True [symmetric] push_bit_of_nat)
      qed
      have ua: "unat (BUFFERADDR + of_nat ?o) = 0x70000 + ?o" using oo g(2) buffer_high [of ?o] by simp
      have la: "BUFFERADDR + of_nat ?o \<noteq> 0" "unat (BUFFERADDR + of_nat ?o) + 512 \<le> 0x100000"
        using ua oo g(2) by (auto simp del: unat_eq_0 simp: unat_eq_0 [symmetric])
      define m4 where "m4 = copied (BUFFERADDR + of_nat ?o) buf 512 m3"
      have mv4: "gmemmove (BUFFERADDR + of_nat ?o) buf SECTOR_SIZE ?s3 = ?s3\<lparr>errnum := ERR_NONE, mem := m4\<rparr>"
        using gmemmove_low [OF la lb, of ?s3] by (simp add: SECTOR_SIZE_def m4_def)
      let ?s4 = "s\<lparr>mem := m4, errnum := ERR_NONE, dev := d\<rparr>"
      have r: "rawwrite v drive (of_nat S) buf s = Some (True, ?s4)"
        using False rd bg nz mv wr wS True mv4 unfolding s3 by (simp add: rawwrite_def Let_def pos)
      have new: "m4 (BUFFERADDR + of_nat i) = (if ?o \<le> i \<and> i < ?o + 512 then ?bs ! (i - ?o) else mem s (BUFFERADDR + of_nat i))"
        if i: "i < spt * 512" for i
      proof (cases "?o \<le> i \<and> i < ?o + 512")
        case True
        define j where "j = i - ?o"
        have j: "i = ?o + j" "j < 512" using True by (auto simp: j_def)
        have "m4 (BUFFERADDR + of_nat ?o + of_nat j) = m3 (buf + of_nat j)"
          unfolding m4_def by (rule copied_in [OF j(2)]) simp
        then have "m4 (BUFFERADDR + of_nat i) = m3 (buf + of_nat j)" by (simp add: j(1) add.assoc)
        also have "\<dots> = mem s (buf + of_nat j)"
          using o3 src j(2) unfolding same_outside_def clear_source_def by blast
        finally show ?thesis using True j(2) by (simp add: j_def [symmetric])
      next
        case out: False
        have "\<not> region (BUFFERADDR + of_nat ?o) 512 (BUFFERADDR + of_nat i)"
        proof (cases "?o \<le> i")
          case True
          then have "unat (of_nat i - of_nat ?o :: u32) = i - ?o" using i g(2) by (intro unat_diff_up) simp_all
          then show ?thesis using out True by (simp add: region_def)
        next
          case False
          then have "unat (of_nat i - of_nat ?o :: u32) = 2 ^ 32 + i - ?o" using i g(2) oo by (intro unat_diff_wrap) simp_all
          then show ?thesis using False oo g(2) by (simp add: region_def)
        qed
        then show ?thesis using out b3 [OF i] by (auto simp: m4_def copied_out)
      qed
      have "unat (buf_track s) = S div spt * spt" using True ut by simp
      moreover have "buf_track s \<noteq> -1"
      proof
        assume "buf_track s = -1"
        then have "S div spt * spt = 2 ^ 32 - 1" using True ut by (simp add: unsigned_minus_1_eq_mask mask_eq_exp_minus_1)
        then show False using \<open>S div spt * spt \<le> S\<close> S g(3) by simp
      qed
      ultimately have bo: "buffer_ok drive g (content d) N 9 spt ?s4"
        unfolding cd using new g(1) by (intro buffer_ok_same_track [OF b]) simp_all
      have "io_area (BUFFERADDR + of_nat ?o + of_nat i)" if "i < 512" for i
      proof -
        have "?o + i < 0x7e00" using that oo g(2) by linarith
        then have "io_area (BUFFERADDR + of_nat (?o + i))" using buffer_high [of "?o + i"] by (simp add: io_area_def word_le_nat_alt word_less_nat_alt)
        then show ?thesis by (simp add: add.assoc)
      qed
      then have "io_area x" if "region (BUFFERADDR + of_nat ?o) 512 x" for x
        using that by (metis region_def add_diff_cancel_left' add.commute diff_add_cancel of_nat_unat ucast_id)
      then have "same_outside io_area (mem s) m4"
        using o3 unfolding same_outside_def m4_def by (metis copied_out)
      then show ?thesis using r cd bo unfolding Let_def by blast
    qed
  qed
qed


section \<open>Writing to a partition\<close>

lemma peek_append: "peek m a (p + q) = peek m a p @ peek m (a + of_nat p) q"
proof (rule nth_equalityI)
  fix i assume "i < length (peek m a (p + q))"
  then have i: "i < p + q" by simp
  show "peek m a (p + q) ! i = (peek m a p @ peek m (a + of_nat p) q) ! i"
  proof (cases "i < p")
    case False
    then have "(of_nat i :: u32) = of_nat p + of_nat (i - p)" by (metis le_add_diff_inverse not_less of_nat_add)
    then have "a + of_nat i = a + of_nat p + of_nat (i - p)" by (simp only: add.assoc)
    then show ?thesis using i False by (simp add: nth_append add.assoc del: of_nat_diff)
  qed (simp add: nth_append)
qed simp

lemma devwrite_loop_writes:
  fixes s :: "('d, 'h, 'z) gstate"
  assumes e: "rw_drive v drive g content N 9 spt" and sp: "unat (sectors g) = spt"
    and "current_drive s = drive" "buffer_ok drive g (content (dev s)) N 9 spt s"
    and "unat (part_start s) + sec + j + n \<le> N" "clear_source (buf + of_nat (j * 512)) (n * 512)"
  shows "\<exists>m er d. let s' = s\<lparr>mem := m, errnum := er, dev := d\<rparr>
    in devwrite_loop n v (of_nat sec) (of_nat j) buf s = Some (True, s')
      \<and> content d = patch (content (dev s)) ((unat (part_start s) + sec + j) * 512) (peek (mem s) (buf + of_nat (j * 512)) (n * 512))
      \<and> buffer_ok drive g (content d) N 9 spt s' \<and> same_outside io_area (mem s) m"
  using assms(3-6)
proof (induction n arbitrary: s j)
  case 0
  have "patch (content (dev s)) a [] = content (dev s)" for a by (rule patch_same) simp
  moreover have "peek (mem s) a 0 = []" for a by (simp add: peek_def)
  moreover have "s = s\<lparr>mem := mem s, errnum := errnum s, dev := dev s\<rparr>" by simp
  ultimately show ?case using "0.prems"(2) unfolding Let_def by (metis devwrite_loop.simps(1) mult_zero_left same_outside_refl)
next
  case (Suc n)
  let ?a = "unat (part_start s) + sec + j" and ?b = "buf + of_nat (j * 512)"
  have "?a < N" using Suc.prems(3) by simp
  have c1: "clear_source ?b 512" using clear_source_part [OF Suc.prems(4), of 0 512] by simp
  obtain m er d where w: "rawwrite v drive (of_nat ?a) ?b s = Some (True, s\<lparr>mem := m, errnum := er, dev := d\<rparr>)"
    and cd: "content d = patch (content (dev s)) (?a * 512) (peek (mem s) ?b 512)"
    and bo: "buffer_ok drive g (content d) N 9 spt (s\<lparr>mem := m, errnum := er, dev := d\<rparr>)" and so: "same_outside io_area (mem s) m"
    using rawwrite_writes [OF e sp Suc.prems(2) \<open>?a < N\<close> c1] unfolding Let_def by blast
  let ?s1 = "s\<lparr>mem := m, errnum := er, dev := d\<rparr>"
  have nb: "?b + of_nat 512 = buf + of_nat (Suc j * 512)" by (simp add: algebra_simps)
  have c2: "clear_source (buf + of_nat (Suc j * 512)) (n * 512)"
  proof (cases "n = 0")
    case True
    have "unat (buf + of_nat (Suc j * 512)) \<le> 2 ^ 32" by simp
    then show ?thesis using True by (simp add: clear_source_def)
  next
    case False
    then show ?thesis using clear_source_part [OF Suc.prems(4), of 512 "n * 512"] unfolding nb by simp
  qed
  have b1: "unat (part_start ?s1) + sec + Suc j + n \<le> N" using Suc.prems(3) by simp
  have cd1: "current_drive ?s1 = drive" "buffer_ok drive g (content (dev ?s1)) N 9 spt ?s1" using Suc.prems(1) bo by simp_all
  obtain m' er' d' where r: "devwrite_loop n v (of_nat sec) (of_nat (Suc j)) buf ?s1 = Some (True, ?s1\<lparr>mem := m', errnum := er', dev := d'\<rparr>)"
    and cd': "content d' = patch (content d) ((?a + 1) * 512) (peek m (buf + of_nat (Suc j * 512)) (n * 512))"
    and bo': "buffer_ok drive g (content d') N 9 spt (?s1\<lparr>mem := m', errnum := er', dev := d'\<rparr>)" and so': "same_outside io_area m m'"
    using Suc.IH [OF cd1 b1 c2] unfolding Let_def by auto
  have pk1: "peek m (buf + of_nat (Suc j * 512)) (n * 512) = peek (mem s) (buf + of_nat (Suc j * 512)) (n * 512)"
    by (rule clear_source_peek [OF c2 so])
  have pk2: "peek (mem s) ?b (Suc n * 512) = peek (mem s) ?b 512 @ peek (mem s) (buf + of_nat (Suc j * 512)) (n * 512)"
    using peek_append [of "mem s" ?b 512 "n * 512"] unfolding nb by simp
  have pos: "(?a + 1) * 512 = ?a * 512 + 512" by simp
  note pa = patch_append [of "content (dev s)" "?a * 512" "peek (mem s) ?b 512", unfolded length_peek]
  have fin: "content d' = patch (content (dev s)) (?a * 512) (peek (mem s) ?b (Suc n * 512))"
    by (simp only: cd' cd pos pk1 pk2 pa)
  have st: "?s1\<lparr>mem := m', errnum := er', dev := d'\<rparr> = s\<lparr>mem := m', errnum := er', dev := d'\<rparr>" by simp
  have "devwrite_loop (Suc n) v (of_nat sec) (of_nat j) buf s = Some (True, s\<lparr>mem := m', errnum := er', dev := d'\<rparr>)"
  proof -
    have adr: "part_start s + of_nat sec + of_nat j = of_nat ?a" by simp
    have src: "buf + push_bit 9 (of_nat j) = ?b" by (simp add: push_bit_of_nat)
    have nxt: "(of_nat j :: u32) + 1 = of_nat (Suc j)" by simp
    show ?thesis using w r Suc.prems(1)
      by (simp only: devwrite_loop.simps adr src nxt) (simp add: st)
  qed
  then show ?case using fin bo' same_outside_trans [OF so so'] unfolding st Let_def by blast
qed

lemma devwrite_writes:
  assumes "rw_drive v (current_drive s) g content N 9 spt" "unat (sectors g) = spt" "buffer_ok (current_drive s) g (content (dev s)) N 9 spt s"
    and "unat (part_start s) + sec + n \<le> N" "clear_source buf (n * 512)" "n < 2 ^ 32"
  shows "\<exists>m er d. let s' = s\<lparr>mem := m, errnum := er, dev := d\<rparr>
    in devwrite v (of_nat sec) (of_nat n) buf s = Some (True, s')
      \<and> content d = patch (content (dev s)) ((unat (part_start s) + sec) * 512) (peek (mem s) buf (n * 512))
      \<and> buffer_ok (current_drive s) g (content d) N 9 spt s' \<and> same_outside io_area (mem s) m"
  using devwrite_loop_writes [OF assms(1,2) refl assms(3), of sec 0 n buf] assms(4,5) unat_of_nat_small [OF assms(6)]
  by (simp add: devwrite_def)


section \<open>The contracts of writing\<close>

text \<open>
  C14. On a drive whose BIOS reads and writes 512-byte sectors, \<open>rawwrite\<close> returns 1 and changes exactly sector
  \<open>S\<close> of the drive, to the 512 bytes at \<open>buf\<close>; the track buffer stays coherent with the new content, whether
  the track of \<open>S\<close>, another one or none is buffered and whether the write was needed or not.
\<close>

theorem rawwrite_keeps_buffer:
  assumes "rw_drive v drive g content N 9 spt" "unat (sectors g) = spt"
    and "buffer_ok drive g (content (dev s)) N 9 spt s" "S < N" "clear_source buf 512"
  shows "\<exists>m er d. let s' = s\<lparr>mem := m, errnum := er, dev := d\<rparr>
    in rawwrite v drive (of_nat S) buf s = Some (True, s') \<and> content d = patch (content (dev s)) (S * 512) (peek (mem s) buf 512)
      \<and> buffer_ok drive g (content d) N 9 spt s' \<and> same_outside io_area (mem s) m"
  using assms by (rule rawwrite_writes)

text \<open>
  C8. \<open>devwrite\<close> changes exactly the bytes of its sectors on the disk, to those of the buffer, and what it has written to
  a partition is what \<open>devread\<close> reads back from it, from any offset on and across sectors and tracks.  Up to \<open>2\<^sup>2\<^sup>2\<close>
  sectors are written, from a buffer that is not the track buffer, within the partition and on tracks of the disk; the
  sector number is below \<open>2\<^sup>3\<^sup>1\<close>, \<open>debug\<close> is 0 and no 2048-byte sectors are emulated.
\<close>

theorem devwrite_devread:
  assumes "rw_drive v (current_drive s) g content N 9 spt" "unat (sectors g) = spt"
    and "buffer_ok (current_drive s) g (content (dev s)) N 9 spt s" "\<not> emu_iso_sector_size_2048 s" "debug s = 0"
    and "sec + n \<le> unat (part_length s)" "(unat (part_start s) + sec + n) div spt * spt + spt \<le> N"
    and "clear_source buf (n * 512)" "dest_ok (mem_upper s) B L" "0 < L" "off + L \<le> n * 512" "n < 2 ^ 22" "sec < 2 ^ 31"
  shows "\<exists>s1 s2. devwrite v (of_nat sec) (of_nat n) buf s = Some (True, s1)
    \<and> content (dev s1) = patch (content (dev s)) ((unat (part_start s) + sec) * 512) (peek (mem s) buf (n * 512))
    \<and> devread v (of_nat sec) (of_nat off) (of_nat L) B s1 = Some (True, s2)
    \<and> peek (mem s2) B L = peek (mem s) (buf + of_nat off) L"
proof -
  have spt: "0 < spt" using assms(1) by (simp add: rw_drive_def sound_geometry_def)
  have up: "a \<le> a div spt * spt + spt" for a :: nat
    using spt mod_less_divisor [OF spt, of a] div_mult_mod_eq [of a spt] by linarith
  have n: "unat (part_start s) + sec + n \<le> N" "n < 2 ^ 32" "L < 2 ^ 31" "off < 2 ^ 31"
    using assms(7,10-12) up [of "unat (part_start s) + sec + n"] by simp_all
  obtain m er d where w: "devwrite v (of_nat sec) (of_nat n) buf s = Some (True, s\<lparr>mem := m, errnum := er, dev := d\<rparr>)"
    and cd: "content d = patch (content (dev s)) ((unat (part_start s) + sec) * 512) (peek (mem s) buf (n * 512))"
    and bo: "buffer_ok (current_drive s) g (content d) N 9 spt (s\<lparr>mem := m, errnum := er, dev := d\<rparr>)"
    using devwrite_writes [OF assms(1-3) n(1) assms(8) n(2)] unfolding Let_def by blast
  let ?s1 = "s\<lparr>mem := m, errnum := er, dev := d\<rparr>"
  have ca: "rw.cached (current_drive s) g (content d) N 9 spt v content ?s1"
    unfolding rw.cached_def using assms(1) bo by simp
  define final where "final = sec + (off + L - 1) div 2 ^ 9"
  have "off + L - 1 < n * 512" using assms(10,11) by linarith
  then have "(off + L - 1) div 2 ^ 9 < n" by (simp add: div_less_iff_less_mult)
  then have fl: "final < sec + n" by (simp add: final_def)
  then have ins: "final < unat (part_length ?s1)" using assms(6) by simp
  have "(unat (part_start s) + final) div spt \<le> (unat (part_start s) + sec + n) div spt"
    using fl by (intro div_le_mono) simp
  then have "(unat (part_start s) + final) div spt * spt \<le> (unat (part_start s) + sec + n) div spt * spt" by (rule mult_le_mono1)
  then have "(unat (part_start s) + final) div spt * spt + spt \<le> N" using assms(7) by linarith
  moreover have "part_start ?s1 = part_start s" by simp
  ultimately have fit: "(unat (part_start ?s1) + final) div spt * spt + spt \<le> N" by (simp only:)
  have st: "current_drive ?s1 = current_drive s" "\<not> emu_iso_sector_size_2048 ?s1" "debug ?s1 = 0" "dest_ok (mem_upper ?s1) B L"
    using assms(4,5,9) by simp_all
  obtain s2 m2 where r: "devread v (of_nat sec) (of_nat off) (of_nat L) B ?s1 = Some (True, s2)" "mem s2 = m2"
    "\<forall>i < L. m2 (B + of_nat i) = content d ((unat (part_start s) + sec) * 2 ^ 9 + off + i)"
    using rw.devread_reads(2) [OF ca _ st(1,2) assms(10) n(3,4) assms(13) st(3) ins [unfolded final_def] fit [unfolded final_def] st(4)]
    by (auto simp: Let_def)
  have "m2 (B + of_nat i) = mem s (buf + of_nat off + of_nat i)" if i: "i < L" for i
  proof -
    have "off + i < n * 512" using i assms(11) by linarith
    then have "content d ((unat (part_start s) + sec) * 512 + (off + i)) = mem s (buf + of_nat (off + i))"
      unfolding cd by (subst patch_in) simp_all
    then show ?thesis using r(3) i by (simp add: add.assoc)
  qed
  then have "peek (mem s2) B L = peek (mem s) (buf + of_nat off) L" by (simp add: peek_def r(2))
  then show ?thesis using w cd r(1) by (intro exI [of _ ?s1] exI [of _ s2]) simp
qed

section \<open>A disk that is written\<close>

text \<open>A BIOS whose state is the content of the drive.\<close>

definition writable_bios :: "geometry \<Rightarrow> (nat \<Rightarrow> u8, 'h) disk_env" where
  "writable_bios g = (image_bios (\<lambda>i. 0) g)\<lparr>int13_extensions := (\<lambda>ax drive m d.
     let n = unat (peek16 m 0x582); ss = unat (sector_size g); lba = unat (peek64 m 0x588);
         buf = push_bit 4 (drop_bit 16 (peek32 m 0x584)) + (peek32 m 0x584 AND 0xFFFF)
     in if ax = 0x4200 then (0, poke buf (map (\<lambda>i. d (lba * ss + i)) [0..<n * ss]) m, d)
        else if ax = 0x4300 then (0, m, patch d (lba * ss) (peek m buf (n * ss))) else (1, m, d))\<rparr>"

lemma writable_rw: "rw_drive (writable_bios (demo_geometry 1)) 0x80 (demo_geometry 1) (\<lambda>d. d) 1260 9 63"
proof -
  have n: "n * 512 < 2 ^ 32" if "n \<le> 127" for n :: nat using that by simp
  have "is_mem_disk (writable_bios (demo_geometry 1)) 0x80 = False"
    by (simp add: is_mem_disk_def writable_bios_def image_bios_def)
  moreover have "edd_transfers (writable_bios (demo_geometry 1)) 0x80 (\<lambda>d. d) 1260 9"
    using n by (simp add: edd_transfers_def writable_bios_def demo_geometry_def poke_image Let_def)
  moreover have "gflags (demo_geometry 1) AND BIOSDISK_FLAG_LBA_EXTENSION \<noteq> 0"
    by (simp add: demo_geometry_def BIOSDISK_FLAG_LBA_EXTENSION_def)
  ultimately show ?thesis by (simp add: rw_drive_def demo_sound)
qed

definition writable_state :: "(nat \<Rightarrow> u8, unit) globals" where
  "writable_state = (globals_start (\<lambda>a. ucast a) (\<lambda>i. 0) ())\<lparr>mem_upper := 0x10000, buf_drive := 0x80, buf_geom := demo_geometry 1,
     current_drive := 0x80, part_start := 63, part_length := 189\<rparr>"

lemma writable_buffer: "buffer_ok 0x80 (demo_geometry 1) disk N k spt writable_state"
  by (simp add: buffer_ok_def writable_state_def globals_start_def)

lemma clear_source_low:
  assumes "0x5d2 \<le> unat a" "unat a + n \<le> 0x70000"
  shows "clear_source a n"
  using dest_ok_low [OF assms, of 0] assms(2) by (simp add: dest_ok_def clear_source_def)

theorem rawwrite_keeps_buffer_witness:
  "\<exists>s'. rawwrite (writable_bios (demo_geometry 1)) 0x80 70 0x9010 writable_state = Some (True, s') \<and> dev s' (70 * 512 + 3) = 0x13"
proof -
  have s: "dev writable_state = (\<lambda>i. 0)" "mem writable_state = (\<lambda>a. ucast a)" by (simp_all add: writable_state_def globals_start_def)
  have "unat (sectors (demo_geometry 1)) = 63" by (simp add: demo_geometry_def)
  moreover have "clear_source 0x9010 512" by (rule clear_source_low) simp_all
  ultimately obtain m er d where
    r: "rawwrite (writable_bios (demo_geometry 1)) 0x80 (of_nat 70) 0x9010 writable_state = Some (True, writable_state\<lparr>mem := m, errnum := er, dev := d\<rparr>)"
    and d: "d = patch (\<lambda>i. 0) (70 * 512) (peek (mem writable_state) 0x9010 512)"
    using rawwrite_keeps_buffer [OF writable_rw _ writable_buffer, of 70 "0x9010"] s by (auto simp: Let_def)
  have "d (70 * 512 + 3) = peek (mem writable_state) 0x9010 512 ! 3" unfolding d by (rule patch_in) simp
  then have "d (70 * 512 + 3) = 0x13" by (simp add: s)
  then show ?thesis using r by simp
qed

theorem devwrite_devread_witness:
  "\<exists>s1 s2. devwrite (writable_bios (demo_geometry 1)) 60 10 0x9000 writable_state = Some (True, s1)
     \<and> devread (writable_bios (demo_geometry 1)) 60 700 4000 0x20000 s1 = Some (True, s2) \<and> mem s2 0x20001 = 0xbd"
proof -
  have s: "current_drive writable_state = 0x80" "dev writable_state = (\<lambda>i. 0)" "mem writable_state = (\<lambda>a. ucast a)"
    "\<not> emu_iso_sector_size_2048 writable_state" "debug writable_state = 0" "part_start writable_state = 63" "part_length writable_state = 189"
    "mem_upper writable_state = 0x10000"
    by (simp_all add: writable_state_def globals_start_def)
  have sp: "unat (sectors (demo_geometry 1)) = 63" by (simp add: demo_geometry_def)
  have rw: "rw_drive (writable_bios (demo_geometry 1)) (current_drive writable_state) (demo_geometry 1) (\<lambda>d. d) 1260 9 63"
    unfolding s by (rule writable_rw)
  have bo: "buffer_ok (current_drive writable_state) (demo_geometry 1) (dev writable_state) 1260 9 63 writable_state"
    unfolding s by (rule writable_buffer)
  have cl: "clear_source 0x9000 (10 * 512)" by (rule clear_source_low) simp_all
  have de: "dest_ok (mem_upper writable_state) 0x20000 4000" by (rule dest_ok_low) (simp_all add: s)
  obtain s1 s2 where r: "devwrite (writable_bios (demo_geometry 1)) 60 10 0x9000 writable_state = Some (True, s1)"
    "devread (writable_bios (demo_geometry 1)) 60 700 4000 0x20000 s1 = Some (True, s2)"
    and p: "peek (mem s2) 0x20000 4000 = peek (mem writable_state) (0x9000 + of_nat 700) 4000"
    using devwrite_devread [OF rw sp bo s(4,5) _ _ cl de, of 60 700] s by auto
  have "mem s2 0x20001 = peek (mem s2) 0x20000 4000 ! 1" by simp
  also have "\<dots> = 0xbd" unfolding p by (simp add: s)
  finally show ?thesis using r by blast
qed

end
