(* ===== verification/HidePart.thy ===== *)
theory HidePart
imports PartCmd SliceWalk DiskWrite
begin

text \<open>
  The commands on partition tables against the disk: hiding and unhiding a primary partition changes one byte
  of the disk, through the walk over the tables, the write of the sector and the track buffer.
\<close>

section \<open>Finding a primary partition\<close>

definition primary :: "nat \<Rightarrow> u32" where
  "primary p = push_bit 16 (of_nat p) OR 0xFFFF"

lemma primary_fields:
  assumes "p < 4"
  shows "drop_bit 16 (primary p AND 0xFF0000) = of_nat p" "drop_bit 16 (primary p) = of_nat p" "primary p AND 0xFFFF = 0xFFFF"
    "primary p \<noteq> 0xFFFFFF" "drop_bit 16 (primary p) \<noteq> 0xFF"
    "q < 4 \<Longrightarrow> primary p = primary q \<longleftrightarrow> p = q"
proof -
  have p: "p \<in> {0, 1, 2, 3}" using assms by auto
  show "drop_bit 16 (primary p AND 0xFF0000) = of_nat p" "drop_bit 16 (primary p) = of_nat p" "primary p AND 0xFFFF = 0xFFFF"
    "primary p \<noteq> 0xFFFFFF" "drop_bit 16 (primary p) \<noteq> 0xFF"
    using p by (auto simp: primary_def)
  show "primary p = primary q \<longleftrightarrow> p = q" if "q < 4"
  proof -
    have "q \<in> {0, 1, 2, 3}" using that by auto
    then show ?thesis using p by (auto simp: primary_def)
  qed
qed

lemma next_partition_slice:
  assumes "current_drive s \<noteq> NETWORK_DRIVE" "current_drive s \<noteq> PXE_DRIVE" "next_drive it AND 0x80 \<noteq> 0"
    and "next_part_no it = 0xFFFFFF \<or> \<not> IS_PC_SLICE_TYPE_BSD (next_type it AND 0xff)"
  shows "next_partition v it s = next_pc_slice v it s"
  using assms by (auto simp: next_partition_def)

context sector_source
begin

lemma next_primary:
  assumes k: "k = 9" and c: "cached s" and t: "table_at disk N spt 0 = Some t" and sig: "PC_MBR_CHECK_SIG t 0"
    and cur: "at_cursor it (int q - 1) 0 0 q" "next_drive it = drive" "next_buf it = MBR" and q: "q < 4"
    and up: "unat (mem_upper s) < 2 ^ 22 - 1024"
  shows "\<exists>it' s'. next_pc_slice v it s = Some (True, it', s') \<and> cached s' \<and> walked s s' \<and> same_target it it'
    \<and> next_part_no it' = primary q \<and> next_type it' = ucast (PC_SLICE_TYPE t 0 (of_nat q)) \<and> next_offset it' = 0 \<and> next_ext_offset it' = 0
    \<and> next_entry it' = of_nat q \<and> in_buffer (mem s') MBR t"
proof -
  have f: "find (\<lambda>j. int q - 1 < 3 \<or> slice_used t j) [q..<4] = Some q"
    using q by (subst upt_rec) simp
  have "slice_after (table_at disk N spt) (int q - 1) 0 0 q (NextSlice (int q) 0 0 t q)"
    using slice_after.here [of "table_at disk N spt", OF t sig f, of 0] q by simp
  moreover have "dest_ok (mem_upper s) (next_buf it) 512"
    unfolding cur(3) MBR_def by (rule dest_ok_low) (use up in simp_all)
  ultimately obtain ok it' s' where r: "next_pc_slice v it s = Some (ok, it', s')"
    "delivers (NextSlice (int q) 0 0 t q) ok it' s'" "cached s'" "walked s s'" "ok \<longrightarrow> same_target it it'"
    using follows [OF k _ cur(1,2) c] by blast
  then show ?thesis using cur(3) by (auto simp: delivers_def primary_def same_target_def)
qed

lemma seek_primary:
  assumes k: "k = 9" and t: "table_at disk N spt 0 = Some t" and sig: "PC_MBR_CHECK_SIG t 0" and dr: "drive AND 0x80 \<noteq> 0"
    and p: "p < 4" and bsd: "\<And>j. j < p \<Longrightarrow> \<not> IS_PC_SLICE_TYPE_BSD (ucast (PC_SLICE_TYPE t 0 (of_nat j)))"
  shows "q \<le> p \<Longrightarrow> cached s \<Longrightarrow> at_cursor it (int q - 1) 0 0 q \<Longrightarrow> next_drive it = drive \<Longrightarrow> next_buf it = MBR \<Longrightarrow>
    (if q = 0 then next_part_no it = 0xFFFFFF else next_type it = ucast (PC_SLICE_TYPE t 0 (of_nat (q - 1)))) \<Longrightarrow>
    unat (mem_upper s) < 2 ^ 22 - 1024 \<Longrightarrow> current_drive s = drive \<Longrightarrow> current_partition s = primary p \<Longrightarrow>
    \<exists>it' s'. seek_partition v it s = Some (Some it', s') \<and> cached s' \<and> walked s s' \<and> next_offset it' = 0
      \<and> next_entry it' = of_nat p \<and> in_buffer (mem s') MBR t"
proof (induction "p - q" arbitrary: q it s)
  have net: "drive \<noteq> NETWORK_DRIVE" "drive \<noteq> PXE_DRIVE" using dr by (auto simp: NETWORK_DRIVE_def PXE_DRIVE_def)
  {
    fix q it and s :: "('d, 'h, 'z) gstate"
    assume a: "q \<le> p" "cached s" "at_cursor it (int q - 1) 0 0 q" "next_drive it = drive" "next_buf it = MBR"
      "if q = 0 then next_part_no it = 0xFFFFFF else next_type it = ucast (PC_SLICE_TYPE t 0 (of_nat (q - 1)))"
      "unat (mem_upper s) < 2 ^ 22 - 1024" "current_drive s = drive"
    have "next_part_no it = 0xFFFFFF \<or> \<not> IS_PC_SLICE_TYPE_BSD (next_type it AND 0xff)"
    proof (cases "q = 0")
      case False
      have m8: "(0xff :: u32) = mask 8" by (simp add: mask_eq_exp_minus_1)
      have "ucast (x :: u8) AND (0xff :: u32) = ucast x" for x
        unfolding m8 by (rule bit_word_eqI) (auto simp: bit_simps dest: bit_imp_le_length)
      then show ?thesis using a(1,6) bsd [of "q - 1"] False by simp
    qed (use a in simp)
    then have np: "next_partition v it s = next_pc_slice v it s"
      using a net dr by (intro next_partition_slice) simp_all
    have q4: "q < 4" using a(1) p by simp
    obtain it' s' where r: "next_pc_slice v it s = Some (True, it', s')" "cached s'" "walked s s'" "same_target it it'"
      "next_part_no it' = primary q" "next_type it' = ucast (PC_SLICE_TYPE t 0 (of_nat q))" "next_offset it' = 0" "next_ext_offset it' = 0"
      "next_entry it' = of_nat q" "in_buffer (mem s') MBR t"
      using next_primary [OF k a(2) t sig a(3-5) q4 a(7)] by blast
    have "of_nat q \<noteq> (0xFF :: u32)" using primary_fields(2,5) [OF q4] by simp
    then have "at_cursor it' (int q) 0 0 (Suc q)"
      using r(5,7-9) q4 primary_fields(1) [OF q4] by (simp add: at_cursor_def)
    then have "at_cursor it' (int (Suc q) - 1) 0 0 (Suc q)" by simp
    then have "\<exists>it' s'. next_partition v it s = Some (True, it', s') \<and> cached s' \<and> walked s s' \<and> same_target it it'
        \<and> next_part_no it' = primary q \<and> next_type it' = ucast (PC_SLICE_TYPE t 0 (of_nat q)) \<and> next_offset it' = 0
        \<and> next_entry it' = of_nat q \<and> in_buffer (mem s') MBR t \<and> at_cursor it' (int (Suc q) - 1) 0 0 (Suc q)"
      using r np by simp
  }
  note step = this
  {
    case 0
    then have q: "q = p" by simp
    obtain it' s' where r: "next_partition v it s = Some (True, it', s')" "cached s'" "walked s s'"
      "next_part_no it' = primary p" "next_offset it' = 0" "next_entry it' = of_nat p" "in_buffer (mem s') MBR t"
      using step [OF 0(2-9)] unfolding q by blast
    then show ?case using 0(10) walked_keeps(4) [OF r(3)] by (subst seek_partition.simps) auto
  next
    case (Suc d)
    then have q: "q < p" "Suc q \<le> p" "d = p - Suc q" by simp_all
    obtain it' s' where r: "next_partition v it s = Some (True, it', s')" "cached s'" "walked s s'" "same_target it it'"
      "next_part_no it' = primary q" "next_type it' = ucast (PC_SLICE_TYPE t 0 (of_nat q))" "at_cursor it' (int (Suc q) - 1) 0 0 (Suc q)"
      using step [OF Suc(3-10)] by blast
    note w = walked_keeps [OF r(3)]
    have "primary q \<noteq> primary p" using primary_fields(6) [of q p] q(1) p by auto
    then have u: "seek_partition v it s = seek_partition v it' s'"
      using r(1,5) w(4) Suc.prems(9) by (subst seek_partition.simps) simp
    have "next_drive it' = drive" "next_buf it' = MBR" using r(4) Suc.prems(4,5) by (simp_all add: same_target_def)
    moreover have "if Suc q = 0 then next_part_no it' = 0xFFFFFF else next_type it' = ucast (PC_SLICE_TYPE t 0 (of_nat (Suc q - 1)))"
      using r(6) by simp
    ultimately obtain it'' s'' where f: "seek_partition v it' s' = Some (Some it'', s'')" "cached s''" "walked s' s''"
      "next_offset it'' = 0" "next_entry it'' = of_nat p" "in_buffer (mem s'') MBR t"
      using Suc.hyps(1) [OF q(3,2) r(2,7)] w Suc.prems(7-9) by metis
    then show ?case using u walked_trans [OF r(3) f(3)] by auto
  }
qed

end


section \<open>Changing the type\<close>

text \<open>Only memory, the disk and what the disk layer keeps differ.\<close>

definition disk_only :: "('d, 'h, 'z) gstate \<Rightarrow> ('d, 'h, 'z) gstate \<Rightarrow> bool" where
  "disk_only s s' \<longleftrightarrow> (\<exists>m e t h n d. s' = s\<lparr>mem := m, errnum := e, buf_track := t, hook := h, pc_slice_no := n, dev := d\<rparr>)"

lemma disk_onlyI: "s' = s\<lparr>mem := m, errnum := e, buf_track := t, hook := h, pc_slice_no := n, dev := d\<rparr> \<Longrightarrow> disk_only s s'"
  unfolding disk_only_def by blast

lemma disk_only_keeps:
  fixes s s' :: "('d, 'h, 'w) shell"
  assumes "disk_only s s'"
  shows "mem_upper s' = mem_upper s" "current_drive s' = current_drive s" "current_partition s' = current_partition s"
    "saved_drive s' = saved_drive s" "saved_partition s' = saved_partition s" "heap s' = heap s"
    "buf_drive s' = buf_drive s" "buf_geom s' = buf_geom s"
  using assms by (auto simp: disk_only_def)

definition type_position :: "nat \<Rightarrow> nat" where
  "type_position p = 446 + 16 * p + 4"

lemma type_address_primary:
  assumes "p < 4"
  shows "type_address (of_nat p) = MBR + of_nat (type_position p)" "type_position p < 512"
    "PC_SLICE_TYPE t 0 (of_nat p) = t (of_nat (type_position p))"
proof -
  have "p \<in> {0, 1, 2, 3}" using assms by auto
  then show "type_address (of_nat p) = MBR + of_nat (type_position p)" "type_position p < 512"
    "PC_SLICE_TYPE t 0 (of_nat p) = t (of_nat (type_position p))"
    by (auto simp: type_address_def type_position_def PC_SLICE_TYPE_def MBR_def)
qed

text \<open>Writing back the first sector with one byte changed.\<close>

lemma patch_byte:
  assumes "in_buffer m p (sector_image disk 0)" "j < 512"
  shows "patch disk 0 (peek (m(p + of_nat j := b)) p 512) = disk(j := b)"
proof
  fix i
  show "patch disk 0 (peek (m(p + of_nat j := b)) p 512) i = (disk(j := b)) i"
  proof (cases "i < 512")
    case True
    then have u: "unat (of_nat i :: u32) = i" "unat (of_nat j :: u32) = j" using assms(2) by (simp_all add: unat_of_nat_small)
    then have "p + of_nat i = p + of_nat j \<longleftrightarrow> i = j" by (metis add_left_cancel)
    moreover have "m (p + of_nat i) = disk i" using assms(1) True u by (simp add: in_buffer_def sector_image_def)
    ultimately have "(m(p + of_nat j := b)) (p + of_nat i) = (disk(j := b)) i" by (simp del: add_left_cancel)
    moreover have "patch disk 0 (peek (m(p + of_nat j := b)) p 512) i = (m(p + of_nat j := b)) (p + of_nat i)"
      using True unfolding patch_def by (simp del: fun_upd_apply add_left_cancel)
    ultimately show ?thesis by (rule trans [rotated])
  next
    case False
    then show ?thesis using assms(2) by (simp add: patch_def)
  qed
qed

text \<open>The conditions on the disk: a table with its signature and no BSD slice before partition \<open>p\<close>.\<close>

definition primary_table :: "(nat \<Rightarrow> u8) \<Rightarrow> nat \<Rightarrow> bool" where
  "primary_table disk p \<longleftrightarrow> p < 4 \<and> disk 510 = 0x55 \<and> disk 511 = 0xAA
     \<and> (\<forall>j < p. \<not> IS_PC_SLICE_TYPE_BSD (ucast (disk (type_position j))))"

lemma primary_table_image:
  assumes "primary_table disk p"
  shows "PC_MBR_CHECK_SIG (sector_image disk 0) 0"
    "j < p \<Longrightarrow> \<not> IS_PC_SLICE_TYPE_BSD (ucast (PC_SLICE_TYPE (sector_image disk 0) 0 (of_nat j)))"
proof -
  show "PC_MBR_CHECK_SIG (sector_image disk 0) 0"
    using assms by (simp add: primary_table_def PC_MBR_CHECK_SIG_def peek16_def le16_def sector_image_def)
  assume j: "j < p"
  then have j4: "j < 4" using assms by (simp add: primary_table_def)
  have "unat (of_nat (type_position j) :: u32) = type_position j"
    using type_address_primary(2) [OF j4] by (intro unat_of_nat_small) simp
  then show "\<not> IS_PC_SLICE_TYPE_BSD (ucast (PC_SLICE_TYPE (sector_image disk 0) 0 (of_nat j)))"
    using assms j type_address_primary(3) [OF j4] by (simp add: primary_table_def sector_image_def)
qed

lemma set_hidden_primary:
  assumes rw: "rw_drive v drive g content N 9 spt" "unat (sectors g) = spt" "buffer_ok drive g (content (dev s)) N 9 spt s"
    and N: "spt \<le> N" and dr: "current_drive s = drive" "drive AND 0x80 \<noteq> 0" and cp: "current_partition s = primary p"
    and t: "primary_table (content (dev s)) p" and up: "unat (mem_upper s) < 2 ^ 22 - 1024"
  defines "ty \<equiv> content (dev s) (type_position p)"
  shows "\<exists>s'. set_partition_hidden_flag v (Some h) s = Some (1, s') \<and> disk_only s s' \<and> buffer_ok drive g (content (dev s')) N 9 spt s'
    \<and> content (dev s') = (content (dev s))(type_position p := (if h then ty OR 0x10 else ty AND NOT 0x10))"
proof -
  let ?D = "content (dev s)"
  have p: "p < 4" using t by (simp add: primary_table_def)
  have ca: "rw.cached drive g ?D N 9 spt v content s" unfolding rw.cached_def using rw(1,3) by simp
  have tab: "table_at ?D N spt 0 = Some (sector_image ?D 0)" using N by (simp add: table_at_def)
  have cur: "at_cursor (first_iter s) (int 0 - 1) 0 0 0" by (simp add: at_cursor_def first_iter_def)
  have fi: "next_drive (first_iter s) = drive" "next_buf (first_iter s) = MBR"
    "if (0::nat) = 0 then next_part_no (first_iter s) = 0xFFFFFF else next_type (first_iter s) = ucast (PC_SLICE_TYPE (sector_image ?D 0) 0 (of_nat (0 - 1)))"
    using dr by (simp_all add: first_iter_def)
  obtain it s1 where sk: "seek_partition v (first_iter s) s = Some (Some it, s1)" and ca1: "rw.cached drive g ?D N 9 spt v content s1"
    and w: "walked s s1" and it: "next_offset it = 0" "next_entry it = of_nat p" and ho: "in_buffer (mem s1) MBR (sector_image ?D 0)"
    using rw.seek_primary [OF refl tab primary_table_image(1) [OF t] dr(2) p primary_table_image(2) [OF t] le0 ca cur fi up dr(1) cp]
    by blast
  note wk = walked_keeps [OF w]
  have pa: "type_address (next_entry it) = MBR + of_nat (type_position p)" using type_address_primary(1) [OF p] it by simp
  have "unat (of_nat (type_position p) :: u32) = type_position p"
    using type_address_primary(2) [OF p] by (intro unat_of_nat_small) simp
  then have ty: "PC_SLICE_TYPE (mem s1) MBR (next_entry it) = ty"
    using in_buffer_fields(2) [OF ho p] type_address_primary(3) [OF p] it by (simp add: ty_def sector_image_def)
  define b where "b = (if h then ty OR 0x10 else ty AND NOT 0x10)"
  define s2 where "s2 = s1\<lparr>mem := (mem s1)(type_address (next_entry it) := b), buf_track := -1\<rparr>"
  have bo2: "buffer_ok drive g (content (dev s2)) N 9 spt s2"
    using ca1 wk(2) unfolding rw.cached_def by (simp add: buffer_ok_def s2_def)
  have "clear_source MBR 512" unfolding MBR_def by (rule clear_source_low) simp_all
  moreover have "0 < N" using N rw(1) by (simp add: rw_drive_def sound_geometry_def)
  ultimately obtain m er d where wr: "rawwrite v drive (of_nat 0) MBR s2 = Some (True, s2\<lparr>mem := m, errnum := er, dev := d\<rparr>)"
    and cd: "content d = patch (content (dev s2)) (0 * 512) (peek (mem s2) MBR 512)"
    and bo: "buffer_ok drive g (content d) N 9 spt (s2\<lparr>mem := m, errnum := er, dev := d\<rparr>)"
    using rawwrite_writes [OF rw(1,2) bo2, of 0 MBR] unfolding Let_def by blast
  let ?s3 = "s2\<lparr>mem := m, errnum := er, dev := d\<rparr>"
  have "peek (mem s2) MBR 512 = peek ((mem s1)(MBR + of_nat (type_position p) := b)) MBR 512"
    unfolding s2_def pa by simp
  then have disk: "content d = ?D(type_position p := b)"
    using cd patch_byte [OF ho type_address_primary(2) [OF p], of b] wk(2) by (simp add: s2_def)
  obtain m1 e1 t1 h1 n1 where "s1 = s\<lparr>mem := m1, errnum := e1, buf_track := t1, hook := h1, pc_slice_no := n1\<rparr>"
    using w unfolding walked_def by blast
  then have "?s3 = s\<lparr>mem := m, errnum := er, buf_track := -1, hook := h1, pc_slice_no := n1, dev := d\<rparr>"
    by (simp add: s2_def)
  then have do: "disk_only s ?s3" by (rule disk_onlyI)
  have "is_slice_of_hard_disk s"
    using dr cp primary_fields(3,5) [OF p] by (simp add: is_slice_of_hard_disk_def)
  then have "set_partition_hidden_flag v (Some h) s = Some (1, ?s3)"
    using sk wr ty it wk(3) dr(1)
    by (cases h) (simp_all add: set_partition_hidden_flag_def store_type_def b_def s2_def PC_SLICE_TYPE_HIDDEN_FLAG_def Let_def)
  then show ?thesis using do bo disk by (auto simp: b_def)
qed


section \<open>The commands\<close>

text \<open>What the commands need: a writable drive whose root device is primary partition \<open>p\<close>.\<close>

definition rooted :: "('d, 'h) disk_env \<Rightarrow> geometry \<Rightarrow> ('d \<Rightarrow> nat \<Rightarrow> u8) \<Rightarrow> nat \<Rightarrow> nat \<Rightarrow> nat \<Rightarrow> ('d, 'h, 'w) shell \<Rightarrow> bool" where
  "rooted v g content N spt p s \<longleftrightarrow> rw_drive v (saved_drive s) g content N 9 spt \<and> unat (sectors g) = spt \<and> spt \<le> N
     \<and> buffer_ok (saved_drive s) g (content (dev s)) N 9 spt s \<and> saved_drive s AND 0x80 \<noteq> 0 \<and> saved_partition s = primary p
     \<and> primary_table (content (dev s)) p \<and> unat (mem_upper s) < 2 ^ 22 - 1024"

lemma type_position_table:
  assumes "p < 4"
  shows "type_position p < 510" "j < p \<Longrightarrow> type_position j \<noteq> type_position p"
  using assms by (simp_all add: type_position_def)

lemma primary_table_byte: "primary_table disk p \<Longrightarrow> primary_table (disk(type_position p := b)) p"
  using type_position_table [of p] by (simp add: primary_table_def)

lemma hidden_command:
  fixes s :: "('d, 'h, 'w) shell"
  assumes r: "rooted v g content N spt p s"
  defines "s0 \<equiv> s\<lparr>current_drive := saved_drive s, current_partition := saved_partition s\<rparr>"
    and "ty \<equiv> content (dev s) (type_position p)"
  shows "\<exists>s'. set_partition_hidden_flag v (Some h) s0 = Some (1, s') \<and> heap s' = heap s \<and> rooted v g content N spt p s'
    \<and> content (dev s') = (content (dev s))(type_position p := (if h then ty OR 0x10 else ty AND NOT 0x10))"
proof -
  have a: "rw_drive v (saved_drive s) g content N 9 spt" "unat (sectors g) = spt" "spt \<le> N"
    "buffer_ok (saved_drive s) g (content (dev s0)) N 9 spt s0" "current_drive s0 = saved_drive s" "saved_drive s AND 0x80 \<noteq> 0"
    "current_partition s0 = primary p" "primary_table (content (dev s0)) p" "unat (mem_upper s0) < 2 ^ 22 - 1024"
    using r by (simp_all add: rooted_def s0_def buffer_ok_def)
  obtain s' where f: "set_partition_hidden_flag v (Some h) s0 = Some (1, s')" "disk_only s0 s'"
    "buffer_ok (saved_drive s) g (content (dev s')) N 9 spt s'"
    "content (dev s') = (content (dev s0))(type_position p := (if h then content (dev s0) (type_position p) OR 0x10
       else content (dev s0) (type_position p) AND NOT 0x10))"
    using set_hidden_primary [OF a(1,2,4,3,5-9), of h] by blast
  note k = disk_only_keeps [OF f(2)]
  have d: "dev s0 = dev s" "saved_drive s0 = saved_drive s" "saved_partition s0 = saved_partition s" "heap s0 = heap s" "mem_upper s0 = mem_upper s"
    by (simp_all add: s0_def)
  have "rooted v g content N spt p s'"
    unfolding rooted_def k d f(4) using r f(3) primary_table_byte unfolding rooted_def f(4) d by auto
  then show ?thesis using f(1,4) k(6) d unfolding ty_def by auto
qed

text \<open>
  C1. \<open>hide\<close> on the root device, a primary partition that is not hidden, sets the hidden bit of its type on the
  disk and changes no other byte; \<open>unhide\<close> afterwards restores the disk.  Both return 1, whatever track is buffered.
\<close>

theorem hide_unhide_restores:
  fixes s :: "('d, 'h, 'w) shell"
  assumes "rooted v g content N spt p s" "no_arg (heap s) a = Some True"
    and "content (dev s) (type_position p) AND 0x10 = 0"
  shows "\<exists>s1 s2. hide_func v a mode s = Some (1, s1) \<and> unhide_func v a mode s1 = Some (1, s2)
    \<and> content (dev s1) = (content (dev s))(type_position p := content (dev s) (type_position p) OR 0x10)
    \<and> content (dev s2) = content (dev s)"
proof -
  let ?ty = "content (dev s) (type_position p)"
  obtain s1 where h: "hide_func v a mode s = Some (1, s1)" "heap s1 = heap s" "rooted v g content N spt p s1"
    "content (dev s1) = (content (dev s))(type_position p := ?ty OR 0x10)"
    using hidden_command [OF assms(1), of True] assms(2) by (auto simp: hide_func_def device_arg_def)
  have "no_arg (heap s1) a = Some True" using h(2) assms(2) by simp
  then obtain s2 where u: "unhide_func v a mode s1 = Some (1, s2)"
    "content (dev s2) = (content (dev s1))(type_position p := content (dev s1) (type_position p) AND NOT 0x10)"
    using hidden_command [OF h(3), of False] by (auto simp: unhide_func_def device_arg_def)
  have "(?ty OR 0x10) AND NOT 0x10 = ?ty"
  proof (rule bit_word_eqI)
    fix n
    have "\<not> (bit ?ty n \<and> bit (0x10 :: u8) n)" using assms(3) by (metis bit_and_iff bit_0_eq bot_apply bot_bool_def)
    then show "bit ((?ty OR 0x10) AND NOT 0x10) n = bit ?ty n"
      by (auto simp: bit_simps dest: bit_imp_le_length)
  qed
  then have "content (dev s2) = content (dev s)" using u(2) h(4) by simp
  then show ?thesis using h u by blast
qed


definition hide_shell :: "(nat \<Rightarrow> u8, unit, unit) shell" where
  "hide_shell = globals.extend (writable_state\<lparr>dev := chain_disk, saved_drive := 0x80, saved_partition := 0xFFFF\<rparr>)
     (shell.fields [0] (-1) False True (-1) False 0x80 0xFFFFFF ())"

lemma hide_shell_rooted: "rooted (writable_bios (demo_geometry 1)) (demo_geometry 1) (\<lambda>d. d) 1260 63 0 hide_shell"
proof -
  have s: "saved_drive hide_shell = 0x80" "saved_partition hide_shell = 0xFFFF" "dev hide_shell = chain_disk"
    "buf_drive hide_shell = 0x80" "buf_geom hide_shell = demo_geometry 1" "buf_track hide_shell = -1" "mem_upper hide_shell = 0x10000"
    by (simp_all add: hide_shell_def globals.extend_def shell.fields_def writable_state_def globals_start_def)
  have "primary_table chain_disk 0"
    by (simp add: primary_table_def chain_disk_def slice_bytes_def bytes32_def nth_append)
  then show ?thesis
    using writable_rw by (simp add: rooted_def s buffer_ok_def primary_def) (simp add: demo_geometry_def)
qed

theorem hide_unhide_restores_witness:
  "\<exists>s1 s2. hide_func (writable_bios (demo_geometry 1)) 0 1 hide_shell = Some (1, s1) \<and> dev s1 450 = 0x16
     \<and> unhide_func (writable_bios (demo_geometry 1)) 0 1 s1 = Some (1, s2) \<and> dev s2 = chain_disk"
proof -
  have h: "heap hide_shell = [0]" "dev hide_shell = chain_disk"
    by (simp_all add: hide_shell_def globals.extend_def shell.fields_def)
  have n: "no_arg (heap hide_shell) 0 = Some True" by (simp add: h no_arg_def)
  have ty: "type_position 0 = 450" "chain_disk 450 = 6" by (simp_all add: type_position_def chain_disk_def slice_bytes_def)
  then have "dev hide_shell (type_position 0) AND 0x10 = 0" by (simp add: h)
  from hide_unhide_restores [where content = "\<lambda>d. d", OF hide_shell_rooted n this, of 1] show ?thesis using ty by (auto simp: h)
qed

end
