(* ===== verification/Builtins.thy ===== *)
theory Builtins
imports PartCmd FileIO Md5
begin

text \<open>
  The builtin commands of \<open>stage2/builtins.c\<close> that set up the menu and the interpreter (\<open>default\<close>,
  \<open>fallback\<close>, \<open>timeout\<close>, \<open>password\<close>, \<open>lock\<close> and others), \<open>check_password\<close>, \<open>init_config\<close>, \<open>init_builtins\<close>, and
  \<open>builtin_table\<close> itself.  The functions of the commands not modelled are an argument.
\<close>

section \<open>Error numbers\<close>

text \<open>The numbers of \<open>grub_error_t\<close>, and the order they give.\<close>

definition error_codes :: "grub_error list" where
  "error_codes =
     [ERR_NONE, ERR_BAD_FILENAME, ERR_BAD_FILETYPE, ERR_BAD_GZIP_DATA, ERR_BAD_GZIP_HEADER, ERR_BAD_PART_TABLE,
      ERR_BAD_VERSION, ERR_BELOW_1MB, ERR_BOOT_COMMAND, ERR_BOOT_FAILURE, ERR_BOOT_FEATURES, ERR_DEL_MEM_DRIVE,
      ERR_DEV_FORMAT, ERR_DEV_VALUES, ERR_EXEC_FORMAT, ERR_EXTENDED_PARTITION, ERR_FILELENGTH, ERR_FILE_NOT_FOUND,
      ERR_FSYS_CORRUPT, ERR_FSYS_MOUNT, ERR_GEOM, ERR_HD_VOL_START_0, ERR_IN_SITU_FLOPPY, ERR_IN_SITU_MEM,
      ERR_NEED_LX_KERNEL, ERR_NEED_MB_KERNEL, ERR_NO_DISK, ERR_NO_PART, ERR_NUMBER_PARSING, ERR_OUTSIDE_PART, ERR_READ,
      ERR_SYMLINK_LOOP, ERR_UNRECOGNIZED, ERR_WONT_FIT, ERR_WRITE, ERR_BAD_ARGUMENT, ERR_UNALIGNED, ERR_PRIVILEGED,
      ERR_DEV_NEED_INIT, ERR_NO_DISK_SPACE, ERR_NUMBER_OVERFLOW, ERR_NON_CONTIGUOUS, ERR_NO_HEADS, ERR_NO_SECTORS,
      ERR_INT13_ON_HOOK, ERR_INT13_OFF_HOOK, ERR_NO_DRIVE_MAPPED, ERR_INVALID_HEADS, ERR_INVALID_SECTORS,
      ERR_SPECIFY_GEOM, ERR_SPECIFY_MEM, ERR_INVALID_FLOPPIES, ERR_INVALID_HARDDRIVES, ERR_INVALID_LOAD_SEGMENT,
      ERR_INVALID_LOAD_OFFSET, ERR_INVALID_LOAD_LENGTH, ERR_INVALID_SKIP_LENGTH, ERR_INVALID_BOOT_CS,
      ERR_INVALID_BOOT_IP, ERR_INVALID_RAM_DRIVE, ERR_MD_BASE, ERR_RD_BASE, ERR_DOS_BACKUP, ERR_ENABLE_A20,
      ERR_DISABLE_A20, ERR_DEFAULT_FILE, ERR_PARTITION_TABLE_FULL]"

definition error_number :: "grub_error \<Rightarrow> nat" where
  "error_number e = length (takeWhile (\<lambda>x. x \<noteq> e) error_codes)"

lemma error_codes_all: "e \<in> set error_codes"
  by (cases e) (simp_all add: error_codes_def)

lemma nth_error_number: "error_codes ! error_number e = e"
proof -
  have d: "dropWhile (\<lambda>x. x \<noteq> e) error_codes \<noteq> []"
    using error_codes_all [of e] by (auto simp: dropWhile_eq_Nil_conv)
  then have "hd (dropWhile (\<lambda>x. x \<noteq> e) error_codes) = e" using hd_dropWhile by blast
  moreover have "error_codes ! error_number e = hd (dropWhile (\<lambda>x. x \<noteq> e) error_codes)"
    unfolding error_number_def using d by (metis hd_conv_nth nth_append_length_plus plus_nat.add_0 takeWhile_dropWhile_id add.commute)
  ultimately show ?thesis by simp
qed

lemma error_number_inj: "error_number e = error_number e' \<Longrightarrow> e = e'"
  by (metis nth_error_number)

instantiation grub_error :: linorder
begin

definition less_eq_grub_error :: "grub_error \<Rightarrow> grub_error \<Rightarrow> bool" where
  "less_eq_grub_error e e' \<longleftrightarrow> error_number e \<le> error_number e'"

definition less_grub_error :: "grub_error \<Rightarrow> grub_error \<Rightarrow> bool" where
  "less_grub_error e e' \<longleftrightarrow> error_number e < error_number e'"

instance
  by standard (auto simp: less_eq_grub_error_def less_grub_error_def intro: error_number_inj)

end

section \<open>State\<close>

datatype password_t = PASSWORD_PLAIN | PASSWORD_MD5 | PASSWORD_UNSUPPORTED

text \<open>
  The variables of the menu and of the commands here; \<open>password\<close> is an address, 0 for \<open>NULL\<close>.  \<open>md5\<close> holds the
  static variables of \<open>md5.c\<close>.
\<close>

record menu =
  default_entry :: u32
  fallback_entries :: "u32 list"
  password :: u32
  password_type :: password_t
  auth :: bool
  grub_timeout :: u32
  show_menu :: bool
  saved_entryno :: u32
  bootdev :: u32
  md5 :: md5_ctx

type_synonym ('d, 'h, 'e) mshell = "('d, 'h, 'e menu_scheme) shell"
type_synonym ('d, 'h, 'e) command = "nat \<Rightarrow> u32 \<Rightarrow> ('d, 'h, 'e) mshell \<Rightarrow> (int \<times> ('d, 'h, 'e) mshell) option"
type_synonym ('d, 'h, 'e) mext = "('e menu_scheme, unit) shell_ext"

text \<open>
  \<open>get_password\<close> is \<open>get_cmdline\<close> with the prompt \<open>Password:\<close> and a buffer of 32 bytes, which it returns; \<open>setcolor\<close> is
  that of \<open>current_term\<close>, if any.
\<close>

record ('d, 'h, 'e) cmd_env =
  disks :: "('d, 'h) disk_env"
  fsystems :: "('d, 'h, ('d, 'h, 'e) mext) fsys_tab"
  unzip :: "('d, 'h, ('d, 'h, 'e) mext) gunzip"
  get_password :: "('d, 'h, 'e) mshell \<Rightarrow> (cbuf \<times> ('d, 'h, 'e) mshell) option"
  setcolor :: "(u32 \<Rightarrow> u32 \<Rightarrow> ('d, 'h, 'e) mshell \<Rightarrow> ('d, 'h, 'e) mshell) option"
  partnew_file :: "nat \<Rightarrow> u32 \<Rightarrow> ('d, 'h, 'e) mshell \<Rightarrow> ((u32 \<times> u32 \<times> u32) option \<times> ('d, 'h, 'e) mshell) option"
  other_func :: "string \<Rightarrow> ('d, 'h, 'e) command"


text \<open>\<open>safe_parse_maxint (&arg, &variable)\<close> followed by a return of 0 or 1.\<close>

definition parse_into :: "(u32 \<Rightarrow> ('d, 'h, 'e) mshell \<Rightarrow> ('d, 'h, 'e) mshell) \<Rightarrow> nat \<Rightarrow> ('d, 'h, 'e) mshell \<Rightarrow> (int \<times> ('d, 'h, 'e) mshell) option" where
  "parse_into set_var a s =
     do { (n, s1) \<leftarrow> parse_num (heap s) a s;
          Some (case n of None \<Rightarrow> (0, s1) | Some (_, x) \<Rightarrow> (1, set_var x s1)) }"

definition on_world :: "('e menu_scheme \<Rightarrow> 'e menu_scheme) \<Rightarrow> ('d, 'h, 'e) mshell \<Rightarrow> ('d, 'h, 'e) mshell" where
  "on_world f s = s\<lparr>world := f (world s)\<rparr>"

section \<open>Starting\<close>

definition init_config :: "('d, 'h, 'e) mshell \<Rightarrow> ('d, 'h, 'e) mshell" where
  "init_config s =
     (on_world (\<lambda>w. w\<lparr>default_entry := 0, password := 0, fallback_entries := (fallback_entries w)[0 := -1], grub_timeout := -1\<rparr>) s)
       \<lparr>fallback_entryno := -1\<rparr>"

text \<open>The buffers of the loaders, which \<open>init_builtins\<close> clears as well, are not modelled.\<close>

definition builtins_start :: "('d, 'h) disk_env \<Rightarrow> ('d, 'h, 'e) mshell \<Rightarrow> ('d, 'h, 'e) mshell option" where
  "builtins_start v s =
     do { (b, s1) \<leftarrow> set_bootdev v 0 (s\<lparr>kernel_loaded := False\<rparr>); Some (on_world (\<lambda>w. w\<lparr>bootdev := b\<rparr>) s1) }"

section \<open>Passwords\<close>

definition PASSWORD_BUF :: u32 where "PASSWORD_BUF = 0x78000"
definition PASSWORD_BUFLEN :: nat where "PASSWORD_BUFLEN = 0x200"

text \<open>The expected password stands in \<open>b\<close> from \<open>a\<close> on.\<close>

definition check_password :: "cbuf \<Rightarrow> cbuf \<Rightarrow> nat \<Rightarrow> password_t \<Rightarrow> md5_ctx \<Rightarrow> (int \<times> md5_ctx) option" where
  "check_password entered b a type c =
     (case type of
        PASSWORD_PLAIN \<Rightarrow> do { r \<leftarrow> grub_strcmp entered 0 b a; Some (r, c) }
      | PASSWORD_MD5 \<Rightarrow> do { (r, _, c') \<leftarrow> md5_password entered (drop a b) True c; Some (r, c') }
      | PASSWORD_UNSUPPORTED \<Rightarrow> Some (1, c))"

definition password_options :: "cbuf \<Rightarrow> nat \<Rightarrow> (password_t \<times> nat) option" where
  "password_options b a =
     do { is_md5 \<leftarrow> arg_is ''--md5'' b a;
          a1 \<leftarrow> (if is_md5 then skip_to False b a else Some a);
          other \<leftarrow> arg_is ''--'' b a1;
          a2 \<leftarrow> (if other then skip_to False b a1 else Some a1);
          Some (if other then PASSWORD_UNSUPPORTED else if is_md5 then PASSWORD_MD5 else PASSWORD_PLAIN, a2) }"

definition password_func :: "('d, 'h, 'e) cmd_env \<Rightarrow> ('d, 'h, 'e) command" where
  "password_func v a0 mode s =
     do { (type, a) \<leftarrow> password_options (heap s) a0;
          if mode AND (BUILTIN_CMDLINE OR BUILTIN_SCRIPT) \<noteq> 0 then
            do { (entered, s1) \<leftarrow> get_password v s;
                 (_, h) \<leftarrow> nul_terminate (heap s1) a;
                 (r, c) \<leftarrow> check_password entered h a type (md5 (world s1));
                 let s2 = on_world (\<lambda>w. w\<lparr>md5 := c\<rparr>) (s1\<lparr>heap := h\<rparr>);
                 Some (if r \<noteq> 0 then (0, fail ERR_PRIVILEGED s2) else (1, s2)) }
          else
            do { str \<leftarrow> str_of (heap s) a;
                 if length str + 2 > PASSWORD_BUFLEN then Some (0, fail ERR_WONT_FIT s)
                 else Some (1, on_world (\<lambda>w. w\<lparr>password := PASSWORD_BUF, password_type := type\<rparr>)
                       (s\<lparr>mem := poke PASSWORD_BUF (str @ replicate (PASSWORD_BUFLEN - length str) 0) (mem s)\<rparr>)) } }"

definition lock_func :: "('d, 'h, 'e) command" where
  "lock_func a mode s =
     (if \<not> auth (world s) \<and> password (world s) \<noteq> 0 then Some (0, fail ERR_PRIVILEGED s) else Some (1, s))"

section \<open>The menu's variables\<close>

definition timeout_func :: "('d, 'h, 'e) command" where
  "timeout_func a mode s = parse_into (\<lambda>x. on_world (\<lambda>w. w\<lparr>grub_timeout := x\<rparr>)) a s"

definition hiddenmenu_func :: "('d, 'h, 'e) command" where
  "hiddenmenu_func a mode s = Some (1, on_world (\<lambda>w. w\<lparr>show_menu := False\<rparr>) s)"

definition title_func :: "('d, 'h, 'e) command" where
  "title_func a mode s = Some (1, s)"

definition MAX_FALLBACK_ENTRIES :: nat where "MAX_FALLBACK_ENTRIES = 8"

lemma spm_loop_ge: "spm_loop b p k neg n f = Some (Inr (q, m, f')) \<Longrightarrow> p \<le> q \<and> (f' \<and> \<not> f \<longrightarrow> p < q)"
proof (induction b p k neg n f rule: spm_loop.induct)
  case (1 b p k neg n f)
  show ?case
    using "1.prems" "1.IH"
    by (subst (asm) spm_loop.simps)
      (fastforce simp: bind_eq_Some_conv simp del: spm_loop.simps split: option.splits if_splits)
qed

lemma parse_advance:
  assumes "safe_parse_maxint b p = Some (Inr (q, n))"
  shows "p < q" "p < length b"
proof -
  show "p < length b" using assms by (auto simp: safe_parse_maxint_def rd_def split: if_splits)
  obtain c0 where c0: "rd b p = Some c0" using assms by (auto simp: safe_parse_maxint_def simp del: spm_loop.simps split: bind_splits)
  define p1 where "p1 = (if c0 = ch CHR ''-'' then p + 1 else p)"
  obtain hex r where r: "spm_loop b (if hex then p1 + 2 else p1) (if hex then 16 else 10) (c0 = ch CHR ''-'') 0 False = Some r"
    and res: "(case r of Inl e \<Rightarrow> Some (Inl e) | Inr (ptr, myint, found) \<Rightarrow>
      if \<not> found then Some (Inl ERR_NUMBER_PARSING) else Some (Inr (ptr, if c0 = ch CHR ''-'' then - myint else myint))) = Some (Inr (q, n))"
  proof -
    show ?thesis
      using assms c0 that unfolding safe_parse_maxint_def p1_def Let_def
      by (auto simp: bind_eq_Some_conv simp del: spm_loop.simps)
  qed
  then obtain m where "r = Inr (q, m, True)" by (auto split: sum.splits prod.splits if_splits)
  with r have "(if hex then p1 + 2 else p1) < q" using spm_loop_ge by blast
  then show "p < q" by (simp add: p1_def split: if_splits)
qed

lemma skip_to_ge: "skip_to f b i = Some j \<Longrightarrow> i \<le> j"
  using skip_word_ge skip_space_ge by (fastforce simp: skip_to_def bind_eq_Some_conv)

text \<open>
  The loop over the numbers, with the index \<open>i\<close> and the table of entries; \<open>Some e\<close> is a return with an error.
  A duplicate goes back to the test of the loop with the character behind the number.
\<close>

function fallback_loop :: "cbuf \<Rightarrow> nat \<Rightarrow> nat \<Rightarrow> u32 list \<Rightarrow> (grub_error option \<times> nat \<times> u32 list) option" where
  "fallback_loop b a i es =
     do { c \<leftarrow> rd b a;
          if c = 0 then Some (None, i, es)
          else do { r \<leftarrow> safe_parse_maxint b a;
                    case r of Inl e \<Rightarrow> Some (Some e, i, es)
                    | Inr (a1, entry) \<Rightarrow>
                        if entry \<in> set (take i es) then fallback_loop b a1 i es
                        else do { es1 \<leftarrow> wr es i entry;
                                  if i + 1 = MAX_FALLBACK_ENTRIES then Some (None, i + 1, es1)
                                  else do { a2 \<leftarrow> skip_to False b a1; fallback_loop b a2 (i + 1) es1 } } } }"
  by pat_completeness auto
termination
proof (relation "measure (\<lambda>(b, a, i, es). length b - a)", goal_cases)
  case (2 b a i es c r x a1 entry)
  then show ?case using parse_advance [of b a a1 entry] by simp
next
  case (3 b a i es c r x a1 entry es1 a2)
  then have "a < a1" "a < length b" using parse_advance [of b a a1 entry] by auto
  moreover have "a1 \<le> a2" using 3 skip_to_ge by blast
  ultimately show ?case by simp
qed simp

declare fallback_loop.simps [simp del]

definition fallback_func :: "('d, 'h, 'e) command" where
  "fallback_func a mode s =
     do { (e, i, es) \<leftarrow> fallback_loop (heap s) a 0 (fallback_entries (world s));
          Some (case e of Some err \<Rightarrow> (0, fail err (on_world (\<lambda>w. w\<lparr>fallback_entries := es\<rparr>) s))
                | None \<Rightarrow> (1, (on_world (\<lambda>w. w\<lparr>fallback_entries := (if i < MAX_FALLBACK_ENTRIES then es[i := -1] else es)\<rparr>) s)
                                \<lparr>fallback_entryno := (if i = 0 then -1 else 0)\<rparr>)) }"


section \<open>\<open>default\<close>\<close>

definition DEFAULT_FILE_BUF :: u32 where "DEFAULT_FILE_BUF = PASSWORD_BUF + of_nat PASSWORD_BUFLEN"
definition DEFAULT_FILE_BUFLEN :: nat where "DEFAULT_FILE_BUFLEN = 0x60"

definition warning_defaultfile :: string where
  "warning_defaultfile = ''# WARNING: If you want to edit this file directly, do not remove any line''"

text \<open>The search for the warning, from the second byte on: the first place it stands at, or the end \<open>lim\<close>.\<close>

function warning_pos :: "mem \<Rightarrow> nat \<Rightarrow> nat \<Rightarrow> nat" where
  "warning_pos m lim p =
     (if p < lim then if peek m (MBR + of_nat (p + 1)) 73 = cs warning_defaultfile then p + 1 else warning_pos m lim (p + 1)
      else p)"
  by pat_completeness auto
termination by (relation "measure (\<lambda>(m, lim, p). lim - p)") auto

declare warning_pos.simps [simp del]

text \<open>The part behind the file's first sector has been read; \<open>got\<close> bytes of it stand at \<open>MBR\<close>.\<close>

definition default_loaded :: "nat \<Rightarrow> u32 \<Rightarrow> ('d, 'h, 'e) mshell \<Rightarrow> (int \<times> ('d, 'h, 'e) mshell) option" where
  "default_loaded a got s =
     (if sint got < 180 \<or> filemax s > 2048 \<or> warning_pos (mem s) (unat got - 100) 0 > unat got - 160
      then Some (0, fail ERR_DEFAULT_FILE s)
      else do { str \<leftarrow> str_of (heap s) a;
                if length str \<ge> DEFAULT_FILE_BUFLEN then Some (0, fail ERR_WONT_FIT s)
                else do { let s1 = s\<lparr>mem := poke DEFAULT_FILE_BUF (str @ [0]) (mem s), boot_drive := current_drive s,
                                     install_partition := current_partition s\<rparr>;
                          (n, s2) \<leftarrow> parse_num (peek (mem s1) MBR 512) 0 s1;
                          Some (case n of Some (_, x) \<Rightarrow> (1, on_world (\<lambda>w. w\<lparr>default_entry := x\<rparr>) s2)
                                | None \<Rightarrow> (of_bool (errnum s2 = ERR_NONE), s2)) } })"

definition default_file :: "('d, 'h, 'e) cmd_env \<Rightarrow> nat \<Rightarrow> ('d, 'h, 'e) mshell \<Rightarrow> (int \<times> ('d, 'h, 'e) mshell) option" where
  "default_file v a s0 =
     do { (ok, b, s) \<leftarrow> grub_open (disks v) (fsystems v) (unzip v) (heap s0) a s0;
          let s1 = s\<lparr>heap := b\<rparr>;
          if \<not> ok then Some (of_bool (errnum s1 = ERR_NONE), s1)
          else if compressed_file s1 then do { s2 \<leftarrow> grub_close (fsystems v) s1; Some (0, fail ERR_DEFAULT_FILE s2) }
          else do { (got, s2) \<leftarrow> grub_read (disks v) (fsystems v) (unzip v) MBR SECTOR_SIZE s1;
                    s3 \<leftarrow> grub_close (fsystems v) s2;
                    default_loaded a got s3 } }"

definition default_func :: "('d, 'h, 'e) cmd_env \<Rightarrow> ('d, 'h, 'e) command" where
  "default_func v a mode s =
     do { saved \<leftarrow> arg_is ''saved'' (heap s) a;
          if saved then Some (1, on_world (\<lambda>w. w\<lparr>default_entry := saved_entryno w\<rparr>) s)
          else do { (n, s1) \<leftarrow> parse_num (heap s) a s;
                    case n of Some (_, x) \<Rightarrow> Some (1, on_world (\<lambda>w. w\<lparr>default_entry := x\<rparr>) s1)
                    | None \<Rightarrow> default_file v a (s1\<lparr>errnum := ERR_NONE\<rparr>) } }"

section \<open>Switches\<close>

definition say :: "string \<Rightarrow> parg list \<Rightarrow> ('d, 'h, 'z) gstate \<Rightarrow> ('d, 'h, 'z) gstate option" where
  "say f args s = do { t \<leftarrow> gprintf f args s; Some (print_tty [Print [10]] t) }"

text \<open>The commands \<open>errorcheck\<close> and \<open>pager\<close> have the same form.\<close>

definition switch_func :: "string \<Rightarrow> (('d, 'h, 'e) mshell \<Rightarrow> bool) \<Rightarrow> (bool \<Rightarrow> ('d, 'h, 'e) mshell \<Rightarrow> ('d, 'h, 'e) mshell) \<Rightarrow> ('d, 'h, 'e) command" where
  "switch_func label get set_var a mode s =
     do { c \<leftarrow> rd (heap s) a;
          s1 \<leftarrow> (if c = 0 then Some (set_var (\<not> get s) s)
                else do { on \<leftarrow> arg_is ''on'' (heap s) a;
                          if on then Some (set_var True s)
                          else do { off \<leftarrow> arg_is ''off'' (heap s) a;
                                    if off then Some (set_var False s)
                                    else do { status \<leftarrow> arg_is ''status'' (heap s) a;
                                              if \<not> status then Some (fail ERR_BAD_ARGUMENT s)
                                              else if 0 <s debug s
                                              then say (label @ '' is now %s'') [PStr (cs (if get s then ''on'' else ''off''))] s
                                              else Some s } } });
          Some (of_bool (get s1), s1) }"

definition errorcheck_func :: "('d, 'h, 'e) command" where
  "errorcheck_func = switch_func '' Error check'' errorcheck (\<lambda>b s. s\<lparr>errorcheck := b\<rparr>)"

definition pager_func :: "('d, 'h, 'e) command" where
  "pager_func = switch_func '' Internal pager'' use_pager (\<lambda>b s. s\<lparr>use_pager := b\<rparr>)"

definition errnum_func :: "('d, 'h, 'e) command" where
  "errnum_func a mode s = Some (int (error_number (errnum s)), s)"

definition debug_func :: "('d, 'h, 'e) command" where
  "debug_func a mode s =
     do { c \<leftarrow> rd (heap s) a;
          on \<leftarrow> arg_is ''on'' (heap s) a;
          normal \<leftarrow> arg_is ''normal'' (heap s) a;
          off \<leftarrow> arg_is ''off'' (heap s) a;
          status \<leftarrow> arg_is ''status'' (heap s) a;
          (ok, s1) \<leftarrow> (if c = 0 then Some (True, s)
                      else if on then Some (True, s\<lparr>debug := 2\<rparr>)
                      else if normal then Some (True, s\<lparr>debug := 1\<rparr>)
                      else if off then Some (True, s\<lparr>debug := 0\<rparr>)
                      else if status then do { t \<leftarrow> say '' Debug is now %d'' [PNum (debug s)] s; Some (True, t) }
                      else do { (n, t) \<leftarrow> parse_num (heap s) a s;
                                Some (case n of Some (_, x) \<Rightarrow> (True, t\<lparr>debug := x\<rparr>)
                                      | None \<Rightarrow> (False, if errnum t = ERR_NONE then fail ERR_BAD_ARGUMENT t else t)) });
          Some (if ok then sint (debug s1) else 0, s1) }"

section \<open>Memory\<close>

definition uppermem_func :: "('d, 'h, 'e) command" where
  "uppermem_func a mode s = parse_into (\<lambda>x s. s\<lparr>mem_upper := x, mbi_flags := mbi_flags s AND NOT 0x40\<rparr>) a s"

definition say_address :: "u32 \<Rightarrow> ('d, 'h, 'z) gstate \<Rightarrow> ('d, 'h, 'z) gstate option" where
  "say_address a s =
     (if 0 <s debug s then say ''Address 0x%x: Value 0x%x'' [PNum a, PNum (peek32 (mem s) a)] s else Some s)"

definition read_func :: "('d, 'h, 'e) command" where
  "read_func a mode s =
     do { (n, s1) \<leftarrow> parse_num (heap s) a s;
          case n of None \<Rightarrow> Some (0, s1) | Some (_, addr) \<Rightarrow> do { s2 \<leftarrow> say_address addr s1; Some (1, s2) } }"

definition write_func :: "('d, 'h, 'e) command" where
  "write_func a mode s =
     do { (n, s1) \<leftarrow> parse_num (heap s) a s;
          case n of None \<Rightarrow> Some (0, s1)
          | Some (p, addr) \<Rightarrow>
              do { p' \<leftarrow> skip_to False (heap s1) p;
                   (n', s2) \<leftarrow> parse_num (heap s1) p' s1;
                   case n' of None \<Rightarrow> Some (0, s2)
                   | Some (_, val) \<Rightarrow> do { s3 \<leftarrow> say_address addr (s2\<lparr>mem := poke addr (bytes32 val) (mem s2)\<rparr>); Some (1, s3) } } }"


section \<open>Colors\<close>

definition color_list :: "string list" where
  "color_list = [''black'', ''blue'', ''green'', ''cyan'', ''red'', ''magenta'', ''brown'', ''light-gray'', ''dark-gray'',
     ''light-blue'', ''light-green'', ''light-cyan'', ''light-red'', ''light-magenta'', ''yellow'', ''white'']"

fun color_search :: "string list \<Rightarrow> u32 \<Rightarrow> cbuf \<Rightarrow> nat \<Rightarrow> u32 option option" where
  "color_search [] i b p = Some None"
| "color_search (w # ws) i b p =
     do { r \<leftarrow> grub_strcmp (cs w @ [0]) 0 b p; if r = 0 then Some (Some i) else color_search ws (i + 1) b p }"

text \<open>The number of a color \<open>name/name\<close>, which is cut apart in the buffer; \<open>None\<close> is the result -1.\<close>

definition color_number :: "cbuf \<Rightarrow> nat \<Rightarrow> (u32 option \<times> cbuf) option" where
  "color_number b a =
     do { str \<leftarrow> str_of b a;
          let p = a + length (takeWhile (\<lambda>c. c \<noteq> ch CHR ''/'') str);
          if p = a + length str then Some (None, b)
          else do { b1 \<leftarrow> wr b p 0;
                    r \<leftarrow> substring (cs ''blink-'' @ [0]) 0 b1 a False;
                    let (blink, name_at) = (if r \<le> 0 then (0x80, a + 6) else (0, a));
                    fore \<leftarrow> color_search color_list 0 b1 name_at;
                    case fore of None \<Rightarrow> Some (None, b1)
                    | Some i \<Rightarrow>
                        do { (_, b2) \<leftarrow> nul_terminate b1 (p + 1);
                             back \<leftarrow> color_search (take 8 color_list) 0 b2 (p + 1);
                             Some (map_option (\<lambda>j. (blink OR i) OR push_bit 4 j) back, b2) } } }"

text \<open>A color as a name or a number; \<open>None\<close> is a return of 0.\<close>

definition color_arg :: "nat \<Rightarrow> ('d, 'h, 'e) mshell \<Rightarrow> (u32 option \<times> ('d, 'h, 'e) mshell) option" where
  "color_arg a s =
     do { (c, b) \<leftarrow> color_number (heap s) a;
          case c of Some x \<Rightarrow> Some (Some x, s\<lparr>heap := b\<rparr>)
          | None \<Rightarrow> do { (n, s1) \<leftarrow> parse_num b a (s\<lparr>heap := b\<rparr>); Some (map_option snd n, s1) } }"

definition color_func :: "('d, 'h, 'e) cmd_env \<Rightarrow> ('d, 'h, 'e) command" where
  "color_func v a mode s =
     do { highlight \<leftarrow> skip_to False (heap s) a;
          (normal, s1) \<leftarrow> color_arg a s;
          case normal of None \<Rightarrow> Some (0, s1)
          | Some n \<Rightarrow>
              do { c \<leftarrow> rd (heap s1) highlight;
                   (high, s2) \<leftarrow> (if c = 0 then Some (Some (signed_drop_bit 4 n OR push_bit 4 (n AND 0xF)), s1)
                                 else color_arg highlight s1);
                   Some (case high of None \<Rightarrow> (0, s2)
                         | Some h \<Rightarrow> (1, case setcolor v of None \<Rightarrow> s2 | Some f \<Rightarrow> f n h s2)) } }"

section \<open>\<open>md5crypt\<close>\<close>

definition seedchars :: "u8 list" where
  "seedchars = cs ''./0123456789ABCDEFGHIJKLMNOPQRSTUVWXYZabcdefghijklmnopqrstuvwxyz''"

fun seed_salt :: "nat \<Rightarrow> u32 \<Rightarrow> u8 list" where
  "seed_salt 0 seed = []"
| "seed_salt (Suc n) seed = (if seed = 0 then [] else seedchars ! unat (seed AND 0x3F) # seed_salt n (drop_bit 6 seed))"

definition md5crypt_func :: "('d, 'h, 'e) cmd_env \<Rightarrow> ('d, 'h, 'e) command" where
  "md5crypt_func v a mode s =
     do { (key, s1) \<leftarrow> get_password v s;
          let crypted = blit (replicate 36 0) 0 (cs ''$1$'' @ seed_salt 8 (peek32 (mem s) 0x46C) @ cs ''$'');
          (_, text, c) \<leftarrow> md5_password key crypted False (md5 (world s1));
          str \<leftarrow> str_of text 0;
          s2 \<leftarrow> say ''Encrypted: %s'' [PStr str] (on_world (\<lambda>w. w\<lparr>md5 := c\<rparr>) s1);
          Some (1, s2) }"

section \<open>The table\<close>

definition BUILTIN_TITLE :: u32 where "BUILTIN_TITLE = 0x4"
definition BUILTIN_HELP_LIST :: u32 where "BUILTIN_HELP_LIST = 0x20"

definition menu_cmdline :: u32 where "menu_cmdline = BUILTIN_MENU OR BUILTIN_CMDLINE"
definition menu_cmdline_help :: u32 where "menu_cmdline_help = menu_cmdline OR BUILTIN_HELP_LIST"

definition row :: "string \<Rightarrow> u32 \<Rightarrow> ('d, 'h, 'e) command \<Rightarrow> ('d, 'h, 'e menu_scheme) builtin" where
  "row n fl f = \<lparr>name = cs n, flags = fl, func = f, is_commandline_func = (n = ''commandline'')\<rparr>"

text \<open>\<open>builtin_table\<close> with graphics, serial terminals and PXE, without the commands of the network code.\<close>

definition commands :: "('d, 'h, 'e) cmd_env \<Rightarrow> ('d, 'h, 'e menu_scheme) builtin list" where
  "commands v =
     [row ''background'' menu_cmdline_help (other_func v ''background''),
      row ''blocklist'' menu_cmdline_help (other_func v ''blocklist''),
      row ''boot'' menu_cmdline_help (other_func v ''boot''),
      row ''cat'' menu_cmdline_help (other_func v ''cat''),
      row ''cdrom'' menu_cmdline_help (other_func v ''cdrom''),
      row ''chainloader'' menu_cmdline_help (other_func v ''chainloader''),
      row ''clear'' menu_cmdline_help (other_func v ''clear''),
      row ''cmp'' menu_cmdline (other_func v ''cmp''),
      row ''color'' menu_cmdline_help (color_func v),
      row ''commandline'' menu_cmdline_help (other_func v ''commandline''),
      row ''configfile'' menu_cmdline_help (other_func v ''configfile''),
      row ''debug'' menu_cmdline_help debug_func,
      row ''default'' menu_cmdline_help (default_func v),
      row ''displayapm'' menu_cmdline_help (other_func v ''displayapm''),
      row ''displaymem'' menu_cmdline_help (other_func v ''displaymem''),
      row ''embed'' menu_cmdline (other_func v ''embed''),
      row ''errnum'' menu_cmdline_help errnum_func,
      row ''errorcheck'' menu_cmdline_help errorcheck_func,
      row ''fallback'' menu_cmdline_help fallback_func,
      row ''find'' menu_cmdline_help (other_func v ''find''),
      row ''foreground'' menu_cmdline_help (other_func v ''foreground''),
      row ''fstest'' menu_cmdline_help (other_func v ''fstest''),
      row ''geometry'' menu_cmdline_help (other_func v ''geometry''),
      row ''halt'' menu_cmdline_help (other_func v ''halt''),
      row ''help'' menu_cmdline_help (other_func v ''help''),
      row ''hiddenflag'' menu_cmdline_help (hiddenflag_func (disks v)),
      row ''hiddenmenu'' BUILTIN_MENU hiddenmenu_func,
      row ''hide'' menu_cmdline_help (hide_func (disks v)),
      row ''impsprobe'' menu_cmdline (other_func v ''impsprobe''),
      row ''initrd'' menu_cmdline_help (other_func v ''initrd''),
      row ''install'' menu_cmdline (other_func v ''install''),
      row ''ioprobe'' menu_cmdline (other_func v ''ioprobe''),
      row ''is64bit'' menu_cmdline_help (other_func v ''is64bit''),
      row ''kernel'' menu_cmdline_help (other_func v ''kernel''),
      row ''lock'' menu_cmdline lock_func,
      row ''makeactive'' menu_cmdline_help (makeactive_func (disks v)),
      row ''map'' menu_cmdline_help (other_func v ''map''),
      row ''md5crypt'' menu_cmdline_help (md5crypt_func v),
      row ''module'' menu_cmdline_help (other_func v ''module''),
      row ''modulenounzip'' menu_cmdline_help (other_func v ''modulenounzip''),
      row ''outline'' menu_cmdline_help (other_func v ''outline''),
      row ''pager'' menu_cmdline_help pager_func,
      row ''partnew'' menu_cmdline_help (partnew_func (disks v) (partnew_file v)),
      row ''parttype'' menu_cmdline_help (parttype_func (disks v)),
      row ''password'' (menu_cmdline OR BUILTIN_NO_ECHO) (password_func v),
      row ''pause'' (menu_cmdline OR BUILTIN_NO_ECHO) (other_func v ''pause''),
      row ''pxe'' menu_cmdline_help (other_func v ''pxe''),
      row ''quit'' menu_cmdline_help (other_func v ''quit''),
      row ''read'' menu_cmdline read_func,
      row ''reboot'' menu_cmdline_help (other_func v ''reboot''),
      row ''root'' menu_cmdline_help (other_func v ''root''),
      row ''rootnoverify'' menu_cmdline_help (other_func v ''rootnoverify''),
      row ''savedefault'' menu_cmdline (other_func v ''savedefault''),
      row ''serial'' menu_cmdline_help (other_func v ''serial''),
      row ''setkey'' menu_cmdline_help (other_func v ''setkey''),
      row ''setup'' menu_cmdline_help (other_func v ''setup''),
      row ''setvbe'' menu_cmdline_help (other_func v ''setvbe''),
      row ''splashimage'' menu_cmdline_help (other_func v ''splashimage''),
      row ''terminal'' menu_cmdline_help (other_func v ''terminal''),
      row ''terminfo'' menu_cmdline_help (other_func v ''terminfo''),
      row ''testload'' menu_cmdline (other_func v ''testload''),
      row ''testvbe'' menu_cmdline_help (other_func v ''testvbe''),
      row ''timeout'' BUILTIN_MENU timeout_func,
      row ''title'' BUILTIN_TITLE title_func,
      row ''unhide'' menu_cmdline_help (unhide_func (disks v)),
      row ''uppermem'' menu_cmdline_help uppermem_func,
      row ''vbeprobe'' menu_cmdline_help (other_func v ''vbeprobe''),
      row ''write'' menu_cmdline write_func]"

end
