(* ===== verification/BuiltinSpec.thy ===== *)
theory BuiltinSpec
imports Builtins
begin

text \<open>
  What the commands of \<open>Builtins\<close> do together with the interpreter: every command of \<open>builtin_table\<close> is found,
  \<open>lock\<close> ends a script, \<open>password\<close> lets in exactly the right password, and \<open>fallback\<close> stores its list.
\<close>

section \<open>The table\<close>

lemma sorted_wrt_step: "sorted_wrt (<) (x # y # zs) \<longleftrightarrow> (x :: 'a :: linorder) < y \<and> sorted_wrt (<) (y # zs)"
  by (rule sorted_wrt2) (rule transp_on_less)

lemma command_names: "map name (commands v) = map name (commands w)"
  by (simp add: commands_def row_def)

lemma commands_sorted: "table_ok (commands v)"
proof -
  have "sorted_wrt (<) (map strkey (map name (commands v)))"
    unfolding commands_def row_def list.map builtin.simps sorted_wrt_step by code_simp
  moreover have "list_all (\<lambda>n. 0 \<notin> set n) (map name (commands v))"
    unfolding commands_def row_def list.map builtin.simps by code_simp
  ultimately show ?thesis by (simp add: table_ok_def list_all_iff)
qed

lemma lookup_row:
  assumes "table_ok tab" "b \<in> set tab"
  shows "lookup tab (name b) = Some b"
  using assms
proof (induction tab)
  case (Cons x xs)
  have "name x \<noteq> name b" if "b \<in> set xs"
    using that Cons.prems(1) by (fastforce simp: table_ok_def)
  moreover have "table_ok xs" using Cons.prems(1) by (simp add: table_ok_def)
  ultimately show ?case using Cons by (auto simp: lookup_def)
qed simp

text \<open>
  C12. The table is in the order \<open>find_command\<close> relies on: every command of it is found by its name, from a line
  that starts with it, and the state is left alone.
\<close>

theorem builtin_found:
  assumes "builtin_table e = commands v" "b \<in> set (commands v)" "str_of (heap s) p = Some l" "command_word l = name b"
  shows "find_command e p s = Some (Some b, s)"
proof -
  have t: "table_ok (builtin_table e)" using commands_sorted assms(1) by simp
  have "lookup (builtin_table e) (command_word l) = Some b"
    using lookup_row [OF commands_sorted assms(2)] assms(1,4) by simp
  then show ?thesis using find_command_lookup [OF t assms(3)] by simp
qed

section \<open>\<open>lock\<close>\<close>

lemma run_lines_append:
  assumes "run_lines v xs r old s = Some (None, sa)" "errnum sa = ERR_NONE"
  shows "\<exists>r' old'. run_lines v (xs @ ys) r old s = run_lines v ys r' old' sa"
  using assms
proof (induction xs arbitrary: r old s)
  case Nil
  then show ?case by (auto split: if_splits)
next
  case (Cons l ls)
  have ok: "\<not> (errnum s \<noteq> ERR_NONE \<and> errorcheck s)" using Cons.prems by (auto split: if_splits)
  then obtain h where h: "store (heap s) 0 (l @ [0]) = Some h" using Cons.prems by (auto simp: bind_eq_Some_conv split: if_splits)
  show ?case
  proof (cases "lookup (builtin_table v) (command_word l)")
    case None
    then show ?thesis using Cons ok h by (auto simp: Let_def)
  next
    case (Some b)
    show ?thesis
    proof (cases "flags b AND BUILTIN_CMDLINE = 0")
      case True
      then show ?thesis using Cons ok h Some by (auto simp: Let_def)
    next
      case False
      then obtain u where u: "exec_line v BUILTIN_SCRIPT b (s\<lparr>errnum := ERR_NONE, heap := h, buf_drive := -1\<rparr>) = Some u"
        "run_lines v ls (Some b) l u = Some (None, sa)"
        using Cons.prems ok h Some by (auto simp: Let_def bind_eq_Some_conv)
      then show ?thesis using Cons.IH [OF u(2)] Cons.prems(2) ok h Some False by (auto simp: Let_def)
    qed
  qed
qed

lemma lock_in_table: "row ''lock'' menu_cmdline lock_func \<in> set (commands v)"
  by (simp add: commands_def)

text \<open>A line that runs one command ends with the state the command leaves.\<close>

lemma exec_simple_line:
  assumes "str_of (heap s) 0 = Some l" "first_op l = None" "\<not> is_commandline_func b"
  shows "exec_line v mode b s = map_option snd (func b (length l - length (next_word True l)) mode s)"
proof -
  have "do { a0 \<leftarrow> skip_to False (heap s) 0; find_op (heap s) a0 } = Some None"
    using find_op_line [OF assms(1)] assms(2) by simp
  then obtain a0 where "skip_to False (heap s) 0 = Some a0" "find_op (heap s) a0 = Some None"
    by (auto simp: bind_eq_Some_conv)
  then show ?thesis using skip_to_after [OF assms(1), of True] assms(3) by (simp add: exec_line_def bind_snd)
qed

lemma locked_line:
  assumes tab: "builtin_table e = commands v" and l: "command_word l = cs ''lock''" "first_op l = None" "0 \<notin> set l"
    and fit: "length l < length (heap s)" and s: "errnum s = ERR_NONE" "errorcheck s"
    and locked: "\<not> auth (world s)" "password (world s) \<noteq> 0"
  shows "\<exists>t s'. run_lines e (l # post) r old s = Some (Some 1, s')
    \<and> s' = print_tty t (s\<lparr>heap := l @ [0] @ drop (length l + 1) (heap s), buf_drive := -1, errnum := ERR_NONE\<rparr>)"
proof -
  let ?b = "row ''lock'' menu_cmdline lock_func :: ('a, 'b, 'c menu_scheme) builtin"
  define h where "h = l @ [0] @ drop (length l + 1) (heap s)"
  have st: "store (heap s) 0 (l @ [0]) = Some h" using fit by (simp add: store_def blit_def h_def)
  have lk: "lookup (builtin_table e) (command_word l) = Some ?b"
    using lookup_row [OF commands_sorted lock_in_table, of v] by (simp add: tab l row_def)
  let ?s1 = "s\<lparr>errnum := ERR_NONE, heap := h, buf_drive := -1\<rparr>"
  have hl: "str_of h 0 = Some l" using l(3) by (simp add: h_def str_of_literal)
  have ex: "exec_line e BUILTIN_SCRIPT ?b ?s1 = Some (?s1\<lparr>errnum := ERR_PRIVILEGED\<rparr>)"
    using exec_simple_line [of ?s1 l ?b] l(2) hl locked by (simp add: row_def lock_func_def fail_def)
  have fl: "flags ?b AND BUILTIN_CMDLINE \<noteq> 0" by (simp add: row_def menu_cmdline_def BUILTIN_MENU_def BUILTIN_CMDLINE_def)
  let ?s2 = "?s1\<lparr>errnum := ERR_PRIVILEGED\<rparr>"
  have "run_lines e (l # post) r old s = run_lines e post (Some ?b) l ?s2"
    using s st lk fl ex by simp
  also have "\<dots> = map_option (Pair (Some 1)) (script_error (Some ?b) l ?s2)"
    using s(2) by (cases post) simp_all
  also have "\<exists>t. \<dots> = Some (Some 1, print_tty t (?s2\<lparr>errnum := ERR_NONE\<rparr>))"
    unfolding script_error_def
    by (auto simp: print_tty_def intro!: exI [of _ "if fallback_entryno s < 0 then (if flags ?b AND BUILTIN_NO_ECHO = 0
        then [Print (l @ [10])] else []) @ [PrintError ERR_PRIVILEGED, Print (10 # cs ''Press any key to continue...''), AnyKey] else []"])
  finally show ?thesis by (auto simp: h_def)
qed


text \<open>
  C10. With \<open>errorcheck\<close> on, as it is unless the command of that name switched it off, a \<open>lock\<close> line without \<open>&&\<close> and
  \<open>||\<close> ends a script for a user who has not given the password, whatever the lines behind it: when a password is set,
  the lines before it ran without error and the line fits the buffer, \<open>run_script\<close> returns 1 and memory, disks, the
  kernel and the variables of the menu are as those lines left them.  With \<open>errorcheck\<close> off the script goes on.
\<close>

theorem lock_ends_script:
  assumes "builtin_table e = commands v" "\<forall>k \<in> set (pre @ l # post). k \<noteq> [] \<and> 0 \<notin> set k"
    and "init_cmdline e s = Some sa" "run_lines e pre None [] sa = Some (None, sb)" "errnum sb = ERR_NONE" "errorcheck sb"
    and "command_word l = cs ''lock''" "first_op l = None" "length l < length (heap sb)"
    and "\<not> auth (world sb)" "password (world sb) \<noteq> 0"
  shows "\<exists>s'. run_script e (script_text (pre @ l # post) @ [0]) s = Some (1, s')
    \<and> mem s' = mem sb \<and> dev s' = dev sb \<and> kernel_loaded s' = kernel_loaded sb \<and> world s' = world sb"
proof -
  have tab: "table_ok (builtin_table e)" using commands_sorted assms(1) by simp
  have init: "sa\<lparr>errnum := ERR_NONE\<rparr> = sa" using assms(3) by (auto simp: init_cmdline_def Let_def bind_eq_Some_conv)
  obtain r old where a: "run_lines e (pre @ l # post) None [] sa = run_lines e (l # post) r old sb"
    using run_lines_append [OF assms(4,5)] by blast
  have "0 \<notin> set l" using assms(2) by simp
  then obtain t s' where "run_lines e (l # post) r old sb = Some (Some 1, s')"
    and s': "s' = print_tty t (sb\<lparr>heap := l @ [0] @ drop (length l + 1) (heap sb), buf_drive := -1, errnum := ERR_NONE\<rparr>)"
    using locked_line [OF assms(1,7,8) _ assms(9,5,6,10,11)] by blast
  then have "run_script e (script_text (pre @ l # post) @ [0]) s = Some (1, s')"
    using script_loop_lines [OF tab assms(2), of None "[]" sa "Some 1" s' "[]" "[]"] assms(3) init a
    by (simp add: run_script_def)
  then show ?thesis using s' by (simp add: print_tty_def)
qed


section \<open>\<open>password\<close>\<close>

lemma grub_memcmp_prefix:
  assumes "str_of b i = Some s" "0 \<notin> set t"
  shows "\<exists>r. grub_memcmp b i (pre @ t) (length pre) (length t) = Some r \<and> (r = 0 \<longleftrightarrow> prefix t s)"
  using assms
proof (induction t arbitrary: i s pre)
  case (Cons x t)
  have x: "rd (pre @ x # t) (length pre) = Some x" by (simp add: rd_def)
  show ?case
  proof (cases s)
    case Nil
    then have "rd b i = Some 0" using Cons.prems by (auto simp: cstr)
    moreover have "x <s 0 \<or> 0 <s x" using Cons.prems(2) by (metis list.set_intros(1) signed.less_linear)
    ultimately show ?thesis using x Nil by auto
  next
    case (Cons c s')
    then have c: "rd b i = Some c" "str_of b (i + 1) = Some s'" using Cons.prems by (auto simp: cstr)
    then obtain r where r: "grub_memcmp b (i + 1) ((pre @ [x]) @ t) (length (pre @ [x])) (length t) = Some r" "r = 0 \<longleftrightarrow> prefix t s'"
      using Cons.IH [OF c(2), of "pre @ [x]"] \<open>0 \<notin> set (x # t)\<close> by auto
    show ?thesis using x c(1) r Cons signed.less_linear [of c x] by auto
  qed
qed simp

lemma arg_is_str: "str_of b a = Some s \<Longrightarrow> 0 \<notin> set (cs w) \<Longrightarrow> arg_is w b a = Some (prefix (cs w) s)"
  using grub_memcmp_prefix [of b a s "cs w" "[]"] by (auto simp: arg_is_def)

lemma next_word_after:
  assumes "\<forall>c \<in> set w. \<not> sep False c" "sp \<noteq> []" "\<forall>c \<in> set sp. sep False c" "t = [] \<or> \<not> sep False (hd t)"
  shows "next_word False (w @ sp @ t) = t"
proof -
  have "dropWhile (Not \<circ> sep False) (w @ sp @ t) = sp @ t"
    using assms(1-3) by (subst dropWhile_append2) (auto simp: neq_Nil_conv)
  moreover have "dropWhile (sep False) (sp @ t) = t"
    using assms(3,4) by (cases t) (simp_all add: dropWhile_append2)
  ultimately show ?thesis by (simp add: next_word_def)
qed

lemma skip_word_sp:
  assumes "str_of b a = Some (w @ sp @ t)" "\<forall>c \<in> set w. \<not> sep False c" "sp \<noteq> []" "\<forall>c \<in> set sp. sep False c"
    "t = [] \<or> \<not> sep False (hd t)"
  shows "skip_to False b a = Some (a + length w + length sp)" "str_of b (a + length w + length sp) = Some t"
  using skip_to_str [OF assms(1), of False] next_word_after [OF assms(2-5)] by (simp_all add: add.assoc)

text \<open>A password text: the header \<open>$1$\<close>, a salt, a dollar sign and the encrypted part.\<close>

definition md5_text :: "u8 list \<Rightarrow> u8 list \<Rightarrow> u8 list" where
  "md5_text salt u = cs ''$1$'' @ salt @ ch CHR ''$'' # u"

text \<open>
  C11. At the command line and in a script, \<open>password --md5\<close> with a text of MD5-crypt asks for a password and
  returns 1 exactly when the text is the one MD5-crypt makes of the password entered and the salt; otherwise it
  returns 0 with \<open>ERR_PRIVILEGED\<close>.  The variables of the menu stay as they are.
\<close>

theorem password_checks_md5:
  assumes "mode AND (BUILTIN_CMDLINE OR BUILTIN_SCRIPT) \<noteq> 0"
    and "str_of (heap s) a = Some (cs ''--md5'' @ sp @ md5_text salt u @ rest)" "sp \<noteq> []" "\<forall>c \<in> set sp. sep False c"
    and "\<forall>c \<in> set (salt @ u). \<not> isspace_char c" "ch CHR ''$'' \<notin> set salt" "rest = [] \<or> isspace_char (hd rest)"
    and "get_password v s = Some (entered, sa)" "heap sa = heap s" "str_of entered 0 = Some k" "length k < 2 ^ 24"
    and "length (buffer (md5 (world sa))) = 64" "length (salt @ u) < 2 ^ 23"
  shows "let ok = (u = crypted_text k salt (cs ''$1$'' @ salt))
    in \<exists>s'. password_func v a mode s = Some (if ok then 1 else 0, s')
      \<and> errnum s' = (if ok then errnum sa else ERR_PRIVILEGED) \<and> (\<exists>c. world s' = (world sa)\<lparr>md5 := c\<rparr>)"
proof -
  let ?w = "md5_text salt u" and ?a = "a + length (cs ''--md5'') + length sp"
  have t: "?w @ rest \<noteq> [] \<and> \<not> sep False (hd (?w @ rest))" by (simp add: md5_text_def sep_def)
  have md: "\<forall>c \<in> set (cs ''--md5''). \<not> sep False c" by (simp add: sep_def)
  note sk = skip_word_sp [OF assms(2) md assms(3,4) disjI2 [OF conjunct2 [OF t]]]
  have o1: "arg_is ''--md5'' (heap s) a = Some True" using arg_is_str [OF assms(2), of "''--md5''"] by simp
  have o2: "arg_is ''--'' (heap s) ?a = Some False" using arg_is_str [OF sk(2), of "''--''"] by (simp add: md5_text_def)
  have opt: "password_options (heap s) a = Some (PASSWORD_MD5, ?a)"
    unfolding password_options_def using o1 o2 sk(1) by simp
  have nsp: "\<forall>c \<in> set ?w. \<not> isspace_char c" using assms(5) by (auto simp: md5_text_def isspace_char_def grub_isspace_def)
  have tw: "takeWhile (\<lambda>c. \<not> isspace_char c) (?w @ rest) = ?w"
    using nsp assms(7) by (cases rest) (simp_all add: takeWhile_append)
  obtain c b' where nt: "nul_terminate (heap sa) ?a = Some (c, b')" "str_of b' ?a = Some ?w"
    using nul_terminate_word [of "heap sa" ?a "?w @ rest"] sk(2) assms(9) unfolding tw by auto
  obtain q post where "b' = q @ ?w @ 0 # post" "length q = ?a" and nz: "0 \<notin> set ?w" using str_of_split [OF nt(2)] by blast
  then have post: "drop ?a b' = ?w @ 0 # post" by simp
  obtain c' r where r: "md5_password entered (drop ?a b') True (md5 (world sa)) = Some (r, drop ?a b', c')"
    "r = 0 \<longleftrightarrow> u = crypted_text k salt (cs ''$1$'' @ salt)"
    using md5_password_checked [OF assms(10-12), of "cs ''$1$''" salt u post] assms(6,13) nz
    unfolding post md5_text_def by auto
  have "password_func v a mode s =
    Some (if r \<noteq> 0 then (0, fail ERR_PRIVILEGED (on_world (\<lambda>w. w\<lparr>md5 := c'\<rparr>) (sa\<lparr>heap := b'\<rparr>)))
          else (1, on_world (\<lambda>w. w\<lparr>md5 := c'\<rparr>) (sa\<lparr>heap := b'\<rparr>)))"
    using opt assms(1,8) nt(1) r(1) unfolding password_func_def by (simp add: check_password_def)
  then show ?thesis using r(2) by (auto simp: Let_def fail_def on_world_def)
qed


section \<open>\<open>fallback\<close>\<close>

text \<open>Numbers in decimal with blanks behind them; only the last may have none.\<close>

fun number_list :: "(nat \<times> u8 list) list \<Rightarrow> u8 list" where
  "number_list [] = []"
| "number_list ((n, sp) # r) = dec n @ sp @ number_list r"

fun number_list_ok :: "(nat \<times> u8 list) list \<Rightarrow> bool" where
  "number_list_ok [] \<longleftrightarrow> True"
| "number_list_ok ((n, sp) # r) \<longleftrightarrow> n < 2 ^ 32 \<and> (\<forall>c \<in> set sp. sep False c) \<and> (sp = [] \<longrightarrow> r = []) \<and> number_list_ok r"

lemma number_list_hd: "number_list toks = [] \<or> \<not> sep False (hd (number_list toks))"
proof (cases toks)
  case (Cons x r)
  then show ?thesis using dec_hd [of "fst x"] by (cases x) (auto simp: is_digit_def sep_def)
qed simp

lemma parse_dec_stop:
  assumes "n < 2 ^ 32" "stop = 0 \<or> sep False stop"
  shows "safe_parse_maxint (pre @ dec n @ stop # r) (length pre) = Some (Inr (length pre + length (dec n), of_nat n))"
proof (rule parse_dec [OF assms(1)])
  show "digit_value 10 stop = None" "tolower_char stop \<noteq> ch CHR ''x''"
    using assms(2) by (auto simp: sep_def digit_value_def grub_tolower_def tolower_char_def)
qed

lemma parse_blank:
  assumes "rd b a = Some c" "sep False c"
  shows "safe_parse_maxint b a = Some (Inl ERR_NUMBER_PARSING)"
proof -
  have "spm_loop b a 10 False 0 False = Some (Inr (a, 0, False))"
    using assms by (subst spm_loop.simps) (auto simp: sep_def digit_value_def grub_tolower_def)
  then show ?thesis using assms by (auto simp: safe_parse_maxint_def Let_def sep_def)
qed

lemma dec_nonzero: "0 \<notin> set (dec n)"
proof -
  have "list_all (\<lambda>d. cta_char (ch CHR ''d'') (of_nat d) \<noteq> 0) [0..<10]" by code_simp
  then have "d < 10 \<Longrightarrow> cta_char (ch CHR ''d'') (of_nat d) \<noteq> 0" for d by (simp add: list_all_iff)
  then show ?thesis using digits_of_less [of 10 _ n] by (force simp: dec_def digit_chars_def)
qed

text \<open>One number of the list, when it is not in the table yet.\<close>

lemma fallback_number:
  assumes tx: "b = pre @ number_list ((n, sp) # toks) @ 0 # post" and ok: "number_list_ok ((n, sp) # toks)"
  shows "fallback_loop b (length pre) i es =
    (if of_nat n \<in> set (take i es) then fallback_loop b (length (pre @ dec n)) i es
     else do { es1 \<leftarrow> wr es i (of_nat n);
               if i + 1 = MAX_FALLBACK_ENTRIES then Some (None, i + 1, es1)
               else fallback_loop b (length (pre @ dec n @ sp)) (i + 1) es1 })"
proof -
  obtain c t where c: "dec n = c # t" "c \<noteq> 0" using dec_hd [of n] dec_nonzero [of n] by auto
  have rc: "rd b (length pre) = Some c" using tx c by (simp add: rd_def)
  obtain stop r where st: "sp @ number_list toks @ 0 # post = stop # r" "stop = 0 \<or> sep False stop"
    using ok by (cases sp) auto
  then have p: "safe_parse_maxint b (length pre) = Some (Inr (length (pre @ dec n), of_nat n))"
    using parse_dec_stop [of n stop pre r] tx ok by simp
  have nz: "0 \<notin> set (sp @ number_list toks)"
  proof -
    have "0 \<notin> set sp" using ok sep_0 by auto
    moreover have "0 \<notin> set (number_list ts)" if "number_list_ok ts" for ts
      using that
    proof (induction ts rule: number_list.induct)
      case (2 m q ts)
      then show ?case using dec_nonzero [of m] sep_0 by auto
    qed simp
    ultimately show ?thesis using ok by auto
  qed
  have "b = (pre @ dec n) @ (sp @ number_list toks) @ 0 # post" using tx by simp
  then have so: "str_of b (length (pre @ dec n)) = Some (sp @ number_list toks)"
    using str_of_at [OF nz] by blast
  have sk: "skip_to False b (length (pre @ dec n)) = Some (length (pre @ dec n @ sp))"
  proof (cases "sp = []")
    case True
    then have "toks = []" using ok by simp
    then show ?thesis using skip_to_str(1) [OF so, of False] True by (simp add: next_word_def)
  next
    case False
    have "\<forall>c \<in> set sp. sep False c" using ok by simp
    then show ?thesis
      using skip_word_sp(1) [of b "length (pre @ dec n)" "[]" sp "number_list toks"] so False number_list_hd by (simp add: add.assoc)
  qed
  show ?thesis using c(2) rc p sk by (subst fallback_loop.simps) (simp add: add.assoc cong del: if_weak_cong)
qed


lemma number_list_append: "number_list (xs @ ys) = number_list xs @ number_list ys"
  by (induction xs rule: number_list.induct) simp_all

lemma number_list_ok_append: "number_list_ok (xs @ ys) \<Longrightarrow> number_list_ok ys"
  by (induction xs rule: number_list.induct) simp_all

text \<open>Distinct numbers fill the table from \<open>i\<close> on.\<close>

definition numbers :: "(nat \<times> u8 list) list \<Rightarrow> u32 list" where
  "numbers toks = map (\<lambda>(n, sp). of_nat n) toks"

lemma numbers_simps [simp]:
  "numbers [] = []" "numbers ((n, sp) # r) = of_nat n # numbers r" "numbers (xs @ ys) = numbers xs @ numbers ys"
  "length (numbers xs) = length xs"
  by (simp_all add: numbers_def)

lemma fallback_prefix:
  assumes "number_list_ok (xs @ ys)" "i + length xs < MAX_FALLBACK_ENTRIES" "length es = MAX_FALLBACK_ENTRIES"
    "distinct (take i es @ numbers xs)"
  shows "fallback_loop (pre @ number_list (xs @ ys) @ 0 # post) (length pre) i es =
    fallback_loop (pre @ number_list (xs @ ys) @ 0 # post) (length (pre @ number_list xs)) (i + length xs) (blit es i (numbers xs))"
  using assms
proof (induction xs arbitrary: pre i es rule: number_list.induct)
  case 1
  then show ?case by (simp add: blit_def)
next
  case (2 n sp r)
  let ?b = "pre @ number_list (((n, sp) # r) @ ys) @ 0 # post" and ?es = "es[i := of_nat n]"
  have i: "i < length es" using 2 by simp
  have t: "take (i + 1) ?es = take i es @ [of_nat n]" using i by (simp add: take_Suc_conv_app_nth)
  have b: "?b = (pre @ dec n @ sp) @ number_list (r @ ys) @ 0 # post" by simp
  have "fallback_loop ?b (length pre) i es = fallback_loop ?b (length (pre @ dec n @ sp)) (i + 1) ?es"
    using fallback_number [of ?b pre n sp "r @ ys" post i es] 2 i by simp
  also have "\<dots> = fallback_loop ?b (length ((pre @ dec n @ sp) @ number_list r)) (i + 1 + length r) (blit ?es (i + 1) (numbers r))"
    unfolding b by (rule "2.IH") (use 2 t in auto)
  also have "blit ?es (i + 1) (numbers r) = blit es i (numbers ((n, sp) # r))"
    using i t by (simp add: blit_def)
  finally show ?case by simp
qed

lemma fallback_all:
  assumes "number_list_ok toks" "length es = MAX_FALLBACK_ENTRIES" "distinct (numbers toks)"
  shows "fallback_loop (pre @ number_list toks @ 0 # post) (length pre) 0 es =
    Some (None, min MAX_FALLBACK_ENTRIES (length toks), blit es 0 (take MAX_FALLBACK_ENTRIES (numbers toks)))"
proof (cases "length toks < MAX_FALLBACK_ENTRIES")
  case True
  have "rd (pre @ number_list toks @ 0 # post) (length (pre @ number_list toks)) = Some 0" by (simp add: rd_def nth_append)
  then have "fallback_loop (pre @ number_list toks @ 0 # post) (length (pre @ number_list toks)) (length toks) (blit es 0 (numbers toks))
    = Some (None, length toks, blit es 0 (numbers toks))"
    by (subst fallback_loop.simps) simp
  then show ?thesis using fallback_prefix [of toks "[]" 0 es pre post] assms True by simp
next
  case False
  define xs where "xs = take 7 toks"
  obtain n sp r where toks: "toks = xs @ (n, sp) # r"
    using False id_take_nth_drop [of 7 toks] by (cases "toks ! 7") (auto simp: xs_def MAX_FALLBACK_ENTRIES_def)
  have l: "length xs = 7" using False by (simp add: xs_def MAX_FALLBACK_ENTRIES_def)
  let ?b = "pre @ number_list toks @ 0 # post" and ?es = "blit es 0 (numbers xs)"
  have d: "of_nat n \<notin> set (take 7 ?es)" using assms(3) l by (auto simp: toks blit_def)
  have "fallback_loop ?b (length pre) 0 es = fallback_loop ?b (length (pre @ number_list xs)) 7 ?es"
    using fallback_prefix [of xs "(n, sp) # r" 0 es pre post] assms l by (simp add: toks MAX_FALLBACK_ENTRIES_def)
  also have "\<dots> = Some (None, 8, ?es[7 := of_nat n])"
    using fallback_number [of ?b "pre @ number_list xs" n sp r post 7 ?es] d assms(2) l number_list_ok_append [OF assms(1) [unfolded toks]]
    by (simp add: toks number_list_append MAX_FALLBACK_ENTRIES_def blit_def wr_def)
  also have "?es[7 := of_nat n] = blit es 0 (take 8 (numbers toks))"
    using assms(2) l by (auto simp: toks blit_def MAX_FALLBACK_ENTRIES_def list_update_append intro!: nth_equalityI)
  finally show ?thesis using False by (simp add: MAX_FALLBACK_ENTRIES_def)
qed


text \<open>
  \<open>fallback\<close> with a list of distinct numbers stores them in order, the first eight if there are more, ends the list
  with -1 if it has room, and starts at the first of them; it returns 1 and changes nothing else.
\<close>

theorem fallback_stores_list:
  assumes "heap s = pre @ number_list toks @ 0 # post" "number_list_ok toks" "distinct (numbers toks)"
    and "length (fallback_entries (world s)) = MAX_FALLBACK_ENTRIES"
  shows "\<exists>es. fallback_func (length pre) mode s =
      Some (1, s\<lparr>fallback_entryno := (if toks = [] then -1 else 0), world := (world s)\<lparr>fallback_entries := es\<rparr>\<rparr>)
    \<and> take MAX_FALLBACK_ENTRIES (numbers toks @ [-1]) = take (length toks + 1) es \<and> length es = MAX_FALLBACK_ENTRIES"
proof -
  let ?es = "blit (fallback_entries (world s)) 0 (take MAX_FALLBACK_ENTRIES (numbers toks))"
  let ?n = "min MAX_FALLBACK_ENTRIES (length toks)"
  let ?r = "if ?n < MAX_FALLBACK_ENTRIES then ?es[?n := -1] else ?es"
  have "fallback_func (length pre) mode s =
      Some (1, s\<lparr>fallback_entryno := (if toks = [] then -1 else 0), world := (world s)\<lparr>fallback_entries := ?r\<rparr>\<rparr>)"
    using fallback_all [OF assms(2,4,3), of pre post] assms(1)
    by (simp add: fallback_func_def on_world_def MAX_FALLBACK_ENTRIES_def min_def)
  moreover have "take MAX_FALLBACK_ENTRIES (numbers toks @ [-1]) = take (length toks + 1) ?r"
  proof (cases "length toks < MAX_FALLBACK_ENTRIES")
    case True
    then have "?r = numbers toks @ -1 # drop (length toks + 1) (fallback_entries (world s))"
      using assms(4) by (simp add: blit_def list_update_append upd_conv_take_nth_drop)
    then show ?thesis using True by simp
  next
    case False
    then have "?r = take MAX_FALLBACK_ENTRIES (numbers toks)" using assms(4) by (simp add: blit_def)
    then show ?thesis using False by (simp add: min_def)
  qed
  moreover have "length ?r = MAX_FALLBACK_ENTRIES" using assms(4) by (simp add: blit_def)
  ultimately show ?thesis by blast
qed

text \<open>
  A number that is in the list already and is followed by another one makes \<open>fallback\<close> fail with
  \<open>ERR_NUMBER_PARSING\<close>: the loop goes on at the blank behind the duplicate.  The numbers before it are stored without
  an end.
\<close>

theorem fallback_duplicate_fails:
  assumes "heap s = pre @ number_list (xs @ (n, c # sp) # y # ys) @ 0 # post" "number_list_ok (xs @ (n, c # sp) # y # ys)"
    and "distinct (numbers xs)" "of_nat n \<in> set (numbers xs)" "length xs < MAX_FALLBACK_ENTRIES"
    and "length (fallback_entries (world s)) = MAX_FALLBACK_ENTRIES"
  shows "fallback_func (length pre) mode s =
    Some (0, s\<lparr>errnum := ERR_NUMBER_PARSING, world := (world s)\<lparr>fallback_entries := blit (fallback_entries (world s)) 0 (numbers xs)\<rparr>\<rparr>)"
proof -
  let ?toks = "xs @ (n, c # sp) # y # ys" and ?es = "blit (fallback_entries (world s)) 0 (numbers xs)"
  let ?b = "pre @ number_list ?toks @ 0 # post"
  have ok: "number_list_ok ((n, c # sp) # y # ys)" by (rule number_list_ok_append [OF assms(2)])
  have "fallback_loop ?b (length pre) 0 (fallback_entries (world s)) = fallback_loop ?b (length (pre @ number_list xs)) (length xs) ?es"
    using fallback_prefix [of xs "(n, c # sp) # y # ys" 0 "fallback_entries (world s)" pre post] assms(2,3,5,6) by simp
  also have "\<dots> = fallback_loop ?b (length ((pre @ number_list xs) @ dec n)) (length xs) ?es"
    using fallback_number [of ?b "pre @ number_list xs" n "c # sp" "y # ys" post "length xs" ?es] ok assms(4)
    by (simp add: number_list_append blit_def)
  also have "\<dots> = Some (Some ERR_NUMBER_PARSING, length xs, ?es)"
  proof -
    have c: "sep False c" "c \<noteq> 0" using ok sep_0 by auto
    have "?b = (pre @ number_list xs @ dec n) @ c # sp @ number_list (y # ys) @ 0 # post" by (simp add: number_list_append)
    then have "rd ?b (length (pre @ number_list xs @ dec n)) = Some c" by (simp add: rd_def)
    then show ?thesis using c parse_blank by (subst fallback_loop.simps) auto
  qed
  finally show ?thesis using assms(1) by (simp add: fallback_func_def fail_def on_world_def)
qed


section \<open>Concrete commands\<close>

definition demo_menu :: menu where
  "demo_menu = \<lparr>default_entry = 0, fallback_entries = replicate 8 0, password = PASSWORD_BUF, password_type = PASSWORD_MD5,
     auth = False, grub_timeout = -1, show_menu = True, saved_entryno = 0, bootdev = 0,
     md5 = \<lparr>state = (0, 0, 0, 0), len = 0, buffer = replicate 64 0\<rparr>\<rparr>"

definition menu_shell :: "u8 list \<Rightarrow> (unit, unit, unit) mshell" where
  "menu_shell h = globals.extend (globals_start (\<lambda>a. 0) () ()) (shell.fields h (-1) False True (-1) False 0x80 0xFFFFFF demo_menu)"

definition menu_cmds :: "(unit, unit, unit) cmd_env" where
  "menu_cmds = \<lparr>disks = image_bios (\<lambda>i. 0) (demo_geometry 1), fsystems = [],
     unzip = \<lparr>gunzip_test_header = (\<lambda>s. Some (True, s)), gunzip_read = (\<lambda>b n s. Some (0, s))\<rparr>,
     get_password = (\<lambda>s. Some (cs ''pw'' @ [0], s)), setcolor = None, partnew_file = (\<lambda>a ty s. Some (None, s)),
     other_func = (\<lambda>n a mode s. Some (0, s))\<rparr>"

definition menu_env :: "(unit, unit, menu) shell_env" where
  "menu_env = \<lparr>builtin_table = commands menu_cmds, init_builtins = Some, saved_mem_upper = 1000, mmap_length = 0\<rparr>"

lemma menu_shell_fields:
  "heap (menu_shell h) = h" "world (menu_shell h) = demo_menu" "errnum (menu_shell h) = ERR_NONE" "errorcheck (menu_shell h)"
  "fallback_entries demo_menu = replicate 8 0" "\<not> auth demo_menu" "password demo_menu \<noteq> 0"
  "length (buffer (md5 demo_menu)) = 64"
  by (simp_all add: menu_shell_def globals.extend_def shell.fields_def globals_start_def demo_menu_def PASSWORD_BUF_def)

theorem builtin_found_witness:
  "find_command menu_env 0 (menu_shell (cs ''lock'' @ [0])) = Some (Some (row ''lock'' menu_cmdline lock_func), menu_shell (cs ''lock'' @ [0]))"
proof (rule builtin_found [OF _ lock_in_table])
  show "builtin_table menu_env = commands menu_cmds" by (simp add: menu_env_def)
  show "str_of (heap (menu_shell (cs ''lock'' @ [0]))) 0 = Some (cs ''lock'')"
    using str_of_literal [of "cs ''lock''" "[]"] by (simp add: menu_shell_fields)
  show "command_word (cs ''lock'') = name (row ''lock'' menu_cmdline lock_func)"
    by (simp add: row_def command_word_def sep_def)
qed

theorem lock_ends_script_witness:
  "\<exists>s'. run_script menu_env (script_text [cs ''lock'', cs ''halt''] @ [0]) (menu_shell (replicate 16 0)) = Some (1, s')
    \<and> world s' = demo_menu"
proof -
  let ?s = "menu_shell (replicate 16 0)"
  define sa where "sa = ?s\<lparr>saved_drive := 0x80, saved_partition := 0xFFFFFF, mem_upper := 1000\<rparr>"
  have i: "init_cmdline menu_env ?s = Some sa"
    by (simp add: init_cmdline_def menu_env_def sa_def menu_shell_def globals.extend_def shell.fields_def globals_start_def)
  have sa: "errnum sa = ERR_NONE" "errorcheck sa" "world sa = demo_menu" "heap sa = replicate 16 0"
    by (simp_all add: sa_def menu_shell_fields)
  have "run_lines menu_env [] None [] sa = Some (None, sa)" by (simp add: sa)
  moreover have "builtin_table menu_env = commands menu_cmds" by (simp add: menu_env_def)
  moreover have "first_op (cs ''lock'') = None" "command_word (cs ''lock'') = cs ''lock''" by code_simp+
  ultimately show ?thesis
    using lock_ends_script [of menu_env menu_cmds "[]" "cs ''lock''" "[cs ''halt'']" ?s sa sa] i sa menu_shell_fields by auto
qed

theorem password_checks_md5_witness:
  "\<exists>s'. password_func menu_cmds 0 BUILTIN_CMDLINE (menu_shell (cs ''--md5 $1$ab$x'' @ [0])) = Some (0, s')
     \<and> errnum s' = ERR_PRIVILEGED"
proof -
  let ?s = "menu_shell (cs ''--md5 $1$ab$x'' @ [0])"
  have a: "str_of (heap ?s) 0 = Some (cs ''--md5'' @ cs '' '' @ md5_text (cs ''ab'') (cs ''x'') @ [])"
    using str_of_literal [of "cs ''--md5 $1$ab$x''" "[]"] by (simp add: menu_shell_fields md5_text_def)
  have g: "get_password menu_cmds ?s = Some (cs ''pw'' @ [0], ?s)" by (simp add: menu_cmds_def)
  have m: "BUILTIN_CMDLINE AND (BUILTIN_CMDLINE OR BUILTIN_SCRIPT) \<noteq> 0" by (simp add: BUILTIN_CMDLINE_def BUILTIN_SCRIPT_def)
  have c: "\<forall>c \<in> set (cs '' ''). sep False c" "\<forall>c \<in> set (cs ''ab'' @ cs ''x''). \<not> isspace_char c"
    by (simp_all add: sep_def isspace_char_def grub_isspace_def)
  have k: "str_of (cs ''pw'' @ [0]) 0 = Some (cs ''pw'')" using str_of_literal [of "cs ''pw''" "[]"] by simp
  have "length (cs ''x'') \<noteq> length (crypted_text (cs ''pw'') (cs ''ab'') (cs ''$1$'' @ cs ''ab''))"
    by (simp add: crypted_text_def)
  then have n: "cs ''x'' \<noteq> crypted_text (cs ''pw'') (cs ''ab'') (cs ''$1$'' @ cs ''ab'')" by metis
  have "\<exists>s'. password_func menu_cmds 0 BUILTIN_CMDLINE ?s = Some (0, s') \<and> errnum s' = ERR_PRIVILEGED \<and> (\<exists>c. world s' = (world ?s)\<lparr>md5 := c\<rparr>)"
    using password_checks_md5 [OF m a _ c _ _ g refl k] unfolding Let_def if_not_P [OF n] by (simp add: menu_shell_fields)
  then show ?thesis by blast
qed

theorem fallback_stores_list_witness:
  "\<exists>es. fallback_func 0 2 (menu_shell (cs ''1 22'' @ [0])) =
      Some (1, (menu_shell (cs ''1 22'' @ [0]))\<lparr>fallback_entryno := 0, world := demo_menu\<lparr>fallback_entries := es\<rparr>\<rparr>)
    \<and> take 3 es = [1, 22, -1]"
proof -
  have d: "dec 1 = cs ''1''" "dec 22 = cs ''22''" by code_simp+
  have h: "heap (menu_shell (cs ''1 22'' @ [0])) = [] @ number_list [(1, cs '' ''), (22, [])] @ 0 # []"
    by (simp add: menu_shell_fields d [simplified])
  have ok: "number_list_ok [(1, cs '' ''), (22, [])]" by (simp add: sep_def)
  show ?thesis
    using fallback_stores_list [OF h ok, of 2]
    by (fastforce simp: menu_shell_fields numbers_def MAX_FALLBACK_ENTRIES_def numeral_3_eq_3)
qed

theorem fallback_duplicate_fails_witness:
  "map_option fst (fallback_func 0 2 (menu_shell (cs ''1 1 2'' @ [0]))) = Some 0"
proof -
  have d: "dec 1 = cs ''1''" "dec 2 = cs ''2''" by code_simp+
  have h: "heap (menu_shell (cs ''1 1 2'' @ [0])) = [] @ number_list ([(1, cs '' '')] @ (1, 32 # []) # (2, []) # []) @ 0 # []"
    by (simp add: menu_shell_fields d [simplified])
  have ok: "number_list_ok ([(1, cs '' '')] @ (1, 32 # []) # (2, []) # [])" by (simp add: sep_def)
  show ?thesis
    using fallback_duplicate_fails [OF h ok, of 2] by (simp add: menu_shell_fields numbers_def MAX_FALLBACK_ENTRIES_def)
qed

end
