(* ===== verification/FatFs.thy ===== *)
theory FatFs
imports FileIO "HOL-Library.Signed_Division"
begin

text \<open>
  The FAT driver, \<open>stage2/fsys_fat.c\<close>: \<open>fat_mount\<close>, \<open>fat_read\<close> with its cache of the allocation table, and \<open>fat_dir\<close>
  with long names.  The superblock and the buffers stand in memory behind \<open>FSYS_BUF\<close>, as in the code; the local
  arrays \<open>bpb\<close>, \<open>first_fat\<close> and \<open>dir_buf\<close> stand at an address \<open>stack\<close>, an argument.
\<close>

section \<open>The superblock\<close>

datatype fat_field =
    fat_offset | fat_length | fat_size | root_offset | root_max | data_offset | num_sectors | num_clust
  | clust_eof_marker | sects_per_clust | sectsize_bits | clustsize_bits | root_cluster
  | cached_fat | file_cluster | current_cluster_num | current_cluster

definition fat_fields :: "fat_field list" where
  "fat_fields = [fat_offset, fat_length, fat_size, root_offset, root_max, data_offset, num_sectors, num_clust,
     clust_eof_marker, sects_per_clust, sectsize_bits, clustsize_bits, root_cluster,
     cached_fat, file_cluster, current_cluster_num, current_cluster]"

definition field_index :: "fat_field \<Rightarrow> nat" where
  "field_index f = length (takeWhile (\<lambda>x. x \<noteq> f) fat_fields)"

definition FAT_SUPER :: u32 where "FAT_SUPER = FSYS_BUF + 32256"
definition FAT_BUF :: u32 where "FAT_BUF = FSYS_BUF + 30208"
definition NAME_BUF :: u32 where "NAME_BUF = FSYS_BUF + 29184"
definition FAT_CACHE_SIZE :: u32 where "FAT_CACHE_SIZE = 2048"

definition field_address :: "fat_field \<Rightarrow> u32" where
  "field_address f = FAT_SUPER + of_nat (4 * field_index f)"

definition sb :: "mem \<Rightarrow> fat_field \<Rightarrow> u32" where
  "sb m f = peek32 m (field_address f)"

definition set_sb :: "fat_field \<Rightarrow> u32 \<Rightarrow> ('d, 'h, 'z) gstate \<Rightarrow> ('d, 'h, 'z) gstate" where
  "set_sb f x s = s\<lparr>mem := poke (field_address f) (bytes32 x) (mem s)\<rparr>"

section \<open>Mounting\<close>

text \<open>The fields of \<open>struct fat_bpb\<close> as the code reads them, from the address of \<open>bpb\<close>.\<close>

record fat_bpb =
  bytes_per_sect :: u16
  bpb_sects_per_clust :: u8
  reserved_sects :: u16
  num_fats :: u8
  dir_entries :: u16
  short_sectors :: u16
  bpb_fat_length :: u16
  secs_track :: u16
  bpb_heads :: u16
  long_sectors :: u32
  fat32_length :: u32
  bpb_flags :: u16
  bpb_root_cluster :: u32

definition read_bpb :: "mem \<Rightarrow> u32 \<Rightarrow> fat_bpb" where
  "read_bpb m a = \<lparr>bytes_per_sect = peek16 m (a + 11), bpb_sects_per_clust = m (a + 13), reserved_sects = peek16 m (a + 14),
     num_fats = m (a + 16), dir_entries = peek16 m (a + 17), short_sectors = peek16 m (a + 19), bpb_fat_length = peek16 m (a + 22),
     secs_track = peek16 m (a + 24), bpb_heads = peek16 m (a + 26), long_sectors = peek32 m (a + 32), fat32_length = peek32 m (a + 36),
     bpb_flags = peek16 m (a + 40), bpb_root_cluster = peek32 m (a + 44)\<rparr>"

text \<open>The checks before the superblock is filled in; \<open>sectsize_bits\<close> and \<open>clustsize_bits\<close> are set on the way.\<close>

definition bpb_sane :: "fat_bpb \<Rightarrow> bool" where
  "bpb_sane b \<longleftrightarrow> reserved_sects b \<noteq> 0 \<and> num_fats b - 1 \<le> 1 \<and> secs_track b - 1 \<le> 62 \<and> bpb_heads b - 1 \<le> 255"

definition shift_right :: "u32 \<Rightarrow> u32 \<Rightarrow> u32" where
  "shift_right x n = signed_drop_bit (unat n mod 32) x"

definition shift_left :: "u32 \<Rightarrow> u32 \<Rightarrow> u32" where
  "shift_left x n = push_bit (unat n mod 32) x"

text \<open>The division of \<open>int\<close>s.\<close>

definition int_div :: "u32 \<Rightarrow> u32 \<Rightarrow> u32" where
  "int_div a b = word_of_int (sint a sdiv sint b)"

definition fill_super :: "fat_bpb \<Rightarrow> ('d, 'h, 'z) gstate \<Rightarrow> ('d, 'h, 'z) gstate" where
  "fill_super b s0 =
     (let s1 = set_sb num_sectors (if short_sectors b \<noteq> 0 then ucast (short_sectors b) else long_sectors b) s0;
          s2 = set_sb fat_offset (ucast (reserved_sects b)) s1;
          s3 = set_sb fat_length (if bpb_fat_length b \<noteq> 0 then ucast (bpb_fat_length b) else fat32_length b) s2;
          s4 = set_sb root_offset (sb (mem s3) fat_offset + ucast (num_fats b) * sb (mem s3) fat_length) s3;
          s5 = set_sb root_max (32 * ucast (dir_entries b)) s4;
          s6 = set_sb data_offset (sb (mem s5) root_offset + shift_right (sb (mem s5) root_max - 1) (sb (mem s5) sectsize_bits) + 1) s5;
          s7 = set_sb num_clust (2 + int_div (sb (mem s6) num_sectors - sb (mem s6) data_offset) (ucast (bpb_sects_per_clust b))) s6
      in set_sb sects_per_clust (ucast (bpb_sects_per_clust b)) s7)"

definition FAT_MAX_12BIT_CLUST :: u32 where "FAT_MAX_12BIT_CLUST = 4087"

text \<open>The kind of FAT; \<open>False\<close> is a return of 0.\<close>

definition fat_kind :: "fat_bpb \<Rightarrow> ('d, 'h, 'z) gstate \<Rightarrow> bool \<times> ('d, 'h, 'z) gstate" where
  "fat_kind b s =
     (if bpb_fat_length b = 0 then
        if dir_entries b \<noteq> 0 then (False, s)
        else let active_fat = ucast (bpb_flags b AND 0x000F) :: u32;
                 mirror_off = (bpb_flags b AND 0x0080 \<noteq> 0)
             in if mirror_off \<and> active_fat \<ge> ucast (num_fats b) then (False, s)
                else let t = (if mirror_off then set_sb fat_offset (sb (mem s) fat_offset + active_fat * sb (mem s) fat_length) s else s)
                     in (True, set_sb clust_eof_marker 0xFFFFFF8 (set_sb root_cluster (bpb_root_cluster b) (set_sb fat_size 8 t)))
      else if sb (mem s) root_max = 0 then (False, s)
      else let t = set_sb root_cluster (-1) s
           in if FAT_MAX_12BIT_CLUST <s sb (mem t) num_clust
              then (True, set_sb clust_eof_marker 0xFFF8 (set_sb fat_size 4 t))
              else (True, set_sb clust_eof_marker 0xFF8 (set_sb fat_size 3 t)))"

definition super_sane :: "fat_bpb \<Rightarrow> mem \<Rightarrow> bool" where
  "super_sane b m \<longleftrightarrow> ucast (bytes_per_sect b) = shift_left 1 (sb m sectsize_bits) \<and> ucast (bytes_per_sect b) = SECTOR_SIZE
     \<and> ucast (bpb_sects_per_clust b) = shift_left 1 (sb m clustsize_bits - sb m sectsize_bits) \<and> 2 <s sb m num_clust
     \<and> int_div (sb m fat_size * sb m num_clust) (2 * SECTOR_SIZE) \<le>s sb m fat_length"

text \<open>The first entry of the table holds the media descriptor.\<close>

definition media_ok :: "u32 \<Rightarrow> u32 \<Rightarrow> bool" where
  "media_ok sz first =
     (let (entry, magic) = (if sz = 8 then (first AND 0x0FFFFFFF, 0x0FFFFF00)
                            else if sz = 4 then (first AND 0xFFFF, 0xFF00) else (first AND 0xFFF, 0x0F00))
      in entry OR 8 = magic OR 0xF8)"

text \<open>\<open>rdev\<close> is \<open>devread\<close>.\<close>

type_synonym ('d, 'h, 'z) reader = "u32 \<Rightarrow> u32 \<Rightarrow> u32 \<Rightarrow> u32 \<Rightarrow> ('d, 'h, 'z) gstate \<Rightarrow> (bool \<times> ('d, 'h, 'z) gstate) option"

definition fat_mount :: "('d, 'h, 'z) reader \<Rightarrow> u32 \<Rightarrow> ('d, 'h, 'z) gstate \<Rightarrow> (bool \<times> ('d, 'h, 'z) gstate) option" where
  "fat_mount rdev stack s0 =
     do { (ok, s1) \<leftarrow> rdev 0 0 64 stack s0;
          let b = read_bpb (mem s1) stack;
          if \<not> ok then Some (False, s1)
          else if bpb_sects_per_clust b = 0 then Some (False, s1)
          else if 128 mod bpb_sects_per_clust b \<noteq> 0 then Some (False, s1)
          else
            let s2 = set_sb sectsize_bits (of_nat (log2_tmp (ucast (bytes_per_sect b)))) s1
            in if sb (mem s2) sectsize_bits \<noteq> 9 then Some (False, s2)
               else
                 let s3 = set_sb clustsize_bits (sb (mem s2) sectsize_bits + of_nat (log2_tmp (ucast (bpb_sects_per_clust b)))) s2
                 in if 15 <s sb (mem s3) sectsize_bits \<or> \<not> bpb_sane b then Some (False, s3)
                    else
                      let (known, s4) = fat_kind b (fill_super b s3)
                      in if \<not> known \<or> \<not> super_sane b (mem s4) then Some (False, s4)
                         else do { (ok', s5) \<leftarrow> rdev (sb (mem s4) fat_offset) 0 4 stack s4;
                                   if \<not> ok' then Some (False, s5)
                                   else if \<not> media_ok (sb (mem s5) fat_size) (peek32 (mem s5) stack) then Some (False, s5)
                                   else Some (True, set_sb cached_fat (- 2 * FAT_CACHE_SIZE) s5) } }"

section \<open>Reading\<close>

datatype fat_link = Linked | EndOfChain | LinkError

text \<open>Have the entry at nibble \<open>e\<close> of the table in the cache: its position there, or \<open>None\<close> if the read failed.\<close>

definition fat_cache :: "('d, 'h, 'z) reader \<Rightarrow> u32 \<Rightarrow> ('d, 'h, 'z) gstate \<Rightarrow> (u32 option \<times> ('d, 'h, 'z) gstate) option" where
  "fat_cache rdev e s =
     (let pos = e - sb (mem s) cached_fat
      in if pos + sb (mem s) fat_size > 2 * FAT_CACHE_SIZE then
           let start = e AND NOT (2 * SECTOR_SIZE - 1);
               s1 = set_sb cached_fat start s
           in do { (ok, s2) \<leftarrow> rdev (sb (mem s1) fat_offset + int_div start (2 * SECTOR_SIZE)) 0 FAT_CACHE_SIZE FAT_BUF s1;
                   Some (if ok then Some (e - start) else None, s2) }
         else Some (Some pos, s))"

definition fat_entry :: "u32 \<Rightarrow> u32 \<Rightarrow> u32 \<Rightarrow> u32" where
  "fat_entry sz pos w =
     (if sz = 3 then (if pos AND 1 \<noteq> 0 then drop_bit 4 w else w) AND 0xFFF
      else if sz = 4 then w AND 0xFFFF else w)"

text \<open>One step of the chain.\<close>

definition fat_step :: "('d, 'h, 'z) reader \<Rightarrow> ('d, 'h, 'z) gstate \<Rightarrow> (fat_link \<times> ('d, 'h, 'z) gstate) option" where
  "fat_step rdev s =
     do { (r, s1) \<leftarrow> fat_cache rdev (sb (mem s) current_cluster * sb (mem s) fat_size) s;
          case r of None \<Rightarrow> Some (LinkError, s1)
          | Some pos \<Rightarrow>
              let next_cluster = fat_entry (sb (mem s1) fat_size) pos (peek32 (mem s1) (FAT_BUF + drop_bit 1 pos))
              in Some (if next_cluster \<ge> sb (mem s1) clust_eof_marker then (EndOfChain, s1)
                       else if next_cluster < 2 \<or> next_cluster \<ge> sb (mem s1) num_clust then (LinkError, fail ERR_FSYS_CORRUPT s1)
                       else (Linked, set_sb current_cluster_num (sb (mem s1) current_cluster_num + 1) (set_sb current_cluster next_cluster s1))) }"

partial_function (option) fat_seek :: "('d, 'h, 'z) reader \<Rightarrow> u32 \<Rightarrow> ('d, 'h, 'z) gstate \<Rightarrow> (fat_link \<times> ('d, 'h, 'z) gstate) option" where
  "fat_seek rdev logical_clust s =
     (if logical_clust > sb (mem s) current_cluster_num then
        do { (r, s1) \<leftarrow> fat_step rdev s;
             if r = Linked then fat_seek rdev logical_clust s1 else Some (r, s1) }
      else Some (Linked, s))"

text \<open>The loop over the clusters; \<open>hdev\<close> is \<open>devread\<close> with the hook, for the data.  The result of its reads is not looked at.\<close>

partial_function (option) fat_read_loop :: "('d, 'h, 'z) reader \<Rightarrow> ('d, 'h, 'z) reader \<Rightarrow> u32 \<Rightarrow> u32 \<Rightarrow> u32 \<Rightarrow> u32 \<Rightarrow> u32 \<Rightarrow> ('d, 'h, 'z) gstate \<Rightarrow> (u32 \<times> ('d, 'h, 'z) gstate) option" where
  "fat_read_loop rdev hdev logical_clust offset buf len ret s =
     (if len > 0 then
        do { (r, s1) \<leftarrow> fat_seek rdev logical_clust s;
             if r = EndOfChain then Some (ret, s1) else if r = LinkError then Some (0, s1)
             else
               let m = mem s1;
                   sector = sb m data_offset + shift_left (sb m current_cluster - 2) (sb m clustsize_bits - sb m sectsize_bits);
                   room = shift_left 1 (sb m clustsize_bits) - offset;
                   sz = (if room > len then len else room)
               in do { (_, s2) \<leftarrow> hdev sector offset sz buf s1;
                       fat_read_loop rdev hdev (logical_clust + 1) 0 (buf + sz) (len - sz) (ret + sz)
                         (s2\<lparr>filepos := filepos s2 + sz\<rparr>) } }
      else Some (if errnum s \<noteq> ERR_NONE then 0 else ret, s))"

definition fat_read :: "('d, 'h, 'z) reader \<Rightarrow> ('d, 'h, 'z) reader \<Rightarrow> u32 \<Rightarrow> u32 \<Rightarrow> ('d, 'h, 'z) gstate \<Rightarrow> (u32 \<times> ('d, 'h, 'z) gstate) option" where
  "fat_read rdev hdev buf len s =
     (let m = mem s
      in if sb m file_cluster <s 0 then
           let room = sb m root_max - filepos s; sz = (if room > len then len else room)
           in do { (ok, s1) \<leftarrow> rdev (sb m root_offset) (filepos s) sz buf s;
                   Some (if ok then (sz, s1\<lparr>filepos := filepos s1 + sz\<rparr>) else (0, s1)) }
         else
           let logical_clust = drop_bit (unat (sb m clustsize_bits) mod 32) (filepos s);
               offset = filepos s AND (shift_left 1 (sb m clustsize_bits) - 1);
               s1 = (if logical_clust < sb m current_cluster_num
                     then set_sb current_cluster (sb m file_cluster) (set_sb current_cluster_num 0 s) else s)
           in fat_read_loop rdev hdev logical_clust offset buf len 0 s1)"


section \<open>Directories\<close>

definition FAT_DIRENTRY_LENGTH :: u32 where "FAT_DIRENTRY_LENGTH = 32"
definition FAT_ATTRIB_NOT_OK_MASK :: u8 where "FAT_ATTRIB_NOT_OK_MASK = 0xC8"
definition FAT_ATTRIB_DIR :: u8 where "FAT_ATTRIB_DIR = 0x10"
definition FAT_ATTRIB_LONGNAME :: u8 where "FAT_ATTRIB_LONGNAME = 0x0F"

text \<open>The 32 bytes of an entry.\<close>

definition FAT_DIRENTRY_ATTRIB :: "u8 list \<Rightarrow> u8" where "FAT_DIRENTRY_ATTRIB d = d ! 11"

definition FAT_DIRENTRY_VALID :: "u8 list \<Rightarrow> bool" where
  "FAT_DIRENTRY_VALID d \<longleftrightarrow> d ! 0 \<noteq> 0 \<and> d ! 0 \<noteq> 0xE5 \<and> FAT_DIRENTRY_ATTRIB d AND FAT_ATTRIB_NOT_OK_MASK = 0"

definition FAT_DIRENTRY_FIRST_CLUSTER :: "u8 list \<Rightarrow> u32" where
  "FAT_DIRENTRY_FIRST_CLUSTER d = ucast (le16 (d ! 26) (d ! 27)) + push_bit 16 (ucast (le16 (d ! 20) (d ! 21)))"

definition FAT_DIRENTRY_FILELENGTH :: "u8 list \<Rightarrow> u32" where
  "FAT_DIRENTRY_FILELENGTH d = le32 (d ! 28) (d ! 29) (d ! 30) (d ! 31)"

definition longdir_pos :: "nat list" where
  "longdir_pos = [1, 3, 5, 7, 9, 14, 16, 18, 20, 22, 24, 28, 30]"

text \<open>A long-name entry: \<open>slot\<close>, \<open>alias_checksum\<close> and memory afterwards.\<close>

definition fat_long_entry :: "u8 list \<Rightarrow> int \<Rightarrow> int \<Rightarrow> mem \<Rightarrow> int \<times> int \<times> mem" where
  "fat_long_entry d slot0 alias0 m0 =
     (let last_part = (d ! 0 AND 0x40 \<noteq> 0);
          id = (if last_part then d ! 0 AND 0x3F else d ! 0);
          slot = (if last_part then uint id else slot0);
          alias = (if last_part then uint (d ! 13) else alias0);
          m = (if last_part then m0(NAME_BUF + of_int (slot * 13) := 0) else m0)
      in if uint id \<noteq> slot \<or> slot = 0 \<or> alias \<noteq> uint (d ! 13) then (slot, -1, m)
         else (slot - 1, alias, poke (NAME_BUF + of_int ((slot - 1) * 13)) (map ((!) d) longdir_pos) m))"

definition fat_checksum :: "u8 list \<Rightarrow> u8" where
  "fat_checksum d = foldl (\<lambda>sum c. (drop_bit 1 sum OR push_bit 7 sum) + c) 0 (take 11 d)"

text \<open>What the conversion to the 8.3 format stores: without an extension, its first character stays behind the end.\<close>

definition fat_short_name :: "u8 list \<Rightarrow> u8 list" where
  "fat_short_name d =
     (let ok = (\<lambda>c. c \<noteq> 0 \<and> \<not> isspace_char c);
          base = takeWhile ok (map tolower_char (take 8 d));
          ext = takeWhile ok (map tolower_char (take 3 (drop 8 d)))
      in if ext = [] then base @ [0, tolower_char (d ! 8)] else base @ [ch CHR ''.''] @ ext @ [0])"

datatype fat_scanned = FoundEntry "u8 list" int int | ScanStop bool

text \<open>
  One turn of the loop over the entries of the directory for the component \<open>dirname\<close>; \<open>slash\<close> says that a slash
  follows it, and \<open>found\<close> stands for a negative \<open>print_possibilities\<close>.  \<open>Inr\<close> goes on with \<open>slot\<close>, \<open>alias_checksum\<close> and
  \<open>found\<close>.
\<close>

definition fat_compare :: "u8 list \<Rightarrow> bool \<Rightarrow> u8 list \<Rightarrow> int \<times> int \<times> bool \<Rightarrow> ('d, 'h, 'z) gstate \<Rightarrow> ((fat_scanned + int \<times> int \<times> bool) \<times> ('d, 'h, 'z) gstate) option" where
  "fat_compare dirname slash d st s =
     (case st of (slot, alias, found) \<Rightarrow>
        let complete = (alias \<noteq> -1 \<and> slot = 0);
            slot' = (if complete then -2 else slot);
            m = (if complete \<and> uint (fat_checksum d) = alias then mem s else poke NAME_BUF (fat_short_name d) (mem s));
            s1 = s\<lparr>mem := m\<rparr>;
            filename = peek m NAME_BUF 1024
        in do { r \<leftarrow> substring (dirname @ [0]) 0 filename 0 True;
                if print_possibilities s1 \<and> \<not> slash then
                  if r \<le> 0 then do { nm \<leftarrow> str_of filename 0;
                                     s2 \<leftarrow> print_a_completion nm s1;
                                     Some (Inr (slot', alias, True), s2) }
                  else Some (Inr (slot', alias, found), s1)
                else if r = 0 then Some (Inl (FoundEntry d slot' alias), s1)
                else Some (Inr (slot', alias, found), s1) })"

definition fat_turn :: "('d, 'h, 'z) reader \<Rightarrow> ('d, 'h, 'z) reader \<Rightarrow> u32 \<Rightarrow> u8 list \<Rightarrow> bool \<Rightarrow> int \<times> int \<times> bool \<Rightarrow> ('d, 'h, 'z) gstate \<Rightarrow> ((fat_scanned + int \<times> int \<times> bool) \<times> ('d, 'h, 'z) gstate) option" where
  "fat_turn rdev hdev stack dirname slash st s =
     do { (n, s1) \<leftarrow> fat_read rdev hdev stack FAT_DIRENTRY_LENGTH s;
          let d = peek (mem s1) stack 32;
          let (slot, alias, found) = st;
          if n \<noteq> FAT_DIRENTRY_LENGTH \<or> d ! 0 = 0 then
            Some (if errnum s1 \<noteq> ERR_NONE then (Inl (ScanStop False), s1)
                  else if found then (Inl (ScanStop True), s1) else (Inl (ScanStop False), fail ERR_FILE_NOT_FOUND s1))
          else if FAT_DIRENTRY_ATTRIB d = FAT_ATTRIB_LONGNAME then
            (case fat_long_entry d slot alias (mem s1) of
               (slot', alias', m) \<Rightarrow> Some (Inr (slot', alias', found), s1\<lparr>mem := m\<rparr>))
          else if \<not> FAT_DIRENTRY_VALID d then Some (Inr st, s1)
          else fat_compare dirname slash d st s1 }"

partial_function (option) fat_scan :: "('d, 'h, 'z) reader \<Rightarrow> ('d, 'h, 'z) reader \<Rightarrow> u32 \<Rightarrow> u8 list \<Rightarrow> bool \<Rightarrow> int \<times> int \<times> bool \<Rightarrow> ('d, 'h, 'z) gstate \<Rightarrow> (fat_scanned \<times> ('d, 'h, 'z) gstate) option" where
  "fat_scan rdev hdev stack dirname slash st s =
     do { (r, s1) \<leftarrow> fat_turn rdev hdev stack dirname slash st s;
          case r of Inl x \<Rightarrow> Some (x, s1) | Inr st' \<Rightarrow> fat_scan rdev hdev stack dirname slash st' s1 }"

text \<open>The loop over the components of the path.\<close>

partial_function (option) fat_walk :: "('d, 'h, 'z) reader \<Rightarrow> ('d, 'h, 'z) reader \<Rightarrow> u32 \<Rightarrow> u8 list \<Rightarrow> u8 \<Rightarrow> int \<Rightarrow> int \<Rightarrow> ('d, 'h, 'z) gstate \<Rightarrow> (bool \<times> ('d, 'h, 'z) gstate) option" where
  "fat_walk rdev hdev stack path attrib slot alias s0 =
     (let s = set_sb current_cluster_num MAXINT (s0\<lparr>filepos := 0\<rparr>)
      in if path = [] \<or> isspace_char (hd path) then
           Some (if attrib AND FAT_ATTRIB_DIR \<noteq> 0 then (False, fail ERR_BAD_FILETYPE s) else (True, s))
         else if attrib AND FAT_ATTRIB_DIR = 0 then Some (False, fail ERR_BAD_FILETYPE s)
         else
           let p = dropWhile (\<lambda>c. c = ch CHR ''/'') path;
               dirname = takeWhile (\<lambda>c. \<not> isspace_char c \<and> c \<noteq> ch CHR ''/'') p;
               rest = drop (length dirname) p
           in do { (r, s1) \<leftarrow> fat_scan rdev hdev stack dirname (rest \<noteq> [] \<and> hd rest = ch CHR ''/'') (slot, alias, False) (s\<lparr>filemax := MAXINT\<rparr>);
                   case r of ScanStop b \<Rightarrow> Some (b, s1)
                   | FoundEntry d slot' alias' \<Rightarrow>
                       fat_walk rdev hdev stack rest (FAT_DIRENTRY_ATTRIB d) slot' alias'
                         (set_sb file_cluster (FAT_DIRENTRY_FIRST_CLUSTER d) (s1\<lparr>filemax := FAT_DIRENTRY_FILELENGTH d\<rparr>)) })"

definition fat_dir :: "('d, 'h, 'z) reader \<Rightarrow> ('d, 'h, 'z) reader \<Rightarrow> u32 \<Rightarrow> u8 list \<Rightarrow> ('d, 'h, 'z) gstate \<Rightarrow> (bool \<times> ('d, 'h, 'z) gstate) option" where
  "fat_dir rdev hdev stack dirname s =
     fat_walk rdev hdev stack dirname FAT_ATTRIB_DIR (-2) (-1) (set_sb file_cluster (sb (mem s) root_cluster) s)"

text \<open>The row of \<open>fsys_table\<close>.\<close>

definition fat_driver :: "('d, 'h) disk_env \<Rightarrow> u32 \<Rightarrow> ('d, 'h, 'z) fsys" where
  "fat_driver v stack =
     (let rdev = devread v; hdev = devread (v\<lparr>disk_read_func := disk_read_hook v\<rparr>)
      in \<lparr>fsys_name = cs ''fat'', mount_func = fat_mount rdev stack, read_func = fat_read rdev hdev,
          dir_func = fat_dir rdev hdev stack, close_func = None\<rparr>)"

end
