(* ===== verification/FatSpec.thy ===== *)
theory FatSpec
imports FatFs BlockFile
begin

text \<open>
  What a FAT filesystem on a partition means: the entries of the allocation table as numbers in their nibbles, the
  chain of clusters of a file and its bytes; and the lemmas on the superblock in memory.
\<close>

section \<open>The table on the disk\<close>

text \<open>The first sector of the table, the nibbles of an entry, the first sector of the data, the end of the cluster
  numbers and the bits of a cluster's size.\<close>

record fat_geometry =
  geo_fat :: nat
  geo_nibbles :: nat
  geo_data :: nat
  geo_clusters :: nat
  geo_bits :: nat

text \<open>The number in \<open>nib\<close> nibbles from nibble \<open>e\<close> on, of the four bytes \<open>b\<close> that start with the nibble's byte.\<close>

definition nibbles_value :: "nat \<Rightarrow> nat \<Rightarrow> (nat \<Rightarrow> u8) \<Rightarrow> nat" where
  "nibbles_value nib e b =
     ((unat (b 0) + 256 * unat (b 1) + 65536 * unat (b 2) + 16777216 * unat (b 3)) div 16 ^ (e mod 2)) mod 16 ^ nib"

definition table_entry :: "(nat \<Rightarrow> u8) \<Rightarrow> fat_geometry \<Rightarrow> nat \<Rightarrow> nat" where
  "table_entry part g c =
     nibbles_value (geo_nibbles g) (c * geo_nibbles g) (\<lambda>i. part (geo_fat g * 512 + c * geo_nibbles g div 2 + i))"

text \<open>The marks from here on end a chain.\<close>

definition end_mark :: "fat_geometry \<Rightarrow> nat" where
  "end_mark g = (if geo_nibbles g = 8 then 0xFFFFFF8 else 16 ^ geo_nibbles g - 8)"

definition next_cluster :: "(nat \<Rightarrow> u8) \<Rightarrow> fat_geometry \<Rightarrow> nat \<Rightarrow> nat option" where
  "next_cluster part g c =
     (let x = table_entry part g c in if 2 \<le> x \<and> x < geo_clusters g \<and> x < end_mark g then Some x else None)"

primrec chain :: "(nat \<Rightarrow> u8) \<Rightarrow> fat_geometry \<Rightarrow> nat \<Rightarrow> nat \<Rightarrow> nat option" where
  "chain part g c 0 = Some c"
| "chain part g c (Suc n) = do { d \<leftarrow> chain part g c n; next_cluster part g d }"

text \<open>Byte \<open>i\<close> of the file that starts with cluster \<open>c\<close>.\<close>

definition cluster_sector :: "fat_geometry \<Rightarrow> nat \<Rightarrow> nat" where
  "cluster_sector g d = geo_data g + (d - 2) * 2 ^ (geo_bits g - 9)"

definition fat_file_byte :: "(nat \<Rightarrow> u8) \<Rightarrow> fat_geometry \<Rightarrow> nat \<Rightarrow> nat \<Rightarrow> u8" where
  "fat_file_byte part g c i =
     part (cluster_sector g (the (chain part g c (i div 2 ^ geo_bits g))) * 512 + i mod 2 ^ geo_bits g)"

text \<open>A filesystem that fits a partition of \<open>len\<close> sectors.\<close>

definition fat_geometry_ok :: "fat_geometry \<Rightarrow> nat \<Rightarrow> bool" where
  "fat_geometry_ok g len \<longleftrightarrow> geo_nibbles g \<in> {3, 4, 8} \<and> 9 \<le> geo_bits g \<and> geo_bits g \<le> 16
     \<and> geo_clusters g * geo_nibbles g < 2 ^ 31 \<and> len < 2 ^ 31
     \<and> geo_data g + (geo_clusters g - 2) * 2 ^ (geo_bits g - 9) \<le> len
     \<and> geo_fat g + geo_clusters g * geo_nibbles g div 1024 + 4 \<le> len"

section \<open>The superblock in memory\<close>

lemma field_index_simps [simp]:
  "field_index fat_offset = 0" "field_index fat_length = 1" "field_index fat_size = 2" "field_index root_offset = 3"
  "field_index root_max = 4" "field_index data_offset = 5" "field_index num_sectors = 6" "field_index num_clust = 7"
  "field_index clust_eof_marker = 8" "field_index sects_per_clust = 9" "field_index sectsize_bits = 10"
  "field_index clustsize_bits = 11" "field_index root_cluster = 12" "field_index cached_fat = 13"
  "field_index file_cluster = 14" "field_index current_cluster_num = 15" "field_index current_cluster = 16"
  by (simp_all add: field_index_def fat_fields_def)

lemma field_index_less: "field_index f < 17"
  by (cases f) simp_all

lemma field_index_inj: "field_index f = field_index g \<Longrightarrow> f = g"
  by (cases f; cases g) simp_all

lemma sb_poke: "sb (poke (field_address f) (bytes32 x) m) g = (if f = g then x else sb m g)"
proof (cases "f = g")
  case False
  let ?i = "field_index f" and ?j = "field_index g"
  have ij: "?i < 17" "?j < 17" "?i \<noteq> ?j" using field_index_less field_index_inj False by blast+
  have d: "field_address g - field_address f = (of_nat (4 * ?j) - of_nat (4 * ?i) :: u32)" by (simp add: field_address_def)
  have "4 \<le> unat (field_address g - field_address f) \<and> unat (field_address g - field_address f) + 4 \<le> 2 ^ 32"
  proof (cases "?i < ?j")
    case True
    then have "unat (of_nat (4 * ?j) - of_nat (4 * ?i) :: u32) = 4 * ?j - 4 * ?i" using ij by (intro unat_diff_up) simp_all
    moreover have "4 * ?i + 4 \<le> 4 * ?j" "4 * ?j \<le> 64" using True ij by simp_all
    ultimately show ?thesis unfolding d by (simp only:) (intro conjI; simp)
  next
    case False
    then have "unat (of_nat (4 * ?j) - of_nat (4 * ?i) :: u32) = 2 ^ 32 + 4 * ?j - 4 * ?i" using ij by (intro unat_diff_wrap) simp_all
    moreover have "4 * ?j + 4 \<le> 4 * ?i" "4 * ?i \<le> 64" using False ij by simp_all
    ultimately show ?thesis unfolding d by (simp only:) (intro conjI; simp)
  qed
  then show ?thesis using False by (simp add: sb_def peek32_poke_apart)
qed (simp add: sb_def)

lemma sb_set_sb [simp]: "sb (mem (set_sb f x s)) g = (if f = g then x else sb (mem s) g)"
  by (simp add: set_sb_def sb_poke)

lemma fs_region:
  assumes "q + n \<le> 0x8000" "region (FSYS_BUF + of_nat q) n x"
  shows "region FSYS_BUF 0x8000 x"
proof -
  have "x - FSYS_BUF = (x - (FSYS_BUF + of_nat q)) + of_nat q" by simp
  moreover have "unat (x - (FSYS_BUF + of_nat q) + of_nat q) = unat (x - (FSYS_BUF + of_nat q)) + q"
    using assms by (intro unat_add_of_nat) (simp add: region_def)
  ultimately show ?thesis using assms by (simp add: region_def)
qed

lemma field_address_fs: "field_address f = FSYS_BUF + of_nat (32256 + 4 * field_index f)"
  by (simp add: field_address_def FAT_SUPER_def)

lemma field_in_fs: "i < 4 \<Longrightarrow> region FSYS_BUF 0x8000 (field_address f + of_nat i)"
proof -
  assume i: "i < 4"
  have "unat (of_nat i :: u32) = i" using i by (intro unat_of_nat_small) simp
  then have "region (field_address f) 4 (field_address f + of_nat i)" using i by (simp add: region_def)
  then show ?thesis
    unfolding field_address_fs using field_index_less [of f] by (intro fs_region [of "32256 + 4 * field_index f" 4]) simp_all
qed

lemma set_sb_outside: "same_outside (region FSYS_BUF 0x8000) (mem s) (mem (set_sb f x s))"
proof -
  have "same_outside (region (field_address f) 4) (mem s) (mem (set_sb f x s))"
    unfolding set_sb_def by (simp add: poke_same_outside)
  moreover have "region (field_address f) 4 x \<Longrightarrow> region FSYS_BUF 0x8000 x" for x
    unfolding field_address_fs using field_index_less [of f] by (intro fs_region [of "32256 + 4 * field_index f" 4]) simp_all
  ultimately show ?thesis by (blast intro: same_outside_mono)
qed

lemma sb_same:
  assumes "same_outside A m m'" "\<And>x. region FSYS_BUF 0x8000 x \<Longrightarrow> \<not> A x"
  shows "sb m' f = sb m f"
  unfolding sb_def by (rule peek32_same [OF assms(1)]) (simp add: assms(2) field_in_fs)

text \<open>The cache of the table, below the superblock.\<close>

lemma cache_in_fs: "i < 2048 \<Longrightarrow> region FSYS_BUF 0x8000 (FAT_BUF + of_nat i)"
proof -
  assume i: "i < 2048"
  have "unat (of_nat (30208 + i) :: u32) = 30208 + i" using i by (intro unat_of_nat_small) simp
  then show ?thesis using i by (simp add: FAT_BUF_def region_def)
qed

lemma cache_field_apart: "i < 2048 \<Longrightarrow> \<not> region (field_address f) 4 (FAT_BUF + of_nat i)"
proof -
  assume i: "i < 2048"
  have d: "FAT_BUF + of_nat i - field_address f = (of_nat i - of_nat (2048 + 4 * field_index f) :: u32)"
    by (simp add: FAT_BUF_def field_address_fs)
  have "unat (of_nat i - of_nat (2048 + 4 * field_index f) :: u32) = 2 ^ 32 + i - (2048 + 4 * field_index f)"
    using i field_index_less [of f] by (intro unat_diff_wrap) simp_all
  then show ?thesis unfolding region_def d using field_index_less [of f] by simp
qed

lemma set_sb_cache: "i < 2048 \<Longrightarrow> mem (set_sb f x s) (FAT_BUF + of_nat i) = mem s (FAT_BUF + of_nat i)"
  unfolding set_sb_def using same_outsideD [OF poke_same_outside cache_field_apart] by simp

section \<open>Entries in words\<close>

lemma unat_power: "n < 32 \<Longrightarrow> unat (2 ^ n :: u32) = 2 ^ n"
proof -
  assume "n < 32"
  then have "(2::nat) ^ n < 2 ^ 32" by (intro power_strict_increasing) simp_all
  then have "unat (of_nat (2 ^ n) :: u32) = 2 ^ n" by (rule unat_of_nat_small)
  then show ?thesis by simp
qed

lemma or_push: "(x :: u32) < 2 ^ n \<Longrightarrow> n < 32 \<Longrightarrow> x OR push_bit n y = x + push_bit n y"
proof -
  assume x: "x < 2 ^ n" and n: "n < 32"
  have "x AND push_bit n y = 0"
  proof (rule bit_word_eqI)
    fix i
    have "\<not> bit x i" if "n \<le> i"
    proof -
      have "unat x < 2 ^ n" using x unat_power [OF n] by (simp add: word_less_nat_alt)
      also have "(2::nat) ^ n \<le> 2 ^ i" using that by (intro power_increasing) simp_all
      finally have "unat x div 2 ^ i = 0" by simp
      then have "\<not> bit (unat x) i" by (simp add: bit_iff_odd)
      then show ?thesis by (simp add: bit_unsigned_iff)
    qed
    then show "bit (x AND push_bit n y) i = bit (0 :: u32) i" by (auto simp: bit_simps)
  qed
  then show ?thesis by (simp add: disjunctive_add_eq_or)
qed

lemma unat_le32: "unat (le32 a b c d) = unat a + 256 * unat b + 65536 * unat c + 16777216 * unat d"
proof -
  have u: "unat a < 256" "unat b < 256" "unat c < 256" "unat d < 256"
    by (rule unat_u8)+
  have w: "ucast x = (of_nat (unat x) :: u32)" for x :: u8 by simp
  have p: "push_bit n (of_nat k :: u32) = of_nat (2 ^ n * k)" for n k by (simp add: push_bit_eq_mult mult.commute)
  have l: "(of_nat k :: u32) < 2 ^ n" if "k < 2 ^ n" "n < 32" for k n :: nat
  proof -
    have "(2::nat) ^ n < 2 ^ 32" using that(2) by (rule power_strict_increasing) simp
    then have "unat (of_nat k :: u32) = k" using that(1) by (intro unat_of_nat_small) linarith
    then show ?thesis using that unat_power [of n] by (simp add: word_less_nat_alt)
  qed
  have e: "of_nat k OR push_bit n (of_nat j) = (of_nat (k + 2 ^ n * j) :: u32)" if "k < 2 ^ n" "n < 32" for k n j
    using or_push [OF l [OF that] that(2), of "of_nat j"] by (simp only: p of_nat_add)
  have "le32 a b c d = of_nat (unat a + 2 ^ 8 * unat b + 2 ^ 16 * unat c + 2 ^ 24 * unat d)"
  proof -
    have "of_nat (unat a) OR push_bit 8 (of_nat (unat b)) = (of_nat (unat a + 2 ^ 8 * unat b) :: u32)"
      "of_nat (unat a + 2 ^ 8 * unat b) OR push_bit 16 (of_nat (unat c)) = (of_nat (unat a + 2 ^ 8 * unat b + 2 ^ 16 * unat c) :: u32)"
      "of_nat (unat a + 2 ^ 8 * unat b + 2 ^ 16 * unat c) OR push_bit 24 (of_nat (unat d))
        = (of_nat (unat a + 2 ^ 8 * unat b + 2 ^ 16 * unat c + 2 ^ 24 * unat d) :: u32)"
      by (intro e; use u in \<open>simp; linarith\<close> | simp)+
    then show ?thesis unfolding le32_def w by (simp only: or.assoc [symmetric])
  qed
  moreover have "unat (of_nat (unat a + 2 ^ 8 * unat b + 2 ^ 16 * unat c + 2 ^ 24 * unat d) :: u32)
      = unat a + 2 ^ 8 * unat b + 2 ^ 16 * unat c + 2 ^ 24 * unat d"
    by (intro unat_of_nat_small) (use u in \<open>simp; linarith\<close>)
  ultimately show ?thesis by simp
qed

text \<open>\<open>fat_entry\<close> takes the number in the nibbles; for short entries two bytes matter.\<close>

lemma fat_entry_value:
  assumes "nib \<in> {3, 4, 8}" "nib \<noteq> 3 \<Longrightarrow> even pos" "pos < 2 ^ 32"
  shows "unat (fat_entry (of_nat nib) (of_nat pos) (le32 (b 0) (b 1) (b 2) (b 3))) = nibbles_value nib pos b"
proof -
  define w where "w = le32 (b 0) (b 1) (b 2) (b 3)"
  have v: "unat (b 0) + 256 * unat (b 1) + 65536 * unat (b 2) + 16777216 * unat (b 3) = unat w" by (simp only: w_def unat_le32)
  have "unat (of_nat pos :: u32) = pos" using assms(3) by (rule unat_of_nat_small)
  then have "(of_nat pos :: u32) AND 1 = of_nat (pos mod 2)" using and_not_sector(2) [of 1 "of_nat pos"] by simp
  then have odd: "(of_nat pos :: u32) AND 1 \<noteq> 0 \<longleftrightarrow> odd pos" by (auto simp: mod_2_eq_odd)
  have m: "unat (x AND mask k) = unat x mod 2 ^ k" for x :: u32 and k
    unfolding take_bit_eq_mask [symmetric] unsigned_take_bit_eq by (rule take_bit_eq_mod)
  have k: "(0xFFF :: u32) = mask 12" "(0xFFFF :: u32) = mask 16" by (simp_all add: mask_eq_exp_minus_1)
  have d: "unat (drop_bit 4 w) = unat w div 16" unfolding unat_drop_bit_eq by (simp add: drop_bit_eq_div)
  have lt: "unat w < 2 ^ 32" using unat_u32 [of w] by simp
  consider "nib = 3" | "nib = 4" "even pos" | "nib = 8" "even pos" using assms by fastforce
  then show ?thesis
  proof cases
    case 1
    then show ?thesis unfolding fat_entry_def odd k nibbles_value_def v w_def [symmetric]
      by (cases "odd pos") (simp_all add: m d odd_iff_mod_2_eq_one even_iff_mod_2_eq_zero)
  next
    case 2
    then show ?thesis unfolding fat_entry_def k nibbles_value_def v w_def [symmetric] by (simp add: m)
  next
    case 3
    then show ?thesis using lt unfolding fat_entry_def nibbles_value_def v w_def [symmetric] by simp
  qed
qed

lemma nibbles_value_cong:
  assumes "nib \<in> {3, 4, 8}" "nib \<noteq> 3 \<Longrightarrow> even e" "e mod 2 = e' mod 2" "\<And>i. 2 * i < nib + e mod 2 \<Longrightarrow> b i = b' i"
  shows "nibbles_value nib e b = nibbles_value nib e' b'"
proof (cases "nib = 8")
  case True
  then have "b 0 = b' 0" "b 1 = b' 1" "b 2 = b' 2" "b 3 = b' 3" by (auto intro: assms(4))
  then show ?thesis using assms(3) by (simp add: nibbles_value_def)
next
  case False
  then have nib: "nib = 3 \<or> nib = 4 \<and> even e" using assms(1,2) by auto
  then have b: "b 0 = b' 0" "b 1 = b' 1" by (auto intro: assms(4))
  have "nibbles_value nib e b = ((unat (b 0) + 256 * unat (b 1)) div 16 ^ (e mod 2)) mod 16 ^ nib"
    if nb: "nib = 3 \<or> nib = 4 \<and> even e" for e b
  proof -
    let ?x = "unat (b 0) + 256 * unat (b 1)" and ?y = "unat (b 2) + 256 * unat (b 3)"
    have v: "nibbles_value nib e b = ((?x + 65536 * ?y) div 16 ^ (e mod 2)) mod 16 ^ nib"
      by (simp add: nibbles_value_def algebra_simps)
    have "e mod 2 = 0 \<or> e mod 2 = 1" "even e \<longleftrightarrow> e mod 2 = 0" by presburger+
    then consider "e mod 2 = 0" "nib = 3" | "e mod 2 = 0" "nib = 4" | "e mod 2 = 1" "nib = 3" using nb by metis
    then show ?thesis
    proof cases
      case 1
      have "(?x + 65536 * ?y) mod 4096 = (?x + 4096 * (16 * ?y)) mod 4096" by simp
      then show ?thesis unfolding v using 1 mod_mult_self2 [of ?x 4096 "16 * ?y"] by simp
    next
      case 2
      then show ?thesis unfolding v using mod_mult_self2 [of ?x 65536 ?y] by simp
    next
      case 3
      have "(?x + 65536 * ?y) div 16 = ?x div 16 + 4096 * ?y" using div_mult_self2 [of 16 ?x "4096 * ?y"] by simp
      then show ?thesis unfolding v using 3 mod_mult_self2 [of "?x div 16" 4096 ?y] by simp
    qed
  qed
  moreover have "nib = 3 \<or> nib = 4 \<and> even e'" using nib assms(3) by (auto simp: even_iff_mod_2_eq_zero)
  ultimately show ?thesis using nib b assms(3) by simp
qed

end
