(* ===== verification/FatRead.thy ===== *)
theory FatRead
imports FatSpec BlockOpen
begin

text \<open>
  Files on FAT are correct: against the interface of partition readers, \<open>fat_read\<close> follows the chain of clusters
  through its cache of the table and reads the bytes of the file.
\<close>

section \<open>What is in memory\<close>

definition fat_mounted :: "fat_geometry \<Rightarrow> mem \<Rightarrow> bool" where
  "fat_mounted g m \<longleftrightarrow> sb m fat_offset = of_nat (geo_fat g) \<and> sb m fat_size = of_nat (geo_nibbles g)
     \<and> sb m data_offset = of_nat (geo_data g) \<and> sb m num_clust = of_nat (geo_clusters g)
     \<and> sb m clust_eof_marker = of_nat (end_mark g) \<and> sb m sectsize_bits = 9 \<and> sb m clustsize_bits = of_nat (geo_bits g)"

text \<open>
  Window \<open>w\<close> of the table is two kilobytes from nibble \<open>1024 w\<close> on.  An entry that starts below a window and reaches
  its first nibble, or the one before, is looked up at a position of the cache that wraps.
\<close>

definition straddles :: "fat_geometry \<Rightarrow> nat \<Rightarrow> nat \<Rightarrow> bool" where
  "straddles g d w \<longleftrightarrow> d * geo_nibbles g < 1024 * w \<and> 1024 * w \<le> d * geo_nibbles g + geo_nibbles g"

definition window_of :: "fat_geometry \<Rightarrow> nat \<Rightarrow> nat" where
  "window_of g d = d * geo_nibbles g div 1024"

definition windows_clear :: "fat_geometry \<Rightarrow> nat set \<Rightarrow> bool" where
  "windows_clear g A \<longleftrightarrow> (\<forall>d \<in> A. \<forall>d' \<in> A. \<not> straddles g d (window_of g d'))"

text \<open>The cache holds nothing, or a window that the clusters \<open>A\<close> do not straddle.\<close>

definition table_cached :: "(nat \<Rightarrow> u8) \<Rightarrow> fat_geometry \<Rightarrow> nat set \<Rightarrow> mem \<Rightarrow> bool" where
  "table_cached part g A m \<longleftrightarrow> sb m cached_fat = - 4096 \<or>
     (\<exists>w. sb m cached_fat = of_nat (1024 * w) \<and> 1024 * w < 2 ^ 31 \<and> (\<forall>d \<in> A. \<not> straddles g d w)
        \<and> (\<forall>i < 2048. m (FAT_BUF + of_nat i) = part ((geo_fat g + w) * 512 + i)))"

text \<open>The clusters of the file before cluster \<open>L\<close>.\<close>

definition followed :: "(nat \<Rightarrow> u8) \<Rightarrow> fat_geometry \<Rightarrow> nat \<Rightarrow> nat \<Rightarrow> nat set" where
  "followed part g c L = {d. \<exists>i < L. chain part g c i = Some d}"

definition at_cluster :: "(nat \<Rightarrow> u8) \<Rightarrow> fat_geometry \<Rightarrow> nat \<Rightarrow> nat \<Rightarrow> mem \<Rightarrow> bool" where
  "at_cluster part g c i m \<longleftrightarrow> sb m current_cluster_num = of_nat i
     \<and> (\<exists>d. chain part g c i = Some d \<and> sb m current_cluster = of_nat d)"

text \<open>A file that starts with cluster \<open>c\<close>, open on a device that can be read in the states \<open>usable\<close>.\<close>

definition fat_ready :: "(('d, 'h, 'z) gstate \<Rightarrow> bool) \<Rightarrow> (nat \<Rightarrow> u8) \<Rightarrow> fat_geometry \<Rightarrow> nat set \<Rightarrow> nat \<Rightarrow> ('d, 'h, 'z) gstate \<Rightarrow> bool" where
  "fat_ready usable part g A c s \<longleftrightarrow> usable s \<and> errnum s = ERR_NONE \<and> fat_mounted g (mem s) \<and> table_cached part g A (mem s)
     \<and> sb (mem s) file_cluster = of_nat c"

definition fat_file :: "(('d, 'h, 'z) gstate \<Rightarrow> bool) \<Rightarrow> (nat \<Rightarrow> u8) \<Rightarrow> fat_geometry \<Rightarrow> nat set \<Rightarrow> nat \<Rightarrow> ('d, 'h, 'z) gstate \<Rightarrow> bool" where
  "fat_file usable part g A c s \<longleftrightarrow> fat_ready usable part g A c s
     \<and> (sb (mem s) current_cluster_num = MAXINT \<or> (\<exists>i. i < 2 ^ 32 \<and> at_cluster part g c i (mem s)))"

section \<open>Numbers\<close>

lemma fat_geometry_okD:
  assumes "fat_geometry_ok g len"
  shows "geo_nibbles g \<in> {3, 4, 8}" "9 \<le> geo_bits g" "geo_bits g \<le> 16" "geo_clusters g * geo_nibbles g < 2 ^ 31"
    "geo_data g + (geo_clusters g - 2) * 2 ^ (geo_bits g - 9) \<le> len" "len < 2 ^ 31"
    "geo_fat g + geo_clusters g * geo_nibbles g div 1024 + 4 \<le> len" "geo_clusters g < 2 ^ 31"
proof -
  show "geo_nibbles g \<in> {3, 4, 8}" "9 \<le> geo_bits g" "geo_bits g \<le> 16" "geo_clusters g * geo_nibbles g < 2 ^ 31"
    "geo_data g + (geo_clusters g - 2) * 2 ^ (geo_bits g - 9) \<le> len" "len < 2 ^ 31"
    "geo_fat g + geo_clusters g * geo_nibbles g div 1024 + 4 \<le> len"
    using assms by (simp_all add: fat_geometry_ok_def)
  then show "geo_clusters g < 2 ^ 31" by auto
qed

lemma chain_range:
  "chain part g c i = Some d \<Longrightarrow> 2 \<le> c \<Longrightarrow> c < geo_clusters g \<Longrightarrow> 2 \<le> d \<and> d < geo_clusters g"
  by (cases i) (auto simp: next_cluster_def Let_def bind_eq_Some_conv split: if_splits)

lemma chain_before:
  "chain part g c j \<noteq> None \<Longrightarrow> i \<le> j \<Longrightarrow> chain part g c i \<noteq> None"
proof (induction j)
  case (Suc j)
  then show ?case by (cases "i = Suc j") (auto simp: bind_eq_Some_conv le_Suc_eq)
qed simp

lemma unat_small: "n < 2 ^ 31 \<Longrightarrow> unat (of_nat n :: u32) = n"
  by (rule unat_of_nat_small) simp

lemma word_of_unat: "unat (x :: u32) = n \<Longrightarrow> x = of_nat n"
  by (drule sym) simp

lemma unat_drop: "unat (drop_bit n x :: u32) = unat x div 2 ^ n"
  unfolding unat_drop_bit_eq by (simp add: drop_bit_eq_div)

lemma sint_small:
  assumes "n < 2 ^ 31"
  shows "sint (of_nat n :: u32) = int n"
proof -
  have "sint (of_nat n :: u32) = signed_take_bit 31 (int n)" by (simp add: signed_of_nat)
  then show ?thesis using assms by (simp add: signed_take_bit_int_eq_self)
qed

lemma int_div_small:
  assumes "n < 2 ^ 31" "k < 2 ^ 31"
  shows "int_div (of_nat n) (of_nat k) = of_nat (n div k)"
proof -
  have "int n sdiv int k = int (n div k)" by (simp add: signed_divide_int_def sgn_if zdiv_int)
  then show ?thesis using sint_small [OF assms(1)] sint_small [OF assms(2)] by (simp add: int_div_def)
qed

text \<open>The position of an entry in the cache.\<close>

lemma cache_position:
  assumes "e + nib < 2 ^ 31" "1024 * w < 2 ^ 31" "\<not> (e < 1024 * w \<and> 1024 * w \<le> e + nib)"
  shows "(of_nat e - of_nat (1024 * w) :: u32) + of_nat nib > 4096 \<longleftrightarrow> \<not> (1024 * w \<le> e \<and> e - 1024 * w + nib \<le> 4096)"
proof (cases "1024 * w \<le> e")
  case True
  have "of_nat e - of_nat (1024 * w) + of_nat nib = (of_nat (e - 1024 * w + nib) :: u32)"
    using True by (simp only: of_nat_diff of_nat_add)
  moreover have "unat (of_nat (e - 1024 * w + nib) :: u32) = e - 1024 * w + nib" using assms by (intro unat_small) linarith
  ultimately show ?thesis using True by (simp only: word_less_nat_alt) (simp add: not_le)
next
  case False
  have "unat (of_nat e - of_nat (1024 * w) :: u32) = 2 ^ 32 + e - 1024 * w"
    using False assms by (intro unat_diff_wrap) simp_all
  moreover from this have "unat (of_nat e - of_nat (1024 * w) + of_nat nib :: u32) = 2 ^ 32 + e - 1024 * w + nib"
    using False assms by (subst unat_add_of_nat) simp_all
  ultimately show ?thesis using False assms by (simp add: word_less_nat_alt)
qed

lemma empty_position: "e + nib < 2 ^ 31 \<Longrightarrow> 0 < nib \<Longrightarrow> (of_nat e - (- 4096) :: u32) + of_nat nib > 4096"
proof -
  assume e: "e + nib < 2 ^ 31" "0 < nib"
  have "of_nat e - (- 4096) + of_nat nib = (of_nat (e + 4096 + nib) :: u32)" by simp
  moreover have "unat (of_nat (e + 4096 + nib) :: u32) = e + 4096 + nib" using e by (intro unat_of_nat_small) simp
  ultimately show ?thesis using e by (simp only: word_less_nat_alt) simp
qed

text \<open>The sector of a cluster, and the bytes of a turn.\<close>

lemma sector_word:
  assumes g: "fat_geometry_ok g len" and e: "2 \<le> e" "x = of_nat e"
  shows "of_nat (geo_data g) + shift_left (x - 2) (of_nat (geo_bits g) - 9) = of_nat (cluster_sector g e)"
proof -
  note gd = fat_geometry_okD [OF g]
  have "(of_nat (geo_bits g) - 9 :: u32) = of_nat (geo_bits g - 9)" using gd(2) by (simp add: of_nat_diff)
  moreover have "unat (of_nat (geo_bits g - 9) :: u32) = geo_bits g - 9" using gd(3) by (intro unat_small) simp
  moreover have "x - 2 = of_nat (e - 2)" using e by (simp add: of_nat_diff)
  ultimately have "shift_left (x - 2) (of_nat (geo_bits g) - 9) = push_bit (geo_bits g - 9) (of_nat (e - 2))"
    using gd(3) by (simp add: shift_left_def)
  then show ?thesis by (simp add: cluster_sector_def push_bit_of_nat push_bit_eq_mult)
qed

lemma room_word:
  assumes g: "fat_geometry_ok g len" and n: "n < 2 ^ 31"
  shows "(let room = shift_left 1 (of_nat (geo_bits g)) - of_nat (fp mod 2 ^ geo_bits g) in if room > of_nat n then of_nat n else room)
    = (of_nat (min n (2 ^ geo_bits g - fp mod 2 ^ geo_bits g)) :: u32)"
proof -
  let ?k = "geo_bits g"
  let ?room = "2 ^ ?k - fp mod 2 ^ ?k"
  note gd = fat_geometry_okD [OF g]
  have "unat (of_nat ?k :: u32) = ?k" using gd(3) by (intro unat_small) simp
  then have "shift_left 1 (of_nat ?k) = (of_nat (2 ^ ?k) :: u32)" using gd(3) by (simp add: shift_left_def push_bit_eq_mult)
  moreover have "of_nat (2 ^ ?k) - of_nat (fp mod 2 ^ ?k) = (of_nat ?room :: u32)" by (simp add: of_nat_diff less_imp_le)
  ultimately have w: "shift_left 1 (of_nat ?k) - of_nat (fp mod 2 ^ ?k) = (of_nat ?room :: u32)" by (simp only:)
  have "(2::nat) ^ ?k \<le> 2 ^ 16" using gd(3) by (intro power_increasing) simp_all
  then have "?room < 2 ^ 31" by simp
  then have "(of_nat ?room :: u32) > of_nat n \<longleftrightarrow> ?room > n" using n by (simp only: word_less_nat_alt unat_small)
  then show ?thesis unfolding w Let_def min_def by (cases "n < ?room") simp_all
qed

section \<open>Memory the driver changes\<close>

definition fat_area :: "u32 \<Rightarrow> bool" where
  "fat_area x \<longleftrightarrow> io_area x \<or> region FSYS_BUF 0x8000 x"

lemma set_sb_fat: "same_outside fat_area (mem s) (mem (set_sb f x s))"
  by (rule same_outside_mono [OF set_sb_outside]) (simp add: fat_area_def)

lemma field_not_cache: "i < 4 \<Longrightarrow> \<not> (io_area (field_address f + of_nat i) \<or> region FAT_BUF 2048 (field_address f + of_nat i))"
proof -
  assume i: "i < 4"
  have "field_address f + of_nat i - FAT_BUF = (of_nat (2048 + 4 * field_index f + i) :: u32)"
    by (simp add: FAT_BUF_def field_address_fs)
  moreover have "unat (of_nat (2048 + 4 * field_index f + i) :: u32) = 2048 + 4 * field_index f + i"
    using i field_index_less [of f] by (intro unat_of_nat_small) simp
  ultimately have "unat (field_address f + of_nat i - FAT_BUF) = 2048 + 4 * field_index f + i" by (simp only:)
  then have "\<not> region FAT_BUF 2048 (field_address f + of_nat i)" by (simp add: region_def)
  then show ?thesis using fsys_not_io [OF field_in_fs [OF i]] by blast
qed

lemma sb_cache_same: "same_outside (\<lambda>x. io_area x \<or> region FAT_BUF 2048 x) m m' \<Longrightarrow> sb m' f = sb m f"
  unfolding sb_def by (erule peek32_same) (rule field_not_cache)

lemma cache_region: "region FAT_BUF 2048 x \<Longrightarrow> region FSYS_BUF 0x8000 x"
  unfolding FAT_BUF_def using fs_region [of 30208 2048 x] by simp

lemma dest_ok_cache: "unat upper < 2 ^ 22 - 1024 \<Longrightarrow> dest_ok upper FAT_BUF 2048"
  by (rule dest_ok_low) (simp_all add: FAT_BUF_def FSYS_BUF_def)

lemma fat_mounted_same: "fat_mounted g m \<Longrightarrow> (\<And>f. sb m' f = sb m f) \<Longrightarrow> fat_mounted g m'"
  by (simp add: fat_mounted_def)

lemma table_cached_same:
  "table_cached part g A m \<Longrightarrow> sb m' cached_fat = sb m cached_fat \<Longrightarrow> (\<And>i. i < 2048 \<Longrightarrow> m' (FAT_BUF + of_nat i) = m (FAT_BUF + of_nat i))
    \<Longrightarrow> table_cached part g A m'"
  unfolding table_cached_def by auto

text \<open>An entry inside the cached window is the entry of the table.\<close>

lemma cached_entry:
  assumes nib: "geo_nibbles g \<in> {3, 4, 8}" and e: "d * geo_nibbles g = 1024 * w + pos" "pos + geo_nibbles g \<le> 4096"
    and win: "\<forall>i < 2048. m (FAT_BUF + of_nat i) = part ((geo_fat g + w) * 512 + i)"
  shows "fat_entry (of_nat (geo_nibbles g)) (of_nat pos) (peek32 m (FAT_BUF + drop_bit 1 (of_nat pos))) = of_nat (table_entry part g d)"
proof -
  let ?nib = "geo_nibbles g"
  have pos: "pos < 4096" using nib e(2) by auto
  define b where "b i = m (FAT_BUF + of_nat (pos div 2 + i))" for i
  have "unat (of_nat pos :: u32) = pos" using pos by (intro unat_small) simp
  then have "unat (drop_bit 1 (of_nat pos) :: u32) = pos div 2" unfolding unat_drop by simp
  then have "drop_bit 1 (of_nat pos) = (of_nat (pos div 2) :: u32)" by (rule word_of_unat)
  then have pk: "peek32 m (FAT_BUF + drop_bit 1 (of_nat pos)) = le32 (b 0) (b 1) (b 2) (b 3)"
    by (simp add: peek32_def b_def ac_simps)
  have even: "even pos" if "?nib \<noteq> 3"
  proof -
    have "even (d * ?nib)" using nib that by auto
    then show ?thesis unfolding e(1) by simp
  qed
  have "unat (fat_entry (of_nat ?nib) (of_nat pos) (peek32 m (FAT_BUF + drop_bit 1 (of_nat pos)))) = nibbles_value ?nib pos b"
    unfolding pk using pos by (intro fat_entry_value nib even) simp_all
  also have "\<dots> = nibbles_value ?nib (d * ?nib) (\<lambda>i. part (geo_fat g * 512 + d * ?nib div 2 + i))"
  proof (rule nibbles_value_cong [OF nib even])
    show "pos mod 2 = d * ?nib mod 2" unfolding e(1) using mod_mult_self2 [of pos 2 "512 * w"] by (simp add: add.commute)
    fix i assume i: "2 * i < ?nib + pos mod 2"
    have half: "d * ?nib div 2 = 512 * w + pos div 2" unfolding e(1) by linarith
    have "pos div 2 + i < 2048"
    proof (cases "?nib = 3")
      case True
      then show ?thesis using i e(2) by (cases "even pos") (auto elim!: evenE oddE)
    next
      case False
      then have "even pos" "?nib = 4 \<or> ?nib = 8" using even nib by auto
      then show ?thesis using i e(2) by (auto elim!: evenE)
    qed
    then have "b i = part ((geo_fat g + w) * 512 + (pos div 2 + i))" using win unfolding b_def by blast
    then show "b i = part (geo_fat g * 512 + d * ?nib div 2 + i)"
      unfolding half by (simp add: add_mult_distrib mult.commute add.assoc)
  qed
  finally show ?thesis unfolding table_entry_def by (rule word_of_unat)
qed

lemma end_mark_less: "geo_nibbles g \<in> {3, 4, 8} \<Longrightarrow> end_mark g < 2 ^ 32"
  by (auto simp: end_mark_def)

lemma next_cluster_word:
  assumes "geo_nibbles g \<in> {3, 4, 8}" "geo_clusters g < 2 ^ 31" "next_cluster part g d = Some d'"
  shows "table_entry part g d = d'" "\<not> (of_nat (end_mark g) :: u32) \<le> of_nat d'"
    "\<not> ((of_nat d' :: u32) < 2 \<or> (of_nat (geo_clusters g) :: u32) \<le> of_nat d')"
proof -
  have d': "table_entry part g d = d'" "2 \<le> d'" "d' < geo_clusters g" "d' < end_mark g"
    using assms(3) by (auto simp: next_cluster_def Let_def split: if_splits)
  then show "table_entry part g d = d'" by simp
  have u: "unat (of_nat d' :: u32) = d'" "unat (of_nat (geo_clusters g) :: u32) = geo_clusters g"
    using d'(3) assms(2) by (auto intro!: unat_small)
  have "unat (of_nat (end_mark g) :: u32) = end_mark g" by (rule unat_of_nat_small [OF end_mark_less [OF assms(1)]])
  then show "\<not> (of_nat (end_mark g) :: u32) \<le> of_nat d'" using u d'(4) by (simp add: word_le_nat_alt)
  show "\<not> ((of_nat d' :: u32) < 2 \<or> (of_nat (geo_clusters g) :: u32) \<le> of_nat d')"
    using u d'(2,3) by (simp add: word_le_nat_alt word_less_nat_alt)
qed

section \<open>The cache of the table\<close>

locale fat_reader = meta: partition_reader rdev part 9 len usable + data: partition_reader hdev part 9 len usable
  for rdev hdev :: "('d, 'h, 'z) reader" and part :: "nat \<Rightarrow> u8" and len :: nat and usable :: "('d, 'h, 'z) gstate \<Rightarrow> bool"
begin

lemma set_sb_usable: "usable s \<Longrightarrow> usable (set_sb f x s)"
proof -
  assume u: "usable s"
  have "mem (set_sb f x s) y = mem s y" if "io_area y" for y
    using that fsys_not_io by (intro same_outsideD [OF set_sb_outside]) blast
  then have "same_device s (set_sb f x s)" by (simp add: same_device_def set_sb_def)
  then show ?thesis by (rule meta.stable [OF u])
qed

lemma fat_cache_loads:
  assumes u: "usable s" and up: "unat (mem_upper s) < 2 ^ 22 - 1024" and g: "fat_geometry_ok g len" and mo: "fat_mounted g (mem s)"
    and e: "e \<le> geo_clusters g * geo_nibbles g"
    and miss: "(of_nat e - sb (mem s) cached_fat) + of_nat (geo_nibbles g) > (4096 :: u32)"
  shows "\<exists>m t h. let s' = s\<lparr>mem := m, errnum := ERR_NONE, buf_track := t, hook := h\<rparr>
     in fat_cache rdev (of_nat e) s = Some (Some (of_nat (e mod 1024)), s') \<and> usable s' \<and> same_outside fat_area (mem s) m
       \<and> sb m cached_fat = of_nat (1024 * (e div 1024)) \<and> (\<forall>f. f \<noteq> cached_fat \<longrightarrow> sb m f = sb (mem s) f)
       \<and> (\<forall>i < 2048. m (FAT_BUF + of_nat i) = part ((geo_fat g + e div 1024) * 512 + i))"
proof -
  note gd = fat_geometry_okD [OF g]
  let ?w = "e div 1024"
  have e31: "e < 2 ^ 31" using e gd(4) by linarith
  have "e div 1024 \<le> geo_clusters g * geo_nibbles g div 1024" using e by (rule div_le_mono)
  then have w: "geo_fat g + ?w + 4 \<le> len" "geo_fat g + ?w < 2 ^ 31" "?w * 1024 < 2 ^ 31" using gd(6,7) e31 by linarith+
  define s1 where "s1 = set_sb cached_fat (of_nat (?w * 1024)) s"
  have u1: "usable s1" unfolding s1_def using u by (rule set_sb_usable)
  have dk: "dest_ok (mem_upper s1) FAT_BUF 2048" using up by (intro dest_ok_cache) (simp add: s1_def set_sb_def)
  have sec: "geo_fat g + ?w + (0 + 2048 - 1) div 2 ^ 9 < len" using w(1) by simp
  obtain m t h where r: "rdev (of_nat (geo_fat g + ?w)) (of_nat 0) (of_nat 2048) FAT_BUF s1
      = Some (True, s1\<lparr>mem := m, errnum := ERR_NONE, buf_track := t, hook := h\<rparr>)"
    "usable (s1\<lparr>mem := m, errnum := ERR_NONE, buf_track := t, hook := h\<rparr>)"
    "same_outside (\<lambda>x. io_area x \<or> region FAT_BUF 2048 x) (mem s1) m"
    "\<forall>i < 2048. m (FAT_BUF + of_nat i) = part ((geo_fat g + ?w) * 2 ^ 9 + 0 + i)"
    using meta.inside [OF u1 _ _ _ w(2) sec dk] unfolding Let_def by auto
  have s1r: "s1\<lparr>mem := m, errnum := ERR_NONE, buf_track := t, hook := h\<rparr> = s\<lparr>mem := m, errnum := ERR_NONE, buf_track := t, hook := h\<rparr>"
    by (simp add: s1_def set_sb_def)
  have start: "(of_nat e :: u32) AND NOT (2 * SECTOR_SIZE - 1) = of_nat (?w * 1024)"
    using and_not_sector(1) [of 10 "of_nat e"] unat_small [OF e31] by (simp add: SECTOR_SIZE_def)
  have dv: "int_div (of_nat (?w * 1024)) (2 * SECTOR_SIZE) = of_nat ?w"
    using int_div_small [OF w(3), of 1024] by (simp add: SECTOR_SIZE_def)
  have rest: "(of_nat e - of_nat (?w * 1024) :: u32) = of_nat (e mod 1024)"
    by (simp only: of_nat_diff [symmetric] div_times_less_eq_dividend minus_div_mult_eq_mod)
  have off: "sb (mem s1) fat_offset = of_nat (geo_fat g)" using mo by (simp add: s1_def fat_mounted_def)
  have "fat_cache rdev (of_nat e) s = Some (Some (of_nat (e mod 1024)), s\<lparr>mem := m, errnum := ERR_NONE, buf_track := t, hook := h\<rparr>)"
    using miss mo r(1) unfolding fat_cache_def Let_def start s1_def [symmetric] off dv rest s1r
    by (simp add: FAT_CACHE_SIZE_def fat_mounted_def)
  moreover have "sb m f = (if f = cached_fat then of_nat (1024 * ?w) else sb (mem s) f)" for f
    unfolding sb_cache_same [OF r(3)] s1_def by (simp add: mult.commute)
  moreover have "same_outside fat_area (mem s) m"
  proof (rule same_outside_trans)
    show "same_outside fat_area (mem s) (mem s1)" unfolding s1_def by (rule set_sb_fat)
    show "same_outside fat_area (mem s1) m"
      by (rule same_outside_mono [OF r(3)]) (auto simp: fat_area_def intro: cache_region)
  qed
  ultimately show ?thesis using r(2,4) unfolding s1r Let_def
    by (intro exI [of _ m] exI [of _ t] exI [of _ h]) simp
qed

text \<open>Afterwards the entry of cluster \<open>d\<close> is in the cache.\<close>

lemma fat_cache_finds:
  assumes r: "fat_ready usable part g A c s" and up: "unat (mem_upper s) < 2 ^ 22 - 1024" and g: "fat_geometry_ok g len"
    and d: "d \<in> A" "d < geo_clusters g" and cl: "windows_clear g A"
  shows "\<exists>m t h pos. let s' = s\<lparr>mem := m, buf_track := t, hook := h\<rparr>
     in fat_cache rdev (of_nat (d * geo_nibbles g)) s = Some (Some (of_nat pos), s') \<and> fat_ready usable part g A c s'
       \<and> same_outside fat_area (mem s) m \<and> (\<forall>f. f \<noteq> cached_fat \<longrightarrow> sb m f = sb (mem s) f)
       \<and> pos + geo_nibbles g \<le> 4096
       \<and> (\<exists>w. d * geo_nibbles g = 1024 * w + pos \<and> (\<forall>i < 2048. m (FAT_BUF + of_nat i) = part ((geo_fat g + w) * 512 + i)))"
proof -
  note gd = fat_geometry_okD [OF g]
  let ?nib = "geo_nibbles g"
  define e where "e = d * ?nib"
  have ready: "usable s" "errnum s = ERR_NONE" "fat_mounted g (mem s)" "table_cached part g A (mem s)" "sb (mem s) file_cluster = of_nat c"
    using r by (simp_all add: fat_ready_def)
  have "(d + 1) * ?nib \<le> geo_clusters g * ?nib" using d(2) by (intro mult_le_mono1) simp
  then have e: "e + ?nib \<le> geo_clusters g * ?nib" by (simp add: e_def)
  then have e31: "e + ?nib < 2 ^ 31" using gd(4) by linarith
  have nib: "0 < ?nib" "?nib \<le> 8" using gd(1) by auto
  show ?thesis
  proof (cases "(of_nat e - sb (mem s) cached_fat) + of_nat ?nib > (4096 :: u32)")
    case True
    obtain m t h where l: "fat_cache rdev (of_nat e) s = Some (Some (of_nat (e mod 1024)), s\<lparr>mem := m, errnum := ERR_NONE, buf_track := t, hook := h\<rparr>)"
      "usable (s\<lparr>mem := m, errnum := ERR_NONE, buf_track := t, hook := h\<rparr>)" "same_outside fat_area (mem s) m"
      "sb m cached_fat = of_nat (1024 * (e div 1024))" "\<forall>f. f \<noteq> cached_fat \<longrightarrow> sb m f = sb (mem s) f"
      "\<forall>i < 2048. m (FAT_BUF + of_nat i) = part ((geo_fat g + e div 1024) * 512 + i)"
      using fat_cache_loads [OF ready(1) up g ready(3) _ True] e unfolding Let_def by auto
    have s': "s\<lparr>mem := m, errnum := ERR_NONE, buf_track := t, hook := h\<rparr> = s\<lparr>mem := m, buf_track := t, hook := h\<rparr>"
      using ready(2) by simp
    have "fat_mounted g m" using ready(3) l(5) by (simp add: fat_mounted_def)
    moreover have "table_cached part g A m"
    proof -
      have "\<forall>d' \<in> A. \<not> straddles g d' (e div 1024)" using cl d(1) by (simp add: windows_clear_def window_of_def e_def)
      moreover have "1024 * (e div 1024) < 2 ^ 31" using e31 by linarith
      ultimately show ?thesis using l(4,6) unfolding table_cached_def by blast
    qed
    ultimately have "fat_ready usable part g A c (s\<lparr>mem := m, buf_track := t, hook := h\<rparr>)"
      using l(2,5) ready(2,5) unfolding s' by (simp add: fat_ready_def)
    moreover have "e mod 1024 < 1024" by simp
    then have "e mod 1024 + ?nib \<le> 4096" using nib(2) by linarith
    note this
    moreover have "\<exists>w. e = 1024 * w + e mod 1024 \<and> (\<forall>i < 2048. m (FAT_BUF + of_nat i) = part ((geo_fat g + w) * 512 + i))"
      using l(6) by (intro exI [of _ "e div 1024"]) simp
    ultimately show ?thesis using l(1,3,5) unfolding s' Let_def e_def [symmetric]
      by - (rule exI [of _ m], rule exI [of _ t], rule exI [of _ h], rule exI [of _ "e mod 1024"], intro conjI)
  next
    case False
    then have "sb (mem s) cached_fat \<noteq> - 4096" using empty_position [OF e31 nib(1)] by metis
    then obtain w where w: "sb (mem s) cached_fat = of_nat (1024 * w)" "1024 * w < 2 ^ 31" "\<forall>d \<in> A. \<not> straddles g d w"
      "\<forall>i < 2048. mem s (FAT_BUF + of_nat i) = part ((geo_fat g + w) * 512 + i)"
      using ready(4) by (auto simp: table_cached_def)
    have in_w: "1024 * w \<le> e" "e - 1024 * w + ?nib \<le> 4096"
      using False cache_position [OF e31 w(2)] w(3) d(1) unfolding w(1) by (auto simp: straddles_def e_def)
    have "fat_cache rdev (of_nat e) s = Some (Some (of_nat e - of_nat (1024 * w)), s)"
      using False ready(3) w(1) by (simp add: fat_cache_def fat_mounted_def FAT_CACHE_SIZE_def Let_def)
    also have "(of_nat e - of_nat (1024 * w) :: u32) = of_nat (e - 1024 * w)" using in_w(1) by (rule of_nat_diff [symmetric])
    finally have f: "fat_cache rdev (of_nat e) s = Some (Some (of_nat (e - 1024 * w)), s)" .
    have "\<exists>w'. e = 1024 * w' + (e - 1024 * w) \<and> (\<forall>i < 2048. mem s (FAT_BUF + of_nat i) = part ((geo_fat g + w') * 512 + i))"
      using in_w(1) w(4) by (intro exI [of _ w]) simp
    then show ?thesis using f r in_w(2) unfolding Let_def e_def [symmetric]
      by - (rule exI [of _ "mem s"], rule exI [of _ "buf_track s"], rule exI [of _ "hook s"], rule exI [of _ "e - 1024 * w"], simp)
  qed
qed

section \<open>Following the chain\<close>

lemma set_sb_ready:
  assumes "fat_ready usable part g A c s" "f = current_cluster \<or> f = current_cluster_num"
  shows "fat_ready usable part g A c (set_sb f x s)"
proof -
  have ne: "f \<noteq> fat_offset" "f \<noteq> fat_size" "f \<noteq> data_offset" "f \<noteq> num_clust" "f \<noteq> clust_eof_marker" "f \<noteq> sectsize_bits"
    "f \<noteq> clustsize_bits" "f \<noteq> cached_fat" "f \<noteq> file_cluster"
    using assms(2) by auto
  have r: "usable s" "errnum s = ERR_NONE" "fat_mounted g (mem s)" "table_cached part g A (mem s)" "sb (mem s) file_cluster = of_nat c"
    using assms(1) by (simp_all add: fat_ready_def)
  have "table_cached part g A (mem (set_sb f x s))"
    by (rule table_cached_same [OF r(4)]) (simp_all add: ne set_sb_cache)
  moreover have "fat_mounted g (mem (set_sb f x s))" using r(3) by (simp add: fat_mounted_def ne)
  moreover have "errnum (set_sb f x s) = ERR_NONE" using r(2) by (simp add: set_sb_def)
  moreover have "sb (mem (set_sb f x s)) file_cluster = of_nat c" using r(5) by (simp add: ne)
  ultimately show ?thesis using set_sb_usable [OF r(1)] unfolding fat_ready_def by blast
qed

lemma fat_step_follows:
  assumes r: "fat_ready usable part g (followed part g c L) c s" and up: "unat (mem_upper s) < 2 ^ 22 - 1024"
    and g: "fat_geometry_ok g len" and c: "2 \<le> c" "c < geo_clusters g" and cl: "windows_clear g (followed part g c L)"
    and i: "i < L" "at_cluster part g c i (mem s)" and nx: "chain part g c (Suc i) \<noteq> None"
  shows "\<exists>m t h. let s' = s\<lparr>mem := m, buf_track := t, hook := h\<rparr>
     in fat_step rdev s = Some (Linked, s') \<and> fat_ready usable part g (followed part g c L) c s'
       \<and> same_outside fat_area (mem s) m \<and> at_cluster part g c (Suc i) m"
proof -
  note gd = fat_geometry_okD [OF g]
  let ?A = "followed part g c L"
  obtain d where d: "chain part g c i = Some d" "sb (mem s) current_cluster = of_nat d" "sb (mem s) current_cluster_num = of_nat i"
    using i(2) by (auto simp: at_cluster_def)
  obtain d' where d': "chain part g c (Suc i) = Some d'" "next_cluster part g d = Some d'" using nx d(1) by auto
  have dA: "d \<in> ?A" "d < geo_clusters g" using d(1) i(1) chain_range [OF d(1) c] by (auto simp: followed_def)
  obtain m t h pos w where f: "fat_cache rdev (of_nat (d * geo_nibbles g)) s = Some (Some (of_nat pos), s\<lparr>mem := m, buf_track := t, hook := h\<rparr>)"
    "fat_ready usable part g ?A c (s\<lparr>mem := m, buf_track := t, hook := h\<rparr>)"
    "same_outside fat_area (mem s) m" "\<forall>f. f \<noteq> cached_fat \<longrightarrow> sb m f = sb (mem s) f" "pos + geo_nibbles g \<le> 4096"
    "d * geo_nibbles g = 1024 * w + pos" "\<forall>i < 2048. m (FAT_BUF + of_nat i) = part ((geo_fat g + w) * 512 + i)"
    using fat_cache_finds [OF r up g dA cl] unfolding Let_def by blast
  let ?s1 = "s\<lparr>mem := m, buf_track := t, hook := h\<rparr>"
  have mo: "fat_mounted g (mem s)" "fat_mounted g m" using r f(2) by (simp_all add: fat_ready_def)
  note en = cached_entry [OF gd(1) f(6,5,7)]
  note nw = next_cluster_word [OF gd(1,8) d'(2)]
  define s2 where "s2 = set_sb current_cluster_num (of_nat (Suc i)) (set_sb current_cluster (of_nat d') ?s1)"
  obtain m2 where m2: "s2 = s\<lparr>mem := m2, buf_track := t, hook := h\<rparr>"
    by (rule that [of "mem s2"]) (simp add: s2_def set_sb_def)
  have num: "sb m current_cluster_num = of_nat i" using f(4) d(3) by simp
  have "sb (mem s) current_cluster * sb (mem s) fat_size = of_nat (d * geo_nibbles g)"
    using d(2) mo(1) by (simp add: fat_mounted_def)
  then have "fat_step rdev s = Some (Linked, s2)"
    using f(1) en nw mo(2) num by (simp add: fat_step_def fat_mounted_def Let_def add.commute s2_def)
  moreover have "fat_ready usable part g ?A c s2" unfolding s2_def by (intro set_sb_ready f(2)) simp_all
  moreover have "same_outside fat_area (mem s) (mem s2)"
  proof -
    have "same_outside fat_area (mem ?s1) (mem s2)" unfolding s2_def by (rule same_outside_trans [OF set_sb_fat set_sb_fat])
    then show ?thesis using f(3) by (simp add: same_outside_trans)
  qed
  moreover have "at_cluster part g c (Suc i) (mem s2)" using d'(1) by (simp add: at_cluster_def s2_def)
  ultimately show ?thesis unfolding m2 Let_def
    by - (rule exI [of _ m2], rule exI [of _ t], rule exI [of _ h], simp)
qed

lemma fat_seek_reaches:
  assumes "fat_ready usable part g (followed part g c L) c s" "unat (mem_upper s) < 2 ^ 22 - 1024"
    and "fat_geometry_ok g len" "2 \<le> c" "c < geo_clusters g" "windows_clear g (followed part g c L)"
    and "i \<le> j" "j \<le> L" "j < 2 ^ 32" "at_cluster part g c i (mem s)" "chain part g c j \<noteq> None"
  shows "\<exists>m t h. let s' = s\<lparr>mem := m, buf_track := t, hook := h\<rparr>
     in fat_seek rdev (of_nat j) s = Some (Linked, s') \<and> fat_ready usable part g (followed part g c L) c s'
       \<and> same_outside fat_area (mem s) m \<and> at_cluster part g c j m"
  using assms
proof (induction "j - i" arbitrary: i s)
  case 0
  then have "i = j" by simp
  then have "fat_seek rdev (of_nat j) s = Some (Linked, s)"
    using "0.prems"(10) by (subst fat_seek.simps) (simp add: at_cluster_def)
  then show ?case using "0.prems"(1,10) \<open>i = j\<close> unfolding Let_def
    by - (rule exI [of _ "mem s"], rule exI [of _ "buf_track s"], rule exI [of _ "hook s"], simp)
next
  case (Suc k)
  have i: "i < j" "i < L" using Suc.hyps(2) Suc.prems(8) by linarith+
  have "unat (of_nat i :: u32) = i" "unat (of_nat j :: u32) = j" using i(1) Suc.prems(9) by (auto intro!: unat_of_nat_small)
  then have gt: "(of_nat j :: u32) > sb (mem s) current_cluster_num"
    using Suc.prems(10) i(1) by (simp add: at_cluster_def word_less_nat_alt)
  obtain m t h where st: "fat_step rdev s = Some (Linked, s\<lparr>mem := m, buf_track := t, hook := h\<rparr>)"
    "fat_ready usable part g (followed part g c L) c (s\<lparr>mem := m, buf_track := t, hook := h\<rparr>)"
    "same_outside fat_area (mem s) m" "at_cluster part g c (Suc i) m"
    using fat_step_follows [OF Suc.prems(1-6) i(2) Suc.prems(10)] chain_before [OF Suc.prems(11), of "Suc i"] i(1)
    unfolding Let_def by auto
  let ?s1 = "s\<lparr>mem := m, buf_track := t, hook := h\<rparr>"
  have k: "k = j - Suc i" and up: "unat (mem_upper ?s1) < 2 ^ 22 - 1024" and i1: "Suc i \<le> j" and at: "at_cluster part g c (Suc i) (mem ?s1)"
    using Suc.hyps(2) Suc.prems(2) i(1) st(4) by simp_all
  obtain m' t' h' where rest: "fat_seek rdev (of_nat j) ?s1 = Some (Linked, ?s1\<lparr>mem := m', buf_track := t', hook := h'\<rparr>)"
    "fat_ready usable part g (followed part g c L) c (?s1\<lparr>mem := m', buf_track := t', hook := h'\<rparr>)"
    "same_outside fat_area m m'" "at_cluster part g c j m'"
    using Suc.hyps(1) [OF k st(2) up Suc.prems(3-6) i1 Suc.prems(8,9) at Suc.prems(11)] unfolding Let_def by auto
  have "fat_seek rdev (of_nat j) s = fat_seek rdev (of_nat j) ?s1" using gt st(1) by (subst fat_seek.simps) simp
  then show ?case using rest same_outside_trans [OF st(3) rest(3)] unfolding Let_def
    by - (rule exI [of _ m'], rule exI [of _ t'], rule exI [of _ h'], simp)
qed

section \<open>Reading\<close>

lemma sb_apart_same:
  assumes "same_outside (\<lambda>x. io_area x \<or> region B n x) m m'" "fs_clear B n"
  shows "sb m' f = sb m f"
  by (rule sb_same [OF assms(1)]) (use assms(2) fsys_not_io in \<open>auto simp: fs_clear_def\<close>)

text \<open>What is read for the file does not touch the driver's memory.\<close>

lemma read_ready:
  assumes r: "fat_ready usable part g A c s" and so: "same_outside (\<lambda>x. io_area x \<or> region B n x) (mem s) m" and cl: "fs_clear B n"
    and u: "usable (s\<lparr>mem := m, errnum := ERR_NONE, buf_track := t, hook := h\<rparr>)"
  shows "fat_ready usable part g A c (s\<lparr>mem := m, errnum := ERR_NONE, buf_track := t, hook := h, filepos := p\<rparr>)"
proof -
  note same = sb_apart_same [OF so cl]
  have s: "errnum s = ERR_NONE" "fat_mounted g (mem s)" "table_cached part g A (mem s)" "sb (mem s) file_cluster = of_nat c"
    using r by (simp_all add: fat_ready_def)
  have b: "m (FAT_BUF + of_nat i) = mem s (FAT_BUF + of_nat i)" if "i < 2048" for i
  proof (rule same_outsideD [OF so])
    show "\<not> (io_area (FAT_BUF + of_nat i) \<or> region B n (FAT_BUF + of_nat i))"
      using cache_in_fs [OF that] cl fsys_not_io unfolding fs_clear_def by blast
  qed
  have "table_cached part g A m" by (rule table_cached_same [OF s(3) same b])
  moreover have "fat_mounted g m" by (rule fat_mounted_same [OF s(2) same])
  moreover have "usable (s\<lparr>mem := m, errnum := ERR_NONE, buf_track := t, hook := h, filepos := p\<rparr>)"
    by (rule meta.stable [OF u]) (simp add: same_device_def)
  ultimately show ?thesis using s(1,4) by (simp add: fat_ready_def same)
qed

text \<open>The bytes of a turn: the rest of the cluster, or what is asked for.\<close>

lemma fat_read_turn:
  assumes r: "fat_ready usable part g (followed part g c L) c s" and d: "dest_ok (mem_upper s) B n" "fs_clear B n"
    and g: "fat_geometry_ok g len" and c: "2 \<le> c" "c < geo_clusters g" and cl: "windows_clear g (followed part g c L)"
    and n: "0 < n" "fp + n < 2 ^ 31" and i: "i \<le> fp div 2 ^ geo_bits g" "at_cluster part g c i (mem s)"
    and j: "fp div 2 ^ geo_bits g \<le> L" "chain part g c (fp div 2 ^ geo_bits g) \<noteq> None"
  defines "cnt \<equiv> min n (2 ^ geo_bits g - fp mod 2 ^ geo_bits g)"
  shows "\<exists>m t h. let s' = s\<lparr>mem := m, errnum := ERR_NONE, buf_track := t, hook := h, filepos := filepos s + of_nat cnt\<rparr>
     in fat_read_loop rdev hdev (of_nat (fp div 2 ^ geo_bits g)) (of_nat (fp mod 2 ^ geo_bits g)) B (of_nat n) ret s
          = fat_read_loop rdev hdev (of_nat (fp div 2 ^ geo_bits g) + 1) 0 (B + of_nat cnt) (of_nat (n - cnt)) (ret + of_nat cnt) s'
       \<and> fat_ready usable part g (followed part g c L) c s' \<and> at_cluster part g c (fp div 2 ^ geo_bits g) m
       \<and> same_outside (\<lambda>x. fat_area x \<or> region B n x) (mem s) m
       \<and> (\<forall>q < cnt. m (B + of_nat q) = fat_file_byte part g c (fp + q))"
proof -
  note gd = fat_geometry_okD [OF g]
  let ?k = "geo_bits g" and ?A = "followed part g c L"
  let ?j = "fp div 2 ^ ?k" and ?off = "fp mod 2 ^ ?k"
  have up: "unat (mem_upper s) < 2 ^ 22 - 1024" using d(1) by (simp add: dest_ok_def)
  have j32: "?j < 2 ^ 32" by (rule order_le_less_trans [OF div_le_dividend]) (use n(2) in simp)
  obtain m1 t1 h1 where sk: "fat_seek rdev (of_nat ?j) s = Some (Linked, s\<lparr>mem := m1, buf_track := t1, hook := h1\<rparr>)"
    "fat_ready usable part g ?A c (s\<lparr>mem := m1, buf_track := t1, hook := h1\<rparr>)" "same_outside fat_area (mem s) m1" "at_cluster part g c ?j m1"
    using fat_seek_reaches [OF r up g c cl i(1) j(1) j32 i(2) j(2)] unfolding Let_def by auto
  let ?s1 = "s\<lparr>mem := m1, buf_track := t1, hook := h1\<rparr>"
  obtain e where e: "chain part g c ?j = Some e" "sb m1 current_cluster = of_nat e" using sk(4) by (auto simp: at_cluster_def)
  have er: "2 \<le> e" "e < geo_clusters g" using chain_range [OF e(1) c] by simp_all
  have mo: "fat_mounted g m1" "usable ?s1" using sk(2) by (simp_all add: fat_ready_def)
  let ?sec = "cluster_sector g e"
  have two: "(2::nat) ^ ?k = 2 ^ (?k - 9) * 512" using power_add [of "2::nat" "?k - 9" 9] gd(2) by simp
  have k16: "(2::nat) ^ ?k \<le> 2 ^ 16" using gd(3) by (intro power_increasing) simp_all
  have off: "?off < 2 ^ ?k" by simp
  have cnt: "0 < cnt" "cnt \<le> n" "?off + cnt \<le> 2 ^ ?k" unfolding cnt_def using n(1) off by linarith+
  have "(e - 2 + 1) * 2 ^ (?k - 9) \<le> (geo_clusters g - 2) * 2 ^ (?k - 9)" using er by (intro mult_le_mono1) linarith
  then have room: "?sec + 2 ^ (?k - 9) \<le> len" using gd(5) by (simp add: cluster_sector_def)
  have "(?off + cnt - 1) div 2 ^ 9 < 2 ^ (?k - 9)" using cnt two by (intro less_mult_imp_div_less) simp
  then have sec: "?sec < 2 ^ 31" "?sec + (?off + cnt - 1) div 2 ^ 9 < len" using room gd(6) by linarith+
  have lim: "cnt < 2 ^ 31" "?off < 2 ^ 31" using cnt(3) k16 by simp_all
  have dc: "dest_ok (mem_upper ?s1) B cnt" using dest_ok_part [OF d(1), of 0 cnt] cnt by simp
  obtain m t h where rd: "hdev (of_nat ?sec) (of_nat ?off) (of_nat cnt) B ?s1 = Some (True, ?s1\<lparr>mem := m, errnum := ERR_NONE, buf_track := t, hook := h\<rparr>)"
    "usable (?s1\<lparr>mem := m, errnum := ERR_NONE, buf_track := t, hook := h\<rparr>)" "same_outside (\<lambda>x. io_area x \<or> region B cnt x) m1 m"
    "\<forall>q < cnt. m (B + of_nat q) = part (?sec * 2 ^ 9 + ?off + q)"
    using data.inside [OF mo(2) cnt(1) lim sec dc] unfolding Let_def by auto
  note fsc = fs_clear_le [OF d(2) cnt(2)]
  have words: "sb m1 data_offset + shift_left (sb m1 current_cluster - 2) (sb m1 clustsize_bits - sb m1 sectsize_bits) = of_nat ?sec"
    "(let room = shift_left 1 (sb m1 clustsize_bits) - of_nat ?off in if room > of_nat n then of_nat n else room) = (of_nat cnt :: u32)"
    using sector_word [OF g er(1) e(2)] room_word [OF g, of n fp] mo(1) n(2) by (simp_all add: fat_mounted_def cnt_def)
  have "(of_nat n :: u32) > 0" using n unat_small [of n] by (simp add: word_less_nat_alt)
  then have "fat_read_loop rdev hdev (of_nat ?j) (of_nat ?off) B (of_nat n) ret s
      = fat_read_loop rdev hdev (of_nat ?j + 1) 0 (B + of_nat cnt) (of_nat n - of_nat cnt) (ret + of_nat cnt)
          (s\<lparr>mem := m, errnum := ERR_NONE, buf_track := t, hook := h, filepos := filepos s + of_nat cnt\<rparr>)"
    using sk(1) rd(1) words by (subst fat_read_loop.simps) (simp add: Let_def split del: if_split cong del: if_weak_cong)
  moreover have "(of_nat n - of_nat cnt :: u32) = of_nat (n - cnt)" using cnt(2) by (simp add: of_nat_diff)
  moreover have "fat_ready usable part g ?A c (s\<lparr>mem := m, errnum := ERR_NONE, buf_track := t, hook := h, filepos := filepos s + of_nat cnt\<rparr>)"
    using read_ready [OF sk(2), where B = B and n = cnt and m = m and t = t and h = h and p = "filepos s + of_nat cnt"] rd(2,3) fsc by simp
  moreover have "at_cluster part g c ?j m" using sk(4) sb_apart_same [OF rd(3) fsc] by (simp add: at_cluster_def)
  moreover have "same_outside (\<lambda>x. fat_area x \<or> region B n x) (mem s) m"
    by (rule same_outside_trans [OF same_outside_mono [OF sk(3)] same_outside_mono [OF rd(3)]])
      (use region_mono cnt(2) in \<open>auto simp: fat_area_def\<close>)
  moreover have "m (B + of_nat q) = fat_file_byte part g c (fp + q)" if q: "q < cnt" for q
  proof -
    have fq: "fp + q = (?off + q) + ?j * 2 ^ ?k" using div_mult_mod_eq [of fp "2 ^ ?k"] by linarith
    have "?off + q < 2 ^ ?k" using q cnt(3) by linarith
    then have "(fp + q) div 2 ^ ?k = ?j" "(fp + q) mod 2 ^ ?k = ?off + q" unfolding fq by simp_all
    then show ?thesis using rd(4) q e(1) by (simp add: fat_file_byte_def add.assoc)
  qed
  ultimately show ?thesis unfolding Let_def
    by - (rule exI [of _ m], rule exI [of _ t], rule exI [of _ h], simp)
qed

lemma fat_read_loop_reads:
  assumes "fat_ready usable part g (followed part g c L) c s" "0 < n \<Longrightarrow> dest_ok (mem_upper s) B n" "fs_clear B n"
    and "fat_geometry_ok g len" "2 \<le> c" "c < geo_clusters g" "windows_clear g (followed part g c L)"
    and "fp + n < 2 ^ 31" "i < 2 ^ 32" "at_cluster part g c i (mem s)"
    and "0 < n \<Longrightarrow> i \<le> fp div 2 ^ geo_bits g \<and> (fp + n - 1) div 2 ^ geo_bits g \<le> L \<and> chain part g c ((fp + n - 1) div 2 ^ geo_bits g) \<noteq> None
        \<and> lc = of_nat (fp div 2 ^ geo_bits g) \<and> off = of_nat (fp mod 2 ^ geo_bits g)"
  shows "\<exists>m t h. let s' = s\<lparr>mem := m, buf_track := t, hook := h, filepos := filepos s + of_nat n\<rparr>
     in fat_read_loop rdev hdev lc off B (of_nat n) ret s = Some (ret + of_nat n, s')
       \<and> fat_ready usable part g (followed part g c L) c s' \<and> (\<exists>j. j < 2 ^ 32 \<and> at_cluster part g c j m)
       \<and> same_outside (\<lambda>x. fat_area x \<or> region B n x) (mem s) m
       \<and> (\<forall>q < n. m (B + of_nat q) = fat_file_byte part g c (fp + q))"
  using assms
proof (induction n arbitrary: s B ret fp i lc off rule: less_induct)
  case (less n)
  have e: "errnum s = ERR_NONE" using less.prems(1) by (simp add: fat_ready_def)
  show ?case
  proof (cases "n = 0")
    case True
    have "fat_read_loop rdev hdev lc off B (of_nat n) ret s = Some (ret + of_nat n, s)"
      using True e by (subst fat_read_loop.simps) simp
    then show ?thesis using True less.prems(1,9,10) unfolding Let_def
      by - (rule exI [of _ "mem s"], rule exI [of _ "buf_track s"], rule exI [of _ "hook s"], auto)
  next
    case False
    let ?k = "geo_bits g"
    let ?j = "fp div 2 ^ ?k" and ?off = "fp mod 2 ^ ?k"
    define cnt where "cnt = min n (2 ^ ?k - ?off)"
    have n0: "0 < n" using False by simp
    have d: "dest_ok (mem_upper s) B n" and i: "i \<le> ?j" and lc: "lc = of_nat ?j" "off = of_nat ?off"
      and last: "(fp + n - 1) div 2 ^ ?k \<le> L" "chain part g c ((fp + n - 1) div 2 ^ ?k) \<noteq> None"
      using less.prems(2,11) n0 by simp_all
    have off: "?off < 2 ^ ?k" by simp
    have cnt: "0 < cnt" "cnt \<le> n" unfolding cnt_def using n0 off by linarith+
    have jl: "?j \<le> (fp + n - 1) div 2 ^ ?k" using n0 by (intro div_le_mono) simp
    have j: "?j \<le> L" "chain part g c ?j \<noteq> None" using jl last chain_before [OF last(2) jl] by simp_all
    have n31: "n < 2 ^ 31" using less.prems(8) by linarith
    have j32: "?j < 2 ^ 32" by (rule order_le_less_trans [OF div_le_dividend]) (use less.prems(8) in simp)
    obtain m2 t2 h2 where turn: "fat_read_loop rdev hdev lc off B (of_nat n) ret s
        = fat_read_loop rdev hdev (of_nat ?j + 1) 0 (B + of_nat cnt) (of_nat (n - cnt)) (ret + of_nat cnt)
          (s\<lparr>mem := m2, errnum := ERR_NONE, buf_track := t2, hook := h2, filepos := filepos s + of_nat cnt\<rparr>)"
      and r2: "fat_ready usable part g (followed part g c L) c (s\<lparr>mem := m2, errnum := ERR_NONE, buf_track := t2, hook := h2, filepos := filepos s + of_nat cnt\<rparr>)"
      and at2: "at_cluster part g c ?j m2" and so2: "same_outside (\<lambda>x. fat_area x \<or> region B n x) (mem s) m2"
      and data: "\<forall>q < cnt. m2 (B + of_nat q) = fat_file_byte part g c (fp + q)"
      using fat_read_turn [OF less.prems(1) d less.prems(3-7) n0 less.prems(8) i less.prems(10) j, of ret, folded cnt_def]
      unfolding Let_def lc by blast
    let ?s2 = "s\<lparr>mem := m2, errnum := ERR_NONE, buf_track := t2, hook := h2, filepos := filepos s + of_nat cnt\<rparr>"
    let ?n2 = "n - cnt" and ?B2 = "B + of_nat cnt"
    have d2: "0 < ?n2 \<Longrightarrow> dest_ok (mem_upper ?s2) ?B2 ?n2" using dest_ok_part [OF d, of cnt ?n2] cnt(2) by auto
    have f2: "fs_clear ?B2 ?n2" using less.prems(3) cnt(2) n31 by (intro fs_clear_later) auto
    have nxt: "?j \<le> (fp + cnt) div 2 ^ ?k \<and> (fp + cnt + ?n2 - 1) div 2 ^ ?k \<le> L \<and> chain part g c ((fp + cnt + ?n2 - 1) div 2 ^ ?k) \<noteq> None
        \<and> of_nat ?j + 1 = (of_nat ((fp + cnt) div 2 ^ ?k) :: u32) \<and> 0 = (of_nat ((fp + cnt) mod 2 ^ ?k) :: u32)" if "0 < ?n2"
    proof -
      have "cnt = 2 ^ ?k - ?off" using that unfolding cnt_def by linarith
      then have "fp + cnt = (?j + 1) * 2 ^ ?k" using off div_mult_mod_eq [of fp "2 ^ ?k"] by simp
      then have "(fp + cnt) div 2 ^ ?k = ?j + 1" "(fp + cnt) mod 2 ^ ?k = 0" by simp_all
      moreover have "fp + cnt + ?n2 = fp + n" using cnt(2) by simp
      ultimately show ?thesis using last by simp
    qed
    have fp2: "fp + cnt + ?n2 < 2 ^ 31" using less.prems(8) cnt(2) by simp
    have at3: "at_cluster part g c ?j (mem ?s2)" using at2 by simp
    obtain m3 t3 h3 where r3: "fat_read_loop rdev hdev (of_nat ?j + 1) 0 ?B2 (of_nat ?n2) (ret + of_nat cnt) ?s2 = Some (ret + of_nat cnt + of_nat ?n2,
        ?s2\<lparr>mem := m3, buf_track := t3, hook := h3, filepos := filepos ?s2 + of_nat ?n2\<rparr>)"
      "fat_ready usable part g (followed part g c L) c (?s2\<lparr>mem := m3, buf_track := t3, hook := h3, filepos := filepos ?s2 + of_nat ?n2\<rparr>)"
      "\<exists>j. j < 2 ^ 32 \<and> at_cluster part g c j m3"
      "same_outside (\<lambda>x. fat_area x \<or> region ?B2 ?n2 x) m2 m3"
      "\<forall>q < ?n2. m3 (?B2 + of_nat q) = fat_file_byte part g c (fp + cnt + q)"
      using less.IH [OF _ r2 d2 f2 less.prems(4-7) fp2 j32 at3 nxt, of "ret + of_nat cnt"] cnt n0 unfolding Let_def by auto
    have e: "ret + of_nat cnt + of_nat ?n2 = ret + of_nat n" "filepos s + of_nat cnt + of_nat ?n2 = filepos s + of_nat n"
      using cnt(2) by (simp_all add: of_nat_diff)
    let ?s3 = "s\<lparr>mem := m3, buf_track := t3, hook := h3, filepos := filepos s + of_nat n\<rparr>"
    have s3: "?s2\<lparr>mem := m3, buf_track := t3, hook := h3, filepos := filepos ?s2 + of_nat ?n2\<rparr> = ?s3"
      using \<open>errnum s = ERR_NONE\<close> e(2) by simp
    have "fat_read_loop rdev hdev lc off B (of_nat n) ret s = Some (ret + of_nat n, ?s3)" unfolding turn r3(1) s3 e(1) ..
    moreover have "fat_ready usable part g (followed part g c L) c ?s3" using r3(2) unfolding s3 .
    moreover have "same_outside (\<lambda>x. fat_area x \<or> region B n x) (mem s) m3"
      by (rule same_outside_trans [OF so2 same_outside_mono [OF r3(4)]]) (use region_later [of B cnt n] cnt(2) n31 in auto)
    moreover have "\<forall>q < n. m3 (B + of_nat q) = fat_file_byte part g c (fp + q)"
    proof (intro allI impI)
      fix q assume q: "q < n"
      show "m3 (B + of_nat q) = fat_file_byte part g c (fp + q)"
      proof (cases "q < cnt")
        case True
        have "m3 (B + of_nat q) = m2 (B + of_nat q)"
          using earlier_byte [OF d less.prems(3) q n31 True cnt(2) order.refl] by (intro same_outsideD [OF r3(4)]) (simp add: fat_area_def)
        then show ?thesis using data True by simp
      next
        case False
        then have "q - cnt < ?n2" using q by simp
        then have "m3 (?B2 + of_nat (q - cnt)) = fat_file_byte part g c (fp + cnt + (q - cnt))"
          by (rule r3(5) [rule_format])
        moreover have "?B2 + of_nat (q - cnt) = B + of_nat q" using False by (simp add: of_nat_diff)
        ultimately show ?thesis using False by simp
      qed
    qed
    ultimately show ?thesis using r3(3) unfolding Let_def
      by - (rule exI [of _ m3], rule exI [of _ t3], rule exI [of _ h3], intro conjI)
  qed
qed

text \<open>Reading \<open>n\<close> bytes of a file whose chain is long enough.\<close>

lemma fat_read_file:
  assumes f: "fat_file usable part g (followed part g c L) c s" and d: "0 < n \<Longrightarrow> dest_ok (mem_upper s) B n" "fs_clear B n"
    and g: "fat_geometry_ok g len" and c: "2 \<le> c" "c < geo_clusters g" and cl: "windows_clear g (followed part g c L)"
    and n: "unat (filepos s) + n < 2 ^ 31"
    and L: "0 < n \<Longrightarrow> (unat (filepos s) + n - 1) div 2 ^ geo_bits g \<le> L \<and> chain part g c ((unat (filepos s) + n - 1) div 2 ^ geo_bits g) \<noteq> None"
  shows "\<exists>m t h. let s' = s\<lparr>mem := m, buf_track := t, hook := h, filepos := filepos s + of_nat n\<rparr>
     in fat_read rdev hdev B (of_nat n) s = Some (of_nat n, s') \<and> fat_file usable part g (followed part g c L) c s'
       \<and> same_outside (\<lambda>x. fat_area x \<or> region B n x) (mem s) m
       \<and> (\<forall>q < n. m (B + of_nat q) = fat_file_byte part g c (unat (filepos s) + q))"
proof -
  note gd = fat_geometry_okD [OF g]
  let ?fp = "unat (filepos s)" and ?k = "geo_bits g" and ?A = "followed part g c L"
  have r: "fat_ready usable part g ?A c s" "fat_mounted g (mem s)" "sb (mem s) file_cluster = of_nat c"
    using f by (simp_all add: fat_file_def fat_ready_def)
  have pos: "\<not> sb (mem s) file_cluster <s 0"
    using sint_small [of c] c(2) gd(8) by (simp add: r(3) word_sless_alt)
  have fp32: "?fp < 2 ^ 31" using n by linarith
  have j: "?fp div 2 ^ ?k < 2 ^ 31" by (rule order_le_less_trans [OF div_le_dividend fp32])
  have bits: "unat (of_nat ?k :: u32) = ?k" using gd(3) by (intro unat_small) simp
  have lc: "drop_bit (unat (sb (mem s) clustsize_bits) mod 32) (filepos s) = of_nat (?fp div 2 ^ ?k)"
  proof (rule word_of_unat)
    show "unat (drop_bit (unat (sb (mem s) clustsize_bits) mod 32) (filepos s)) = ?fp div 2 ^ ?k"
      unfolding unat_drop using r(2) bits gd(3) by (simp add: fat_mounted_def)
  qed
  have off: "filepos s AND (shift_left 1 (sb (mem s) clustsize_bits) - 1) = of_nat (?fp mod 2 ^ ?k)"
  proof (rule word_of_unat)
    have "shift_left 1 (sb (mem s) clustsize_bits) - 1 = mask ?k"
      using r(2) bits gd(3) by (simp add: fat_mounted_def shift_left_def mask_eq_exp_minus_1 push_bit_eq_mult)
    then show "unat (filepos s AND (shift_left 1 (sb (mem s) clustsize_bits) - 1)) = ?fp mod 2 ^ ?k"
      by (simp add: take_bit_eq_mask [symmetric] unsigned_take_bit_eq) (simp add: take_bit_eq_mod)
  qed
  define s1 where "s1 = (if of_nat (?fp div 2 ^ ?k) < sb (mem s) current_cluster_num
      then set_sb current_cluster (sb (mem s) file_cluster) (set_sb current_cluster_num 0 s) else s)"
  have read: "fat_read rdev hdev B (of_nat n) s = fat_read_loop rdev hdev (of_nat (?fp div 2 ^ ?k)) (of_nat (?fp mod 2 ^ ?k)) B (of_nat n) 0 s1"
    using pos lc off by (simp add: fat_read_def Let_def s1_def)
  obtain m1 where m1: "s1 = s\<lparr>mem := m1\<rparr>" "same_outside fat_area (mem s) m1"
  proof (rule that [of "mem s1"])
    show "s1 = s\<lparr>mem := mem s1\<rparr>" by (simp add: s1_def set_sb_def)
    show "same_outside fat_area (mem s) (mem s1)"
      unfolding s1_def by (auto intro: same_outside_trans [OF set_sb_fat set_sb_fat])
  qed
  have r1: "fat_ready usable part g ?A c s1"
    using r(1) by (auto simp: s1_def intro!: set_sb_ready)
  obtain i where i: "i \<le> ?fp div 2 ^ ?k" "at_cluster part g c i (mem s1)"
  proof (cases "of_nat (?fp div 2 ^ ?k) < sb (mem s) current_cluster_num")
    case True
    then have "at_cluster part g c 0 (mem s1)" using r(3) by (simp add: s1_def at_cluster_def)
    then show ?thesis by (intro that [of 0]) simp_all
  next
    case False
    have u: "unat (of_nat (?fp div 2 ^ ?k) :: u32) = ?fp div 2 ^ ?k" by (rule unat_small [OF j])
    then have "sb (mem s) current_cluster_num \<noteq> MAXINT" using False j by (auto simp: MAXINT_def word_less_nat_alt)
    then obtain i where i: "i < 2 ^ 32" "at_cluster part g c i (mem s)" using f by (auto simp: fat_file_def)
    have "i \<le> ?fp div 2 ^ ?k"
      using False unat_of_nat_small [OF i(1)] i(2) u by (simp add: at_cluster_def word_less_nat_alt)
    then show ?thesis using i(2) False by (intro that [of i]) (simp_all add: s1_def)
  qed
  have i32: "i < 2 ^ 32" using i(1) j by simp
  have L1: "i \<le> ?fp div 2 ^ ?k \<and> (?fp + n - 1) div 2 ^ ?k \<le> L \<and> chain part g c ((?fp + n - 1) div 2 ^ ?k) \<noteq> None
        \<and> of_nat (?fp div 2 ^ ?k) = (of_nat (?fp div 2 ^ ?k) :: u32) \<and> of_nat (?fp mod 2 ^ ?k) = (of_nat (?fp mod 2 ^ ?k) :: u32)" if "0 < n"
    using i(1) L [OF that] by simp
  have d1: "0 < n \<Longrightarrow> dest_ok (mem_upper s1) B n" using d(1) by (simp add: m1(1))
  obtain m t h where l: "fat_read_loop rdev hdev (of_nat (?fp div 2 ^ ?k)) (of_nat (?fp mod 2 ^ ?k)) B (of_nat n) 0 s1
      = Some (0 + of_nat n, s1\<lparr>mem := m, buf_track := t, hook := h, filepos := filepos s1 + of_nat n\<rparr>)"
    "fat_ready usable part g ?A c (s1\<lparr>mem := m, buf_track := t, hook := h, filepos := filepos s1 + of_nat n\<rparr>)"
    "\<exists>j. j < 2 ^ 32 \<and> at_cluster part g c j m" "same_outside (\<lambda>x. fat_area x \<or> region B n x) (mem s1) m"
    "\<forall>q < n. m (B + of_nat q) = fat_file_byte part g c (?fp + q)"
    using fat_read_loop_reads [OF r1 d1 d(2) g c cl n i32 i(2) L1, of 0] unfolding Let_def by blast
  have "same_outside (\<lambda>x. fat_area x \<or> region B n x) (mem s) m"
    using l(4) by (intro same_outside_trans [OF same_outside_mono [OF m1(2)]]) (simp_all add: m1(1))
  then show ?thesis using l read unfolding Let_def
    by - (rule exI [of _ m], rule exI [of _ t], rule exI [of _ h], simp add: fat_file_def m1(1))
qed

end

section \<open>The disk layer provides the readers\<close>

text \<open>The hook does not matter to the drive.\<close>

lemma edd_usable_hook [simp]:
  "edd_usable (v\<lparr>disk_read_func := f\<rparr>) drive g disk N k spt start psize = edd_usable v drive g disk N k spt start psize"
  by (intro ext) (simp add: edd_usable_def edd_drive_def edd_reads_def is_mem_disk_def)

lemma chs_usable_hook [simp]:
  "chs_usable (v\<lparr>disk_read_func := f\<rparr>) drive g disk N k spt start psize = chs_usable v drive g disk N k spt start psize"
  by (intro ext) (simp add: chs_usable_def chs_drive_def chs_reads_def is_mem_disk_def)

interpretation edd_fat: fat_reader "devread v" "devread (v\<lparr>disk_read_func := disk_read_hook v\<rparr>)" "part_bytes disk 9 start" "unat psize"
    "edd_usable v drive g disk N 9 spt start psize"
  for v :: "('d, 'h) disk_env" and drive g disk N spt start psize
  using edd_part.partition_reader_axioms [of v disk 9 start psize drive g N spt]
    edd_part.partition_reader_axioms [of "v\<lparr>disk_read_func := disk_read_hook v\<rparr>" disk 9 start psize drive g N spt]
  unfolding edd_usable_hook by (rule fat_reader.intro)

interpretation chs_fat: fat_reader "devread v" "devread (v\<lparr>disk_read_func := disk_read_hook v\<rparr>)" "part_bytes disk 9 start" "unat psize"
    "chs_usable v drive g disk N 9 spt start psize"
  for v :: "('d, 'h) disk_env" and drive g disk N spt start psize
  using chs_part.partition_reader_axioms [of v disk 9 start psize drive g N spt]
    chs_part.partition_reader_axioms [of "v\<lparr>disk_read_func := disk_read_hook v\<rparr>" disk 9 start psize drive g N spt]
  unfolding chs_usable_hook by (rule fat_reader.intro)

end
