(* ===== verification/FatMount.thy ===== *)
theory FatMount
imports FatRead
begin

text \<open>
  Mounting FAT is correct: on a partition whose first sector describes a FAT filesystem, \<open>fat_mount\<close> fills the superblock
  with its geometry.
\<close>

section \<open>What the first sector says\<close>

definition disk_bpb :: "(nat \<Rightarrow> u8) \<Rightarrow> fat_bpb" where
  "disk_bpb part = read_bpb (\<lambda>a. part (unat a)) 0"

text \<open>Sectors of one FAT and of the filesystem, the first sector of the data, the bits of the sectors per cluster.\<close>

definition bpb_fat :: "fat_bpb \<Rightarrow> nat" where
  "bpb_fat b = (if bpb_fat_length b \<noteq> 0 then unat (bpb_fat_length b) else unat (fat32_length b))"

definition bpb_total :: "fat_bpb \<Rightarrow> nat" where
  "bpb_total b = (if short_sectors b \<noteq> 0 then unat (short_sectors b) else unat (long_sectors b))"

definition bpb_data :: "fat_bpb \<Rightarrow> nat" where
  "bpb_data b = unat (reserved_sects b) + unat (num_fats b) * bpb_fat b + (32 * unat (dir_entries b) + 511) div 512"

definition cluster_bits :: "fat_bpb \<Rightarrow> nat" where
  "cluster_bits b = length (takeWhile (\<lambda>k. unat (bpb_sects_per_clust b) \<noteq> 2 ^ k) [0..<8])"

definition bpb_clusters :: "fat_bpb \<Rightarrow> nat" where
  "bpb_clusters b = 2 + (bpb_total b - bpb_data b) div unat (bpb_sects_per_clust b)"

definition active_only :: "fat_bpb \<Rightarrow> bool" where
  "active_only b \<longleftrightarrow> bpb_fat_length b = 0 \<and> bpb_flags b AND 0x0080 \<noteq> 0"

definition bpb_geometry :: "fat_bpb \<Rightarrow> fat_geometry" where
  "bpb_geometry b = \<lparr>geo_fat = unat (reserved_sects b) + (if active_only b then unat (bpb_flags b AND 0x000F) * bpb_fat b else 0),
     geo_nibbles = (if bpb_fat_length b = 0 then 8 else if 4087 < bpb_clusters b then 4 else 3),
     geo_data = bpb_data b, geo_clusters = bpb_clusters b, geo_bits = 9 + cluster_bits b\<rparr>"

definition bpb_valid :: "fat_bpb \<Rightarrow> bool" where
  "bpb_valid b \<longleftrightarrow> bytes_per_sect b = 512 \<and> bpb_sects_per_clust b \<in> {1, 2, 4, 8, 16, 32, 64, 128}
     \<and> reserved_sects b \<noteq> 0 \<and> num_fats b \<in> {1, 2} \<and> 1 \<le> secs_track b \<and> secs_track b \<le> 63 \<and> 1 \<le> bpb_heads b \<and> bpb_heads b \<le> 256
     \<and> (bpb_fat_length b = 0 \<longleftrightarrow> dir_entries b = 0) \<and> (active_only b \<longrightarrow> unat (bpb_flags b AND 0x000F) < unat (num_fats b))
     \<and> bpb_data b + unat (bpb_sects_per_clust b) \<le> bpb_total b \<and> bpb_total b < 2 ^ 31
     \<and> bpb_clusters b * geo_nibbles (bpb_geometry b) < 2 ^ 31 \<and> bpb_clusters b * geo_nibbles (bpb_geometry b) div 1024 \<le> bpb_fat b"

text \<open>The first entry of the table, of at most 28 bits, ends in the media descriptor F0 or F8 behind ones.\<close>

definition media_entry :: "(nat \<Rightarrow> u8) \<Rightarrow> fat_geometry \<Rightarrow> bool" where
  "media_entry part g \<longleftrightarrow> (let top = 16 ^ min (geo_nibbles g) 7 in table_entry part g 0 mod 2 ^ 28 \<in> {top - 16, top - 8})"

section \<open>The numbers\<close>

lemma read_bpb_disk:
  assumes "\<And>i. i < 64 \<Longrightarrow> m (a + of_nat i) = part i"
  shows "read_bpb m a = disk_bpb part"
proof -
  note h = assms
  have b: "m (a + numeral k) = part (numeral k)" if "numeral k < (64::nat)" for k using h [of "numeral k"] that by simp
  show ?thesis by (simp add: read_bpb_def disk_bpb_def peek16_def peek32_def b add.assoc)
qed

lemma spc_bits:
  assumes "bpb_sects_per_clust b \<in> {1, 2, 4, 8, 16, 32, 64, 128}"
  shows "cluster_bits b \<le> 7" "unat (bpb_sects_per_clust b) = 2 ^ cluster_bits b"
    "log2_tmp (ucast (bpb_sects_per_clust b)) = cluster_bits b" "bpb_sects_per_clust b \<noteq> 0" "128 mod bpb_sects_per_clust b = 0"
proof -
  from assms consider "bpb_sects_per_clust b = 1" | "bpb_sects_per_clust b = 2" | "bpb_sects_per_clust b = 4"
    | "bpb_sects_per_clust b = 8" | "bpb_sects_per_clust b = 16" | "bpb_sects_per_clust b = 32"
    | "bpb_sects_per_clust b = 64" | "bpb_sects_per_clust b = 128"
    by blast
  then show "cluster_bits b \<le> 7" "unat (bpb_sects_per_clust b) = 2 ^ cluster_bits b"
    "log2_tmp (ucast (bpb_sects_per_clust b)) = cluster_bits b" "bpb_sects_per_clust b \<noteq> 0" "128 mod bpb_sects_per_clust b = 0"
    by (cases; simp add: cluster_bits_def log2_tmp_def upt_rec)+
qed

lemma log2_sector: "log2_tmp 512 = 9"
  by (simp add: log2_tmp_def upt_rec)

lemma root_sectors:
  assumes "n < 2 ^ 21"
  shows "shift_right (of_nat n - 1) 9 + 1 = (of_nat ((n + 511) div 512) :: u32)"
proof (cases "n = 0")
  case True
  then show ?thesis by (simp add: shift_right_def)
next
  case False
  have "of_nat n - 1 = (of_nat (n - 1) :: u32)" using False by (simp add: of_nat_diff)
  moreover have "signed_drop_bit 9 (of_nat (n - 1) :: u32) = of_nat ((n - 1) div 512)"
  proof (rule signed_word_eqI)
    have "(n - 1) div 512 < 2 ^ 31" using assms by simp
    then show "sint (signed_drop_bit 9 (of_nat (n - 1) :: u32)) = sint (of_nat ((n - 1) div 512) :: u32)"
      using assms sint_small [of "n - 1"] sint_small [of "(n - 1) div 512"]
      by (simp add: sint_signed_drop_bit_eq drop_bit_eq_div zdiv_int)
  qed
  moreover have "(n - 1) div 512 + 1 = (n + 511) div 512" using False by linarith
  moreover have "of_nat ((n - 1) div 512) + 1 = (of_nat ((n - 1) div 512 + 1) :: u32)" by simp
  ultimately show ?thesis by (simp add: shift_right_def del: of_nat_Suc of_nat_add)
qed

section \<open>The superblock\<close>

lemma bpb_validD:
  assumes "bpb_valid b"
  shows "bytes_per_sect b = 512" "bpb_sects_per_clust b \<in> {1, 2, 4, 8, 16, 32, 64, 128}" "bpb_sane b"
    "bpb_data b + unat (bpb_sects_per_clust b) \<le> bpb_total b" "bpb_total b < 2 ^ 31"
    "bpb_fat b < 2 ^ 31" "3 \<le> bpb_clusters b" "bpb_clusters b * geo_nibbles (bpb_geometry b) < 2 ^ 31"
    "bpb_clusters b * geo_nibbles (bpb_geometry b) div 1024 \<le> bpb_fat b" "bpb_clusters b < 2 ^ 31"
    "bpb_fat_length b = 0 \<longleftrightarrow> dir_entries b = 0" "active_only b \<Longrightarrow> unat (bpb_flags b AND 0x000F) < unat (num_fats b)"
proof -
  note v = assms [unfolded bpb_valid_def]
  show "bytes_per_sect b = 512" "bpb_sects_per_clust b \<in> {1, 2, 4, 8, 16, 32, 64, 128}"
    "bpb_data b + unat (bpb_sects_per_clust b) \<le> bpb_total b" "bpb_total b < 2 ^ 31"
    "bpb_clusters b * geo_nibbles (bpb_geometry b) < 2 ^ 31"
    "bpb_clusters b * geo_nibbles (bpb_geometry b) div 1024 \<le> bpb_fat b"
    "bpb_fat_length b = 0 \<longleftrightarrow> dir_entries b = 0" "active_only b \<Longrightarrow> unat (bpb_flags b AND 0x000F) < unat (num_fats b)"
    using v by blast+
  then have "1 * bpb_fat b \<le> unat (num_fats b) * bpb_fat b" "bpb_data b < 2 ^ 31"
    using v by (auto intro!: mult_le_mono1)
  then show "bpb_fat b < 2 ^ 31" unfolding bpb_data_def by linarith
  have spc: "0 < unat (bpb_sects_per_clust b)" using v spc_bits(2) [of b] by simp
  moreover have "unat (bpb_sects_per_clust b) \<le> bpb_total b - bpb_data b" using v by linarith
  ultimately have "1 \<le> (bpb_total b - bpb_data b) div unat (bpb_sects_per_clust b)" by (simp add: less_eq_div_iff_mult_less_eq)
  then show "3 \<le> bpb_clusters b" by (simp add: bpb_clusters_def)
  have "bpb_clusters b * 1 \<le> bpb_clusters b * geo_nibbles (bpb_geometry b)" by (intro mult_le_mono2) (simp add: bpb_geometry_def)
  then show "bpb_clusters b < 2 ^ 31" using v by linarith
  have "num_fats b - 1 \<le> 1" using v by auto
  moreover have "secs_track b - 1 \<le> 62" "bpb_heads b - 1 \<le> 255" using v by (auto simp: word_le_nat_alt unat_sub_if')
  ultimately show "bpb_sane b" using v by (simp add: bpb_sane_def)
qed

lemma fill_super_fields:
  assumes v: "bpb_valid b" and s: "sb (mem s) sectsize_bits = 9"
  defines "t \<equiv> fill_super b s"
  shows "sb (mem t) fat_offset = of_nat (unat (reserved_sects b))" "sb (mem t) fat_length = of_nat (bpb_fat b)"
    "sb (mem t) root_max = of_nat (32 * unat (dir_entries b))" "sb (mem t) data_offset = of_nat (bpb_data b)"
    "sb (mem t) num_clust = of_nat (bpb_clusters b)" "sb (mem t) sectsize_bits = 9"
    "sb (mem t) clustsize_bits = sb (mem s) clustsize_bits"
proof -
  note vd = bpb_validD [OF v]
  have fl: "(if bpb_fat_length b \<noteq> 0 then ucast (bpb_fat_length b) else fat32_length b) = (of_nat (bpb_fat b) :: u32)"
    by (simp add: bpb_fat_def)
  have tot: "(if short_sectors b \<noteq> 0 then ucast (short_sectors b) else long_sectors b) = (of_nat (bpb_total b) :: u32)"
    by (simp add: bpb_total_def)
  have "32 * unat (dir_entries b) < 2 ^ 21" using unat_u16 [of "dir_entries b"] by (simp del: unat_u16)
  from root_sectors [OF this]
  have data: "ucast (reserved_sects b) + ucast (num_fats b) * of_nat (bpb_fat b) + shift_right (32 * ucast (dir_entries b) - 1) 9 + 1
      = (of_nat (bpb_data b) :: u32)"
    by (simp add: bpb_data_def add.assoc)
  have le: "bpb_data b \<le> bpb_total b" using vd(4) by simp
  have "of_nat (bpb_total b) - of_nat (bpb_data b) = (of_nat (bpb_total b - bpb_data b) :: u32)" using le by (simp add: of_nat_diff)
  moreover have "ucast (bpb_sects_per_clust b) = (of_nat (unat (bpb_sects_per_clust b)) :: u32)" by simp
  moreover have "unat (bpb_sects_per_clust b) < 2 ^ 31" using unat_u8 [of "bpb_sects_per_clust b"] by (simp del: unat_u8)
  moreover have "bpb_total b - bpb_data b < 2 ^ 31" using vd(5) by linarith
  ultimately have "int_div (of_nat (bpb_total b) - of_nat (bpb_data b)) (ucast (bpb_sects_per_clust b))
      = of_nat ((bpb_total b - bpb_data b) div unat (bpb_sects_per_clust b))"
    by (simp only: int_div_small)
  then have clu: "2 + int_div (of_nat (bpb_total b) - of_nat (bpb_data b)) (ucast (bpb_sects_per_clust b)) = of_nat (bpb_clusters b)"
    by (simp add: bpb_clusters_def)
  show "sb (mem t) fat_offset = of_nat (unat (reserved_sects b))" "sb (mem t) fat_length = of_nat (bpb_fat b)"
    "sb (mem t) root_max = of_nat (32 * unat (dir_entries b))" "sb (mem t) data_offset = of_nat (bpb_data b)"
    "sb (mem t) num_clust = of_nat (bpb_clusters b)" "sb (mem t) sectsize_bits = 9"
    "sb (mem t) clustsize_bits = sb (mem s) clustsize_bits"
    unfolding t_def fill_super_def Let_def fl tot using s data clu by simp_all
qed

text \<open>Signed comparisons of small numbers.\<close>

lemma sless_small: "m < 2 ^ 31 \<Longrightarrow> n < 2 ^ 31 \<Longrightarrow> (of_nat m :: u32) <s of_nat n \<longleftrightarrow> m < n"
  by (simp add: word_sless_alt sint_small)

lemma sle_small: "m < 2 ^ 31 \<Longrightarrow> n < 2 ^ 31 \<Longrightarrow> (of_nat m :: u32) \<le>s of_nat n \<longleftrightarrow> m \<le> n"
  by (simp add: word_sle_eq sint_small)

lemma unat_ucast16: "unat (ucast (x :: u16) :: u32) = unat x"
proof -
  have "unat (of_nat (unat x) :: u32) = unat x" using unat_u16 [of x] by (intro unat_small) (simp del: unat_u16)
  then show ?thesis by simp
qed

lemma unat_ucast8: "unat (ucast (x :: u8) :: u32) = unat x"
proof -
  have "unat (of_nat (unat x) :: u32) = unat x" using unat_u8 [of x] by (intro unat_small) (simp del: unat_u8)
  then show ?thesis by simp
qed

lemma fat_kind_mounts:
  assumes v: "bpb_valid b" and s: "sb (mem s) sectsize_bits = 9" "sb (mem s) clustsize_bits = of_nat (9 + cluster_bits b)"
  shows "\<exists>t. fat_kind b (fill_super b s) = (True, t) \<and> fat_mounted (bpb_geometry b) (mem t) \<and> sb (mem t) fat_length = of_nat (bpb_fat b)
    \<and> sb (mem t) root_cluster = (if bpb_fat_length b = 0 then bpb_root_cluster b else - 1)"
proof -
  note vd = bpb_validD [OF v]
  note f = fill_super_fields [OF v s(1)]
  let ?s = "fill_super b s"
  show ?thesis
  proof (cases "bpb_fat_length b = 0")
    case True
    then have de: "dir_entries b = 0" using vd(11) by simp
    have act: "ucast (bpb_flags b AND 0x000F) = (of_nat (unat (bpb_flags b AND 0x000F)) :: u32)" by simp
    have "\<not> (active_only b \<and> (ucast (bpb_flags b AND 0x000F) :: u32) \<ge> ucast (num_fats b))"
    proof
      assume a: "active_only b \<and> (ucast (bpb_flags b AND 0x000F) :: u32) \<ge> ucast (num_fats b)"
      then have "unat (num_fats b) \<le> unat (bpb_flags b AND 0x000F)" unfolding word_le_nat_alt unat_ucast16 unat_ucast8 by blast
      then show False using vd(12) a by simp
    qed
    then show ?thesis using True de f s(2)
      by (auto simp: fat_kind_def Let_def fat_mounted_def bpb_geometry_def end_mark_def active_only_def)
  next
    case False
    then have "unat (dir_entries b) \<noteq> 0" using vd(11) by (simp add: unat_eq_0)
    moreover have "unat (of_nat (32 * unat (dir_entries b)) :: u32) = 32 * unat (dir_entries b)"
      using unat_u16 [of "dir_entries b"] by (intro unat_small) (simp del: unat_u16)
    ultimately have rm: "(of_nat (32 * unat (dir_entries b)) :: u32) \<noteq> 0" by (metis mult_eq_0_iff unat_0 zero_neq_numeral)
    have "FAT_MAX_12BIT_CLUST <s sb (mem ?s) num_clust \<longleftrightarrow> 4087 < bpb_clusters b"
      using sless_small [of 4087, OF _ vd(10)] by (simp add: f FAT_MAX_12BIT_CLUST_def)
    then show ?thesis using False f s(2) rm
      by (auto simp: fat_kind_def Let_def fat_mounted_def bpb_geometry_def end_mark_def active_only_def)
  qed
qed

lemma super_saneI:
  assumes v: "bpb_valid b" and m: "fat_mounted (bpb_geometry b) m" "sb m fat_length = of_nat (bpb_fat b)"
  shows "super_sane b m"
proof -
  note vd = bpb_validD [OF v]
  note sp = spc_bits [OF vd(2)]
  let ?g = "bpb_geometry b"
  have sect: "ucast (bytes_per_sect b) = (512 :: u32)" by (simp add: vd(1))
  have "(of_nat (9 + cluster_bits b) - 9 :: u32) = of_nat (cluster_bits b)" by simp
  moreover have "unat (of_nat (cluster_bits b) :: u32) = cluster_bits b" using sp(1) by (intro unat_small) simp
  ultimately have "shift_left 1 (of_nat (9 + cluster_bits b) - 9) = (of_nat (2 ^ cluster_bits b) :: u32)"
    using sp(1) by (simp add: shift_left_def push_bit_eq_mult)
  also have "\<dots> = ucast (bpb_sects_per_clust b)" unfolding sp(2) [symmetric] by simp
  finally have spc: "ucast (bpb_sects_per_clust b) = (shift_left 1 (sb m clustsize_bits - sb m sectsize_bits) :: u32)"
    using m(1) by (simp add: fat_mounted_def bpb_geometry_def)
  have "2 <s sb m num_clust"
    using sless_small [of 2, OF _ vd(10)] vd(7) m(1) by (simp add: fat_mounted_def bpb_geometry_def)
  moreover have "int_div (sb m fat_size * sb m num_clust) (2 * SECTOR_SIZE) \<le>s sb m fat_length"
  proof -
    have p: "sb m fat_size * sb m num_clust = of_nat (bpb_clusters b * geo_nibbles ?g)"
      using m(1) by (simp add: fat_mounted_def bpb_geometry_def)
    have "int_div (of_nat (bpb_clusters b * geo_nibbles ?g)) (of_nat 1024) = of_nat (bpb_clusters b * geo_nibbles ?g div 1024)"
      using vd(8) by (intro int_div_small) simp_all
    moreover have "bpb_clusters b * geo_nibbles ?g div 1024 < 2 ^ 31" using vd(6,9) by linarith
    ultimately show ?thesis using sle_small [OF _ vd(6)] vd(9) unfolding p m(2) by (simp add: SECTOR_SIZE_def)
  qed
  ultimately show ?thesis
    using spc m(1) by (simp add: super_sane_def sect SECTOR_SIZE_def fat_mounted_def shift_left_def)
qed

text \<open>Filling the superblock changes nothing else.\<close>

definition only_super :: "('d, 'h, 'z) gstate \<Rightarrow> ('d, 'h, 'z) gstate \<Rightarrow> bool" where
  "only_super s t \<longleftrightarrow> (\<exists>m. t = s\<lparr>mem := m\<rparr> \<and> same_outside (region FSYS_BUF 0x8000) (mem s) m)"

lemma only_super_refl [simp]: "only_super s s"
  unfolding only_super_def by (rule exI [of _ "mem s"]) (simp add: same_outside_def)

lemma only_super_set: "only_super s t \<Longrightarrow> only_super s (set_sb f x t)"
proof -
  assume "only_super s t"
  then obtain m where m: "t = s\<lparr>mem := m\<rparr>" "same_outside (region FSYS_BUF 0x8000) (mem s) m" by (auto simp: only_super_def)
  have "same_outside (region FSYS_BUF 0x8000) m (mem (set_sb f x t))" using set_sb_outside [of t f x] m(1) by simp
  then have "same_outside (region FSYS_BUF 0x8000) (mem s) (mem (set_sb f x t))" using m(2) by (blast intro: same_outside_trans)
  moreover have "set_sb f x t = s\<lparr>mem := mem (set_sb f x t)\<rparr>" by (simp add: set_sb_def m(1))
  ultimately show ?thesis unfolding only_super_def by blast
qed

lemma fill_super_only: "only_super s t \<Longrightarrow> only_super s (fill_super b t)"
  by (simp add: fill_super_def Let_def only_super_set)

lemma fat_kind_only: "only_super s t \<Longrightarrow> fat_kind b t = (r, t') \<Longrightarrow> only_super s t'"
  by (auto simp: fat_kind_def Let_def only_super_set split: if_splits)

section \<open>The media descriptor\<close>

lemma media_word:
  assumes m: "media_entry part g" and nib: "geo_nibbles g \<in> {3, 4, 8}"
    and b: "\<And>i. i < 4 \<Longrightarrow> b i = part (geo_fat g * 512 + i)"
  shows "media_ok (of_nat (geo_nibbles g)) (le32 (b 0) (b 1) (b 2) (b 3))"
proof -
  define w where "w = le32 (b 0) (b 1) (b 2) (b 3)"
  have "table_entry part g 0 = nibbles_value (geo_nibbles g) 0 b"
    unfolding table_entry_def using b [of 0] b [of 1] b [of 2] b [of 3] by (simp add: nibbles_value_def)
  also have "\<dots> = unat w mod 16 ^ geo_nibbles g" by (simp add: nibbles_value_def w_def unat_le32)
  finally have t: "table_entry part g 0 = unat w mod 16 ^ geo_nibbles g" .
  have mask: "w AND mask k = of_nat n" if "unat w mod 2 ^ k = n" for k n
  proof (rule word_of_unat)
    show "unat (w AND mask k) = n"
      using that by (simp add: take_bit_eq_mask [symmetric] unsigned_take_bit_eq) (simp add: take_bit_eq_mod)
  qed
  have k: "(0x0FFFFFFF :: u32) = mask 28" "(0xFFFF :: u32) = mask 16" "(0xFFF :: u32) = mask 12" by (simp_all add: mask_eq_exp_minus_1)
  consider "geo_nibbles g = 8" | "geo_nibbles g = 4" | "geo_nibbles g = 3" using nib by auto
  then have "media_ok (of_nat (geo_nibbles g)) w"
  proof cases
    case 1
    have "unat w mod 16 ^ 8 = unat w" using unat_u32 [of w] by (simp del: unat_u32)
    then have "unat w mod 2 ^ 28 = 0xFFFFFF0 \<or> unat w mod 2 ^ 28 = 0xFFFFFF8"
      using m t 1 by (simp add: media_entry_def Let_def)
    then have "w AND mask 28 = of_nat 0xFFFFFF0 \<or> w AND mask 28 = of_nat 0xFFFFFF8" using mask by blast
    then show ?thesis using 1 unfolding media_ok_def k Let_def by auto
  next
    case 2
    have "unat w mod 16 ^ 4 mod 2 ^ 28 = unat w mod 2 ^ 16" by (simp add: mod_mod_trivial)
    then have "unat w mod 2 ^ 16 = 0xFFF0 \<or> unat w mod 2 ^ 16 = 0xFFF8"
      using m t 2 by (simp add: media_entry_def Let_def)
    then have "w AND mask 16 = of_nat 0xFFF0 \<or> w AND mask 16 = of_nat 0xFFF8" using mask by blast
    then show ?thesis using 2 unfolding media_ok_def k Let_def by auto
  next
    case 3
    have "unat w mod 16 ^ 3 mod 2 ^ 28 = unat w mod 2 ^ 12" by (simp add: mod_mod_trivial)
    then have "unat w mod 2 ^ 12 = 0xFF0 \<or> unat w mod 2 ^ 12 = 0xFF8"
      using m t 3 by (simp add: media_entry_def Let_def)
    then have "w AND mask 12 = of_nat 0xFF0 \<or> w AND mask 12 = of_nat 0xFF8" using mask by blast
    then show ?thesis using 3 unfolding media_ok_def k Let_def by auto
  qed
  then show ?thesis unfolding w_def .
qed

section \<open>Mounting\<close>

context fat_reader
begin

lemma only_super_usable: "usable s \<Longrightarrow> only_super s t \<Longrightarrow> usable t"
proof -
  assume u: "usable s" and "only_super s t"
  then obtain m where m: "t = s\<lparr>mem := m\<rparr>" "same_outside (region FSYS_BUF 0x8000) (mem s) m" by (auto simp: only_super_def)
  have "m y = mem s y" if "io_area y" for y using that fsys_not_io by (intro same_outsideD [OF m(2)]) blast
  then have "same_device s t" by (simp add: same_device_def m(1))
  then show ?thesis by (rule meta.stable [OF u])
qed

lemma fat_mount_fills:
  assumes u: "usable s" and v: "bpb_valid (disk_bpb part)"
    and in_part: "geo_fat (bpb_geometry (disk_bpb part)) < len" "len < 2 ^ 31"
    and st: "dest_ok (mem_upper s) stack 64" "fs_clear stack 64"
    and media: "media_entry part (bpb_geometry (disk_bpb part))"
  shows "\<exists>s'. fat_mount rdev stack s = Some (True, s') \<and> usable s' \<and> errnum s' = ERR_NONE \<and> fat_mounted (bpb_geometry (disk_bpb part)) (mem s')
    \<and> sb (mem s') cached_fat = - 4096
    \<and> sb (mem s') root_cluster = (if bpb_fat_length (disk_bpb part) = 0 then bpb_root_cluster (disk_bpb part) else - 1)"
proof -
  define b where "b = disk_bpb part"
  let ?g = "bpb_geometry b"
  note vb = v [folded b_def]
  note vd = bpb_validD [OF vb]
  note sp = spc_bits [OF vd(2)]
  have nib: "geo_nibbles ?g \<in> {3, 4, 8}" by (simp add: bpb_geometry_def)
  obtain m1 t1 h1 where r1: "rdev (of_nat 0) (of_nat 0) (of_nat 64) stack s = Some (True, s\<lparr>mem := m1, errnum := ERR_NONE, buf_track := t1, hook := h1\<rparr>)"
    "usable (s\<lparr>mem := m1, errnum := ERR_NONE, buf_track := t1, hook := h1\<rparr>)" "\<forall>i < 64. m1 (stack + of_nat i) = part (0 * 2 ^ 9 + 0 + i)"
    using meta.inside [OF u, of 64 0 0 stack] st(1) in_part unfolding Let_def by auto
  let ?s1 = "s\<lparr>mem := m1, errnum := ERR_NONE, buf_track := t1, hook := h1\<rparr>"
  have bpb: "read_bpb m1 stack = b" unfolding b_def using r1(3) by (intro read_bpb_disk) simp
  define s3 where "s3 = set_sb clustsize_bits (of_nat (9 + cluster_bits b)) (set_sb sectsize_bits 9 ?s1)"
  have f3: "sb (mem s3) sectsize_bits = 9" "sb (mem s3) clustsize_bits = of_nat (9 + cluster_bits b)" by (simp_all add: s3_def)
  obtain s4 where s4: "fat_kind b (fill_super b s3) = (True, s4)" "fat_mounted ?g (mem s4)" "sb (mem s4) fat_length = of_nat (bpb_fat b)"
    "sb (mem s4) root_cluster = (if bpb_fat_length b = 0 then bpb_root_cluster b else - 1)"
    using fat_kind_mounts [OF vb f3] by blast
  have o4: "only_super ?s1 s4"
    by (rule fat_kind_only [OF fill_super_only s4(1)]) (simp add: s3_def only_super_set)
  have u4: "usable s4" by (rule only_super_usable [OF r1(2) o4])
  have same4: "mem_upper s4 = mem_upper s" using o4 by (auto simp: only_super_def)
  have d4: "dest_ok (mem_upper s4) stack 4" using dest_ok_part [OF st(1), of 0 4] by (simp add: same4)
  have gf: "geo_fat ?g < 2 ^ 31" "geo_fat ?g + (0 + 4 - 1) div 2 ^ 9 < len" using in_part b_def by simp_all
  obtain m5 t5 h5 where r5: "rdev (of_nat (geo_fat ?g)) (of_nat 0) (of_nat 4) stack s4 = Some (True, s4\<lparr>mem := m5, errnum := ERR_NONE, buf_track := t5, hook := h5\<rparr>)"
    "usable (s4\<lparr>mem := m5, errnum := ERR_NONE, buf_track := t5, hook := h5\<rparr>)"
    "same_outside (\<lambda>x. io_area x \<or> region stack 4 x) (mem s4) m5"
    "\<forall>i < 4. m5 (stack + of_nat i) = part (geo_fat ?g * 2 ^ 9 + 0 + i)"
    using meta.inside [OF u4 _ _ _ gf d4] unfolding Let_def by auto
  let ?s5 = "s4\<lparr>mem := m5, errnum := ERR_NONE, buf_track := t5, hook := h5\<rparr>"
  have sb5: "sb m5 f = sb (mem s4) f" for f by (rule sb_apart_same [OF r5(3) fs_clear_le [OF st(2)]]) simp
  have first: "peek32 m5 stack = le32 (m5 stack) (m5 (stack + 1)) (m5 (stack + 2)) (m5 (stack + 3))" by (simp add: peek32_def)
  have "media_ok (of_nat (geo_nibbles ?g)) (peek32 m5 stack)"
    using media_word [OF media [folded b_def] nib, of "\<lambda>i. m5 (stack + of_nat i)"] r5(4) unfolding first by simp
  then have mk: "media_ok (sb m5 fat_size) (peek32 m5 stack)" using s4(2) by (simp add: sb5 fat_mounted_def)
  have mount: "fat_mount rdev stack s = Some (True, set_sb cached_fat (- 2 * FAT_CACHE_SIZE) ?s5)"
  proof -
    have a: "\<not> 15 <s (9 :: u32)" by (simp add: word_sless_alt)
    have o: "sb (mem s4) fat_offset = of_nat (geo_fat ?g)" using s4(2) by (simp add: fat_mounted_def)
    have c: "set_sb clustsize_bits (9 + of_nat (cluster_bits b)) (set_sb sectsize_bits 9 ?s1) = s3" by (simp add: s3_def)
    have l: "log2_tmp (ucast (bytes_per_sect b)) = 9" using vd(1) log2_sector by simp
    show ?thesis
      using r1(1) r5(1) mk sp(3-5) vd(3) s4(1) super_saneI [OF vb s4(2,3)] f3(1) a
      by (simp add: fat_mount_def bpb l c o Let_def)
  qed
  let ?t = "set_sb cached_fat (- 2 * FAT_CACHE_SIZE) ?s5"
  have "usable ?t" by (rule set_sb_usable [OF r5(2)])
  moreover have "errnum ?t = ERR_NONE" by (simp add: set_sb_def)
  moreover have "fat_mounted ?g (mem ?t)" using s4(2) by (simp add: fat_mounted_def sb5)
  moreover have "sb (mem ?t) cached_fat = - 4096" by (simp add: FAT_CACHE_SIZE_def)
  moreover have "sb (mem ?t) root_cluster = (if bpb_fat_length b = 0 then bpb_root_cluster b else - 1)" using s4(4) by (simp add: sb5)
  ultimately show ?thesis using mount unfolding b_def by blast
qed

end

end
