(* ===== verification/FatName.thy ===== *)
theory FatName
imports FatSpec
begin

text \<open>
  Long names of FAT: the entries that hold a name leave it in the buffer.
\<close>

section \<open>The entries of a name\<close>

text \<open>
  The name is followed by a zero and ones; character \<open>j\<close> of entry \<open>k\<close>, counted from 1, is \<open>13 (k - 1) + j\<close>.  An entry is
  its number, five characters of two bytes, the attribute, a zero, the checksum, six characters, two zeros and two
  characters.
\<close>

definition name_char :: "u8 list \<Rightarrow> nat \<Rightarrow> u8" where
  "name_char name i = (if i < length name then name ! i else if i = length name then 0 else 0xFF)"

definition long_unit :: "u8 list \<Rightarrow> nat \<Rightarrow> nat \<Rightarrow> u8 list" where
  "long_unit name k j = [name_char name (13 * (k - 1) + j), if 13 * (k - 1) + j \<le> length name then 0 else 0xFF]"

definition long_entry :: "u8 list \<Rightarrow> u8 \<Rightarrow> nat \<Rightarrow> nat \<Rightarrow> u8 list" where
  "long_entry name ck n k =
     (of_nat k OR (if k = n then 0x40 else 0)) # concat (map (long_unit name k) [0, 1, 2, 3, 4]) @ [0x0F, 0, ck]
       @ concat (map (long_unit name k) [5, 6, 7, 8, 9, 10]) @ [0, 0] @ concat (map (long_unit name k) [11, 12])"

definition long_count :: "u8 list \<Rightarrow> nat" where
  "long_count name = (length name + 12) div 13"

text \<open>They stand in the directory in reverse.\<close>

definition long_entries :: "u8 list \<Rightarrow> u8 \<Rightarrow> u8 list list" where
  "long_entries name ck = map (long_entry name ck (long_count name)) (rev [1..<long_count name + 1])"

definition read_long :: "u8 list list \<Rightarrow> int \<times> int \<times> mem \<Rightarrow> int \<times> int \<times> mem" where
  "read_long ds st = fold (\<lambda>d (slot, alias, m). fat_long_entry d slot alias m) ds st"

section \<open>Reading them\<close>

lemma upt_13: "[0..<13] = [0, 1, 2, 3, 4, 5, 6, 7, 8, 9, 10, 11, 12 :: nat]"
  by code_simp

lemma long_entry_chars: "map ((!) (long_entry name ck n k)) longdir_pos = map (\<lambda>j. name_char name (13 * (k - 1) + j)) [0..<13]"
  unfolding upt_13 by (simp add: longdir_pos_def long_entry_def long_unit_def)

lemma long_entry_sum: "long_entry name ck n k ! 13 = ck" "long_entry name ck n k ! 0 = of_nat k OR (if k = n then 0x40 else 0)"
  by (simp_all add: long_entry_def long_unit_def)

lemma word8_of_unat: "unat (x :: u8) = n \<Longrightarrow> x = of_nat n"
  by (drule sym) simp

lemma small_id:
  assumes "k < 64"
  shows "(of_nat k :: u8) AND 0x40 = 0" "(of_nat k OR 0x40 :: u8) AND 0x40 = 0x40" "(of_nat k OR 0x40 :: u8) AND 0x3F = of_nat k"
    "uint (of_nat k :: u8) = int k"
proof -
  have m: "(0x3F :: u8) = mask 6" by (simp add: mask_eq_exp_minus_1)
  have u: "unat (of_nat k :: u8) = k" using assms by (simp add: unat_of_nat)
  have "unat (of_nat k AND mask 6 :: u8) = k"
    unfolding take_bit_eq_mask [symmetric] unsigned_take_bit_eq u using assms by (simp add: take_bit_eq_mod)
  then have t: "(of_nat k :: u8) AND mask 6 = of_nat k" by (rule word8_of_unat)
  have z: "(mask 6 :: u8) AND 0x40 = 0" by (simp add: mask_eq_exp_minus_1)
  have "(of_nat k :: u8) AND 0x40 = (of_nat k AND mask 6) AND 0x40" by (simp only: t)
  also have "\<dots> = 0" by (simp only: and.assoc z and_zero_eq)
  finally show "(of_nat k :: u8) AND 0x40 = 0" .
  show "(of_nat k OR 0x40 :: u8) AND 0x40 = 0x40" by (rule bit_word_eqI) (auto simp: bit_simps)
  have "(of_nat k OR 0x40 :: u8) AND mask 6 = (of_nat k AND mask 6) OR (0x40 AND mask 6)" by (rule bit_word_eqI) (auto simp: bit_simps)
  then show "(of_nat k OR 0x40 :: u8) AND 0x3F = of_nat k" unfolding m t using z by (simp add: and.commute)
  show "uint (of_nat k :: u8) = int k" by (simp add: uint_nat u)
qed

text \<open>One entry, when it is the last of the name, or the one in turn.\<close>

lemma fat_long_entry_last:
  assumes "0 < n" "n < 64"
  shows "fat_long_entry (long_entry name ck n n) slot alias m
    = (int n - 1, uint ck, poke (NAME_BUF + of_nat (13 * (n - 1))) (map (\<lambda>j. name_char name (13 * (n - 1) + j)) [0..<13])
        (m(NAME_BUF + of_nat (13 * n) := 0)))"
proof -
  have "(of_int ((int n - 1) * 13) :: u32) = of_nat (13 * (n - 1))" using assms(1) by (simp add: of_nat_diff algebra_simps)
  moreover have "(of_int (int n * 13) :: u32) = of_nat (13 * n)" by simp
  ultimately show ?thesis using assms small_id [OF assms(2)]
    unfolding fat_long_entry_def long_entry_sum long_entry_chars by (simp add: Let_def mult.commute)
qed

lemma fat_long_entry_turn:
  assumes "0 < k" "k < n" "n < 64"
  shows "fat_long_entry (long_entry name ck n k) (int k) (uint ck) m
    = (int k - 1, uint ck, poke (NAME_BUF + of_nat (13 * (k - 1))) (map (\<lambda>j. name_char name (13 * (k - 1) + j)) [0..<13]) m)"
proof -
  have "k < 64" using assms by simp
  moreover have "(of_int ((int k - 1) * 13) :: u32) = of_nat (13 * (k - 1))" using assms(1) by (simp add: of_nat_diff algebra_simps)
  ultimately show ?thesis using assms small_id [of k]
    unfolding fat_long_entry_def long_entry_sum long_entry_chars by (simp add: Let_def mult.commute)
qed

text \<open>The buffer after a poke.\<close>

lemma poke_behind:
  assumes "a < 2 ^ 31" "i < 2 ^ 31" "length bs < 2 ^ 31"
  shows "poke (B + of_nat a) bs m (B + of_nat i) = (if a \<le> i \<and> i < a + length bs then bs ! (i - a) else m (B + of_nat i))"
proof -
  have d: "B + of_nat i - (B + of_nat a) = (of_nat i - of_nat a :: u32)" by simp
  show ?thesis
  proof (cases "a \<le> i")
    case True
    then have "unat (of_nat i - of_nat a :: u32) = i - a" using assms by (intro unat_diff_up) simp_all
    then show ?thesis using True unfolding poke_def d by auto
  next
    case False
    then have "unat (of_nat i - of_nat a :: u32) = 2 ^ 32 + i - a" using assms by (intro unat_diff_wrap) simp_all
    then have "\<not> unat (of_nat i - of_nat a :: u32) < length bs" using assms by simp
    then show ?thesis using False unfolding poke_def d by simp
  qed
qed

definition name_from :: "u8 list \<Rightarrow> nat \<Rightarrow> nat \<Rightarrow> mem \<Rightarrow> bool" where
  "name_from name k n m \<longleftrightarrow> m (NAME_BUF + of_nat (13 * n)) = 0
     \<and> (\<forall>i. 13 * k \<le> i \<and> i < 13 * n \<longrightarrow> m (NAME_BUF + of_nat i) = name_char name i)"

lemma name_from_poke:
  assumes "0 < k" "k \<le> n" "n < 64" "m (NAME_BUF + of_nat (13 * n)) = 0"
    and "\<forall>i. 13 * k \<le> i \<and> i < 13 * n \<longrightarrow> m (NAME_BUF + of_nat i) = name_char name i"
  shows "name_from name (k - 1) n (poke (NAME_BUF + of_nat (13 * (k - 1))) (map (\<lambda>j. name_char name (13 * (k - 1) + j)) [0..<13]) m)"
proof -
  define a where "a = 13 * (k - 1)"
  define bs where "bs = map (\<lambda>j. name_char name (a + j)) [0..<13]"
  have a: "a < 2 ^ 31" "a + 13 = 13 * k" "length bs = 13" using assms(1-3) by (simp_all add: a_def bs_def)
  have nth: "bs ! (i - a) = name_char name i" if "a \<le> i" "i < a + 13" for i
  proof -
    have "i - a < 13" using that by linarith
    then show ?thesis using that by (simp add: bs_def)
  qed
  have p: "poke (NAME_BUF + of_nat a) bs m (NAME_BUF + of_nat i)
      = (if a \<le> i \<and> i < 13 * k then name_char name i else m (NAME_BUF + of_nat i))" if "i \<le> 13 * n" for i
  proof -
    have "poke (NAME_BUF + of_nat a) bs m (NAME_BUF + of_nat i)
        = (if a \<le> i \<and> i < a + length bs then bs ! (i - a) else m (NAME_BUF + of_nat i))"
      by (rule poke_behind) (use a that assms(3) in simp_all)
    then show ?thesis using a nth [of i] by auto
  qed
  have kn: "13 * k \<le> 13 * n" using assms(2) by simp
  show ?thesis unfolding a_def [symmetric] bs_def [symmetric] name_from_def
  proof (intro conjI allI impI)
    show "poke (NAME_BUF + of_nat a) bs m (NAME_BUF + of_nat (13 * n)) = 0"
      using p [of "13 * n"] assms(4) kn by (simp only:) simp
    fix i assume i: "a \<le> i \<and> i < 13 * n"
    then have "i \<le> 13 * n" by simp
    from p [OF this] show "poke (NAME_BUF + of_nat a) bs m (NAME_BUF + of_nat i) = name_char name i"
      using i assms(5) by (cases "i < 13 * k") auto
  qed
qed

lemma read_long_turns:
  "k < n \<Longrightarrow> n < 64 \<Longrightarrow> name_from name k n m \<Longrightarrow>
    \<exists>m'. read_long (map (long_entry name ck n) (rev [1..<k + 1])) (int k, uint ck, m) = (0, uint ck, m') \<and> name_from name 0 n m'"
proof (induction k arbitrary: m)
  case 0
  then show ?case by (simp add: read_long_def)
next
  case (Suc k)
  let ?m = "poke (NAME_BUF + of_nat (13 * k)) (map (\<lambda>j. name_char name (13 * k + j)) [0..<13]) m"
  have "name_from name k n ?m"
    using name_from_poke [of "Suc k" n m name] Suc.prems unfolding name_from_def by simp
  then obtain m' where m': "read_long (map (long_entry name ck n) (rev [1..<k + 1])) (int k, uint ck, ?m) = (0, uint ck, m')" "name_from name 0 n m'"
    using Suc.IH Suc.prems by fastforce
  have "fat_long_entry (long_entry name ck n (Suc k)) (int (Suc k)) (uint ck) m = (int k, uint ck, ?m)"
    using fat_long_entry_turn [of "Suc k" n name ck m] Suc.prems by simp
  moreover have "rev [1..<Suc k + 1] = Suc k # rev [1..<k + 1]" by simp
  ultimately show ?case using m' unfolding read_long_def by simp
qed

lemma read_long_all:
  assumes "name \<noteq> []" "length name \<le> 255"
  shows "\<exists>m'. read_long (long_entries name ck) (slot, alias, m) = (0, uint ck, m') \<and> peek m' NAME_BUF (length name + 1) = name @ [0]"
proof -
  let ?n = "long_count name"
  have n: "0 < ?n" "?n < 64" "length name \<le> 13 * ?n" using assms by (simp_all add: long_count_def Suc_le_eq div_greater_zero_iff)
  let ?m = "poke (NAME_BUF + of_nat (13 * (?n - 1))) (map (\<lambda>j. name_char name (13 * (?n - 1) + j)) [0..<13]) (m(NAME_BUF + of_nat (13 * ?n) := 0))"
  have "name_from name (?n - 1) ?n ?m"
  proof (rule name_from_poke [OF n(1) order.refl n(2)])
    show "(m(NAME_BUF + of_nat (13 * ?n) := 0)) (NAME_BUF + of_nat (13 * ?n)) = 0" by simp
    show "\<forall>i. 13 * ?n \<le> i \<and> i < 13 * ?n \<longrightarrow> (m(NAME_BUF + of_nat (13 * ?n) := 0)) (NAME_BUF + of_nat i) = name_char name i"
      by (auto simp del: fun_upd_apply)
  qed
  then obtain m' where m': "read_long (map (long_entry name ck ?n) (rev [1..<?n - 1 + 1])) (int (?n - 1), uint ck, ?m) = (0, uint ck, m')"
    "name_from name 0 ?n m'"
    using read_long_turns [of "?n - 1" ?n name ?m ck] n by auto
  have "rev [1..<?n + 1] = ?n # rev [1..<?n - 1 + 1]" using n(1) by (cases ?n) simp_all
  then have "read_long (long_entries name ck) (slot, alias, m) = (0, uint ck, m')"
    using m'(1) fat_long_entry_last [OF n(1,2), of name ck slot "alias" m] n(1) by (simp add: long_entries_def read_long_def of_nat_diff)
  moreover have "peek m' NAME_BUF (length name + 1) = name @ [0]"
  proof (rule nth_equalityI)
    fix i assume "i < length (peek m' NAME_BUF (length name + 1))"
    then have i: "i \<le> length name" by (simp add: peek_def)
    have "m' (NAME_BUF + of_nat i) = name_char name i"
    proof (cases "i < 13 * ?n")
      case True
      then show ?thesis using m'(2) by (simp add: name_from_def)
    next
      case False
      then have "i = 13 * ?n" "i = length name" using i n(3) by simp_all
      moreover have "m' (NAME_BUF + of_nat (13 * ?n)) = 0" using m'(2) unfolding name_from_def by blast
      ultimately show ?thesis by (simp only: name_char_def) simp
    qed
    then show "peek m' NAME_BUF (length name + 1) ! i = (name @ [0]) ! i"
      using i by (simp add: peek_def name_char_def nth_append del: upt_Suc)
  qed (simp add: peek_def)
  ultimately show ?thesis by blast
qed

end
