(* ===== verification/FatFile.thy ===== *)
theory FatFile
imports FatMount FatName
begin

text \<open>
  The FAT driver in the file layer: reading an open file, the entries of the table, the fault of its cache, mounting,
  and the long names of a directory.
\<close>

section \<open>Reading an open file\<close>

lemma rest_of_file:
  assumes "pos \<le> (fm :: u32)"
  shows "(if cnt > fm - pos then fm - pos else cnt) = of_nat (min (unat cnt) (unat fm - unat pos))"
proof -
  have u: "unat (fm - pos) = unat fm - unat pos" using assms by (rule unat_sub)
  show ?thesis
  proof (cases "cnt > fm - pos")
    case True
    then have "min (unat cnt) (unat fm - unat pos) = unat (fm - pos)" unfolding u [symmetric] by (simp add: word_less_nat_alt)
    then show ?thesis using True by simp
  next
    case False
    then have "min (unat cnt) (unat fm - unat pos) = unat cnt" unfolding u [symmetric] by (simp add: word_less_nat_alt)
    then show ?thesis using False by simp
  qed
qed

lemma no_limit: "\<not> (x :: u32) > MAXINT"
  using unat_u32 [of x] by (simp add: MAXINT_def word_less_nat_alt del: unat_u32)

text \<open>C2.  With a file on FAT open (its filesystem mounted, its chain of clusters long enough for its length), \<open>grub_read\<close>
  returns the number of bytes asked for, or what is left of the file; exactly the bytes of the file from \<open>filepos\<close> on are
  in the buffer, \<open>filepos\<close> has moved by their number, and the file is still open: the cursor stands at a cluster of
  the chain and the cache of the table holds what is on the disk.  No entry of the chain may straddle the lower
  end of a window of the table the driver caches.\<close>
theorem grub_read_fat_file:
  fixes s :: "('d, 'h, 'z) gstate"
  assumes f: "fat_file (edd_usable v drive geo disk N 9 spt start psize) (part_bytes disk 9 start) g
      (followed (part_bytes disk 9 start) g c L) c s"
    and st: "\<not> block_file s" "\<not> compressed_file s" "fsmax s = MAXINT" "fsys_type s < length tab" "tab ! fsys_type s = Some (fat_driver v stack)"
    and g: "fat_geometry_ok g (unat psize)" "2 \<le> c" "c < geo_clusters g"
    and chain: "windows_clear g (followed (part_bytes disk 9 start) g c L)" "chain (part_bytes disk 9 start) g c L \<noteq> None"
      "unat (filemax s) \<le> (L + 1) * 2 ^ geo_bits g" "unat (filemax s) < 2 ^ 31"
    and pos: "filepos s \<le> filemax s"
    and n: "n = min (unat cnt) (unat (filemax s) - unat (filepos s))"
    and d: "0 < n \<Longrightarrow> dest_ok (mem_upper s) B n" "fs_clear B n"
  shows "\<exists>s'. grub_read v tab gz B cnt s = Some (of_nat n, s') \<and> filepos s' = filepos s + of_nat n
    \<and> fat_file (edd_usable v drive geo disk N 9 spt start psize) (part_bytes disk 9 start) g
        (followed (part_bytes disk 9 start) g c L) c s'
    \<and> (\<forall>i < n. mem s' (B + of_nat i) = fat_file_byte (part_bytes disk 9 start) g c (unat (filepos s) + i))"
proof -
  have w: "(if cnt > filemax s - filepos s then filemax s - filepos s else cnt) = of_nat n"
    unfolding n by (rule rest_of_file [OF pos])
  have le: "unat (filepos s) \<le> unat (filemax s)" using pos by (simp add: word_le_nat_alt)
  then have fit: "unat (filepos s) + n \<le> unat (filemax s)" unfolding n by linarith
  have last: "(unat (filepos s) + n - 1) div 2 ^ geo_bits g \<le> L" if "0 < n"
  proof -
    have "unat (filepos s) + n - 1 < (L + 1) * 2 ^ geo_bits g" using that fit chain(3) by linarith
    then have "(unat (filepos s) + n - 1) div 2 ^ geo_bits g < L + 1" by (rule less_mult_imp_div_less)
    then show ?thesis by simp
  qed
  have read: "grub_read v tab gz B cnt s = fat_read (devread v) (devread (v\<lparr>disk_read_func := disk_read_hook v\<rparr>)) B (of_nat n) s"
  proof -
    have "\<not> filepos s > filemax s" using pos by simp
    moreover have "\<not> filepos s + of_nat n > fsmax s" unfolding st(3) by (rule no_limit)
    ultimately show ?thesis using st w
      by (simp add: grub_read_def Let_def fsys_of_def rd_def fat_driver_def)
  qed
  have L: "0 < n \<Longrightarrow> (unat (filepos s) + n - 1) div 2 ^ geo_bits g \<le> L
      \<and> chain (part_bytes disk 9 start) g c ((unat (filepos s) + n - 1) div 2 ^ geo_bits g) \<noteq> None"
    using last chain_before [OF chain(2)] by blast
  have "unat (filepos s) + n < 2 ^ 31" using fit chain(4) by linarith
  from edd_fat.fat_read_file [OF f d g chain(1) this L] show ?thesis unfolding read Let_def by auto
qed

text \<open>A file of two clusters on a partition with a FAT of 12 bits: cluster 2 leads to cluster 5, which ends it.\<close>

definition fat_demo_disk :: "nat \<Rightarrow> u8" where
  "fat_demo_disk i = (if i = 64 * 512 + 3 then 5 else if i = 64 * 512 + 4 then 0 else if i = 64 * 512 + 7 then 0xF0
     else if i = 64 * 512 + 8 then 0xFF else of_nat (i div 512))"

definition fat_demo_geometry :: fat_geometry where
  "fat_demo_geometry = \<lparr>geo_fat = 1, geo_nibbles = 3, geo_data = 10, geo_clusters = 50, geo_bits = 9\<rparr>"

abbreviation fat_demo_bios :: "(unit, unit) disk_env" where
  "fat_demo_bios \<equiv> image_bios fat_demo_disk (demo_geometry 1)"

abbreviation fat_demo_part :: "nat \<Rightarrow> u8" where
  "fat_demo_part \<equiv> part_bytes fat_demo_disk 9 63"

definition fat_demo_super :: "(fat_field \<times> u32) list" where
  "fat_demo_super = [(fat_offset, 1), (fat_size, 3), (data_offset, 10), (num_clust, 50), (clust_eof_marker, 0xFF8),
     (sectsize_bits, 9), (clustsize_bits, 9), (cached_fat, - 4096), (file_cluster, 2), (current_cluster_num, MAXINT)]"

definition fat_demo_state :: "(unit, unit) globals" where
  "fat_demo_state = fold (\<lambda>(f, x). set_sb f x) fat_demo_super
     ((demo_disk_state 1)\<lparr>filemax := 600, fsmax := MAXINT, fsys_type := 0, filepos := 0\<rparr>)"

lemma fat_demo_usable: "edd_usable fat_demo_bios 0x80 (demo_geometry 1) fat_demo_disk 1260 9 63 63 189 fat_demo_state"
proof -
  let ?s = "(demo_disk_state 1)\<lparr>filemax := 600, fsmax := MAXINT, fsys_type := 0, filepos := 0\<rparr>"
  have "buffer_ok 0x80 (demo_geometry 1) fat_demo_disk 1260 9 63 ?s"
    using demo_buffer [of 1 fat_demo_disk 1260 9 63] by (simp add: buffer_ok_def)
  moreover have "on_partition 0x80 63 189 1260 63 ?s"
    by (simp add: on_partition_def demo_disk_state_def globals_start_def) linarith
  ultimately have "edd_usable fat_demo_bios 0x80 (demo_geometry 1) fat_demo_disk 1260 9 63 63 189 ?s"
    using demo_edd by (simp add: edd_usable_def)
  then show ?thesis
    unfolding fat_demo_state_def fat_demo_super_def by (simp only: fold.simps case_prod_conv comp_def id_def) (intro edd_fat.set_sb_usable)
qed

lemma fat_demo_fields:
  "errnum fat_demo_state = ERR_NONE" "filemax fat_demo_state = 600" "fsmax fat_demo_state = MAXINT" "fsys_type fat_demo_state = 0"
  "filepos fat_demo_state = 0" "\<not> block_file fat_demo_state" "\<not> compressed_file fat_demo_state" "mem_upper fat_demo_state = 0x10000"
  by (simp_all add: fat_demo_state_def fat_demo_super_def set_sb_def demo_disk_state_def globals_start_def)

lemma fat_demo_part: "fat_demo_part i = fat_demo_disk (32256 + i)"
  by (simp add: part_bytes_def)

lemma fat_demo_entry: "table_entry fat_demo_part fat_demo_geometry 2 = 5"
proof -
  have "table_entry fat_demo_part fat_demo_geometry 2 = nibbles_value 3 6 (\<lambda>i. fat_demo_disk (32771 + i))"
    by (simp add: table_entry_def fat_demo_geometry_def fat_demo_part)
  also have "\<dots> = 5" by (simp add: nibbles_value_def fat_demo_disk_def)
  finally show ?thesis .
qed

lemma fat_demo_chain:
  "chain fat_demo_part fat_demo_geometry 2 0 = Some 2" "chain fat_demo_part fat_demo_geometry 2 1 = Some 5"
proof -
  have "next_cluster fat_demo_part fat_demo_geometry 2 = Some 5"
    unfolding next_cluster_def fat_demo_entry by (simp add: fat_demo_geometry_def end_mark_def)
  then show "chain fat_demo_part fat_demo_geometry 2 0 = Some 2" "chain fat_demo_part fat_demo_geometry 2 1 = Some 5"
    by simp_all
qed

lemma fat_demo_open:
  "fat_file (edd_usable fat_demo_bios 0x80 (demo_geometry 1) fat_demo_disk 1260 9 63 63 189) fat_demo_part fat_demo_geometry A 2 fat_demo_state"
proof -
  have "fat_mounted fat_demo_geometry (mem fat_demo_state)" "sb (mem fat_demo_state) cached_fat = - 4096"
    "sb (mem fat_demo_state) file_cluster = of_nat 2" "sb (mem fat_demo_state) current_cluster_num = MAXINT"
    by (simp_all add: fat_mounted_def fat_demo_state_def fat_demo_super_def fat_demo_geometry_def end_mark_def)
  then show ?thesis using fat_demo_usable fat_demo_fields(1) by (simp add: fat_file_def fat_ready_def table_cached_def)
qed

theorem grub_read_fat_file_witness:
  "\<exists>s'. grub_read fat_demo_bios [Some (fat_driver fat_demo_bios 0x3000)] demo_gunzip 0x8000 5000 fat_demo_state = Some (600, s')
    \<and> filepos s' = 600 \<and> mem s' (0x8000 + 511) = 73 \<and> mem s' (0x8000 + 512) = 76"
proof -
  have g: "fat_geometry_ok fat_demo_geometry (unat (189 :: u32))" "(2::nat) \<le> 2" "2 < geo_clusters fat_demo_geometry"
    by (simp_all add: fat_geometry_ok_def fat_demo_geometry_def)
  have "followed fat_demo_part fat_demo_geometry 2 1 = {2}" using fat_demo_chain by (auto simp: followed_def)
  then have w: "windows_clear fat_demo_geometry (followed fat_demo_part fat_demo_geometry 2 1)"
    by (simp add: windows_clear_def window_of_def straddles_def fat_demo_geometry_def)
  have c: "chain fat_demo_part fat_demo_geometry 2 1 \<noteq> None" using fat_demo_chain by simp
  have m: "unat (filemax fat_demo_state) \<le> (1 + 1) * 2 ^ geo_bits fat_demo_geometry" "unat (filemax fat_demo_state) < 2 ^ 31"
    "filepos fat_demo_state \<le> filemax fat_demo_state" "600 = min (unat (5000 :: u32)) (unat (filemax fat_demo_state) - unat (filepos fat_demo_state))"
    by (simp_all add: fat_demo_fields fat_demo_geometry_def)
  have d: "dest_ok (mem_upper fat_demo_state) 0x8000 600" unfolding fat_demo_fields by (rule dest_ok_low) simp_all
  have fs: "fs_clear 0x8000 600" by (rule fs_clear_low) simp
  have t: "fsys_type fat_demo_state < length [Some (fat_driver fat_demo_bios 0x3000)]"
    "[Some (fat_driver fat_demo_bios 0x3000)] ! fsys_type fat_demo_state = Some (fat_driver fat_demo_bios 0x3000)"
    by (simp_all add: fat_demo_fields)
  obtain s' where s': "grub_read fat_demo_bios [Some (fat_driver fat_demo_bios 0x3000)] demo_gunzip 0x8000 5000 fat_demo_state = Some (of_nat 600, s')"
    "filepos s' = filepos fat_demo_state + of_nat 600"
    "\<forall>i < 600. mem s' (0x8000 + of_nat i) = fat_file_byte fat_demo_part fat_demo_geometry 2 (unat (filepos fat_demo_state) + i)"
    using grub_read_fat_file [OF fat_demo_open fat_demo_fields(6,7,3) t g w c m d fs, of demo_gunzip] by blast
  have b: "fat_file_byte fat_demo_part fat_demo_geometry 2 511 = 73" "fat_file_byte fat_demo_part fat_demo_geometry 2 512 = 76"
    using fat_demo_chain
    by (simp_all add: fat_file_byte_def cluster_sector_def part_bytes_def fat_demo_disk_def fat_demo_geometry_def)
  show ?thesis using s'(1,2) s'(3) [rule_format, of 511] s'(3) [rule_format, of 512] b by (auto simp: fat_demo_fields)
qed

section \<open>Below the window\<close>

text \<open>C26.  The test whether an entry is in the cache takes an entry that starts below the cached window and ends at
  its lower end, or reaches into it, for a cached one: nothing is read, and the position leads to memory two gigabytes
  behind the cache.\<close>
theorem fat_cache_below_window:
  assumes "sb (mem s) cached_fat = of_nat (1024 * w)" "sb (mem s) fat_size = of_nat (geo_nibbles g)" "1024 * w < 2 ^ 31"
    and "straddles g d w" "geo_nibbles g \<in> {3, 4, 8}"
  shows "\<exists>pos. fat_cache rdev (of_nat (d * geo_nibbles g)) s = Some (Some pos, s) \<and> unat (drop_bit 1 pos) \<ge> 0x7FFFFFFC"
proof -
  let ?e = "d * geo_nibbles g" and ?nib = "geo_nibbles g"
  have st: "?e < 1024 * w" "1024 * w \<le> ?e + ?nib" "?nib \<le> 8" using assms(4,5) by (auto simp: straddles_def)
  have pos: "unat (of_nat ?e - of_nat (1024 * w) :: u32) = 2 ^ 32 + ?e - 1024 * w"
    using st assms(3) by (intro unat_diff_wrap) simp_all
  have "of_nat ?e - of_nat (1024 * w) + of_nat ?nib = (of_nat (?e + ?nib) - of_nat (1024 * w) :: u32)" by simp
  moreover have "unat (of_nat (?e + ?nib) - of_nat (1024 * w) :: u32) = ?e + ?nib - 1024 * w"
  proof (rule unat_diff_up)
    show "?e + ?nib < 2 ^ 32" using st assms(3) by simp
    show "1024 * w \<le> ?e + ?nib" by (rule st(2))
  qed
  ultimately have "unat (of_nat ?e - of_nat (1024 * w) + of_nat ?nib :: u32) = ?e + ?nib - 1024 * w" by (simp only:)
  then have "\<not> (of_nat ?e - of_nat (1024 * w) + of_nat ?nib :: u32) > 4096" using st by (simp add: word_less_nat_alt)
  then have "fat_cache rdev (of_nat ?e) s = Some (Some (of_nat ?e - of_nat (1024 * w)), s)"
    using assms(1,2) by (simp add: fat_cache_def FAT_CACHE_SIZE_def Let_def)
  moreover have "unat (drop_bit 1 (of_nat ?e - of_nat (1024 * w)) :: u32) \<ge> 0x7FFFFFFC"
    unfolding unat_drop pos using st by simp
  ultimately show ?thesis by blast
qed

theorem fat_cache_below_window_witness:
  "\<exists>pos. fat_cache (\<lambda>sec off n buf s. None) 1020 (set_sb cached_fat 1024 (set_sb fat_size 4 demo_file_state))
       = Some (Some pos, set_sb cached_fat 1024 (set_sb fat_size 4 demo_file_state)) \<and> unat (drop_bit 1 pos) \<ge> 0x7FFFFFFC"
proof -
  let ?g = "fat_demo_geometry\<lparr>geo_nibbles := 4\<rparr>" and ?s = "set_sb cached_fat 1024 (set_sb fat_size 4 demo_file_state)"
  have "sb (mem ?s) cached_fat = of_nat (1024 * 1)" "sb (mem ?s) fat_size = of_nat (geo_nibbles ?g)" "1024 * (1::nat) < 2 ^ 31"
    "straddles ?g 255 1" "geo_nibbles ?g \<in> {3, 4, 8}"
    by (simp_all add: straddles_def)
  from fat_cache_below_window [OF this, of "\<lambda>sec off n buf s. None"] show ?thesis by simp
qed

section \<open>The entries of the table\<close>

text \<open>C25.  The masks and shifts on the four bytes at the cache position compute the table's number: with entries of 3, 4
  or 8 nibbles, the entry in the word is the number in that many nibbles from the position on.\<close>
theorem fat_entry_is_number:
  assumes "nib \<in> {3, 4, 8}" "nib \<noteq> 3 \<Longrightarrow> even pos" "pos < 2 ^ 32"
  shows "unat (fat_entry (of_nat nib) (of_nat pos) (le32 (b 0) (b 1) (b 2) (b 3))) = nibbles_value nib pos b"
  using assms by (rule fat_entry_value)

theorem fat_entry_is_number_witness:
  "unat (fat_entry 3 7 (le32 0x50 0xF1 0xFF 0xFF)) = 0xF15"
proof -
  let ?b = "\<lambda>i :: nat. if i = 0 then 0x50 else if i = 1 then 0xF1 else 0xFF :: u8"
  have "unat (fat_entry (of_nat 3) (of_nat 7) (le32 (?b 0) (?b 1) (?b 2) (?b 3))) = nibbles_value 3 7 ?b"
    by (rule fat_entry_is_number) simp_all
  then show ?thesis by (simp add: nibbles_value_def)
qed

section \<open>Mounting\<close>

text \<open>C7.  On a partition whose first sector describes a FAT filesystem (sectors of 512 bytes, a power of two of them per
  cluster, one or two tables that hold an entry for each cluster, the numbers below the limits of \<open>int\<close>) and whose
  table starts with the media descriptor F0 or F8, \<open>fat_mount\<close> succeeds: the superblock holds the first sector of the
  active table, the size of an entry, the first sector of the data, the number of clusters, the end mark and the
  bits of a cluster's size, the cache of the table is empty, and the root directory is the cluster the sector names
  on FAT32 and -1 before.\<close>
theorem fat_mount_mounts:
  fixes s :: "('d, 'h, 'z) gstate"
  assumes "edd_usable v drive geo disk N 9 spt start psize s" "bpb_valid b" "b = disk_bpb (part_bytes disk 9 start)"
    and "geo_fat (bpb_geometry b) < unat psize" "unat psize < 2 ^ 31" "dest_ok (mem_upper s) stack 64" "fs_clear stack 64"
    and "media_entry (part_bytes disk 9 start) (bpb_geometry b)"
  shows "\<exists>s'. fat_mount (devread v) stack s = Some (True, s') \<and> edd_usable v drive geo disk N 9 spt start psize s' \<and> errnum s' = ERR_NONE
    \<and> fat_mounted (bpb_geometry b) (mem s') \<and> sb (mem s') cached_fat = - 4096
    \<and> sb (mem s') root_cluster = (if bpb_fat_length b = 0 then bpb_root_cluster b else - 1)"
  using edd_fat.fat_mount_fills [OF assms(1)] assms(2-8) by blast

definition fat_boot_sector :: "u8 list" where
  "fat_boot_sector = [0xEB, 0x3C, 0x90] @ cs ''MSDOS5.0'' @ [0, 2, 1, 1, 0, 1, 16, 0, 189, 0, 0xF0, 1, 0, 63, 0, 16, 0] @ replicate 36 0"

definition fat_boot_disk :: "nat \<Rightarrow> u8" where
  "fat_boot_disk i = (if i < 32256 then 0 else if i < 32320 then fat_boot_sector ! (i - 32256)
     else if i = 32768 then 0xF0 else if i = 32769 \<or> i = 32770 then 0xFF else 0)"

lemma fat_boot_bpb:
  "disk_bpb (part_bytes fat_boot_disk 9 63) = \<lparr>bytes_per_sect = 512, bpb_sects_per_clust = 1, reserved_sects = 1, num_fats = 1,
     dir_entries = 16, short_sectors = 189, bpb_fat_length = 1, secs_track = 63, bpb_heads = 16, long_sectors = 0, fat32_length = 0,
     bpb_flags = 0, bpb_root_cluster = 0\<rparr>"
proof -
  have p: "part_bytes fat_boot_disk 9 63 i = fat_boot_sector ! i" if "i < 64" for i
    using that by (simp add: part_bytes_def fat_boot_disk_def)
  have b: "fat_boot_sector = [0xEB, 0x3C, 0x90, 77, 83, 68, 79, 83, 53, 46, 48, 0, 2, 1, 1, 0, 1, 16, 0, 189, 0, 0xF0, 1, 0, 63, 0, 16, 0,
    0, 0, 0, 0, 0, 0, 0, 0, 0, 0, 0, 0, 0, 0, 0, 0, 0, 0, 0, 0, 0, 0, 0, 0, 0, 0, 0, 0, 0, 0, 0, 0, 0, 0, 0, 0]"
    by code_simp
  show ?thesis by (simp add: disk_bpb_def read_bpb_def peek16_def peek32_def p b le16_def le32_def)
qed

lemma fat_boot_geometry:
  "bpb_geometry (disk_bpb (part_bytes fat_boot_disk 9 63)) = \<lparr>geo_fat = 1, geo_nibbles = 3, geo_data = 3, geo_clusters = 188, geo_bits = 9\<rparr>"
  by (simp add: bpb_geometry_def fat_boot_bpb bpb_clusters_def bpb_total_def bpb_data_def bpb_fat_def active_only_def cluster_bits_def upt_rec)

theorem fat_mount_mounts_witness:
  "\<exists>s'. fat_mount (devread (image_bios fat_boot_disk (demo_geometry 1))) 0x3000 (demo_disk_state 1) = Some (True, s')
     \<and> fat_mounted \<lparr>geo_fat = 1, geo_nibbles = 3, geo_data = 3, geo_clusters = 188, geo_bits = 9\<rparr> (mem s')"
proof -
  let ?part = "part_bytes fat_boot_disk 9 63"
  have u: "edd_usable (image_bios fat_boot_disk (demo_geometry 1)) 0x80 (demo_geometry 1) fat_boot_disk 1260 9 63 63 189 (demo_disk_state 1)"
  proof -
    have "on_partition 0x80 63 189 1260 63 (demo_disk_state 1)"
      by (simp add: on_partition_def demo_disk_state_def globals_start_def) linarith
    then show ?thesis using demo_edd demo_buffer by (simp add: edd_usable_def)
  qed
  have v: "bpb_valid (disk_bpb ?part)"
    by (simp add: bpb_valid_def fat_boot_geometry) (simp add: fat_boot_bpb bpb_clusters_def bpb_total_def bpb_data_def bpb_fat_def active_only_def)
  have m: "media_entry ?part (bpb_geometry (disk_bpb ?part))"
    by (simp add: media_entry_def fat_boot_geometry table_entry_def nibbles_value_def part_bytes_def fat_boot_disk_def)
  have f: "geo_fat (bpb_geometry (disk_bpb ?part)) < unat (189 :: u32)" "unat (189 :: u32) < 2 ^ 31" by (simp_all add: fat_boot_geometry)
  have d: "dest_ok (mem_upper (demo_disk_state 1)) 0x3000 64" by (rule dest_ok_low) (simp_all add: demo_disk_state_def)
  have fs: "fs_clear 0x3000 64" by (rule fs_clear_low) simp
  from fat_mount_mounts [OF u v refl f d fs m] show ?thesis unfolding fat_boot_geometry by blast
qed

section \<open>Long names\<close>

text \<open>C24.  Reading the long-name entries of a name of up to 255 characters, in the order they have in a directory, leaves the
  name and a zero behind it in the name buffer, no entry outstanding, and their checksum to be compared with the
  entry of the file, whatever was read before.  The entries are given by their layout, field after field.\<close>
theorem long_name_read_back:
  assumes "name \<noteq> []" "length name \<le> 255"
  shows "\<exists>m'. read_long (long_entries name ck) (slot, alias_sum, m) = (0, uint ck, m') \<and> peek m' NAME_BUF (length name + 1) = name @ [0]"
  using assms by (rule read_long_all)

theorem long_name_read_back_witness:
  "\<exists>m'. read_long (long_entries (cs ''a long name'') 7) (-2, -1, \<lambda>a. 0) = (0, 7, m') \<and> peek m' NAME_BUF 12 = cs ''a long name'' @ [0]"
proof -
  have l: "length (cs ''a long name'') + 1 = 12" "cs ''a long name'' \<noteq> []" "length (cs ''a long name'') \<le> 255" "uint (7 :: u8) = 7"
    by simp_all
  from long_name_read_back [OF l(2,3), of 7 "-2" "-1" "\<lambda>a. 0"] show ?thesis unfolding l(1,4) .
qed

end
