(* ===== verification/MenuConfig.thy ===== *)
theory MenuConfig
imports Builtins
begin

text \<open>
  The configuration file, as \<open>cmain\<close> of \<open>stage2/stage2.c\<close> loads it: the preset menu, \<open>get_line_from_config\<close>, the areas
  of commands and titles, the commands before the first title, and the checks of \<open>fallback\<close> and \<open>default\<close>.  The two areas
  are lists as long as \<open>config_len\<close> and \<open>menu_len\<close>; their place in memory does not matter.
\<close>

section \<open>Sources\<close>

text \<open>\<open>preset_text\<close> is the string \<open>preset_menu\<close> points to, which is an address, 0 for \<open>NULL\<close>.\<close>

record preset =
  preset_menu :: u32
  preset_text :: cbuf
  preset_menu_offset :: nat

definition open_preset_menu :: "preset \<Rightarrow> bool \<times> preset" where
  "open_preset_menu p = (preset_menu p \<noteq> 0, p\<lparr>preset_menu_offset := 0\<rparr>)"

definition read_from_preset_menu :: "nat \<Rightarrow> preset \<Rightarrow> (u8 list \<times> preset) option" where
  "read_from_preset_menu mlen p =
     (if preset_menu p = 0 then Some ([], p)
      else do { str \<leftarrow> str_of (preset_text p) (preset_menu_offset p);
                let l = take mlen str;
                Some (l, p\<lparr>preset_menu_offset := preset_menu_offset p + length l\<rparr>) })"

definition close_preset_menu :: "preset \<Rightarrow> preset" where
  "close_preset_menu p = p\<lparr>preset_menu := 0\<rparr>"

text \<open>A source gives the next byte, or none at the end.\<close>

type_synonym 's byte_source = "'s \<Rightarrow> (u8 option \<times> 's) option"

definition preset_byte :: "preset byte_source" where
  "preset_byte p = do { (l, p') \<leftarrow> read_from_preset_menu 1 p; Some (case l of [] \<Rightarrow> None | c # _ \<Rightarrow> Some c, p') }"

text \<open>\<open>grub_read (&c, 1)\<close>, with the variable \<open>c\<close> at the address \<open>stack\<close>.\<close>

definition file_byte_source :: "('d, 'h, 'e) cmd_env \<Rightarrow> u32 \<Rightarrow> ('d, 'h, 'e) mshell byte_source" where
  "file_byte_source v stack s =
     do { (n, s1) \<leftarrow> grub_read (disks v) (fsystems v) (unzip v) stack 1 s;
          Some (if n = 0 then None else Some (mem s1 stack), s1) }"

section \<open>Lines\<close>

text \<open>
  One turn of \<open>get_line_from_config\<close> with the character \<open>c0\<close>: the line so far, \<open>literal\<close> and \<open>comment\<close>.  \<open>Inl\<close> leaves the loop.
\<close>

definition config_char :: "nat \<Rightarrow> u8 \<Rightarrow> u8 list \<times> bool \<times> bool \<Rightarrow> u8 list + u8 list \<times> bool \<times> bool" where
  "config_char mlen c0 st =
     (case st of (l0, literal0, comment) \<Rightarrow>
        if c0 = 13 then Inr st
        else let c1 = (if c0 = 9 then 32 else c0);
                 joined = (literal0 \<and> c1 = 10);
                 c = (if joined then 32 else c1);
                 l = (if joined then butlast l0 else l0);
                 literal = (c = 92)
             in if comment then Inr (l, literal, c \<noteq> 10)
                else if l = [] then
                  (if c = ch CHR ''#'' then Inr (l, literal, True)
                   else Inr (if c \<noteq> 32 \<and> c \<noteq> 10 then [c] else [], literal, False))
                else if c = 10 then Inl l
                else Inr (if length l < mlen then l @ [c] else l, literal, False))"

partial_function (option) config_line :: "'s byte_source \<Rightarrow> nat \<Rightarrow> u8 list \<times> bool \<times> bool \<Rightarrow> 's \<Rightarrow> (u8 list \<times> 's) option" where
  "config_line src mlen st s =
     do { (r, s1) \<leftarrow> src s;
          case r of None \<Rightarrow> Some (fst st, s1)
          | Some c \<Rightarrow> (case config_char mlen c st of Inl l \<Rightarrow> Some (l, s1) | Inr st' \<Rightarrow> config_line src mlen st' s1) }"

text \<open>The characters stored, behind which stands a zero; their number is the result.\<close>

definition get_line_from_config :: "'s byte_source \<Rightarrow> nat \<Rightarrow> 's \<Rightarrow> (u8 list \<times> 's) option" where
  "get_line_from_config src mlen s = config_line src mlen ([], False, False) s"

section \<open>The areas\<close>

record cfg =
  cfg_state :: nat
  num_entries :: nat
  config_entries :: "u8 list"
  menu_entries :: "u8 list"
  prev_config_len :: nat
  prev_menu_len :: nat

definition cfg_start :: cfg where
  "cfg_start = \<lparr>cfg_state = 0, num_entries = 0, config_entries = [], menu_entries = [], prev_config_len = 0, prev_menu_len = 0\<rparr>"

definition config_title :: "u8 list \<Rightarrow> cfg \<Rightarrow> cfg" where
  "config_title t c =
     (let c1 = (if cfg_state c > 1
                then c\<lparr>num_entries := num_entries c + 1, config_entries := config_entries c @ [0],
                       prev_menu_len := length (menu_entries c), prev_config_len := length (config_entries c) + 1\<rparr>
                else c\<lparr>menu_entries := take (prev_menu_len c) (menu_entries c), config_entries := take (prev_config_len c) (config_entries c)\<rparr>)
      in c1\<lparr>cfg_state := 1, menu_entries := menu_entries c1 @ t @ [0]\<rparr>)"

definition config_menu_command :: "u8 list \<Rightarrow> cfg \<Rightarrow> cfg" where
  "config_menu_command str c =
     c\<lparr>config_entries := config_entries c @ str @ [0], prev_config_len := length (config_entries c) + length str + 1\<rparr>"

definition config_entry_command :: "u8 list \<Rightarrow> cfg \<Rightarrow> cfg" where
  "config_entry_command str c =
     c\<lparr>cfg_state := cfg_state c + 1,
       config_entries := config_entries c @ (if num_entries c = 0 \<and> cfg_state c = 1 then [0] else []) @ str @ [0]\<rparr>"

text \<open>The body of the loop over the lines; \<open>cmdline\<close> is the object \<open>heap\<close> here.\<close>

definition config_command :: "('d, 'h, 'w) shell_env \<Rightarrow> u8 list \<Rightarrow> cfg \<Rightarrow> ('d, 'h, 'w) shell \<Rightarrow> (cfg \<times> ('d, 'h, 'w) shell) option" where
  "config_command v line c s =
     do { (r, s1) \<leftarrow> find_command v 0 (s\<lparr>heap := line @ [0]\<rparr>);
          let s2 = s1\<lparr>errnum := ERR_NONE\<rparr>;
          case r of None \<Rightarrow> Some (c, s2)
          | Some b \<Rightarrow>
              if flags b AND BUILTIN_TITLE \<noteq> 0 then
                do { ptr \<leftarrow> skip_to True (heap s2) 0; t \<leftarrow> str_of (heap s2) ptr; Some (config_title t c, s2) }
              else
                do { str \<leftarrow> str_of (heap s2) 0;
                     Some (if cfg_state c = 0 then (if flags b AND BUILTIN_MENU \<noteq> 0 then config_menu_command str c else c)
                           else config_entry_command str c, s2) } }"

partial_function (option) config_lines :: "('d, 'h, 'w) shell_env \<Rightarrow> nat \<Rightarrow> ('p \<times> ('d, 'h, 'w) shell) byte_source \<Rightarrow> cfg \<Rightarrow> 'p \<times> ('d, 'h, 'w) shell \<Rightarrow> (cfg \<times> 'p \<times> ('d, 'h, 'w) shell) option" where
  "config_lines v mlen src c ps =
     do { (line, ps1) \<leftarrow> get_line_from_config src mlen ps;
          if line = [] then Some (c, ps1)
          else do { (c', s2) \<leftarrow> config_command v line c (snd ps1);
                    config_lines v mlen src c' (fst ps1, s2) } }"

text \<open>The end of the areas; the titles follow the commands in memory then.\<close>

definition config_finish :: "cfg \<Rightarrow> cfg" where
  "config_finish c =
     (let c1 = (if cfg_state c > 1 then c\<lparr>num_entries := num_entries c + 1, config_entries := config_entries c @ [0]\<rparr>
                else c\<lparr>menu_entries := take (prev_menu_len c) (menu_entries c), config_entries := take (prev_config_len c) (config_entries c)\<rparr>)
      in c1\<lparr>menu_entries := menu_entries c1 @ [0], config_entries := config_entries c1 @ [0]\<rparr>)"

section \<open>The commands before the first title\<close>

text \<open>The two operators and the plain command; the last component says that the latter was run.\<close>

definition menu_op :: "('d, 'h, 'w) shell_env \<Rightarrow> ('d, 'h, 'w) builtin \<Rightarrow> nat \<Rightarrow> u8 \<Rightarrow> ('d, 'h, 'w) shell \<Rightarrow> ('d, 'h, 'w) shell option" where
  "menu_op v b arg1 c s =
     do { arg \<leftarrow> skip_to False (heap s) arg1;
          (r, s1) \<leftarrow> find_command v arg s;
          case r of None \<Rightarrow> Some (s1\<lparr>errnum := ERR_UNRECOGNIZED\<rparr>)
          | Some b1 \<Rightarrow>
              if flags b1 AND BUILTIN_MENU = 0 then Some (s1\<lparr>errnum := ERR_UNRECOGNIZED\<rparr>)
              else
                do { h1 \<leftarrow> wr (heap s1) arg1 0;
                     a \<leftarrow> skip_to True h1 0;
                     (ret, s2) \<leftarrow> func b a BUILTIN_MENU (s1\<lparr>heap := h1\<rparr>);
                     h2 \<leftarrow> wr (heap s2) arg1 c;
                     let s3 = s2\<lparr>heap := h2\<rparr>;
                     if (c = ch CHR ''&'' \<and> ret \<noteq> 0) \<or> (c = ch CHR ''|'' \<and> ret = 0)
                     then do { arg' \<leftarrow> skip_to True (heap s3) arg; (_, s4) \<leftarrow> func b1 arg' BUILTIN_MENU s3; Some s4 }
                     else Some s3 } }"

definition menu_exec :: "('d, 'h, 'w) shell_env \<Rightarrow> ('d, 'h, 'w) builtin \<Rightarrow> ('d, 'h, 'w) shell \<Rightarrow> (bool \<times> ('d, 'h, 'w) shell) option" where
  "menu_exec v b s =
     do { a0 \<leftarrow> skip_to False (heap s) 0;
          r \<leftarrow> find_op (heap s) a0;
          case r of Some (arg1, c) \<Rightarrow> do { s1 \<leftarrow> menu_op v b arg1 c s; Some (False, s1) }
          | None \<Rightarrow> do { arg \<leftarrow> (if is_commandline_func b then Some 0 else skip_to True (heap s) 0);
                         (_, s1) \<leftarrow> func b arg BUILTIN_MENU s; Some (True, s1) } }"

text \<open>With \<open>debug_boot\<close> set, \<open>debug\<close> is kept at 2 and the value asked for is remembered in \<open>old_debug\<close>.\<close>

partial_function (option) menu_commands :: "('d, 'h, 'w) shell_env \<Rightarrow> bool \<Rightarrow> cbuf \<Rightarrow> nat \<Rightarrow> u32 \<Rightarrow> ('d, 'h, 'w) shell \<Rightarrow> (nat \<times> u32 \<times> ('d, 'h, 'w) shell) option" where
  "menu_commands v debug_boot config cur old_debug s =
     do { entry \<leftarrow> str_of config cur;
          h \<leftarrow> copy_obj (heap s) 0 config cur (length entry + 1);
          let cur' = cur + length entry + 1;
          if entry = [] \<and> \<not> kernel_loaded s then Some (cur', old_debug, s\<lparr>heap := h\<rparr>)
          else
            do { h' \<leftarrow> (if entry = [] then copy_obj h 0 (cs ''boot'' @ [0]) 0 5 else Some h);
                 (r, s1) \<leftarrow> find_command v 0 (s\<lparr>heap := h'\<rparr>);
                 case r of None \<Rightarrow> menu_commands v debug_boot config cur' old_debug (print_tty [Print (entry @ [10])] s1)
                 | Some b \<Rightarrow>
                     if flags b AND BUILTIN_MENU = 0 then menu_commands v debug_boot config cur' old_debug s1
                     else
                       do { (plain, s2) \<leftarrow> menu_exec v b s1;
                            let kept = (plain \<and> debug_boot \<and> debug s2 < 2);
                            let od = (if kept then debug s2 else old_debug);
                            let s3 = (if kept then s2\<lparr>debug := 2\<rparr> else s2);
                            if entry = [] then Some (cur', od, s3) else menu_commands v debug_boot config cur' od s3 } } }"

definition run_menu_commands :: "('d, 'h, 'w) shell_env \<Rightarrow> bool \<Rightarrow> cbuf \<Rightarrow> ('d, 'h, 'w) shell \<Rightarrow> (nat \<times> ('d, 'h, 'w) shell) option" where
  "run_menu_commands v debug_boot config s =
     do { s1 \<leftarrow> init_cmdline v s;
          (cur, old_debug, s2) \<leftarrow> menu_commands v debug_boot config 0 1 s1;
          let s3 = (if debug_boot then print_tty [Print (10 # 10 # cs ''End of menu init commands. Press any key to enter command-line or run menu...'')]
                                         (s2\<lparr>debug := old_debug\<rparr>) else s2);
          Some (cur, s3\<lparr>errnum := ERR_NONE\<rparr>) }"

section \<open>\<open>fallback\<close> and \<open>default\<close>\<close>

text \<open>Entries that do not exist are taken out of the list; the last one of the array is then doubled.\<close>

partial_function (option) valid_fallbacks :: "nat \<Rightarrow> nat \<Rightarrow> u32 list \<Rightarrow> u32 list option" where
  "valid_fallbacks num i es =
     (if i \<ge> MAX_FALLBACK_ENTRIES then Some es
      else do { e \<leftarrow> rd es i;
                if e <s 0 then Some es
                else if of_nat num \<le>s e then valid_fallbacks num i (take i es @ drop (i + 1) es @ [last es])
                else valid_fallbacks num (i + 1) es })"

definition check_fallbacks :: "nat \<Rightarrow> ('d, 'h, 'e) mshell \<Rightarrow> ('d, 'h, 'e) mshell option" where
  "check_fallbacks num s =
     (if fallback_entryno s \<ge> 0 then
        do { es \<leftarrow> valid_fallbacks num 0 (fallback_entries (world s));
             e0 \<leftarrow> rd es 0;
             let s1 = on_world (\<lambda>w. w\<lparr>fallback_entries := es\<rparr>) s;
             Some (if e0 <s 0 then s1\<lparr>fallback_entryno := -1\<rparr> else s1) }
      else Some s)"

text \<open>Going to the next fallback entry, also when an entry could not be booted.\<close>

definition next_fallback :: "('d, 'h, 'e) mshell \<Rightarrow> ('d, 'h, 'e) mshell option" where
  "next_fallback s =
     (let n = fallback_entryno s + 1
      in if n \<ge> int MAX_FALLBACK_ENTRIES then Some (s\<lparr>fallback_entryno := -1\<rparr>)
         else do { e \<leftarrow> rd (fallback_entries (world s)) (nat n);
                   Some (s\<lparr>fallback_entryno := (if e <s 0 then -1 else n)\<rparr>) })"

definition check_default :: "nat \<Rightarrow> ('d, 'h, 'e) mshell \<Rightarrow> ('d, 'h, 'e) mshell option" where
  "check_default num s =
     (if of_nat num \<le>s default_entry (world s) then
        if fallback_entryno s \<ge> 0 then
          do { e0 \<leftarrow> rd (fallback_entries (world s)) 0;
               next_fallback (on_world (\<lambda>w. w\<lparr>default_entry := e0\<rparr>) s) }
        else Some (on_world (\<lambda>w. w\<lparr>default_entry := 0\<rparr>) s)
      else Some s)"

end
