(* ===== verification/MenuRun.thy ===== *)
theory MenuRun
imports MenuConfig "HOL-Library.Signed_Division"
begin

text \<open>
  The menu of \<open>stage2/stage2.c\<close>: \<open>get_entry\<close>, \<open>print_entry\<close>, \<open>print_entries\<close>, and \<open>run_menu\<close> with its keys.  The
  area holds the commands, the titles behind them and what is copied behind those; an index in it stands for a pointer.
\<close>

section \<open>Finding an entry\<close>

function next_entry :: "cbuf \<Rightarrow> bool \<Rightarrow> nat \<Rightarrow> nat option" where
  "next_entry b nested p =
     do { str \<leftarrow> str_of b p;
          let p1 = p + length str + 1;
          if nested then do { c \<leftarrow> rd b p1; if c \<noteq> 0 then next_entry b nested (p1 + 1) else Some (p1 + 1) }
          else Some p1 }"
  by pat_completeness auto
termination
  by (relation "measure (\<lambda>(b, nested, p). length b - p)") (auto simp: rd_eq_Some)

declare next_entry.simps [simp del]

primrec get_entry_nat :: "cbuf \<Rightarrow> bool \<Rightarrow> nat \<Rightarrow> nat \<Rightarrow> nat option" where
  "get_entry_nat b nested 0 p = Some p"
| "get_entry_nat b nested (Suc n) p = do { q \<leftarrow> next_entry b nested p; get_entry_nat b nested n q }"

definition get_entry :: "cbuf \<Rightarrow> nat \<Rightarrow> int \<Rightarrow> bool \<Rightarrow> nat option" where
  "get_entry b p n nested = get_entry_nat b nested (nat n) p"

section \<open>Drawing\<close>

text \<open>What is drawn in the box: a line with its highlight, the characters at the upper and the lower end of the border,
  and the border, which are rows with their line and first column.
  Everything else goes to \<open>out\<close>.\<close>

datatype menu_draw = Line int bool "u8 list" | UpMark u8 | DownMark u8 | Border "(nat \<times> nat \<times> u8 list) list"

definition MENU_BOX_W :: nat where "MENU_BOX_W = 76"
definition DISP_RIGHT :: u8 where "DISP_RIGHT = 0x1a"
definition DISP_UP :: u8 where "DISP_UP = 0x18"
definition DISP_DOWN :: u8 where "DISP_DOWN = 0x19"
definition DISP_VERT :: u8 where "DISP_VERT = 179"

text \<open>The characters of a line: a space, then the columns from 2 to 77.\<close>

definition entry_text :: "u8 list \<Rightarrow> u8 list" where
  "entry_text str =
     (let t = take (MENU_BOX_W - 2) str
      in 32 # t @ (if MENU_BOX_W - 2 < length str then [DISP_RIGHT, 32] else replicate (MENU_BOX_W - length t) 32))"

definition print_entry :: "cbuf \<Rightarrow> int \<Rightarrow> bool \<Rightarrow> nat \<Rightarrow> menu_draw option" where
  "print_entry b y highlight p = do { str \<leftarrow> str_of b p; Some (Line y highlight (entry_text str)) }"

definition print_border :: "nat \<Rightarrow> nat \<Rightarrow> (nat \<times> nat \<times> u8 list) list" where
  "print_border y n =
     (y, 0, 218 # replicate (MENU_BOX_W + 1) 196 @ [191])
       # concat (map (\<lambda>i. [(y + i, 0, [DISP_VERT]), (y + i, MENU_BOX_W + 2, [DISP_VERT])]) [1..<n + 1])
       @ [(y + n + 1, 0, 192 # replicate (MENU_BOX_W + 1) 196 @ [217])]"

text \<open>The pointer moves over the string, and over its end if there was a character.\<close>

primrec draw_lines :: "cbuf \<Rightarrow> int \<Rightarrow> nat \<Rightarrow> int \<Rightarrow> nat \<Rightarrow> (menu_draw list \<times> nat) option" where
  "draw_lines b entryno 0 i p = Some ([], p)"
| "draw_lines b entryno (Suc n) i p =
     do { d \<leftarrow> print_entry b i (entryno = i) p;
          str \<leftarrow> str_of b p;
          let q = p + length str;
          c \<leftarrow> (if q = 0 then None else rd b (q - 1));
          (ds, r) \<leftarrow> draw_lines b entryno n (i + 1) (if c \<noteq> 0 then q + 1 else q);
          Some (d # ds, r) }"

definition print_entries :: "cbuf \<Rightarrow> nat \<Rightarrow> int \<Rightarrow> int \<Rightarrow> int \<Rightarrow> menu_draw list option" where
  "print_entries b menu_at h first entryno =
     do { p \<leftarrow> get_entry b menu_at first False;
          (ds, q) \<leftarrow> draw_lines b entryno (nat h) 0 p;
          c \<leftarrow> rd b q;
          Some (UpMark (if first \<noteq> 0 then DISP_UP else DISP_VERT) # ds @ [DownMark (if c \<noteq> 0 then DISP_DOWN else DISP_VERT)]) }"

section \<open>Keys\<close>

definition KEY_UP :: u32 where "KEY_UP = 0x4800"
definition KEY_DOWN :: u32 where "KEY_DOWN = 0x5000"
definition KEY_HOME :: u32 where "KEY_HOME = 0x4700"
definition KEY_END :: u32 where "KEY_END = 0x4F00"
definition KEY_NPAGE :: u32 where "KEY_NPAGE = 0x5100"
definition KEY_PPAGE :: u32 where "KEY_PPAGE = 0x4900"

text \<open>The variables of \<open>run_menu\<close>; \<open>area\<close> ends where \<open>heap\<close> points to.\<close>

record view =
  first_entry :: int
  entryno :: int
  temp_entryno :: int
  entries_no :: int
  area :: cbuf
  drawn :: "menu_draw list"

text \<open>The terminal: \<open>MENU_BOX_H\<close> and \<open>TERM_DUMB\<close>; the area of the menu: \<open>menu_entries\<close>, and \<open>config_entries\<close>, if not \<open>NULL\<close>.\<close>

record menu_env =
  box_h :: int
  dumb :: bool
  menu_at :: nat
  config_at :: "nat option"

definition redraw :: "menu_env \<Rightarrow> view \<Rightarrow> view option" where
  "redraw v w = do { ds \<leftarrow> print_entries (area w) (menu_at v) (box_h v) (first_entry w) (entryno w); Some (w\<lparr>drawn := drawn w @ ds\<rparr>) }"

text \<open>Print the selected entry.\<close>

definition draw_selected :: "menu_env \<Rightarrow> bool \<Rightarrow> view \<Rightarrow> view option" where
  "draw_selected v highlight w =
     do { p \<leftarrow> get_entry (area w) (menu_at v) (first_entry w + entryno w) False;
          d \<leftarrow> print_entry (area w) (entryno w) highlight p;
          Some (w\<lparr>drawn := drawn w @ [d]\<rparr>) }"

definition move_selected :: "menu_env \<Rightarrow> int \<Rightarrow> view \<Rightarrow> view option" where
  "move_selected v d w = do { w1 \<leftarrow> draw_selected v False w; draw_selected v True (w1\<lparr>entryno := entryno w1 + d\<rparr>) }"

definition key_up :: "menu_env \<Rightarrow> view \<Rightarrow> view option" where
  "key_up v w0 =
     (let w = w0\<lparr>temp_entryno := 0\<rparr>
      in if dumb v then Some (if entryno w > 0 then w\<lparr>entryno := entryno w - 1\<rparr> else w)
         else if entryno w > 0 then move_selected v (- 1) w
         else if first_entry w > 0 then redraw v (w\<lparr>first_entry := first_entry w - 1\<rparr>)
         else Some w)"

definition key_down :: "menu_env \<Rightarrow> view \<Rightarrow> view option" where
  "key_down v w0 =
     (let w = w0\<lparr>temp_entryno := 0\<rparr>
      in if dumb v then Some (w\<lparr>entryno := entryno w + 1\<rparr>)
         else if entryno w < box_h v - 1 then move_selected v 1 w
         else if entries_no w > box_h v + first_entry w then redraw v (w\<lparr>first_entry := first_entry w + 1\<rparr>)
         else Some w)"

definition page_up :: "menu_env \<Rightarrow> view \<Rightarrow> view option" where
  "page_up v w =
     (let f = first_entry w - box_h v
      in redraw v (if f < 0 then w\<lparr>temp_entryno := 0, first_entry := 0, entryno := (if entryno w + f < 0 then 0 else entryno w + f)\<rparr>
                   else w\<lparr>temp_entryno := 0, first_entry := f\<rparr>))"

definition page_down :: "menu_env \<Rightarrow> view \<Rightarrow> view option" where
  "page_down v w =
     (let f = first_entry w + box_h v
      in redraw v (if f + entryno w + 1 \<ge> entries_no w
                   then let f' = (if entries_no w - box_h v < 0 then 0 else entries_no w - box_h v)
                        in w\<lparr>temp_entryno := 0, first_entry := f', entryno := entries_no w - f' - 1\<rparr>
                   else w\<lparr>temp_entryno := 0, first_entry := f\<rparr>))"

text \<open>The label \<open>check_update\<close>; the divisions of C truncate.\<close>

definition check_update :: "menu_env \<Rightarrow> view \<Rightarrow> view option" where
  "check_update v w =
     (if temp_entryno w \<noteq> first_entry w + entryno w
      then redraw v (w\<lparr>first_entry := (temp_entryno w sdiv box_h v) * box_h v, entryno := temp_entryno w smod box_h v\<rparr>)
      else Some w)"

definition after_update :: "view \<Rightarrow> view" where
  "after_update w = (if temp_entryno w * 10 \<ge> entries_no w then w\<lparr>temp_entryno := 0\<rparr> else w)"

definition key_digit :: "menu_env \<Rightarrow> int \<Rightarrow> view \<Rightarrow> view option" where
  "key_digit v d w =
     (let t = temp_entryno w * 10 + d;
          t' = (if t \<ge> entries_no w then (if d \<ge> entries_no w then 0 else d) else t);
          w1 = w\<lparr>temp_entryno := t'\<rparr>
      in do { w2 \<leftarrow> (if t' \<noteq> 0 \<or> d = 0 then check_update v w1 else Some w1); Some (after_update w2) })"

definition key_jump :: "menu_env \<Rightarrow> int \<Rightarrow> view \<Rightarrow> view option" where
  "key_jump v t w = do { w1 \<leftarrow> check_update v (w\<lparr>temp_entryno := t\<rparr>); Some (after_update w1) }"

definition char_of :: "u32 \<Rightarrow> u8" where "char_of c = ucast c"

definition nav_key :: "menu_env \<Rightarrow> u32 \<Rightarrow> view \<Rightarrow> view option" where
  "nav_key v c w =
     (let ch8 = char_of c
      in if c = KEY_UP \<or> ch8 = ch CHR ''^'' then key_up v w
         else if (c = KEY_DOWN \<or> ch8 = ch CHR ''v'') \<and> first_entry w + entryno w + 1 < entries_no w then key_down v w
         else if c = KEY_PPAGE then page_up v w
         else if c = KEY_NPAGE then page_down v w
         else if ch CHR ''0'' \<le> ch8 \<and> ch8 \<le> ch CHR ''9'' then key_digit v (uint (ch8 - ch CHR ''0'')) w
         else if c = KEY_HOME then key_jump v 0 w
         else if c = KEY_END then key_jump v (entries_no w - 1) w
         else Some (w\<lparr>temp_entryno := 0\<rparr>))"

section \<open>Editing the list\<close>

definition edit_insert :: "menu_env \<Rightarrow> view \<Rightarrow> view option" where
  "edit_insert v w =
     do { cur \<leftarrow> get_entry (area w) (menu_at v) (first_entry w + entryno w) False;
          Some (w\<lparr>area := take cur (area w) @ [32, 0] @ drop cur (area w), entries_no := entries_no w + 1\<rparr>) }"

definition edit_delete :: "menu_env \<Rightarrow> view \<Rightarrow> view option" where
  "edit_delete v w =
     do { cur \<leftarrow> get_entry (area w) (menu_at v) (first_entry w + entryno w) False;
          if entries_no w > 0 then
            do { ptr \<leftarrow> get_entry (area w) (menu_at v) (first_entry w + entryno w + 1) False;
                 let n = entries_no w - 1;
                     e = (if entryno w \<ge> n then entryno w - 1 else entryno w);
                     f = (if first_entry w \<noteq> 0 \<and> n < box_h v + first_entry w then first_entry w - 1 else first_entry w)
                 in Some (w\<lparr>area := take cur (area w) @ drop ptr (area w), entries_no := n, entryno := e, first_entry := f\<rparr>) }
          else Some w }"

text \<open>The keys \<open>d\<close>, \<open>o\<close> and \<open>O\<close>, up to the drawing of the list.\<close>

definition edit_key :: "menu_env \<Rightarrow> u8 \<Rightarrow> view \<Rightarrow> view option" where
  "edit_key v c w =
     do { w1 \<leftarrow> (if dumb v then Some w else draw_selected v False w);
          w2 \<leftarrow> (if c = ch CHR ''d'' then edit_delete v w1
                 else edit_insert v (if c = ch CHR ''o''
                                     then (if entryno w1 < box_h v - 1 \<or> dumb v then w1\<lparr>entryno := entryno w1 + 1\<rparr>
                                           else w1\<lparr>first_entry := first_entry w1 + 1\<rparr>)
                                     else w1));
          if dumb v then Some w2 else redraw v w2 }"

text \<open>The end of the edit of line \<open>cur\<close> with the line \<open>new\<close>.\<close>

definition edit_line :: "nat \<Rightarrow> u8 list \<Rightarrow> view \<Rightarrow> view option" where
  "edit_line cur new w =
     do { old \<leftarrow> str_of (area w) cur;
          Some (w\<lparr>area := take cur (area w) @ (if new = [] then [32] else new) @ [0] @ drop (cur + length old + 1) (area w)\<rparr>) }"

text \<open>The commands of an entry, copied for editing: their number and the list with its end.\<close>

function copy_commands :: "cbuf \<Rightarrow> nat \<Rightarrow> (nat \<times> u8 list) option" where
  "copy_commands b p =
     do { str \<leftarrow> str_of b p;
          c \<leftarrow> rd b (p + length str + 1);
          if c = 0 then Some (1, str @ [0, 0])
          else do { (n, l) \<leftarrow> copy_commands b (p + length str + 1); Some (n + 1, str @ [0] @ l) } }"
  by pat_completeness auto
termination
  by (relation "measure (\<lambda>(b, p). length b - p)") (auto simp: rd_eq_Some)

declare copy_commands.simps [simp del]

end
