(* ===== verification/MenuLoop.thy ===== *)
theory MenuLoop
imports MenuRun
begin

text \<open>
  The rest of \<open>run_menu\<close> of \<open>stage2/stage2.c\<close>: the countdown, the actions of the keys, the password prompt, the edit of
  an entry and of a line, and booting with the fallback entries; and the loading of the configuration by \<open>cmain\<close>.
  The clock, the keyboard and the two prompts are an argument; the terminal does not change while the menu is up.
\<close>

section \<open>State\<close>

record menu_ui = menu +
  current_entryno :: u32
  config_file :: cbuf

type_synonym ('d, 'h, 'f) ushell = "('d, 'h, 'f menu_ui_ext) mshell"
type_synonym ('d, 'h, 'f) ushell_env = "('d, 'h, 'f menu_ui_scheme) shell_env"

text \<open>
  \<open>password_line\<close> is \<open>get_cmdline\<close> with the prompt \<open>Password:\<close>; \<open>edit_cmdline\<close> is \<open>get_cmdline\<close> with the line to edit, and
  gives \<open>None\<close> for Escape; \<open>cmd_readers\<close> are the lines the command line will read.
\<close>

record ('d, 'h, 'f) menu_io =
  getrtsecs :: "('d, 'h, 'f) ushell \<Rightarrow> u32 \<times> ('d, 'h, 'f) ushell"
  checkkey :: "('d, 'h, 'f) ushell \<Rightarrow> int \<times> ('d, 'h, 'f) ushell"
  getkey :: "('d, 'h, 'f) ushell \<Rightarrow> u32 \<times> ('d, 'h, 'f) ushell"
  password_line :: "('d, 'h, 'f) ushell \<Rightarrow> (cbuf \<times> ('d, 'h, 'f) ushell) option"
  edit_cmdline :: "cbuf \<Rightarrow> ('d, 'h, 'f) ushell \<Rightarrow> (cbuf option \<times> ('d, 'h, 'f) ushell) option"
  cmd_readers :: "('d, 'h, 'f) ushell \<Rightarrow> ('d, 'h, 'f menu_ui_scheme) reader list"

text \<open>What follows a key; the argument is \<open>cur_entry\<close>, if not \<open>NULL\<close>.  \<open>AtCmdline\<close>: the command line is waiting.\<close>

datatype menu_act = Stay | BootEntry "nat option" | Leave | Restart | AtCmdline

definition set_timeout :: "u32 \<Rightarrow> ('d, 'h, 'e) mshell \<Rightarrow> ('d, 'h, 'e) mshell" where
  "set_timeout x = on_world (\<lambda>w. w\<lparr>grub_timeout := x\<rparr>)"

definition set_show :: "('d, 'h, 'e) mshell \<Rightarrow> ('d, 'h, 'e) mshell" where
  "set_show = on_world (\<lambda>w. w\<lparr>show_menu := True\<rparr>)"

definition locked :: "('d, 'h, 'e) mshell \<Rightarrow> bool" where
  "locked s = (\<not> auth (world s) \<and> password (world s) \<noteq> 0)"

section \<open>Time\<close>

partial_function (option) wait_clock :: "('d, 'h, 'f) menu_io \<Rightarrow> ('d, 'h, 'f) ushell \<Rightarrow> ('d, 'h, 'f) ushell option" where
  "wait_clock io s = (let (t, s1) = getrtsecs io s in if t = 0xFF then wait_clock io s1 else Some s1)"

text \<open>The hidden menu: whether the entry is to be booted, and \<open>time2\<close>.\<close>

partial_function (option) hidden_loop :: "('d, 'h, 'f) menu_io \<Rightarrow> u32 \<Rightarrow> ('d, 'h, 'f) ushell \<Rightarrow> (bool \<times> u32 \<times> ('d, 'h, 'f) ushell) option" where
  "hidden_loop io time2 s =
     (let (k, s1) = checkkey io s;
          (esc, s2) = (if k \<noteq> -1 then (let (c, s2) = getkey io s1 in (char_of c = 27, s2)) else (False, s1))
      in if esc then Some (False, time2, set_show (set_timeout (-1) s2))
        else if 0 \<le>s grub_timeout (world s2) then
          (let (t, s3) = getrtsecs io s2
           in if t \<noteq> time2 \<and> t \<noteq> 0xFF then
               (if grub_timeout (world s3) \<le>s 0 then Some (True, time2, set_timeout (-1) s3)
                else do { let s4 = set_timeout (grub_timeout (world s3) - 1) s3;
                          s5 \<leftarrow> gprintf (CHR 0x0D # ''Press `ESC' to enter the menu... %d   '') [PNum (grub_timeout (world s4))] s4;
                          hidden_loop io t s5 })
             else hidden_loop io time2 s3)
        else hidden_loop io time2 s2)"

text \<open>The countdown of the menu: whether the time is over, and \<open>time2\<close>.\<close>

definition timeout_tick :: "('d, 'h, 'f) menu_io \<Rightarrow> menu_env \<Rightarrow> view \<Rightarrow> u32 \<Rightarrow> ('d, 'h, 'f) ushell \<Rightarrow> (bool \<times> u32 \<times> ('d, 'h, 'f) ushell) option" where
  "timeout_tick io v w time2 s =
     (if 0 \<le>s grub_timeout (world s) then
        (let (t, s1) = getrtsecs io s
         in if t \<noteq> time2 \<and> t \<noteq> 0xFF then
             (if grub_timeout (world s1) \<le>s 0 then Some (True, time2, set_timeout (-1) s1)
              else do { s2 \<leftarrow> (if dumb v
                                then gprintf (CHR 0x0D # ''    Entry %d will be booted automatically in %d seconds.   '')
                                       [PNum (word_of_int (entryno w)), PNum (grub_timeout (world s1))] s1
                                else gprintf ''The highlighted entry will be booted automatically in %d seconds.    ''
                                       [PNum (grub_timeout (world s1))] s1);
                        Some (False, t, set_timeout (grub_timeout (world s2) - 1) s2) })
           else Some (False, time2, s1))
      else Some (False, time2, s))"

text \<open>A key, if there is one or no countdown runs; it ends the countdown and takes the fallback entries away.\<close>

definition menu_getkey :: "('d, 'h, 'f) menu_io \<Rightarrow> menu_env \<Rightarrow> view \<Rightarrow> ('d, 'h, 'f) ushell \<Rightarrow> (u32 option \<times> ('d, 'h, 'f) ushell) option" where
  "menu_getkey io v w s =
     (let (k, s1) = checkkey io s
      in if 0 \<le> k \<or> grub_timeout (world s1) <s 0 then
          do { s2 \<leftarrow> (if dumb v then gprintf (CHR 0x0D # ''    Highlighted entry is %d: '') [PNum (word_of_int (entryno w))] s1 else Some s1);
               let (c, s3) = getkey io s2;
               Some (Some c, if 0 \<le>s grub_timeout (world s3)
                             then (set_timeout (-1) (print_tty ((if dumb v then [Print [13]] else []) @ [Print (replicate 68 32)]) s3))\<lparr>fallback_entryno := -1\<rparr>
                             else s3) }
        else Some (None, s1))"

section \<open>Display\<close>

primrec raw_entries :: "cbuf \<Rightarrow> nat \<Rightarrow> nat \<Rightarrow> nat \<Rightarrow> ('d, 'h, 'z) gstate \<Rightarrow> ('d, 'h, 'z) gstate option" where
  "raw_entries b at0 0 i s = Some s"
| "raw_entries b at0 (Suc n) i s =
     do { p \<leftarrow> get_entry b at0 (int i) False;
          str \<leftarrow> str_of b p;
          s1 \<leftarrow> gprintf ''%d: %s'' [PNum (of_nat i), PStr str] (if i < 10 then print_tty [Print [32]] s else s);
          raw_entries b at0 n (i + 1) (print_tty [Print [10]] s1) }"

definition print_entries_raw :: "int \<Rightarrow> int \<Rightarrow> cbuf \<Rightarrow> nat \<Rightarrow> ('d, 'h, 'z) gstate \<Rightarrow> ('d, 'h, 'z) gstate option" where
  "print_entries_raw n first b at0 s =
     do { let rule = print_tty [Print (replicate MENU_BOX_W (ch CHR ''-'') @ [10])];
          s1 \<leftarrow> raw_entries b at0 (nat (n - first)) (nat first) (rule s);
          Some (rule s1) }"

definition menu_help :: "bool \<Rightarrow> bool \<Rightarrow> u8 list" where
  "menu_help is_locked main =
     (if is_locked then cs '' Press ENTER or 'b' to boot.'' @ [10] @ cs ''Press 'p' to gain privileged control.''
      else if main then cs '' Press ENTER or 'b' to boot.'' @ [10]
             @ cs ''Press 'e' to edit the commands before booting, or 'c' for a command-line.''
      else cs '' At a selected line, press 'e' to'' @ [10]
             @ cs ''edit, 'd' to delete, or 'O'/'o' to open a new line before/after. When done,'' @ [10]
             @ cs ''press 'b' to boot, 'c' for a command-line, or ESC to go back to the main menu.'')"

definition menu_display :: "menu_env \<Rightarrow> view \<Rightarrow> ('d, 'h, 'e) mshell \<Rightarrow> (view \<times> ('d, 'h, 'e) mshell) option" where
  "menu_display v w s =
     do { let s0 = print_tty [InitPage] s;
          s1 \<leftarrow> (if dumb v then print_entries_raw (entries_no w) (first_entry w) (area w) (menu_at v) s0 else Some s0);
          s2 \<leftarrow> gprintf (CHR 0x0A # ''Use the %c and %c keys to highlight an entry.'') [PNum (ucast DISP_UP), PNum (ucast DISP_DOWN)] s1;
          let s3 = print_tty [Print (menu_help (locked s2) (config_at v \<noteq> None))] s2;
          if dumb v then do { s4 \<leftarrow> gprintf (CHR 0x0A # CHR 0x0A # ''The selected entry is %d '') [PNum (word_of_int (entryno w))] s3; Some (w, s4) }
          else do { w1 \<leftarrow> redraw v (w\<lparr>drawn := drawn w @ [Border (print_border 1 (nat (box_h v)))]\<rparr>); Some (w1, s3) } }"

section \<open>Actions\<close>

text \<open>The keys that end the menu or change the list.\<close>

definition select_key :: "menu_env \<Rightarrow> u8 \<Rightarrow> view \<Rightarrow> ('d, 'h, 'f) ushell \<Rightarrow> (menu_act \<times> view \<times> ('d, 'h, 'f) ushell) option" where
  "select_key v c w s =
     (case config_at v of
        Some _ \<Rightarrow> Some (if c = 10 \<or> c = 13 \<or> c = ch CHR ''b'' then BootEntry None else Stay, w, s)
      | None \<Rightarrow>
          do { (w1, s1) \<leftarrow>
                 (if c = ch CHR ''d'' \<or> c = ch CHR ''o'' \<or> c = ch CHR ''O'' then
                    do { w' \<leftarrow> edit_key v c w;
                         s' \<leftarrow> (if dumb v
                                then map_option (print_tty [Print [10]])
                                       (print_entries_raw (entries_no w') (first_entry w') (area w') (menu_at v) (print_tty [Print [10, 10]] s))
                                else Some s);
                         Some (w', s') }
                  else Some (w, s));
               Some (if c = 27 then Leave else if c = ch CHR ''b'' then BootEntry (Some (menu_at v)) else Stay, w1, s1) })"

function space_scan :: "cbuf \<Rightarrow> nat \<Rightarrow> nat option" where
  "space_scan b i = do { c \<leftarrow> rd b i; if isspace_char c then space_scan b (i + 1) else Some i }"
  by pat_completeness auto
termination
  by (relation "measure (\<lambda>(b, i). length b - i)") (auto simp: rd_eq_Some)

declare space_scan.simps [simp del]

text \<open>The password stands in the buffer \<open>PASSWORD_BUF\<close>, and the name of another configuration file may follow it.\<close>

definition password_key :: "menu_env \<Rightarrow> ('d, 'h, 'f) menu_io \<Rightarrow> ('d, 'h, 'f) ushell \<Rightarrow> (menu_act \<times> ('d, 'h, 'f) ushell) option" where
  "password_key v io s =
     do { (entered, s1) \<leftarrow> password_line io (if dumb v then print_tty [Print (13 # replicate 36 32)] s else s);
          let b = peek (mem s1) (password (world s1)) PASSWORD_BUFLEN;
          pptr \<leftarrow> nul_scan b 0;
          b1 \<leftarrow> wr b pptr 0;
          (r, c) \<leftarrow> check_password entered b1 0 (password_type (world s1)) (md5 (world s1));
          let s2 = on_world (\<lambda>w. w\<lparr>md5 := c\<rparr>) (s1\<lparr>mem := poke (password (world s1)) b1 (mem s1)\<rparr>);
          if r = 0 then
            do { q \<leftarrow> space_scan b1 (pptr + 1);
                 file \<leftarrow> str_of b1 q;
                 if file \<noteq> [] then
                   do { f \<leftarrow> copy_obj (config_file (world s2)) 0 b1 q (length file + 1);
                        Some (Leave, on_world (\<lambda>w. w\<lparr>config_file := f, auth := False\<rparr>) s2) }
                 else Some (Restart, on_world (\<lambda>w. w\<lparr>auth := True\<rparr>) s2) }
          else Some (Restart, snd (getkey io (print_tty [Print (cs ''Failed! Press any key to continue...'')] s2))) }"

text \<open>The key \<open>e\<close>: \<open>sub\<close> is \<open>run_menu\<close> for the list of the commands of an entry.\<close>

definition edit_command :: "('d, 'h, 'f) menu_io \<Rightarrow> nat \<Rightarrow> view \<Rightarrow> ('d, 'h, 'f) ushell \<Rightarrow> (menu_act \<times> view \<times> ('d, 'h, 'f) ushell) option" where
  "edit_command io at0 w s =
     do { cur \<leftarrow> get_entry (area w) at0 (first_entry w + entryno w) False;
          old \<leftarrow> str_of (area w) cur;
          let s1 = (print_tty [CmdlineMessage False] s)\<lparr>saved_drive := boot_drive s, saved_partition := install_partition s,
                      current_drive := 0xFFFFFFFF\<rparr>;
          (r, s2) \<leftarrow> edit_cmdline io (old @ [0, 0]) s1;
          case r of None \<Rightarrow> Some (Restart, w, s2)
          | Some b \<Rightarrow> do { new \<leftarrow> str_of b 0; w1 \<leftarrow> edit_line cur new w; Some (Restart, w1, s2) } }"

definition edit_entry :: "(view \<Rightarrow> ('d, 'h, 'f) ushell \<Rightarrow> (menu_act \<times> view \<times> ('d, 'h, 'f) ushell) option) \<Rightarrow> ('d, 'h, 'f) menu_io \<Rightarrow> menu_env \<Rightarrow> view \<Rightarrow> ('d, 'h, 'f) ushell \<Rightarrow> (menu_act \<times> view \<times> ('d, 'h, 'f) ushell) option" where
  "edit_entry sub io v w s =
     (case config_at v of
        None \<Rightarrow> edit_command io (menu_at v) w s
      | Some c \<Rightarrow>
          do { cur \<leftarrow> get_entry (area w) c (first_entry w + entryno w) True;
               (n, l) \<leftarrow> copy_commands (area w) cur;
               (act, w1, s1) \<leftarrow> sub \<lparr>first_entry = 0, entryno = 0, temp_entryno = 0, entries_no = int n, area = l, drawn = drawn w\<rparr> s;
               Some (if act = AtCmdline then AtCmdline else Restart, w\<lparr>drawn := drawn w1\<rparr>, s1) })"

definition privileged_key :: "(view \<Rightarrow> ('d, 'h, 'f) ushell \<Rightarrow> (menu_act \<times> view \<times> ('d, 'h, 'f) ushell) option) \<Rightarrow> ('d, 'h, 'f) ushell_env \<Rightarrow> ('d, 'h, 'f) menu_io \<Rightarrow> menu_env \<Rightarrow> u8 \<Rightarrow> view \<Rightarrow> ('d, 'h, 'f) ushell \<Rightarrow> (menu_act \<times> view \<times> ('d, 'h, 'f) ushell) option" where
  "privileged_key sub e io v c w s =
     (if locked s then
        (if c = ch CHR ''p'' then do { (act, s1) \<leftarrow> password_key v io s; Some (act, w, s1) } else Some (Stay, w, s))
      else if c = ch CHR ''e'' then edit_entry sub io v w s
      else if c = ch CHR ''c'' then
        do { (esc, s1) \<leftarrow> enter_cmdline e False (cmd_readers io s) s; Some (if esc then Restart else AtCmdline, w, s1) }
      else Some (Stay, w, s))"

text \<open>A key of the menu.\<close>

definition menu_key :: "(view \<Rightarrow> ('d, 'h, 'f) ushell \<Rightarrow> (menu_act \<times> view \<times> ('d, 'h, 'f) ushell) option) \<Rightarrow> ('d, 'h, 'f) ushell_env \<Rightarrow> ('d, 'h, 'f) menu_io \<Rightarrow> menu_env \<Rightarrow> u32 \<Rightarrow> view \<Rightarrow> ('d, 'h, 'f) ushell \<Rightarrow> (menu_act \<times> view \<times> ('d, 'h, 'f) ushell) option" where
  "menu_key sub e io v c w s =
     do { w1 \<leftarrow> nav_key v c w;
          s1 \<leftarrow> gprintf ''%d  '' [PNum (word_of_int (first_entry w1 + entryno w1))] s;
          (act, w2, s2) \<leftarrow> select_key v (char_of c) w1 s1;
          if act = Stay then privileged_key sub e io v (char_of c) w2 s2 else Some (act, w2, s2) }"

section \<open>Booting\<close>

definition boot_message :: "menu_env \<Rightarrow> view \<Rightarrow> ('d, 'h, 'z) gstate \<Rightarrow> ('d, 'h, 'z) gstate option" where
  "boot_message v w s =
     (case config_at v of None \<Rightarrow> Some (print_tty [Print (cs ''  Booting command-list'' @ [10, 10])] s)
      | Some _ \<Rightarrow> do { p \<leftarrow> get_entry (area w) (menu_at v) (first_entry w + entryno w) False;
                       str \<leftarrow> str_of (area w) p;
                       s1 \<leftarrow> gprintf (''  Booting '%s'' @ [CHR 0x27]) [PStr str] s;
                       Some (print_tty [Print [10, 10]] s1) })"

text \<open>Without \<open>cur_entry\<close> the commands are those of the entry, which the list of an edited entry does not have.\<close>

definition boot_commands :: "menu_env \<Rightarrow> nat option \<Rightarrow> view \<Rightarrow> nat option" where
  "boot_commands v cur w =
     (case cur of Some p \<Rightarrow> Some p
      | None \<Rightarrow> (case config_at v of None \<Rightarrow> None | Some c \<Rightarrow> get_entry (area w) c (first_entry w + entryno w) True))"

partial_function (option) boot_loop :: "('d, 'h, 'f) ushell_env \<Rightarrow> menu_env \<Rightarrow> nat option \<Rightarrow> view \<Rightarrow> ('d, 'h, 'f) ushell \<Rightarrow> (view \<times> ('d, 'h, 'f) ushell) option" where
  "boot_loop e v cur w s =
     do { s1 \<leftarrow> (if 0 <s debug s then boot_message v w s else Some s);
          p \<leftarrow> boot_commands v cur w;
          (r, s2) \<leftarrow> run_script e (drop p (area w)) (on_world (\<lambda>x. x\<lparr>current_entryno := word_of_int (first_entry w + entryno w)\<rparr>) s1);
          if r \<noteq> 0 \<and> fallback_entryno s2 \<ge> 0 then
            do { n \<leftarrow> rd (fallback_entries (world s2)) (nat (fallback_entryno s2));
                 s3 \<leftarrow> next_fallback s2;
                 boot_loop e v None (w\<lparr>first_entry := 0, entryno := sint n\<rparr>) s3 }
          else Some (w, s2) }"

section \<open>\<open>run_menu\<close>\<close>

definition box_fit :: "menu_env \<Rightarrow> view \<Rightarrow> view" where
  "box_fit v w =
     (if \<not> dumb v \<and> entryno w > box_h v - 1
      then w\<lparr>first_entry := first_entry w + (entryno w - (box_h v - 1)), entryno := box_h v - 1\<rparr> else w)"

text \<open>The loop over the keys; \<open>Stay\<close> is no result.\<close>

partial_function (option) menu_loop :: "(u32 \<Rightarrow> view \<Rightarrow> ('d, 'h, 'f) ushell \<Rightarrow> (menu_act \<times> view \<times> ('d, 'h, 'f) ushell) option) \<Rightarrow> ('d, 'h, 'f) menu_io \<Rightarrow> menu_env \<Rightarrow> u32 \<Rightarrow> view \<Rightarrow> ('d, 'h, 'f) ushell \<Rightarrow> (menu_act \<times> u32 \<times> view \<times> ('d, 'h, 'f) ushell) option" where
  "menu_loop key io v time2 w s =
     do { (over, time, s1) \<leftarrow> timeout_tick io v w time2 s;
          if over then Some (BootEntry None, time, w, s1)
          else do { (c, s2) \<leftarrow> menu_getkey io v w s1;
                    case c of None \<Rightarrow> menu_loop key io v time w s2
                    | Some k \<Rightarrow> do { (act, w1, s3) \<leftarrow> key k w s2;
                                     if act = Stay then menu_loop key io v time w1 s3 else Some (act, time, w1, s3) } } }"

text \<open>
  From the label \<open>restart\<close> to the end of the loop.  The menu is hidden at the first time only, where \<open>cur_entry\<close> is \<open>NULL\<close>.
\<close>

definition menu_round :: "(u32 \<Rightarrow> view \<Rightarrow> ('d, 'h, 'f) ushell \<Rightarrow> (menu_act \<times> view \<times> ('d, 'h, 'f) ushell) option) \<Rightarrow> ('d, 'h, 'f) menu_io \<Rightarrow> menu_env \<Rightarrow> u32 \<Rightarrow> view \<Rightarrow> ('d, 'h, 'f) ushell \<Rightarrow> (menu_act \<times> u32 \<times> view \<times> ('d, 'h, 'f) ushell) option" where
  "menu_round key io v time2 w0 s0 =
     do { let w = box_fit v w0;
          let s = (if grub_timeout (world s0) <s 0 then set_show s0 else s0);
          (boot, time, s1) \<leftarrow> (if show_menu (world s) then Some (False, time2, s)
                                else do { t \<leftarrow> wait_clock io s; hidden_loop io time2 t });
          if boot then Some (BootEntry None, time, w, s1)
          else do { (w1, s2) \<leftarrow> (if show_menu (world s1) then menu_display v w s1 else Some (w, s1));
                    s3 \<leftarrow> wait_clock io s2;
                    menu_loop key io v time (w1\<lparr>temp_entryno := 0\<rparr>) s3 } }"

partial_function (option) menu_rounds :: "(u32 \<Rightarrow> view \<Rightarrow> ('d, 'h, 'f) ushell \<Rightarrow> (menu_act \<times> view \<times> ('d, 'h, 'f) ushell) option) \<Rightarrow> ('d, 'h, 'f) ushell_env \<Rightarrow> ('d, 'h, 'f) menu_io \<Rightarrow> menu_env \<Rightarrow> u32 \<Rightarrow> view \<Rightarrow> ('d, 'h, 'f) ushell \<Rightarrow> (menu_act \<times> view \<times> ('d, 'h, 'f) ushell) option" where
  "menu_rounds key e io v time2 w0 s0 =
     do { (act, time, w, s) \<leftarrow> menu_round key io v time2 w0 s0;
          case act of
            BootEntry cur \<Rightarrow> do { (w1, s1) \<leftarrow> boot_loop e v cur w s; menu_rounds key e io v time w1 (set_show s1) }
          | Restart \<Rightarrow> menu_rounds key e io v time w s
          | _ \<Rightarrow> Some (act, w, s) }"

text \<open>\<open>run_menu\<close> with the commands of an entry, where \<open>e\<close> edits a line, and with the entries.\<close>

definition run_edit_menu :: "('d, 'h, 'f) ushell_env \<Rightarrow> ('d, 'h, 'f) menu_io \<Rightarrow> menu_env \<Rightarrow> view \<Rightarrow> ('d, 'h, 'f) ushell \<Rightarrow> (menu_act \<times> view \<times> ('d, 'h, 'f) ushell) option" where
  "run_edit_menu e io v =
     (let ve = v\<lparr>menu_at := 0, config_at := None\<rparr> in menu_rounds (menu_key (\<lambda>_ _. None) e io ve) e io ve (-1))"

definition run_menu :: "('d, 'h, 'f) ushell_env \<Rightarrow> ('d, 'h, 'f) menu_io \<Rightarrow> menu_env \<Rightarrow> view \<Rightarrow> ('d, 'h, 'f) ushell \<Rightarrow> (menu_act \<times> view \<times> ('d, 'h, 'f) ushell) option" where
  "run_menu e io v = menu_rounds (menu_key (run_edit_menu e io v) e io v) e io v (-1)"

end
