(* ===== verification/MenuView.thy ===== *)
theory MenuView
imports MenuLoop
begin

text \<open>
  Properties of the menu's box: where \<open>get_entry\<close> finds the titles and the commands, what \<open>print_entries\<close> draws, and
  that the keys keep the selection inside the list and the box up to date although they draw only what they change.
\<close>

section \<open>The area\<close>

lemma script_text_simps [simp]:
  "script_text [] = []" "script_text (l # ls) = l @ 0 # script_text ls" "script_text (xs @ ys) = script_text xs @ script_text ys"
  by (simp_all add: script_text_def)

lemma script_text_split:
  assumes "k < length ts"
  shows "script_text ts = script_text (take k ts) @ ts ! k @ 0 # script_text (drop (Suc k) ts)"
proof -
  have "ts = take k ts @ ts ! k # drop (Suc k) ts" using assms by (simp add: id_take_nth_drop)
  then show ?thesis by (metis script_text_simps(2,3))
qed

text \<open>The titles \<open>ts\<close> stand at \<open>p\<close>; the title \<open>k\<close> stands at \<open>title_at p ts k\<close>, the end of the list too.\<close>

definition has_titles :: "cbuf \<Rightarrow> nat \<Rightarrow> u8 list list \<Rightarrow> bool" where
  "has_titles b p ts = ((\<exists>pre post. b = pre @ script_text ts @ 0 # post \<and> length pre = p) \<and> (\<forall>t \<in> set ts. 0 \<notin> set t))"

definition title_at :: "nat \<Rightarrow> u8 list list \<Rightarrow> nat \<Rightarrow> nat" where
  "title_at p ts k = p + length (script_text (take k ts))"

definition title :: "u8 list list \<Rightarrow> nat \<Rightarrow> u8 list" where
  "title ts k = (if k < length ts then ts ! k else [])"

lemma title_at_0 [simp]: "title_at p ts 0 = p"
  by (simp add: title_at_def)

lemma title_at_Suc: "k < length ts \<Longrightarrow> title_at p ts (Suc k) = title_at p ts k + length (ts ! k) + 1"
  by (simp add: title_at_def take_Suc_conv_app_nth)

lemma title_at_end: "length ts \<le> k \<Longrightarrow> title_at p ts k = title_at p ts (length ts)"
  by (simp add: title_at_def)

lemma has_title:
  assumes "has_titles b p ts" "k \<le> length ts"
  shows "str_of b (title_at p ts k) = Some (title ts k)"
proof -
  from assms(1) obtain pre post where b: "b = pre @ script_text ts @ 0 # post" "length pre = p" and z: "\<forall>t \<in> set ts. 0 \<notin> set t"
    by (auto simp: has_titles_def)
  show ?thesis
  proof (cases "k < length ts")
    case True
    have "0 \<notin> set (ts ! k)" using z True by simp
    then have "str_of ((pre @ script_text (take k ts)) @ ts ! k @ 0 # (script_text (drop (Suc k) ts) @ 0 # post))
        (length (pre @ script_text (take k ts))) = Some (ts ! k)" by (rule str_of_at)
    then show ?thesis using True b by (simp add: title_at_def title_def script_text_split [OF True, of])
  next
    case False
    then show ?thesis using assms(2) b str_of_at [of "[]" "pre @ script_text ts" post] by (simp add: title_at_def title_def)
  qed
qed

lemma nul_before:
  assumes "has_titles b p ts" "0 < k" "k \<le> length ts"
  shows "rd b (title_at p ts k - 1) = Some 0" "0 < title_at p ts k"
proof -
  obtain j where j: "k = Suc j" "j < length ts" using assms by (cases k) auto
  have s: "str_of b (title_at p ts j) = Some (ts ! j)" using has_title [OF assms(1), of j] j by (simp add: title_def)
  have "rd b (title_at p ts j + length (ts ! j)) = Some 0" using s by (simp add: str_of_iff rd_def)
  then show "rd b (title_at p ts k - 1) = Some 0" "0 < title_at p ts k" using j by (simp_all add: title_at_Suc)
qed

lemma get_entry_titles:
  assumes "has_titles b p ts" "k + n \<le> length ts"
  shows "get_entry_nat b False n (title_at p ts k) = Some (title_at p ts (k + n))"
  using assms(2)
proof (induction n arbitrary: k)
  case (Suc n)
  have "next_entry b False (title_at p ts k) = Some (title_at p ts (Suc k))"
    using Suc.prems has_title [OF assms(1), of k]
    by (subst next_entry.simps) (simp add: title_def title_at_Suc)
  then show ?case using Suc.IH [of "Suc k"] Suc.prems by simp
qed simp

lemma get_entry_title:
  "has_titles b p ts \<Longrightarrow> 0 \<le> i \<Longrightarrow> i \<le> int (length ts) \<Longrightarrow> get_entry b p i False = Some (title_at p ts (nat i))"
  using get_entry_titles [of b p ts 0 "nat i"] by (simp add: get_entry_def nat_le_iff)

section \<open>The box\<close>

definition title_line :: "u8 list list \<Rightarrow> int \<Rightarrow> int \<Rightarrow> int \<Rightarrow> menu_draw" where
  "title_line ts first e j = Line j (j = e) (entry_text (title ts (nat (first + j))))"

definition box :: "u8 list list \<Rightarrow> int \<Rightarrow> int \<Rightarrow> int \<Rightarrow> menu_draw list" where
  "box ts h first e =
     UpMark (if first \<noteq> 0 then DISP_UP else DISP_VERT) # map (title_line ts first e) [0..h - 1]
       @ [DownMark (if first + h < int (length ts) then DISP_DOWN else DISP_VERT)]"

lemma draw_lines_titles:
  assumes b: "has_titles b p ts" "[] \<notin> set ts" "ts \<noteq> []" and k: "k \<le> length ts" "int k \<le> first + i" "k = length ts \<or> int k = first + i"
  shows "draw_lines b e n i (title_at p ts k) =
    Some (map (title_line ts first e) [i..i + int n - 1], title_at p ts (min (k + n) (length ts)))"
  using k
proof (induction n arbitrary: i k)
  case (Suc n)
  have s: "str_of b (title_at p ts k) = Some (title ts k)" by (rule has_title [OF b(1) Suc.prems(1)])
  have "nat (first + i) = k \<or> k = length ts \<and> length ts \<le> nat (first + i)" using Suc.prems by linarith
  then have same: "title ts k = title ts (nat (first + i))" by (auto simp: title_def)
  have m: "map (title_line ts first e) [i..i + int (Suc n) - 1] = title_line ts first e i # map (title_line ts first e) [i + 1..i + 1 + int n - 1]"
    by (subst upto_rec1) (simp_all add: algebra_simps)
  have tl: "Line i (e = i) (entry_text (title ts k)) = title_line ts first e i" by (auto simp: same title_line_def)
  show ?case
  proof (cases "k < length ts")
    case True
    let ?q = "title_at p ts k + length (ts ! k)"
    have ne: "ts ! k \<noteq> []" using True b(2) nth_mem by metis
    have t: "title ts k = ts ! k" using True by (simp add: title_def)
    have q1: "?q - 1 = title_at p ts k + (length (ts ! k) - 1)" using ne by (cases "ts ! k") auto
    have last: "rd b (?q - 1) = Some (last (ts ! k))" "last (ts ! k) \<noteq> 0"
      using ne t q1 str_of_nth [OF s, of "length (ts ! k) - 1"] str_of_bound [OF s] str_of_nth_nz [OF s, of "length (ts ! k) - 1"]
      by (simp_all add: rd_def last_conv_nth)
    have q: "?q + 1 = title_at p ts (Suc k)" "?q \<noteq> 0" using True ne by (simp_all add: title_at_Suc)
    have rest: "draw_lines b e n (i + 1) (?q + 1) =
      Some (map (title_line ts first e) [i + 1..i + 1 + int n - 1], title_at p ts (min (Suc k + n) (length ts)))"
      unfolding q(1) by (rule Suc.IH) (use Suc.prems True in auto)
    show ?thesis
      using rest last q(2) unfolding m draw_lines.simps print_entry_def s t tl [unfolded t, symmetric]
      by (simp add: s t Let_def)
  next
    case False
    then have kn: "k = length ts" "0 < k" using Suc.prems(1) b(3) by auto
    have t: "title ts k = []" using kn by (simp add: title_def)
    have rest: "draw_lines b e n (i + 1) (title_at p ts k) =
      Some (map (title_line ts first e) [i + 1..i + 1 + int n - 1], title_at p ts (min (k + n) (length ts)))"
      by (rule Suc.IH) (use Suc.prems kn in auto)
    show ?thesis
      using rest nul_before [OF b(1) kn(2) Suc.prems(1)] kn unfolding m draw_lines.simps print_entry_def s t tl [unfolded t, symmetric]
      by (simp add: s t Let_def)
  qed
qed simp

text \<open>
  With empty titles the drawing still comes to an end, inside the list; an empty title ends what it shows.
\<close>

lemma draw_lines_return:
  assumes b: "has_titles b p ts" "ts \<noteq> []" "0 < p" and k: "k \<le> length ts"
  shows "\<exists>ds k'. draw_lines b e n i (title_at p ts k) = Some (ds, title_at p ts k') \<and> k' \<le> length ts"
  using k
proof (induction n arbitrary: i k)
  case (Suc n)
  have s: "str_of b (title_at p ts k) = Some (title ts k)" by (rule has_title [OF b(1) Suc.prems])
  let ?q = "title_at p ts k + length (title ts k)"
  have q0: "?q \<noteq> 0" using b(3) by (simp add: title_at_def)
  have "?q - 1 < length b" using str_of_bound [OF s] by linarith
  then obtain c where c: "rd b (?q - 1) = Some c" by (simp add: rd_def)
  have "\<exists>k'. (if c \<noteq> 0 then ?q + 1 else ?q) = title_at p ts k' \<and> k' \<le> length ts"
  proof (cases "k < length ts")
    case True
    show ?thesis
    proof (cases "c \<noteq> 0")
      case True
      then show ?thesis using \<open>k < length ts\<close> by (intro exI [of _ "Suc k"]) (simp add: title_at_Suc title_def)
    next
      case False
      have "title ts k = []"
      proof (rule ccontr)
        assume ne: "title ts k \<noteq> []"
        then have q1: "?q - 1 = title_at p ts k + (length (title ts k) - 1)" by (cases "title ts k") auto
        then show False
          using False c ne str_of_nth [OF s, of "length (title ts k) - 1"] str_of_nth_nz [OF s, of "length (title ts k) - 1"]
          by (simp add: rd_def split: if_splits)
      qed
      then show ?thesis using False Suc.prems by (intro exI [of _ k]) simp
    qed
  next
    case False
    then have kn: "k = length ts" "0 < k" using Suc.prems b(2) by auto
    then have "c = 0" using c nul_before(1) [OF b(1) kn(2) Suc.prems] by (simp add: title_def)
    then show ?thesis using kn by (intro exI [of _ k]) (simp add: title_def)
  qed
  then obtain k' where k': "(if c \<noteq> 0 then ?q + 1 else ?q) = title_at p ts k'" "k' \<le> length ts" by blast
  show ?case using Suc.IH [OF k'(2), of "i + 1"] k'(1) c q0 s by (auto simp: print_entry_def Let_def)
qed auto

lemma print_entries_return:
  assumes "has_titles b p ts" "ts \<noteq> []" "0 < p" "0 \<le> first" "first < int (length ts)"
  shows "\<exists>ds. print_entries b p h first e = Some ds"
proof -
  obtain ds k where d: "draw_lines b e (nat h) 0 (title_at p ts (nat first)) = Some (ds, title_at p ts k)" "k \<le> length ts"
    using draw_lines_return [OF assms(1-3), of "nat first" e "nat h" 0] assms(4,5) by (auto simp: nat_le_iff)
  have "title_at p ts k < length b" using str_of_bound [OF has_title [OF assms(1) d(2)]] by linarith
  then show ?thesis
    using get_entry_title [OF assms(1,4)] assms(5) d(1) by (simp add: print_entries_def rd_def)
qed

lemma print_entries_box:
  assumes "has_titles b p ts" "[] \<notin> set ts" "ts \<noteq> []" "0 \<le> first" "first < int (length ts)" "0 \<le> h"
  shows "print_entries b p h first e = Some (box ts h first e)"
proof -
  let ?k = "min (nat first + nat h) (length ts)"
  have d: "draw_lines b e (nat h) 0 (title_at p ts (nat first)) = Some (map (title_line ts first e) [0..h - 1], title_at p ts ?k)"
    using draw_lines_titles [OF assms(1-3), of "nat first" first 0 e "nat h"] assms(4-6) by (simp add: nat_le_iff)
  have s: "str_of b (title_at p ts ?k) = Some (title ts ?k)" by (rule has_title [OF assms(1)]) simp
  have c: "\<exists>c. rd b (title_at p ts ?k) = Some c \<and> (c \<noteq> 0 \<longleftrightarrow> first + h < int (length ts))"
  proof (cases "?k < length ts")
    case True
    then have "title ts ?k \<noteq> []" using assms(2) nth_mem by (metis title_def)
    then obtain c r where "title ts ?k = c # r" by (cases "title ts ?k") auto
    then show ?thesis using s True assms(4,6) by (auto simp: cstr nat_add_distrib [symmetric] min_def split: if_splits)
  next
    case False
    then show ?thesis using s assms(4,6) by (auto simp: title_def cstr nat_add_distrib [symmetric] min_def split: if_splits)
  qed
  show ?thesis
    using c assms(5) get_entry_title [OF assms(1,4)] d by (auto simp: print_entries_def box_def)
qed

section \<open>The screen\<close>

record box_screen =
  up_mark :: u8
  down_mark :: u8
  box_row :: "int \<Rightarrow> (bool \<times> u8 list) option"

primrec show_draw :: "menu_draw \<Rightarrow> box_screen \<Rightarrow> box_screen" where
  "show_draw (Line y highlight t) s = s\<lparr>box_row := (box_row s)(y := Some (highlight, t))\<rparr>"
| "show_draw (UpMark c) s = s\<lparr>up_mark := c\<rparr>"
| "show_draw (DownMark c) s = s\<lparr>down_mark := c\<rparr>"
| "show_draw (Border rs) s = s"

definition screen :: "menu_draw list \<Rightarrow> box_screen" where
  "screen ds = fold show_draw ds \<lparr>up_mark = DISP_VERT, down_mark = DISP_VERT, box_row = (\<lambda>_. None)\<rparr>"

text \<open>The box shows the titles from \<open>first\<close> on, with the entry \<open>e\<close> of the box highlighted and no other.\<close>

definition shows_box :: "u8 list list \<Rightarrow> int \<Rightarrow> int \<Rightarrow> int \<Rightarrow> box_screen \<Rightarrow> bool" where
  "shows_box ts h first e s =
     (up_mark s = (if first \<noteq> 0 then DISP_UP else DISP_VERT)
      \<and> down_mark s = (if first + h < int (length ts) then DISP_DOWN else DISP_VERT)
      \<and> (\<forall>j \<in> {0..h - 1}. box_row s j = Some (j = e, entry_text (title ts (nat (first + j))))))"

lemma fold_title_lines:
  "box_row (fold show_draw (map (title_line ts first e) [i..k]) s) j =
     (if i \<le> j \<and> j \<le> k then Some (j = e, entry_text (title ts (nat (first + j)))) else box_row s j)
   \<and> up_mark (fold show_draw (map (title_line ts first e) [i..k]) s) = up_mark s"
proof (induction "nat (k - i + 1)" arbitrary: i s)
  case (Suc n)
  have "[i..k] = i # [i + 1..k]" using Suc(2) by (intro upto_rec1) simp
  moreover have "n = nat (k - (i + 1) + 1)" using Suc(2) by simp
  ultimately show ?case using Suc(1) by (auto simp: title_line_def)
next
  case 0
  then have "k < i" by simp
  moreover from this have "\<not> (i \<le> j \<and> j \<le> k)" by simp
  ultimately show ?case by (simp only: upto_empty list.map fold_simps id_apply if_False simp_thms)
qed

lemma shows_box_drawn: "shows_box ts h first e (screen (ds @ box ts h first e))"
  by (simp add: shows_box_def screen_def box_def fold_title_lines)

definition cursor_ok :: "menu_env \<Rightarrow> view \<Rightarrow> bool" where
  "cursor_ok v w = (0 \<le> entryno w \<and> entryno w < box_h v \<and> 0 \<le> first_entry w \<and> first_entry w + entryno w < entries_no w \<and> 0 \<le> temp_entryno w)"

text \<open>
  The state of the menu between two keys.  With an empty title, what is drawn depends on where the drawing starts, so
  that only the selection and the list are described then; the area of such a menu has the commands before it.
\<close>

definition menu_ok :: "menu_env \<Rightarrow> u8 list list \<Rightarrow> view \<Rightarrow> bool" where
  "menu_ok v ts w =
     (cursor_ok v w \<and> entries_no w = int (length ts) \<and> has_titles (area w) (menu_at v) ts
      \<and> (if [] \<in> set ts then 0 < menu_at v
         else shows_box ts (box_h v) (first_entry w) (entryno w) (screen (drawn w))))"

lemma redraw_ok:
  assumes "[] \<in> set ts \<longrightarrow> 0 < menu_at v" "has_titles (area w) (menu_at v) ts" "entries_no w = int (length ts)" "cursor_ok v w"
  shows "\<exists>w'. redraw v w = Some w' \<and> menu_ok v ts w' \<and> temp_entryno w' = temp_entryno w"
proof (cases "[] \<in> set ts")
  case True
  have "ts \<noteq> []" using assms(3,4) by (auto simp: cursor_ok_def)
  then obtain ds where "print_entries (area w) (menu_at v) (box_h v) (first_entry w) (entryno w) = Some ds"
    using print_entries_return [OF assms(2), of "first_entry w" "box_h v" "entryno w"] True assms(1,3,4) by (auto simp: cursor_ok_def)
  then show ?thesis using True assms by (simp add: redraw_def menu_ok_def cursor_ok_def)
next
  case False
  have "ts \<noteq> []" using assms(3,4) by (auto simp: cursor_ok_def)
  then have "print_entries (area w) (menu_at v) (box_h v) (first_entry w) (entryno w) = Some (box ts (box_h v) (first_entry w) (entryno w))"
    using assms(3,4) by (intro print_entries_box [OF assms(2) False]) (auto simp: cursor_ok_def)
  then show ?thesis using False assms by (simp add: redraw_def menu_ok_def shows_box_drawn cursor_ok_def)
qed

lemma draw_selected_title:
  assumes "has_titles (area w) (menu_at v) ts" "0 \<le> first_entry w + entryno w" "first_entry w + entryno w < int (length ts)"
  shows "draw_selected v hl w = Some (w\<lparr>drawn := drawn w @ [Line (entryno w) hl (entry_text (title ts (nat (first_entry w + entryno w))))]\<rparr>)"
  using get_entry_title [OF assms(1,2)] has_title [OF assms(1), of "nat (first_entry w + entryno w)"] assms
  by (simp add: draw_selected_def print_entry_def)

lemma move_selected_ok:
  assumes "menu_ok v ts w" "d = 1 \<or> d = -1" "cursor_ok v (w\<lparr>entryno := entryno w + d\<rparr>)"
  shows "\<exists>w'. move_selected v d w = Some w' \<and> menu_ok v ts w'"
proof -
  have h: "has_titles (area w) (menu_at v) ts" and n: "entries_no w = int (length ts)" and c: "cursor_ok v w" using assms(1) by (simp_all add: menu_ok_def)
  show ?thesis
    using assms h n c
    by (auto simp: move_selected_def draw_selected_title [where ts = ts] cursor_ok_def menu_ok_def shows_box_def screen_def)
qed

lemmas cursor_simps = cursor_ok_def menu_ok_def

lemma key_up_ok:
  assumes "\<not> dumb v" "menu_ok v ts w"
  shows "\<exists>w'. key_up v w = Some w' \<and> menu_ok v ts w'"
proof -
  let ?w = "w\<lparr>temp_entryno := 0\<rparr>"
  have ok: "menu_ok v ts ?w" using assms(2) by (simp add: cursor_simps)
  consider "entryno w > 0" | "entryno w \<le> 0" "first_entry w > 0" | "entryno w \<le> 0" "first_entry w \<le> 0" by linarith
  then show ?thesis
  proof cases
    case 1
    then have "cursor_ok v (?w\<lparr>entryno := entryno ?w + - 1\<rparr>)" using ok by (simp add: cursor_simps)
    then show ?thesis using 1 assms(1) move_selected_ok [OF ok, of "-1"] by (simp add: key_up_def)
  next
    case 2
    have "\<exists>w'. redraw v (?w\<lparr>first_entry := first_entry ?w - 1\<rparr>) = Some w' \<and> menu_ok v ts w'
        \<and> temp_entryno w' = temp_entryno (?w\<lparr>first_entry := first_entry ?w - 1\<rparr>)"
      by (rule redraw_ok) (use ok 2 in \<open>auto simp: cursor_simps\<close>)
    then show ?thesis using 2 assms(1) by (auto simp: key_up_def)
  next
    case 3
    then show ?thesis using ok assms(1) by (simp add: key_up_def)
  qed
qed

lemma key_down_ok:
  assumes "\<not> dumb v" "menu_ok v ts w" "first_entry w + entryno w + 1 < entries_no w"
  shows "\<exists>w'. key_down v w = Some w' \<and> menu_ok v ts w'"
proof -
  let ?w = "w\<lparr>temp_entryno := 0\<rparr>"
  have ok: "menu_ok v ts ?w" using assms(2) by (simp add: cursor_simps)
  consider "entryno w < box_h v - 1" | "\<not> entryno w < box_h v - 1" "entries_no w > box_h v + first_entry w"
    | "\<not> entryno w < box_h v - 1" "\<not> entries_no w > box_h v + first_entry w" by linarith
  then show ?thesis
  proof cases
    case 1
    then have "cursor_ok v (?w\<lparr>entryno := entryno ?w + 1\<rparr>)" using ok assms(3) by (simp add: cursor_simps)
    then show ?thesis using 1 assms(1) move_selected_ok [OF ok, of 1] by (simp add: key_down_def)
  next
    case 2
    have "\<exists>w'. redraw v (?w\<lparr>first_entry := first_entry ?w + 1\<rparr>) = Some w' \<and> menu_ok v ts w'
        \<and> temp_entryno w' = temp_entryno (?w\<lparr>first_entry := first_entry ?w + 1\<rparr>)"
      by (rule redraw_ok) (use ok 2 assms(3) in \<open>auto simp: cursor_simps\<close>)
    then show ?thesis using 2 assms(1) by (auto simp: key_down_def)
  next
    case 3
    then show ?thesis using ok assms(1) by (simp add: key_down_def)
  qed
qed

lemma page_up_ok:
  assumes "menu_ok v ts w"
  shows "\<exists>w'. page_up v w = Some w' \<and> menu_ok v ts w'"
proof -
  let ?f = "first_entry w - box_h v"
  let ?w = "if ?f < 0 then w\<lparr>temp_entryno := 0, first_entry := 0, entryno := (if entryno w + ?f < 0 then 0 else entryno w + ?f)\<rparr>
            else w\<lparr>temp_entryno := 0, first_entry := ?f\<rparr>"
  have "\<exists>w'. redraw v ?w = Some w' \<and> menu_ok v ts w' \<and> temp_entryno w' = temp_entryno ?w"
    by (rule redraw_ok) (use assms(1) in \<open>auto simp: cursor_simps\<close>)
  then show ?thesis unfolding page_up_def Let_def by blast
qed

lemma page_down_ok:
  assumes "menu_ok v ts w"
  shows "\<exists>w'. page_down v w = Some w' \<and> menu_ok v ts w'"
proof -
  let ?f = "first_entry w + box_h v"
  let ?w = "if ?f + entryno w + 1 \<ge> entries_no w
            then let f' = (if entries_no w - box_h v < 0 then 0 else entries_no w - box_h v)
                 in w\<lparr>temp_entryno := 0, first_entry := f', entryno := entries_no w - f' - 1\<rparr>
            else w\<lparr>temp_entryno := 0, first_entry := ?f\<rparr>"
  have "\<exists>w'. redraw v ?w = Some w' \<and> menu_ok v ts w' \<and> temp_entryno w' = temp_entryno ?w"
    by (rule redraw_ok) (use assms(1) in \<open>auto simp: cursor_simps Let_def\<close>)
  then show ?thesis unfolding page_down_def Let_def by blast
qed

lemma sdiv_smod_nonneg:
  assumes "0 \<le> (t::int)" "0 < h"
  shows "t sdiv h = t div h" "t smod h = t mod h"
proof -
  show "t sdiv h = t div h" using assms by (cases "t = 0") (simp_all add: signed_divide_int_def)
  show "t smod h = t mod h" using assms by (cases "t = 0") (simp_all add: signed_modulo_int_def)
qed

lemma check_update_ok:
  assumes "menu_ok v ts w" "0 \<le> temp_entryno w" "temp_entryno w < entries_no w"
  shows "\<exists>w'. check_update v w = Some w' \<and> menu_ok v ts w' \<and> temp_entryno w' = temp_entryno w
    \<and> first_entry w' + entryno w' = temp_entryno w"
proof (cases "temp_entryno w = first_entry w + entryno w")
  case False
  let ?t = "temp_entryno w" and ?h = "box_h v"
  let ?w = "w\<lparr>first_entry := (?t div ?h) * ?h, entryno := ?t mod ?h\<rparr>"
  have h: "0 < ?h" using assms(1) by (simp add: cursor_simps)
  have "cursor_ok v ?w" using assms(2,3) h by (simp add: cursor_ok_def pos_imp_zdiv_nonneg_iff)
  then obtain w' where w': "redraw v ?w = Some w'" "menu_ok v ts w'" "temp_entryno w' = temp_entryno ?w"
    using redraw_ok [of ts v ?w] assms(1) by (auto simp: menu_ok_def split: if_splits)
  have "first_entry w' = first_entry ?w \<and> entryno w' = entryno ?w" using w'(1) by (auto simp: redraw_def bind_eq_Some_conv)
  then show ?thesis using False w' by (simp add: check_update_def sdiv_smod_nonneg [OF assms(2) h])
qed (use assms in \<open>simp add: check_update_def\<close>)

lemma after_update_ok: "menu_ok v ts w \<Longrightarrow> menu_ok v ts (after_update w)"
  by (simp add: after_update_def cursor_simps)

lemma temp_ok: "menu_ok v ts w \<Longrightarrow> 0 \<le> t \<Longrightarrow> menu_ok v ts (w\<lparr>temp_entryno := t\<rparr>)"
  by (simp add: cursor_simps)

lemma key_jump_ok:
  assumes "menu_ok v ts w" "0 \<le> t" "t < entries_no w"
  shows "\<exists>w'. key_jump v t w = Some w' \<and> menu_ok v ts w' \<and> first_entry w' + entryno w' = t"
proof -
  let ?w = "w\<lparr>temp_entryno := t\<rparr>"
  obtain w' where "check_update v ?w = Some w'" "menu_ok v ts w'" "first_entry w' + entryno w' = temp_entryno ?w"
    using check_update_ok [OF temp_ok [OF assms(1,2)]] assms(2,3) by auto
  then show ?thesis using after_update_ok by (auto simp: key_jump_def after_update_def)
qed

lemma key_digit_ok:
  assumes "menu_ok v ts w" "0 \<le> d"
  shows "\<exists>w'. key_digit v d w = Some w' \<and> menu_ok v ts w'"
proof -
  define t where "t = (let t = temp_entryno w * 10 + d in if t \<ge> entries_no w then (if d \<ge> entries_no w then 0 else d) else t)"
  have t: "0 \<le> t" "t < entries_no w" using assms by (auto simp: t_def Let_def cursor_simps)
  have ok: "menu_ok v ts (w\<lparr>temp_entryno := t\<rparr>)" by (rule temp_ok [OF assms(1) t(1)])
  show ?thesis
    using check_update_ok [OF ok] t after_update_ok [of v ts] ok
    by (cases "t \<noteq> 0 \<or> d = 0") (auto simp: key_digit_def t_def [unfolded Let_def, symmetric])
qed

text \<open>A key changes neither the list nor its number of entries.\<close>

lemma nav_key_ok:
  assumes "\<not> dumb v" "menu_ok v ts w"
  shows "\<exists>w'. nav_key v c w = Some w' \<and> menu_ok v ts w'"
proof -
  have n: "0 < entries_no w" using assms(2) by (auto simp: cursor_simps)
  show ?thesis
    using key_up_ok [OF assms] key_down_ok [OF assms] page_up_ok [OF assms(2)] page_down_ok [OF assms(2)]
      key_digit_ok [OF assms(2), of "uint (char_of c - ch CHR ''0'')"] key_jump_ok [OF assms(2), of 0]
      key_jump_ok [OF assms(2), of "entries_no w - 1"] temp_ok [OF assms(2), of 0] n
    unfolding nav_key_def Let_def by fastforce
qed

primrec nav_keys :: "menu_env \<Rightarrow> u32 list \<Rightarrow> view \<Rightarrow> view option" where
  "nav_keys v [] w = Some w"
| "nav_keys v (c # ks) w = do { w' \<leftarrow> nav_key v c w; nav_keys v ks w' }"

text \<open>
  C3. Whatever keys that move the selection are pressed in the menu of a terminal with a cursor, the key is
  handled, and the selected entry is one of the list and lies inside the box.  If no title of the list is empty, the
  screen is besides at any time what drawing the whole box again would give: the titles from the first one of the box
  on, the selected one and no other highlighted, and the arrows exactly where more titles follow, although the keys for
  up and down redraw only the two lines they change.  (With an empty title, where a drawing of the box ends early,
  nothing is said of the screen; a list with one has the commands of the entries before it.)
\<close>

theorem menu_keys_keep_box:
  assumes "\<not> dumb v" "menu_ok v ts w"
  shows "\<exists>w'. nav_keys v ks w = Some w' \<and> menu_ok v ts w'"
  using assms(2)
proof (induction ks arbitrary: w)
  case (Cons c ks)
  then show ?case using nav_key_ok [OF assms(1) Cons.prems, of c] by auto
qed simp

section \<open>A menu\<close>

definition demo_titles :: "u8 list list" where
  "demo_titles = [cs ''a'', cs ''bc'', cs ''d'']"

definition demo_view :: view where
  "demo_view = \<lparr>first_entry = 0, entryno = 0, temp_entryno = 0, entries_no = 3, area = script_text demo_titles @ [0],
     drawn = box demo_titles 2 0 0\<rparr>"

definition demo_terminal :: menu_env where
  "demo_terminal = \<lparr>box_h = 2, dumb = False, menu_at = 0, config_at = None\<rparr>"

lemma demo_view_ok: "menu_ok demo_terminal demo_titles demo_view"
proof -
  have "has_titles (area demo_view) 0 demo_titles"
    unfolding has_titles_def by (rule conjI, rule exI [of _ "[]"], rule exI [of _ "[]"]) (simp_all add: demo_view_def demo_titles_def)
  then show ?thesis
    using shows_box_drawn [of demo_titles 2 0 0 "[]"]
    by (simp add: menu_ok_def cursor_ok_def demo_view_def demo_terminal_def demo_titles_def)
qed

theorem menu_keys_keep_box_witness:
  "\<exists>w. nav_keys demo_terminal [KEY_DOWN, KEY_DOWN, KEY_NPAGE, KEY_UP, 0x32, KEY_HOME] demo_view = Some w \<and> menu_ok demo_terminal demo_titles w"
proof -
  have "\<not> dumb demo_terminal" by (simp add: demo_terminal_def)
  then show ?thesis using menu_keys_keep_box [OF _ demo_view_ok] by blast
qed

end
