(* ===== verification/MenuMain.thy ===== *)
theory MenuMain
imports MenuLoop
begin

text \<open>
  \<open>reset\<close> and \<open>cmain\<close> of \<open>stage2/stage2.c\<close>: the saved default entry, the opening of the configuration file or of the
  preset menu, its loading into the areas, and the start of the menu or of the command line.
\<close>

section \<open>State\<close>

text \<open>
  \<open>stack\<close> is the address of the local buffers \<open>c\<close> and \<open>buf\<close>; \<open>behind\<close> is the memory behind the menu, where a command is
  copied to before it is run.
\<close>

record main_env =
  use_config_file :: bool
  debug_boot :: bool
  stack :: u32
  behind :: cbuf
  main_box_h :: int
  main_dumb :: bool

text \<open>The end of a turn of the loop: the loop was left, goes on, or a command line waits.\<close>

datatype main_end = LeftLoop | NextTurn | Waits

definition reset :: "('d, 'h, 'e) mshell \<Rightarrow> ('d, 'h, 'e) mshell" where
  "reset s = init_config (s\<lparr>count_lines := -1\<rparr>)"

definition trace :: "string \<Rightarrow> parg list \<Rightarrow> ('d, 'h, 'z) gstate \<Rightarrow> ('d, 'h, 'z) gstate option" where
  "trace f args s = (if 1 <s debug s then gprintf f args s else Some s)"

section \<open>The saved default entry\<close>

text \<open>The index of the last slash, or -1.\<close>

primrec last_slash :: "cbuf \<Rightarrow> nat \<Rightarrow> int option" where
  "last_slash b 0 = do { c \<leftarrow> rd b 0; Some (if c = ch CHR ''/'' then 0 else -1) }"
| "last_slash b (Suc n) = do { c \<leftarrow> rd b (Suc n); if c = ch CHR ''/'' then Some (int (Suc n)) else last_slash b n }"

text \<open>The file \<open>default\<close> in the directory of the configuration file.\<close>

definition default_name :: "cbuf \<Rightarrow> cbuf \<Rightarrow> cbuf option" where
  "default_name cfile buf =
     do { b0 \<leftarrow> wr buf 0 0;
          (_, b1) \<leftarrow> grub_strncat b0 0 cfile 0 DEFAULT_FILE_BUFLEN;
          n \<leftarrow> grub_strlen b1 0;
          i \<leftarrow> last_slash b1 n;
          let k = nat (i + 1);
          b2 \<leftarrow> wr b1 k 0;
          (_, b3) \<leftarrow> grub_strncat b2 k (cs ''default'' @ [0]) 0 (DEFAULT_FILE_BUFLEN - k);
          Some b3 }"

definition load_saved_entry :: "('d, 'h, 'e) cmd_env \<Rightarrow> u32 \<Rightarrow> ('d, 'h, 'e) mshell \<Rightarrow> ('d, 'h, 'e) mshell option" where
  "load_saved_entry v addr s =
     do { s1 \<leftarrow> trace ''Read file: '' [] s;
          (n, s2) \<leftarrow> grub_read (disks v) (fsystems v) (unzip v) addr 10 s1;
          s3 \<leftarrow> trace ''len=%d'' [PNum n] s2;
          let s4 = (if 1 <s debug s3 then print_tty [Print [10]] s3 else s3);
          s5 \<leftarrow> (if 0 <s n then
                    do { let m = (mem s4)(addr + 9 := 0);
                         (r, t) \<leftarrow> parse_num (peek m addr 10) 0 (s4\<lparr>mem := m\<rparr>);
                         Some (case r of None \<Rightarrow> t | Some (_, x) \<Rightarrow> on_world (\<lambda>w. w\<lparr>saved_entryno := x\<rparr>) t) }
                  else Some s4);
          grub_close (fsystems v) s5 }"

definition read_saved_entry :: "('d, 'h, 'f menu_ui_ext) cmd_env \<Rightarrow> u32 \<Rightarrow> ('d, 'h, 'f) ushell \<Rightarrow> ('d, 'h, 'f) ushell option" where
  "read_saved_entry v addr s0 =
     do { let s = on_world (\<lambda>w. w\<lparr>saved_entryno := 0\<rparr>) s0;
          c \<leftarrow> rd (config_file (world s)) 0;
          if c = 0 then Some (s\<lparr>errnum := ERR_NONE\<rparr>)
          else
            do { b \<leftarrow> default_name (config_file (world s)) (peek (mem s) DEFAULT_FILE_BUF DEFAULT_FILE_BUFLEN);
                 str \<leftarrow> str_of b 0;
                 s1 \<leftarrow> trace ''Open %s ... '' [PStr str] (s\<lparr>mem := poke DEFAULT_FILE_BUF b (mem s)\<rparr>);
                 (ok, b1, s2) \<leftarrow> grub_open (disks v) (fsystems v) (unzip v) b 0 s1;
                 let s3 = s2\<lparr>mem := poke DEFAULT_FILE_BUF b1 (mem s2)\<rparr>;
                 s4 \<leftarrow> (if ok then load_saved_entry v addr s3
                         else Some (if 1 <s debug s3 then print_tty [Print (cs ''failure.'' @ [10])] s3 else s3));
                 Some (s4\<lparr>errnum := ERR_NONE\<rparr>) } }"

section \<open>The configuration\<close>

definition NEW_HEAPSIZE :: nat where "NEW_HEAPSIZE = 1500"

text \<open>Whether a source is open, and whether it is the preset menu.\<close>

definition open_config :: "('d, 'h, 'f menu_ui_ext) cmd_env \<Rightarrow> preset \<Rightarrow> ('d, 'h, 'f) ushell \<Rightarrow> (bool \<times> bool \<times> preset \<times> ('d, 'h, 'f) ushell) option" where
  "open_config v p s =
     do { c \<leftarrow> rd (config_file (world s)) 0;
          (is_opened, is_preset, p1, s1) \<leftarrow>
            (if preset_menu p = 0x800 \<and> c = 0 then let (ok, p') = open_preset_menu p in Some (ok, ok, p', s)
             else if c \<noteq> 0 then
               do { (ok, b, s') \<leftarrow> grub_open (disks v) (fsystems v) (unzip v) (config_file (world s)) 0 s;
                    Some (ok, False, p, on_world (\<lambda>w. w\<lparr>config_file := b\<rparr>) s') }
             else Some (False, False, p, s));
          let s2 = s1\<lparr>errnum := ERR_NONE\<rparr>;
          if is_opened then Some (True, is_preset, p1, s2)
          else let (ok, p2) = open_preset_menu p1 in Some (ok, ok, p2, s2) }"

definition config_source :: "('d, 'h, 'e) cmd_env \<Rightarrow> u32 \<Rightarrow> bool \<Rightarrow> (preset \<times> ('d, 'h, 'e) mshell) byte_source" where
  "config_source v addr is_preset st =
     (case st of (p, s) \<Rightarrow>
        if is_preset then do { (c, p') \<leftarrow> preset_byte p; Some (c, p', s) }
        else do { (c, s') \<leftarrow> file_byte_source v addr s; Some (c, p, s') })"

text \<open>The areas, one behind the other, and where the commands of the entries start in them.\<close>

definition load_config :: "('d, 'h, 'e menu_scheme) shell_env \<Rightarrow> ('d, 'h, 'e) cmd_env \<Rightarrow> main_env \<Rightarrow> bool \<Rightarrow> preset \<Rightarrow> ('d, 'h, 'e) mshell \<Rightarrow> (cfg \<times> nat \<times> preset \<times> ('d, 'h, 'e) mshell) option" where
  "load_config e v me is_preset p s =
     do { (c0, p1, s1) \<leftarrow> config_lines e NEW_HEAPSIZE (config_source v (stack me) is_preset) cfg_start (p, reset s);
          (p2, s2) \<leftarrow> (if is_preset then Some (close_preset_menu p1, s1)
                       else do { t \<leftarrow> grub_close (fsystems v) s1; Some (p1, t) });
          let c = config_finish c0;
          (cur, s3) \<leftarrow> run_menu_commands e (debug_boot me) (config_entries c @ menu_entries c) (s2\<lparr>heap := behind me\<rparr>);
          s4 \<leftarrow> check_fallbacks (num_entries c) s3;
          s5 \<leftarrow> check_default (num_entries c) s4;
          Some (c, cur, p2, s5) }"

section \<open>\<open>cmain\<close>\<close>

definition start_menu :: "('d, 'h, 'f) ushell_env \<Rightarrow> ('d, 'h, 'f) menu_io \<Rightarrow> main_env \<Rightarrow> cfg \<Rightarrow> nat \<Rightarrow> ('d, 'h, 'f) ushell \<Rightarrow> (main_end \<times> ('d, 'h, 'f) ushell) option" where
  "start_menu e io me c cur s =
     (if num_entries c = 0 then do { (esc, s1) \<leftarrow> enter_cmdline e True (cmd_readers io s) s; Some (if esc then NextTurn else Waits, s1) }
      else do { (act, _, s1) \<leftarrow> run_menu e io
                  \<lparr>box_h = main_box_h me, dumb = main_dumb me, menu_at = length (config_entries c), config_at = Some cur\<rparr>
                  \<lparr>first_entry = 0, entryno = sint (default_entry (world s)), temp_entryno = 0, entries_no = int (num_entries c),
                   area = config_entries c @ menu_entries c, drawn = []\<rparr> s;
                Some (if act = AtCmdline then Waits else NextTurn, s1) })"

text \<open>A turn of the endless loop; the \<open>break\<close> of a source that cannot be opened leaves that loop, too.\<close>

definition cmain_turn :: "('d, 'h, 'f) ushell_env \<Rightarrow> ('d, 'h, 'f menu_ui_ext) cmd_env \<Rightarrow> ('d, 'h, 'f) menu_io \<Rightarrow> main_env \<Rightarrow> preset \<Rightarrow> ('d, 'h, 'f) ushell \<Rightarrow> (main_end \<times> preset \<times> ('d, 'h, 'f) ushell) option" where
  "cmain_turn e v io me p s0 =
     (let s = reset s0
      in if \<not> use_config_file me then do { (r, s1) \<leftarrow> start_menu e io me cfg_start 0 s; Some (r, p, s1) }
         else
           do { s1 \<leftarrow> read_saved_entry v (stack me) s;
                (is_opened, is_preset, p1, s2) \<leftarrow> open_config v p s1;
                if \<not> is_opened then Some (LeftLoop, p1, s2)
                else do { (c, cur, p2, s3) \<leftarrow> load_config e v me is_preset p1 s2;
                          (r, s4) \<leftarrow> start_menu e io me c cur s3;
                          Some (r, p2, s4) } })"

partial_function (option) cmain_loop :: "('d, 'h, 'f) ushell_env \<Rightarrow> ('d, 'h, 'f menu_ui_ext) cmd_env \<Rightarrow> ('d, 'h, 'f) menu_io \<Rightarrow> main_env \<Rightarrow> preset \<Rightarrow> ('d, 'h, 'f) ushell \<Rightarrow> (main_end \<times> ('d, 'h, 'f) ushell) option" where
  "cmain_loop e v io me p s =
     do { (r, p1, s1) \<leftarrow> cmain_turn e v io me p s;
          if r = NextTurn then cmain_loop e v io me p1 s1 else Some (r, s1) }"

definition cmain :: "('d, 'h, 'f) ushell_env \<Rightarrow> ('d, 'h, 'f menu_ui_ext) cmd_env \<Rightarrow> ('d, 'h, 'f) menu_io \<Rightarrow> main_env \<Rightarrow> preset \<Rightarrow> ('d, 'h, 'f) ushell \<Rightarrow> (main_end \<times> ('d, 'h, 'f) ushell) option" where
  "cmain e v io me p s = cmain_loop e v io me p (s\<lparr>debug := of_bool (debug_boot me) + 1\<rparr>)"

end
