(* ===== verification/MenuArea.thy ===== *)
theory MenuArea
imports MenuView MenuMain
begin

text \<open>
  What the loading of a configuration builds: the areas of \<open>cmain\<close> hold the commands before the first title, and the
  entries that have commands, in their order; \<open>get_entry\<close> finds the title and the commands of each.
\<close>

section \<open>The menu a list of lines stands for\<close>

text \<open>The menu commands, the entries that are complete, and the current entry, if there was a title.\<close>

type_synonym entry = "u8 list \<times> u8 list list"
type_synonym menu_state = "u8 list list \<times> entry list \<times> entry option"

definition complete :: "entry list \<Rightarrow> entry option \<Rightarrow> entry list" where
  "complete es cur = (case cur of Some (t, c) \<Rightarrow> if c = [] then es else es @ [(t, c)] | None \<Rightarrow> es)"

definition line_step :: "('d, 'h, 'w) builtin list \<Rightarrow> u8 list \<Rightarrow> menu_state \<Rightarrow> menu_state" where
  "line_step tab l st =
     (case st of (m, es, cur) \<Rightarrow>
        case lookup tab (command_word l) of None \<Rightarrow> st
        | Some b \<Rightarrow>
            if flags b AND BUILTIN_TITLE \<noteq> 0 then (m, complete es cur, Some (next_word True l, []))
            else (case cur of None \<Rightarrow> (if flags b AND BUILTIN_MENU \<noteq> 0 then (m @ [l], es, None) else st)
                  | Some (t, c) \<Rightarrow> (m, es, Some (t, c @ [l]))))"

definition menu_of :: "('d, 'h, 'w) builtin list \<Rightarrow> u8 list list \<Rightarrow> u8 list list \<times> entry list" where
  "menu_of tab ls = (case fold (line_step tab) ls ([], [], None) of (m, es, cur) \<Rightarrow> (m, complete es cur))"

section \<open>Its areas\<close>

definition entries_text :: "u8 list list list \<Rightarrow> u8 list" where
  "entries_text xs = concat (map (\<lambda>c. script_text c @ [0]) xs)"

lemma entries_text_simps [simp]:
  "entries_text [] = []" "entries_text (c # xs) = script_text c @ 0 # entries_text xs"
  "entries_text (zs @ ys) = entries_text zs @ entries_text ys"
  by (simp_all add: entries_text_def)

definition commands_text :: "u8 list list \<Rightarrow> entry list \<Rightarrow> u8 list" where
  "commands_text m es = script_text m @ (if es = [] then [] else 0 # entries_text (map snd es))"

definition area_ok :: "menu_state \<Rightarrow> cfg \<Rightarrow> bool" where
  "area_ok st c =
     (case st of (m, es, cur) \<Rightarrow>
        num_entries c = length es \<and>
        (case cur of
           None \<Rightarrow> es = [] \<and> cfg_state c = 0 \<and> config_entries c = script_text m \<and> menu_entries c = []
                    \<and> prev_config_len c = length (config_entries c) \<and> prev_menu_len c = 0
         | Some (t, k) \<Rightarrow>
             cfg_state c = Suc (length k) \<and> menu_entries c = script_text (map fst es) @ t @ [0]
             \<and> (if k = [] then config_entries c = commands_text m es \<and> prev_config_len c = length (config_entries c)
                               \<and> prev_menu_len c = length (script_text (map fst es))
                else config_entries c = script_text m @ 0 # entries_text (map snd es) @ script_text k)))"

lemma area_ok_start: "area_ok ([], [], None) cfg_start"
  by (simp add: area_ok_def cfg_start_def)

lemma area_ok_title: "area_ok (m, es, cur) c \<Longrightarrow> area_ok (m, complete es cur, Some (t, [])) (config_title t c)"
  by (auto simp: area_ok_def config_title_def complete_def commands_text_def Let_def split: option.splits if_splits)

lemma area_ok_menu_command: "area_ok (m, es, None) c \<Longrightarrow> area_ok (m @ [l], es, None) (config_menu_command l c)"
  by (simp add: area_ok_def config_menu_command_def)

lemma area_ok_entry_command: "area_ok (m, es, Some (t, k)) c \<Longrightarrow> area_ok (m, es, Some (t, k @ [l])) (config_entry_command l c)"
  by (auto simp: area_ok_def config_entry_command_def commands_text_def split: if_splits)

lemma config_finish_areas:
  assumes "area_ok (m, es, cur) c"
  shows "config_entries (config_finish c) = commands_text m (complete es cur) @ [0]"
    "menu_entries (config_finish c) = script_text (map fst (complete es cur)) @ [0]"
    "num_entries (config_finish c) = length (complete es cur)"
  using assms
  by (auto simp: area_ok_def config_finish_def complete_def commands_text_def Let_def split: option.splits if_splits)

lemma config_command_step:
  assumes "table_ok (builtin_table v)" "0 \<notin> set l" "area_ok st c"
  shows "\<exists>c' s'. config_command v l c s = Some (c', s') \<and> area_ok (line_step (builtin_table v) l st) c'"
proof -
  obtain m es cur where st: "st = (m, es, cur)" by (cases st) auto
  have z: "str_of (l @ [0]) 0 = Some l" using str_of_literal [OF assms(2), of "[]"] by simp
  have f: "find_command v 0 (s\<lparr>heap := l @ [0]\<rparr>) =
      Some (lookup (builtin_table v) (command_word l),
            s\<lparr>heap := l @ [0], errnum := (if lookup (builtin_table v) (command_word l) = None then ERR_UNRECOGNIZED else errnum s)\<rparr>)"
    using find_command_lookup [OF assms(1), of "s\<lparr>heap := l @ [0]\<rparr>" 0 l] z by simp
  have t: "skip_to True (l @ [0]) 0 = Some (length l - length (next_word True l))"
      "str_of (l @ [0]) (length l - length (next_word True l)) = Some (next_word True l)"
    using skip_to_str [OF z, of True] by simp_all
  show ?thesis
  proof (cases "lookup (builtin_table v) (command_word l)")
    case None
    then show ?thesis using f assms(3) st by (simp add: config_command_def Let_def line_step_def)
  next
    case (Some b)
    show ?thesis
    proof (cases "flags b AND BUILTIN_TITLE \<noteq> 0")
      case True
      then show ?thesis using f t area_ok_title assms(3) st Some by (simp add: config_command_def Let_def line_step_def)
    next
      case False
      then show ?thesis
        using f z Some assms(3) st area_ok_menu_command area_ok_entry_command
        by (cases cur) (auto simp: config_command_def Let_def line_step_def area_ok_def [of _ c])
    qed
  qed
qed

section \<open>Finding the entries\<close>

text \<open>The commands of each entry stand at \<open>p\<close>.\<close>

definition has_commands :: "cbuf \<Rightarrow> nat \<Rightarrow> u8 list list list \<Rightarrow> bool" where
  "has_commands b p xs =
     ((\<exists>pre post. b = pre @ entries_text xs @ post \<and> length pre = p) \<and> (\<forall>c \<in> set xs. c \<noteq> [] \<and> (\<forall>l \<in> set c. l \<noteq> [] \<and> 0 \<notin> set l)))"

text \<open>The pointer may be inside a command: the search goes over the first character of the next one when it tests it.\<close>

lemma next_entry_commands:
  assumes "0 \<notin> set l" "\<forall>k \<in> set c. k \<noteq> [] \<and> 0 \<notin> set k"
  shows "next_entry (pre @ script_text (l # c) @ 0 # post) True (length pre) = Some (length pre + length (script_text (l # c)) + 1)"
  using assms
proof (induction c arbitrary: pre l)
  case Nil
  have s: "str_of (pre @ l @ 0 # 0 # post) (length pre) = Some l" using Nil.prems by (intro str_of_at) simp
  show ?case using s by (subst next_entry.simps) (simp add: rd_def nth_append)
next
  case (Cons k c)
  then obtain x r where k: "k = x # r" "x \<noteq> 0" "0 \<notin> set r" by (cases k) auto
  let ?b = "pre @ l @ 0 # x # r @ 0 # script_text c @ 0 # post"
  have s: "str_of ?b (length pre) = Some l" using Cons.prems by (intro str_of_at) simp
  have x: "rd ?b (length pre + length l + 1) = Some x" by (simp add: rd_def nth_append)
  have ih: "next_entry ((pre @ l @ [0, x]) @ script_text (r # c) @ 0 # post) True (length (pre @ l @ [0, x])) =
      Some (length (pre @ l @ [0, x]) + length (script_text (r # c)) + 1)"
    by (rule Cons.IH) (use Cons.prems k in auto)
  show ?case using s x ih k by (subst next_entry.simps) (simp add: add.assoc)
qed

definition commands_at :: "nat \<Rightarrow> u8 list list list \<Rightarrow> nat \<Rightarrow> nat" where
  "commands_at p xs k = p + length (entries_text (take k xs))"

lemma commands_split:
  assumes "k < length xs"
  shows "entries_text xs = entries_text (take k xs) @ script_text (xs ! k) @ 0 # entries_text (drop (Suc k) xs)"
proof -
  have "xs = take k xs @ xs ! k # drop (Suc k) xs" using assms by (simp add: id_take_nth_drop)
  then show ?thesis by (metis entries_text_simps(2,3))
qed

lemma get_entry_nested:
  assumes "has_commands b p xs" "k + n \<le> length xs"
  shows "get_entry_nat b True n (commands_at p xs k) = Some (commands_at p xs (k + n))"
  using assms(2)
proof (induction n arbitrary: k)
  case (Suc n)
  obtain pre post where b: "b = pre @ entries_text xs @ post" "length pre = p" using assms(1) by (auto simp: has_commands_def)
  have k: "k < length xs" using Suc.prems by simp
  obtain l c where lc: "xs ! k = l # c" "0 \<notin> set l" "\<forall>j \<in> set c. j \<noteq> [] \<and> 0 \<notin> set j"
    using assms(1) nth_mem [OF k] by (cases "xs ! k") (auto simp: has_commands_def)
  have "next_entry ((pre @ entries_text (take k xs)) @ script_text (l # c) @ 0 # (entries_text (drop (Suc k) xs) @ post)) True
      (length (pre @ entries_text (take k xs))) = Some (length (pre @ entries_text (take k xs)) + length (script_text (l # c)) + 1)"
    by (rule next_entry_commands [OF lc(2,3)])
  then have "next_entry b True (commands_at p xs k) = Some (commands_at p xs (Suc k))"
    using b lc(1) k by (simp add: commands_at_def commands_split [OF k] take_Suc_conv_app_nth)
  then show ?case using Suc.IH [of "Suc k"] Suc.prems by simp
qed simp

lemma get_entry_commands:
  assumes "has_commands b p xs" "0 \<le> i" "i < int (length xs)"
  shows "\<exists>q post. get_entry b p i True = Some q \<and> drop q b = script_text (xs ! nat i) @ 0 # post"
proof -
  obtain pre post where b: "b = pre @ entries_text xs @ post" "length pre = p" using assms(1) by (auto simp: has_commands_def)
  let ?k = "nat i"
  have k: "?k < length xs" using assms by simp
  have "get_entry b p i True = Some (commands_at p xs ?k)"
    using get_entry_nested [OF assms(1), of 0 ?k] k by (simp add: get_entry_def commands_at_def)
  moreover have "drop (commands_at p xs ?k) b = script_text (xs ! ?k) @ 0 # (entries_text (drop (Suc ?k) xs) @ post)"
    using b by (simp add: commands_at_def commands_split [OF k])
  ultimately show ?thesis by blast
qed

end
