(* ===== verification/MenuText.thy ===== *)
theory MenuText
imports MenuArea
begin

text \<open>
  The text of a configuration: the lines \<open>get_line_from_config\<close> gives are the lines of the text, joined where a
  backslash ends one, without comments, blank lines and blanks before the first character.
\<close>

section \<open>Lines of a text\<close>

text \<open>Carriage returns are dropped, tabs are spaces, and a backslash at the end of a line with the end is a space.\<close>

fun plain :: "u8 list \<Rightarrow> u8 list" where
  "plain [] = []"
| "plain (c # t) = (if c = 13 then plain t else (if c = 9 then 32 else c) # plain t)"

fun join_lines :: "u8 list \<Rightarrow> u8 list" where
  "join_lines [] = []"
| "join_lines [c] = [c]"
| "join_lines (c # d # t) = (if c = 92 \<and> d = 10 then 32 # join_lines t else c # join_lines (d # t))"

text \<open>The lines that are not blank and no comment.\<close>

definition line_head :: "u8 list \<Rightarrow> u8 list" where
  "line_head t = takeWhile (\<lambda>c. c \<noteq> 10) t"

definition line_rest :: "u8 list \<Rightarrow> u8 list" where
  "line_rest t = tl (dropWhile (\<lambda>c. c \<noteq> 10) t)"

lemma line_simps [simp]:
  "line_head [] = []" "line_rest [] = []" "line_head (10 # t) = []" "line_rest (10 # t) = t"
  "c \<noteq> 10 \<Longrightarrow> line_head (c # t) = c # line_head t" "c \<noteq> 10 \<Longrightarrow> line_rest (c # t) = line_rest t"
  by (simp_all add: line_head_def line_rest_def)

lemma length_line_rest: "length (line_rest t) \<le> length t"
  unfolding line_rest_def by (metis length_dropWhile_le length_tl diff_le_self order_trans)

function text_lines :: "u8 list \<Rightarrow> u8 list list" where
  "text_lines [] = []"
| "text_lines (c # t) =
     (if c = 32 \<or> c = 10 then text_lines t
      else if c = ch CHR ''#'' then text_lines (line_rest t)
      else (c # line_head t) # text_lines (line_rest t))"
  by pat_completeness auto
termination
  by (relation "measure length") (auto simp: le_imp_less_Suc length_line_rest)

definition config_text_lines :: "u8 list \<Rightarrow> u8 list list" where
  "config_text_lines t = text_lines (join_lines (plain t))"

section \<open>The scanner\<close>

text \<open>What is still to come in the state of the scanner; a stored backslash counts as not read.\<close>

definition pieces :: "u8 list \<times> bool \<times> bool \<Rightarrow> u8 list \<Rightarrow> u8 list list" where
  "pieces st t =
     (case st of (l, literal, comment) \<Rightarrow>
        let x = join_lines (if literal then 92 # plain t else plain t);
            l0 = (if literal then butlast l else l)
        in if comment then text_lines (line_rest x)
           else if l0 = [] then text_lines x
           else (l0 @ line_head x) # text_lines (line_rest x))"

definition scan_ok :: "u8 list \<times> bool \<times> bool \<Rightarrow> bool" where
  "scan_ok st =
     (case st of (l, literal, comment) \<Rightarrow>
        (comment \<longrightarrow> l = []) \<and> (literal \<and> \<not> comment \<longrightarrow> l \<noteq> [] \<and> last l = 92)
        \<and> (l \<noteq> [] \<longrightarrow> hd l \<noteq> 32 \<and> hd l \<noteq> 10 \<and> hd l \<noteq> ch CHR ''#''))"

lemma join_lines_Cons: "c \<noteq> 92 \<Longrightarrow> join_lines (c # t) = c # join_lines t"
  by (cases t) auto

lemma join_backslash: "c \<noteq> 10 \<Longrightarrow> join_lines (92 # c # t) = 92 # join_lines (c # t)"
  by simp

lemma ch_hash: "ch CHR ''#'' = (35 :: u8)"
  by code_simp

lemma join_backslash_head: "\<exists>d z. join_lines (92 # y) = d # z \<and> d \<noteq> 10"
  by (cases y) auto

lemma length_head_backslash: "0 < length (line_head (join_lines (92 # y)))"
  using join_backslash_head [of y] by auto

text \<open>A character that goes behind a line that is not empty.\<close>

lemma scan_append:
  assumes "l \<noteq> []" "d \<noteq> 10" "literal \<longrightarrow> last l = 92" and t: "plain t = d # plain u"
  shows "pieces (l, literal, False) t = pieces (l @ [d], d = 92, False) u"
    and "\<forall>x \<in> set (pieces (l, literal, False) t). length x \<le> mlen \<Longrightarrow> length l < mlen"
proof -
  define l0 where "l0 = butlast l"
  have l: "literal \<Longrightarrow> l = l0 @ [92]" using assms(1,3) by (metis append_butlast_last_id l0_def)
  have j: "join_lines (d # plain u) = (if d = 92 then join_lines (92 # plain u) else d # join_lines (plain u))"
    by (simp add: join_lines_Cons)
  show "pieces (l, literal, False) t = pieces (l @ [d], d = 92, False) u"
  proof (cases literal)
    case True
    then show ?thesis using l assms(2) t j by (auto simp: pieces_def Let_def ch_hash butlast_append)
  next
    case False
    then show ?thesis using assms t j by (auto simp: pieces_def Let_def)
  qed
  obtain h r where hr: "line_head (join_lines (92 # plain u)) = h # r"
    using length_head_backslash [of "plain u"] by (cases "line_head (join_lines (92 # plain u))") auto
  show "length l < mlen" if b: "\<forall>x \<in> set (pieces (l, literal, False) t). length x \<le> mlen"
  proof (cases literal)
    case True
    then show ?thesis using b l assms(2) t j hr
      by (cases "l0 = []") (auto simp: pieces_def Let_def ch_hash split: if_splits)
  next
    case False
    then show ?thesis using b assms t j hr
      by (auto simp: pieces_def Let_def split: if_splits)
  qed
qed

lemma config_char_pieces:
  assumes ok: "scan_ok st" and b: "\<forall>x \<in> set (pieces st (c # t)). length x \<le> mlen"
  shows "case config_char mlen c st of
      Inl l \<Rightarrow> l \<noteq> [] \<and> pieces st (c # t) = l # pieces ([], False, False) t
    | Inr st' \<Rightarrow> scan_ok st' \<and> pieces st (c # t) = pieces st' t"
proof -
  obtain l literal comment where st: "st = (l, literal, comment)" by (cases st) auto
  show ?thesis
  proof (cases "c = 13")
    case True
    then show ?thesis using ok st by (simp add: config_char_def pieces_def)
  next
    case False
    define d where "d = (if c = 9 then 32 else c)"
    have p: "plain (c # t) = d # plain t" using False by (simp add: d_def)
    show ?thesis
    proof (cases comment)
      case True
      then have "l = []" using ok st by (simp add: scan_ok_def)
      then show ?thesis using True False st p
        by (cases "d = 10"; cases "d = 92"; cases literal)
          (simp_all add: config_char_def pieces_def scan_ok_def Let_def d_def [symmetric] join_lines_Cons split: if_splits)
    next
      case nc: False
      show ?thesis
      proof (cases "d = 10")
        case nl: True
        then have c: "c = 10" by (simp add: d_def split: if_splits)
        show ?thesis
        proof (cases literal)
          case True
          then have "l \<noteq> []" "last l = 92" using ok st nc by (simp_all add: scan_ok_def)
          then have "l = butlast l @ [92]" by (metis append_butlast_last_id)
          then obtain l0 where l0: "l = l0 @ [92]" by blast
          have "l0 \<noteq> [] \<Longrightarrow> hd l0 \<noteq> 32 \<and> hd l0 \<noteq> 10 \<and> hd l0 \<noteq> ch CHR ''#''" using ok st l0 by (auto simp: scan_ok_def)
          moreover have "length l0 < mlen" if "l0 \<noteq> []"
            using b True st nc l0 p nl that by (auto simp: pieces_def Let_def)
          ultimately show ?thesis using True nc l0 st c by (simp add: config_char_def pieces_def scan_ok_def Let_def ch_hash)
        next
          case False
          then show ?thesis using nc st c
            by (cases "l = []") (simp_all add: config_char_def pieces_def scan_ok_def Let_def join_lines_Cons ch_hash)
        qed
      next
        case nnl: False
        have c: "c \<noteq> 10" "c \<noteq> 13" using nnl False by (auto simp: d_def)
        show ?thesis
        proof (cases "l = []")
          case True
          then have "\<not> literal" using ok st nc by (simp add: scan_ok_def)
          then show ?thesis using True nc st c p nnl
            by (cases "d = 92") (auto simp: config_char_def pieces_def scan_ok_def Let_def d_def [symmetric] join_lines_Cons ch_hash)
        next
          case l: False
          have lit: "literal \<longrightarrow> last l = 92" using ok st nc by (simp add: scan_ok_def)
          have a: "pieces st (c # t) = pieces (l @ [d], d = 92, False) t" "length l < mlen"
            using scan_append [OF l nnl lit p] b st nc by auto
          have "config_char mlen c st = Inr (l @ [d], d = 92, False)"
            using l nnl c nc st a(2) by (simp add: config_char_def Let_def d_def [symmetric])
          then show ?thesis using a(1) l ok st by (simp add: scan_ok_def)
        qed
      qed
    qed
  qed
qed

section \<open>A stream of bytes\<close>

text \<open>
  A source the configuration is read from: its own state \<open>p\<close> stands for the text that is left, and reading does not
  change the rest \<open>q\<close>, which the commands found in the lines may change.
\<close>

locale byte_stream =
  fixes src :: "('p \<times> ('d, 'h, 'w) shell) byte_source" and left :: "'p \<Rightarrow> u8 list" and ready :: "'p \<Rightarrow> bool"
  assumes read: "ready p \<Longrightarrow>
    \<exists>p'. src (p, q) = Some (case left p of [] \<Rightarrow> None | c # t \<Rightarrow> Some c, p', q) \<and> ready p' \<and> left p' = tl (left p)"
begin

lemma config_line_pieces:
  assumes "ready p" "scan_ok st" "\<forall>x \<in> set (pieces st (left p)). length x \<le> mlen"
  shows "\<exists>l p'. config_line src mlen st (p, q) = Some (l, p', q) \<and> ready p'
    \<and> pieces st (left p) = (if l = [] then [] else l # config_text_lines (left p'))"
  using assms
proof (induction "left p" arbitrary: p st)
  case Nil
  obtain p' where p': "src (p, q) = Some (None, p', q)" "ready p'" "left p' = []" using read [OF Nil.prems(1)] Nil.hyps by (metis list.case(1) list.sel(2))
  obtain l literal comment where st: "st = (l, literal, comment)" by (cases st) auto
  have "config_line src mlen st (p, q) = Some (l, p', q)" using p' st by (subst config_line.simps) simp
  moreover have "pieces st [] = (if l = [] then [] else [l])"
  proof (cases "literal \<and> \<not> comment")
    case True
    then have "l = butlast l @ [92]" using Nil.prems(2) st append_butlast_last_id [of l] by (simp add: scan_ok_def)
    then obtain l0 where "l = l0 @ [92]" by blast
    then show ?thesis using True st by (simp add: pieces_def Let_def ch_hash)
  next
    case False
    then show ?thesis using Nil.prems(2) st by (auto simp: pieces_def Let_def scan_ok_def)
  qed
  ultimately show ?case using p' Nil.hyps [symmetric] by (auto simp: config_text_lines_def)
next
  case (Cons c t)
  obtain p' where p': "src (p, q) = Some (Some c, p', q)" "ready p'" "left p' = t" using read [OF Cons.prems(1)] Cons.hyps(2) by (metis list.case(2) list.sel(3))
  have b: "\<forall>x \<in> set (pieces st (c # t)). length x \<le> mlen" using Cons.prems(3) Cons.hyps(2) by simp
  have lp: "left p = c # t" using Cons.hyps(2) by simp
  note step = config_char_pieces [OF Cons.prems(2) b]
  show ?case
  proof (cases "config_char mlen c st")
    case (Inl l)
    then have "config_line src mlen st (p, q) = Some (l, p', q)" using p' by (subst config_line.simps) simp
    moreover have "pieces st (c # t) = l # pieces ([], False, False) t" "l \<noteq> []" using step Inl by simp_all
    ultimately show ?thesis using p' lp by (simp add: config_text_lines_def pieces_def [of "([], False, False)"])
  next
    case (Inr st')
    then have s': "scan_ok st'" "pieces st (c # t) = pieces st' t" using step by simp_all
    have e: "config_line src mlen st (p, q) = config_line src mlen st' (p', q)" using p' Inr by (subst config_line.simps) simp
    have "\<exists>l p''. config_line src mlen st' (p', q) = Some (l, p'', q) \<and> ready p''
        \<and> pieces st' (left p') = (if l = [] then [] else l # config_text_lines (left p''))"
      by (rule Cons.hyps(1)) (use p' s' b in auto)
    then show ?thesis using e s' p'(3) lp by simp
  qed
qed

lemma get_line_from_config_text:
  assumes "ready p" "\<forall>x \<in> set (config_text_lines (left p)). length x \<le> mlen"
  shows "\<exists>l p'. get_line_from_config src mlen (p, q) = Some (l, p', q) \<and> ready p'
    \<and> config_text_lines (left p) = (if l = [] then [] else l # config_text_lines (left p'))"
proof -
  have "pieces ([], False, False) (left p) = config_text_lines (left p)" by (simp add: pieces_def config_text_lines_def)
  then show ?thesis using config_line_pieces [of p "([], False, False)"] assms by (simp add: scan_ok_def get_line_from_config_def)
qed

lemma config_lines_menu:
  assumes "table_ok (builtin_table v)" "ready p" "area_ok st c"
    and "\<forall>x \<in> set (config_text_lines (left p)). length x \<le> mlen \<and> 0 \<notin> set x"
  shows "\<exists>c' p' s'. config_lines v mlen src c (p, s) = Some (c', p', s')
    \<and> area_ok (fold (line_step (builtin_table v)) (config_text_lines (left p)) st) c'"
  using assms(2-)
proof (induction "config_text_lines (left p)" arbitrary: p st c s)
  case Nil
  then obtain p' where "get_line_from_config src mlen (p, s) = Some ([], p', s)"
    using get_line_from_config_text [of p mlen s] by (force split: if_splits)
  then show ?case using Nil.prems(2) Nil.hyps by (subst config_lines.simps) (auto simp flip: Nil.hyps)
next
  case (Cons l ls)
  have b: "\<forall>x \<in> set (config_text_lines (left p)). length x \<le> mlen" using Cons.prems(3) by simp
  obtain p' where p': "get_line_from_config src mlen (p, s) = Some (l, p', s)" "ready p'" "config_text_lines (left p') = ls" "l \<noteq> []"
    using get_line_from_config_text [OF Cons.prems(1) b, of s] Cons.hyps(2) by (force split: if_splits)
  have z: "0 \<notin> set l" using Cons.prems(3) by (simp flip: Cons.hyps(2))
  obtain c1 s1 where c1: "config_command v l c s = Some (c1, s1)" "area_ok (line_step (builtin_table v) l st) c1"
    using config_command_step [OF assms(1) z Cons.prems(2)] by blast
  have e: "config_lines v mlen src c (p, s) = config_lines v mlen src c1 (p', s1)"
    using p' c1(1) by (subst config_lines.simps) simp
  have "\<exists>c' p'' s'. config_lines v mlen src c1 (p', s1) = Some (c', p'', s')
      \<and> area_ok (fold (line_step (builtin_table v)) (config_text_lines (left p')) (line_step (builtin_table v) l st)) c'"
    by (rule Cons.hyps(1)) (use p' c1 Cons.prems(3) in \<open>auto simp flip: Cons.hyps(2)\<close>)
  then show ?case using e p'(3) by (simp flip: Cons.hyps(2))
qed

end

section \<open>The preset menu\<close>

definition preset_ready :: "preset \<Rightarrow> bool" where
  "preset_ready p = (preset_menu p \<noteq> 0 \<and> str_of (preset_text p) (preset_menu_offset p) \<noteq> None)"

definition preset_rest :: "preset \<Rightarrow> u8 list" where
  "preset_rest p = (case str_of (preset_text p) (preset_menu_offset p) of None \<Rightarrow> [] | Some t \<Rightarrow> t)"

interpretation preset_stream: byte_stream "config_source v addr True" preset_rest preset_ready for v addr
proof
  fix p and q
  assume "preset_ready p"
  then obtain t where t: "str_of (preset_text p) (preset_menu_offset p) = Some t" and m: "preset_menu p \<noteq> 0"
    by (auto simp: preset_ready_def)
  have "str_of (preset_text p) (preset_menu_offset p + length (take 1 t)) = Some (tl t)"
    using str_of_suffix [OF t, of "length (take 1 t)"] by (cases t) auto
  then show "\<exists>p'. config_source v addr True (p, q) = Some (case preset_rest p of [] \<Rightarrow> None | c # t \<Rightarrow> Some c, p', q)
      \<and> preset_ready p' \<and> preset_rest p' = tl (preset_rest p)"
    using t m by (cases t) (auto simp: config_source_def preset_byte_def read_from_preset_menu_def Let_def preset_ready_def preset_rest_def)
qed

section \<open>The strings of the menu\<close>

lemma set_line_head: "set (line_head t) \<subseteq> set t"
  by (auto simp: line_head_def dest: set_takeWhileD)

lemma set_line_rest: "set (line_rest t) \<subseteq> set t"
  unfolding line_rest_def by (metis set_dropWhileD list.set_sel(2) subsetI tl_Nil)

lemma text_lines_chars: "x \<in> set (text_lines t) \<Longrightarrow> x \<noteq> [] \<and> set x \<subseteq> set t"
proof (induction t rule: text_lines.induct)
  case (2 c t)
  then show ?case using set_line_head [of t] set_line_rest [of t] by (fastforce split: if_splits)
qed simp

lemma set_join_lines: "set (join_lines t) \<subseteq> insert 32 (set t)"
  by (induction t rule: join_lines.induct) auto

lemma set_plain: "set (plain t) \<subseteq> insert 32 (set t)"
  by (induction t) auto

lemma config_text_lines_chars: "x \<in> set (config_text_lines t) \<Longrightarrow> 0 \<notin> set t \<Longrightarrow> x \<noteq> [] \<and> 0 \<notin> set x"
proof -
  assume x: "x \<in> set (config_text_lines t)" and z: "0 \<notin> set t"
  have "x \<noteq> []" "set x \<subseteq> insert 32 (set t)"
    using x text_lines_chars [of x "join_lines (plain t)"] set_join_lines [of "plain t"] set_plain [of t]
    by (auto simp: config_text_lines_def)
  moreover have "(0 :: u8) \<noteq> 32" by simp
  ultimately show ?thesis using z by blast
qed

definition entry_ok :: "entry \<Rightarrow> bool" where
  "entry_ok e = (0 \<notin> set (fst e) \<and> (\<forall>l \<in> set (snd e). l \<noteq> [] \<and> 0 \<notin> set l))"

definition menu_state_ok :: "menu_state \<Rightarrow> bool" where
  "menu_state_ok st =
     (case st of (m, es, cur) \<Rightarrow> (\<forall>e \<in> set es. entry_ok e \<and> snd e \<noteq> []) \<and> (\<forall>e. cur = Some e \<longrightarrow> entry_ok e))"

lemma set_next_word: "set (next_word a l) \<subseteq> set l"
  by (auto simp: next_word_def dest: set_dropWhileD)

lemma complete_ok: "menu_state_ok (m, es, cur) \<Longrightarrow> \<forall>e \<in> set (complete es cur). entry_ok e \<and> snd e \<noteq> []"
  by (auto simp: menu_state_ok_def complete_def split: option.splits)

lemma line_step_ok:
  assumes "menu_state_ok st" "l \<noteq> []" "0 \<notin> set l"
  shows "menu_state_ok (line_step tab l st)"
proof -
  obtain m es cur where st: "st = (m, es, cur)" by (cases st) auto
  have w: "entry_ok (next_word True l, [])" using assms(3) set_next_word by (fastforce simp: entry_ok_def)
  have a: "entry_ok (t, c @ [l])" if "entry_ok (t, c)" for t c using that assms(2,3) by (simp add: entry_ok_def)
  have m: "\<forall>e \<in> set es. entry_ok e \<and> snd e \<noteq> []" "\<And>e. cur = Some e \<Longrightarrow> entry_ok e" using assms(1) st by (auto simp: menu_state_ok_def)
  have k: "\<forall>e \<in> set (complete es cur). entry_ok e \<and> snd e \<noteq> []" by (rule complete_ok) (use assms(1) st in simp)
  show ?thesis
  proof (cases "lookup tab (command_word l)")
    case None
    then show ?thesis using assms(1) st by (simp add: line_step_def)
  next
    case (Some b)
    show ?thesis
    proof (cases "flags b AND BUILTIN_TITLE \<noteq> 0")
      case True
      then have "line_step tab l st = (m, complete es cur, Some (next_word True l, []))" using Some st by (simp add: line_step_def)
      then show ?thesis using w k by (simp add: menu_state_ok_def)
    next
      case False
      show ?thesis
      proof (cases cur)
        case None
        then have "line_step tab l st = (m @ [l], es, None) \<or> line_step tab l st = st" using Some st False by (simp add: line_step_def)
        then show ?thesis using m(1) assms(1) by (auto simp: menu_state_ok_def)
      next
        case (Some x)
        obtain t c where tc: "x = (t, c)" by (cases x) auto
        have "line_step tab l st = (m, es, Some (t, c @ [l]))" using \<open>lookup tab _ = Some b\<close> Some tc st False by (simp add: line_step_def)
        then show ?thesis using m(1) a [of t c] m(2) [OF Some] tc by (simp add: menu_state_ok_def)
      qed
    qed
  qed
qed

lemma fold_line_step_ok:
  "menu_state_ok st \<Longrightarrow> \<forall>l \<in> set ls. l \<noteq> [] \<and> 0 \<notin> set l \<Longrightarrow> menu_state_ok (fold (line_step tab) ls st)"
  by (induction ls arbitrary: st) (auto simp: line_step_ok)

lemma menu_of_ok:
  assumes "menu_of tab ls = (m, es)" "\<forall>l \<in> set ls. l \<noteq> [] \<and> 0 \<notin> set l"
  shows "\<forall>e \<in> set es. entry_ok e \<and> snd e \<noteq> []"
proof -
  obtain m' es' cur where f: "fold (line_step tab) ls ([], [], None) = (m', es', cur)" by (metis prod_cases3)
  have "menu_state_ok ([], [], None)" by (simp add: menu_state_ok_def)
  then have "menu_state_ok (m', es', cur)" using fold_line_step_ok [OF _ assms(2)] f by metis
  then show ?thesis using complete_ok assms(1) f by (auto simp: menu_of_def)
qed

section \<open>The entries of a loaded menu\<close>

lemma config_finish_finds:
  assumes "area_ok (fold (line_step tab) ls ([], [], None)) c" "menu_of tab ls = (m, es)" "\<forall>l \<in> set ls. l \<noteq> [] \<and> 0 \<notin> set l"
  defines "f \<equiv> config_finish c"
  shows "num_entries f = length es" "config_entries f = commands_text m es @ [0]" "menu_entries f = script_text (map fst es) @ [0]"
    and "has_titles (config_entries f @ menu_entries f) (length (config_entries f)) (map fst es)"
    and "es \<noteq> [] \<Longrightarrow> has_commands (config_entries f @ menu_entries f) (length (script_text m) + 1) (map snd es)"
proof -
  obtain es' cur where f: "fold (line_step tab) ls ([], [], None) = (m, es', cur)" "es = complete es' cur"
    using assms(2) by (auto simp: menu_of_def split: prod.splits)
  note a = config_finish_areas [OF assms(1) [unfolded f(1)], folded f(2) f_def]
  have ok: "\<forall>e \<in> set es. entry_ok e \<and> snd e \<noteq> []" by (rule menu_of_ok [OF assms(2,3)])
  show "num_entries f = length es" by (rule a(3))
  show "config_entries f = commands_text m es @ [0]" "menu_entries f = script_text (map fst es) @ [0]" by (rule a)+
  show "has_titles (config_entries f @ menu_entries f) (length (config_entries f)) (map fst es)"
    unfolding has_titles_def a
    by (intro conjI exI [of _ "commands_text m es @ [0]"] exI [of _ "[]"]) (use ok in \<open>auto simp: entry_ok_def\<close>)
  show "has_commands (config_entries f @ menu_entries f) (length (script_text m) + 1) (map snd es)" if "es \<noteq> []"
    unfolding has_commands_def a
    by (intro conjI exI [of _ "script_text m @ [0]"] exI [of _ "0 # script_text (map fst es) @ [0]"])
      (use ok that in \<open>auto simp: entry_ok_def commands_text_def\<close>)
qed

lemma commands_text_spelled:
  "commands_text m es @ [0] = script_text m @ concat (map (\<lambda>e. 0 # script_text (snd e)) es) @ (if es = [] then [0] else [0, 0])"
proof -
  have "0 # entries_text xs = concat (map (\<lambda>x. 0 # script_text x) xs) @ [0]" for xs
    by (induction xs) simp_all
  then show ?thesis by (simp add: commands_text_def comp_def)
qed

text \<open>
  C4. Loading a preset menu whose lines fit the buffer gives the entries its text describes: the lines of the text,
  joined at a backslash and without comments, are sorted into the commands before the first title and the entries; a
  title without commands makes no entry.  The two areas hold exactly these: the lines before the first title, as they
  were typed, then the commands of each entry, and the titles, every line with its end.  \<open>get_entry\<close> then finds at index \<open>i\<close> of the loaded areas the title of
  entry \<open>i\<close>, and its commands with the end mark behind them.
\<close>

theorem preset_menu_entries:
  assumes "table_ok (builtin_table e)" "preset_ready p"
    and "\<forall>x \<in> set (config_text_lines (preset_rest p)). length x \<le> NEW_HEAPSIZE"
    and "menu_of (builtin_table e) (config_text_lines (preset_rest p)) = (m, es)"
  shows "\<exists>c p' s'. config_lines e NEW_HEAPSIZE (config_source v addr True) cfg_start (p, s) = Some (c, p', s')
    \<and> num_entries (config_finish c) = length es
    \<and> config_entries (config_finish c) =
        script_text m @ concat (map (\<lambda>e. 0 # script_text (snd e)) es) @ (if es = [] then [0] else [0, 0])
    \<and> menu_entries (config_finish c) = script_text (map fst es) @ [0]
    \<and> (let f = config_finish c; b = config_entries f @ menu_entries f
        in \<forall>i < length es.
             (\<exists>q. get_entry b (length (config_entries f)) (int i) False = Some q \<and> str_of b q = Some (fst (es ! i)))
             \<and> (\<exists>q post. get_entry b (length (script_text m) + 1) (int i) True = Some q
                  \<and> drop q b = script_text (snd (es ! i)) @ 0 # post))"
proof -
  let ?ls = "config_text_lines (preset_rest p)"
  obtain t where "str_of (preset_text p) (preset_menu_offset p) = Some t" using assms(2) by (auto simp: preset_ready_def)
  then have "preset_rest p = t" "0 \<notin> set t" by (simp add: preset_rest_def, simp add: str_of_iff)
  then have "0 \<notin> set (preset_rest p)" by simp
  then have ls: "\<forall>l \<in> set ?ls. l \<noteq> [] \<and> 0 \<notin> set l" using config_text_lines_chars by blast
  obtain c p' s' where c: "config_lines e NEW_HEAPSIZE (config_source v addr True) cfg_start (p, s) = Some (c, p', s')"
      "area_ok (fold (line_step (builtin_table e)) ?ls ([], [], None)) c"
    using preset_stream.config_lines_menu [OF assms(1,2) area_ok_start] assms(3) ls by blast
  note f = config_finish_finds [OF c(2) assms(4) ls]
  have t: "\<exists>q. get_entry b (length (config_entries (config_finish c))) (int i) False = Some q \<and> str_of b q = Some (fst (es ! i))"
    if "i < length es" "b = config_entries (config_finish c) @ menu_entries (config_finish c)" for i b
    using get_entry_title [OF f(4), of "int i"] has_title [OF f(4), of i] that by (simp add: title_def)
  have k: "\<exists>q post. get_entry b (length (script_text m) + 1) (int i) True = Some q \<and> drop q b = script_text (snd (es ! i)) @ 0 # post"
    if "i < length es" "b = config_entries (config_finish c) @ menu_entries (config_finish c)" for i b
    proof -
    have ne: "es \<noteq> []" using that(1) by auto
    show ?thesis using get_entry_commands [OF f(5) [OF ne], of "int i"] that by simp
  qed
  show ?thesis unfolding Let_def
    using c(1) f(1) f(2,3) [unfolded commands_text_spelled] t [OF _ refl] k [OF _ refl] by blast
qed

end
