(* ===== verification/MenuSpec.thy ===== *)
theory MenuSpec
imports MenuText
begin

text \<open>
  Properties of \<open>run_menu\<close> and \<open>cmain\<close>: the keys that edit the list, the fallback entries, booting an entry, the menu
  with a password, and a configuration that cannot be opened.
\<close>

section \<open>Editing the list\<close>

lemma has_titles_split:
  assumes "has_titles b p ts" "k \<le> length ts"
  shows "take (title_at p ts k) b = take p b @ script_text (take k ts)"
    and "\<exists>post. drop (title_at p ts k) b = script_text (drop k ts) @ 0 # post"
proof -
  from assms(1) obtain pre post where b: "b = pre @ script_text ts @ 0 # post" "length pre = p" by (auto simp: has_titles_def)
  have s: "script_text ts = script_text (take k ts) @ script_text (drop k ts)" by (metis append_take_drop_id script_text_simps(3))
  show "take (title_at p ts k) b = take p b @ script_text (take k ts)" "\<exists>post. drop (title_at p ts k) b = script_text (drop k ts) @ 0 # post"
    using b s by (auto simp: title_at_def)
qed

lemma has_titles_prefix: "has_titles b p ts \<Longrightarrow> p \<le> length b"
  by (auto simp: has_titles_def)

lemma has_titles_replace:
  assumes "has_titles b p ts" "k \<le> length ts" "j \<le> length ts" "\<forall>t \<in> set us. 0 \<notin> set t"
  shows "has_titles (take (title_at p ts k) b @ script_text us @ drop (title_at p ts j) b) p (take k ts @ us @ drop j ts)"
proof -
  obtain post where d: "drop (title_at p ts j) b = script_text (drop j ts) @ 0 # post" using has_titles_split(2) [OF assms(1,3)] by blast
  have "\<forall>t \<in> set ts. 0 \<notin> set t" using assms(1) by (simp add: has_titles_def)
  then have z: "\<forall>t \<in> set (take k ts @ us @ drop j ts). 0 \<notin> set t" using assms(4) by (auto dest: in_set_takeD in_set_dropD)
  show ?thesis
    unfolding has_titles_def has_titles_split(1) [OF assms(1,2)] d
    by (rule conjI, rule exI [of _ "take p b"], rule exI [of _ post]) (use z has_titles_prefix [OF assms(1)] in simp_all)
qed

lemma edit_insert_list:
  assumes "has_titles (area w) (menu_at v) ts" "0 \<le> first_entry w + entryno w" "first_entry w + entryno w \<le> int (length ts)"
  defines "k \<equiv> nat (first_entry w + entryno w)"
  shows "\<exists>b. edit_insert v w = Some (w\<lparr>area := b, entries_no := entries_no w + 1\<rparr>)
    \<and> has_titles b (menu_at v) (take k ts @ [[32]] @ drop k ts)"
proof -
  have k: "k \<le> length ts" using assms(2,3) by (simp add: k_def nat_le_iff)
  let ?b = "take (title_at (menu_at v) ts k) (area w) @ script_text [[32]] @ drop (title_at (menu_at v) ts k) (area w)"
  have "has_titles ?b (menu_at v) (take k ts @ [[32]] @ drop k ts)"
    by (rule has_titles_replace [OF assms(1) k k]) simp
  moreover have "edit_insert v w = Some (w\<lparr>area := ?b, entries_no := entries_no w + 1\<rparr>)"
    using get_entry_title [OF assms(1,2,3)] by (simp add: edit_insert_def Let_def k_def)
  ultimately show ?thesis by blast
qed

lemma edit_delete_list:
  assumes "has_titles (area w) (menu_at v) ts" "0 \<le> first_entry w + entryno w" "first_entry w + entryno w < int (length ts)"
    and "entries_no w = int (length ts)"
  defines "k \<equiv> nat (first_entry w + entryno w)" and "n \<equiv> int (length ts) - 1"
  shows "\<exists>b. edit_delete v w = Some (w\<lparr>area := b, entries_no := n, entryno := (if entryno w \<ge> n then entryno w - 1 else entryno w),
      first_entry := (if first_entry w \<noteq> 0 \<and> n < box_h v + first_entry w then first_entry w - 1 else first_entry w)\<rparr>)
    \<and> has_titles b (menu_at v) (take k ts @ drop (Suc k) ts)"
proof -
  have k: "k < length ts" using assms(2,3) by (simp add: k_def nat_less_iff)
  have e: "get_entry (area w) (menu_at v) (first_entry w + entryno w) False = Some (title_at (menu_at v) ts k)"
    "get_entry (area w) (menu_at v) (first_entry w + entryno w + 1) False = Some (title_at (menu_at v) ts (Suc k))"
    using get_entry_title [OF assms(1,2)] get_entry_title [OF assms(1), of "first_entry w + entryno w + 1"] assms(2,3)
    by (simp_all add: k_def nat_add_distrib [of _ 1, simplified])
  let ?b = "take (title_at (menu_at v) ts k) (area w) @ drop (title_at (menu_at v) ts (Suc k)) (area w)"
  have "has_titles (take (title_at (menu_at v) ts k) (area w) @ script_text [] @ drop (title_at (menu_at v) ts (Suc k)) (area w))
      (menu_at v) (take k ts @ [] @ drop (Suc k) ts)"
    by (rule has_titles_replace [OF assms(1)]) (use k in auto)
  moreover have "0 < entries_no w" using assms(2-4) by linarith
  then have "edit_delete v w = Some (w\<lparr>area := ?b, entries_no := n, entryno := (if entryno w \<ge> n then entryno w - 1 else entryno w),
      first_entry := (if first_entry w \<noteq> 0 \<and> n < box_h v + first_entry w then first_entry w - 1 else first_entry w)\<rparr>)"
    unfolding edit_delete_def e bind.simps n_def assms(4) Let_def by (simp only: if_True)
  ultimately show ?thesis by auto
qed

text \<open>The list after the key \<open>c\<close> with the entry \<open>k\<close> selected.\<close>

definition edited :: "u8 \<Rightarrow> nat \<Rightarrow> u8 list list \<Rightarrow> u8 list list" where
  "edited c k ts =
     (if c = ch CHR ''d'' then take k ts @ drop (Suc k) ts
      else if c = ch CHR ''o'' then take (Suc k) ts @ [[32]] @ drop (Suc k) ts
      else take k ts @ [[32]] @ drop k ts)"

lemma edited_in: "[] \<notin> set ts \<Longrightarrow> [] \<notin> set (edited c k ts)"
  by (auto simp: edited_def dest: in_set_takeD in_set_dropD)

text \<open>
  C19. In the list of the commands of an entry, on a terminal with a cursor, the key \<open>d\<close> deletes the selected line of
  at least two, and \<open>o\<close> and \<open>O\<close> put a line of one space behind and before it: the bytes moved in memory are the new
  list, a line of it is selected and inside the box, and the box on the screen shows the new list.
\<close>

theorem edit_keys_edit_list:
  assumes "\<not> dumb v" "[] \<notin> set ts" "menu_ok v ts w" "c = ch CHR ''d'' \<longrightarrow> 2 \<le> length ts"
  shows "\<exists>w'. edit_key v c w = Some w' \<and> menu_ok v (edited c (nat (first_entry w + entryno w)) ts) w'"
proof -
  let ?k = "nat (first_entry w + entryno w)"
  have m: "has_titles (area w) (menu_at v) ts" "entries_no w = int (length ts)" "cursor_ok v w" using assms(3) by (simp_all add: menu_ok_def)
  have k: "0 \<le> first_entry w + entryno w" "first_entry w + entryno w < int (length ts)" using m by (auto simp: cursor_ok_def)
  define w1 where "w1 = w\<lparr>drawn := drawn w @ [Line (entryno w) False (entry_text (title ts ?k))]\<rparr>"
  have d: "draw_selected v False w = Some w1" unfolding w1_def by (rule draw_selected_title [OF m(1) k])
  have w1: "area w1 = area w" "entries_no w1 = entries_no w" "first_entry w1 = first_entry w" "entryno w1 = entryno w" "temp_entryno w1 = temp_entryno w"
    by (simp_all add: w1_def)
  have r: "\<exists>w'. redraw v w2 = Some w' \<and> menu_ok v (edited c ?k ts) w'"
    if "has_titles (area w2) (menu_at v) (edited c ?k ts)" "entries_no w2 = int (length (edited c ?k ts))" "cursor_ok v w2" for w2
    using redraw_ok [OF _ that] edited_in [OF assms(2), of c ?k] by blast
  have len: "int (length (edited c ?k ts)) = (if c = ch CHR ''d'' then int (length ts) - 1 else int (length ts) + 1)"
    using k by (auto simp: edited_def nat_less_iff)
  consider "c = ch CHR ''d''" | "c = ch CHR ''o''" | "c \<noteq> ch CHR ''d''" "c \<noteq> ch CHR ''o''" by blast
  then show ?thesis
  proof cases
    case 1
    obtain b where b: "edit_delete v w1 = Some (w1\<lparr>area := b, entries_no := int (length ts) - 1,
        entryno := (if entryno w \<ge> int (length ts) - 1 then entryno w - 1 else entryno w),
        first_entry := (if first_entry w \<noteq> 0 \<and> int (length ts) - 1 < box_h v + first_entry w then first_entry w - 1 else first_entry w)\<rparr>)"
        "has_titles b (menu_at v) (edited c ?k ts)"
      using edit_delete_list [of w1 v ts, unfolded w1, OF m(1) k m(2)] 1 unfolding edited_def by auto
    then obtain w2 where w2: "edit_delete v w1 = Some w2" "area w2 = b" "entries_no w2 = int (length ts) - 1"
        "temp_entryno w2 = temp_entryno w" "entryno w2 = (if entryno w \<ge> int (length ts) - 1 then entryno w - 1 else entryno w)"
        "first_entry w2 = (if first_entry w \<noteq> 0 \<and> int (length ts) - 1 < box_h v + first_entry w then first_entry w - 1 else first_entry w)"
      by (simp add: w1)
    have "edit_key v c w = redraw v w2" using 1 assms(1) d w2(1) by (simp add: edit_key_def)
    moreover have "cursor_ok v w2" using m(2,3) assms(4) 1 w2(3-) by (auto simp: cursor_ok_def)
    ultimately show ?thesis using r [of w2] b(2) w2(2,3) len 1 by simp
  next
    case 2
    define w2 where "w2 = (if entryno w1 < box_h v - 1 then w1\<lparr>entryno := entryno w1 + 1\<rparr> else w1\<lparr>first_entry := first_entry w1 + 1\<rparr>)"
    have w2: "area w2 = area w" "entries_no w2 = entries_no w" "first_entry w2 + entryno w2 = first_entry w + entryno w + 1"
      by (simp_all add: w2_def w1)
    have "Suc ?k = nat (first_entry w2 + entryno w2)" using k w2 by simp
    then obtain b where b: "edit_insert v w2 = Some (w2\<lparr>area := b, entries_no := entries_no w + 1\<rparr>)"
        "has_titles b (menu_at v) (edited c ?k ts)"
      using edit_insert_list [of w2 v ts] m k 2 w2 by (auto simp: edited_def)
    have "edit_key v c w = redraw v (w2\<lparr>area := b, entries_no := entries_no w + 1\<rparr>)"
      using 2 assms(1) d b(1) by (simp add: edit_key_def w2_def [symmetric])
    moreover have "cursor_ok v (w2\<lparr>area := b, entries_no := entries_no w + 1\<rparr>)" using m(2,3) by (auto simp: cursor_ok_def w2_def w1)
    ultimately show ?thesis using r [of "w2\<lparr>area := b, entries_no := entries_no w + 1\<rparr>"] b(2) len 2 m(2) by simp
  next
    case 3
    obtain b where b: "edit_insert v w1 = Some (w1\<lparr>area := b, entries_no := entries_no w + 1\<rparr>)"
        "has_titles b (menu_at v) (edited c ?k ts)"
      using edit_insert_list [of w1 v ts] m k 3 by (auto simp: edited_def w1)
    have "edit_key v c w = redraw v (w1\<lparr>area := b, entries_no := entries_no w + 1\<rparr>)"
      using 3 assms(1) d b(1) by (simp add: edit_key_def)
    moreover have "cursor_ok v (w1\<lparr>area := b, entries_no := entries_no w + 1\<rparr>)" using m(2,3) by (auto simp: cursor_ok_def w1)
    ultimately show ?thesis using r [of "w1\<lparr>area := b, entries_no := entries_no w + 1\<rparr>"] b(2) len 3 m(2) by simp
  qed
qed

theorem edit_keys_edit_list_witness:
  "\<exists>w. edit_key demo_terminal (ch CHR ''o'') demo_view = Some w
    \<and> menu_ok demo_terminal [cs ''a'', [32], cs ''bc'', cs ''d''] w"
proof -
  have "\<not> dumb demo_terminal" "[] \<notin> set demo_titles" by (simp_all add: demo_terminal_def demo_titles_def)
  then show ?thesis
    using edit_keys_edit_list [OF _ _ demo_view_ok, of "ch CHR ''o''"]
    by (simp add: edited_def demo_view_def demo_titles_def)
qed

section \<open>The fallback entries\<close>

lemma not_sless_zero: "\<not> e <s (0 :: u32) \<longleftrightarrow> 0 \<le>s e"
  by (simp add: word_sless_alt word_sle_eq not_less)

lemma not_sle: "\<not> n \<le>s (e :: u32) \<longleftrightarrow> e <s n"
  by (simp add: word_sless_alt word_sle_eq not_le)

lemma takeWhile_upto:
  assumes "k < length xs" "\<not> P (xs ! k)" "\<forall>j < k. P (xs ! j)"
  shows "takeWhile P xs = take k xs"
  using assms by (metis nth_take takeWhile_eq_take_P_nth)

text \<open>The entries before the index \<open>i\<close> are valid, the end mark stands at \<open>k\<close>.\<close>

lemma valid_fallbacks_from:
  assumes "length es = MAX_FALLBACK_ENTRIES" "i \<le> k" "k < MAX_FALLBACK_ENTRIES" "es ! k <s 0" "\<forall>j < k. 0 \<le>s es ! j"
  shows "\<exists>es'. valid_fallbacks num i es = Some es' \<and> length es' = MAX_FALLBACK_ENTRIES
    \<and> (\<exists>k'. k' \<le> k \<and> es' ! k' <s 0 \<and> take k' es' = take i es @ filter (\<lambda>e. e <s of_nat num) (drop i (take k es)))"
  using assms
proof (induction "k - i" arbitrary: i k es)
  case 0
  then have ik: "i = k" by simp
  have "valid_fallbacks num i es = Some es"
    using 0 ik by (subst valid_fallbacks.simps) (simp add: rd_def)
  then show ?case using 0 ik by auto
next
  case (Suc n)
  then have ik: "i < k" by simp
  then have i: "i < length es" "\<not> es ! i <s 0" using Suc.prems not_sless_zero by auto
  have d: "drop i (take k es) = es ! i # drop (Suc i) (take k es)" using ik i by (simp add: Cons_nth_drop_Suc [symmetric] drop_take [symmetric])
  show ?case
  proof (cases "of_nat num \<le>s es ! i")
    case True
    define fs where "fs = take i es @ drop (i + 1) es @ [last es]"
    have nth: "fs ! j = es ! (if j < i then j else j + 1)" if "j < k" for j
      using that i Suc.prems(1,3) by (auto simp: fs_def nth_append)
    have st: "valid_fallbacks num i es = valid_fallbacks num i fs"
      using i True Suc.prems(1,3) ik by (subst valid_fallbacks.simps) (simp add: rd_def fs_def)
    obtain es' k' where es': "valid_fallbacks num i fs = Some es'" "length es' = MAX_FALLBACK_ENTRIES" "k' \<le> k - 1" "es' ! k' <s 0"
        "take k' es' = take i fs @ filter (\<lambda>e. e <s of_nat num) (drop i (take (k - 1) fs))"
      using Suc.hyps(1) [of "k - 1" i fs] Suc.hyps(2) Suc.prems ik nth i by (force simp: fs_def)
    have "drop i (take (k - 1) fs) = drop (Suc i) (take k es)" "take i fs = take i es"
      using i ik Suc.prems(1,3) by (simp_all add: fs_def take_drop)
    then show ?thesis using st es' d True not_sle [of "of_nat num" "es ! i"] by (intro exI [of _ es']) (auto intro!: exI [of _ k'])
  next
    case False
    have st: "valid_fallbacks num i es = valid_fallbacks num (i + 1) es"
      using i False Suc.prems(1,3) ik by (subst valid_fallbacks.simps) (simp add: rd_def)
    obtain es' k' where es': "valid_fallbacks num (i + 1) es = Some es'" "length es' = MAX_FALLBACK_ENTRIES" "k' \<le> k" "es' ! k' <s 0"
        "take k' es' = take (i + 1) es @ filter (\<lambda>e. e <s of_nat num) (drop (i + 1) (take k es))"
      using Suc.hyps(1) [of k "i + 1" es] Suc.hyps(2) Suc.prems ik by force
    then show ?thesis using st d False not_sle [of "of_nat num" "es ! i"] i
      by (intro exI [of _ es']) (auto simp: take_Suc_conv_app_nth intro!: exI [of _ k'])
  qed
qed

text \<open>
  C20. When the list of fallback entries has an end mark, the check of \<open>cmain\<close> takes out exactly the entries that do not
  exist: what stands before the first end mark afterwards are the existing entries in their order.
\<close>

theorem valid_fallbacks_filters:
  assumes "length es = MAX_FALLBACK_ENTRIES" "k < MAX_FALLBACK_ENTRIES" "es ! k <s 0" "\<forall>j < k. 0 \<le>s es ! j"
  shows "\<exists>es' k'. valid_fallbacks num 0 es = Some es' \<and> length es' = MAX_FALLBACK_ENTRIES \<and> es' ! k' <s 0 \<and> k' \<le> k
    \<and> take k' es' = filter (\<lambda>e. e <s of_nat num) (take k es)"
  using valid_fallbacks_from [OF assms(1) _ assms(2-4), of 0 num] by force

theorem valid_fallbacks_filters_witness:
  "\<exists>es' k'. valid_fallbacks 3 0 [1, 7, 2, -1, 0, 0, 0, 0] = Some es' \<and> length es' = MAX_FALLBACK_ENTRIES \<and> es' ! k' <s 0 \<and> k' \<le> 3
    \<and> take k' es' = [1, 2]"
proof -
  let ?es = "[1, 7, 2, -1, 0, 0, 0, 0] :: u32 list"
  have "length ?es = MAX_FALLBACK_ENTRIES" "3 < MAX_FALLBACK_ENTRIES" by (simp_all add: MAX_FALLBACK_ENTRIES_def)
  moreover have "?es ! 3 <s 0" "\<forall>j < 3. 0 \<le>s ?es ! j" by (simp_all add: word_sless_alt word_sle_eq numeral_3_eq_3 less_Suc_eq)
  ultimately have "\<exists>es' k'. valid_fallbacks 3 0 ?es = Some es' \<and> length es' = MAX_FALLBACK_ENTRIES \<and> es' ! k' <s 0 \<and> k' \<le> 3
      \<and> take k' es' = filter (\<lambda>e. e <s of_nat 3) (take 3 ?es)"
    by (rule valid_fallbacks_filters)
  moreover have "filter (\<lambda>e. e <s of_nat 3) (take 3 ?es) = [1, 2]" by (simp add: word_sless_alt)
  ultimately show ?thesis by simp
qed

text \<open>The lists the check never leaves.\<close>

definition fallbacks_stuck :: "nat \<Rightarrow> nat \<Rightarrow> u32 list \<Rightarrow> bool" where
  "fallbacks_stuck num i es =
     (i < MAX_FALLBACK_ENTRIES \<and> length es = MAX_FALLBACK_ENTRIES \<and> (\<forall>e \<in> set es. 0 \<le>s e) \<and> of_nat num \<le>s last es)"

lemma valid_fallbacks_stuck: "valid_fallbacks num i es = Some r \<Longrightarrow> \<not> fallbacks_stuck num i es"
proof (induction rule: valid_fallbacks.raw_induct [rotated, consumes 1, case_names 1])
  case (1 rec num i es r)
  show ?case
  proof
    assume a: "fallbacks_stuck num i es"
    then have ne: "es \<noteq> []" by (auto simp: fallbacks_stuck_def MAX_FALLBACK_ENTRIES_def)
    have l: "length es = MAX_FALLBACK_ENTRIES" "i < MAX_FALLBACK_ENTRIES" "\<forall>e \<in> set es. 0 \<le>s e" "of_nat num \<le>s last es"
      using a by (simp_all add: fallbacks_stuck_def)
    have i: "\<not> es ! i <s 0" using l not_sless_zero by simp
    show False
    proof (cases "of_nat num \<le>s es ! i")
      case True
      then have "rec num i (take i es @ drop (i + 1) es @ [last es]) = Some r" using 1(2) l i by (simp add: rd_def)
      then have "\<not> fallbacks_stuck num i (take i es @ drop (i + 1) es @ [last es])" by (rule 1(1))
      then show False using l ne by (auto simp: fallbacks_stuck_def dest: in_set_takeD in_set_dropD)
    next
      case False
      then have "rec num (i + 1) es = Some r" using 1(2) l i by (simp add: rd_def)
      then have "\<not> fallbacks_stuck num (i + 1) es" by (rule 1(1))
      moreover have "i \<noteq> length es - 1" using False l(4) ne by (auto simp: last_conv_nth)
      ultimately show False using l by (simp add: fallbacks_stuck_def)
    qed
  qed
qed

text \<open>
  C21. A list of eight fallback entries without an end mark, whose last one does not exist, makes the check run forever:
  taking an entry out of the list doubles the last one.
\<close>

theorem valid_fallbacks_hangs:
  assumes "length es = MAX_FALLBACK_ENTRIES" "\<forall>e \<in> set es. 0 \<le>s e" "of_nat num \<le>s last es"
  shows "valid_fallbacks num 0 es = None"
  using valid_fallbacks_stuck [of num 0 es] assms by (cases "valid_fallbacks num 0 es") (auto simp: fallbacks_stuck_def MAX_FALLBACK_ENTRIES_def)

theorem valid_fallbacks_hangs_witness: "valid_fallbacks 3 0 [0, 1, 2, 0, 1, 2, 0, 9] = None"
  by (rule valid_fallbacks_hangs) (simp_all add: MAX_FALLBACK_ENTRIES_def word_sle_eq)

end
