(* ===== verification/MenuBoot.thy ===== *)
theory MenuBoot
imports MenuSpec
begin

text \<open>
  Properties of the actions of the menu: booting an entry and its fallback entries, the menu with a password, and the
  start without a configuration.
\<close>

section \<open>Booting\<close>

lemma run_lines_ret: "run_lines e ls r old s = Some (Some x, s') \<Longrightarrow> x = 1"
proof (induction ls arbitrary: r old s)
  case Nil
  then show ?case by (simp split: if_splits)
next
  case (Cons l ls)
  show ?case
  proof (cases "errnum s \<noteq> ERR_NONE \<and> errorcheck s")
    case True
    then show ?thesis using Cons.prems by (auto simp: map_option_case split: option.splits)
  next
    case False
    then obtain h where "store (heap s) 0 (l @ [0]) = Some h" using Cons.prems by (auto simp: bind_eq_Some_conv)
    then show ?thesis
      using Cons.prems False Cons.IH
      by (cases "lookup (builtin_table e) (command_word l)") (auto simp: Let_def bind_eq_Some_conv simp del: run_lines.simps(1) split: if_splits)
  qed
qed

text \<open>
  What an entry does: its lines, and at their end with a kernel loaded the command \<open>boot\<close>.  \<open>boot\<close> comes back only to
  report an error; what would follow otherwise is not described here.
\<close>

definition entry_run :: "('d, 'h, 'w) shell_env \<Rightarrow> u8 list list \<Rightarrow> ('d, 'h, 'w) shell \<Rightarrow> (int \<times> ('d, 'h, 'w) shell) option" where
  "entry_run e ls s =
     do { (r, t) \<leftarrow> run_lines e ls None [] s;
          case r of Some ret \<Rightarrow> Some (ret, t)
          | None \<Rightarrow>
            do { h \<leftarrow> wr (heap t) 0 0;
                 if \<not> kernel_loaded t then Some (0, t\<lparr>errnum := ERR_NONE, heap := h\<rparr>)
                 else do { b \<leftarrow> lookup (builtin_table e) (cs ''boot'');
                           h' \<leftarrow> store h 0 (cs ''boot'' @ [0]);
                           u \<leftarrow> exec_line e BUILTIN_SCRIPT b (t\<lparr>errnum := ERR_NONE, heap := h', buf_drive := -1\<rparr>);
                           if flags b AND BUILTIN_CMDLINE \<noteq> 0 \<and> errnum u \<noteq> ERR_NONE \<and> errorcheck u
                           then map_option (Pair 1) (script_error (Some b) [] u) else None } } }"

lemma entry_run_script:
  assumes "table_ok (builtin_table e)" "\<forall>l \<in> set ls. l \<noteq> [] \<and> 0 \<notin> set l"
    and "init_cmdline e s = Some s0" "entry_run e ls s0 = Some (x, u)"
  shows "run_script e (script_text ls @ 0 # post) s = Some (x, u)"
proof -
  have "s0\<lparr>errnum := ERR_NONE\<rparr> = s0" using assms(3) by (auto simp: init_cmdline_def Let_def bind_eq_Some_conv)
  then have rs: "run_script e (script_text ls @ 0 # post) s = script_loop e (script_text ls @ 0 # post) 0 None [] s0"
    using assms(3) by (simp add: run_script_def)
  obtain r t where run: "run_lines e ls None [] s0 = Some (r, t)" using assms(4) by (auto simp: entry_run_def bind_eq_Some_conv)
  note p = script_loop_prefix [OF assms(1,2) run, of "[]" post, simplified]
  show ?thesis
  proof (cases r)
    case (Some ret)
    then show ?thesis using p rs run assms(4) by (simp add: entry_run_def)
  next
    case None
    then obtain r' old' where ok: "\<not> (errnum t \<noteq> ERR_NONE \<and> errorcheck t)"
      and l: "script_loop e (script_text ls @ 0 # post) 0 None [] s0 =
        script_loop e (script_text ls @ 0 # post) (length (script_text ls)) r' old' t" using p by auto
    obtain h where h: "wr (heap t) 0 0 = Some h" using assms(4) run None by (auto simp: entry_run_def bind_eq_Some_conv)
    show ?thesis
    proof (cases "kernel_loaded t")
      case False
      then show ?thesis
        using script_loop_end [OF ok, of e "script_text ls" post r' old'] assms(4) run None h l rs by (simp add: entry_run_def)
    next
      case True
      obtain b h' t' where b: "lookup (builtin_table e) (cs ''boot'') = Some b" "flags b AND BUILTIN_CMDLINE \<noteq> 0"
        "store h 0 (cs ''boot'' @ [0]) = Some h'"
        "exec_line e BUILTIN_SCRIPT b (t\<lparr>errnum := ERR_NONE, heap := h', buf_drive := -1\<rparr>) = Some t'"
        "errnum t' \<noteq> ERR_NONE" "errorcheck t'" "map_option (Pair 1) (script_error (Some b) [] t') = Some (x, u)"
        using assms(4) run None h True unfolding entry_run_def by (simp add: bind_eq_Some_conv split: if_splits) blast
      show ?thesis
        using script_loop_boot [OF assms(1) ok True h b(3,1,2,4,5,6), of "script_text ls" post r' old'] b(7) l rs by simp
    qed
  qed
qed

lemma entry_run_ret: "entry_run e ls s = Some (x, u) \<Longrightarrow> x = 0 \<or> x = 1"
  by (auto simp: entry_run_def bind_eq_Some_conv dest: run_lines_ret split: option.splits if_splits)

lemma next_fallback_entry:
  assumes "f = fallback_entries (world t)" "length f = MAX_FALLBACK_ENTRIES" "n = fallback_entryno t" "0 \<le> n"
  shows "next_fallback t = Some (t\<lparr>fallback_entryno := (if n + 1 < int MAX_FALLBACK_ENTRIES \<and> 0 \<le>s f ! nat (n + 1) then n + 1 else -1)\<rparr>)"
  using assms not_sless_zero [of "f ! nat (n + 1)"] by (auto simp: next_fallback_def Let_def rd_def)

text \<open>The state in which the commands of the entry \<open>i\<close> start.\<close>

definition boot_start :: "int \<Rightarrow> ('d, 'h, 'f) ushell \<Rightarrow> ('d, 'h, 'f) ushell" where
  "boot_start i = on_world (\<lambda>x. x\<lparr>current_entryno := word_of_int i\<rparr>)"

text \<open>The message before, which names the entry.\<close>

definition booting :: "u8 list \<Rightarrow> ('d, 'h, 'f) ushell \<Rightarrow> ('d, 'h, 'f) ushell" where
  "booting t s =
     (if 0 <s debug s then print_tty [Print (cs ''  Booting '' @ [39] @ t @ [39]), Print [10, 10]] s else s)"

lemma booting_printf: "gprintf (''  Booting '%s'' @ [CHR 0x27]) [PStr t] s = Some (print_tty [Print (cs ''  Booting '' @ [39] @ t @ [39])] s)"
proof -
  let ?segs = "[Lit (cs ''  Booting '' @ [39]), Str t, Lit [39]]"
  have "grub_printf (concat (map seg_format ?segs) @ [0]) (concat (map seg_args ?segs)) = Some (concat (map seg_text ?segs))"
    using format_loop_segs [of ?segs "[]" "[]" "[]"] by (simp add: grub_printf_def)
  then show ?thesis by (simp add: gprintf_def)
qed

lemma boot_message_title:
  assumes "config_at v = Some c" "has_titles (area w) (menu_at v) ts" "i = first_entry w + entryno w" "0 \<le> i" "i < int (length ts)"
  shows "boot_message v w s = Some (print_tty [Print (cs ''  Booting '' @ [39] @ ts ! nat i @ [39]), Print [10, 10]] s)"
proof -
  have g: "get_entry (area w) (menu_at v) (first_entry w + entryno w) False = Some (title_at (menu_at v) ts (nat i))"
    using get_entry_title [OF assms(2,4)] assms(3,5) by simp
  have st: "str_of (area w) (title_at (menu_at v) ts (nat i)) = Some (ts ! nat i)"
    using has_title [OF assms(2), of "nat i"] assms(4,5) by (simp add: title_def nat_less_iff)
  show ?thesis
    unfolding boot_message_def using assms(1) g st by (simp only: option.case bind.simps booting_printf) (simp add: print_tty_def)
qed

text \<open>
  C6. Booting the selected entry of a loaded menu names the entry (if \<open>debug\<close> is positive) and runs the commands of
  exactly that entry, in their order, with \<open>current_entryno\<close> set to it, and \<open>boot\<close> at their end if they loaded a
  kernel.  If the commands end without an error and without a kernel the menu comes back; after an error with
  \<open>errorcheck\<close> on, of a command or of that \<open>boot\<close>, the next fallback entry is booted in the same way, with the
  position in the list of fallback entries moved on, and if there is none the menu comes back.  The commands come back
  at all, the list of fallback entries has its length, and a \<open>boot\<close> that comes back without an error at the end of the
  commands, after which the code reads on behind them, is not covered.
\<close>

theorem boot_runs_entry:
  assumes "table_ok (builtin_table e)" "config_at v = Some c" "has_commands (area w) c xs" "has_titles (area w) (menu_at v) ts"
    and "i = first_entry w + entryno w" "0 \<le> i" "i < int (length xs)" "length ts = length xs"
    and "init_cmdline e (boot_start i (booting (ts ! nat i) s)) = Some s0" "entry_run e (xs ! nat i) s0 = Some (x, t)"
    and "n = fallback_entryno t" "f = fallback_entries (world t)" "length f = MAX_FALLBACK_ENTRIES" "n < int MAX_FALLBACK_ENTRIES"
  shows "boot_loop e v None w s =
    (if x = 0 \<or> n < 0 then Some (w, t)
     else boot_loop e v None (w\<lparr>first_entry := 0, entryno := sint (f ! nat n)\<rparr>)
            (t\<lparr>fallback_entryno := (if n + 1 < int MAX_FALLBACK_ENTRIES \<and> 0 \<le>s f ! nat (n + 1) then n + 1 else -1)\<rparr>))"
proof -
  obtain q post where q: "get_entry (area w) c i True = Some q" "drop q (area w) = script_text (xs ! nat i) @ 0 # post"
    using get_entry_commands [OF assms(3,6,7)] by blast
  have "xs ! nat i \<in> set xs" using assms(6,7) by simp
  then have ls: "\<forall>l \<in> set (xs ! nat i). l \<noteq> [] \<and> 0 \<notin> set l" using assms(3) by (simp add: has_commands_def)
  have m: "(if 0 <s debug s then boot_message v w s else Some s) = Some (booting (ts ! nat i) s)"
  proof (cases "0 <s debug s")
    case True
    have "boot_message v w s = Some (print_tty [Print (cs ''  Booting '' @ [39] @ ts ! nat i @ [39]), Print [10, 10]] s)"
      by (rule boot_message_title [OF assms(2,4,5,6)]) (use assms(7,8) in simp)
    then show ?thesis unfolding booting_def if_P [OF True] .
  qed (simp add: booting_def)
  have p: "boot_commands v None w = Some q" using q(1) assms(2,5) by (simp add: boot_commands_def)
  have run: "run_script e (drop q (area w)) (on_world (\<lambda>x. x\<lparr>current_entryno := word_of_int (first_entry w + entryno w)\<rparr>)
      (booting (ts ! nat i) s)) = Some (x, t)"
    using entry_run_script [OF assms(1) ls assms(9,10), of post] unfolding q(2) boot_start_def assms(5) .
  have loop: "boot_loop e v None w s =
     (if x \<noteq> 0 \<and> fallback_entryno t \<ge> 0 then
        do { n \<leftarrow> rd (fallback_entries (world t)) (nat (fallback_entryno t));
             s3 \<leftarrow> next_fallback t;
             boot_loop e v None (w\<lparr>first_entry := 0, entryno := sint n\<rparr>) s3 }
      else Some (w, t))"
    by (subst boot_loop.simps) (simp only: m p run bind.simps prod.case)
  have "rd f (nat n) = Some (f ! nat n)" if "0 \<le> n" using assms(13,14) that by (simp add: rd_def nat_less_iff)
  moreover have "next_fallback t = Some (t\<lparr>fallback_entryno := (if n + 1 < int MAX_FALLBACK_ENTRIES \<and> 0 \<le>s f ! nat (n + 1) then n + 1 else -1)\<rparr>)"
    if "0 \<le> n" using next_fallback_entry [of f t n] assms(11-14) that by simp
  ultimately show ?thesis unfolding loop using assms(11,12) by (simp add: not_less)
qed

section \<open>The menu with a password\<close>

lemma redraw_area: "redraw v w = Some w' \<Longrightarrow> area w' = area w"
  by (auto simp: redraw_def bind_eq_Some_conv)

lemma draw_selected_area: "draw_selected v hl w = Some w' \<Longrightarrow> area w' = area w"
  by (auto simp: draw_selected_def bind_eq_Some_conv)

lemma move_selected_area: "move_selected v d w = Some w' \<Longrightarrow> area w' = area w"
  by (auto simp: move_selected_def bind_eq_Some_conv dest!: draw_selected_area)

lemma check_update_area: "check_update v w = Some w' \<Longrightarrow> area w' = area w"
  by (auto simp: check_update_def dest!: redraw_area split: if_splits)

lemma after_update_area [simp]: "area (after_update w) = area w"
  by (simp add: after_update_def)

lemma nav_key_area: "nav_key v c w = Some w' \<Longrightarrow> area w' = area w"
  by (auto simp: nav_key_def Let_def key_up_def key_down_def page_up_def page_down_def key_digit_def key_jump_def
        bind_eq_Some_conv dest!: redraw_area move_selected_area check_update_area split: if_splits)

lemma gprintf_keeps: "gprintf f args s = Some s' \<Longrightarrow> \<exists>es. s' = print_tty es s"
  by (auto simp: gprintf_def bind_eq_Some_conv)

lemma print_tty_print_tty: "print_tty es (print_tty fs s) = print_tty (fs @ es) s"
  by (simp add: print_tty_def)

lemma print_tty_world [simp]: "world (print_tty es s) = world s"
  by (simp add: print_tty_def)

text \<open>
  The password prompt: it gives back a string that fits \<open>entered\<close>, and leaves the memory and the variables of the menu
  alone.
\<close>

definition prompt_ok :: "('d, 'h, 'f) menu_io \<Rightarrow> bool" where
  "prompt_ok io =
     ((\<forall>t b t'. password_line io t = Some (b, t') \<longrightarrow>
         world t' = world t \<and> mem t' = mem t \<and> (\<exists>u. str_of b 0 = Some u \<and> length u < 32))
      \<and> (\<forall>t. auth (world (snd (getkey io t))) = auth (world t)))"

text \<open>
  The passwords a stored word \<open>w\<close> stands for: itself, or those of which MD5-crypt with the header and the salt of \<open>w\<close>
  makes the text behind them.
\<close>

definition password_matches :: "password_t \<Rightarrow> u8 list \<Rightarrow> u8 list \<Rightarrow> bool" where
  "password_matches type w u =
     (case type of
        PASSWORD_PLAIN \<Rightarrow> u = w
      | PASSWORD_MD5 \<Rightarrow> \<exists>h salt x. w = h @ salt @ ch CHR ''$'' # x \<and> length h = 3 \<and> ch CHR ''$'' \<notin> set salt \<and> x = crypted_text u salt (h @ salt)
      | PASSWORD_UNSUPPORTED \<Rightarrow> False)"

lemma first_occ_absent: "c \<notin> set t \<Longrightarrow> first_occ [c] t = None"
  by (induction t) auto

lemma split_first_unique: "c \<notin> set a \<Longrightarrow> c \<notin> set b \<Longrightarrow> a @ c # x = b @ c # y \<Longrightarrow> a = b \<and> x = y"
  by (induction a arbitrary: b) (auto simp: Cons_eq_append_conv append_eq_Cons_conv)

lemma check_password_md5:
  assumes "str_of entered 0 = Some u" "length u < 32" "str_of b 0 = Some w" "length b \<le> PASSWORD_BUFLEN"
    and "length (buffer c) = 64" "md5_password entered b True c = Some (r, b', c')"
  shows "r = 0 \<longleftrightarrow> password_matches PASSWORD_MD5 w u"
proof -
  obtain q post where b: "b = q @ w @ 0 # post" "length q = 0" and nz: "0 \<notin> set w" using str_of_split [OF assms(3)] by blast
  have lw: "length w + 1 < 2 ^ 24" "length u < 2 ^ 24" using assms(2,4) b by (simp_all add: PASSWORD_BUFLEN_def)
  show ?thesis
  proof (cases "length w \<le> 3")
    case True
    then have "r = 1" using assms(1,3,6) by (auto simp: md5_password_def grub_strlen_eq bind_eq_Some_conv)
    then show ?thesis using True by (auto simp: password_matches_def)
  next
    case False
    define h v where "h = take 3 w" and "v = drop 3 w"
    have hv: "w = h @ v" "length h = 3" using False by (simp_all add: h_def v_def)
    have v: "str_of b 3 = Some v" using str_of_at [of v h post] b hv nz by (simp add: str_of_at)
    have d: "str_of (cs ''$'' @ [0]) 0 = Some (cs ''$'')" using str_of_literal [of "cs ''$''" "[]"] by simp
    have "ch CHR ''$'' \<in> set v"
    proof (rule ccontr)
      assume "ch CHR ''$'' \<notin> set v"
      then have "grub_strstr b 3 (cs ''$'' @ [0]) 0 = Some None"
        using grub_strstr_first_occ [OF v d] first_occ_absent by simp
      then show False using assms(1,3,6) False by (auto simp: md5_password_def grub_strlen_eq bind_eq_Some_conv)
    qed
    then obtain salt x where x: "v = salt @ ch CHR ''$'' # x" "ch CHR ''$'' \<notin> set salt" by (meson split_list_first)
    have "\<exists>c' r. md5_password entered (h @ salt @ ch CHR ''$'' # x @ 0 # post) True c =
        Some (r, h @ salt @ ch CHR ''$'' # x @ 0 # post, c') \<and> (r = 0 \<longleftrightarrow> x = crypted_text u salt (h @ salt))"
      by (rule md5_password_checked [OF assms(1) lw(2) assms(5) hv(2) x(2)]) (use nz hv x lw in auto)
    then have r: "r = 0 \<longleftrightarrow> x = crypted_text u salt (h @ salt)" using assms(6) b hv x by simp
    have uniq: "h' = h \<and> salt' = salt \<and> x' = x"
      if "w = h' @ salt' @ ch CHR ''$'' # x'" "length h' = 3" "ch CHR ''$'' \<notin> set salt'" for h' salt' x'
    proof -
      have "h' = h" "salt' @ ch CHR ''$'' # x' = salt @ ch CHR ''$'' # x" using that hv x by auto
      then show ?thesis using split_first_unique [OF that(3) x(2)] by blast
    qed
    have "password_matches PASSWORD_MD5 w u \<longleftrightarrow> x = crypted_text u salt (h @ salt)"
    proof
      assume "password_matches PASSWORD_MD5 w u"
      then obtain h' salt' x' where m: "w = h' @ salt' @ ch CHR ''$'' # x'" "length h' = 3" "ch CHR ''$'' \<notin> set salt'"
        "x' = crypted_text u salt' (h' @ salt')" unfolding password_matches_def password_t.case by blast
      show "x = crypted_text u salt (h @ salt)" using uniq [OF m(1-3)] m(4) by blast
    next
      assume "x = crypted_text u salt (h @ salt)"
      then show "password_matches PASSWORD_MD5 w u"
        unfolding password_matches_def password_t.case hv(1) x(1) using hv(2) x(2) by blast
    qed
    then show ?thesis using r by simp
  qed
qed

lemma check_password_matches:
  assumes "str_of entered 0 = Some u" "length u < 32" "str_of b 0 = Some w" "length b \<le> PASSWORD_BUFLEN"
    and "length (buffer c) = 64" "check_password entered b 0 type c = Some (r, c')"
  shows "r = 0 \<longleftrightarrow> password_matches type w u"
proof (cases type)
  case PASSWORD_PLAIN
  then have "r = cmp_int (strkey u) (strkey w)"
    using assms(6) grub_strcmp_strkey [OF assms(1,3)] by (simp add: check_password_def)
  then show ?thesis using PASSWORD_PLAIN strkey_inj by (auto simp: password_matches_def cmp_int_def split: if_splits)
next
  case PASSWORD_MD5
  then show ?thesis using check_password_md5 [OF assms(1-5)] assms(6) by (auto simp: check_password_def bind_eq_Some_conv)
next
  case PASSWORD_UNSUPPORTED
  then show ?thesis using assms(6) by (auto simp: check_password_def password_matches_def)
qed

lemma password_key_auth:
  assumes "prompt_ok io" "\<not> auth (world s)" "length (buffer (md5 (world s))) = 64"
    and "str_of (peek (mem s) (password (world s)) PASSWORD_BUFLEN) 0 = Some pw"
    and "password_key v io s = Some (act, s')" "auth (world s')"
  shows "\<exists>es b t' u. password_line io (print_tty es s) = Some (b, t') \<and> str_of b 0 = Some u
    \<and> password_matches (password_type (world s)) (takeWhile (\<lambda>c. \<not> isspace_char c) pw) u"
proof -
  let ?es = "if dumb v then [Print (13 # replicate 36 32)] else []"
  let ?t = "if dumb v then print_tty [Print (13 # replicate 36 32)] s else s"
  have t: "?t = print_tty ?es s" by (simp add: print_tty_def)
  obtain b sa where p: "password_line io ?t = Some (b, sa)" using assms(5) by (auto simp: password_key_def bind_eq_Some_conv)
  have "world ?t = world s" "mem ?t = mem s" by (simp_all add: print_tty_def)
  then obtain u where sa: "world sa = world s" "mem sa = mem s" and u: "str_of b 0 = Some u" "length u < 32"
    using assms(1) p unfolding prompt_ok_def by metis
  let ?b = "peek (mem s) (password (world s)) PASSWORD_BUFLEN"
  let ?w = "takeWhile (\<lambda>c. \<not> isspace_char c) pw"
  obtain c b1 where nt: "nul_terminate ?b 0 = Some (c, b1)" "str_of b1 0 = Some ?w"
    using nul_terminate_word [OF assms(4)] by auto
  then obtain j where j: "nul_scan ?b 0 = Some j" "wr ?b j 0 = Some b1" by (auto simp: nul_terminate_def bind_eq_Some_conv)
  then have lb: "length b1 \<le> PASSWORD_BUFLEN" by (auto simp: wr_def split: if_splits)
  obtain r c' where cp: "check_password b b1 0 (password_type (world s)) (md5 (world s)) = Some (r, c')"
    using assms(5) p sa j by (auto simp: password_key_def Let_def bind_eq_Some_conv)
  have "r = 0"
  proof (rule ccontr)
    assume "r \<noteq> 0"
    then have "s' = snd (getkey io (print_tty [Print (cs ''Failed! Press any key to continue...'')]
        (on_world (\<lambda>w. w\<lparr>md5 := c'\<rparr>) (sa\<lparr>mem := poke (password (world s)) b1 (mem s)\<rparr>))))"
      using assms(5) p sa j cp by (auto simp: password_key_def Let_def)
    then show False using assms(1,2,6) sa by (simp add: prompt_ok_def on_world_def)
  qed
  then have "password_matches (password_type (world s)) ?w u"
    using check_password_matches [OF u nt(2) lb assms(3) cp] by simp
  then show ?thesis using p u(1) unfolding t by blast
qed

lemma menu_key_locked:
  assumes "locked s" "config_at v = Some a" "menu_key sub e io v c w s = Some (act, w', s')"
  obtains w1 es where "nav_key v c w = Some w1" "w' = w1"
    "if char_of c = ch CHR ''p'' then password_key v io (print_tty es s) = Some (act, s')
     else s' = print_tty es s \<and> (act = Stay \<or> act = BootEntry None)"
    "\<And>sub' e' io'. char_of c \<noteq> ch CHR ''p'' \<Longrightarrow> menu_key sub' e' io' v c w s = Some (act, w', s')"
proof -
  obtain w1 s1 where n: "nav_key v c w = Some w1" "gprintf ''%d  '' [PNum (word_of_int (first_entry w1 + entryno w1))] s = Some s1"
    using assms(3) by (auto simp: menu_key_def bind_eq_Some_conv)
  obtain es where es: "s1 = print_tty es s" using gprintf_keeps [OF n(2)] by blast
  have l: "locked (print_tty es s)" using assms(1) by (simp add: locked_def)
  show ?thesis
    by (rule that [of w1 es])
      (use assms(2,3) n l in \<open>auto simp: menu_key_def es select_key_def privileged_key_def bind_eq_Some_conv split: if_splits\<close>)
qed

text \<open>
  C5. In the menu of the entries with a password set and no authority, no key changes the areas or starts the command
  line; a key other than \<open>p\<close> does the same whatever the editor, the commands and the prompts are, and leaves the
  variables of the menu alone; and authority is given only to the user who answered the prompt of this key with a
  password the stored word stands for: the word itself for a plain password, a password of which MD5-crypt makes the
  stored text for one set with \<open>--md5\<close>, and none for an unknown kind.  The stored word is a string in the password
  buffer and ends at the first blank; the prompt gives back a string of less than 32 characters and does not touch the
  menu.
\<close>

theorem locked_menu_keeps:
  assumes "locked s" "config_at v = Some a" "menu_key sub e io v c w s = Some (act, w', s')" "prompt_ok io"
    and "length (buffer (md5 (world s))) = 64"
    and "str_of (peek (mem s) (password (world s)) PASSWORD_BUFLEN) 0 = Some pw"
  shows "area w' = area w \<and> act \<noteq> AtCmdline
    \<and> (char_of c \<noteq> ch CHR ''p'' \<longrightarrow> world s' = world s \<and> (\<forall>sub' e' io'. menu_key sub' e' io' v c w s = Some (act, w', s')))
    \<and> (auth (world s') \<longrightarrow> char_of c = ch CHR ''p''
        \<and> (\<exists>es b t' u. password_line io (print_tty es s) = Some (b, t') \<and> str_of b 0 = Some u
             \<and> password_matches (password_type (world s)) (takeWhile (\<lambda>c. \<not> isspace_char c) pw) u))"
proof -
  let ?P = "\<lambda>t. \<exists>es b t' u. password_line io (print_tty es t) = Some (b, t') \<and> str_of b 0 = Some u
      \<and> password_matches (password_type (world s)) (takeWhile (\<lambda>c. \<not> isspace_char c) pw) u"
  obtain w1 es where k: "nav_key v c w = Some w1" "w' = w1"
      "if char_of c = ch CHR ''p'' then password_key v io (print_tty es s) = Some (act, s')
       else s' = print_tty es s \<and> (act = Stay \<or> act = BootEntry None)"
      "\<And>sub' e' io'. char_of c \<noteq> ch CHR ''p'' \<Longrightarrow> menu_key sub' e' io' v c w s = Some (act, w', s')"
    using menu_key_locked [OF assms(1-3)] by blast
  have na: "\<not> auth (world s)" using assms(1) by (simp add: locked_def)
  have "act \<noteq> AtCmdline"
    using k(3) by (auto simp: password_key_def bind_eq_Some_conv Let_def split: if_splits)
  moreover have "?P s" if "auth (world s')" "char_of c = ch CHR ''p''"
  proof -
    have "?P (print_tty es s)"
      using password_key_auth [of io "print_tty es s" pw v act s'] assms(4-6) na k(3) that by (simp add: print_tty_def)
    then show ?thesis by (metis print_tty_print_tty)
  qed
  ultimately show ?thesis using k nav_key_area na by (auto split: if_splits)
qed

section \<open>No configuration\<close>

text \<open>
  C22. When the configuration file is not named or cannot be opened and no preset menu is left, \<open>cmain\<close> leaves its
  endless loop instead of starting the command line.
\<close>

theorem unopened_config_leaves_loop:
  assumes "use_config_file me" "preset_menu p = 0"
    and "read_saved_entry v (stack me) (reset (s\<lparr>debug := of_bool (debug_boot me) + 1\<rparr>)) = Some sa"
    and "rd (config_file (world sa)) 0 = Some c"
    and "c \<noteq> 0 \<longrightarrow> (\<exists>b t. grub_open (disks v) (fsystems v) (unzip v) (config_file (world sa)) 0 sa = Some (False, b, t))"
  shows "\<exists>s'. cmain e v io me p s = Some (LeftLoop, s')"
proof -
  have "\<exists>b p' t. open_config v p sa = Some (False, b, p', t)"
    using assms(2,4,5) by (cases "c = 0") (auto simp: open_config_def open_preset_menu_def Let_def)
  then show ?thesis
    using assms(1,3) by (subst (1) cmain_def, subst cmain_loop.simps) (auto simp: cmain_turn_def Let_def)
qed

section \<open>Cases the code does not handle\<close>

text \<open>An entry whose title is empty ends what is shown: the loop does not go over its end.\<close>

lemma empty_title_hides_entries:
  "print_entries (script_text [cs ''a'', [], cs ''b''] @ [0]) 0 3 0 0 =
     Some [UpMark DISP_VERT, Line 0 True (entry_text (cs ''a'')), Line 1 False (entry_text []), Line 2 False (entry_text []), DownMark DISP_VERT]"
  by code_simp

text \<open>On a dumb terminal the entry is always counted from the first one, but the keys for pages and numbers move it.\<close>

lemma dumb_first_entry_moves:
  "map_option first_entry (nav_key \<lparr>box_h = 2, dumb = True, menu_at = 0, config_at = Some 0\<rparr> KEY_END
     \<lparr>first_entry = 0, entryno = 0, temp_entryno = 0, entries_no = 3, area = script_text [cs ''a'', cs ''b'', cs ''c''] @ [0], drawn = []\<rparr>) = Some 2"
  by code_simp

text \<open>Deleting the only line selects a line before the first one.\<close>

lemma delete_only_line:
  "map_option (\<lambda>w. (entryno w, entries_no w)) (edit_delete \<lparr>box_h = 2, dumb = True, menu_at = 0, config_at = None\<rparr>
     \<lparr>first_entry = 0, entryno = 0, temp_entryno = 0, entries_no = 1, area = script_text [cs ''a''] @ [0], drawn = []\<rparr>) = Some (-1, 0)"
  by code_simp

text \<open>After an error in an edited entry, the next fallback entry is looked for in a list that is \<open>NULL\<close>.\<close>

lemma boot_edited_fallback:
  assumes "config_at v = None" "debug s \<le>s 0" "0 \<le> fallback_entryno t" "r \<noteq> 0"
    and "run_script e (drop p (area w)) (boot_start (first_entry w + entryno w) s) = Some (r, t)"
    and "n < length (fallback_entries (world t))" "n = nat (fallback_entryno t)" "next_fallback t = Some t'" "debug t' \<le>s 0"
  shows "boot_loop e v (Some p) w s = None"
proof -
  have nd: "\<not> 0 <s debug s" "\<not> 0 <s debug t'" using assms(2,9) not_sle by blast+
  have "boot_loop e v None (w\<lparr>first_entry := 0, entryno := sint (fallback_entries (world t) ! n)\<rparr>) t' = None"
    using nd(2) assms(1) by (subst boot_loop.simps) (simp add: boot_commands_def)
  then show ?thesis
    using nd(1) assms by (subst boot_loop.simps) (simp add: boot_commands_def boot_start_def rd_def)
qed

section \<open>A menu of two entries\<close>

definition ui_cmd :: "string \<Rightarrow> u32 \<Rightarrow> int \<Rightarrow> (unit, unit, menu_ui) builtin" where
  "ui_cmd n fl r = \<lparr>name = cs n, flags = fl, func = (\<lambda>a mode s. Some (r, print_tty [Print (cs n)] s)), is_commandline_func = False\<rparr>"

definition ui_env :: "(unit, unit, menu_ui) shell_env" where
  "ui_env = \<lparr>builtin_table = [ui_cmd ''no'' 3 0, ui_cmd ''title'' BUILTIN_TITLE 0, ui_cmd ''yes'' 3 1], init_builtins = Some,
     saved_mem_upper = 1000, mmap_length = 0\<rparr>"

definition ui_world :: "u8 list \<Rightarrow> menu_ui" where
  "ui_world file = \<lparr>default_entry = 0, fallback_entries = replicate 8 0, password = 16, password_type = PASSWORD_PLAIN,
     auth = False, grub_timeout = -1, show_menu = True, saved_entryno = 0, bootdev = 0,
     md5 = \<lparr>state = (0, 0, 0, 0), len = 0, buffer = replicate 64 0\<rparr>, current_entryno = 0, config_file = file\<rparr>"

definition ui_mem :: mem where
  "ui_mem = poke 16 (cs ''pw'' @ [0]) (\<lambda>a. 0)"

definition ui_shell :: "u8 list \<Rightarrow> (unit, unit, unit) ushell" where
  "ui_shell h = globals.extend (globals_start ui_mem () ()) (shell.fields h (-1) False True (-1) False 0x80 0xFFFFFF (ui_world [0]))"

definition ui_io :: "(unit, unit, unit) menu_io" where
  "ui_io = \<lparr>getrtsecs = Pair 0, checkkey = Pair (-1), getkey = Pair 0, password_line = (\<lambda>s. Some (cs ''pw'' @ [0], s)),
     edit_cmdline = (\<lambda>b s. Some (None, s)), cmd_readers = (\<lambda>s. [])\<rparr>"

definition ui_scripts :: "u8 list list list" where
  "ui_scripts = [[cs ''yes''], [cs ''yes'', cs ''no'']]"

definition ui_view :: view where
  "ui_view = \<lparr>first_entry = 0, entryno = 1, temp_entryno = 0, entries_no = 2,
     area = entries_text ui_scripts @ 0 # script_text [cs ''a'', cs ''b''] @ [0], drawn = []\<rparr>"

definition ui_terminal :: menu_env where
  "ui_terminal = \<lparr>box_h = 4, dumb = False, menu_at = length (entries_text ui_scripts @ [0]), config_at = Some 0\<rparr>"

lemma ui_env_ok: "table_ok (builtin_table ui_env)"
  by code_simp

lemma ui_view_commands: "has_commands (area ui_view) 0 ui_scripts"
  unfolding has_commands_def
  by (rule conjI, rule exI [of _ "[]"], rule exI [of _ "0 # script_text [cs ''a'', cs ''b''] @ [0]"])
    (simp_all add: ui_view_def ui_scripts_def)

theorem boot_runs_entry_witness:
  "map_option (\<lambda>(w, t). (w = ui_view, current_entryno (world t), out t)) (boot_loop ui_env ui_terminal None ui_view ((ui_shell (replicate 16 0))\<lparr>debug := 1\<rparr>))
     = Some (True, 1, [Print (cs ''  Booting '' @ [39] @ cs ''b'' @ [39]), Print [10, 10], Print (cs ''yes''), Print (cs ''no'')])"
proof -
  let ?s = "(ui_shell (replicate 16 0))\<lparr>debug := 1\<rparr>" and ?ts = "[cs ''a'', cs ''b'']"
  define s0 where "s0 = (boot_start 1 (booting (?ts ! nat 1) ?s))\<lparr>saved_drive := 0x80, saved_partition := 0xFFFFFF, mem_upper := 1000\<rparr>"
  define r where "r = entry_run ui_env (ui_scripts ! nat 1) s0"
  have i: "init_cmdline ui_env (boot_start 1 (booting (?ts ! nat 1) ?s)) = Some s0"
    by (simp add: init_cmdline_def ui_env_def s0_def ui_shell_def globals_start_def globals.defs shell.defs boot_start_def on_world_def booting_def print_tty_def)
  have "map_option (\<lambda>(x, t). (x, current_entryno (world t), out t)) r =
      Some (0, 1, [Print (cs ''  Booting '' @ [39] @ cs ''b'' @ [39]), Print [10, 10], Print (cs ''yes''), Print (cs ''no'')])"
    "map_option (\<lambda>(x, t). (length (fallback_entries (world t)), fallback_entryno t)) r = Some (8, -1)"
    unfolding r_def s0_def by code_simp+
  then obtain t where t: "r = Some (0, t)" "current_entryno (world t) = 1"
      "out t = [Print (cs ''  Booting '' @ [39] @ cs ''b'' @ [39]), Print [10, 10], Print (cs ''yes''), Print (cs ''no'')]"
      and fb: "length (fallback_entries (world t)) = MAX_FALLBACK_ENTRIES" "fallback_entryno t < int MAX_FALLBACK_ENTRIES"
    by (auto simp: MAX_FALLBACK_ENTRIES_def)
  have w: "config_at ui_terminal = Some 0" "1 = first_entry ui_view + entryno ui_view" "1 < int (length ui_scripts)" "length ?ts = length ui_scripts"
    by (simp_all add: ui_terminal_def ui_view_def ui_scripts_def)
  have ti: "has_titles (area ui_view) (menu_at ui_terminal) ?ts"
    unfolding has_titles_def
    by (rule conjI, rule exI [of _ "entries_text ui_scripts @ [0]"], rule exI [of _ "[]"]) (simp_all add: ui_view_def ui_terminal_def)
  show ?thesis
    using boot_runs_entry [OF ui_env_ok w(1) ui_view_commands ti w(2) _ w(3,4) i t(1) [unfolded r_def] refl refl] t(2-) fb by simp
qed

text \<open>An entry that loads a kernel, and a \<open>boot\<close> that fails: the entry has failed.\<close>

definition kernel_env :: "(unit, unit, menu_ui) shell_env" where
  "kernel_env = ui_env\<lparr>builtin_table :=
     [(ui_cmd ''boot'' 3 0)\<lparr>func := (\<lambda>a mode s. Some (0, fail ERR_BOOT_FAILURE s))\<rparr>,
      (ui_cmd ''kernel'' 3 1)\<lparr>func := (\<lambda>a mode s. Some (1, s\<lparr>kernel_loaded := True\<rparr>))\<rparr>]\<rparr>"

lemma entry_run_boot_fails:
  "map_option (\<lambda>(x, t). (x, kernel_loaded t, out t)) (entry_run kernel_env [cs ''kernel''] ((ui_shell (replicate 16 0))\<lparr>fallback_entryno := 0\<rparr>))
     = Some (1, True, [])"
  by code_simp

theorem locked_menu_keeps_witness:
  "\<exists>w s'. menu_key (\<lambda>_ _. None) ui_env ui_io ui_terminal 0x70 ui_view (ui_shell [0]) = Some (Restart, w, s') \<and> auth (world s')
     \<and> area w = area ui_view"
proof -
  define r where "r = menu_key (\<lambda>_ _. None) ui_env ui_io ui_terminal 0x70 ui_view (ui_shell [0])"
  have "map_option (\<lambda>(a, w, t). (a, auth (world t))) r = Some (Restart, True)"
    unfolding r_def by code_simp
  then obtain w s' where r: "r = Some (Restart, w, s')" "auth (world s')" by auto
  have l: "locked (ui_shell [0])" "config_at ui_terminal = Some 0" "length (buffer (md5 (world (ui_shell [0])))) = 64"
    by (simp_all add: locked_def ui_shell_def globals.defs shell.defs globals_start_def ui_world_def ui_terminal_def)
  have p: "prompt_ok ui_io"
  proof -
    have "str_of (cs ''pw'' @ [0]) 0 = Some (cs ''pw'')" by (rule str_of_literal) simp
    then show ?thesis by (simp add: prompt_ok_def ui_io_def)
  qed
  have "str_of (peek (mem (ui_shell [0])) (password (world (ui_shell [0]))) PASSWORD_BUFLEN) 0 = Some (cs ''pw'')"
    by code_simp
  then show ?thesis using locked_menu_keeps [OF l(1,2) r(1) [unfolded r_def] p l(3)] r by (auto simp: r_def)
qed

definition ui_cmds :: "(unit, unit, unit menu_ui_ext) cmd_env" where
  "ui_cmds = \<lparr>disks = image_bios (\<lambda>i. 0) (demo_geometry 1), fsystems = [],
     unzip = \<lparr>gunzip_test_header = (\<lambda>s. Some (True, s)), gunzip_read = (\<lambda>b n s. Some (0, s))\<rparr>,
     get_password = (\<lambda>s. Some (cs ''pw'' @ [0], s)), setcolor = None, partnew_file = (\<lambda>a ty s. Some (None, s)),
     other_func = (\<lambda>n a mode s. Some (0, s))\<rparr>"

definition ui_main :: main_env where
  "ui_main = \<lparr>use_config_file = True, debug_boot = False, stack = 0x5000, behind = replicate 64 0, main_box_h = 12, main_dumb = False\<rparr>"

theorem unopened_config_leaves_loop_witness:
  "\<exists>s'. cmain ui_env ui_cmds ui_io ui_main \<lparr>preset_menu = 0, preset_text = [], preset_menu_offset = 0\<rparr> (ui_shell [0]) = Some (LeftLoop, s')"
proof -
  let ?p = "\<lparr>preset_menu = 0, preset_text = [], preset_menu_offset = 0\<rparr> :: preset"
  let ?s = "reset ((ui_shell [0])\<lparr>debug := of_bool (debug_boot ui_main) + 1\<rparr>)"
  have f: "config_file (world ?s) = [0]"
    by (simp add: reset_def init_config_def on_world_def ui_shell_def globals.defs shell.defs ui_world_def)
  obtain t where t: "read_saved_entry ui_cmds (stack ui_main) ?s = Some t" "config_file (world t) = [0]"
    using f by (simp add: read_saved_entry_def on_world_def)
  have c: "rd (config_file (world t)) 0 = Some 0" using t(2) by (simp add: rd_def)
  show ?thesis
    by (rule unopened_config_leaves_loop [OF _ _ t(1) c]) (simp_all add: ui_main_def)
qed

text \<open>A preset menu with a command, a comment, an empty entry, a line in two pieces and two entries.\<close>

definition ui_preset :: preset where
  "ui_preset = \<lparr>preset_menu = 0x800, preset_text =
     cs ''yes=1'' @ [10] @ cs ''# c'' @ [10, 10] @ cs ''title X'' @ [10] @ cs ''title A'' @ [10] @ cs '' no x'' @ [92, 10] @ cs ''y'' @ [13, 10]
       @ cs ''title=B'' @ [10] @ cs ''yes'' @ [9] @ cs ''z'' @ [10, 0], preset_menu_offset = 0\<rparr>"

theorem preset_menu_entries_witness:
  "\<exists>c p' s' q. config_lines ui_env NEW_HEAPSIZE (config_source ui_cmds 0 True) cfg_start (ui_preset, ui_shell [0]) = Some (c, p', s')
     \<and> num_entries (config_finish c) = 2
     \<and> get_entry (config_entries (config_finish c) @ menu_entries (config_finish c)) (length (config_entries (config_finish c))) 1 False = Some q
     \<and> str_of (config_entries (config_finish c) @ menu_entries (config_finish c)) q = Some (cs ''B'')"
proof -
  let ?ls = "config_text_lines (preset_rest ui_preset)"
  have ls: "?ls = [cs ''yes=1'', cs ''title X'', cs ''title A'', cs ''no x y'', cs ''title=B'', cs ''yes z'']"
    by code_simp
  have m: "menu_of (builtin_table ui_env) ?ls = ([cs ''yes=1''], [(cs ''A'', [cs ''no x y'']), (cs ''B'', [cs ''yes z''])])"
    unfolding ls by code_simp
  have r: "preset_ready ui_preset" by code_simp
  have n: "\<forall>x \<in> set ?ls. length x \<le> NEW_HEAPSIZE" unfolding ls by (simp add: NEW_HEAPSIZE_def)
  obtain c p' s' where c: "config_lines ui_env NEW_HEAPSIZE (config_source ui_cmds 0 True) cfg_start (ui_preset, ui_shell [0]) = Some (c, p', s')"
      "num_entries (config_finish c) = 2"
      "\<exists>q. get_entry (config_entries (config_finish c) @ menu_entries (config_finish c)) (length (config_entries (config_finish c))) (int 1) False = Some q
        \<and> str_of (config_entries (config_finish c) @ menu_entries (config_finish c)) q = Some (cs ''B'')"
    using preset_menu_entries [OF ui_env_ok r n m, of ui_cmds 0 "ui_shell [0]"] by (auto simp: Let_def dest!: spec [of _ 1])
  then show ?thesis by auto
qed

end
