(* ===== verification/Spec2Isabelle.thy ===== *)
theory Spec2Isabelle
imports NumText LineKeys Terminal Md5 BlockOpen DiskSafe HidePart BuiltinSpec FatFile MenuBoot
begin

text \<open>
  \<^bold>\<open>A model of the GRUB4DOS second stage\<close>

  The repository packages GRUB4DOS, a boot loader derived from GNU GRUB, with a Windows installer.  The
  core of the loader is \<open>src/grub4dos/stage2/\<close>: a library without an operating system under it
  (\<open>char_io.c\<close>), access to disks through the BIOS (\<open>bios.c\<close>, \<open>disk_io.c\<close>), filesystem drivers
  (\<open>fsys_*.c\<close>), and a command interpreter with its commands (\<open>cmdline.c\<close>, \<open>builtins.c\<close>, \<open>stage2.c\<close>).
  The model follows the i386 build of the second stage (no \<open>STAGE1_5\<close>, no \<open>GRUB_UTIL\<close>) in its default
  configuration.

  \<^bold>\<open>Conventions.\<close>  Integers keep their 32, 16 or 8 bits (\<open>u32\<close>, \<open>u16\<close>, \<open>u8\<close>).  An array or string buffer is
  the list of its bytes with an index as the pointer, and an access outside it is \<open>None\<close>; code that works on
  absolute addresses works on flat memory, a function from addresses to bytes.  A result \<open>None\<close>
  always means undefined behaviour of the C code (an access out of bounds, a call of \<open>NULL\<close>, a division by
  zero) or that the code does not return; errors the code reports are values of \<open>grub_error\<close> in \<open>errnum\<close>.
  The interrupts, the terminal drivers, the filesystem drivers and the commands' functions are arguments.

  \<^bold>\<open>Theories and the code they model\<close>

  \<^item> \<open>CBase\<close> is the prelude: the machine types, \<open>grub_error\<close> (\<open>shared.h\<close>), checked reads and writes (\<open>rd\<close>, \<open>wr\<close>), C
    strings, little-endian fields.
  \<^item> \<open>StringLib\<close>: the string and block functions of \<open>char_io.c\<close> (\<open>grub_strcmp\<close>, \<open>substring\<close>, \<open>grub_strstr\<close>,
    \<open>grub_strncat\<close>, \<open>grub_memmove\<close>, \<open>memcheck\<close> and others).
  \<^item> \<open>NumText\<close>: \<open>convert_to_ascii\<close>, \<open>grub_printf\<close>, \<open>grub_sprintf\<close>, \<open>safe_parse_maxint\<close> of \<open>char_io.c\<close>.
  \<^item> \<open>LineEdit\<close>, \<open>LineSpec\<close>, \<open>LineKeys\<close>: the command-line editor \<open>get_cmdline\<close> of \<open>char_io.c\<close>, its specification as
    a zipper with a history and a screen row, and the refinement.
  \<^item> \<open>Terminal\<close>: \<open>grub_putchar\<close> with its pager.  \<open>Md5\<close>: \<open>md5.c\<close> with RFC 1321 as the reference.
  \<^item> \<open>Globals\<close>: the variables several components share, as an extensible record.
  \<^item> \<open>Bios\<close>: \<open>biosdisk\<close>, \<open>get_diskinfo\<close> of \<open>bios.c\<close>.  \<open>RawDisk\<close>: \<open>rawread\<close> with the track buffer, \<open>devread\<close>, \<open>rawwrite\<close>,
    \<open>devwrite\<close> of \<open>disk_io.c\<close>.  \<open>DiskRead\<close>: that they deliver the bytes of the disk, proved once in the locale
    \<open>sector_source\<close> and interpreted for the disk address packet (\<open>edd\<close>) and for cylinders, heads and sectors (\<open>chs\<close>).
  \<^item> \<open>DiskSafe\<close>: that reading returns with an error code whatever the BIOS does.  \<open>DiskWrite\<close>: writing, the track buffer
    after it and the round trip with reading; \<open>sector_source\<close> interpreted once more for a drive that is written (\<open>rw\<close>).
  \<^item> \<open>PartTable\<close>: the tables of \<open>pc_slice.h\<close> and the iteration over partitions.  \<open>SliceWalk\<close>: its
    specification as the inductive relation \<open>slice_after\<close> on the tables of the disk, and the refinement.  \<open>OpenPart\<close>: opening partitions and
    mounting.  \<open>DevName\<close>: \<open>set_device\<close> and \<open>setup_part\<close>, with the round trip of device names.
  \<^item> \<open>BlockDev\<close>: the interface \<open>partition_reader\<close> between the disk layer and file access, interpreted on \<open>devread\<close>
    for both kinds of drives.  \<open>FileIO\<close>: \<open>dir\<close>, \<open>grub_open\<close>, \<open>grub_read\<close>, \<open>grub_close\<close>.  \<open>BlockFile\<close> and \<open>BlockOpen\<close>: block
    files, opened and read.
  \<^item> \<open>FatFs\<close>: the FAT driver \<open>fsys_fat.c\<close>, its superblock and buffers in memory.  \<open>FatSpec\<close>: the allocation table as numbers in
    nibbles, the chain of clusters and the bytes of a file.  \<open>FatRead\<close>: reading, proved in the locale \<open>fat_reader\<close> of two
    partition readers (with and without the hook) and interpreted on \<open>devread\<close>.  \<open>FatMount\<close>: mounting against the
    geometry of the first sector.  \<open>FatName\<close>: long names.  \<open>FatFile\<close>: the driver behind \<open>grub_read\<close>.
  \<^item> \<open>CmdLine\<close>: \<open>find_command\<close>, \<open>enter_cmdline\<close>, \<open>run_script\<close> of \<open>cmdline.c\<close>.
  \<^item> \<open>PartCmd\<close>: the commands of \<open>builtins.c\<close> on partition tables (\<open>hide\<close>, \<open>unhide\<close>, \<open>hiddenflag\<close>, \<open>parttype\<close>, \<open>makeactive\<close>,
    \<open>partnew\<close>).  \<open>HidePart\<close>: hiding and unhiding a primary partition, down to the bytes of the disk.
  \<^item> \<open>Builtins\<close>: the commands of \<open>builtins.c\<close> for the menu and the interpreter, the password check and \<open>builtin_table\<close>
    itself, as the table \<open>CmdLine\<close> searches.  \<open>BuiltinSpec\<close>: what they do together with the interpreter.
  \<^item> \<open>MenuConfig\<close>: the configuration file in \<open>stage2.c\<close> (\<open>get_line_from_config\<close>, the preset menu, the areas of titles and
    commands, the commands before the first title, the checks of \<open>fallback\<close> and \<open>default\<close>).  \<open>MenuRun\<close>: \<open>get_entry\<close>, the drawing of
    the menu and its keys.  \<open>MenuLoop\<close>: the rest of \<open>run_menu\<close>, as turns of its loop that end in an action (\<open>menu_act\<close>).
    \<open>MenuMain\<close>: \<open>reset\<close> and \<open>cmain\<close>.
  \<^item> \<open>MenuView\<close>: the area as a list of titles, and the screen after any keys.  \<open>MenuArea\<close>: the areas against the entries a
    list of lines stands for.  \<open>MenuText\<close>: the lines against the text of a configuration, in the locale \<open>byte_stream\<close> of a
    source, interpreted on the preset menu.  \<open>MenuSpec\<close> and \<open>MenuBoot\<close>: editing, fallback entries, booting, the password.

  \<^bold>\<open>Bounds and fuel.\<close>  Loops whose end the code guarantees are total functions with a measure, mostly the
  rest of a buffer.  \<open>rawread\<close> runs with fuel \<open>byte_len + 2\<close>, which is enough because every turn but the first
  delivers a byte (\<open>rawread_reads\<close> proves it).  Loops that need not end (the chain of extended partitions,
  the search in a block list, a chain of clusters, a directory, scripts, the lines of a
  configuration, the loop of the menu) are \<open>partial_function\<close>s, and the theorems about them prove that a result
  is returned.

  \<^bold>\<open>Not modelled.\<close>  The network boot code (\<open>netboot/\<close>) and the drivers of the other filesystems,
  decompression (\<open>gunzip.c\<close>), the loaders of \<open>boot.c\<close>, the probing of \<open>common.c\<close>, most commands of \<open>builtins.c\<close>, the
  serial and graphics terminals, the assembly files, the user-space shell (\<open>grub/\<close>, \<open>lib/\<close>, \<open>util/\<close>) and the
  Windows installer.
\<close>

end
